(* ===== verification/Prelude.thy ===== *)
theory Prelude
  imports Complex_Main "HOL-Library.Word"
begin

text \<open>
  What every component of the development shares: the error vocabulary of
  \<^verbatim>\<open>packages/protocol/src/errors.ts\<close>, the reading of an \<^verbatim>\<open>async\<close> TypeScript
  function as a state transformer that ends in a thrown error or a value, the
  Hoare rules by which the handlers are verified, and a few list lemmas.
\<close>

section \<open>Strings\<close>

text \<open>A JavaScript string is a list of UTF-16 code units; \<open>js\<close> is an ASCII literal of the source.\<close>

type_synonym utf16 = "16 word list"

definition js :: "string \<Rightarrow> utf16" where
  "js s = map (\<lambda>c. word_of_int (of_char c)) s"

lemma js_eq [simp]: "js s = js t \<longleftrightarrow> s = t"
proof -
  have b: "0 \<le> (of_char c :: int) \<and> of_char c < (65536 :: int)" for c
    using of_char_mod_256 [of c, where 'a = int] pos_mod_bound [of 256 "of_char c"] pos_mod_sign [of 256 "of_char c :: int"]
    by simp
  have "inj (\<lambda>c :: char. word_of_int (of_char c) :: 16 word)"
  proof (rule injI)
    fix c d :: char assume "(word_of_int (of_char c) :: 16 word) = word_of_int (of_char d)"
    then have "(of_char c :: int) mod 65536 = of_char d mod 65536" by (simp add: word_of_int_eq_iff take_bit_eq_mod)
    then have "(of_char c :: int) = of_char d" using b [of c] b [of d] by simp
    then show "c = d" by simp
  qed
  then show ?thesis by (simp add: js_def inj_map_eq_map)
qed

section \<open>Error vocabulary (errors.ts)\<close>

datatype error_code =
    INVALID_REQUEST | SESSION_NOT_FOUND | SESSION_NOT_READY | SESSION_SUSPENDED
  | SESSION_EXPIRED | SCOPE_DENIED | POLICY_DENIED | POLICY_UNAVAILABLE
  | APPROVAL_REQUIRED | APPROVAL_DENIED | APPROVAL_TIMEOUT | APPROVAL_UNAVAILABLE
  | SECRET_UNAVAILABLE | AUDIT_UNAVAILABLE | ADAPTER_NOT_FOUND | METHOD_NOT_FOUND
  | PARAMS_INVALID | SERVICE_TIMEOUT | SERVICE_ERROR | RATE_LIMITED | SANDBOX_FAILED
  | BINARY_NOT_ALLOWED | PATH_DENIED | INTERNAL

text \<open>
  A thrown value is a \<^verbatim>\<open>CaissonError\<close> (its code, its message and the string-valued
  details the code attaches) or any other JavaScript error, which the code only
  ever distinguishes from a \<^verbatim>\<open>CaissonError\<close> by \<^verbatim>\<open>instanceof\<close>.
\<close>

datatype js_error =
    CaissonError (err_code: error_code) (err_message: utf16) (err_details: "(string \<times> utf16) list")
  | ForeignError

abbreviation Caisson :: "error_code \<Rightarrow> string \<Rightarrow> js_error" where
  "Caisson c m \<equiv> CaissonError c (js m) []"

fun is_caisson :: "js_error \<Rightarrow> bool" where
  "is_caisson (CaissonError _ _ _) = True"
| "is_caisson ForeignError = False"

text \<open>\<^verbatim>\<open>Number.isSafeInteger(value) && value > 0\<close>, the test of every configured limit.\<close>

definition positive_safe :: "int \<Rightarrow> bool" where
  "positive_safe v \<longleftrightarrow> 0 < v \<and> v \<le> 2 ^ 53 - 1"

section \<open>Async functions as state transformers\<close>

text \<open>
  An \<^verbatim>\<open>async\<close> function of the source is a function from the state it works on to the
  thrown error (\<open>Inl\<close>) or returned value (\<open>Inr\<close>) together with the state it leaves
  behind. A throw keeps the effects made before it, as the code does; only
  database transactions roll back (see the theory of the world).
\<close>

type_synonym ('s, 'a) proc = "'s \<Rightarrow> (js_error + 'a) \<times> 's"

named_theorems proc_defs "the combinators of state transformers, unfolded"

definition ret :: "'a \<Rightarrow> ('s, 'a) proc" where [proc_defs]:
  "ret x = (\<lambda>s. (Inr x, s))"

definition throw :: "js_error \<Rightarrow> ('s, 'a) proc" where [proc_defs]:
  "throw e = (\<lambda>s. (Inl e, s))"

definition bnd :: "('s, 'a) proc \<Rightarrow> ('a \<Rightarrow> ('s, 'b) proc) \<Rightarrow> ('s, 'b) proc" where [proc_defs]:
  "bnd m f = (\<lambda>s. case m s of (Inl e, s') \<Rightarrow> (Inl e, s') | (Inr x, s') \<Rightarrow> f x s')"

abbreviation seq :: "('s, 'a) proc \<Rightarrow> ('s, 'b) proc \<Rightarrow> ('s, 'b) proc" where
  "seq m n \<equiv> bnd m (\<lambda>_. n)"

definition gets :: "('s \<Rightarrow> 'a) \<Rightarrow> ('s, 'a) proc" where [proc_defs]:
  "gets f = (\<lambda>s. (Inr (f s), s))"

definition modify :: "('s \<Rightarrow> 's) \<Rightarrow> ('s, unit) proc" where [proc_defs]:
  "modify f = (\<lambda>s. (Inr (), f s))"

text \<open>\<^verbatim>\<open>try { m } catch (e) { h(e) }\<close> and \<^verbatim>\<open>try { m } finally { fin }\<close>; an error
  thrown by the \<^verbatim>\<open>finally\<close> block replaces the outcome of the body.\<close>

definition try_catch :: "('s, 'a) proc \<Rightarrow> (js_error \<Rightarrow> ('s, 'a) proc) \<Rightarrow> ('s, 'a) proc" where [proc_defs]:
  "try_catch m h = (\<lambda>s. case m s of (Inl e, s') \<Rightarrow> h e s' | (Inr x, s') \<Rightarrow> (Inr x, s'))"

definition try_finally :: "('s, 'a) proc \<Rightarrow> ('s, unit) proc \<Rightarrow> ('s, 'a) proc" where [proc_defs]:
  "try_finally m fin = (\<lambda>s. case m s of (r, s') \<Rightarrow>
     (case fin s' of (Inl e, s'') \<Rightarrow> (Inl e, s'') | (Inr _, s'') \<Rightarrow> (r, s'')))"

definition of_result :: "js_error + 'a \<Rightarrow> ('s, 'a) proc" where [proc_defs]:
  "of_result r = (\<lambda>s. (r, s))"

text \<open>\<^verbatim>\<open>for (const x of xs) await f(x)\<close>: the first throw ends the loop.\<close>

fun for_each :: "'a list \<Rightarrow> ('a \<Rightarrow> ('s, unit) proc) \<Rightarrow> ('s, unit) proc" where
  "for_each [] f = ret ()"
| "for_each (x # xs) f = seq (f x) (for_each xs f)"

lemma bnd_ret [simp]: "bnd (ret x) f = f x"
  by (simp add: proc_defs)

lemma bnd_throw [simp]: "bnd (throw e) f = throw e"
  by (simp add: proc_defs)

lemma bnd_assoc: "bnd (bnd m f) g = bnd m (\<lambda>x. bnd (f x) g)"
  by (rule ext) (simp add: proc_defs split: prod.splits sum.splits)

lemma snd_bnd_Inl: "m s = (Inl e, s') \<Longrightarrow> bnd m f s = (Inl e, s')"
  by (simp add: bnd_def)

lemma snd_bnd_Inr: "m s = (Inr x, s') \<Longrightarrow> bnd m f s = f x s'"
  by (simp add: bnd_def)

lemma bndE:
  assumes "bnd m f s = (r, s')"
  obtains (err) e where "m s = (Inl e, s')" "r = Inl e" | (ok) x s1 where "m s = (Inr x, s1)" "f x s1 = (r, s')"
  using assms by (auto simp: bnd_def split: prod.splits sum.splits)

section \<open>Hoare triples\<close>

text \<open>
  \<open>triple P m Q E\<close>: from a state with \<open>P\<close> the transformer \<open>m\<close> either returns a value
  in a state with \<open>Q\<close> or throws an error in a state with \<open>E\<close>. All transformers are
  total, so this is total correctness.
\<close>

definition triple :: "('s \<Rightarrow> bool) \<Rightarrow> ('s, 'a) proc \<Rightarrow> ('a \<Rightarrow> 's \<Rightarrow> bool) \<Rightarrow> (js_error \<Rightarrow> 's \<Rightarrow> bool) \<Rightarrow> bool" where
  "triple P m Q E \<longleftrightarrow>
     (\<forall>s. P s \<longrightarrow> (case m s of (Inr x, s') \<Rightarrow> Q x s' | (Inl e, s') \<Rightarrow> E e s'))"

text \<open>\<open>pres I m\<close>: \<open>m\<close> keeps \<open>I\<close> whether it returns or throws.\<close>

definition pres :: "('s \<Rightarrow> bool) \<Rightarrow> ('s, 'a) proc \<Rightarrow> bool" where
  "pres I m \<longleftrightarrow> (\<forall>s. I s \<longrightarrow> I (snd (m s)))"

named_theorems triple_rules "composition rules of triples"
named_theorems pres_rules "composition rules of preserved invariants"

lemma tripleI:
  assumes "\<And>s x s'. P s \<Longrightarrow> m s = (Inr x, s') \<Longrightarrow> Q x s'"
    and "\<And>s e s'. P s \<Longrightarrow> m s = (Inl e, s') \<Longrightarrow> E e s'"
  shows "triple P m Q E"
  unfolding triple_def
proof (intro allI impI)
  fix s assume "P s"
  then show "case m s of (Inr x, s') \<Rightarrow> Q x s' | (Inl e, s') \<Rightarrow> E e s'"
    using assms by (cases "m s", cases "fst (m s)") auto
qed

lemma triple_Inr: "triple P m Q E \<Longrightarrow> P s \<Longrightarrow> m s = (Inr x, s') \<Longrightarrow> Q x s'"
  by (auto simp: triple_def dest!: spec [of _ s])

lemma triple_Inl: "triple P m Q E \<Longrightarrow> P s \<Longrightarrow> m s = (Inl e, s') \<Longrightarrow> E e s'"
  by (auto simp: triple_def dest!: spec [of _ s])

lemma triple_conseq:
  "triple P m Q E \<Longrightarrow> (\<And>s. P' s \<Longrightarrow> P s) \<Longrightarrow> (\<And>x s. Q x s \<Longrightarrow> Q' x s)
     \<Longrightarrow> (\<And>e s. E e s \<Longrightarrow> E' e s) \<Longrightarrow> triple P' m Q' E'"
  unfolding triple_def by (fastforce split: prod.splits sum.splits)

lemma triple_ret [triple_rules]: "(\<And>s. P s \<Longrightarrow> Q x s) \<Longrightarrow> triple P (ret x) Q E"
  by (simp add: triple_def ret_def)

lemma triple_throw [triple_rules]: "(\<And>s. P s \<Longrightarrow> E e s) \<Longrightarrow> triple P (throw e) Q E"
  by (simp add: triple_def throw_def)

lemma triple_bnd [triple_rules]:
  assumes "triple P m R E" and "\<And>x. triple (R x) (f x) Q E"
  shows "triple P (bnd m f) Q E"
  using assms unfolding triple_def bnd_def
  by (fastforce split: prod.splits sum.splits)

lemma triple_try_catch [triple_rules]:
  assumes "triple P m Q R" and "\<And>e. triple (R e) (h e) Q E"
  shows "triple P (try_catch m h) Q E"
  using assms unfolding triple_def try_catch_def
  by (fastforce split: prod.splits sum.splits)

lemma triple_of_result: "triple A (of_result r) (\<lambda>x w. A w \<and> r = Inr x) (\<lambda>_. A)"
  by (simp add: triple_def of_result_def split: sum.splits)

lemma triple_gets: "triple A (gets f) (\<lambda>_. A) (\<lambda>_. A)"
  by (simp add: triple_def gets_def)

lemma triple_fact: "(\<phi> \<Longrightarrow> triple A m Q E) \<Longrightarrow> triple (\<lambda>w. A w \<and> \<phi>) m Q E"
  by (auto simp: triple_def)

lemma triple_run: "triple A m Q E \<Longrightarrow> A s \<Longrightarrow> m s = (r, s') \<Longrightarrow> case r of Inr x \<Rightarrow> Q x s' | Inl e \<Rightarrow> E e s'"
  unfolding triple_def by (auto split: sum.splits dest!: spec [of _ s])

lemma triple_try_finally:
  assumes "triple A m Q E" and "\<And>x. triple (Q x) fin (\<lambda>_. Q' x) (\<lambda>_ _. False)" and "\<And>e. triple (E e) fin (\<lambda>_. E' e) (\<lambda>_ _. False)"
  shows "triple A (try_finally m fin) Q' E'"
proof -
  have "case try_finally m fin s of (Inr x, s') \<Rightarrow> Q' x s' | (Inl e, s') \<Rightarrow> E' e s'" if "A s" for s
  proof (cases "m s")
    case (Pair r s1)
    show ?thesis
    proof (cases r)
      case (Inr x)
      with triple_Inr [OF assms(1) that] Pair have "Q x s1" by simp
      with assms(2) [of x] have "case fin s1 of (Inr _, s') \<Rightarrow> Q' x s' | (Inl _, _) \<Rightarrow> False" unfolding triple_def by fastforce
      with Pair Inr show ?thesis by (auto simp: try_finally_def split: prod.splits sum.splits)
    next
      case (Inl e)
      with triple_Inl [OF assms(1) that] Pair have "E e s1" by simp
      with assms(3) [of e] have "case fin s1 of (Inr _, s') \<Rightarrow> E' e s' | (Inl _, _) \<Rightarrow> False" unfolding triple_def by fastforce
      with Pair Inl show ?thesis by (auto simp: try_finally_def split: prod.splits sum.splits)
    qed
  qed
  then show ?thesis unfolding triple_def by blast
qed

lemma triple_weaken_error: "triple P m Q E \<Longrightarrow> triple P m Q (\<lambda>_ _. True)"
  by (erule triple_conseq) simp_all

lemma triple_pre: "triple P m Q E \<Longrightarrow> (\<And>s. P' s \<Longrightarrow> P s) \<Longrightarrow> triple P' m Q E"
  by (erule triple_conseq) simp_all

text \<open>A loop, with an invariant over the elements done.\<close>

lemma triple_for_each:
  assumes "\<And>ys x zs. xs = ys @ x # zs \<Longrightarrow> triple (J ys) (f x) (\<lambda>_. J (ys @ [x])) E"
  shows "triple (J []) (for_each xs f) (\<lambda>_. J xs) E"
proof -
  have "triple (J ys) (for_each zs f) (\<lambda>_. J xs) E" if "xs = ys @ zs" for ys zs
    using that
  proof (induction zs arbitrary: ys)
    case Nil
    then show ?case by (auto intro: triple_ret)
  next
    case (Cons z zs)
    show ?case unfolding for_each.simps
      by (rule triple_bnd [OF assms [OF Cons.prems] Cons.IH]) (use Cons.prems in simp)
  qed
  from this [of "[]" xs] show ?thesis by simp
qed

lemma pres_ret [pres_rules]: "pres I (ret x)"
  by (simp add: pres_def ret_def)

lemma pres_throw [pres_rules]: "pres I (throw e)"
  by (simp add: pres_def throw_def)

lemma pres_gets [pres_rules]: "pres I (gets f)"
  by (simp add: pres_def gets_def)

lemma pres_of_result [pres_rules]: "pres I (of_result r)"
  by (simp add: pres_def of_result_def)

lemma pres_modify [pres_rules]: "(\<And>s. I s \<Longrightarrow> I (f s)) \<Longrightarrow> pres I (modify f)"
  by (simp add: pres_def modify_def)

lemma pres_bnd [pres_rules]: "pres I m \<Longrightarrow> (\<And>x. pres I (f x)) \<Longrightarrow> pres I (bnd m f)"
  unfolding pres_def bnd_def
  by (fastforce split: prod.splits sum.splits)

lemma pres_try_catch [pres_rules]:
  "pres I m \<Longrightarrow> (\<And>e. pres I (h e)) \<Longrightarrow> pres I (try_catch m h)"
  unfolding pres_def try_catch_def
  by (fastforce split: prod.splits sum.splits)

lemma pres_try_finally [pres_rules]:
  "pres I m \<Longrightarrow> pres I fin \<Longrightarrow> pres I (try_finally m fin)"
  unfolding pres_def try_finally_def
  by (fastforce split: prod.splits sum.splits)

lemma pres_if [pres_rules]: "pres I m \<Longrightarrow> pres I n \<Longrightarrow> pres I (if b then m else n)"
  by simp

lemma pres_case_option [pres_rules]:
  "pres I m \<Longrightarrow> (\<And>x. pres I (f x)) \<Longrightarrow> pres I (case v of None \<Rightarrow> m | Some x \<Rightarrow> f x)"
  by (cases v) simp_all

lemma pres_case_prod [pres_rules]:
  "(\<And>x y. pres I (f x y)) \<Longrightarrow> pres I (case v of (x, y) \<Rightarrow> f x y)"
  by (cases v) simp

lemma pres_for_each [pres_rules]: "(\<And>x. pres I (f x)) \<Longrightarrow> pres I (for_each xs f)"
  by (induction xs) (auto intro: pres_rules)

lemma presD: "pres I m \<Longrightarrow> I s \<Longrightarrow> m s = (r, s') \<Longrightarrow> I s'"
  unfolding pres_def by (metis snd_conv)

section \<open>Lists\<close>

lemma find_Some_iff_set: "List.find p xs = Some x \<Longrightarrow> x \<in> set xs \<and> p x"
  by (induction xs) (auto split: if_splits)

lemma find_None_filter: "List.find p xs = None \<longleftrightarrow> filter p xs = []"
  by (induction xs) auto

lemma find_map_keep:
  assumes "\<And>x. p (f x) = p x"
  shows "List.find p (map f xs) = map_option f (List.find p xs)"
  by (induction xs) (auto simp: assms)

lemma length_filter_update:
  assumes "i < length xs"
  shows "int (length (filter p (xs[i := y]))) =
    int (length (filter p xs)) - (if p (xs ! i) then 1 else 0) + (if p y then 1 else 0)"
  using assms
proof (induction xs arbitrary: i)
  case Nil
  then show ?case by simp
next
  case (Cons x xs)
  show ?case
  proof (cases i)
    case 0
    then show ?thesis by simp
  next
    case (Suc j)
    with Cons.prems have "j < length xs" by simp
    from Cons.IH [OF this] Suc show ?thesis by (simp split: if_splits)
  qed
qed

lemma length_filter_pos: "x \<in> set xs \<Longrightarrow> p x \<Longrightarrow> 0 < length (filter p xs)"
  by (induction xs) auto

lemma length_filter_nth_pos: "i < length xs \<Longrightarrow> p (xs ! i) \<Longrightarrow> 0 < length (filter p xs)"
  by (rule length_filter_pos [OF nth_mem])

lemma distinct_map_filterI: "distinct (map f xs) \<Longrightarrow> distinct (map f (filter p xs))"
  by (induction xs) auto

end
