(* ===== verification/Js_Text.thy ===== *)
theory Js_Text
  imports Prelude
begin

text \<open>
  JavaScript text and its UTF-8 encoding, as far as the program measures, cuts or
  transports text: a string is a list of UTF-16 code units, \<^verbatim>\<open>for (const c of s)\<close> walks
  its characters (surrogate pairs together, lone surrogates alone), \<^verbatim>\<open>Buffer.from(s)\<close>
  encodes with U+FFFD for a lone surrogate and \<^verbatim>\<open>Buffer.toString\<close> decodes with U+FFFD
  for every maximal ill-formed part. On these stand \<^verbatim>\<open>truncateUtf8\<close> of the audit outbox
  and \<^verbatim>\<open>previewFor\<close> of the local-tool pipeline.
\<close>

type_synonym byte = "8 word"

section \<open>Characters and UTF-8\<close>

definition high_surrogate :: "16 word \<Rightarrow> bool" where
  "high_surrogate u \<longleftrightarrow> 0xD800 \<le> uint u \<and> uint u \<le> 0xDBFF"

definition low_surrogate :: "16 word \<Rightarrow> bool" where
  "low_surrogate u \<longleftrightarrow> 0xDC00 \<le> uint u \<and> uint u \<le> 0xDFFF"

text \<open>The string iterator.\<close>

fun chars :: "utf16 \<Rightarrow> utf16 list" where
  "chars [] = []"
| "chars [u] = [[u]]"
| "chars (u # v # us) =
     (if high_surrogate u \<and> low_surrogate v then [u, v] # chars us else [u] # chars (v # us))"

fun code_point :: "utf16 \<Rightarrow> int" where
  "code_point [u] = (if high_surrogate u \<or> low_surrogate u then 0xFFFD else uint u)"
| "code_point (u # v # _) = 0x10000 + (uint u - 0xD800) * 0x400 + (uint v - 0xDC00)"
| "code_point [] = 0"

definition utf8_of :: "int \<Rightarrow> byte list" where
  "utf8_of c =
     (if c < 0x80 then [word_of_int c]
      else if c < 0x800 then [word_of_int (0xC0 + c div 64), word_of_int (0x80 + c mod 64)]
      else if c < 0x10000 then
        [word_of_int (0xE0 + c div 4096), word_of_int (0x80 + c div 64 mod 64), word_of_int (0x80 + c mod 64)]
      else
        [word_of_int (0xF0 + c div 262144), word_of_int (0x80 + c div 4096 mod 64),
         word_of_int (0x80 + c div 64 mod 64), word_of_int (0x80 + c mod 64)])"

definition utf8_encode :: "utf16 \<Rightarrow> byte list" where
  "utf8_encode s = concat (map (\<lambda>c. utf8_of (code_point c)) (chars s))"

definition byteLength :: "utf16 \<Rightarrow> nat" where
  "byteLength s = length (utf8_encode s)"

section \<open>Decoding\<close>

text \<open>
  The decoder of the Encoding Standard: the code point read so far, the number of
  continuation bytes still needed and the bounds on the next one. An offending byte ends
  the ill-formed part and is read again as a first byte.
\<close>

definition utf16_of :: "int \<Rightarrow> utf16" where
  "utf16_of c = (if c < 0x10000 then [word_of_int c]
     else [word_of_int (0xD800 + (c - 0x10000) div 0x400), word_of_int (0xDC00 + (c - 0x10000) mod 0x400)])"

record utf8_state =
  dec_point :: int
  dec_needed :: nat
  dec_lower :: int
  dec_upper :: int

definition utf8_init :: utf8_state where
  "utf8_init = \<lparr>dec_point = 0, dec_needed = 0, dec_lower = 0x80, dec_upper = 0xBF\<rparr>"

definition utf8_first :: "int \<Rightarrow> utf16 \<times> utf8_state" where
  "utf8_first b =
     (if b \<le> 0x7F then (utf16_of b, utf8_init)
      else if 0xC2 \<le> b \<and> b \<le> 0xDF then ([], utf8_init\<lparr>dec_point := b - 0xC0, dec_needed := 1\<rparr>)
      else if 0xE0 \<le> b \<and> b \<le> 0xEF then
        ([], \<lparr>dec_point = b - 0xE0, dec_needed = 2,
              dec_lower = (if b = 0xE0 then 0xA0 else 0x80), dec_upper = (if b = 0xED then 0x9F else 0xBF)\<rparr>)
      else if 0xF0 \<le> b \<and> b \<le> 0xF4 then
        ([], \<lparr>dec_point = b - 0xF0, dec_needed = 3,
              dec_lower = (if b = 0xF0 then 0x90 else 0x80), dec_upper = (if b = 0xF4 then 0x8F else 0xBF)\<rparr>)
      else ([0xFFFD], utf8_init))"

definition utf8_step :: "utf8_state \<Rightarrow> byte \<Rightarrow> utf16 \<times> utf8_state" where
  "utf8_step st w = (let b = uint w in
     if dec_needed st = 0 then utf8_first b
     else if b < dec_lower st \<or> dec_upper st < b
       then (case utf8_first b of (out, st') \<Rightarrow> (0xFFFD # out, st'))
     else let c = dec_point st * 64 + (b - 0x80) in
       if dec_needed st = 1 then (utf16_of c, utf8_init)
       else ([], \<lparr>dec_point = c, dec_needed = dec_needed st - 1, dec_lower = 0x80, dec_upper = 0xBF\<rparr>))"

fun utf8_run :: "utf8_state \<Rightarrow> byte list \<Rightarrow> utf16" where
  "utf8_run st [] = (if dec_needed st = 0 then [] else [0xFFFD])"
| "utf8_run st (b # bs) = (case utf8_step st b of (out, st') \<Rightarrow> out @ utf8_run st' bs)"

definition utf8_decode :: "byte list \<Rightarrow> utf16" where
  "utf8_decode bs = utf8_run utf8_init bs"

text \<open>A string is well formed when it has no lone surrogate.\<close>

definition char_wf :: "utf16 \<Rightarrow> bool" where
  "char_wf c = (case c of [u] \<Rightarrow> \<not> high_surrogate u \<and> \<not> low_surrogate u | _ \<Rightarrow> True)"

definition well_formed :: "utf16 \<Rightarrow> bool" where
  "well_formed s = list_all char_wf (chars s)"

section \<open>Truncation\<close>

fun truncate_loop :: "utf16 \<Rightarrow> utf16 list \<Rightarrow> nat \<Rightarrow> utf16" where
  "truncate_loop result [] maximumBytes = result"
| "truncate_loop result (character # rest) maximumBytes =
     (if maximumBytes < byteLength (result @ character) then result
      else truncate_loop (result @ character) rest maximumBytes)"

definition truncateUtf8 :: "utf16 \<Rightarrow> nat \<Rightarrow> utf16" where
  "truncateUtf8 value maximumBytes =
     (if byteLength value \<le> maximumBytes then value
      else truncate_loop [] (chars value) maximumBytes)"

section \<open>Characters of a prefix\<close>

lemma concat_chars [simp]: "concat (chars s) = s"
  by (induction s rule: chars.induct) auto

lemma chars_nonempty: "c \<in> set (chars s) \<Longrightarrow> c \<noteq> []"
  by (induction s rule: chars.induct) (auto split: if_splits)

text \<open>A prefix made of whole characters has exactly those characters: no pair is formed
  across the cut.\<close>

lemma chars_Cons_single:
  "chars (u # us) = [u] # chars us \<or> (\<exists>v vs. us = v # vs \<and> high_surrogate u \<and> low_surrogate v)"
  by (cases us) auto

lemma chars_prefix: "chars s = xs @ ys \<Longrightarrow> chars (concat xs) = xs"
proof (induction s arbitrary: xs rule: chars.induct)
  case 1
  then show ?case by simp
next
  case (2 u)
  then show ?case by (cases xs) auto
next
  case (3 u v us)
  show ?case
  proof (cases xs)
    case Nil
    then show ?thesis by simp
  next
    case (Cons x zs)
    show ?thesis
    proof (cases "high_surrogate u \<and> low_surrogate v")
      case True
      with 3 Cons show ?thesis by auto
    next
      case False
      with 3 Cons have x: "x = [u]" and zs: "chars (v # us) = zs @ ys" by auto
      then have IH: "chars (concat zs) = zs" using 3 False by blast
      show ?thesis
      proof (cases zs)
        case Nil
        then show ?thesis using Cons x by simp
      next
        case (Cons z ws)
        then have "\<exists>t. concat zs = v # t"
          using zs by (cases us) (auto split: if_splits)
        with False IH \<open>xs = x # zs\<close> x show ?thesis by auto
      qed
    qed
  qed
qed

lemma utf8_encode_prefix:
  "chars s = xs @ ys \<Longrightarrow> utf8_encode (concat xs) = concat (map (\<lambda>c. utf8_of (code_point c)) xs)"
  by (simp add: utf8_encode_def chars_prefix)

lemma byteLength_mono:
  "chars s = xs @ ys @ zs \<Longrightarrow> byteLength (concat xs) \<le> byteLength (concat (xs @ ys))"
  using utf8_encode_prefix [of s xs "ys @ zs"] utf8_encode_prefix [of s "xs @ ys" zs]
  by (simp add: byteLength_def)

lemma truncate_loop_spec:
  assumes "chars s = xs @ ys" and "byteLength (concat xs) \<le> m"
  shows "\<exists>zs ws. chars s = zs @ ws \<and> truncate_loop (concat xs) ys m = concat zs
      \<and> byteLength (concat zs) \<le> m
      \<and> (\<forall>c cs. ws = c # cs \<longrightarrow> m < byteLength (concat (zs @ [c])))"
  using assms
proof (induction ys arbitrary: xs)
  case Nil
  then show ?case by (intro exI [of _ xs] exI [of _ "[]"]) simp
next
  case (Cons y ys)
  show ?case
  proof (cases "m < byteLength (concat xs @ y)")
    case True
    with Cons.prems show ?thesis by (intro exI [of _ xs] exI [of _ "y # ys"]) simp
  next
    case False
    with Cons.IH [of "xs @ [y]"] Cons.prems show ?thesis by auto
  qed
qed

text \<open>\<^verbatim>\<open>truncateUtf8\<close> keeps a prefix of whole characters of the text that fits the byte budget, and
  the longest such prefix: either the text itself, or one more character would not fit.\<close>

theorem truncateUtf8_longest_prefix:
  "\<exists>zs ws. chars s = zs @ ws \<and> truncateUtf8 s m = concat zs
     \<and> byteLength (truncateUtf8 s m) \<le> m
     \<and> (ws = [] \<or> m < byteLength (concat (zs @ [hd ws])))"
proof (cases "byteLength s \<le> m")
  case True
  then show ?thesis by (intro exI [of _ "chars s"] exI [of _ "[]"]) (simp add: truncateUtf8_def)
next
  case False
  have "byteLength (concat []) \<le> m" by (simp add: byteLength_def utf8_encode_def)
  from truncate_loop_spec [of s "[]" "chars s", OF _ this]
  obtain zs ws where *: "chars s = zs @ ws" "truncate_loop [] (chars s) m = concat zs"
    "byteLength (concat zs) \<le> m" "\<forall>c cs. ws = c # cs \<longrightarrow> m < byteLength (concat (zs @ [c]))"
    by auto
  with False show ?thesis
    by (intro exI [of _ zs] exI [of _ ws]) (cases ws, auto simp: truncateUtf8_def)
qed

lemma truncateUtf8_byteLength: "byteLength (truncateUtf8 s m) \<le> m"
proof (cases "byteLength s \<le> m")
  case False
  have "byteLength (concat []) \<le> m" by (simp add: byteLength_def utf8_encode_def)
  from truncate_loop_spec [of s "[]" "chars s", OF _ this] False show ?thesis
    by (auto simp: truncateUtf8_def)
qed (simp add: truncateUtf8_def)

section \<open>Decoding inverts encoding\<close>

lemma char_cases:
  assumes "c \<in> set (chars s)"
  obtains (single) u where "c = [u]" | (pair) u v where "c = [u, v]" "high_surrogate u" "low_surrogate v"
  using assms by (induction s rule: chars.induct) (auto split: if_splits)

lemma uint_byte: "0 \<le> n \<Longrightarrow> n < 256 \<Longrightarrow> uint (word_of_int n :: byte) = n"
  by (simp add: uint_word_of_int_eq take_bit_eq_mod)

text \<open>The decoder on a byte given by its value.\<close>

lemma utf8_run_byte:
  assumes "0 \<le> n" and "n < 256" and "dec_needed st = 0"
  shows "utf8_run st (word_of_int n # bs) = (case utf8_first n of (out, st') \<Rightarrow> out @ utf8_run st' bs)"
  using assms by (simp add: utf8_step_def Let_def uint_byte)

lemma utf8_run_cont:
  assumes "0 \<le> n" and "n < 64" and "dec_needed st = Suc k" and "dec_lower st \<le> 0x80 + n" and "0x80 + n \<le> dec_upper st"
  shows "utf8_run st (word_of_int (0x80 + n) # bs) =
    (if k = 0 then utf16_of (dec_point st * 64 + n) @ utf8_run utf8_init bs
     else utf8_run \<lparr>dec_point = dec_point st * 64 + n, dec_needed = k, dec_lower = 0x80, dec_upper = 0xBF\<rparr> bs)"
  using assms uint_byte [of "0x80 + n"] by (simp add: utf8_step_def Let_def del: of_int_add)

lemma utf8_run_of2:
  assumes c: "0x80 \<le> c" "c < 0x800"
  shows "utf8_run utf8_init (utf8_of c @ bs) = utf16_of c @ utf8_run utf8_init bs"
proof -
  define a b where "a = c div 64" and "b = c mod 64"
  have eq: "a * 64 + b = c" by (simp add: a_def b_def)
  have *: "0 \<le> b" "b < 64" "2 \<le> a" "a < 32" using c by (simp_all add: a_def b_def)
  have enc: "utf8_of c = [word_of_int (0xC0 + a), word_of_int (0x80 + b)]"
    using c by (simp add: utf8_of_def a_def b_def)
  show ?thesis unfolding enc using *
    by (simp add: utf8_run_byte utf8_run_cont utf8_first_def utf8_init_def eq del: of_int_add utf8_run.simps)
qed

lemma utf8_run_of3:
  assumes c: "0x800 \<le> c" "c < 0x10000" and ns: "c < 0xD800 \<or> 0xDFFF < c"
  shows "utf8_run utf8_init (utf8_of c @ bs) = utf16_of c @ utf8_run utf8_init bs"
proof -
  define a b d where "a = c div 4096" and "b = c div 64 mod 64" and "d = c mod 64"
  have eq: "(a * 64 + b) * 64 + d = c"
    using div_mult_mod_eq [of "c div 64" 64] div_mult_mod_eq [of c 64]
    by (simp add: a_def b_def d_def zdiv_zmult2_eq [symmetric])
  have *: "0 \<le> b" "b < 64" "0 \<le> d" "d < 64" "a < 16" "0 \<le> a"
    using c by (simp_all add: a_def b_def d_def)
  have ab: "a = 0 \<Longrightarrow> 32 \<le> b" "a = 13 \<Longrightarrow> b \<le> 31" using c * eq ns by auto
  have enc: "utf8_of c = [word_of_int (0xE0 + a), word_of_int (0x80 + b), word_of_int (0x80 + d)]"
    using c by (simp add: utf8_of_def a_def b_def d_def)
  have "utf8_run utf8_init (word_of_int (0xE0 + a) # X) = utf8_run \<lparr>dec_point = a, dec_needed = 2,
      dec_lower = (if a = 0 then 0xA0 else 0x80), dec_upper = (if a = 13 then 0x9F else 0xBF)\<rparr> X" for X
    by (subst utf8_run_byte) (use * in \<open>simp_all add: utf8_first_def utf8_init_def\<close>)
  moreover have "utf8_run \<lparr>dec_point = a, dec_needed = 2, dec_lower = (if a = 0 then 0xA0 else 0x80),
      dec_upper = (if a = 13 then 0x9F else 0xBF)\<rparr> (word_of_int (0x80 + b) # X) =
      utf8_run \<lparr>dec_point = a * 64 + b, dec_needed = 1, dec_lower = 0x80, dec_upper = 0xBF\<rparr> X" for X
    by (subst utf8_run_cont [where k = 1]) (use * ab in \<open>simp_all\<close>)
  moreover have "utf8_run \<lparr>dec_point = a * 64 + b, dec_needed = 1, dec_lower = 0x80, dec_upper = 0xBF\<rparr>
      (word_of_int (0x80 + d) # X) = utf16_of c @ utf8_run utf8_init X" for X
    by (subst utf8_run_cont [where k = 0]) (use * eq in \<open>simp_all\<close>)
  ultimately show ?thesis by (simp only: enc append_Cons append_Nil)
qed

lemma utf8_run_of4:
  assumes c: "0x10000 \<le> c" "c < 0x110000"
  shows "utf8_run utf8_init (utf8_of c @ bs) = utf16_of c @ utf8_run utf8_init bs"
proof -
  define a b d e where "a = c div 262144" and "b = c div 4096 mod 64" and "d = c div 64 mod 64"
    and "e = c mod 64"
  have eq: "((a * 64 + b) * 64 + d) * 64 + e = c"
    using div_mult_mod_eq [of "c div 4096" 64] div_mult_mod_eq [of "c div 64" 64] div_mult_mod_eq [of c 64]
    by (simp add: a_def b_def d_def e_def zdiv_zmult2_eq [symmetric])
  have *: "0 \<le> b" "b < 64" "0 \<le> d" "d < 64" "0 \<le> e" "e < 64" "a < 5" "0 \<le> a"
    using c by (simp_all add: a_def b_def d_def e_def)
  have ab: "a = 0 \<Longrightarrow> 16 \<le> b" "a = 4 \<Longrightarrow> b \<le> 15" using c * eq by auto
  have enc: "utf8_of c = [word_of_int (0xF0 + a), word_of_int (0x80 + b), word_of_int (0x80 + d),
      word_of_int (0x80 + e)]"
    using c by (simp add: utf8_of_def a_def b_def d_def e_def)
  have "utf8_run utf8_init (word_of_int (0xF0 + a) # X) = utf8_run \<lparr>dec_point = a, dec_needed = 3,
      dec_lower = (if a = 0 then 0x90 else 0x80), dec_upper = (if a = 4 then 0x8F else 0xBF)\<rparr> X" for X
    by (subst utf8_run_byte) (use * in \<open>simp_all add: utf8_first_def utf8_init_def\<close>)
  moreover have "utf8_run \<lparr>dec_point = a, dec_needed = 3, dec_lower = (if a = 0 then 0x90 else 0x80),
      dec_upper = (if a = 4 then 0x8F else 0xBF)\<rparr> (word_of_int (0x80 + b) # X) =
      utf8_run \<lparr>dec_point = a * 64 + b, dec_needed = 2, dec_lower = 0x80, dec_upper = 0xBF\<rparr> X" for X
    by (subst utf8_run_cont [where k = 2]) (use * ab in \<open>simp_all\<close>)
  moreover have "utf8_run \<lparr>dec_point = a * 64 + b, dec_needed = 2, dec_lower = 0x80, dec_upper = 0xBF\<rparr>
      (word_of_int (0x80 + d) # X) =
      utf8_run \<lparr>dec_point = (a * 64 + b) * 64 + d, dec_needed = 1, dec_lower = 0x80, dec_upper = 0xBF\<rparr> X" for X
    by (subst utf8_run_cont [where k = 1]) (use * in \<open>simp_all\<close>)
  moreover have "utf8_run \<lparr>dec_point = (a * 64 + b) * 64 + d, dec_needed = 1, dec_lower = 0x80, dec_upper = 0xBF\<rparr>
      (word_of_int (0x80 + e) # X) = utf16_of c @ utf8_run utf8_init X" for X
    by (subst utf8_run_cont [where k = 0]) (use * eq in \<open>simp_all\<close>)
  ultimately show ?thesis by (simp only: enc append_Cons append_Nil)
qed

lemma utf8_run_of:
  assumes "0 \<le> c" "c < 0x110000" and "c < 0xD800 \<or> 0xDFFF < c"
  shows "utf8_run utf8_init (utf8_of c @ bs) = utf16_of c @ utf8_run utf8_init bs"
proof -
  consider "c < 0x80" | "0x80 \<le> c" "c < 0x800" | "0x800 \<le> c" "c < 0x10000" | "0x10000 \<le> c" by linarith
  then show ?thesis
  proof cases
    case 1
    with assms show ?thesis
      by (simp add: utf8_of_def utf8_run_byte utf8_first_def utf8_init_def del: utf8_run.simps)
  qed (use assms in \<open>simp_all add: utf8_run_of2 utf8_run_of3 utf8_run_of4\<close>)
qed

lemma char_decodes:
  assumes "c \<in> set (chars s)" and "char_wf c"
  shows "0 \<le> code_point c \<and> code_point c < 0x110000 \<and> (code_point c < 0xD800 \<or> 0xDFFF < code_point c)
       \<and> utf16_of (code_point c) = c"
  using assms(1)
proof (cases rule: char_cases)
  case (single u)
  have "\<not> high_surrogate u" "\<not> low_surrogate u" using assms(2) single by (simp_all add: char_wf_def)
  then have "code_point c = uint u" "uint u < 0xD800 \<or> 0xDFFF < uint u"
    using single by (auto simp: high_surrogate_def low_surrogate_def)
  then show ?thesis
    using uint_bounded [of u] single by (auto simp: utf16_of_def)
next
  case (pair u v)
  define a b where "a = uint u - 0xD800" and "b = uint v - 0xDC00"
  have ab: "uint u = 0xD800 + a" "uint v = 0xDC00 + b" "0 \<le> a" "a < 0x400" "0 \<le> b" "b < 0x400"
    using pair(2,3) by (auto simp: a_def b_def high_surrogate_def low_surrogate_def)
  have cp: "code_point c = 0x10000 + a * 0x400 + b" by (simp add: pair(1) a_def b_def)
  have "word_of_int (0xD800 + a) = u" "word_of_int (0xDC00 + b) = v"
    using ab(1,2) by (metis word_of_int_uint)+
  then show ?thesis
    using ab by (simp add: utf16_of_def cp pair(1) del: of_int_add)
qed

lemma utf8_run_chars:
  "(\<And>c. c \<in> set cs \<Longrightarrow> char_wf c \<and> c \<in> set (chars s)) \<Longrightarrow>
     utf8_run utf8_init (concat (map (\<lambda>c. utf8_of (code_point c)) cs)) = concat cs"
proof (induction cs)
  case Nil
  then show ?case by (simp add: utf8_init_def)
next
  case (Cons c cs)
  then have "char_wf c" "c \<in> set (chars s)" by auto
  with char_decodes [of c s] Cons show ?case by (simp add: utf8_run_of)
qed

text \<open>Text survives the wire: decoding the UTF-8 bytes of a string without lone surrogates gives the
  string back.\<close>

theorem utf8_roundtrip:
  assumes "well_formed s"
  shows "utf8_decode (utf8_encode s) = s"
  using utf8_run_chars [of "chars s" s] assms
  by (simp add: utf8_decode_def utf8_encode_def well_formed_def list_all_iff)

text \<open>A two-byte letter and a surrogate pair.\<close>

theorem utf8_roundtrip_witness:
  "utf8_encode [0xE9, 0xD83D, 0xDE00] = [0xC3, 0xA9, 0xF0, 0x9F, 0x98, 0x80]
   \<and> utf8_decode [0xC3, 0xA9, 0xF0, 0x9F, 0x98, 0x80] = [0xE9, 0xD83D, 0xDE00]"
proof -
  have enc: "utf8_encode [0xE9, 0xD83D, 0xDE00] = [0xC3, 0xA9, 0xF0, 0x9F, 0x98, 0x80]"
    by code_simp
  have "well_formed [0xE9, 0xD83D, 0xDE00]" by code_simp
  from utf8_roundtrip [OF this] show ?thesis by (simp add: enc)
qed

end
