(* ===== verification/Framing.thy ===== *)
theory Framing
  imports Js_Text
begin

text \<open>
  The length-prefixed frames of \<^verbatim>\<open>packages/protocol/src/framing.ts\<close> and the three readers of
  such frames: the one-shot socket handler of \<^verbatim>\<open>framed-broker-server.ts\<close>, the \<^verbatim>\<open>FrameReader\<close>
  of \<^verbatim>\<open>local-tool-server.ts\<close> and the response reader of \<^verbatim>\<open>local-tool-client.ts\<close>. A socket is
  the sequence of its events; an event handler is a function from the reader's state to its
  next state, and what it hands on (a dispatched payload, a settled promise) is recorded in
  the state.
\<close>

section \<open>Frames (framing.ts)\<close>

definition BROKER_FRAME_MAX_BYTES :: int where
  "BROKER_FRAME_MAX_BYTES = 16 * 1024 * 1024"

definition writeUInt32BE :: "int \<Rightarrow> byte list" where
  "writeUInt32BE n = [word_of_int (n div 0x1000000), word_of_int (n div 0x10000), word_of_int (n div 0x100), word_of_int n]"

definition readUInt32BE :: "byte list \<Rightarrow> int" where
  "readUInt32BE bs = foldl (\<lambda>acc b. acc * 256 + uint b) 0 (take 4 bs)"

definition encodeBrokerFrame :: "utf16 \<Rightarrow> js_error + byte list" where
  "encodeBrokerFrame payload = (let bytes = utf8_encode payload in
     if BROKER_FRAME_MAX_BYTES < int (length bytes)
     then Inl (Caisson PARAMS_INVALID ''broker frame exceeds maximum size'')
     else Inr (writeUInt32BE (int (length bytes)) @ bytes))"

definition decodeBrokerFrameLength :: "byte list \<Rightarrow> js_error + int" where
  "decodeBrokerFrameLength prefix =
     (if length prefix \<noteq> 4 then Inl (Caisson PARAMS_INVALID ''broker frame prefix is invalid'')
      else let n = readUInt32BE prefix in
        if BROKER_FRAME_MAX_BYTES < n then Inl (Caisson PARAMS_INVALID ''broker frame exceeds maximum size'')
        else Inr n)"

lemma length_writeUInt32BE [simp]: "length (writeUInt32BE n) = 4"
  by (simp add: writeUInt32BE_def)

lemma readUInt32BE_nonneg: "0 \<le> readUInt32BE bs"
proof -
  have "0 \<le> acc \<Longrightarrow> 0 \<le> foldl (\<lambda>acc b. acc * 256 + uint b) acc xs" for acc and xs :: "byte list"
    by (induction xs arbitrary: acc) simp_all
  then show ?thesis by (simp add: readUInt32BE_def)
qed

lemma read_write_UInt32BE:
  assumes "0 \<le> n" and "n < 2 ^ 32"
  shows "readUInt32BE (writeUInt32BE n @ bs) = n"
proof -
  define a b c where "a = n div 0x1000000" and "b = n div 0x10000" and "c = n div 0x100"
  have q: "n div 256 = c" "c div 256 = b" "b div 256 = a"
    using zdiv_zmult2_eq [of 256 n 256] zdiv_zmult2_eq [of 256 n 65536] by (simp_all add: a_def b_def c_def)
  have "0 \<le> a" "a < 256" using assms by (simp_all add: a_def)
  then have "a mod 256 = a" by simp
  moreover have "c * 256 + n mod 256 = n" "b * 256 + c mod 256 = c" "a * 256 + b mod 256 = b"
    using div_mult_mod_eq [of n 256] div_mult_mod_eq [of c 256] div_mult_mod_eq [of b 256] by (simp_all only: q)
  ultimately have "((a mod 256 * 256 + b mod 256) * 256 + c mod 256) * 256 + n mod 256 = n" by (simp only:)
  moreover have "uint (word_of_int k :: byte) = k mod 256" for k
    by (simp add: uint_word_of_int_eq take_bit_eq_mod)
  ultimately show ?thesis
    by (simp add: readUInt32BE_def writeUInt32BE_def a_def [symmetric] b_def [symmetric] c_def [symmetric])
qed

lemma write_read_UInt32BE:
  assumes "length bs = 4"
  shows "writeUInt32BE (readUInt32BE bs) = bs"
proof -
  obtain a b c d where bs: "bs = [a, b, c, d]"
    using assms by (auto simp: length_Suc_conv numeral_eq_Suc)
  have w: "word_of_int k = x" if "k mod 256 = uint x" for k and x :: byte
    using that by (simp add: word_uint_eq_iff uint_word_of_int_eq take_bit_eq_mod)
  have u: "0 \<le> uint x" "uint x < 256" for x :: byte using uint_bounded [of x] by simp_all
  define n where "n = ((uint a * 256 + uint b) * 256 + uint c) * 256 + uint d"
  have dm: "(x * 256 + y) mod 256 = y \<and> (x * 256 + y) div 256 = x" if "0 \<le> y" "y < 256" for x y :: int
    using that by simp
  have "n mod 256 = uint d \<and> n div 0x100 = (uint a * 256 + uint b) * 256 + uint c"
    using u [of d] dm unfolding n_def by blast
  then have 1: "n mod 256 = uint d" "n div 0x100 mod 256 = uint c" "n div 0x10000 = uint a * 256 + uint b"
    using dm [OF u [of c], of "uint a * 256 + uint b"] zdiv_zmult2_eq [of 256 n 256] by simp_all
  then have 2: "n div 0x10000 mod 256 = uint b" "n div 0x1000000 = uint a"
    using dm [OF u [of b], of "uint a"] zdiv_zmult2_eq [of 256 n 65536] by simp_all
  have "n div 0x1000000 mod 256 = uint a" using u [of a] by (simp add: 2(2))
  then have "word_of_int (n div 0x1000000) = a" by (rule w)
  moreover note w [OF 2(1)] w [OF 1(2)] w [OF 1(1)]
  ultimately have "writeUInt32BE n = bs" by (simp only: writeUInt32BE_def bs)
  moreover have "readUInt32BE bs = n" by (simp add: bs readUInt32BE_def n_def)
  ultimately show ?thesis by simp
qed

text \<open>A frame on the wire: prefix and payload bytes.\<close>

definition frame_of :: "byte list \<Rightarrow> byte list" where
  "frame_of bytes = writeUInt32BE (int (length bytes)) @ bytes"

definition fits_frame :: "byte list \<Rightarrow> bool" where
  "fits_frame bytes \<longleftrightarrow> int (length bytes) \<le> BROKER_FRAME_MAX_BYTES"

lemma encodeBrokerFrame_Inr:
  "encodeBrokerFrame s = Inr f \<longleftrightarrow> fits_frame (utf8_encode s) \<and> f = frame_of (utf8_encode s)"
  by (auto simp: encodeBrokerFrame_def fits_frame_def frame_of_def Let_def)

lemma decode_frame_prefix:
  assumes "fits_frame bytes"
  shows "decodeBrokerFrameLength (take 4 (frame_of bytes @ rest)) = Inr (int (length bytes))"
proof -
  have "int (length bytes) < 2 ^ 32"
    using assms by (simp add: fits_frame_def BROKER_FRAME_MAX_BYTES_def)
  then show ?thesis
    using assms read_write_UInt32BE [of "int (length bytes)" "[]"]
    by (simp add: decodeBrokerFrameLength_def frame_of_def Let_def fits_frame_def)
qed

lemma decode_length_bounds:
  "decodeBrokerFrameLength bs = Inr n \<Longrightarrow> 0 \<le> n \<and> n \<le> BROKER_FRAME_MAX_BYTES \<and> n = readUInt32BE bs \<and> length bs = 4"
  by (auto simp: decodeBrokerFrameLength_def Let_def readUInt32BE_nonneg split: if_splits)



section \<open>The broker socket (framed-broker-server.ts)\<close>

text \<open>
  One connection of \<^verbatim>\<open>FramedBrokerServer\<close>: the closure variables of \<^verbatim>\<open>#handleSocket\<close>, whether the
  socket was destroyed and whether its read timer is armed, and the payloads handed to \<^verbatim>\<open>#dispatch\<close>.
  A destroyed socket delivers no further events.
\<close>

record broker_conn =
  received :: "byte list"
  declaredLength :: "int option"
  handled :: bool
  conn_destroyed :: bool
  dispatched :: "byte list list"

definition new_conn :: broker_conn where
  "new_conn = \<lparr>received = [], declaredLength = None, handled = False, conn_destroyed = False, dispatched = []\<rparr>"

definition on_data :: "byte list \<Rightarrow> broker_conn \<Rightarrow> broker_conn" where
  "on_data chunk c =
     (if conn_destroyed c \<or> handled c then c
      else
        let rcv = received c @ chunk;
            decl = (if declaredLength c = None \<and> 4 \<le> length rcv
                    then (case decodeBrokerFrameLength (take 4 rcv) of Inl e \<Rightarrow> Inl e | Inr n \<Rightarrow> Inr (Some n))
                    else Inr (declaredLength c))
        in case decl of
             Inl _ \<Rightarrow> c\<lparr>received := rcv, conn_destroyed := True\<rparr>
           | Inr None \<Rightarrow> c\<lparr>received := rcv\<rparr>
           | Inr (Some n) \<Rightarrow>
               let c1 = c\<lparr>received := rcv, declaredLength := Some n\<rparr> in
               if int (length rcv) < 4 + n then c1
               else if int (length rcv) \<noteq> 4 + n then c1\<lparr>conn_destroyed := True\<rparr>
               else c1\<lparr>handled := True, dispatched := dispatched c @ [drop 4 rcv]\<rparr>)"

definition on_end :: "broker_conn \<Rightarrow> broker_conn" where
  "on_end c = (if handled c then c else c\<lparr>conn_destroyed := True\<rparr>)"

text \<open>The read timer is disarmed (\<^verbatim>\<open>setTimeout(0)\<close>) once the frame is handled.\<close>

definition on_timeout :: "broker_conn \<Rightarrow> broker_conn" where
  "on_timeout c = (if handled c then c else c\<lparr>conn_destroyed := True\<rparr>)"

datatype conn_event = Data "byte list" | End | ReadTimeout

fun conn_step :: "conn_event \<Rightarrow> broker_conn \<Rightarrow> broker_conn" where
  "conn_step (Data chunk) c = on_data chunk c"
| "conn_step End c = on_end c"
| "conn_step ReadTimeout c = on_timeout c"

text \<open>
  What a connection has seen determines its state: before the frame is complete nothing was
  dispatched and the announced length, once known, is the decoded prefix; a handled connection
  has dispatched exactly the payload of the one frame it received.
\<close>

definition conn_inv :: "broker_conn \<Rightarrow> bool" where
  "conn_inv c \<longleftrightarrow>
     (\<forall>n. declaredLength c = Some n \<longrightarrow>
        4 \<le> length (received c) \<and> decodeBrokerFrameLength (take 4 (received c)) = Inr n)
   \<and> (if handled c
      then \<not> conn_destroyed c \<and> dispatched c = [drop 4 (received c)]
         \<and> declaredLength c = Some (int (length (drop 4 (received c))))
      else dispatched c = []
         \<and> (\<not> conn_destroyed c \<longrightarrow> (case declaredLength c of
              None \<Rightarrow> length (received c) < 4
            | Some n \<Rightarrow> int (length (received c)) < 4 + n)))"

lemma conn_inv_new: "conn_inv new_conn"
  by (simp add: conn_inv_def new_conn_def)

lemma on_data_inv: "conn_inv c \<Longrightarrow> conn_inv (on_data chunk c)"
  by (auto simp: conn_inv_def on_data_def Let_def split: option.splits sum.splits if_splits)

lemma conn_step_inv: "conn_inv c \<Longrightarrow> conn_inv (conn_step e c)"
  by (cases e) (simp_all add: on_data_inv, simp_all add: conn_inv_def on_end_def on_timeout_def)

lemma conn_run_inv: "conn_inv c \<Longrightarrow> conn_inv (fold conn_step es c)"
  by (induction es arbitrary: c) (simp_all add: conn_step_inv)

text \<open>(C5) Whatever a guest sends and however it is cut into chunks, a broker connection dispatches at
  most one payload; a dispatched payload is preceded by a prefix that announces exactly its
  length, at most 16 MiB, and the socket is not destroyed.\<close>

theorem broker_conn_dispatch_sound:
  assumes "fold conn_step es new_conn = c"
  shows "dispatched c = [] \<or>
    (\<exists>p. dispatched c = [p] \<and> handled c \<and> \<not> conn_destroyed c
       \<and> decodeBrokerFrameLength (take 4 (received c)) = Inr (int (length p)) \<and> fits_frame p)"
proof (cases "handled c")
  case True
  have inv: "conn_inv c" using conn_run_inv [OF conn_inv_new, of es] assms by simp
  then have d: "decodeBrokerFrameLength (take 4 (received c)) = Inr (int (length (drop 4 (received c))))"
    using True by (auto simp: conn_inv_def)
  moreover have "dispatched c = [drop 4 (received c)]" "\<not> conn_destroyed c"
    using inv True by (simp_all add: conn_inv_def)
  moreover have "fits_frame (drop 4 (received c))"
    using decode_length_bounds [OF d] unfolding fits_frame_def by blast
  ultimately show ?thesis using True by blast
next
  case False
  with conn_run_inv [OF conn_inv_new, of es] assms show ?thesis by (simp add: conn_inv_def)
qed

theorem broker_conn_dispatch_sound_witness:
  "dispatched (fold conn_step [Data [0, 0], Data [0, 1, 65], End] new_conn) = [[65]]"
  using broker_conn_dispatch_sound [of "[Data [0, 0], Data [0, 1, 65], End]", OF refl]
  by (simp add: new_conn_def on_data_def on_end_def decodeBrokerFrameLength_def readUInt32BE_def
      BROKER_FRAME_MAX_BYTES_def Let_def)

lemma handled_data: "handled c \<Longrightarrow> on_data chunk c = c"
  by (simp add: on_data_def)

lemma handled_run: "handled c \<Longrightarrow> fold conn_step (map Data chunks) c = c"
  by (induction chunks arbitrary: c) (simp_all add: handled_data)

text \<open>A connection part way through a frame: every proper prefix of the frame leaves it reading.\<close>

definition reading :: "byte list \<Rightarrow> broker_conn \<Rightarrow> bool" where
  "reading bs c \<longleftrightarrow> received c = bs \<and> \<not> handled c \<and> \<not> conn_destroyed c \<and> dispatched c = []
     \<and> declaredLength c = (if length bs < 4 then None else Some (readUInt32BE bs))"

lemma take4_frame: "4 \<le> length bs \<Longrightarrow> bs @ rest = frame_of p \<Longrightarrow> take 4 bs = take 4 (frame_of p)"
  by (metis append_eq_conv_conj append_take_drop_id take_append take_all_iff diff_is_0_eq take_0 append_Nil2)

lemma on_data_reading:
  assumes "reading bs c" and "fits_frame p" and "(bs @ chunk) @ rest = frame_of p"
  shows "rest \<noteq> [] \<Longrightarrow> reading (bs @ chunk) (on_data chunk c)"
    and "rest = [] \<Longrightarrow> handled (on_data chunk c) \<and> dispatched (on_data chunk c) = [p]
           \<and> \<not> conn_destroyed (on_data chunk c)"
proof -
  let ?b = "bs @ chunk"
  have len: "length ?b + length rest = 4 + length p"
    using assms(3) by (metis frame_of_def length_append length_writeUInt32BE)
  have pre: "decodeBrokerFrameLength (take 4 ?b) = Inr (int (length p)) \<and> readUInt32BE ?b = int (length p)"
    if "4 \<le> length ?b"
    using decode_frame_prefix [OF assms(2), of "[]"] take4_frame [OF that assms(3)]
      decode_length_bounds [of "take 4 ?b"] by (simp add: readUInt32BE_def)
  have old: "readUInt32BE bs = int (length p)" if "4 \<le> length bs"
    using that pre by (simp add: readUInt32BE_def)
  show "reading ?b (on_data chunk c)" if "rest \<noteq> []"
  proof -
    from that len have "int (length ?b) < 4 + int (length p)" by (cases rest) auto
    with assms(1) pre old show ?thesis
      by (cases "4 \<le> length bs"; cases "4 \<le> length ?b") (auto simp: reading_def on_data_def Let_def)
  qed
  show "handled (on_data chunk c) \<and> dispatched (on_data chunk c) = [p] \<and> \<not> conn_destroyed (on_data chunk c)"
    if "rest = []"
  proof -
    have "drop 4 ?b = p" using assms(3) that by (simp add: frame_of_def)
    with assms(1) len pre old that show ?thesis
      by (cases "4 \<le> length bs") (auto simp: reading_def on_data_def Let_def)
  qed
qed

lemma conn_run_reading:
  assumes "reading bs c" and "fits_frame p" and "bs @ concat chunks = frame_of p" and "concat chunks \<noteq> []"
  shows "handled (fold conn_step (map Data chunks) c) \<and> dispatched (fold conn_step (map Data chunks) c) = [p]
       \<and> \<not> conn_destroyed (fold conn_step (map Data chunks) c)"
  using assms
proof (induction chunks arbitrary: bs c)
  case Nil
  then show ?case by simp
next
  case (Cons chunk chunks)
  have split: "(bs @ chunk) @ concat chunks = frame_of p" using Cons.prems(3) by simp
  show ?case
  proof (cases "concat chunks = []")
    case True
    from on_data_reading(2) [OF Cons.prems(1,2) split True]
    show ?thesis by (simp add: handled_run)
  next
    case False
    from on_data_reading(1) [OF Cons.prems(1,2) split False] Cons.IH [OF _ Cons.prems(2) split False]
    show ?thesis by simp
  qed
qed

text \<open>Chunking is immaterial: a frame produced by \<^verbatim>\<open>encodeBrokerFrame\<close> that reaches the broker socket
  in any sequence of chunks is dispatched exactly once, with exactly its payload bytes.\<close>

theorem broker_conn_chunking:
  assumes "encodeBrokerFrame s = Inr frame" and "concat chunks = frame"
  shows "dispatched (fold conn_step (map Data chunks) new_conn) = [utf8_encode s]
       \<and> handled (fold conn_step (map Data chunks) new_conn)
       \<and> \<not> conn_destroyed (fold conn_step (map Data chunks) new_conn)"
proof -
  have f: "fits_frame (utf8_encode s)" "frame = frame_of (utf8_encode s)"
    using assms(1) by (simp_all add: encodeBrokerFrame_Inr)
  have "reading [] new_conn" by (simp add: reading_def new_conn_def)
  from conn_run_reading [OF this f(1), of chunks] assms(2) f(2)
  show ?thesis by (simp add: frame_of_def writeUInt32BE_def)
qed

theorem broker_conn_chunking_witness:
  "dispatched (fold conn_step [Data [0, 0, 0], Data [1], Data [], Data [65]] new_conn) = [[65]]"
proof -
  have "encodeBrokerFrame [65] = Inr [0, 0, 0, 1, 65]"
    by (simp add: encodeBrokerFrame_def utf8_encode_def utf8_of_def high_surrogate_def low_surrogate_def
        writeUInt32BE_def Let_def BROKER_FRAME_MAX_BYTES_def)
  moreover have "utf8_encode [65] = [65]" by code_simp
  ultimately show ?thesis
    using broker_conn_chunking [of "[65]" "[0, 0, 0, 1, 65]" "[[0, 0, 0], [1], [], [65]]"] by simp
qed

text \<open>
  \<^verbatim>\<open>#dispatch\<close>: parse, handle, answer. \<open>parse\<close> and \<open>stringify\<close> stand for the JSON codec of the
  JavaScript engine, \<open>handle\<close> for the pipeline bound to the peer. The result is what is written
  on the socket; a reply that cannot be framed and every error of the handler become the fixed
  malformed-frame answer.
\<close>

definition malformed_reply :: "(js_error \<times> string \<Rightarrow> utf16) \<Rightarrow> utf16" where
  "malformed_reply render = render (Caisson PARAMS_INVALID ''invalid broker frame payload'', ''unavailable'')"

definition writeMalformedFrame :: "(js_error \<times> string \<Rightarrow> utf16) \<Rightarrow> bool \<Rightarrow> byte list option" where
  "writeMalformedFrame render writable =
     (if \<not> writable then None
      else case encodeBrokerFrame (malformed_reply render) of Inl _ \<Rightarrow> None | Inr f \<Rightarrow> Some f)"

definition dispatch ::
  "(utf16 \<Rightarrow> 'j option) \<Rightarrow> ('r \<Rightarrow> utf16) \<Rightarrow> (js_error \<times> string \<Rightarrow> utf16) \<Rightarrow> ('j \<Rightarrow> ('s, 'r) proc)
     \<Rightarrow> bool \<Rightarrow> byte list \<Rightarrow> ('s, byte list option) proc" where
  "dispatch parse stringify render handle writable payload =
     (case parse (utf8_decode payload) of
        None \<Rightarrow> ret (writeMalformedFrame render writable)
      | Some v \<Rightarrow>
          try_catch
            (bnd (handle v) (\<lambda>response.
             bnd (of_result (encodeBrokerFrame (stringify response))) (\<lambda>frame.
             ret (if writable then Some frame else None))))
            (\<lambda>_. ret (writeMalformedFrame render writable)))"

text \<open>Dispatch never throws: every failure of the handler is answered on the wire or dropped.\<close>

lemma dispatch_total: "\<exists>out s'. dispatch parse stringify render handle writable payload s = (Inr out, s')"
  by (auto simp: dispatch_def proc_defs split: option.splits prod.splits sum.splits)

section \<open>The frame reader (local-tool-server.ts)\<close>

datatype frame_error_kind = FTimeout | FClosed | FMalformed

datatype frame_error = FrameError frame_error_kind bool

text \<open>
  \<open>rd_pending\<close> says whether a \<^verbatim>\<open>next\<close> call is outstanding; the promises it settles are recorded,
  in order, as frames or errors.
\<close>

record frame_reader =
  rd_buffer :: "byte list"
  rd_pending :: bool
  rd_closed :: "frame_error option"
  rd_settled :: "(frame_error + byte list) list"

definition new_reader :: frame_reader where
  "new_reader = \<lparr>rd_buffer = [], rd_pending = False, rd_closed = None, rd_settled = []\<rparr>"

definition reader_close :: "frame_error \<Rightarrow> frame_reader \<Rightarrow> frame_reader" where
  "reader_close e r =
     (if rd_closed r \<noteq> None then r
      else if rd_pending r
        then r\<lparr>rd_closed := Some e, rd_pending := False, rd_settled := rd_settled r @ [Inl e]\<rparr>
      else r\<lparr>rd_closed := Some e\<rparr>)"

definition reader_pump :: "frame_reader \<Rightarrow> frame_reader" where
  "reader_pump r =
     (if \<not> rd_pending r \<or> length (rd_buffer r) < 4 then r
      else case decodeBrokerFrameLength (take 4 (rd_buffer r)) of
        Inl _ \<Rightarrow> reader_close (FrameError FMalformed True) r
      | Inr n \<Rightarrow>
          if int (length (rd_buffer r)) < 4 + n then r
          else r\<lparr>rd_buffer := drop (4 + nat n) (rd_buffer r), rd_pending := False,
                 rd_settled := rd_settled r @ [Inr (take (nat n) (drop 4 (rd_buffer r)))]\<rparr>)"

definition reader_data :: "byte list \<Rightarrow> frame_reader \<Rightarrow> frame_reader" where
  "reader_data chunk r = reader_pump (r\<lparr>rd_buffer := rd_buffer r @ chunk\<rparr>)"

text \<open>A second outstanding \<^verbatim>\<open>next\<close> is a programming error and throws at once.\<close>

definition reader_next :: "frame_reader \<Rightarrow> frame_reader option" where
  "reader_next r =
     (if rd_pending r then None
      else case rd_closed r of
        Some e \<Rightarrow> Some (r\<lparr>rd_settled := rd_settled r @ [Inl e]\<rparr>)
      | None \<Rightarrow> Some (reader_pump (r\<lparr>rd_pending := True\<rparr>)))"

definition reader_timeout :: "frame_reader \<Rightarrow> frame_reader" where
  "reader_timeout r =
     (if rd_pending r then r\<lparr>rd_pending := False, rd_settled := rd_settled r @ [Inl (FrameError FTimeout False)]\<rparr>
      else r)"

datatype reader_event = RData "byte list" | RClosed | RNext | RTimeout

fun reader_step :: "reader_event \<Rightarrow> frame_reader \<Rightarrow> frame_reader" where
  "reader_step (RData chunk) r = reader_data chunk r"
| "reader_step RClosed r = reader_close (FrameError FClosed False) r"
| "reader_step RNext r = (case reader_next r of Some r' \<Rightarrow> r' | None \<Rightarrow> r)"
| "reader_step RTimeout r = reader_timeout r"

fun stream_of :: "reader_event list \<Rightarrow> byte list" where
  "stream_of [] = []"
| "stream_of (RData chunk # es) = chunk @ stream_of es"
| "stream_of (_ # es) = stream_of es"

definition frames_read :: "frame_reader \<Rightarrow> byte list list" where
  "frames_read r = [f. Inr f \<leftarrow> rd_settled r]"

lemma frames_read_append [simp]:
  "frames_read (r\<lparr>rd_settled := rd_settled r @ [x]\<rparr>) = frames_read r @ (case x of Inr f \<Rightarrow> [f] | Inl _ \<Rightarrow> [])"
  by (simp add: frames_read_def split: sum.splits)

text \<open>What was read and what is still buffered is what arrived: no byte is lost, duplicated or reordered.\<close>

definition consumed :: "frame_reader \<Rightarrow> byte list" where
  "consumed r = concat (map frame_of (frames_read r)) @ rd_buffer r"

lemma consumed_close [simp]: "consumed (reader_close e r) = consumed r"
  by (simp add: consumed_def reader_close_def frames_read_def)

lemma take_frame:
  assumes "decodeBrokerFrameLength (take 4 bs) = Inr n" and "4 + n \<le> int (length bs)"
  shows "frame_of (take (nat n) (drop 4 bs)) @ drop (4 + nat n) bs = bs"
    and "length (take (nat n) (drop 4 bs)) = nat n"
proof -
  from decode_length_bounds [OF assms(1)]
  have n: "0 \<le> n" "n = readUInt32BE (take 4 bs)" "length (take 4 bs) = 4" by auto
  show len: "length (take (nat n) (drop 4 bs)) = nat n" using n(1) assms(2) by simp
  have "writeUInt32BE (int (nat n)) = take 4 bs"
    using n write_read_UInt32BE [OF n(3)] by simp
  then show "frame_of (take (nat n) (drop 4 bs)) @ drop (4 + nat n) bs = bs"
    unfolding frame_of_def len
    by (metis append.assoc append_take_drop_id drop_drop add.commute)
qed

lemma consumed_pump [simp]: "consumed (reader_pump r) = consumed r"
proof -
  have "consumed (r\<lparr>rd_buffer := drop (4 + nat n) (rd_buffer r), rd_pending := False,
      rd_settled := rd_settled r @ [Inr (take (nat n) (drop 4 (rd_buffer r)))]\<rparr>) = consumed r"
    if "decodeBrokerFrameLength (take 4 (rd_buffer r)) = Inr n" "\<not> int (length (rd_buffer r)) < 4 + n" for n
    using take_frame(1) [OF that(1)] that(2) by (simp add: consumed_def frames_read_def)
  then show ?thesis by (auto simp: reader_pump_def split: sum.splits)
qed

lemma consumed_step: "consumed (reader_step e r) = consumed r @ stream_of [e]"
proof (cases e)
  case (RData chunk)
  have "consumed (r\<lparr>rd_buffer := rd_buffer r @ chunk\<rparr>) = consumed r @ chunk"
    by (simp add: consumed_def frames_read_def)
  with RData show ?thesis by (simp add: reader_data_def)
next
  case RNext
  have "consumed (r\<lparr>rd_pending := True\<rparr>) = consumed r"
    "consumed (r\<lparr>rd_settled := rd_settled r @ [Inl e]\<rparr>) = consumed r" for e
    by (simp_all add: consumed_def frames_read_def)
  with RNext show ?thesis by (simp add: reader_next_def split: option.splits)
next
  case RTimeout
  then show ?thesis by (simp add: reader_timeout_def consumed_def frames_read_def)
qed simp

lemma stream_of_Cons: "stream_of (e # es) = stream_of [e] @ stream_of es"
  by (cases e) simp_all

lemma reader_run_consumed:
  "concat (map frame_of (frames_read (fold reader_step es new_reader))) @ rd_buffer (fold reader_step es new_reader)
     = stream_of es"
proof -
  have "consumed (fold reader_step es r) = consumed r @ stream_of es" for r
  proof (induction es arbitrary: r)
    case (Cons e es)
    then show ?case by (simp add: consumed_step stream_of_Cons [of e es])
  qed simp
  from this [of new_reader] show ?thesis by (simp add: consumed_def frames_read_def new_reader_def)
qed

lemma frame_of_inj:
  assumes "fits_frame p" "fits_frame q" and "frame_of p @ x = frame_of q @ y"
  shows "p = q \<and> x = y"
proof -
  have "length p = length q"
    using decode_frame_prefix [OF assms(1), of x] decode_frame_prefix [OF assms(2), of y] assms(3) by simp
  with assms(3) show ?thesis by (simp add: frame_of_def)
qed

lemma frames_fit_step:
  assumes "list_all fits_frame (frames_read r)"
  shows "list_all fits_frame (frames_read (reader_step e r))"
proof -
  have pump: "list_all fits_frame (frames_read (reader_pump r))"
    if "list_all fits_frame (frames_read r)" for r
  proof (cases "decodeBrokerFrameLength (take 4 (rd_buffer r))")
    case (Inl _)
    with that show ?thesis by (simp add: reader_pump_def reader_close_def frames_read_def)
  next
    case (Inr n)
    from decode_length_bounds [OF this] that Inr show ?thesis
      by (simp add: reader_pump_def frames_read_def fits_frame_def)
  qed
  show ?thesis
  proof (cases e)
    case (RData chunk)
    have "frames_read (r\<lparr>rd_buffer := rd_buffer r @ chunk\<rparr>) = frames_read r" by (simp add: frames_read_def)
    then show ?thesis using RData assms pump [of "r\<lparr>rd_buffer := rd_buffer r @ chunk\<rparr>"] by (simp add: reader_data_def)
  next
    case RNext
    have "frames_read (r\<lparr>rd_pending := True\<rparr>) = frames_read r" by (simp add: frames_read_def)
    then show ?thesis using RNext assms pump [of "r\<lparr>rd_pending := True\<rparr>"]
      by (simp add: reader_next_def split: option.splits)
  qed (use assms in \<open>simp_all add: reader_close_def reader_timeout_def frames_read_def\<close>)
qed

lemma frames_fit_run:
  "list_all fits_frame (frames_read r) \<Longrightarrow> list_all fits_frame (frames_read (fold reader_step es r))"
  by (induction es arbitrary: r) (simp_all add: frames_fit_step)

lemma frames_prefix:
  assumes "list_all fits_frame ps" "list_all fits_frame qs"
    and "concat (map frame_of qs) @ x = concat (map frame_of ps)"
  shows "\<exists>rs. ps = qs @ rs"
  using assms
proof (induction qs arbitrary: ps)
  case (Cons q qs)
  then obtain p ps' where ps: "ps = p # ps'" by (cases ps) (auto simp: frame_of_def writeUInt32BE_def)
  with Cons.prems frame_of_inj [of q p "concat (map frame_of qs) @ x" "concat (map frame_of ps')"]
  have "q = p" "concat (map frame_of qs) @ x = concat (map frame_of ps')" by auto
  with Cons ps show ?case by auto
qed simp

text \<open>The frame reader delivers what was sent: whenever the bytes that arrived so far are part of a
  sequence of frames, then after any interleaving of chunks, reads, timeouts and closes the payloads
  it delivered are a prefix of the payloads sent, in order, without loss or duplication.\<close>

theorem frame_reader_in_order:
  assumes "list_all fits_frame ps" and "stream_of es @ rest = concat (map frame_of ps)"
  shows "\<exists>qs. ps = frames_read (fold reader_step es new_reader) @ qs"
proof (rule frames_prefix)
  show "list_all fits_frame (frames_read (fold reader_step es new_reader))"
    by (rule frames_fit_run) (simp add: frames_read_def new_reader_def)
  show "concat (map frame_of (frames_read (fold reader_step es new_reader)))
      @ rd_buffer (fold reader_step es new_reader) @ rest = concat (map frame_of ps)"
    using reader_run_consumed [of es] assms(2) by (metis append.assoc)
qed (rule assms(1))

theorem frame_reader_in_order_witness:
  "\<exists>qs. [[65], [66, 67]] = frames_read (fold reader_step
      [RNext, RData [0, 0, 0, 1, 65, 0], RData [0, 0, 2], RNext, RTimeout, RNext, RData [66, 67]] new_reader) @ qs"
  by (rule frame_reader_in_order [where rest = "[]"])
    (simp_all add: fits_frame_def BROKER_FRAME_MAX_BYTES_def frame_of_def writeUInt32BE_def)

text \<open>A complete frame in the buffer is delivered by the next read.\<close>

lemma reader_next_delivers:
  assumes "\<not> rd_pending r" "rd_closed r = None" "fits_frame p" "rd_buffer r = frame_of p @ rest"
  shows "\<exists>r'. reader_next r = Some r' \<and> rd_settled r' = rd_settled r @ [Inr p] \<and> rd_buffer r' = rest
       \<and> \<not> rd_pending r'"
  using assms decode_frame_prefix [OF assms(3), of rest]
  by (simp add: reader_next_def reader_pump_def frame_of_def)

section \<open>The guest client (local-tool-client.ts)\<close>

text \<open>
  A call of \<^verbatim>\<open>LocalToolClient\<close> after the request was written: the bytes received and how the
  promise was settled. \<open>read_reply\<close> stands for \<^verbatim>\<open>JSON.parse\<close> with the response schema; it gives
  the response with its id, or fails.
\<close>

datatype 'r call_result = Resolved 'r | Rejected

record 'r tool_call =
  call_buffer :: "byte list"
  call_result :: "'r call_result option"

definition finish :: "'r call_result \<Rightarrow> 'r tool_call \<Rightarrow> 'r tool_call" where
  "finish res c = (if call_result c \<noteq> None then c else c\<lparr>call_result := Some res\<rparr>)"

definition call_data :: "(utf16 \<Rightarrow> (utf16 \<times> 'r) option) \<Rightarrow> utf16 \<Rightarrow> byte list \<Rightarrow> 'r tool_call \<Rightarrow> 'r tool_call" where
  "call_data read_reply request_id chunk c0 =
     (if call_result c0 \<noteq> None then c0
      else let c = c0\<lparr>call_buffer := call_buffer c0 @ chunk\<rparr>; b = call_buffer c in
        if length b < 4 then c
        else case decodeBrokerFrameLength (take 4 b) of
          Inl _ \<Rightarrow> finish Rejected c
        | Inr n \<Rightarrow>
            if int (length b) < 4 + n then c
            else if int (length b) \<noteq> 4 + n then finish Rejected c
            else (case read_reply (utf8_decode (drop 4 b)) of
                    None \<Rightarrow> finish Rejected c
                  | Some (rid, response) \<Rightarrow>
                      if rid \<noteq> request_id then finish Rejected c else finish (Resolved response) c))"

datatype call_event = CData "byte list" | CError | CEnd | CTimer

fun call_step :: "(utf16 \<Rightarrow> (utf16 \<times> 'r) option) \<Rightarrow> utf16 \<Rightarrow> call_event \<Rightarrow> 'r tool_call \<Rightarrow> 'r tool_call" where
  "call_step rd rid (CData chunk) c = call_data rd rid chunk c"
| "call_step rd rid CError c = finish Rejected c"
| "call_step rd rid CEnd c = finish Rejected c"
| "call_step rd rid CTimer c = finish Rejected c"

text \<open>A settled call stays settled, and it resolves only with a response that carries the request's id.\<close>

lemma call_step_settled: "call_result c = Some res \<Longrightarrow> call_step rd rid e c = c"
  by (cases e) (simp_all add: call_data_def finish_def)

lemma call_resolved_sound:
  assumes "call_result c = None" and "call_result (call_step rd rid e c) = Some (Resolved response)"
  shows "\<exists>p. call_buffer (call_step rd rid e c) = frame_of p \<and> rd (utf8_decode p) = Some (rid, response)"
proof -
  from assms obtain chunk n where e: "e = CData chunk"
    and d: "decodeBrokerFrameLength (take 4 (call_buffer c @ chunk)) = Inr n"
    and n: "int (length (call_buffer c @ chunk)) = 4 + n"
    and r: "rd (utf8_decode (drop 4 (call_buffer c @ chunk))) = Some (rid, response)"
    by (cases e) (auto simp: call_data_def finish_def Let_def split: if_splits sum.splits option.splits)
  have "call_buffer (call_step rd rid e c) = call_buffer c @ chunk"
    using assms(1) e by (simp add: call_data_def finish_def Let_def split: sum.splits option.splits)
  moreover have "frame_of (drop 4 (call_buffer c @ chunk)) = call_buffer c @ chunk"
  proof -
    have "nat n = length (drop 4 (call_buffer c @ chunk))" using n by auto
    with take_frame(1) [OF d] n show ?thesis by simp
  qed
  ultimately show ?thesis using r by metis
qed

section \<open>Response capacity (framed-broker-server.ts)\<close>

fun assertBrokerResponseCapacity :: "int list \<Rightarrow> js_error + unit" where
  "assertBrokerResponseCapacity [] = Inr ()"
| "assertBrokerResponseCapacity (maximum # rest) =
     (if \<not> positive_safe maximum then Inl ForeignError
      else if BROKER_FRAME_MAX_BYTES < (maximum + 2) div 3 * 4 + 8192 then Inl ForeignError
      else assertBrokerResponseCapacity rest)"

lemma capacity_each:
  "assertBrokerResponseCapacity ms = Inr () \<Longrightarrow> m \<in> set ms \<Longrightarrow>
     0 < m \<and> (m + 2) div 3 * 4 + 8192 \<le> BROKER_FRAME_MAX_BYTES"
  by (induction ms) (auto simp: positive_safe_def split: if_splits)

end
