(* ===== verification/Action_Gate.thy ===== *)
theory Action_Gate
  imports Prelude
begin

text \<open>
  The per-session admission gate of \<^verbatim>\<open>apps/control-plane/src/session-action-gate.ts\<close>,
  shared by broker calls, local tools and snapshot capture.

  The gate keeps a map from session ids to mutable state objects. Leases and captures
  hold references to those objects, and an object leaves the map when it is idle, so
  the map and the objects are modelled apart: \<open>states\<close> maps a session to an address,
  \<open>objs\<close> is the store of objects. A lease or capture is a closure that outlives the
  call that made it; both are kept by index, in order of creation. One step of the
  relation \<open>gate_step\<close> is one run of JavaScript between two awaits.
\<close>

section \<open>State\<close>

record gate_state =
  closing :: bool
  active :: int
  drained :: "nat set"

record lease =
  lease_session :: string
  lease_obj :: nat
  released :: bool

text \<open>
  Where an in-flight \<^verbatim>\<open>withExclusiveCapture\<close> is: waiting for the drain promise, past it but
  not yet resumed, inside \<^verbatim>\<open>capture()\<close>, rejected by the drain timer, or done with its
  \<^verbatim>\<open>finally\<close> block.
\<close>

datatype capture_pc = Waiting | Drained | Capturing | TimedOut | Finished

record capture =
  cap_session :: string
  cap_obj :: nat
  cap_pc :: capture_pc

record gate =
  states :: "string \<rightharpoonup> nat"
  objs :: "nat \<Rightarrow> gate_state"
  next_obj :: nat
  leases :: "lease list"
  captures :: "capture list"

definition empty_state :: gate_state where
  "empty_state = \<lparr>closing = False, active = 0, drained = {}\<rparr>"

definition new_gate :: gate where
  "new_gate = \<lparr>states = Map.empty, objs = (\<lambda>_. empty_state), next_obj = 0, leases = [], captures = []\<rparr>"

section \<open>Operations\<close>

text \<open>\<^verbatim>\<open>#state\<close>: the session's object, created and entered in the map when absent.\<close>

definition state_for :: "string \<Rightarrow> gate \<Rightarrow> nat \<times> gate" where
  "state_for sid g = (case states g sid of
     Some a \<Rightarrow> (a, g)
   | None \<Rightarrow> (next_obj g,
       g\<lparr>states := (states g)(sid \<mapsto> next_obj g),
         objs := (objs g)(next_obj g := empty_state),
         next_obj := Suc (next_obj g)\<rparr>))"

definition upd_obj :: "nat \<Rightarrow> (gate_state \<Rightarrow> gate_state) \<Rightarrow> gate \<Rightarrow> gate" where
  "upd_obj a f g = g\<lparr>objs := (objs g)(a := f (objs g a))\<rparr>"

definition deleteIfIdle :: "string \<Rightarrow> nat \<Rightarrow> gate \<Rightarrow> gate" where
  "deleteIfIdle sid a g =
     (if \<not> closing (objs g a) \<and> active (objs g a) = 0 \<and> drained (objs g a) = {}
      then g\<lparr>states := (states g)(sid := None)\<rparr> else g)"

definition enter :: "string \<Rightarrow> gate \<Rightarrow> nat option \<times> gate" where
  "enter sid g = (case state_for sid g of (a, g1) \<Rightarrow>
     if closing (objs g1 a) then (None, g1)
     else (Some (length (leases g1)),
       (upd_obj a (\<lambda>st. st\<lparr>active := active st + 1\<rparr>) g1)
         \<lparr>leases := leases g1 @ [\<lparr>lease_session = sid, lease_obj = a, released = False\<rparr>]\<rparr>))"

text \<open>Running every callback of \<open>drained\<close> resolves the promise its capture waits on.\<close>

definition resolve_waiters :: "nat set \<Rightarrow> capture list \<Rightarrow> capture list" where
  "resolve_waiters ws cs = map (\<lambda>(i, c). if i \<in> ws then c\<lparr>cap_pc := Drained\<rparr> else c) (enumerate 0 cs)"

definition notify_drained :: "nat \<Rightarrow> gate \<Rightarrow> gate" where
  "notify_drained a g =
     (if active (objs g a) = 0
      then upd_obj a (\<lambda>st. st\<lparr>drained := {}\<rparr>)
             (g\<lparr>captures := resolve_waiters (drained (objs g a)) (captures g)\<rparr>)
      else g)"

definition release :: "nat \<Rightarrow> gate \<Rightarrow> gate" where
  "release i g =
     (let l = leases g ! i; a = lease_obj l in
      if released l then g
      else deleteIfIdle (lease_session l) a
        (notify_drained a
          (upd_obj a (\<lambda>st. st\<lparr>active := active st - 1\<rparr>)
            (g\<lparr>leases := (leases g)[i := l\<lparr>released := True\<rparr>]\<rparr>))))"

text \<open>
  \<^verbatim>\<open>withExclusiveCapture\<close> up to its first await, with \<^verbatim>\<open>assertPositive\<close> and the entry of
  \<^verbatim>\<open>#waitForDrain\<close>: the gate closes before anything is awaited.
\<close>

definition open_capture :: "string \<Rightarrow> int \<Rightarrow> gate \<Rightarrow> (js_error + nat) \<times> gate" where
  "open_capture sid drainTimeoutMs g =
     (if \<not> positive_safe drainTimeoutMs
      then (Inl (Caisson SANDBOX_FAILED ''session snapshot action-drain timeout configuration is invalid''), g)
      else case state_for sid g of (a, g1) \<Rightarrow>
        if closing (objs g1 a)
        then (Inl (Caisson SESSION_SUSPENDED ''session snapshot capture is already active''), g1)
        else
          let c = length (captures g1);
              g2 = upd_obj a (\<lambda>st. st\<lparr>closing := True\<rparr>) g1
          in if active (objs g2 a) = 0
             then (Inr c, g2\<lparr>captures := captures g2 @ [\<lparr>cap_session = sid, cap_obj = a, cap_pc = Drained\<rparr>]\<rparr>)
             else (Inr c, (upd_obj a (\<lambda>st. st\<lparr>drained := insert c (drained st)\<rparr>) g2)
               \<lparr>captures := captures g2 @ [\<lparr>cap_session = sid, cap_obj = a, cap_pc = Waiting\<rparr>]\<rparr>))"

definition set_pc :: "nat \<Rightarrow> capture_pc \<Rightarrow> gate \<Rightarrow> gate" where
  "set_pc i pc g = g\<lparr>captures := (captures g)[i := (captures g ! i)\<lparr>cap_pc := pc\<rparr>]\<rparr>"

text \<open>The drain timer fires: the waiter is removed and the wait rejected.\<close>

definition drain_timeout :: "nat \<Rightarrow> gate \<Rightarrow> gate" where
  "drain_timeout i g =
     set_pc i TimedOut (upd_obj (cap_obj (captures g ! i)) (\<lambda>st. st\<lparr>drained := drained st - {i}\<rparr>) g)"

text \<open>The wait is over and \<^verbatim>\<open>capture()\<close> is called.\<close>

definition begin_capture :: "nat \<Rightarrow> gate \<Rightarrow> gate" where
  "begin_capture i g = set_pc i Capturing g"

text \<open>The \<^verbatim>\<open>finally\<close> block, after \<^verbatim>\<open>capture()\<close> settled or the wait was rejected.\<close>

definition end_capture :: "nat \<Rightarrow> gate \<Rightarrow> gate" where
  "end_capture i g =
     (let c = captures g ! i; a = cap_obj c in
      deleteIfIdle (cap_session c) a
        (upd_obj a (\<lambda>st. st\<lparr>closing := False\<rparr>) (set_pc i Finished g)))"

definition isCapturePending :: "string \<Rightarrow> gate \<Rightarrow> bool" where
  "isCapturePending sid g = (case states g sid of None \<Rightarrow> False | Some a \<Rightarrow> closing (objs g a))"

inductive gate_step :: "gate \<Rightarrow> gate \<Rightarrow> bool" where
  step_enter: "gate_step g (snd (enter sid g))"
| step_release: "i < length (leases g) \<Longrightarrow> gate_step g (release i g)"
| step_open: "gate_step g (snd (open_capture sid t g))"
| step_timeout: "i < length (captures g) \<Longrightarrow> cap_pc (captures g ! i) = Waiting \<Longrightarrow>
    gate_step g (drain_timeout i g)"
| step_begin: "i < length (captures g) \<Longrightarrow> cap_pc (captures g ! i) = Drained \<Longrightarrow>
    gate_step g (begin_capture i g)"
| step_end: "i < length (captures g) \<Longrightarrow> cap_pc (captures g ! i) \<in> {Capturing, TimedOut} \<Longrightarrow>
    gate_step g (end_capture i g)"

inductive gate_reachable :: "gate \<Rightarrow> bool" where
  gate_init: "gate_reachable new_gate"
| gate_next: "gate_reachable g \<Longrightarrow> gate_step g g' \<Longrightarrow> gate_reachable g'"

section \<open>The invariant\<close>

definition live_leases :: "string \<Rightarrow> gate \<Rightarrow> lease list" where
  "live_leases sid g = filter (\<lambda>l. lease_session l = sid \<and> \<not> released l) (leases g)"

definition in_flight :: "string \<Rightarrow> gate \<Rightarrow> nat set" where
  "in_flight sid g = {i. i < length (captures g) \<and> cap_session (captures g ! i) = sid
                        \<and> cap_pc (captures g ! i) \<noteq> Finished}"

definition waiting :: "string \<Rightarrow> gate \<Rightarrow> nat set" where
  "waiting sid g = {i \<in> in_flight sid g. cap_pc (captures g ! i) = Waiting}"

text \<open>What holds of one session: its leases, its captures and its state object agree.\<close>

definition session_ok :: "string \<Rightarrow> gate \<Rightarrow> bool" where
  "session_ok sid g \<longleftrightarrow> (case states g sid of
     None \<Rightarrow> live_leases sid g = [] \<and> in_flight sid g = {}
   | Some a \<Rightarrow>
       a < next_obj g
     \<and> active (objs g a) = int (length (live_leases sid g))
     \<and> (\<forall>l \<in> set (live_leases sid g). lease_obj l = a)
     \<and> (\<forall>i \<in> in_flight sid g. cap_obj (captures g ! i) = a)
     \<and> (closing (objs g a) \<longleftrightarrow> in_flight sid g \<noteq> {})
     \<and> (\<forall>i \<in> in_flight sid g. \<forall>j \<in> in_flight sid g. i = j)
     \<and> drained (objs g a) = waiting sid g
     \<and> (\<forall>i \<in> in_flight sid g. cap_pc (captures g ! i) = Waiting \<longrightarrow> active (objs g a) \<noteq> 0)
     \<and> (\<forall>i \<in> in_flight sid g. cap_pc (captures g ! i) = Drained \<longrightarrow> active (objs g a) = 0)
     \<and> (\<forall>i \<in> in_flight sid g. cap_pc (captures g ! i) = Capturing \<longrightarrow> active (objs g a) = 0)
     \<and> (closing (objs g a) \<or> active (objs g a) \<noteq> 0))"

definition gate_inv :: "gate \<Rightarrow> bool" where
  "gate_inv g \<longleftrightarrow> inj_on (states g) (dom (states g)) \<and> (\<forall>sid. session_ok sid g)"

lemma gate_inv_new: "gate_inv new_gate"
  by (simp add: gate_inv_def session_ok_def new_gate_def live_leases_def in_flight_def)

lemma session_okD:
  assumes "session_ok sid g" and "states g sid = Some a"
  shows "a < next_obj g" and "active (objs g a) = int (length (live_leases sid g))"
    and "l \<in> set (live_leases sid g) \<Longrightarrow> lease_obj l = a"
    and "i \<in> in_flight sid g \<Longrightarrow> cap_obj (captures g ! i) = a"
    and "closing (objs g a) \<longleftrightarrow> in_flight sid g \<noteq> {}"
    and "i \<in> in_flight sid g \<Longrightarrow> j \<in> in_flight sid g \<Longrightarrow> i = j"
    and "drained (objs g a) = waiting sid g"
    and "i \<in> in_flight sid g \<Longrightarrow> cap_pc (captures g ! i) = Waiting \<Longrightarrow> active (objs g a) \<noteq> 0"
    and "i \<in> in_flight sid g \<Longrightarrow> cap_pc (captures g ! i) = Drained \<Longrightarrow> active (objs g a) = 0"
    and "i \<in> in_flight sid g \<Longrightarrow> cap_pc (captures g ! i) = Capturing \<Longrightarrow> active (objs g a) = 0"
    and "closing (objs g a) \<or> active (objs g a) \<noteq> 0"
  using assms(1) unfolding session_ok_def assms(2) option.case by blast+

lemma session_okI:
  assumes "states g sid = Some a" "a < next_obj g" "active (objs g a) = int (length (live_leases sid g))"
    and "\<And>l. l \<in> set (live_leases sid g) \<Longrightarrow> lease_obj l = a"
    and "\<And>i. i \<in> in_flight sid g \<Longrightarrow> cap_obj (captures g ! i) = a"
    and "closing (objs g a) \<longleftrightarrow> in_flight sid g \<noteq> {}"
    and "\<And>i j. i \<in> in_flight sid g \<Longrightarrow> j \<in> in_flight sid g \<Longrightarrow> i = j"
    and "drained (objs g a) = waiting sid g"
    and "\<And>i. i \<in> in_flight sid g \<Longrightarrow> cap_pc (captures g ! i) = Waiting \<Longrightarrow> active (objs g a) \<noteq> 0"
    and "\<And>i. i \<in> in_flight sid g \<Longrightarrow> cap_pc (captures g ! i) = Drained \<Longrightarrow> active (objs g a) = 0"
    and "\<And>i. i \<in> in_flight sid g \<Longrightarrow> cap_pc (captures g ! i) = Capturing \<Longrightarrow> active (objs g a) = 0"
    and "closing (objs g a) \<or> active (objs g a) \<noteq> 0"
  shows "session_ok sid g"
  unfolding session_ok_def assms(1) option.case using assms(2-) by blast

text \<open>A session whose object, leases and captures a step leaves alone stays consistent.\<close>

lemma session_ok_frame:
  assumes "session_ok sid g" and "states g' sid = states g sid"
    and "\<And>a. states g sid = Some a \<Longrightarrow> objs g' a = objs g a"
    and "next_obj g \<le> next_obj g'"
    and "live_leases sid g' = live_leases sid g"
    and "in_flight sid g' = in_flight sid g"
    and "\<And>i. i \<in> in_flight sid g \<Longrightarrow> captures g' ! i = captures g ! i"
  shows "session_ok sid g'"
proof (cases "states g sid")
  case None
  with assms show ?thesis by (simp add: session_ok_def)
next
  case (Some a)
  have "waiting sid g' = waiting sid g"
    using assms(6,7) by (auto simp: waiting_def)
  with Some assms show ?thesis by (auto simp: session_ok_def)
qed

lemma in_flight_append:
  "in_flight sid (g\<lparr>captures := captures g @ [c]\<rparr>) =
     in_flight sid g \<union> (if cap_session c = sid \<and> cap_pc c \<noteq> Finished then {length (captures g)} else {})"
  by (auto simp: in_flight_def nth_append less_Suc_eq split: if_splits)

lemma session_ok_None:
  "session_ok sid g \<Longrightarrow> states g sid = None \<Longrightarrow> live_leases sid g = [] \<and> in_flight sid g = {}"
  by (simp add: session_ok_def)

text \<open>A live lease or an in-flight capture pins its session's object in the map.\<close>

lemma lease_pins:
  assumes "gate_inv g" "i < length (leases g)" "\<not> released (leases g ! i)"
  shows "states g (lease_session (leases g ! i)) = Some (lease_obj (leases g ! i))"
proof -
  let ?l = "leases g ! i"
  have l: "?l \<in> set (live_leases (lease_session ?l) g)"
    using assms(2,3) by (auto simp: live_leases_def)
  have "session_ok (lease_session ?l) g"
    using assms(1) by (simp add: gate_inv_def)
  with l show ?thesis
    by (auto simp: session_ok_def split: option.splits)
qed

lemma capture_pins:
  assumes "gate_inv g" "i \<in> in_flight sid g"
  shows "states g sid = Some (cap_obj (captures g ! i))"
proof -
  have "session_ok sid g"
    using assms(1) by (simp add: gate_inv_def)
  with assms(2) show ?thesis
    by (auto simp: session_ok_def split: option.splits)
qed

lemma states_inj:
  "gate_inv g \<Longrightarrow> states g s = Some a \<Longrightarrow> states g t = Some a \<Longrightarrow> s = t"
  by (auto simp: gate_inv_def dest: inj_onD [where x = s and y = t])

section \<open>Every step keeps the invariant\<close>

text \<open>
  \<^verbatim>\<open>#state\<close> may leave a fresh object that is idle, which \<open>session_ok\<close> forbids; what it
  establishes is the same facts but for that clause.
\<close>

lemma state_for_Some: "states g sid = Some a \<Longrightarrow> state_for sid g = (a, g)"
  by (simp add: state_for_def)

lemma state_for_None:
  "states g sid = None \<Longrightarrow> state_for sid g = (next_obj g,
     g\<lparr>states := (states g)(sid \<mapsto> next_obj g), objs := (objs g)(next_obj g := empty_state),
       next_obj := Suc (next_obj g)\<rparr>)"
  by (simp add: state_for_def)

lemma fresh_obj: "gate_inv g \<Longrightarrow> states g s = Some a \<Longrightarrow> a < next_obj g"
  by (auto simp: gate_inv_def session_ok_def split: option.splits dest!: spec [of _ s])

lemma inj_on_states_upd:
  "gate_inv g \<Longrightarrow> inj_on ((states g)(sid \<mapsto> next_obj g)) (dom ((states g)(sid \<mapsto> next_obj g)))"
  by (auto simp: inj_on_def dest: fresh_obj) (metis states_inj)+

lemma enter_inv:
  assumes "gate_inv g"
  shows "gate_inv (snd (enter sid g))"
proof (cases "states g sid")
  case None
  let ?g = "snd (enter sid g)"
  have live: "live_leases sid g = []" "in_flight sid g = {}"
    using session_ok_None None assms by (auto simp: gate_inv_def)
  have "inj_on (states ?g) (dom (states ?g))"
    using inj_on_states_upd [OF assms, of sid]
    by (simp add: enter_def state_for_None [OF None] upd_obj_def empty_state_def)
  moreover have "session_ok s ?g" for s
  proof (cases "s = sid")
    case True
    with live show ?thesis
      by (auto simp: session_ok_def enter_def state_for_None [OF None] upd_obj_def empty_state_def
          live_leases_def in_flight_def waiting_def)
  next
    case False
    have "session_ok s g" using assms by (simp add: gate_inv_def)
    then show ?thesis
      by (rule session_ok_frame)
        (use False assms in \<open>auto simp: enter_def state_for_None [OF None] upd_obj_def empty_state_def
           live_leases_def in_flight_def dest: fresh_obj\<close>)
  qed
  ultimately show ?thesis by (simp add: gate_inv_def)
next
  case (Some a)
  let ?g = "snd (enter sid g)"
  have ok: "session_ok sid g" using assms by (simp add: gate_inv_def)
  show ?thesis
  proof (cases "closing (objs g a)")
    case True
    with assms show ?thesis by (simp add: enter_def state_for_Some [OF Some])
  next
    case False
    have "inj_on (states ?g) (dom (states ?g))"
      using assms False by (simp add: gate_inv_def enter_def state_for_Some [OF Some] upd_obj_def)
    moreover have "session_ok s ?g" for s
    proof (cases "s = sid")
      case True
      with ok False Some show ?thesis
        by (auto simp: session_ok_def enter_def state_for_Some [OF Some] upd_obj_def
          live_leases_def in_flight_def waiting_def)
    next
      case s: False
      have "session_ok s g" using assms by (simp add: gate_inv_def)
      then show ?thesis
        by (rule session_ok_frame)
          (use s False Some assms in \<open>auto simp: enter_def state_for_Some [OF Some] upd_obj_def
             live_leases_def in_flight_def dest: states_inj\<close>)
    qed
    ultimately show ?thesis by (simp add: gate_inv_def)
  qed
qed

lemma length_resolve [simp]: "length (resolve_waiters ws cs) = length cs"
  by (simp add: resolve_waiters_def)

lemma nth_resolve:
  "i < length cs \<Longrightarrow> resolve_waiters ws cs ! i = (if i \<in> ws then (cs ! i)\<lparr>cap_pc := Drained\<rparr> else cs ! i)"
  by (simp add: resolve_waiters_def nth_enumerate_eq)

lemma in_flight_cong:
  assumes "length (captures g') = length (captures g)"
    and "\<And>i. i < length (captures g) \<Longrightarrow> cap_session (captures g' ! i) = cap_session (captures g ! i)"
    and "\<And>i. i < length (captures g) \<Longrightarrow>
          (cap_pc (captures g' ! i) = Finished) = (cap_pc (captures g ! i) = Finished)"
  shows "in_flight sid g' = in_flight sid g"
  using assms by (auto simp: in_flight_def)

text \<open>The whole of \<^verbatim>\<open>release\<close> on a lease that is still live, in one equation per field.\<close>

lemma release_live:
  assumes "\<not> released (leases g ! i)" and a: "a = lease_obj (leases g ! i)"
  defines "g' \<equiv> release i g"
  defines "zero \<equiv> active (objs g a) = 1"
  shows "leases g' = (leases g)[i := (leases g ! i)\<lparr>released := True\<rparr>]"
    and "captures g' = (if zero then resolve_waiters (drained (objs g a)) (captures g) else captures g)"
    and "objs g' = (objs g)(a := (objs g a)\<lparr>active := active (objs g a) - 1,
           drained := (if zero then {} else drained (objs g a))\<rparr>)"
    and "states g' = (if zero \<and> \<not> closing (objs g a)
           then (states g)(lease_session (leases g ! i) := None) else states g)"
    and "next_obj g' = next_obj g"
  using assms
  by (auto simp: release_def Let_def deleteIfIdle_def notify_drained_def upd_obj_def)

lemma live_leases_release:
  assumes "i < length (leases g)" "\<not> released (leases g ! i)" and s: "sid = lease_session (leases g ! i)"
  shows "int (length (live_leases sid (release i g))) = int (length (live_leases sid g)) - 1"
    and "set (live_leases sid (release i g)) \<subseteq> set (live_leases sid g)"
proof -
  have L: "leases (release i g) = (leases g)[i := (leases g ! i)\<lparr>released := True\<rparr>]"
    using release_live(1) [OF assms(2) refl] .
  show "int (length (live_leases sid (release i g))) = int (length (live_leases sid g)) - 1"
    using assms by (simp add: live_leases_def L length_filter_update)
  show "set (live_leases sid (release i g)) \<subseteq> set (live_leases sid g)"
    using set_update_subset_insert by (fastforce simp: live_leases_def L)
qed

lemma live_leases_release_other:
  assumes "i < length (leases g)" "\<not> released (leases g ! i)" "sid \<noteq> lease_session (leases g ! i)"
  shows "live_leases sid (release i g) = live_leases sid g"
proof -
  have "filter p (xs[i := y]) = filter p xs"
    if "i < length xs" "\<not> p (xs ! i)" "\<not> p y" for p and xs :: "lease list" and y i
    using that by (induction xs arbitrary: i) (auto simp: nth_Cons split: nat.splits)
  then show ?thesis
    using assms by (simp add: live_leases_def release_live(1) [OF assms(2) refl])
qed

lemma release_in_flight: "in_flight s (release i g) = in_flight s g"
  if "drained (objs g (lease_obj (leases g ! i))) = waiting sid g" "\<not> released (leases g ! i)"
  by (rule in_flight_cong)
    (auto simp: release_live [OF that(2) refl] nth_resolve that(1) waiting_def in_flight_def)

text \<open>The session that releases: the last release wakes its waiters, or drops the object.\<close>

lemma release_own:
  assumes inv: "gate_inv g" and i: "i < length (leases g)" and live: "\<not> released (leases g ! i)"
    and sid: "sid = lease_session (leases g ! i)" and a: "a = lease_obj (leases g ! i)"
  defines "g' \<equiv> release i g"
  shows "session_ok sid g'"
proof -
  note rel = release_live [OF live a, folded g'_def]
  have st: "states g sid = Some a"
    using lease_pins [OF inv i live] by (simp add: sid a)
  have "session_ok sid g" using inv by (simp add: gate_inv_def)
  note D = session_okD [OF this st]
  have "0 < length (live_leases sid g)"
    using length_filter_nth_pos [OF i, of "\<lambda>l. lease_session l = sid \<and> \<not> released l"] live
    by (simp add: live_leases_def sid)
  with D(2) have pos: "active (objs g a) \<ge> 1" by linarith
  have infl: "in_flight sid g' = in_flight sid g"
    unfolding g'_def by (rule release_in_flight [where sid = sid]) (use D(7) a live in auto)
  have ll: "int (length (live_leases sid g')) = active (objs g a) - 1"
      "set (live_leases sid g') \<subseteq> set (live_leases sid g)"
    using live_leases_release [OF i live sid] D(2) by (simp_all add: g'_def)
  have pc_of: "cap_pc (captures g' ! j) =
        (if active (objs g a) = 1 \<and> cap_pc (captures g ! j) = Waiting then Drained else cap_pc (captures g ! j))"
    and co: "cap_obj (captures g' ! j) = cap_obj (captures g ! j)"
    if "j \<in> in_flight sid g" for j
    using that by (auto simp: rel nth_resolve D(7) waiting_def in_flight_def)
  have w: "waiting sid g' = (if active (objs g a) = 1 then {} else waiting sid g)"
    using pc_of by (auto simp: waiting_def infl)
  show ?thesis
  proof (cases "active (objs g a) = 1 \<and> \<not> closing (objs g a)")
    case True
    with ll D(5) infl show ?thesis by (simp add: session_ok_def rel sid [symmetric])
  next
    case False
    show ?thesis
      by (rule session_okI [of _ _ a])
        (use False pos ll D(1,3-6,8-11) in \<open>auto simp: st infl rel(3-5) co pc_of w D(7) split: if_splits\<close>)
  qed
qed

lemma release_inv:
  assumes inv: "gate_inv g" and i: "i < length (leases g)"
  shows "gate_inv (release i g)"
proof (cases "released (leases g ! i)")
  case True
  with inv show ?thesis by (simp add: release_def Let_def)
next
  case False
  note rel = release_live [OF False refl]
  define sid where "sid = lease_session (leases g ! i)"
  have st: "states g sid = Some (lease_obj (leases g ! i))"
    using lease_pins [OF inv i False] by (simp add: sid_def)
  have "session_ok sid g" using inv by (simp add: gate_inv_def)
  note drn = session_okD(7) [OF this st]
  have "session_ok s (release i g)" for s
  proof (cases "s = sid")
    case True
    then show ?thesis using release_own [OF inv i False _ refl] by (simp add: sid_def)
  next
    case other: False
    have "session_ok s g" using inv by (simp add: gate_inv_def)
    then show ?thesis
    proof (rule session_ok_frame)
      show "live_leases s (release i g) = live_leases s g"
        using live_leases_release_other [OF i False] other by (simp add: sid_def)
      show "captures (release i g) ! j = captures g ! j" if "j \<in> in_flight s g" for j
        using that other by (auto simp: rel nth_resolve drn waiting_def in_flight_def)
      show "objs (release i g) a = objs g a" if "states g s = Some a" for a
        using that other st states_inj [OF inv, of s _ sid] by (auto simp: rel(3))
    qed (use other release_in_flight [OF drn False] in \<open>simp_all add: rel(4,5) sid_def [symmetric]\<close>)
  qed
  moreover have "inj_on (states (release i g)) (dom (states (release i g)))"
    using inv by (auto simp: rel(4) gate_inv_def inj_on_def)
  ultimately show ?thesis by (simp add: gate_inv_def)
qed

text \<open>The captures: opening, the timer, running, and the \<^verbatim>\<open>finally\<close> block.\<close>

lemma state_for_fields:
  assumes "gate_inv g" and "state_for sid g = (a, g1)"
  shows "states g1 = (states g)(sid \<mapsto> a)" and "leases g1 = leases g" and "captures g1 = captures g"
    and "next_obj g \<le> next_obj g1" and "a < next_obj g1"
    and "objs g1 = (if states g sid = None then (objs g)(a := empty_state) else objs g)"
    and "states g sid = None \<Longrightarrow> a = next_obj g"
    and "states g sid = Some b \<Longrightarrow> b = a"
  using assms by (auto simp: state_for_def map_upd_triv dest: fresh_obj split: option.splits)

lemma state_for_other:
  assumes "gate_inv g" and "state_for sid g = (a, g1)" and "s \<noteq> sid" and "states g s = Some b"
  shows "b \<noteq> a" and "objs g1 b = objs g b"
proof -
  show "b \<noteq> a"
    using assms fresh_obj [OF assms(1,4)] states_inj [OF assms(1)]
    by (cases "states g sid") (auto simp: state_for_def)
  then show "objs g1 b = objs g b"
    by (simp add: state_for_fields(6) [OF assms(1,2)])
qed

lemma state_for_inj:
  assumes "gate_inv g" and "state_for sid g = (a, g1)"
  shows "inj_on (states g1) (dom (states g1))"
  using assms inj_on_states_upd [OF assms(1), of sid]
  by (auto simp: state_for_def gate_inv_def split: option.splits)

lemma open_capture_fields:
  assumes "positive_safe t" and sf: "state_for sid g = (a, g1)" and "\<not> closing (objs g1 a)"
  defines "g' \<equiv> snd (open_capture sid t g)"
  defines "pc \<equiv> (if active (objs g1 a) = 0 then Drained else Waiting)"
  shows "states g' = states g1" and "leases g' = leases g1" and "next_obj g' = next_obj g1"
    and "captures g' = captures g1 @ [\<lparr>cap_session = sid, cap_obj = a, cap_pc = pc\<rparr>]"
    and "objs g' = (objs g1)(a := (objs g1 a)\<lparr>closing := True,
           drained := (if pc = Waiting then insert (length (captures g1)) (drained (objs g1 a))
                       else drained (objs g1 a))\<rparr>)"
  using assms by (auto simp: open_capture_def upd_obj_def Let_def)

lemma open_capture_own:
  assumes inv: "gate_inv g" and t: "positive_safe t" and sf: "state_for sid g = (a, g1)"
    and ncl: "\<not> closing (objs g1 a)"
  shows "session_ok sid (snd (open_capture sid t g))" (is "session_ok sid ?g")
proof -
  note F = state_for_fields [OF inv sf] and O = open_capture_fields [OF t sf ncl]
  have ok: "session_ok sid g" using inv by (simp add: gate_inv_def)
  have facts: "in_flight sid g = {} \<and> active (objs g1 a) = int (length (live_leases sid g))
      \<and> (\<forall>l \<in> set (live_leases sid g). lease_obj l = a) \<and> drained (objs g1 a) = {}"
  proof (cases "states g sid")
    case None
    then show ?thesis using session_ok_None [OF ok None] F(6) by (simp add: empty_state_def)
  next
    case (Some b)
    then have "b = a" using F(8) by simp
    then show ?thesis using session_okD [OF ok Some] ncl F(6) Some by (auto simp: waiting_def)
  qed
  have infl: "in_flight sid ?g = {length (captures g)}"
    using facts by (auto simp: in_flight_def O F(3) nth_append less_Suc_eq)
  have live: "live_leases sid ?g = live_leases sid g"
    by (simp add: live_leases_def O F(2))
  show ?thesis
    by (rule session_okI [of _ _ a])
      (use facts F(5) in \<open>auto simp: O F(1,3) infl live waiting_def nth_append split: if_splits\<close>)
qed

lemma open_capture_inv:
  assumes inv: "gate_inv g"
  shows "gate_inv (snd (open_capture sid t g))"
proof (cases "positive_safe t")
  case False
  with inv show ?thesis by (simp add: open_capture_def)
next
  case t: True
  obtain a g1 where sf: "state_for sid g = (a, g1)" by fastforce
  show ?thesis
  proof (cases "closing (objs g1 a)")
    case True
    then have "g1 = g"
      using sf by (auto simp: state_for_def empty_state_def split: option.splits)
    with True inv sf t show ?thesis by (simp add: open_capture_def)
  next
    case False
    note F = state_for_fields [OF inv sf] and O = open_capture_fields [OF t sf False]
    have "session_ok s (snd (open_capture sid t g))" for s
    proof (cases "s = sid")
      case True
      then show ?thesis using open_capture_own [OF inv t sf False] by simp
    next
      case s: False
      have "session_ok s g" using inv by (simp add: gate_inv_def)
      then show ?thesis
        by (rule session_ok_frame)
          (use s F(4) state_for_other [OF inv sf s] in
            \<open>auto simp: O F(1,2,3) live_leases_def in_flight_def nth_append less_Suc_eq\<close>)
    qed
    moreover have "inj_on (states (snd (open_capture sid t g))) (dom (states (snd (open_capture sid t g))))"
      using state_for_inj [OF inv sf] by (simp add: O)
    ultimately show ?thesis by (simp add: gate_inv_def)
  qed
qed

lemma length_set_pc [simp]: "length (captures (set_pc i pc g)) = length (captures g)"
  by (simp add: set_pc_def)

text \<open>
  The remaining steps all touch one in-flight capture and its session's object. What is
  left is to check the session of that capture.
\<close>

lemma capture_step_inv:
  assumes inv: "gate_inv g" and i: "i \<in> in_flight sid g"
    and "leases g' = leases g" and "next_obj g' = next_obj g"
    and "captures g' = (captures g)[i := (captures g ! i)\<lparr>cap_pc := pc\<rparr>]"
    and st: "states g' = states g \<or> states g' = (states g)(sid := None)"
    and ob: "\<And>b. b \<noteq> cap_obj (captures g ! i) \<Longrightarrow> objs g' b = objs g b"
    and own: "session_ok sid g'"
  shows "gate_inv g'"
proof -
  have "session_ok s g'" if "s \<noteq> sid" for s
  proof (rule session_ok_frame [of s g])
    show "session_ok s g" using inv by (simp add: gate_inv_def)
    show "states g' s = states g s" using st that by auto
    show "objs g' b = objs g b" if b: "states g s = Some b" for b
      using ob [of b] states_inj [OF inv b] capture_pins [OF inv i] \<open>s \<noteq> sid\<close> by auto
    show "live_leases s g' = live_leases s g" by (simp add: assms(3) live_leases_def)
    show "in_flight s g' = in_flight s g"
      using that i by (auto simp: assms(5) in_flight_def nth_list_update)
    show "captures g' ! j = captures g ! j" if "j \<in> in_flight s g" for j
      using that i \<open>s \<noteq> sid\<close> by (auto simp: assms(5) in_flight_def nth_list_update)
  qed (simp add: assms(4))
  then have "session_ok s g'" for s using own by (cases "s = sid") auto
  moreover have "inj_on (states g') (dom (states g'))"
    using st states_inj [OF inv] by (auto simp: inj_on_def split: if_splits)
  ultimately show ?thesis by (simp add: gate_inv_def)
qed

lemma in_flight_set_pc:
  assumes "i \<in> in_flight sid g" and "captures g' = (captures g)[i := (captures g ! i)\<lparr>cap_pc := pc\<rparr>]"
  shows "in_flight sid g' = (if pc = Finished then in_flight sid g - {i} else in_flight sid g)"
  using assms by (auto simp: in_flight_def nth_list_update)

lemma drain_timeout_inv:
  assumes inv: "gate_inv g" and i: "i < length (captures g)" and pc: "cap_pc (captures g ! i) = Waiting"
  shows "gate_inv (drain_timeout i g)" (is "gate_inv ?g")
proof -
  define sid a where "sid = cap_session (captures g ! i)" and "a = cap_obj (captures g ! i)"
  have fl: "i \<in> in_flight sid g" using i pc by (simp add: in_flight_def sid_def)
  have st: "states g sid = Some a" using capture_pins [OF inv fl] by (simp add: a_def)
  have "session_ok sid g" using inv by (simp add: gate_inv_def)
  note D = session_okD [OF this st]
  have caps: "captures ?g = (captures g)[i := (captures g ! i)\<lparr>cap_pc := TimedOut\<rparr>]"
    and rest: "leases ?g = leases g" "next_obj ?g = next_obj g" "states ?g = states g"
    and ob: "objs ?g = (objs g)(a := (objs g a)\<lparr>drained := drained (objs g a) - {i}\<rparr>)"
    by (simp_all add: drain_timeout_def set_pc_def upd_obj_def a_def)
  have infl: "in_flight sid ?g = {i}" "in_flight sid g = {i}"
    using in_flight_set_pc [OF fl caps] D(6) fl by auto
  have live: "live_leases sid ?g = live_leases sid g" by (simp add: rest live_leases_def)
  have "session_ok sid ?g"
    by (rule session_okI [of _ _ a])
      (use D(1-5,8,9) i pc in \<open>auto simp: rest st ob infl caps waiting_def live D(7)\<close>)
  with capture_step_inv [OF inv fl rest(1,2) caps] show ?thesis by (simp add: rest ob a_def)
qed

lemma begin_capture_inv:
  assumes inv: "gate_inv g" and i: "i < length (captures g)" and pc: "cap_pc (captures g ! i) = Drained"
  shows "gate_inv (begin_capture i g)" (is "gate_inv ?g")
proof -
  define sid a where "sid = cap_session (captures g ! i)" and "a = cap_obj (captures g ! i)"
  have fl: "i \<in> in_flight sid g" using i pc by (simp add: in_flight_def sid_def)
  have st: "states g sid = Some a" using capture_pins [OF inv fl] by (simp add: a_def)
  have "session_ok sid g" using inv by (simp add: gate_inv_def)
  note D = session_okD [OF this st]
  have caps: "captures ?g = (captures g)[i := (captures g ! i)\<lparr>cap_pc := Capturing\<rparr>]"
    and rest: "leases ?g = leases g" "next_obj ?g = next_obj g" "states ?g = states g" "objs ?g = objs g"
    by (simp_all add: begin_capture_def set_pc_def)
  have infl: "in_flight sid ?g = {i}" "in_flight sid g = {i}"
    using in_flight_set_pc [OF fl caps] D(6) fl by auto
  have live: "live_leases sid ?g = live_leases sid g" by (simp add: rest live_leases_def)
  have "session_ok sid ?g"
    by (rule session_okI [of _ _ a])
      (use D(1-5,8,9) i pc in \<open>auto simp: rest st infl caps waiting_def live D(7)\<close>)
  with capture_step_inv [OF inv fl rest(1,2) caps] show ?thesis by (simp add: rest)
qed

lemma end_capture_inv:
  assumes inv: "gate_inv g" and i: "i < length (captures g)"
    and pc: "cap_pc (captures g ! i) \<in> {Capturing, TimedOut}"
  shows "gate_inv (end_capture i g)" (is "gate_inv ?g")
proof -
  define sid a where "sid = cap_session (captures g ! i)" and "a = cap_obj (captures g ! i)"
  have fl: "i \<in> in_flight sid g" using i pc by (auto simp: in_flight_def sid_def)
  have st: "states g sid = Some a" using capture_pins [OF inv fl] by (simp add: a_def)
  have "session_ok sid g" using inv by (simp add: gate_inv_def)
  note D = session_okD [OF this st]
  have only: "in_flight sid g = {i}" using D(6) fl by auto
  then have dr: "drained (objs g a) = {}" using D(7) pc by (auto simp: waiting_def)
  have caps: "captures ?g = (captures g)[i := (captures g ! i)\<lparr>cap_pc := Finished\<rparr>]"
    and rest: "leases ?g = leases g" "next_obj ?g = next_obj g"
    and sts: "states ?g = (if active (objs g a) = 0 then (states g)(sid := None) else states g)"
    and ob: "objs ?g = (objs g)(a := (objs g a)\<lparr>closing := False\<rparr>)"
    using dr by (simp_all add: end_capture_def Let_def deleteIfIdle_def set_pc_def upd_obj_def a_def sid_def)
  have infl: "in_flight sid ?g = {}"
    using in_flight_set_pc [OF fl caps] only by auto
  have live: "live_leases sid ?g = live_leases sid g" by (simp add: rest live_leases_def)
  have "session_ok sid ?g"
  proof (cases "active (objs g a) = 0")
    case True
    with D(2) show ?thesis by (simp add: session_ok_def sts infl live)
  next
    case False
    show ?thesis
      by (rule session_okI [of _ _ a])
        (use D(1-4) False in \<open>auto simp: rest sts st ob infl live waiting_def dr\<close>)
  qed
  with capture_step_inv [OF inv fl rest caps] show ?thesis by (simp add: sts ob a_def split: if_splits)
qed

lemma gate_step_inv: "gate_step g g' \<Longrightarrow> gate_inv g \<Longrightarrow> gate_inv g'"
  by (induction rule: gate_step.induct)
    (simp_all add: enter_inv release_inv open_capture_inv drain_timeout_inv begin_capture_inv end_capture_inv)

lemma gate_reachable_inv: "gate_reachable g \<Longrightarrow> gate_inv g"
  by (induction rule: gate_reachable.induct) (auto simp: gate_inv_new intro: gate_step_inv)

lemma gate_inv_session: "gate_inv g \<Longrightarrow> session_ok sid g"
  by (simp add: gate_inv_def)

section \<open>What the gate guarantees\<close>

inductive_cases gate_stepE: "gate_step g g'"

text \<open>(C1) Exclusion: in every reachable state of the gate, while a capture of a session is
  running no broker call or local tool of that session holds a live lease, and no other
  capture of the session is in flight.\<close>

theorem gate_capture_exclusive:
  assumes "gate_reachable g" and "i < length (captures g)" and "cap_pc (captures g ! i) = Capturing"
  shows "live_leases (cap_session (captures g ! i)) g = []
       \<and> in_flight (cap_session (captures g ! i)) g = {i}"
proof -
  let ?s = "cap_session (captures g ! i)"
  have inv: "gate_inv g" using assms(1) by (rule gate_reachable_inv)
  have fl: "i \<in> in_flight ?s g" using assms(2,3) by (simp add: in_flight_def)
  note D = session_okD [OF gate_inv_session [OF inv] capture_pins [OF inv fl]]
  show ?thesis using D(2) D(10) [OF fl assms(3)] D(6) [OF fl] fl by auto
qed

text \<open>A run in which a session has a call in flight, a capture waits for it, and runs.\<close>

definition demo_gate :: gate where
  "demo_gate = begin_capture 0 (release 0 (snd (open_capture ''s'' 1000 (snd (enter ''s'' new_gate)))))"

lemmas gate_op_defs = enter_def release_def open_capture_def begin_capture_def end_capture_def drain_timeout_def
  state_for_def upd_obj_def deleteIfIdle_def notify_drained_def resolve_waiters_def set_pc_def
  new_gate_def empty_state_def positive_safe_def

lemma demo_gate_eval:
  "captures demo_gate = [\<lparr>cap_session = ''s'', cap_obj = 0, cap_pc = Capturing\<rparr>]"
  "leases demo_gate = [\<lparr>lease_session = ''s'', lease_obj = 0, released = True\<rparr>]"
  by (simp_all add: demo_gate_def gate_op_defs Let_def)

lemma demo_gate_reachable: "gate_reachable demo_gate"
  unfolding demo_gate_def
  by (intro gate_next [OF _ step_begin] gate_next [OF _ step_release] gate_next [OF _ step_open]
      gate_next [OF _ step_enter] gate_init) (simp_all add: gate_op_defs Let_def)

theorem gate_capture_exclusive_witness:
  "live_leases ''s'' demo_gate = [] \<and> in_flight ''s'' demo_gate = {0}"
  using gate_capture_exclusive [OF demo_gate_reachable, of 0] by (simp add: demo_gate_eval)

text \<open>Admission: \<^verbatim>\<open>enter\<close> refuses exactly while a capture of the session is in flight, which is
  also what \<^verbatim>\<open>isCapturePending\<close> reports; otherwise it admits the call and the session has one more
  live lease.\<close>

theorem gate_admission:
  assumes "gate_reachable g"
  shows "(fst (enter sid g) = None \<longleftrightarrow> in_flight sid g \<noteq> {})
       \<and> (isCapturePending sid g \<longleftrightarrow> in_flight sid g \<noteq> {})
       \<and> length (live_leases sid (snd (enter sid g))) =
           length (live_leases sid g) + (if in_flight sid g = {} then 1 else 0)"
proof -
  have inv: "gate_inv g" using assms by (rule gate_reachable_inv)
  note ok = gate_inv_session [OF inv, of sid]
  show ?thesis
  proof (cases "states g sid")
    case None
    with session_ok_None [OF ok None] show ?thesis
      by (simp add: enter_def state_for_None [OF None] upd_obj_def empty_state_def isCapturePending_def
          live_leases_def)
  next
    case (Some a)
    with session_okD(5) [OF ok Some] show ?thesis
      by (simp add: enter_def state_for_Some [OF Some] upd_obj_def isCapturePending_def live_leases_def)
  qed
qed

theorem gate_admission_witness:
  "fst (enter ''s'' demo_gate) = None \<and> fst (enter ''t'' demo_gate) = Some 1"
  using gate_admission [OF demo_gate_reachable, of "''s''"]
  by (auto simp: demo_gate_def gate_op_defs Let_def in_flight_def)

text \<open>(C2) Accounting: the counter of a session is the number of its live leases, the session has an
  entry in the map exactly while it has a live lease or a capture in flight (the map does not
  leak), and a live lease always refers to the entry that is in the map.\<close>

theorem gate_accounting:
  assumes "gate_reachable g"
  shows "(states g sid = None \<longleftrightarrow> live_leases sid g = [] \<and> in_flight sid g = {})
       \<and> (\<forall>a. states g sid = Some a \<longrightarrow> active (objs g a) = int (length (live_leases sid g))
            \<and> (\<forall>l \<in> set (live_leases sid g). lease_obj l = a))"
proof -
  have ok: "session_ok sid g" using assms by (simp add: gate_reachable_inv gate_inv_session)
  show ?thesis
  proof (cases "states g sid")
    case None
    with session_ok_None [OF ok None] show ?thesis by simp
  next
    case (Some a)
    note D = session_okD [OF ok Some]
    show ?thesis using Some D(2,3,5,11) by auto
  qed
qed

theorem gate_accounting_witness:
  "live_leases ''s'' (snd (enter ''s'' new_gate)) \<noteq> []
   \<and> states (snd (enter ''s'' new_gate)) ''s'' \<noteq> None
   \<and> active (objs (snd (enter ''s'' new_gate)) 0) = 1"
  using gate_accounting [OF gate_next [OF gate_init step_enter], of "''s''" "''s''"]
  by (simp add: gate_op_defs live_leases_def)

text \<open>A second \<^verbatim>\<open>release\<close> of the same lease changes nothing.\<close>

theorem gate_release_idempotent:
  assumes "i < length (leases g)"
  shows "release i (release i g) = release i g"
proof (cases "released (leases g ! i)")
  case True
  then show ?thesis by (simp add: release_def)
next
  case False
  with assms have "released (leases (release i g) ! i)"
    by (simp add: release_live(1) [OF False refl])
  then show ?thesis by (simp add: release_def [of i "release i g"])
qed

theorem gate_release_idempotent_witness:
  "release 0 (release 0 (snd (enter ''s'' new_gate))) = release 0 (snd (enter ''s'' new_gate))"
  by (rule gate_release_idempotent) (simp add: gate_op_defs)

text \<open>No lost wake-up: the release of the last live lease resolves every waiting capture.\<close>

lemma release_last_wakes:
  assumes inv: "gate_inv g" and i: "i < length (leases g)" and live: "\<not> released (leases g ! i)"
    and j: "j \<in> in_flight (lease_session (leases g ! i)) g" "cap_pc (captures g ! j) = Waiting"
    and one: "length (live_leases (lease_session (leases g ! i)) g) = 1"
  shows "cap_pc (captures (release i g) ! j) = Drained"
proof -
  note D = session_okD [OF gate_inv_session [OF inv] lease_pins [OF inv i live]]
  have "active (objs g (lease_obj (leases g ! i))) = 1" using D(2) one by simp
  moreover have "j \<in> drained (objs g (lease_obj (leases g ! i)))" using D(7) j by (simp add: waiting_def)
  moreover have "j < length (captures g)" using j by (simp add: in_flight_def)
  ultimately show ?thesis by (simp add: release_live(2) [OF live refl] nth_resolve)
qed

lemma release_others_wait:
  assumes inv: "gate_inv g" and i: "i < length (leases g)" and live: "\<not> released (leases g ! i)"
    and more: "length (live_leases (lease_session (leases g ! i)) g) \<noteq> 1"
  shows "captures (release i g) = captures g"
proof -
  note D = session_okD [OF gate_inv_session [OF inv] lease_pins [OF inv i live]]
  have "active (objs g (lease_obj (leases g ! i))) \<noteq> 1" using D(2) more by simp
  then show ?thesis by (simp add: release_live(2) [OF live refl])
qed

lemma waiting_has_lease:
  assumes inv: "gate_inv g" and j: "j < length (captures g)" "cap_pc (captures g ! j) = Waiting"
  obtains i where "i < length (leases g)" "\<not> released (leases g ! i)"
    "lease_session (leases g ! i) = cap_session (captures g ! j)"
proof -
  have fl: "j \<in> in_flight (cap_session (captures g ! j)) g" using j by (simp add: in_flight_def)
  note D = session_okD [OF gate_inv_session [OF inv] capture_pins [OF inv fl]]
  from D(8) [OF fl j(2)] D(2) have "live_leases (cap_session (captures g ! j)) g \<noteq> []" by auto
  then obtain l where "l \<in> set (leases g)" "lease_session l = cap_session (captures g ! j)" "\<not> released l"
    unfolding live_leases_def filter_empty_conv by blast
  then show thesis using that by (metis in_set_conv_nth)
qed

lemma waiting_drains:
  assumes "gate_inv g" and "j < length (captures g)" and "cap_pc (captures g ! j) = Waiting"
    and "n = length (live_leases (cap_session (captures g ! j)) g)"
  shows "\<exists>g'. gate_step\<^sup>*\<^sup>* g g' \<and> j < length (captures g') \<and> cap_pc (captures g' ! j) = Drained"
  using assms
proof (induction n arbitrary: g)
  case (0 g)
  obtain i where "i < length (leases g)" "\<not> released (leases g ! i)"
    "lease_session (leases g ! i) = cap_session (captures g ! j)"
    using waiting_has_lease [OF "0.prems"(1-3)] .
  then have "0 < length (live_leases (cap_session (captures g ! j)) g)"
    unfolding live_leases_def by (intro length_filter_nth_pos) simp_all
  with "0.prems"(4) show ?case by simp
next
  case (Suc n g)
  obtain i where i: "i < length (leases g)" "\<not> released (leases g ! i)"
      and s: "lease_session (leases g ! i) = cap_session (captures g ! j)"
    using waiting_has_lease [OF Suc.prems(1-3)] .
  have step: "gate_step g (release i g)" using i(1) by (rule step_release)
  show ?case
  proof (cases "n = 0")
    case True
    have "cap_pc (captures (release i g) ! j) = Drained"
      by (rule release_last_wakes [OF Suc.prems(1) i]) (use Suc.prems s True in \<open>auto simp: in_flight_def\<close>)
    moreover have "length (captures (release i g)) = length (captures g)"
      by (simp add: release_live(2) [OF i(2) refl])
    ultimately show ?thesis using step Suc.prems(2) by auto
  next
    case False
    have same: "captures (release i g) = captures g"
      by (rule release_others_wait [OF Suc.prems(1) i]) (use Suc.prems(4) False s in auto)
    have "n = length (live_leases (cap_session (captures g ! j)) (release i g))"
      using live_leases_release(1) [OF i s [symmetric]] Suc.prems(4) by simp
    with Suc.IH [of "release i g"] release_inv [OF Suc.prems(1) i(1)] Suc.prems(2,3) same
    obtain g' where "gate_step\<^sup>*\<^sup>* (release i g) g'" "j < length (captures g')"
      "cap_pc (captures g' ! j) = Drained" by auto
    then show ?thesis using step by (meson converse_rtranclp_into_rtranclp)
  qed
qed

text \<open>(C3) Progress: a capture that waits for the drain can always run. From every reachable state
  there is a continuation, releasing the leases that are still live, in which the waiting capture
  is resumed and runs; no wake-up is lost.\<close>

theorem gate_capture_progress:
  assumes "gate_reachable g" and "j < length (captures g)" and "cap_pc (captures g ! j) = Waiting"
  shows "\<exists>g'. gate_step\<^sup>*\<^sup>* g g' \<and> cap_pc (captures g' ! j) = Capturing"
proof -
  from waiting_drains [OF gate_reachable_inv [OF assms(1)] assms(2,3) refl]
  obtain g' where g': "gate_step\<^sup>*\<^sup>* g g'" "j < length (captures g')" "cap_pc (captures g' ! j) = Drained"
    by blast
  then have "gate_step\<^sup>*\<^sup>* g (begin_capture j g')"
    by (meson rtranclp.rtrancl_into_rtrancl step_begin)
  moreover have "cap_pc (captures (begin_capture j g') ! j) = Capturing"
    using g'(2) by (simp add: begin_capture_def set_pc_def)
  ultimately show ?thesis by blast
qed

theorem gate_capture_progress_witness:
  "\<exists>g'. gate_step\<^sup>*\<^sup>* (snd (open_capture ''s'' 1000 (snd (enter ''s'' new_gate)))) g'
      \<and> cap_pc (captures g' ! 0) = Capturing"
  by (rule gate_capture_progress [OF gate_next [OF gate_next [OF gate_init step_enter] step_open]])
    (simp_all add: gate_op_defs Let_def)

section \<open>The interface the pipelines rely on\<close>

text \<open>
  The broker and local-tool pipelines enter the gate, run a body that does not touch it, and
  release in a \<^verbatim>\<open>finally\<close> block. What they need of the gate is stated here once: a refused entry
  leaves the number of live calls alone, an admitted one adds one to its own session, and
  releasing the lease takes it back.
\<close>

locale admission_gate =
  fixes gate_ok :: "'g \<Rightarrow> bool"
    and enter_op :: "string \<Rightarrow> 'g \<Rightarrow> nat option \<times> 'g"
    and release_op :: "nat \<Rightarrow> 'g \<Rightarrow> 'g"
    and live_count :: "string \<Rightarrow> 'g \<Rightarrow> nat"
  assumes enter_refused: "gate_ok g \<Longrightarrow> enter_op sid g = (None, g') \<Longrightarrow> gate_ok g' \<and> live_count s g' = live_count s g"
    and enter_admitted: "gate_ok g \<Longrightarrow> enter_op sid g = (Some l, g') \<Longrightarrow>
          gate_ok g' \<and> live_count s g' = live_count s g + (if s = sid then 1 else 0)"
    and release_admitted: "gate_ok g \<Longrightarrow> enter_op sid g = (Some l, g') \<Longrightarrow>
          gate_ok (release_op l g') \<and> live_count s (release_op l g') + (if s = sid then 1 else 0) = live_count s g'"
begin

lemma guarded_balanced:
  assumes "gate_ok g" and "enter_op sid g = (Some l, g')"
  shows "gate_ok (release_op l g') \<and> live_count s (release_op l g') = live_count s g"
  using enter_admitted [OF assms] release_admitted [OF assms, of s] by (auto split: if_splits)

end

lemma enter_admitted_lease:
  assumes "enter sid g = (Some l, g')"
  shows "l = length (leases g)" and "l < length (leases g')"
    and "leases g' = leases g @ [leases g' ! l]" and "\<not> released (leases g' ! l)"
    and "lease_session (leases g' ! l) = sid"
proof -
  obtain a g1 where sf: "state_for sid g = (a, g1)" by fastforce
  then have "leases g1 = leases g" by (auto simp: state_for_def split: option.splits)
  with assms sf show "l = length (leases g)" "l < length (leases g')"
    "leases g' = leases g @ [leases g' ! l]" "\<not> released (leases g' ! l)" "lease_session (leases g' ! l) = sid"
    by (auto simp: enter_def upd_obj_def split: if_splits)
qed

lemma enter_refused_leases: "enter sid g = (None, g') \<Longrightarrow> leases g' = leases g"
  by (auto simp: enter_def state_for_def split: option.splits if_splits)

interpretation ag: admission_gate gate_inv enter release "\<lambda>s g. length (live_leases s g)"
proof
  fix g g' sid s
  assume inv: "gate_inv g"
  have keep: "gate_inv (snd (enter sid g))" using enter_inv [OF inv] .
  show "gate_inv g' \<and> length (live_leases s g') = length (live_leases s g)"
    if "enter sid g = (None, g')"
    using that keep by (simp add: live_leases_def enter_refused_leases [OF that])
  fix l assume e: "enter sid g = (Some l, g')"
  note L = enter_admitted_lease [OF e]
  show "gate_inv g' \<and> length (live_leases s g') = length (live_leases s g) + (if s = sid then 1 else 0)"
    using keep e L(4,5) arg_cong [OF L(3), of "\<lambda>ls. length (filter (\<lambda>l. lease_session l = s \<and> \<not> released l) ls)"]
    by (simp add: live_leases_def)
  from keep e have g': "gate_inv g'" by simp
  show "gate_inv (release l g') \<and>
      length (live_leases s (release l g')) + (if s = sid then 1 else 0) = length (live_leases s g')"
    using release_inv [OF g' L(2)] live_leases_release(1) [OF L(2,4) L(5) [symmetric]]
      live_leases_release_other [OF L(2,4), of s] L(5) by auto
qed

end
