(* ===== verification/Json.thy ===== *)
theory Json
  imports Js_Text
begin

text \<open>
  JSON values as the host sees them after \<^verbatim>\<open>JSON.parse\<close>, and the two walks over such values
  that keep secrets out of records: \<^verbatim>\<open>assertSafePayload\<close> of \<^verbatim>\<open>packages/audit/src/outbox.ts\<close>
  and \<^verbatim>\<open>containsSecretShape\<close> of \<^verbatim>\<open>packages/audit/src/system-audit.ts\<close>.
\<close>

section \<open>Values\<close>

datatype json =
    JNull
  | JBool bool
  | JNum rat
  | JStr utf16
  | JArr "json list"
  | JObj "(utf16 \<times> json) list"

definition obj_get :: "utf16 \<Rightarrow> (utf16 \<times> json) list \<Rightarrow> json option" where
  "obj_get k kvs = map_of kvs k"

section \<open>Character classes of the regular expressions\<close>

definition in_range :: "char \<Rightarrow> char \<Rightarrow> 16 word \<Rightarrow> bool" where
  "in_range lo hi u \<longleftrightarrow> of_char lo \<le> uint u \<and> uint u \<le> of_char hi"

definition is_upper :: "16 word \<Rightarrow> bool" where "is_upper = in_range (CHR ''A'') (CHR ''Z'')"
definition is_lower :: "16 word \<Rightarrow> bool" where "is_lower = in_range (CHR ''a'') (CHR ''z'')"
definition is_digit :: "16 word \<Rightarrow> bool" where "is_digit = in_range (CHR ''0'') (CHR ''9'')"
definition is_letter :: "16 word \<Rightarrow> bool" where "is_letter u \<longleftrightarrow> is_upper u \<or> is_lower u"
definition is_alnum :: "16 word \<Rightarrow> bool" where "is_alnum u \<longleftrightarrow> is_letter u \<or> is_digit u"

text \<open>\<^verbatim>\<open>[A-Za-z0-9_-]\<close>\<close>

definition is_url_char :: "16 word \<Rightarrow> bool" where
  "is_url_char u \<longleftrightarrow> is_alnum u \<or> u = word_of_int (of_char (CHR ''_'')) \<or> u = word_of_int (of_char (CHR ''-''))"

definition lower_unit :: "16 word \<Rightarrow> 16 word" where
  "lower_unit u = (if is_upper u then u + 32 else u)"

section \<open>Keys an audit payload may not have\<close>

text \<open>\<^verbatim>\<open>key.replace(/[^a-z]/gi, "").toLowerCase()\<close>: without the \<^verbatim>\<open>u\<close> flag only ASCII letters are kept.\<close>

definition normalize_key :: "utf16 \<Rightarrow> utf16" where
  "normalize_key key = map lower_unit (filter is_letter key)"

definition unsafe_keys :: "utf16 list" where
  "unsafe_keys = map js [''params'', ''rawparams'', ''credential'', ''credentials'', ''secret'', ''secrets'',
     ''result'', ''rawresult'']"

text \<open>\<^verbatim>\<open>assertSafePayload\<close>; the key it names in its message is carried in the details of the error.\<close>

fun assertSafePayload :: "json \<Rightarrow> js_error + unit"
and assertSafeItems :: "json list \<Rightarrow> js_error + unit"
and assertSafeEntries :: "(utf16 \<times> json) list \<Rightarrow> js_error + unit" where
  "assertSafePayload (JArr items) = assertSafeItems items"
| "assertSafePayload (JObj entries) = assertSafeEntries entries"
| "assertSafePayload JNull = Inr ()"
| "assertSafePayload (JBool _) = Inr ()"
| "assertSafePayload (JNum _) = Inr ()"
| "assertSafePayload (JStr _) = Inr ()"
| "assertSafeItems [] = Inr ()"
| "assertSafeItems (item # items) =
     (case assertSafePayload item of Inl e \<Rightarrow> Inl e | Inr _ \<Rightarrow> assertSafeItems items)"
| "assertSafeEntries [] = Inr ()"
| "assertSafeEntries ((key, item) # entries) =
     (if normalize_key key \<in> set unsafe_keys
      then Inl (Caisson AUDIT_UNAVAILABLE ''unsafe audit payload field'')
      else case assertSafePayload item of Inl e \<Rightarrow> Inl e | Inr _ \<Rightarrow> assertSafeEntries entries)"

text \<open>The reference: no object anywhere inside the value has an unsafe key.\<close>

inductive key_inside :: "utf16 \<Rightarrow> json \<Rightarrow> bool" where
  here: "(k, v) \<in> set kvs \<Longrightarrow> key_inside k (JObj kvs)"
| in_entry: "(k', v) \<in> set kvs \<Longrightarrow> key_inside k v \<Longrightarrow> key_inside k (JObj kvs)"
| in_item: "v \<in> set vs \<Longrightarrow> key_inside k v \<Longrightarrow> key_inside k (JArr vs)"

inductive_simps key_inside_simps [simp]:
  "key_inside k (JObj kvs)" "key_inside k (JArr vs)" "key_inside k JNull" "key_inside k (JBool b)"
  "key_inside k (JNum n)" "key_inside k (JStr s)"

lemma assertSafe_iff:
  "assertSafePayload v = Inr () \<longleftrightarrow> (\<forall>k. key_inside k v \<longrightarrow> normalize_key k \<notin> set unsafe_keys)"
  "assertSafeItems vs = Inr () \<longleftrightarrow> (\<forall>v \<in> set vs. \<forall>k. key_inside k v \<longrightarrow> normalize_key k \<notin> set unsafe_keys)"
  "assertSafeEntries kvs = Inr () \<longleftrightarrow>
     (\<forall>(k', v) \<in> set kvs. normalize_key k' \<notin> set unsafe_keys
        \<and> (\<forall>k. key_inside k v \<longrightarrow> normalize_key k \<notin> set unsafe_keys))"
proof (induction v and vs and kvs rule: assertSafePayload_assertSafeItems_assertSafeEntries.induct)
  case (2 entries)
  then show ?case by (auto; blast)
next
  case (8 item items)
  then show ?case by (auto split: sum.splits)
next
  case (10 key item entries)
  then show ?case by (auto split: sum.splits)
qed auto

section \<open>Secret-shaped data\<close>

text \<open>
  The regular expressions of \<^verbatim>\<open>containsSecretShape\<close>. Each is unanchored, so it holds of a string
  when it matches at the start of some suffix; \<open>take_run\<close> is a greedy repetition.
\<close>

fun some_suffix :: "(utf16 \<Rightarrow> bool) \<Rightarrow> utf16 \<Rightarrow> bool" where
  "some_suffix p [] = p []"
| "some_suffix p (u # us) = (p (u # us) \<or> some_suffix p us)"

definition starts_with :: "utf16 \<Rightarrow> utf16 \<Rightarrow> bool" where
  "starts_with p s \<longleftrightarrow> take (length p) s = p"

definition after :: "utf16 \<Rightarrow> utf16 \<Rightarrow> utf16" where
  "after p s = drop (length p) s"

definition is_upper_or_digit :: "16 word \<Rightarrow> bool" where "is_upper_or_digit u \<longleftrightarrow> is_upper u \<or> is_digit u"

text \<open>\<^verbatim>\<open>/AKIA[A-Z0-9]{16}/\<close>\<close>

definition aws_key_at :: "utf16 \<Rightarrow> bool" where
  "aws_key_at s \<longleftrightarrow> starts_with (js ''AKIA'') s
     \<and> 16 \<le> length (takeWhile is_upper_or_digit (after (js ''AKIA'') s))"

text \<open>\<^verbatim>\<open>/-----BEGIN (?:RSA |EC |OPENSSH )?PRIVATE KEY-----/\<close>\<close>

definition pem_at :: "utf16 \<Rightarrow> bool" where
  "pem_at s \<longleftrightarrow> list_ex (\<lambda>kind. starts_with (js (''-----BEGIN '' @ kind @ ''PRIVATE KEY-----'')) s)
     ['''', ''RSA '', ''EC '', ''OPENSSH '']"

text \<open>\<^verbatim>\<open>/[A-Za-z0-9_-]+\.[A-Za-z0-9_-]+\.[A-Za-z0-9_-]+/\<close>: the class excludes the dot, so greedy runs decide it.\<close>

definition dotted_at :: "utf16 \<Rightarrow> bool" where
  "dotted_at s = (let r1 = dropWhile is_url_char s; r2 = dropWhile is_url_char (tl r1); dot = js ''.'' in
     takeWhile is_url_char s \<noteq> [] \<and> starts_with dot r1
     \<and> takeWhile is_url_char (tl r1) \<noteq> [] \<and> starts_with dot r2
     \<and> takeWhile is_url_char (tl r2) \<noteq> [])"

text \<open>\<^verbatim>\<open>/sk-[A-Za-z0-9]{20,}/\<close>\<close>

definition sk_key_at :: "utf16 \<Rightarrow> bool" where
  "sk_key_at s \<longleftrightarrow> starts_with (js ''sk-'') s \<and> 20 \<le> length (takeWhile is_alnum (after (js ''sk-'') s))"

definition secret_string :: "utf16 \<Rightarrow> bool" where
  "secret_string s \<longleftrightarrow> some_suffix aws_key_at s \<or> some_suffix pem_at s \<or> some_suffix dotted_at s
     \<or> some_suffix sk_key_at s"

text \<open>
  \<^verbatim>\<open>key.replace(/[^a-z]/giu, "").toLowerCase()\<close>: with the \<^verbatim>\<open>u\<close> flag the class is closed under simple
  case folding, so U+017F and U+212A (the Kelvin sign) are kept, and the Kelvin sign is lowered to k.
\<close>

definition normalize_key_u :: "utf16 \<Rightarrow> utf16" where
  "normalize_key_u key =
     map (\<lambda>u. if u = 0x212A then 0x6B else lower_unit u)
       (filter (\<lambda>u. is_letter u \<or> u = 0x17F \<or> u = 0x212A) key)"

definition secretKeys :: "utf16 list" where
  "secretKeys = map js [''password'', ''secret'', ''token'', ''apikey'', ''privatekey'', ''credential'', ''accesskey'']"

fun containsSecretShape :: "json \<Rightarrow> bool"
and anySecretItem :: "json list \<Rightarrow> bool"
and anySecretEntry :: "(utf16 \<times> json) list \<Rightarrow> bool" where
  "containsSecretShape (JStr s) = secret_string s"
| "containsSecretShape (JArr items) = anySecretItem items"
| "containsSecretShape (JObj entries) = anySecretEntry entries"
| "containsSecretShape JNull = False"
| "containsSecretShape (JBool _) = False"
| "containsSecretShape (JNum _) = False"
| "anySecretItem [] = False"
| "anySecretItem (item # items) = (containsSecretShape item \<or> anySecretItem items)"
| "anySecretEntry [] = False"
| "anySecretEntry ((key, child) # entries) =
     (normalize_key_u key \<in> set secretKeys \<or> containsSecretShape child \<or> anySecretEntry entries)"

inductive string_inside :: "utf16 \<Rightarrow> json \<Rightarrow> bool" where
  str_here: "string_inside s (JStr s)"
| str_entry: "(k, v) \<in> set kvs \<Longrightarrow> string_inside s v \<Longrightarrow> string_inside s (JObj kvs)"
| str_item: "v \<in> set vs \<Longrightarrow> string_inside s v \<Longrightarrow> string_inside s (JArr vs)"

inductive_simps string_inside_simps [simp]:
  "string_inside s (JObj kvs)" "string_inside s (JArr vs)" "string_inside s JNull" "string_inside s (JBool b)"
  "string_inside s (JNum n)" "string_inside s (JStr t)"

lemma secret_walks:
  "containsSecretShape v \<longleftrightarrow> (\<exists>s. string_inside s v \<and> secret_string s)
      \<or> (\<exists>k. key_inside k v \<and> normalize_key_u k \<in> set secretKeys)"
  "anySecretItem vs \<longleftrightarrow> (\<exists>v \<in> set vs. (\<exists>s. string_inside s v \<and> secret_string s)
      \<or> (\<exists>k. key_inside k v \<and> normalize_key_u k \<in> set secretKeys))"
  "anySecretEntry kvs \<longleftrightarrow> (\<exists>(k', v) \<in> set kvs. normalize_key_u k' \<in> set secretKeys
      \<or> (\<exists>s. string_inside s v \<and> secret_string s)
      \<or> (\<exists>k. key_inside k v \<and> normalize_key_u k \<in> set secretKeys))"
proof (induction v and vs and kvs rule: containsSecretShape_anySecretItem_anySecretEntry.induct)
  case (2 items)
  then show ?case by (auto; blast)
next
  case (3 entries)
  then show ?case by (auto; blast)
qed auto

text \<open>(C6) \<^verbatim>\<open>containsSecretShape\<close> finds a secret wherever it hides: it holds exactly when some string at
  any depth matches one of the secret patterns or some object key at any depth names a secret.\<close>

theorem containsSecretShape_iff:
  "containsSecretShape v \<longleftrightarrow> (\<exists>s. string_inside s v \<and> secret_string s)
      \<or> (\<exists>k. key_inside k v \<and> normalize_key_u k \<in> set secretKeys)"
  by (rule secret_walks(1))

end
