(* ===== verification/World.thy ===== *)
theory World
  imports Json "HOL-Library.List_Lexorder" "HOL-Library.Char_ord"
begin

text \<open>
  The state the host components share: the Postgres database of
  \<^verbatim>\<open>packages/db/src/schema.ts\<close> (a table is the list of its rows), the ClickHouse table of
  audit rows, the clock and the source of random bytes. Every call that leaves the process
  is numbered, and an oracle says of each whether it succeeds, is lost, or takes effect
  although its caller sees an error; a theorem about every oracle is a theorem about every
  pattern of failures. \<open>activeEventIds\<close> is the closure variable of that name of the running
  \<^verbatim>\<open>deliverSession\<close>: it outlives the rollback of its transaction.

  Database work is serial: a statement or a transaction of one handler runs between those of
  others, never inside them.
\<close>

section \<open>Rows (schema.ts)\<close>

datatype session_status = Pending | Booting | Ready | Active | Suspended | Terminating | Terminated | Failed

datatype approval_mode = Auto | Rule | Always

datatype failure_reason = StartTimeout | DriverError | CleanupPending

datatype driver_kind = Container | Firecracker

datatype transport_kind = Unix | Vsock

record session_row =
  sr_id :: string
  sr_status :: session_status
  sr_agent_image :: string
  sr_entrypoint :: string
  sr_approval_mode :: approval_mode
  sr_scopes :: "string list"
  sr_roles :: "string list"
  sr_policy_bundle_id :: string
  sr_requested_by :: string
  sr_purpose :: "string option"
  sr_metadata :: json
  sr_host_id :: "string option"
  sr_driver :: "driver_kind option"
  sr_hardware_isolated :: bool
  sr_snapshot_ref :: "string option"
  sr_base_snapshot_id :: "string option"
  sr_valid_from :: int
  sr_expires_at :: int
  sr_idle_timeout_s :: int
  sr_last_activity_at :: int
  sr_created_at :: int
  sr_terminated_at :: "int option"
  sr_termination_reason :: "string option"
  sr_next_audit_seq :: int
  sr_action_allow_count :: int
  sr_action_deny_count :: int
  sr_action_require_approval_count :: int
  sr_failure_reason :: "failure_reason option"

record token_row =
  tk_id :: string
  tk_session_id :: string
  tk_token_hash :: string
  tk_scopes :: "string list"
  tk_issued_at :: int
  tk_expires_at :: int
  tk_revoked_at :: "int option"
  tk_revocation_reason :: "string option"

record binding_row =
  tb_id :: string
  tb_session_id :: string
  tb_host_id :: string
  tb_transport_kind :: transport_kind
  tb_peer_identifier :: string
  tb_token_id :: string
  tb_bound_at :: int
  tb_released_at :: "int option"

record bundle_row =
  pb_id :: string
  pb_version :: string
  pb_wasm_blob :: "byte list"
  pb_activated_at :: "int option"
  pb_retired_at :: "int option"

record service_row =
  sv_id :: string
  sv_name :: string
  sv_adapter :: string
  sv_config :: json
  sv_enabled :: bool

record credential_row =
  cr_id :: string
  cr_service_id :: string
  cr_role :: string
  cr_backend :: string
  cr_backend_path :: string

record setting_row =
  st_key :: string
  st_value :: json

datatype snapshot_kind = Base | Session

datatype deletion_state = Retained | CryptoErased | PhysicallyDeleted

record snapshot_row =
  sn_id :: string
  sn_kind :: snapshot_kind
  sn_session_id :: "string option"
  sn_bucket :: string
  sn_manifest_key :: string
  sn_manifest_version :: "string option"
  sn_manifest_sha256 :: string
  sn_manifest_size_bytes :: int
  sn_manifest_key_id :: string
  sn_built_at :: int
  sn_promoted_at :: "int option"
  sn_expires_at :: "int option"
  sn_base_snapshot_id :: "string option"
  sn_lineage_session_id :: "string option"
  sn_resume_audit_seq :: "int option"
  sn_resume_action_id :: "string option"
  sn_deletion_state :: deletion_state

record session_key_row =
  sk_session_id :: string
  sk_root_kek_key_id :: utf16
  sk_wrap_nonce :: "byte list"
  sk_wrapped_session_kek :: "byte list"

record snapshot_key_row =
  nk_snapshot_id :: string
  nk_session_id :: string
  nk_wrap_nonce :: "byte list"
  nk_wrapped_dek :: "byte list"

record deletion_row =
  dl_snapshot_id :: string
  dl_session_id :: string
  dl_bucket :: string
  dl_manifest_key :: string
  dl_attempts :: int
  dl_last_error :: "string option"
  dl_created_at :: int
  dl_completed_at :: "int option"

record system_audit_row =
  sy_id :: string
  sy_timestamp :: int
  sy_event_type :: string
  sy_input_hash :: string
  sy_outcome :: string
  sy_duration_ms :: int
  sy_trace_id :: string
  sy_span_id :: string
  sy_caller_connection :: "string option"

text \<open>The payload of an audit record: \<^verbatim>\<open>AuditPayload\<close> of \<^verbatim>\<open>packages/audit/src/outbox.ts\<close>.\<close>

record audit_payload =
  ap_actionId :: string
  ap_timestamp :: int
  ap_eventType :: string
  ap_actionType :: string
  ap_service :: utf16
  ap_method :: utf16
  ap_decision :: string
  ap_policyBundle :: string
  ap_policyReason :: utf16
  ap_obligations :: "utf16 list"
  ap_scopeUsed :: utf16
  ap_roleUsed :: string
  ap_paramsHash :: string
  ap_paramsPreview :: utf16
  ap_resultBytes :: int
  ap_resultHash :: string
  ap_redactionCount :: int
  ap_durationMs :: int
  ap_approvalId :: "string option"
  ap_approvalWaitMs :: "int option"
  ap_skillLoaded :: string
  ap_agentIntent :: utf16
  ap_driver :: driver_kind
  ap_hardwareIsolated :: bool
  ap_traceId :: string
  ap_spanId :: string
  ap_errorCode :: string
  ap_errorMessage :: utf16
  ap_networkDestination :: string
  ap_networkProtocol :: string

datatype delivery_state = DPending | DDelivered

record outbox_row =
  ob_id :: string
  ob_session_id :: string
  ob_seq :: int
  ob_payload :: audit_payload
  ob_state :: delivery_state
  ob_attempts :: int
  ob_last_error :: "string option"
  ob_delivered_at :: "int option"

text \<open>\<^verbatim>\<open>StoredAuditEvent\<close>.\<close>

record audit_event =
  ae_id :: string
  ae_session_id :: string
  ae_seq :: int
  ae_payload :: audit_payload

text \<open>A row of the ClickHouse table \<^verbatim>\<open>actions\<close>.\<close>

record click_row =
  ck_session_id :: string
  ck_action_id :: string
  ck_timestamp :: int
  ck_seq :: int
  ck_event_type :: string
  ck_action_type :: string
  ck_service :: utf16
  ck_method :: utf16
  ck_decision :: string
  ck_policy_bundle :: string
  ck_policy_reason :: utf16
  ck_obligations :: "utf16 list"
  ck_scope_used :: utf16
  ck_role_used :: string
  ck_params_hash :: string
  ck_params_preview :: utf16
  ck_result_bytes :: int
  ck_result_hash :: string
  ck_redaction_count :: int
  ck_duration_ms :: int
  ck_approval_id :: "string option"
  ck_approval_wait_ms :: "int option"
  ck_skill_loaded :: string
  ck_agent_intent :: utf16
  ck_driver :: driver_kind
  ck_hardware_isolated :: int
  ck_trace_id :: string
  ck_span_id :: string
  ck_error_code :: string
  ck_error_message :: utf16
  ck_network_destination :: string
  ck_network_protocol :: string

record db =
  sessions :: "session_row list"
  session_tokens :: "token_row list"
  transport_bindings :: "binding_row list"
  policy_bundles :: "bundle_row list"
  services :: "service_row list"
  credential_refs :: "credential_row list"
  audit_outbox :: "outbox_row list"
  settings :: "setting_row list"
  snapshots :: "snapshot_row list"
  session_snapshot_keys :: "session_key_row list"
  snapshot_keys :: "snapshot_key_row list"
  snapshot_deletion_outbox :: "deletion_row list"
  system_audit_events :: "system_audit_row list"

text \<open>The range of the Postgres type \<^verbatim>\<open>integer\<close>: an update past it is an error.\<close>

definition int4 :: "int \<Rightarrow> bool" where
  "int4 n \<longleftrightarrow> - (2 ^ 31) \<le> n \<and> n < 2 ^ 31"

section \<open>The world\<close>

datatype outcome = Ok | Lost | Ambiguous

record world =
  db :: db
  sink :: "click_row list"
  now :: int
  entropy :: "nat \<Rightarrow> byte list"
  draws :: nat
  fault :: "nat \<Rightarrow> outcome"
  calls :: nat
  activeEventIds :: "string list"

text \<open>
  A database statement: a function of the database that fails (a constraint, an overflow) or
  gives its rows and the new contents. A lost statement does not run.
\<close>

type_synonym 'a statement = "db \<Rightarrow> js_error + 'a \<times> db"

definition next_outcome :: "'z world_scheme \<Rightarrow> outcome \<times> 'z world_scheme" where
  "next_outcome w = (fault w (calls w), w\<lparr>calls := Suc (calls w)\<rparr>)"

definition query :: "'a statement \<Rightarrow> ('z world_scheme, 'a) proc" where
  "query f w = (case next_outcome w of (oc, w1) \<Rightarrow>
     if oc = Lost then (Inl ForeignError, w1)
     else case f (db w1) of
       Inl e \<Rightarrow> (Inl e, w1)
     | Inr (x, d) \<Rightarrow> (if oc = Ok then Inr x else Inl ForeignError, w1\<lparr>db := d\<rparr>))"

text \<open>
  \<^verbatim>\<open>sql.begin\<close>: an error in the body rolls the database back and is thrown on; a commit may be
  lost, or take effect unseen. Only the database is rolled back.
\<close>

definition transaction :: "('z world_scheme, 'a) proc \<Rightarrow> ('z world_scheme, 'a) proc" where
  "transaction body w = (case next_outcome w of (oc, w1) \<Rightarrow>
     if oc \<noteq> Ok then (Inl ForeignError, w1)
     else case body w1 of
       (Inl e, w2) \<Rightarrow> (Inl e, w2\<lparr>db := db w\<rparr>)
     | (Inr x, w2) \<Rightarrow> (case next_outcome w2 of (oc, w3) \<Rightarrow>
         if oc = Ok then (Inr x, w3)
         else if oc = Lost then (Inl ForeignError, w3\<lparr>db := db w\<rparr>)
         else (Inl ForeignError, w3)))"

text \<open>Statements of the common shapes.\<close>

definition select :: "(db \<Rightarrow> 'a) \<Rightarrow> 'a statement" where
  "select f d = Inr (f d, d)"

definition update :: "(db \<Rightarrow> db) \<Rightarrow> unit statement" where
  "update f d = Inr ((), f d)"

text \<open>\<^verbatim>\<open>UPDATE t SET .. WHERE p\<close> on a table.\<close>

definition update_where :: "('r \<Rightarrow> bool) \<Rightarrow> ('r \<Rightarrow> 'r) \<Rightarrow> 'r list \<Rightarrow> 'r list" where
  "update_where p f rs = map (\<lambda>r. if p r then f r else r) rs"

section \<open>Random identifiers (outbox.ts, session-identity.ts)\<close>

text \<open>\<^verbatim>\<open>randomBytes(n)\<close>: the next draw of the entropy source, of \<open>n\<close> bytes.\<close>

definition randomBytes :: "nat \<Rightarrow> 'z world_scheme \<Rightarrow> byte list \<times> 'z world_scheme" where
  "randomBytes n w = (take n (entropy w (draws w) @ replicate n 0), w\<lparr>draws := Suc (draws w)\<rparr>)"

definition hex_digit :: "int \<Rightarrow> char" where
  "hex_digit n = ''0123456789abcdef'' ! nat (n mod 16)"

definition hex_bytes :: "byte list \<Rightarrow> string" where
  "hex_bytes bs = concat (map (\<lambda>b. [hex_digit (uint b div 16), hex_digit (uint b)]) bs)"

text \<open>
  \<^verbatim>\<open>uuidV7\<close>: 48 bits of the millisecond clock, big endian, over the first six random bytes, then the
  version and variant bits.
\<close>

definition stamp :: "int \<Rightarrow> byte list \<Rightarrow> byte list" where
  "stamp t bytes = map (\<lambda>i. word_of_int (t div 256 ^ (5 - i))) [0..<6] @ drop 6 bytes"

definition uuid_bytes :: "int \<Rightarrow> byte list \<Rightarrow> byte list" where
  "uuid_bytes t bytes = (let bs = stamp t bytes in
     bs[6 := or (and (bs ! 6) 0x0F) 0x70, 8 := or (and (bs ! 8) 0x3F) 0x80])"

definition uuid_format :: "byte list \<Rightarrow> string" where
  "uuid_format bs = (let hex = hex_bytes bs in
     take 8 hex @ ''-'' @ take 4 (drop 8 hex) @ ''-'' @ take 4 (drop 12 hex) @ ''-'' @ take 4 (drop 16 hex)
       @ ''-'' @ drop 20 hex)"

definition uuidV7 :: "('z world_scheme, string) proc" where
  "uuidV7 w = (case randomBytes 16 w of (bytes, w1) \<Rightarrow> (Inr (uuid_format (uuid_bytes (now w) bytes)), w1))"

text \<open>\<^verbatim>\<open>/^[0-9a-f]{8}-[0-9a-f]{4}-[0-9a-f]{4}-[0-9a-f]{4}-[0-9a-f]{12}$/i\<close>\<close>

definition is_hex :: "char \<Rightarrow> bool" where
  "is_hex c \<longleftrightarrow> c \<in> set ''0123456789abcdefABCDEF''"

definition is_uuid :: "string \<Rightarrow> bool" where
  "is_uuid s \<longleftrightarrow> length s = 36
     \<and> s ! 8 = CHR ''-'' \<and> s ! 13 = CHR ''-'' \<and> s ! 18 = CHR ''-'' \<and> s ! 23 = CHR ''-''
     \<and> (\<forall>i \<in> set [0..<36]. i \<notin> {8, 13, 18, 23} \<longrightarrow> is_hex (s ! i))"

section \<open>Rules\<close>

text \<open>
  What a statement and a transaction may do to an invariant of the database and the rest of the
  world. \<open>frame\<close> lists what no database call touches.
\<close>

definition same_env :: "'z world_scheme \<Rightarrow> 'z world_scheme \<Rightarrow> bool" where
  "same_env w w' \<longleftrightarrow> sink w' = sink w \<and> now w' = now w \<and> entropy w' = entropy w \<and> draws w' = draws w
     \<and> fault w' = fault w \<and> activeEventIds w' = activeEventIds w"

lemma next_outcome_fields:
  assumes "next_outcome w = (oc, w1)"
  shows "oc = fault w (calls w)" "db w1 = db w" "same_env w w1" "world.more w1 = world.more w"
    "calls w1 = Suc (calls w)"
  using assms by (auto simp: next_outcome_def same_env_def)

lemma query_cases:
  assumes "query f w = (r, w')"
  obtains (failed) e where "r = Inl e" "db w' = db w" "same_env w w'" "world.more w' = world.more w"
  | (applied) x d where "f (db w) = Inr (x, d)" "db w' = d" "r = Inr x \<or> r = Inl ForeignError"
      "same_env w w'" "world.more w' = world.more w"
proof -
  obtain oc w1 where n: "next_outcome w = (oc, w1)" by fastforce
  note N = next_outcome_fields [OF n]
  show thesis
  proof (cases "oc = Lost")
    case True
    with assms n N failed [of ForeignError] show thesis by (auto simp: query_def)
  next
    case False
    show thesis
    proof (cases "f (db w)")
      case (Inl e)
      with assms n N False failed [of e] show thesis by (auto simp: query_def)
    next
      case (Inr p)
      obtain x d where p: "p = (x, d)" by fastforce
      from Inr p assms n N False applied [of x d] show thesis
        by (auto simp: query_def same_env_def split: if_splits)
    qed
  qed
qed

lemma pres_query:
  assumes "\<And>w oc. I w \<Longrightarrow> I (w\<lparr>calls := Suc (calls w)\<rparr>)"
    and "\<And>w x d. I w \<Longrightarrow> f (db w) = Inr (x, d) \<Longrightarrow> I (w\<lparr>calls := Suc (calls w), db := d\<rparr>)"
  shows "pres I (query f)"
  unfolding pres_def query_def next_outcome_def using assms
  by (auto split: sum.splits prod.splits)

lemma transaction_cases:
  assumes "transaction body w = (r, w')"
  defines "w1 \<equiv> w\<lparr>calls := Suc (calls w)\<rparr>"
  obtains (not_begun) "r = Inl ForeignError" "w' = w1"
  | (aborted) e w2 where "body w1 = (Inl e, w2)" "r = Inl e" "w' = w2\<lparr>db := db w\<rparr>"
  | (rolled_back) x w2 where "body w1 = (Inr x, w2)" "r = Inl ForeignError"
      "w' = w2\<lparr>calls := Suc (calls w2), db := db w\<rparr>"
  | (committed) x w2 where "body w1 = (Inr x, w2)" "r = Inr x \<or> r = Inl ForeignError"
      "w' = w2\<lparr>calls := Suc (calls w2)\<rparr>"
proof (cases "fault w (calls w) = Ok")
  case False
  with assms not_begun show thesis by (auto simp: transaction_def next_outcome_def)
next
  case True
  obtain rb w2 where b: "body w1 = (rb, w2)" by fastforce
  show thesis
  proof (cases rb)
    case (Inl e)
    with True b assms aborted show thesis by (auto simp: transaction_def next_outcome_def)
  next
    case (Inr x)
    with True b assms(1) rolled_back [of x w2] committed [of x w2] show thesis
      by (cases "fault w2 (calls w2)") (auto simp: transaction_def next_outcome_def w1_def)
  qed
qed

text \<open>A statement or a transaction keeps what its success keeps: what fails is undone.\<close>

lemma triple_query:
  assumes "\<And>w x d. P w \<Longrightarrow> f (db w) = Inr (x, d) \<Longrightarrow> Q x (w\<lparr>calls := Suc (calls w), db := d\<rparr>)"
  shows "triple P (query f) Q (\<lambda>_ _. True)"
  by (rule tripleI) (auto simp: query_def next_outcome_def intro!: assms split: if_splits sum.splits prod.splits)

lemma pres_query_db: "(\<And>d x d'. I d \<Longrightarrow> f d = Inr (x, d') \<Longrightarrow> I d') \<Longrightarrow> pres (\<lambda>w. I (db w)) (query f)"
  by (rule pres_query) auto

lemma pres_transaction:
  fixes body :: "('z world_scheme, 'a) proc"
  assumes "triple (\<lambda>w. I (db w)) body (\<lambda>_ w. I (db w)) (\<lambda>_ _. True)"
  shows "pres (\<lambda>w. I (db w)) (transaction body)"
  unfolding pres_def
proof (intro allI impI)
  fix w :: "'z world_scheme" assume I: "I (db w)"
  show "I (db (snd (transaction body w)))"
  proof (cases rule: transaction_cases [OF surjective_pairing [of "transaction body w"]])
    case (4 x w2)
    with triple_Inr [OF assms _ 4(1)] I show ?thesis by simp
  qed (use I in auto)
qed

lemma triple_transaction:
  assumes "triple P body Q (\<lambda>_ _. True)"
    and "\<And>w. P w \<Longrightarrow> P (w\<lparr>calls := Suc (calls w)\<rparr>)" and "\<And>x w. Q x w \<Longrightarrow> Q x (w\<lparr>calls := Suc (calls w)\<rparr>)"
  shows "triple P (transaction body) Q (\<lambda>_ _. True)"
proof (rule tripleI)
  fix w x w' assume P: "P w" and t: "transaction body w = (Inr x, w')"
  from t show "Q x w'"
  proof (cases rule: transaction_cases)
    case (committed y w2)
    with triple_Inr [OF assms(1) assms(2) [OF P] committed(1)] assms(3) show ?thesis by simp
  qed simp_all
qed simp

lemma query_error:
  "query f w = (Inl e, w') \<Longrightarrow> e = ForeignError \<or> f (db w) = Inl e"
  by (auto simp: query_def next_outcome_def split: if_splits sum.splits prod.splits)

lemma update_whereE:
  assumes "x \<in> set (update_where p f rs)"
  obtains (hit) y where "y \<in> set rs" "p y" "x = f y" | (miss) "x \<in> set rs" "\<not> p x"
  using assms by (auto simp: update_where_def split: if_splits)

end
