(* ===== verification/Audit_Outbox.thy ===== *)
theory Audit_Outbox
  imports World
begin

text \<open>
  The audit trail of \<^verbatim>\<open>packages/audit/src/outbox.ts\<close>: an event is given the next sequence number
  of its session and committed to the Postgres outbox, and delivery moves the pending rows of a
  session to the sink, ClickHouse. The sink is an interface (\<open>audit_sink\<close>), interpreted on the
  ClickHouse client; everything proved of delivery holds for any pattern of lost calls, and of
  calls that take effect although their caller sees an error.
\<close>

section \<open>Payloads\<close>

record audit_input =
  ai_sessionId :: string
  ai_actionId :: string
  ai_timestamp :: "int option"
  ai_eventType :: string
  ai_actionType :: string
  ai_service :: "utf16 option"
  ai_method :: "utf16 option"
  ai_decision :: "string option"
  ai_policyBundle :: "string option"
  ai_policyReason :: "utf16 option"
  ai_obligations :: "utf16 list option"
  ai_scopeUsed :: "utf16 option"
  ai_roleUsed :: "string option"
  ai_paramsHash :: "string option"
  ai_paramsPreview :: "utf16 option"
  ai_resultBytes :: "int option"
  ai_resultHash :: "string option"
  ai_redactionCount :: "int option"
  ai_durationMs :: "int option"
  ai_approvalId :: "string option"
  ai_approvalWaitMs :: "int option"
  ai_skillLoaded :: "string option"
  ai_agentIntent :: "utf16 option"
  ai_driver :: driver_kind
  ai_hardwareIsolated :: bool
  ai_traceId :: "string option"
  ai_spanId :: "string option"
  ai_errorCode :: "string option"
  ai_errorMessage :: "utf16 option"
  ai_networkDestination :: "string option"
  ai_networkProtocol :: "string option"

text \<open>\<^verbatim>\<open>x ?? d\<close>\<close>

definition orElse :: "'a option \<Rightarrow> 'a \<Rightarrow> 'a" where
  "orElse v d = (case v of None \<Rightarrow> d | Some x \<Rightarrow> x)"

definition PREVIEW_MAX_BYTES :: nat where "PREVIEW_MAX_BYTES = 512"
definition EMPTY_HASH :: string where "EMPTY_HASH = replicate 64 (CHR ''0'')"

fun driver_name :: "driver_kind \<Rightarrow> string" where
  "driver_name Container = ''container''"
| "driver_name Firecracker = ''firecracker''"

text \<open>The payload as the object \<^verbatim>\<open>assertSafePayload\<close> walks; an instant stands for its ISO text.\<close>

definition payload_json :: "audit_payload \<Rightarrow> json" where
  "payload_json p = (let str = (\<lambda>s. JStr (js s)); num = (\<lambda>n. JNum (of_int n)) in
     JObj (map (\<lambda>(k, v). (js k, v))
      [(''actionId'', str (ap_actionId p)), (''timestamp'', num (ap_timestamp p)),
       (''eventType'', str (ap_eventType p)), (''actionType'', str (ap_actionType p)),
       (''service'', JStr (ap_service p)), (''method'', JStr (ap_method p)), (''decision'', str (ap_decision p)),
       (''policyBundle'', str (ap_policyBundle p)), (''policyReason'', JStr (ap_policyReason p)),
       (''obligations'', JArr (map JStr (ap_obligations p))), (''scopeUsed'', JStr (ap_scopeUsed p)),
       (''roleUsed'', str (ap_roleUsed p)), (''paramsHash'', str (ap_paramsHash p)),
       (''paramsPreview'', JStr (ap_paramsPreview p)), (''resultBytes'', num (ap_resultBytes p)),
       (''resultHash'', str (ap_resultHash p)), (''redactionCount'', num (ap_redactionCount p)),
       (''durationMs'', num (ap_durationMs p)),
       (''approvalId'', (case ap_approvalId p of None \<Rightarrow> JNull | Some s \<Rightarrow> str s)),
       (''approvalWaitMs'', (case ap_approvalWaitMs p of None \<Rightarrow> JNull | Some n \<Rightarrow> num n)),
       (''skillLoaded'', str (ap_skillLoaded p)), (''agentIntent'', JStr (ap_agentIntent p)),
       (''driver'', str (driver_name (ap_driver p))), (''hardwareIsolated'', JBool (ap_hardwareIsolated p)),
       (''traceId'', str (ap_traceId p)), (''spanId'', str (ap_spanId p)), (''errorCode'', str (ap_errorCode p)),
       (''errorMessage'', JStr (ap_errorMessage p)), (''networkDestination'', str (ap_networkDestination p)),
       (''networkProtocol'', str (ap_networkProtocol p))]))"

definition buildAuditPayload :: "int \<Rightarrow> audit_input \<Rightarrow> js_error + audit_payload" where
  "buildAuditPayload today i =
     (let p = \<lparr>ap_actionId = ai_actionId i, ap_timestamp = orElse (ai_timestamp i) today,
        ap_eventType = ai_eventType i, ap_actionType = ai_actionType i,
        ap_service = orElse (ai_service i) [], ap_method = orElse (ai_method i) [],
        ap_decision = orElse (ai_decision i) ''n/a'', ap_policyBundle = orElse (ai_policyBundle i) '''',
        ap_policyReason = orElse (ai_policyReason i) [], ap_obligations = orElse (ai_obligations i) [],
        ap_scopeUsed = orElse (ai_scopeUsed i) [], ap_roleUsed = orElse (ai_roleUsed i) '''',
        ap_paramsHash = orElse (ai_paramsHash i) EMPTY_HASH,
        ap_paramsPreview = truncateUtf8 (orElse (ai_paramsPreview i) []) PREVIEW_MAX_BYTES,
        ap_resultBytes = orElse (ai_resultBytes i) 0, ap_resultHash = orElse (ai_resultHash i) EMPTY_HASH,
        ap_redactionCount = orElse (ai_redactionCount i) 0, ap_durationMs = orElse (ai_durationMs i) 0,
        ap_approvalId = ai_approvalId i, ap_approvalWaitMs = ai_approvalWaitMs i,
        ap_skillLoaded = orElse (ai_skillLoaded i) '''',
        ap_agentIntent = truncateUtf8 (orElse (ai_agentIntent i) []) PREVIEW_MAX_BYTES,
        ap_driver = ai_driver i, ap_hardwareIsolated = ai_hardwareIsolated i,
        ap_traceId = orElse (ai_traceId i) '''', ap_spanId = orElse (ai_spanId i) '''',
        ap_errorCode = orElse (ai_errorCode i) '''', ap_errorMessage = orElse (ai_errorMessage i) [],
        ap_networkDestination = orElse (ai_networkDestination i) '''',
        ap_networkProtocol = orElse (ai_networkProtocol i) ''''\<rparr>
      in case assertSafePayload (payload_json p) of Inl e \<Rightarrow> Inl e | Inr _ \<Rightarrow> Inr p)"

section \<open>Allocation and enqueueing\<close>

definition count_for :: "string \<Rightarrow> audit_input \<Rightarrow> int" where
  "count_for d i = (if ai_decision i = Some d then 1 else 0)"

definition allocate_row :: "audit_input \<Rightarrow> session_row \<Rightarrow> session_row" where
  "allocate_row i s = s\<lparr>sr_next_audit_seq := sr_next_audit_seq s + 1,
     sr_action_allow_count := sr_action_allow_count s + count_for ''allow'' i,
     sr_action_deny_count := sr_action_deny_count s + count_for ''deny'' i,
     sr_action_require_approval_count := sr_action_require_approval_count s + count_for ''require_approval'' i\<rparr>"

text \<open>
  The one statement that allocates the number and inserts the outbox row: no session gives no row;
  an \<^verbatim>\<open>integer\<close> overflow, a sequence number that is not positive or a duplicate key is an error.
\<close>

definition allocate_stmt :: "string \<Rightarrow> audit_input \<Rightarrow> audit_payload \<Rightarrow> int option statement" where
  "allocate_stmt eventId i p d =
     (case List.find (\<lambda>s. sr_id s = ai_sessionId i) (sessions d) of
        None \<Rightarrow> Inr (None, d)
      | Some s \<Rightarrow>
          let s' = allocate_row i s; n = sr_next_audit_seq s' in
          if \<not> int4 n \<or> \<not> int4 (sr_action_allow_count s') \<or> \<not> int4 (sr_action_deny_count s')
             \<or> \<not> int4 (sr_action_require_approval_count s') \<or> n \<le> 0
             \<or> (\<exists>r \<in> set (audit_outbox d). ob_id r = eventId \<or> ob_session_id r = ai_sessionId i \<and> ob_seq r = n)
          then Inl ForeignError
          else Inr (Some n, d\<lparr>
            sessions := update_where (\<lambda>s. sr_id s = ai_sessionId i) (allocate_row i) (sessions d),
            audit_outbox := audit_outbox d @
              [\<lparr>ob_id = eventId, ob_session_id = ai_sessionId i, ob_seq = n, ob_payload = p, ob_state = DPending,
                ob_attempts = 0, ob_last_error = None, ob_delivered_at = None\<rparr>]\<rparr>))"

definition allocateOutboxEvent :: "audit_input \<Rightarrow> audit_payload \<Rightarrow> ('z world_scheme, audit_event) proc" where
  "allocateOutboxEvent i p =
     bnd uuidV7 (\<lambda>eventId.
     bnd (query (allocate_stmt eventId i p)) (\<lambda>inserted.
       case inserted of
         None \<Rightarrow> throw (Caisson SESSION_NOT_FOUND ''cannot audit an unknown session'')
       | Some n \<Rightarrow> ret \<lparr>ae_id = eventId, ae_session_id = ai_sessionId i, ae_seq = n, ae_payload = p\<rparr>))"

definition build_now :: "audit_input \<Rightarrow> ('z world_scheme, audit_payload) proc" where
  "build_now i = bnd (gets now) (\<lambda>t. of_result (buildAuditPayload t i))"

definition enqueue :: "audit_input \<Rightarrow> ('z world_scheme, audit_event) proc" where
  "enqueue i = bnd (build_now i) (\<lambda>p. transaction (allocateOutboxEvent i p))"

definition enqueueInTransaction :: "audit_input \<Rightarrow> ('z world_scheme, audit_event) proc" where
  "enqueueInTransaction i = bnd (build_now i) (\<lambda>p. allocateOutboxEvent i p)"

definition persistDurably :: "audit_input \<Rightarrow> ('z world_scheme, audit_event) proc" where
  "persistDurably i = enqueue i"

section \<open>Delivery\<close>

definition event_of :: "outbox_row \<Rightarrow> audit_event" where
  "event_of r = \<lparr>ae_id = ob_id r, ae_session_id = ob_session_id r, ae_seq = ob_seq r, ae_payload = ob_payload r\<rparr>"

definition pending_rows :: "string \<Rightarrow> db \<Rightarrow> outbox_row list" where
  "pending_rows sid d =
     sort_key ob_seq (filter (\<lambda>r. ob_session_id r = sid \<and> ob_state r = DPending) (audit_outbox d))"

definition set_active :: "string list \<Rightarrow> ('z world_scheme, unit) proc" where
  "set_active ids = modify (\<lambda>w. w\<lparr>activeEventIds := ids\<rparr>)"

text \<open>The loop over the pending rows: only a retried row is looked up in the sink.\<close>

fun collect :: "(string \<Rightarrow> int \<Rightarrow> ('z world_scheme, bool) proc) \<Rightarrow> outbox_row list
    \<Rightarrow> audit_event list \<Rightarrow> ('z world_scheme, audit_event list) proc" where
  "collect hasEvent [] eventsToInsert = ret eventsToInsert"
| "collect hasEvent (row # rows) eventsToInsert =
     seq (set_active [ob_id row])
     (bnd (if 0 < ob_attempts row then hasEvent (ob_session_id row) (ob_seq row) else ret False)
       (\<lambda>alreadyDelivered. collect hasEvent rows
          (if alreadyDelivered then eventsToInsert else eventsToInsert @ [event_of row])))"

definition bump_attempts :: "string list \<Rightarrow> (outbox_row \<Rightarrow> outbox_row) \<Rightarrow> unit statement" where
  "bump_attempts ids f d =
     (if \<exists>r \<in> set (audit_outbox d). ob_id r \<in> set ids \<and> \<not> int4 (ob_attempts r + 1) then Inl ForeignError
      else Inr ((), d\<lparr>audit_outbox :=
        update_where (\<lambda>r. ob_id r \<in> set ids) (\<lambda>r. f (r\<lparr>ob_attempts := ob_attempts r + 1\<rparr>)) (audit_outbox d)\<rparr>))"

definition mark_delivered :: "int \<Rightarrow> string list \<Rightarrow> unit statement" where
  "mark_delivered t ids =
     bump_attempts ids (\<lambda>r. r\<lparr>ob_state := DDelivered, ob_delivered_at := Some t, ob_last_error := None\<rparr>)"

definition mark_failed :: "string list \<Rightarrow> unit statement" where
  "mark_failed ids = bump_attempts ids (\<lambda>r. r\<lparr>ob_last_error := Some ''clickhouse delivery failed''\<rparr>)"

definition deliver_body :: "(string \<Rightarrow> int \<Rightarrow> ('z world_scheme, bool) proc)
    \<Rightarrow> (audit_event list \<Rightarrow> ('z world_scheme, unit) proc) \<Rightarrow> string \<Rightarrow> ('z world_scheme, unit) proc" where
  "deliver_body hasEvent insertAll sid =
     bnd (query (select (pending_rows sid))) (\<lambda>rows.
     bnd (collect hasEvent rows []) (\<lambda>eventsToInsert.
     seq (if eventsToInsert \<noteq> []
          then seq (set_active (map ae_id eventsToInsert)) (insertAll eventsToInsert) else ret ())
         (if rows \<noteq> []
          then seq (set_active (map ob_id rows)) (bnd (gets now) (\<lambda>t. query (mark_delivered t (map ob_id rows))))
          else ret ())))"

definition deliverSession :: "(string \<Rightarrow> int \<Rightarrow> ('z world_scheme, bool) proc)
    \<Rightarrow> (audit_event list \<Rightarrow> ('z world_scheme, unit) proc) \<Rightarrow> string \<Rightarrow> ('z world_scheme, unit) proc" where
  "deliverSession hasEvent insertAll sid =
     seq (set_active [])
     (try_catch (transaction (deliver_body hasEvent insertAll sid))
       (\<lambda>_. bnd (gets activeEventIds) (\<lambda>ids.
          seq (if ids \<noteq> [] then query (mark_failed ids) else ret ())
              (throw (Caisson AUDIT_UNAVAILABLE ''audit delivery failed'')))))"

definition persistBeforeExecution :: "(string \<Rightarrow> int \<Rightarrow> ('z world_scheme, bool) proc)
    \<Rightarrow> (audit_event list \<Rightarrow> ('z world_scheme, unit) proc) \<Rightarrow> audit_input \<Rightarrow> ('z world_scheme, audit_event) proc" where
  "persistBeforeExecution hasEvent insertAll i =
     bnd (enqueue i) (\<lambda>event. seq (deliverSession hasEvent insertAll (ae_session_id event)) (ret event))"

definition drainPending :: "(string \<Rightarrow> int \<Rightarrow> ('z world_scheme, bool) proc)
    \<Rightarrow> (audit_event list \<Rightarrow> ('z world_scheme, unit) proc) \<Rightarrow> ('z world_scheme, unit) proc" where
  "drainPending hasEvent insertAll =
     bnd (query (select (\<lambda>d. sort (remdups (map ob_session_id (filter (\<lambda>r. ob_state r = DPending) (audit_outbox d)))))))
       (\<lambda>sids. for_each sids (deliverSession hasEvent insertAll))"

section \<open>The ClickHouse sink\<close>

definition assertSessionAndSeq :: "string \<Rightarrow> int \<Rightarrow> js_error + unit" where
  "assertSessionAndSeq sid n = (if \<not> is_uuid sid then Inl ForeignError else if n < 1 then Inl ForeignError else Inr ())"

definition click_of :: "audit_event \<Rightarrow> click_row" where
  "click_of e = (let p = ae_payload e in
      \<lparr>ck_session_id = ae_session_id e, ck_action_id = ap_actionId p, ck_timestamp = ap_timestamp p, ck_seq = ae_seq e,
       ck_event_type = ap_eventType p, ck_action_type = ap_actionType p, ck_service = ap_service p,
       ck_method = ap_method p, ck_decision = ap_decision p, ck_policy_bundle = ap_policyBundle p,
       ck_policy_reason = ap_policyReason p, ck_obligations = ap_obligations p, ck_scope_used = ap_scopeUsed p,
       ck_role_used = ap_roleUsed p, ck_params_hash = ap_paramsHash p, ck_params_preview = ap_paramsPreview p,
       ck_result_bytes = ap_resultBytes p, ck_result_hash = ap_resultHash p, ck_redaction_count = ap_redactionCount p,
       ck_duration_ms = ap_durationMs p, ck_approval_id = ap_approvalId p, ck_approval_wait_ms = ap_approvalWaitMs p,
       ck_skill_loaded = ap_skillLoaded p, ck_agent_intent = ap_agentIntent p, ck_driver = ap_driver p,
       ck_hardware_isolated = (if ap_hardwareIsolated p then 1 else 0), ck_trace_id = ap_traceId p,
       ck_span_id = ap_spanId p, ck_error_code = ap_errorCode p, ck_error_message = ap_errorMessage p,
       ck_network_destination = ap_networkDestination p, ck_network_protocol = ap_networkProtocol p\<rparr>)"

definition auditRow :: "audit_event \<Rightarrow> js_error + click_row" where
  "auditRow e = (case assertSessionAndSeq (ae_session_id e) (ae_seq e) of Inl err \<Rightarrow> Inl err | Inr _ \<Rightarrow> Inr (click_of e))"

text \<open>\<^verbatim>\<open>#query\<close>: one HTTP request; an error status or a broken connection throws, and the statement may
  have run all the same.\<close>

definition ch_query :: "(click_row list \<Rightarrow> 'a \<times> click_row list) \<Rightarrow> ('z world_scheme, 'a) proc" where
  "ch_query f w = (case next_outcome w of (oc, w1) \<Rightarrow>
     if oc = Lost then (Inl ForeignError, w1)
     else case f (sink w1) of (x, rows) \<Rightarrow>
       (if oc = Ok then Inr x else Inl ForeignError, w1\<lparr>sink := rows\<rparr>))"

definition hasEvent :: "string \<Rightarrow> int \<Rightarrow> ('z world_scheme, bool) proc" where
  "hasEvent sid n =
     seq (of_result (assertSessionAndSeq sid n))
         (ch_query (\<lambda>rows. (\<exists>r \<in> set rows. ck_session_id r = sid \<and> ck_seq r = n, rows)))"

fun audit_rows :: "audit_event list \<Rightarrow> js_error + click_row list" where
  "audit_rows [] = Inr []"
| "audit_rows (e # es) = (case auditRow e of Inl err \<Rightarrow> Inl err
     | Inr r \<Rightarrow> (case audit_rows es of Inl err \<Rightarrow> Inl err | Inr rs \<Rightarrow> Inr (r # rs)))"

definition insertBatch :: "audit_event list \<Rightarrow> ('z world_scheme, unit) proc" where
  "insertBatch events =
     (if events = [] then ret ()
      else bnd (of_result (audit_rows events)) (\<lambda>rows. ch_query (\<lambda>old. ((), old @ rows))))"

definition insert_event :: "audit_event \<Rightarrow> ('z world_scheme, unit) proc" where
  "insert_event event = insertBatch [event]"

text \<open>The two ways \<^verbatim>\<open>deliverSession\<close> hands events to its sink: one batch, or one by one when the sink
  has no \<^verbatim>\<open>insertBatch\<close>.\<close>

definition insert_each :: "audit_event list \<Rightarrow> ('z world_scheme, unit) proc" where
  "insert_each events = for_each events insert_event"

lemma set_active_run [simp]: "set_active ids w = (Inr (), w\<lparr>activeEventIds := ids\<rparr>)"
  by (simp add: set_active_def modify_def)

lemma seq_set_active [simp]: "seq (set_active ids) m w = m (w\<lparr>activeEventIds := ids\<rparr>)"
  by (simp add: bnd_def)

section \<open>The delivery contract\<close>

definition row_key :: "outbox_row \<Rightarrow> string \<times> int" where
  "row_key r = (ob_session_id r, ob_seq r)"

definition event_key :: "audit_event \<Rightarrow> string \<times> int" where
  "event_key e = (ae_session_id e, ae_seq e)"

definition quiet :: "'z world_scheme \<Rightarrow> 'z world_scheme \<Rightarrow> bool" where
  "quiet w w' \<longleftrightarrow> db w' = db w \<and> now w' = now w \<and> activeEventIds w' = activeEventIds w"

definition mark_rows :: "int \<Rightarrow> string list \<Rightarrow> db \<Rightarrow> db" where
  "mark_rows t ids d = d\<lparr>audit_outbox := update_where (\<lambda>r. ob_id r \<in> set ids)
     (\<lambda>r. r\<lparr>ob_attempts := ob_attempts r + 1, ob_state := DDelivered, ob_delivered_at := Some t, ob_last_error := None\<rparr>)
     (audit_outbox d)\<rparr>"

definition fail_rows :: "string list \<Rightarrow> db \<Rightarrow> db" where
  "fail_rows ids d = d\<lparr>audit_outbox := update_where (\<lambda>r. ob_id r \<in> set ids)
     (\<lambda>r. r\<lparr>ob_attempts := ob_attempts r + 1, ob_last_error := Some ''clickhouse delivery failed''\<rparr>)
     (audit_outbox d)\<rparr>"

lemma update_where_none: "(\<And>r. r \<in> set rs \<Longrightarrow> \<not> p r) \<Longrightarrow> update_where p f rs = rs"
  by (simp add: update_where_def map_idI)

lemma mark_delivered_Inr: "mark_delivered t ids d = Inr (x, d') \<Longrightarrow> d' = mark_rows t ids d"
  by (auto simp: mark_delivered_def bump_attempts_def mark_rows_def split: if_splits)

lemma mark_failed_Inr: "mark_failed ids d = Inr (x, d') \<Longrightarrow> d' = fail_rows ids d"
  by (auto simp: mark_failed_def bump_attempts_def fail_rows_def split: if_splits)

lemma mark_rows_Nil [simp]: "mark_rows t [] d = d"
  by (simp add: mark_rows_def update_where_none)

definition fresh :: "('row \<Rightarrow> string \<times> int) \<Rightarrow> 'row list \<Rightarrow> outbox_row list \<Rightarrow> outbox_row list" where
  "fresh key S rows = filter (\<lambda>r. \<not> (0 < ob_attempts r \<and> row_key r \<in> key ` set S)) rows"

locale audit_sink =
  fixes has_event :: "string \<Rightarrow> int \<Rightarrow> ('z world_scheme, bool) proc"
    and insert_all :: "audit_event list \<Rightarrow> ('z world_scheme, unit) proc"
    and stored :: "'z world_scheme \<Rightarrow> 'row list"
    and row_of :: "audit_event \<Rightarrow> 'row"
    and key :: "'row \<Rightarrow> string \<times> int"
  assumes key_row_of: "key (row_of e) = event_key e"
    and stored_sink: "sink w' = sink w \<Longrightarrow> stored w' = stored w"
    and has_event_frame: "has_event s n w = (r, w') \<Longrightarrow> quiet w w' \<and> sink w' = sink w"
    and has_event_sound: "has_event s n w = (Inr b, w') \<Longrightarrow> b \<longleftrightarrow> (s, n) \<in> key ` set (stored w)"
    and insert_all_appends: "insert_all es w = (q, w') \<Longrightarrow>
          quiet w w' \<and> (\<exists>k. stored w' = stored w @ map row_of (take k es) \<and> (q = Inr () \<longrightarrow> length es \<le> k))"
begin

lemma collect_spec:
  assumes "collect has_event rows acc w = (r, w')"
  shows "db w' = db w \<and> now w' = now w \<and> sink w' = sink w
       \<and> set (activeEventIds w') \<subseteq> set (activeEventIds w) \<union> ob_id ` set rows
       \<and> (\<forall>es. r = Inr es \<longrightarrow> es = acc @ map event_of (fresh key (stored w) rows))"
  using assms
proof (induction rows arbitrary: acc w)
  case Nil
  then show ?case by (auto simp: ret_def fresh_def)
next
  case (Cons row rows)
  define w1 where "w1 = w\<lparr>activeEventIds := [ob_id row]\<rparr>"
  have w1: "db w1 = db w" "now w1 = now w" "sink w1 = sink w" "stored w1 = stored w"
    using stored_sink [of w1 w] by (simp_all add: w1_def)
  let ?look = "if 0 < ob_attempts row then has_event (ob_session_id row) (ob_seq row) else ret False"
  obtain b w2 where l: "?look w1 = (b, w2)" by fastforce
  have w2: "db w2 = db w1" "now w2 = now w1" "sink w2 = sink w1" "activeEventIds w2 = [ob_id row]"
    using l has_event_frame [of "ob_session_id row" "ob_seq row" w1 b w2]
    by (auto simp: ret_def w1_def quiet_def split: if_splits)
  then have st: "stored w2 = stored w" using stored_sink [of w2 w] w1(3) by simp
  from Cons.prems
  have "bnd ?look (\<lambda>d. collect has_event rows (if d then acc else acc @ [event_of row])) w1 = (r, w')"
    by (simp add: w1_def)
  then show ?case
  proof (cases rule: bndE)
    case (err e)
    with l w1 w2 show ?thesis by simp
  next
    case (ok d w3)
    have [simp]: "w3 = w2" using ok l by simp
    have d: "d \<longleftrightarrow> 0 < ob_attempts row \<and> row_key row \<in> key ` set (stored w)"
      using l ok(1) has_event_sound [of "ob_session_id row" "ob_seq row" w1 d w2] w1(4)
      by (auto simp: ret_def row_key_def split: if_splits)
    from Cons.IH [OF ok(2)] d w1 w2 st show ?thesis by (auto simp: fresh_def)
  qed
qed

text \<open>
  The body of the delivery transaction: what it leaves in the sink is a prefix of the events it
  found fresh, every one of them is among the active ids, and it returns only when all are stored
  and all rows are marked.
\<close>

definition body_post :: "string \<Rightarrow> 'z world_scheme \<Rightarrow> js_error + unit \<Rightarrow> 'z world_scheme \<Rightarrow> bool" where
  "body_post sid w r w' \<longleftrightarrow>
     (\<exists>k. let rows = pending_rows sid (db w); new = map event_of (fresh key (stored w) rows) in
       stored w' = stored w @ map row_of (take k new)
       \<and> ae_id ` set (take k new) \<subseteq> set (activeEventIds w')
       \<and> set (activeEventIds w') \<subseteq> ob_id ` set rows
       \<and> (r = Inr () \<longrightarrow> length new \<le> k \<and> db w' = mark_rows (now w) (map ob_id rows) (db w)))"

lemma deliver_tail:
  assumes "seq (if new \<noteq> [] then seq (set_active (map ae_id new)) (insert_all new) else ret ())
      (if rows \<noteq> [] then seq (set_active (map ob_id rows)) (bnd (gets now) (\<lambda>t. query (mark_delivered t (map ob_id rows))))
       else ret ()) w = (r, w')"
    and ids: "ae_id ` set new \<subseteq> ob_id ` set rows" and act: "set (activeEventIds w) \<subseteq> ob_id ` set rows"
  shows "\<exists>k. stored w' = stored w @ map row_of (take k new)
       \<and> ae_id ` set (take k new) \<subseteq> set (activeEventIds w') \<and> set (activeEventIds w') \<subseteq> ob_id ` set rows
       \<and> (r = Inr () \<longrightarrow> length new \<le> k \<and> db w' = mark_rows (now w) (map ob_id rows) (db w))"
proof -
  let ?ins = "if new \<noteq> [] then seq (set_active (map ae_id new)) (insert_all new) else ret ()"
  have ins: "\<exists>k. stored v = stored w @ map row_of (take k new) \<and> (q = Inr () \<longrightarrow> length new \<le> k)
      \<and> db v = db w \<and> now v = now w \<and> ae_id ` set (take k new) \<subseteq> set (activeEventIds v)
      \<and> set (activeEventIds v) \<subseteq> ob_id ` set rows" if "?ins w = (q, v)" for q v
  proof (cases "new = []")
    case True
    with that act show ?thesis by (simp add: ret_def)
  next
    case False
    let ?w = "w\<lparr>activeEventIds := map ae_id new\<rparr>"
    from False that have "insert_all new ?w = (q, v)" by simp
    from insert_all_appends [OF this] obtain k where "quiet ?w v"
      "stored v = stored ?w @ map row_of (take k new)" "q = Inr () \<longrightarrow> length new \<le> k" by blast
    with stored_sink [of ?w w] ids show ?thesis
      by (intro exI [of _ k]) (auto simp: quiet_def dest: in_set_takeD)
  qed
  from assms(1) show ?thesis
  proof (cases rule: bndE)
    case (err e)
    with ins [OF err(1)] show ?thesis by auto
  next
    case (ok x v)
    from ins [OF ok(1)] obtain k where k: "stored v = stored w @ map row_of (take k new)" "length new \<le> k"
      "db v = db w" "now v = now w" "set (activeEventIds v) \<subseteq> ob_id ` set rows" by auto
    show ?thesis
    proof (cases "rows = []")
      case True
      with ok(2) k ids show ?thesis by (intro exI [of _ k]) (auto simp: ret_def)
    next
      case False
      let ?v = "v\<lparr>activeEventIds := map ob_id rows\<rparr>"
      have q: "query (mark_delivered (now v) (map ob_id rows)) ?v = (r, w')"
        using False ok(2) by (simp add: bnd_def gets_def)
      then have "sink w' = sink v \<and> activeEventIds w' = map ob_id rows
          \<and> (r = Inr () \<longrightarrow> db w' = mark_rows (now w) (map ob_id rows) (db w))"
        by (cases rule: query_cases) (use k in \<open>auto simp: same_env_def dest: mark_delivered_Inr\<close>)
      with k ids stored_sink [of w' v] show ?thesis by (intro exI [of _ k]) auto
    qed
  qed
qed

lemma deliver_body_spec:
  assumes "deliver_body has_event insert_all sid w = (r, w')" and "activeEventIds w = []"
  shows "body_post sid w r w'"
proof -
  define rows where "rows = pending_rows sid (db w)"
  define new where "new = map event_of (fresh key (stored w) rows)"
  have ids: "ae_id ` set new \<subseteq> ob_id ` set rows"
    by (auto simp: new_def fresh_def event_of_def)
  note P = body_post_def Let_def rows_def [symmetric] new_def [symmetric]
  have none: "body_post sid w (Inl e) v" if "sink v = sink w" "set (activeEventIds v) \<subseteq> ob_id ` set rows" for e v
    using that stored_sink [of v w] unfolding P by (intro exI [of _ 0]) simp
  from assms(1) show ?thesis unfolding deliver_body_def
  proof (cases rule: bndE)
    case (err e)
    from err(1) show ?thesis
      by (cases rule: query_cases) (use err none assms(2) in \<open>auto simp: same_env_def\<close>)
  next
    case (ok x w1)
    then have w1: "db w1 = db w" "sink w1 = sink w" "activeEventIds w1 = []" "now w1 = now w" "x = rows"
      using ok(1) assms(2) by (auto simp: query_def next_outcome_def select_def rows_def split: if_splits)
    have st1: "stored w1 = stored w" using stored_sink [of w1 w] w1 by simp
    from ok(2) show ?thesis
    proof (cases rule: bndE)
      case (err e)
      with collect_spec [OF err(1)] w1 none [of w' e] show ?thesis by simp
    next
      case (ok es w2)
      from collect_spec [OF ok(1)] w1 st1 assms(2)
      have w2: "db w2 = db w" "sink w2 = sink w" "now w2 = now w" "es = new"
        "set (activeEventIds w2) \<subseteq> ob_id ` set rows"
        by (auto simp: new_def)
      from deliver_tail [OF ok(2) [unfolded w2(4) w1(5)] ids w2(5)] w2 stored_sink [of w2 w]
      show ?thesis unfolding P by simp
    qed
  qed
qed

text \<open>The transaction as a whole: only a commit marks rows, and only after every event is stored.\<close>

lemma deliver_transaction:
  assumes "transaction (deliver_body has_event insert_all sid) w = (r, w')" and "activeEventIds w = []"
  defines "rows \<equiv> pending_rows sid (db w)"
  defines "new \<equiv> map event_of (fresh key (stored w) rows)"
  defines "marked \<equiv> mark_rows (now w) (map ob_id rows) (db w)"
  shows "r = Inr () \<and> db w' = marked \<and> stored w' = stored w @ map row_of new
    \<or> (\<exists>k e. r = Inl e \<and> stored w' = stored w @ map row_of (take k new)
        \<and> ae_id ` set (take k new) \<subseteq> set (activeEventIds w') \<and> set (activeEventIds w') \<subseteq> ob_id ` set rows
        \<and> (db w' = db w \<or> db w' = marked \<and> length new \<le> k))"
proof -
  have stw: "stored (v\<lparr>calls := n, db := d\<rparr>) = stored v" "stored (v\<lparr>db := d\<rparr>) = stored v"
    "stored (v\<lparr>calls := n\<rparr>) = stored v" for v n d
    using stored_sink [of "v\<lparr>calls := n, db := d\<rparr>" v] stored_sink [of "v\<lparr>db := d\<rparr>" v]
      stored_sink [of "v\<lparr>calls := n\<rparr>" v] by simp_all
  have post: "\<exists>k. stored v = stored w @ map row_of (take k new) \<and> ae_id ` set (take k new) \<subseteq> set (activeEventIds v)
      \<and> set (activeEventIds v) \<subseteq> ob_id ` set rows \<and> (q = Inr () \<longrightarrow> length new \<le> k \<and> db v = marked)"
    if "deliver_body has_event insert_all sid (w\<lparr>calls := Suc (calls w)\<rparr>) = (q, v)" for q v
    using deliver_body_spec [OF that] assms(2)
    unfolding body_post_def Let_def rows_def new_def marked_def by (simp add: stw)
  from assms(1) show ?thesis
  proof (cases rule: transaction_cases)
    case not_begun
    then show ?thesis using assms(2) by (intro disjI2 exI [of _ 0]) (simp add: stw)
  next
    case (aborted e w2)
    from post [OF aborted(1)] aborted(2,3) show ?thesis by (auto simp: stw)
  next
    case (rolled_back x w2)
    from post [OF rolled_back(1)] rolled_back(2,3) show ?thesis by (auto simp: stw)
  next
    case (committed x w2)
    from post [OF committed(1)] committed(2,3) show ?thesis by (auto simp: stw)
  qed
qed

lemma deliver_catch:
  assumes "seq (if ids \<noteq> [] then query (mark_failed ids) else ret ())
        (throw (Caisson AUDIT_UNAVAILABLE ''audit delivery failed'')) w = (r, w')"
  shows "(\<exists>e. r = Inl e \<and> (db w' = fail_rows ids (db w) \<or> db w' = db w \<and> e = ForeignError)) \<and> sink w' = sink w"
proof (cases "ids = []")
  case True
  with assms show ?thesis by (auto simp: throw_def fail_rows_def update_where_none)
next
  case False
  from assms show ?thesis
  proof (cases rule: bndE)
    case (err e)
    then have q: "query (mark_failed ids) w = (Inl e, w')" using False by simp
    have "e = ForeignError"
      using query_error [OF q] by (auto simp: mark_failed_def bump_attempts_def split: if_splits)
    with q err(2) show ?thesis
      by (cases rule: query_cases) (auto simp: same_env_def dest: mark_failed_Inr)
  next
    case (ok x w2)
    then have "query (mark_failed ids) w = (Inr x, w2)" using False by simp
    then show ?thesis
      by (cases rule: query_cases) (use ok(2) in \<open>auto simp: same_env_def throw_def dest: mark_failed_Inr\<close>)
  qed
qed

lemma deliverSession_spec:
  assumes "deliverSession has_event insert_all sid w = (r, w')"
  defines "rows \<equiv> pending_rows sid (db w)"
  defines "new \<equiv> map event_of (fresh key (stored w) rows)"
  defines "marked \<equiv> mark_rows (now w) (map ob_id rows) (db w)"
  obtains (delivered) "r = Inr ()" "db w' = marked" "stored w' = stored w @ map row_of new"
  | (failed) k e ids d where "r = Inl e" "stored w' = stored w @ map row_of (take k new)"
      "ae_id ` set (take k new) \<subseteq> set ids" "set ids \<subseteq> ob_id ` set rows"
      "d = db w \<or> d = marked \<and> length new \<le> k"
      "db w' = fail_rows ids d \<or> db w' = d \<and> e = ForeignError"
proof -
  let ?w = "w\<lparr>activeEventIds := []\<rparr>"
  have stw: "stored ?w = stored w" "db ?w = db w" "now ?w = now w" and none: "activeEventIds ?w = []"
    using stored_sink [of ?w w] by simp_all
  obtain rt wt where t: "transaction (deliver_body has_event insert_all sid) ?w = (rt, wt)" by fastforce
  note tr = deliver_transaction [OF t none, unfolded stw, folded rows_def, folded new_def marked_def]
  show thesis
  proof (cases rt)
    case (Inr x)
    then have "r = rt" "w' = wt"
      using assms(1) t by (simp_all add: deliverSession_def try_catch_def)
    with tr Inr delivered show thesis by auto
  next
    case (Inl e)
    with tr obtain k where k: "stored wt = stored w @ map row_of (take k new)"
      "ae_id ` set (take k new) \<subseteq> set (activeEventIds wt)" "set (activeEventIds wt) \<subseteq> ob_id ` set rows"
      "db wt = db w \<or> db wt = marked \<and> length new \<le> k" by auto
    have "seq (if activeEventIds wt \<noteq> [] then query (mark_failed (activeEventIds wt)) else ret ())
        (throw (Caisson AUDIT_UNAVAILABLE ''audit delivery failed'')) wt = (r, w')"
      using assms(1) t Inl by (simp add: deliverSession_def try_catch_def bnd_def gets_def)
    from deliver_catch [OF this] obtain e' where "r = Inl e'" "sink w' = sink wt"
      "db w' = fail_rows (activeEventIds wt) (db wt) \<or> db w' = db wt \<and> e' = ForeignError" by blast
    with k stored_sink [of w' wt] failed [of e' k "activeEventIds wt" "db wt"] show thesis by simp
  qed
qed

end

section \<open>Invariants of the outbox and the sink\<close>

definition rows_of :: "string \<Rightarrow> db \<Rightarrow> outbox_row list" where
  "rows_of sid d = filter (\<lambda>r. ob_session_id r = sid) (audit_outbox d)"

text \<open>Sequence numbers are gapless, and the ids are keys.\<close>

definition outbox_ok :: "db \<Rightarrow> bool" where
  "outbox_ok d \<longleftrightarrow> distinct (map sr_id (sessions d)) \<and> distinct (map ob_id (audit_outbox d))
     \<and> (\<forall>s \<in> set (sessions d). map ob_seq (rows_of (sr_id s) d) = [1..sr_next_audit_seq s])
     \<and> (\<forall>r \<in> set (audit_outbox d). ob_session_id r \<in> sr_id ` set (sessions d) \<and> 0 \<le> ob_attempts r)
     \<and> (\<forall>s \<in> set (sessions d). 0 \<le> sr_next_audit_seq s)"

text \<open>A delivered row has only delivered rows before it.\<close>

definition prefix_ok :: "db \<Rightarrow> bool" where
  "prefix_ok d \<longleftrightarrow> (\<forall>r \<in> set (audit_outbox d). \<forall>q \<in> set (audit_outbox d).
     ob_session_id q = ob_session_id r \<longrightarrow> ob_seq q < ob_seq r \<longrightarrow> ob_state r = DDelivered \<longrightarrow> ob_state q = DDelivered)"

text \<open>Nothing marked delivered is missing from the sink.\<close>

definition no_loss :: "(audit_event \<Rightarrow> 'row) \<Rightarrow> 'row list \<Rightarrow> db \<Rightarrow> bool" where
  "no_loss row_of S d \<longleftrightarrow>
     (\<forall>r \<in> set (audit_outbox d). ob_state r = DDelivered \<longrightarrow> row_of (event_of r) \<in> set S)"

text \<open>Nothing is in the sink twice, and a pending row that is there will be looked up before it is sent again.\<close>

definition at_most_once :: "('row \<Rightarrow> string \<times> int) \<Rightarrow> 'row list \<Rightarrow> db \<Rightarrow> bool" where
  "at_most_once key S d \<longleftrightarrow> distinct (map key S) \<and> key ` set S \<subseteq> row_key ` set (audit_outbox d)
     \<and> (\<forall>r \<in> set (audit_outbox d). ob_state r = DPending \<longrightarrow> row_key r \<in> key ` set S \<longrightarrow> 0 < ob_attempts r)"

text \<open>The two updates of delivery change only the bookkeeping columns.\<close>

definition bookkeeping :: "(outbox_row \<Rightarrow> outbox_row) \<Rightarrow> bool" where
  "bookkeeping f \<longleftrightarrow> (\<forall>r. ob_id (f r) = ob_id r \<and> ob_session_id (f r) = ob_session_id r \<and> ob_seq (f r) = ob_seq r
     \<and> ob_payload (f r) = ob_payload r \<and> ob_attempts r \<le> ob_attempts (f r))"

lemma outbox_ok_map:
  assumes "outbox_ok d" and "bookkeeping g"
  shows "outbox_ok (d\<lparr>audit_outbox := map g (audit_outbox d)\<rparr>)"
proof -
  have b: "ob_id (g r) = ob_id r" "ob_session_id (g r) = ob_session_id r" "ob_seq (g r) = ob_seq r"
    "ob_attempts r \<le> ob_attempts (g r)" for r using assms(2) by (auto simp: bookkeeping_def)
  have rows: "rows_of s (d\<lparr>audit_outbox := map g (audit_outbox d)\<rparr>) = map g (rows_of s d)" for s
    by (simp add: rows_of_def filter_map o_def b)
  have "ob_id \<circ> g = ob_id" "ob_seq \<circ> g = ob_seq" by (simp_all add: fun_eq_iff b)
  then show ?thesis
    using assms(1) order_trans [OF _ b(4)] by (simp add: outbox_ok_def rows b)
qed

lemma outbox_ok_update:
  "outbox_ok d \<Longrightarrow> bookkeeping f \<Longrightarrow> outbox_ok (d\<lparr>audit_outbox := update_where p f (audit_outbox d)\<rparr>)"
  unfolding update_where_def by (rule outbox_ok_map) (auto simp: bookkeeping_def)

lemma outbox_ok_mark: "outbox_ok d \<Longrightarrow> outbox_ok (mark_rows t ids d)"
  unfolding mark_rows_def by (rule outbox_ok_update) (simp_all add: bookkeeping_def)

lemma outbox_ok_fail: "outbox_ok d \<Longrightarrow> outbox_ok (fail_rows ids d)"
  unfolding fail_rows_def by (rule outbox_ok_update) (simp_all add: bookkeeping_def)

lemma set_pending: "set (pending_rows sid d) = {r \<in> set (audit_outbox d). ob_session_id r = sid \<and> ob_state r = DPending}"
  by (auto simp: pending_rows_def)

lemma outbox_id_inj: "outbox_ok d \<Longrightarrow> r \<in> set (audit_outbox d) \<Longrightarrow> q \<in> set (audit_outbox d) \<Longrightarrow> ob_id r = ob_id q \<Longrightarrow> r = q"
  by (auto simp: outbox_ok_def distinct_map dest: inj_onD)

lemma prefix_ok_fail: "prefix_ok d \<Longrightarrow> prefix_ok (fail_rows ids d)"
  by (fastforce simp: prefix_ok_def fail_rows_def update_where_def)

lemma mem_pending_ids:
  "outbox_ok d \<Longrightarrow> r \<in> set (audit_outbox d) \<Longrightarrow>
     ob_id r \<in> ob_id ` set (pending_rows sid d) \<longleftrightarrow> ob_session_id r = sid \<and> ob_state r = DPending"
  using outbox_id_inj [of d r] by (auto simp: set_pending)

lemma mark_rows_row:
  assumes "r \<in> set (audit_outbox (mark_rows t ids d))"
  obtains q where "q \<in> set (audit_outbox d)" "row_key r = row_key q" "event_of r = event_of q"
    "ob_state r = (if ob_id q \<in> set ids then DDelivered else ob_state q)"
    "ob_attempts r = (if ob_id q \<in> set ids then ob_attempts q + 1 else ob_attempts q)"
  using assms by (auto simp: mark_rows_def update_where_def row_key_def event_of_def split: if_splits)

lemma fail_rows_row:
  assumes "r \<in> set (audit_outbox (fail_rows ids d))"
  obtains q where "q \<in> set (audit_outbox d)" "row_key r = row_key q" "event_of r = event_of q"
    "ob_state r = ob_state q" "ob_id r = ob_id q"
    "ob_attempts r = (if ob_id q \<in> set ids then ob_attempts q + 1 else ob_attempts q)"
  using assms by (auto simp: fail_rows_def update_where_def row_key_def event_of_def split: if_splits)

lemma image_update_where:
  "(\<And>r. h (f r) = h r) \<Longrightarrow> h ` set (update_where p f rs) = h ` set rs"
  by (induction rs) (auto simp: update_where_def)

lemma row_keys_mark: "row_key ` set (audit_outbox (mark_rows t ids d)) = row_key ` set (audit_outbox d)"
  by (simp add: mark_rows_def) (rule image_update_where, simp add: row_key_def)

lemma row_keys_fail: "row_key ` set (audit_outbox (fail_rows ids d)) = row_key ` set (audit_outbox d)"
  by (simp add: fail_rows_def) (rule image_update_where, simp add: row_key_def)

lemma prefix_ok_mark:
  assumes "outbox_ok d" and "prefix_ok d"
  shows "prefix_ok (mark_rows t (map ob_id (pending_rows sid d)) d)"
  unfolding prefix_ok_def
proof (intro ballI impI)
  let ?d = "mark_rows t (map ob_id (pending_rows sid d)) d"
  fix r q assume r: "r \<in> set (audit_outbox ?d)" and q: "q \<in> set (audit_outbox ?d)"
    and lt: "ob_session_id q = ob_session_id r" "ob_seq q < ob_seq r" and del: "ob_state r = DDelivered"
  from r obtain r0 where r0: "r0 \<in> set (audit_outbox d)" "row_key r = row_key r0"
    "ob_state r = (if ob_id r0 \<in> set (map ob_id (pending_rows sid d)) then DDelivered else ob_state r0)"
    by (rule mark_rows_row)
  from q obtain q0 where q0: "q0 \<in> set (audit_outbox d)" "row_key q = row_key q0"
    "ob_state q = (if ob_id q0 \<in> set (map ob_id (pending_rows sid d)) then DDelivered else ob_state q0)"
    by (rule mark_rows_row)
  show "ob_state q = DDelivered"
  proof (cases "ob_session_id q0 = sid \<and> ob_state q0 = DPending")
    case True
    then show ?thesis using q0 mem_pending_ids [OF assms(1) q0(1), of sid] by simp
  next
    case False
    have "ob_state q0 = DDelivered"
    proof (cases "ob_state r0 = DDelivered")
      case True
      with assms(2) r0(1,2) q0(1,2) lt show ?thesis by (auto simp: prefix_ok_def row_key_def)
    next
      case F: False
      then have "ob_session_id r0 = sid"
        using r0(3) del mem_pending_ids [OF assms(1) r0(1), of sid] by (auto split: if_splits)
      with False q0(2) r0(2) lt(1) show ?thesis by (cases "ob_state q0") (auto simp: row_key_def)
    qed
    then show ?thesis using q0(3) by simp
  qed
qed

lemma no_loss_fail: "no_loss row_of S d \<Longrightarrow> set S \<subseteq> set S' \<Longrightarrow> no_loss row_of S' (fail_rows ids d)"
  by (auto simp: no_loss_def fail_rows_def update_where_def event_of_def)

lemma no_loss_mono: "no_loss row_of S d \<Longrightarrow> set S \<subseteq> set S' \<Longrightarrow> no_loss row_of S' d"
  by (auto simp: no_loss_def)

text \<open>Every sink row is the row of an outbox entry.\<close>

definition from_outbox :: "(audit_event \<Rightarrow> 'row) \<Rightarrow> 'row list \<Rightarrow> db \<Rightarrow> bool" where
  "from_outbox row_of S d \<longleftrightarrow> (\<forall>q \<in> set S. \<exists>r \<in> set (audit_outbox d). q = row_of (event_of r))"

definition audit_inv :: "(audit_event \<Rightarrow> 'row) \<Rightarrow> 'row list \<Rightarrow> db \<Rightarrow> bool" where
  "audit_inv row_of S d \<longleftrightarrow> outbox_ok d \<and> prefix_ok d \<and> no_loss row_of S d \<and> from_outbox row_of S d"

lemma row_key_inj:
  assumes "outbox_ok d" "r \<in> set (audit_outbox d)" "q \<in> set (audit_outbox d)" "row_key r = row_key q"
  shows "r = q"
proof -
  let ?rows = "rows_of (ob_session_id r) d"
  obtain s where "s \<in> set (sessions d)" "sr_id s = ob_session_id r"
    using assms(1,2) by (auto simp: outbox_ok_def)
  then have "map ob_seq ?rows = [1..sr_next_audit_seq s]" using assms(1) by (auto simp: outbox_ok_def)
  then have "distinct (map ob_seq ?rows)" by simp
  moreover have "r \<in> set ?rows" "q \<in> set ?rows" using assms(2-4) by (auto simp: rows_of_def row_key_def)
  ultimately show ?thesis using assms(4) by (auto simp: distinct_map row_key_def dest: inj_onD)
qed

lemma events_mark: "event_of ` set (audit_outbox (mark_rows t ids d)) = event_of ` set (audit_outbox d)"
  by (simp add: mark_rows_def) (rule image_update_where, simp add: event_of_def)

lemma events_fail: "event_of ` set (audit_outbox (fail_rows ids d)) = event_of ` set (audit_outbox d)"
  by (simp add: fail_rows_def) (rule image_update_where, simp add: event_of_def)

lemma from_outbox_alt: "from_outbox row_of S d \<longleftrightarrow> set S \<subseteq> row_of ` event_of ` set (audit_outbox d)"
  by (auto simp: from_outbox_def)

lemma pending_fresh_ids:
  "ae_id ` set (map event_of (fresh key S rows)) \<subseteq> ob_id ` set rows"
  by (auto simp: fresh_def event_of_def)

context audit_sink
begin

text \<open>A sink row with the key of an outbox row is the row of that entry.\<close>

lemma key_determines:
  assumes "outbox_ok d" "from_outbox row_of S d" "r \<in> set (audit_outbox d)" "row_key r \<in> key ` set S"
  shows "row_of (event_of r) \<in> set S"
proof -
  from assms(4) obtain q where q: "q \<in> set S" "key q = row_key r" by auto
  with assms(2) obtain r' where r': "r' \<in> set (audit_outbox d)" "q = row_of (event_of r')"
    by (auto simp: from_outbox_def)
  have "row_key r' = row_key r" using q r' key_row_of by (auto simp: event_key_def event_of_def row_key_def)
  with row_key_inj [OF assms(1)] r' assms(3) q show ?thesis by metis
qed

text \<open>The rows a delivery marks are in the sink when it marks them.\<close>

lemma no_loss_mark:
  assumes ok: "outbox_ok d" and nl: "no_loss row_of S d" and fo: "from_outbox row_of S d"
  shows "no_loss row_of (S @ map row_of (map event_of (fresh key S (pending_rows sid d))))
           (mark_rows t (map ob_id (pending_rows sid d)) d)"
  unfolding no_loss_def
proof (intro ballI impI)
  let ?S = "S @ map row_of (map event_of (fresh key S (pending_rows sid d)))"
  fix r assume "r \<in> set (audit_outbox (mark_rows t (map ob_id (pending_rows sid d)) d))"
    and del: "ob_state r = DDelivered"
  then obtain q where q: "q \<in> set (audit_outbox d)" "event_of r = event_of q"
    "ob_state r = (if ob_id q \<in> set (map ob_id (pending_rows sid d)) then DDelivered else ob_state q)"
    by (elim mark_rows_row) auto
  show "row_of (event_of r) \<in> set ?S"
  proof (cases "ob_state q = DDelivered")
    case True
    with nl q show ?thesis by (auto simp: no_loss_def)
  next
    case False
    then have p: "q \<in> set (pending_rows sid d)"
      using q del mem_pending_ids [OF ok q(1), of sid] by (auto simp: set_pending split: if_splits)
    show ?thesis
    proof (cases "0 < ob_attempts q \<and> row_key q \<in> key ` set S")
      case True
      with key_determines [OF ok fo q(1)] q(2) show ?thesis by simp
    next
      case False
      with p q(2) show ?thesis by (auto simp: fresh_def)
    qed
  qed
qed

lemma fresh_from_outbox:
  "row_of ` set (take k (map event_of (fresh key S (pending_rows sid d)))) \<subseteq> row_of ` event_of ` set (audit_outbox d)"
  by (auto simp: fresh_def set_pending dest!: in_set_takeD)

text \<open>Delivery keeps the audit invariant, however it ends.\<close>

lemma deliverSession_inv:
  assumes "deliverSession has_event insert_all sid w = (r, w')" and inv: "audit_inv row_of (stored w) (db w)"
  shows "audit_inv row_of (stored w') (db w')"
proof -
  let ?rows = "pending_rows sid (db w)" and ?S = "stored w"
  let ?m = "mark_rows (now w) (map ob_id ?rows) (db w)" and ?new = "map event_of (fresh key ?S ?rows)"
  have ok: "outbox_ok (db w)" "prefix_ok (db w)" "no_loss row_of ?S (db w)" "from_outbox row_of ?S (db w)"
    using inv by (simp_all add: audit_inv_def)
  have marked: "audit_inv row_of (?S @ map row_of ?new) ?m"
    using ok no_loss_mark [OF ok(1,3,4)] prefix_ok_mark [OF ok(1,2)] outbox_ok_mark [OF ok(1)]
      fresh_from_outbox [of "length ?new" ?S sid "db w"]
    by (simp add: audit_inv_def from_outbox_alt events_mark image_image)
  have plain: "audit_inv row_of (?S @ map row_of (take k ?new)) (db w)" for k
    using ok fresh_from_outbox [of k ?S sid "db w"]
    by (auto simp: audit_inv_def from_outbox_alt intro: no_loss_mono)
  from assms(1) show ?thesis
  proof (cases rule: deliverSession_spec)
    case delivered
    with marked show ?thesis by simp
  next
    case (failed k e ids d)
    have "audit_inv row_of (stored w') d"
      using failed(5) plain [of k] marked failed(2) by auto
    with failed(6) show ?thesis
      by (auto simp: audit_inv_def from_outbox_alt events_fail outbox_ok_fail prefix_ok_fail
          no_loss_fail [OF _ order_refl])
  qed
qed

lemma distinct_pending: "outbox_ok d \<Longrightarrow> distinct (map row_key (pending_rows sid d))"
proof -
  assume ok: "outbox_ok d"
  have "distinct (audit_outbox d)" using ok by (auto simp: outbox_ok_def distinct_map)
  then have "distinct (pending_rows sid d)" by (simp add: pending_rows_def)
  moreover have "inj_on row_key (set (pending_rows sid d))"
    using row_key_inj [OF ok] by (auto simp: inj_on_def set_pending)
  ultimately show ?thesis by (simp add: distinct_map)
qed

lemma keys_of_new: "map key (map row_of (take k (map event_of rows))) = map row_key (take k rows)"
  by (simp add: key_row_of take_map event_key_def event_of_def row_key_def)

lemma distinct_take_map: "distinct (map f xs) \<Longrightarrow> distinct (map f (take k xs))"
  by (simp add: take_map [symmetric])

lemma at_most_once_new:
  assumes ok: "outbox_ok d" and once: "at_most_once key S d"
  shows "distinct (map key (S @ map row_of (take k (map event_of (fresh key S (pending_rows sid d))))))"
proof -
  let ?f = "fresh key S (pending_rows sid d)"
  have "distinct (map row_key ?f)"
    using distinct_map_filterI [OF distinct_pending [OF ok]] by (simp add: fresh_def)
  moreover have "row_key r \<notin> key ` set S" if "r \<in> set ?f" for r
    using that once by (auto simp: fresh_def at_most_once_def set_pending)
  moreover have "distinct (map key S)" using once by (simp add: at_most_once_def)
  ultimately show ?thesis
    unfolding map_append keys_of_new distinct_append
    by (force simp: distinct_take_map dest!: in_set_takeD)
qed

lemma new_keys_sid:
  "x \<in> set (take k (map event_of (fresh key S (pending_rows sid d)))) \<Longrightarrow>
     \<exists>r \<in> set (audit_outbox d). key (row_of x) = row_key r \<and> ae_id x = ob_id r \<and> ob_session_id r = sid"
  by (drule in_set_takeD) (auto simp: fresh_def set_pending key_row_of event_key_def event_of_def row_key_def intro: bexI)

lemma mark_rows_pending:
  assumes "outbox_ok d" "q \<in> set (audit_outbox (mark_rows t (map ob_id (pending_rows sid d)) d))" "ob_state q = DPending"
  shows "q \<in> set (audit_outbox d) \<and> ob_session_id q \<noteq> sid"
  using assms(2,3) mem_pending_ids [OF assms(1), of q sid]
  by (auto simp: mark_rows_def update_where_def split: if_splits)

lemma once_keys:
  assumes "at_most_once key S d"
  shows "key ` set (S @ map row_of (take k (map event_of (fresh key S (pending_rows sid d))))) \<subseteq> row_key ` set (audit_outbox d)"
proof
  fix y assume "y \<in> key ` set (S @ map row_of (take k (map event_of (fresh key S (pending_rows sid d)))))"
  then consider "y \<in> key ` set S"
    | x where "x \<in> set (take k (map event_of (fresh key S (pending_rows sid d))))" "y = key (row_of x)" by auto
  then show "y \<in> row_key ` set (audit_outbox d)"
    by cases (use assms new_keys_sid in \<open>fastforce simp: at_most_once_def\<close>)+
qed

text \<open>After a delivery every pending row that may be in the sink has been counted as attempted.\<close>

lemma once_marked:
  assumes "outbox_ok d" "at_most_once key S d"
    and "q \<in> set (audit_outbox (mark_rows t (map ob_id (pending_rows sid d)) d))" "ob_state q = DPending"
    and "row_key q \<in> key ` set (S @ map row_of (take k (map event_of (fresh key S (pending_rows sid d)))))"
  shows "0 < ob_attempts q"
  using mark_rows_pending [OF assms(1,3,4)] assms(2,4,5)
  by (auto simp: at_most_once_def row_key_def dest!: new_keys_sid)

lemma once_failed:
  fixes sid :: string
  assumes ok: "outbox_ok d" and once: "at_most_once key S d"
  defines "new \<equiv> map event_of (fresh key S (pending_rows sid d))"
  assumes ids: "ae_id ` set (take k new) \<subseteq> set ids"
    and q: "q \<in> set (audit_outbox (fail_rows ids d))" "ob_state q = DPending"
    and stored: "row_key q \<in> key ` set (S @ map row_of (take k new))"
  shows "0 < ob_attempts q"
  using q(1)
proof (rule fail_rows_row)
  fix p assume p: "p \<in> set (audit_outbox d)" "row_key q = row_key p" "ob_state q = ob_state p"
    "ob_attempts q = (if ob_id p \<in> set ids then ob_attempts p + 1 else ob_attempts p)"
  have "0 \<le> ob_attempts p" using p(1) ok by (auto simp: outbox_ok_def)
  moreover have "ob_id p \<in> set ids \<or> 0 < ob_attempts p"
  proof (cases "row_key p \<in> key ` set S")
    case True
    with once p(1,3) q(2) show ?thesis by (auto simp: at_most_once_def)
  next
    case False
    with stored p(2) obtain x where x: "x \<in> set (take k new)" "row_key p = key (row_of x)" by auto
    with new_keys_sid [OF x(1) [unfolded new_def]] row_key_inj [OF ok] p(1) have "ae_id x = ob_id p" by metis
    with ids x(1) show ?thesis by (metis image_eqI subsetD)
  qed
  ultimately show ?thesis using p(4) by auto
qed

text \<open>
  A delivery that returns or reports \<^verbatim>\<open>AUDIT_UNAVAILABLE\<close> keeps every event at most once in the
  sink; only when recording the failure itself fails (a foreign error) can a later attempt repeat
  an event.
\<close>

lemma deliverSession_once:
  assumes run: "deliverSession has_event insert_all sid w = (r, w')" and ok: "outbox_ok (db w)"
    and once: "at_most_once key (stored w) (db w)" and reported: "r \<noteq> Inl ForeignError"
  shows "at_most_once key (stored w') (db w')"
proof -
  let ?rows = "pending_rows sid (db w)" and ?S = "stored w"
  let ?m = "mark_rows (now w) (map ob_id ?rows) (db w)" and ?new = "map event_of (fresh key ?S ?rows)"
  note new = at_most_once_new [OF ok once, of _ sid] and keys = once_keys [OF once, of _ sid]
  from run show ?thesis
  proof (cases rule: deliverSession_spec)
    case delivered
    then have st: "stored w' = ?S @ map row_of (take (length ?new) ?new)" by simp
    show ?thesis
      using new [of "length ?new"] keys [of "length ?new"] once_marked [OF ok once]
      unfolding at_most_once_def st delivered(2) row_keys_mark by blast
  next
    case (failed k e ids d)
    then have db': "db w' = fail_rows ids d" using reported by auto
    have att: "0 < ob_attempts q" if "q \<in> set (audit_outbox (fail_rows ids d))" "ob_state q = DPending"
        "row_key q \<in> key ` set (?S @ map row_of (take k ?new))" for q
      using failed(5)
    proof
      assume "d = db w"
      then show ?thesis using once_failed [OF ok once failed(3)] that by simp
    next
      assume m: "d = ?m \<and> length ?new \<le> k"
      from that(1) show ?thesis
      proof (rule fail_rows_row)
        fix p assume p: "p \<in> set (audit_outbox d)" "row_key q = row_key p" "ob_state q = ob_state p"
          "ob_attempts q = (if ob_id p \<in> set ids then ob_attempts p + 1 else ob_attempts p)"
        have "0 < ob_attempts p"
          by (rule once_marked [OF ok once, of p "now w" sid k]) (use p m that(2,3) in \<open>simp_all only:\<close>)
        then show ?thesis using p(4) by simp
      qed
    qed
    have rk: "row_key ` set (audit_outbox d) = row_key ` set (audit_outbox (db w))"
      using failed(5) by (elim disjE conjE) (simp_all add: row_keys_mark)
    show ?thesis
      unfolding at_most_once_def
    proof (intro conjI ballI impI)
      show "distinct (map key (stored w'))" using new [of k] by (simp only: failed(2))
      show "key ` set (stored w') \<subseteq> row_key ` set (audit_outbox (db w'))"
        using keys [of k] by (simp only: failed(2) db' row_keys_fail rk)
      show "0 < ob_attempts q" if "q \<in> set (audit_outbox (db w'))" "ob_state q = DPending"
          "row_key q \<in> key ` set (stored w')" for q
        using att that by (simp only: db' failed(2))
    qed
  qed
qed

end

end
