(* ===== verification/Audit_Trail.thy ===== *)
theory Audit_Trail
  imports Audit_Outbox
begin

text \<open>
  What the audit trail of \<^verbatim>\<open>packages/audit/src/outbox.ts\<close> guarantees. Enqueueing and delivery keep the
  delivery contract of the theory before; the ClickHouse client is shown to be a sink; and the
  properties of the trail follow for every run: no gap, no loss, at most one copy, durability before
  execution, and recovery.
\<close>

section \<open>Enqueueing keeps the contract\<close>

definition new_row :: "string \<Rightarrow> audit_input \<Rightarrow> audit_payload \<Rightarrow> int \<Rightarrow> outbox_row" where
  "new_row eventId i p n = \<lparr>ob_id = eventId, ob_session_id = ai_sessionId i, ob_seq = n, ob_payload = p,
     ob_state = DPending, ob_attempts = 0, ob_last_error = None, ob_delivered_at = None\<rparr>"

definition append_row :: "string \<Rightarrow> audit_input \<Rightarrow> audit_payload \<Rightarrow> int \<Rightarrow> db \<Rightarrow> db" where
  "append_row eventId i p n d = d\<lparr>
     sessions := update_where (\<lambda>s. sr_id s = ai_sessionId i) (allocate_row i) (sessions d),
     audit_outbox := audit_outbox d @ [new_row eventId i p n]\<rparr>"

lemma allocate_stmt_Inr:
  assumes "allocate_stmt eventId i p d = Inr (x, d')"
  obtains (unknown) "x = None" "d' = d" "ai_sessionId i \<notin> sr_id ` set (sessions d)"
  | (appended) s where "s \<in> set (sessions d)" "sr_id s = ai_sessionId i" "x = Some (sr_next_audit_seq s + 1)"
      "d' = append_row eventId i p (sr_next_audit_seq s + 1) d" "eventId \<notin> ob_id ` set (audit_outbox d)"
proof (cases "List.find (\<lambda>s. sr_id s = ai_sessionId i) (sessions d)")
  case None
  then have "ai_sessionId i \<notin> sr_id ` set (sessions d)" by (auto simp: find_None_iff)
  with assms unknown None show thesis by (simp add: allocate_stmt_def)
next
  case (Some s)
  from find_Some_iff_set [OF this] assms Some appended [of s] show thesis
    by (auto simp: allocate_stmt_def allocate_row_def append_row_def new_row_def Let_def split: if_splits)
qed

lemma outbox_ok_append:
  assumes ok: "outbox_ok d" and s: "s \<in> set (sessions d)" "sr_id s = ai_sessionId i"
    and new: "eventId \<notin> ob_id ` set (audit_outbox d)"
  shows "outbox_ok (append_row eventId i p (sr_next_audit_seq s + 1) d)"
proof -
  let ?n = "sr_next_audit_seq s + 1" and ?sid = "ai_sessionId i"
  let ?d = "append_row eventId i p ?n d"
  define g where "g = (\<lambda>s. if sr_id s = ?sid then allocate_row i s else s)"
  have g: "sr_id (g t) = sr_id t" "sr_next_audit_seq (g t) = sr_next_audit_seq t + (if sr_id t = ?sid then 1 else 0)" for t
    by (simp_all add: g_def allocate_row_def)
  have ss: "sessions ?d = map g (sessions d)" by (simp add: append_row_def update_where_def g_def)
  have uniq: "t = s" if "t \<in> set (sessions d)" "sr_id t = ?sid" for t
  proof -
    have "inj_on sr_id (set (sessions d))" using ok by (simp add: outbox_ok_def distinct_map)
    then show ?thesis using s that by (metis inj_onD)
  qed
  have n0: "0 \<le> sr_next_audit_seq s" using ok s by (auto simp: outbox_ok_def)
  have "map ob_seq (rows_of (sr_id t) ?d) = [1..sr_next_audit_seq (g t)]" if t: "t \<in> set (sessions d)" for t
  proof -
    have old: "map ob_seq (rows_of (sr_id t) d) = [1..sr_next_audit_seq t]" using ok t by (auto simp: outbox_ok_def)
    show ?thesis
    proof (cases "sr_id t = ?sid")
      case True
      with uniq [OF t] old n0 upto_rec2 [of 1 ?n] show ?thesis
        by (simp add: rows_of_def append_row_def new_row_def g)
    next
      case False
      with old show ?thesis by (simp add: rows_of_def append_row_def new_row_def g)
    qed
  qed
  moreover have "sr_id \<circ> g = sr_id" by (simp add: fun_eq_iff g)
  moreover have "sr_id ` g ` set (sessions d) = sr_id ` set (sessions d)" by (simp add: image_image g)
  moreover have "0 \<le> sr_next_audit_seq (g t)" if "t \<in> set (sessions d)" for t
    using ok that by (auto simp: outbox_ok_def g)
  moreover have "audit_outbox ?d = audit_outbox d @ [new_row eventId i p ?n]" by (simp add: append_row_def)
  moreover have "ai_sessionId i \<in> sr_id ` set (sessions d)" using s by force
  ultimately show ?thesis
    using ok new unfolding outbox_ok_def ss by (simp add: new_row_def g(1))
qed

lemma outbox_seq_bound:
  assumes "outbox_ok d" "s \<in> set (sessions d)" "r \<in> set (audit_outbox d)" "ob_session_id r = sr_id s"
  shows "1 \<le> ob_seq r \<and> ob_seq r \<le> sr_next_audit_seq s"
proof -
  have "ob_seq r \<in> set (map ob_seq (rows_of (sr_id s) d))" using assms(3,4) by (auto simp: rows_of_def)
  moreover have "map ob_seq (rows_of (sr_id s) d) = [1..sr_next_audit_seq s]"
    using assms(1,2) by (auto simp: outbox_ok_def)
  ultimately show ?thesis by simp
qed

lemma audit_inv_append:
  assumes inv: "audit_inv row_of S d" and s: "s \<in> set (sessions d)" "sr_id s = ai_sessionId i"
    and new: "eventId \<notin> ob_id ` set (audit_outbox d)"
  shows "audit_inv row_of S (append_row eventId i p (sr_next_audit_seq s + 1) d)"
proof -
  have ok: "outbox_ok d" "prefix_ok d" "no_loss row_of S d" "from_outbox row_of S d"
    using inv by (simp_all add: audit_inv_def)
  have ob: "audit_outbox (append_row eventId i p n d) = audit_outbox d @ [new_row eventId i p n]" for n
    by (simp add: append_row_def)
  have "\<not> sr_next_audit_seq s + 1 < ob_seq r" if "r \<in> set (audit_outbox d)" "ob_session_id r = ai_sessionId i" for r
    using outbox_seq_bound [OF ok(1) s(1) that(1)] that(2) s(2) by simp
  then have "prefix_ok (append_row eventId i p (sr_next_audit_seq s + 1) d)"
    using ok(2) by (auto simp: prefix_ok_def ob new_row_def)
  then show ?thesis
    using outbox_ok_append [OF ok(1) s new] ok(3,4)
    by (auto simp: audit_inv_def no_loss_def from_outbox_def ob new_row_def)
qed

lemma at_most_once_append:
  assumes ok: "outbox_ok d" and once: "at_most_once key S d" and s: "s \<in> set (sessions d)" "sr_id s = ai_sessionId i"
  shows "at_most_once key S (append_row eventId i p (sr_next_audit_seq s + 1) d)"
proof -
  have "(ai_sessionId i, sr_next_audit_seq s + 1) \<notin> row_key ` set (audit_outbox d)"
    using outbox_seq_bound [OF ok s(1)] s(2) by (force simp: row_key_def)
  with once show ?thesis
    by (auto simp: at_most_once_def append_row_def new_row_def row_key_def)
qed

lemma uuidV7_run: "\<exists>eventId n. uuidV7 w = (Inr eventId, w\<lparr>draws := n\<rparr>)"
  by (auto simp: uuidV7_def randomBytes_def)

text \<open>What a call of \<^verbatim>\<open>enqueue\<close> can do: nothing to the database, or exactly one new pending row.\<close>

lemma allocateOutboxEvent_cases:
  assumes "allocateOutboxEvent i p w = (r, w')"
  obtains (nothing) e where "r = Inl e" "db w' = db w" "sink w' = sink w" "now w' = now w"
  | (appended) s eventId where "s \<in> set (sessions (db w))" "sr_id s = ai_sessionId i"
      "eventId \<notin> ob_id ` set (audit_outbox (db w))" "sink w' = sink w" "now w' = now w"
      "db w' = append_row eventId i p (sr_next_audit_seq s + 1) (db w)"
      "\<And>e. r = Inr e \<Longrightarrow> e = event_of (new_row eventId i p (sr_next_audit_seq s + 1))"
proof -
  obtain eventId n where u: "uuidV7 w = (Inr eventId, w\<lparr>draws := n\<rparr>)" using uuidV7_run by blast
  let ?w = "w\<lparr>draws := n\<rparr>"
  let ?k = "\<lambda>inserted. case inserted of None \<Rightarrow> throw (Caisson SESSION_NOT_FOUND ''cannot audit an unknown session'')
      | Some n \<Rightarrow> ret \<lparr>ae_id = eventId, ae_session_id = ai_sessionId i, ae_seq = n, ae_payload = p\<rparr>"
  have "bnd (query (allocate_stmt eventId i p)) ?k ?w = (r, w')"
    using assms u by (simp add: allocateOutboxEvent_def bnd_def [of uuidV7])
  then show thesis
  proof (cases rule: bndE)
    case (err e)
    from err(1) show thesis
    proof (cases rule: query_cases)
      case (failed e')
      show thesis by (rule nothing [of e']) (use failed err in \<open>simp_all add: same_env_def\<close>)
    next
      case (applied x d)
      from applied(1) show thesis
      proof (cases rule: allocate_stmt_Inr)
        case unknown
        show thesis by (rule nothing [of e]) (use unknown applied err in \<open>simp_all add: same_env_def\<close>)
      next
        case (appended s)
        show thesis by (rule that(2) [of s eventId]) (use appended applied err in \<open>simp_all add: same_env_def\<close>)
      qed
    qed
  next
    case (ok x w2)
    from ok(1) show thesis
    proof (cases rule: query_cases)
      case (applied y d)
      from applied(1) show thesis
      proof (cases rule: allocate_stmt_Inr)
        case unknown
        show thesis by (rule nothing) (use unknown applied ok in \<open>auto simp: same_env_def throw_def\<close>)
      next
        case (appended s)
        show thesis
          by (rule that(2) [of s eventId])
            (use appended applied ok in \<open>auto simp: same_env_def ret_def event_of_def new_row_def\<close>)
      qed
    qed simp
  qed
qed

lemma allocateOutboxEvent_sink: "allocateOutboxEvent i p w = (r, w') \<Longrightarrow> sink w' = sink w"
  by (elim allocateOutboxEvent_cases) simp_all

lemma build_now_run: "build_now i w = (buildAuditPayload (now w) i, w)"
  by (simp add: build_now_def bnd_def gets_def of_result_def)

lemma enqueue_cases:
  assumes "enqueue i w = (r, w')"
  obtains (nothing) e where "r = Inl e" "db w' = db w" "sink w' = sink w"
  | (appended) s eventId p where "s \<in> set (sessions (db w))" "sr_id s = ai_sessionId i"
      "eventId \<notin> ob_id ` set (audit_outbox (db w))" "sink w' = sink w"
      "db w' = append_row eventId i p (sr_next_audit_seq s + 1) (db w)" "buildAuditPayload (now w) i = Inr p"
      "\<And>e. r = Inr e \<Longrightarrow> e = event_of (new_row eventId i p (sr_next_audit_seq s + 1))"
proof (cases "buildAuditPayload (now w) i")
  case (Inl e)
  show thesis by (rule nothing [of e]) (use assms Inl in \<open>auto simp: enqueue_def bnd_def build_now_run\<close>)
next
  case (Inr p)
  then have "transaction (allocateOutboxEvent i p) w = (r, w')"
    using assms by (simp add: enqueue_def bnd_def build_now_run)
  then show thesis
  proof (cases rule: transaction_cases)
    case not_begun
    show thesis by (rule nothing) (use not_begun in simp_all)
  next
    case (aborted e w2)
    show thesis by (rule nothing) (use aborted allocateOutboxEvent_sink [OF aborted(1)] in simp_all)
  next
    case (rolled_back x w2)
    show thesis by (rule nothing) (use rolled_back allocateOutboxEvent_sink [OF rolled_back(1)] in simp_all)
  next
    case (committed x w2)
    from committed(1) show thesis
    proof (cases rule: allocateOutboxEvent_cases)
      case (appended s eventId)
      show thesis
        by (rule that(2) [of s eventId p]) (use appended committed Inr in \<open>auto\<close>)
    qed simp
  qed
qed

lemma enqueue_inv:
  assumes "enqueue i w = (r, w')" and "audit_inv row_of S (db w)"
  shows "audit_inv row_of S (db w')"
  using assms(1) by (cases rule: enqueue_cases) (use assms(2) in \<open>simp_all add: audit_inv_append\<close>)

lemma enqueue_once:
  assumes "enqueue i w = (r, w')" and "outbox_ok (db w)" and "at_most_once key S (db w)"
  shows "at_most_once key S (db w')"
  using assms(1) by (cases rule: enqueue_cases) (use assms(2,3) in \<open>simp_all add: at_most_once_append\<close>)

context audit_sink
begin

text \<open>When delivery returns, the session has nothing pending, and all its rows are in the sink.\<close>

lemma deliverSession_complete:
  assumes run: "deliverSession has_event insert_all sid w = (Inr (), w')" and inv: "audit_inv row_of (stored w) (db w)"
  shows "pending_rows sid (db w') = []"
    and "\<And>r. r \<in> set (audit_outbox (db w)) \<Longrightarrow> ob_session_id r = sid \<Longrightarrow> row_of (event_of r) \<in> set (stored w')"
proof -
  let ?m = "mark_rows (now w) (map ob_id (pending_rows sid (db w))) (db w)"
  have ok: "outbox_ok (db w)" using inv by (simp add: audit_inv_def)
  from run have db': "db w' = ?m" by (cases rule: deliverSession_spec) simp_all
  have "r \<notin> set (pending_rows sid ?m)" for r
    using mark_rows_pending [OF ok, of r] by (auto simp: set_pending)
  then show none: "pending_rows sid (db w') = []" by (metis db' list.set_intros(1) neq_Nil_conv)
  fix r assume r: "r \<in> set (audit_outbox (db w))" "ob_session_id r = sid"
  have "event_of r \<in> event_of ` set (audit_outbox ?m)" using r(1) by (simp add: events_mark)
  then obtain q where q: "q \<in> set (audit_outbox (db w'))" "event_of q = event_of r" by (auto simp: db')
  have "ob_session_id q = sid" using q(2) r(2) by (simp add: event_of_def)
  with q(1) none have "ob_state q = DDelivered" using set_pending [of sid "db w'"] by (cases "ob_state q") auto
  with deliverSession_inv [OF run inv] q show "row_of (event_of r) \<in> set (stored w')"
    by (auto simp: audit_inv_def no_loss_def)
qed

lemma persistBeforeExecution_durable:
  assumes run: "persistBeforeExecution has_event insert_all i w = (Inr e, w')" and inv: "audit_inv row_of (stored w) (db w)"
  shows "row_of e \<in> set (stored w') \<and> pending_rows (ai_sessionId i) (db w') = [] \<and> ae_session_id e = ai_sessionId i
       \<and> audit_inv row_of (stored w') (db w')"
proof -
  from run obtain w1 where e: "enqueue i w = (Inr e, w1)"
    and d: "deliverSession has_event insert_all (ae_session_id e) w1 = (Inr (), w')"
    unfolding persistBeforeExecution_def by (elim bndE) (auto simp: ret_def)
  from e have sid: "ae_session_id e = ai_sessionId i"
    and row: "\<exists>r \<in> set (audit_outbox (db w1)). event_of r = e \<and> ob_session_id r = ai_sessionId i"
    and sk: "sink w1 = sink w"
    by (cases rule: enqueue_cases, auto simp: event_of_def new_row_def append_row_def)+
  have inv1: "audit_inv row_of (stored w1) (db w1)"
    using enqueue_inv [OF e inv] stored_sink [OF sk] by simp
  show ?thesis
    using deliverSession_complete [OF d inv1] deliverSession_inv [OF d inv1] row sid by auto
qed

end

section \<open>Progress\<close>

text \<open>Nothing fails any more.\<close>

definition all_up :: "'z world_scheme \<Rightarrow> bool" where
  "all_up w \<longleftrightarrow> (\<forall>n. fault w n = Ok)"

lemma query_up: "all_up w \<Longrightarrow> f (db w) = Inr (x, d) \<Longrightarrow> query f w = (Inr x, w\<lparr>calls := Suc (calls w), db := d\<rparr>)"
  by (simp add: query_def next_outcome_def all_up_def)

lemma transaction_up:
  assumes "all_up w" and "body (w\<lparr>calls := Suc (calls w)\<rparr>) = (Inr x, w')" and "all_up w'"
  shows "transaction body w = (Inr x, w'\<lparr>calls := Suc (calls w')\<rparr>)"
  using assms by (simp add: transaction_def next_outcome_def all_up_def)

text \<open>Every pending row can be accepted by the sink, and its counter is not at its limit.\<close>

definition deliverable :: "(string \<times> int \<Rightarrow> bool) \<Rightarrow> db \<Rightarrow> bool" where
  "deliverable valid d \<longleftrightarrow> (\<forall>r \<in> set (audit_outbox d). ob_state r = DPending \<longrightarrow> valid (row_key r) \<and> int4 (ob_attempts r + 1))"

locale live_audit_sink = audit_sink +
  fixes valid :: "string \<times> int \<Rightarrow> bool"
  assumes has_event_up: "all_up w \<Longrightarrow> valid (s, n) \<Longrightarrow> \<exists>b w'. has_event s n w = (Inr b, w') \<and> all_up w'"
    and insert_all_up: "all_up w \<Longrightarrow> (\<And>e. e \<in> set es \<Longrightarrow> valid (event_key e)) \<Longrightarrow>
          \<exists>w'. insert_all es w = (Inr (), w') \<and> all_up w'"
begin

lemma collect_up:
  assumes "all_up w" and "\<And>r. r \<in> set rows \<Longrightarrow> valid (row_key r)"
  shows "\<exists>es w'. collect has_event rows acc w = (Inr es, w') \<and> all_up w'"
  using assms
proof (induction rows arbitrary: acc w)
  case Nil
  then show ?case by (simp add: ret_def)
next
  case (Cons row rows)
  let ?w = "w\<lparr>activeEventIds := [ob_id row]\<rparr>"
  let ?look = "if 0 < ob_attempts row then has_event (ob_session_id row) (ob_seq row) else ret False"
  have up: "all_up ?w" using Cons.prems(1) by (simp add: all_up_def)
  have "valid (ob_session_id row, ob_seq row)" using Cons.prems(2) [of row] by (simp add: row_key_def)
  from has_event_up [OF up this] up have "\<exists>b w2. ?look ?w = (Inr b, w2) \<and> all_up w2"
    by (cases "0 < ob_attempts row") (auto simp: ret_def)
  then obtain b w2 where "?look ?w = (Inr b, w2)" "all_up w2" by blast
  with Cons.IH [of w2 "if b then acc else acc @ [event_of row]"] Cons.prems(2) show ?case
    by (auto simp: bnd_def)
qed

lemma insert_up:
  assumes "all_up w" and "\<And>e. e \<in> set es \<Longrightarrow> valid (event_key e)"
  shows "\<exists>w'. (if es \<noteq> [] then seq (set_active (map ae_id es)) (insert_all es) else ret ()) w = (Inr (), w')
      \<and> all_up w' \<and> db w' = db w"
proof (cases "es = []")
  case False
  let ?w = "w\<lparr>activeEventIds := map ae_id es\<rparr>"
  have "all_up ?w" using assms(1) by (simp add: all_up_def)
  from insert_all_up [OF this assms(2)] obtain w' where i: "insert_all es ?w = (Inr (), w')" "all_up w'" by blast
  with False insert_all_appends [OF i(1)] show ?thesis by (auto simp: quiet_def)
qed (use assms(1) in \<open>simp add: ret_def\<close>)

lemma mark_up:
  assumes "all_up w" and "\<And>r. r \<in> set (audit_outbox (db w)) \<Longrightarrow> ob_id r \<in> set ids \<Longrightarrow> int4 (ob_attempts r + 1)"
  shows "\<exists>w'. seq (set_active ids) (bnd (gets now) (\<lambda>t. query (mark_delivered t ids))) w = (Inr (), w') \<and> all_up w'"
proof -
  let ?w = "w\<lparr>activeEventIds := ids\<rparr>"
  have up: "all_up ?w" using assms(1) by (simp add: all_up_def)
  obtain d where "mark_delivered (now w) ids (db ?w) = Inr ((), d)"
    using assms(2) by (fastforce simp: mark_delivered_def bump_attempts_def)
  with query_up [OF up, of "mark_delivered (now w) ids" "()" d] assms(1)
  show ?thesis by (simp add: bnd_def gets_def all_up_def)
qed

lemma deliver_body_up:
  assumes up: "all_up w" and ok: "outbox_ok (db w)" and dl: "deliverable valid (db w)"
  shows "\<exists>w'. deliver_body has_event insert_all sid w = (Inr (), w') \<and> all_up w'"
proof -
  define rows where "rows = pending_rows sid (db w)"
  define w2 where "w2 = w\<lparr>calls := Suc (calls w)\<rparr>"
  have w2: "all_up w2" "db w2 = db w" using up by (simp_all add: w2_def all_up_def)
  have rows: "valid (row_key r) \<and> int4 (ob_attempts r + 1)" if "r \<in> set rows" for r
    using that dl by (auto simp: rows_def set_pending deliverable_def)
  have sel: "query (select (pending_rows sid)) w = (Inr rows, w2)"
    using query_up [OF up, of "select (pending_rows sid)" rows "db w"] by (simp add: select_def rows_def w2_def)
  obtain es w3 where col: "collect has_event rows [] w2 = (Inr es, w3)" "all_up w3"
    using collect_up [OF w2(1), of rows] rows by blast
  have es: "es = map event_of (fresh key (stored w2) rows)" and db3: "db w3 = db w"
    using collect_spec [OF col(1)] w2 by auto
  have "valid (event_key e)" if "e \<in> set es" for e
    using that rows by (auto simp: es fresh_def event_key_def event_of_def row_key_def)
  from insert_up [OF col(2) this] obtain w4 where ins:
    "(if es \<noteq> [] then seq (set_active (map ae_id es)) (insert_all es) else ret ()) w3 = (Inr (), w4)"
    "all_up w4" "db w4 = db w" using db3 by auto
  have "int4 (ob_attempts r + 1)" if "r \<in> set (audit_outbox (db w4))" "ob_id r \<in> set (map ob_id rows)" for r
    using that mem_pending_ids [OF ok, of r sid] rows by (auto simp: rows_def set_pending ins(3))
  from mark_up [OF ins(2), of "map ob_id rows"] this
  have "\<exists>w5. (if rows \<noteq> [] then seq (set_active (map ob_id rows)) (bnd (gets now) (\<lambda>t. query (mark_delivered t (map ob_id rows))))
      else ret ()) w4 = (Inr (), w5) \<and> all_up w5"
    using ins(2) by (cases "rows = []") (simp_all add: ret_def)
  then show ?thesis
    using sel col(1) ins(1) by (auto simp: deliver_body_def bnd_def)
qed

lemma deliverSession_up:
  assumes "all_up w" and "outbox_ok (db w)" and "deliverable valid (db w)"
  shows "\<exists>w'. deliverSession has_event insert_all sid w = (Inr (), w') \<and> all_up w'"
proof -
  let ?w0 = "w\<lparr>activeEventIds := []\<rparr>"
  let ?w1 = "?w0\<lparr>calls := Suc (calls ?w0)\<rparr>"
  have "all_up ?w0" "all_up ?w1" using assms(1) by (simp_all add: all_up_def)
  with deliver_body_up [of ?w1 sid] assms(2,3) transaction_up [of ?w0 "deliver_body has_event insert_all sid" "()"]
  show ?thesis by (auto simp: deliverSession_def try_catch_def all_up_def)
qed

lemma deliverable_mark:
  "outbox_ok d \<Longrightarrow> deliverable valid d \<Longrightarrow> deliverable valid (mark_rows t (map ob_id (pending_rows sid d)) d)"
  using mark_rows_pending unfolding deliverable_def by blast

text \<open>Once nothing fails, one pass of the drainer leaves nothing pending.\<close>

lemma drain_sessions_up:
  assumes "all_up w" and "audit_inv row_of (stored w) (db w)" and "deliverable valid (db w)"
    and "\<And>r. r \<in> set (audit_outbox (db w)) \<Longrightarrow> ob_state r = DPending \<Longrightarrow> ob_session_id r \<in> set sids"
  shows "\<exists>w'. for_each sids (deliverSession has_event insert_all) w = (Inr (), w')
      \<and> audit_inv row_of (stored w') (db w') \<and> (\<forall>r \<in> set (audit_outbox (db w')). ob_state r = DDelivered)"
  using assms
proof (induction sids arbitrary: w)
  case Nil
  then have "ob_state r = DDelivered" if "r \<in> set (audit_outbox (db w))" for r
    using that by (cases "ob_state r") auto
  with Nil show ?case by (simp add: ret_def)
next
  case (Cons sid sids)
  have ok: "outbox_ok (db w)" using Cons.prems(2) by (simp add: audit_inv_def)
  from deliverSession_up [OF Cons.prems(1) ok Cons.prems(3)] obtain w1
    where d: "deliverSession has_event insert_all sid w = (Inr (), w1)" "all_up w1" by blast
  from d(1) have db1: "db w1 = mark_rows (now w) (map ob_id (pending_rows sid (db w))) (db w)"
    by (cases rule: deliverSession_spec) simp_all
  have "ob_session_id r \<in> set sids" if "r \<in> set (audit_outbox (db w1))" "ob_state r = DPending" for r
    using mark_rows_pending [OF ok that(1) [unfolded db1] that(2)] Cons.prems(4) [of r] that(2) by auto
  with Cons.IH [OF d(2) deliverSession_inv [OF d(1) Cons.prems(2)]] deliverable_mark [OF ok Cons.prems(3)] d(1) db1
  show ?case by (simp add: bnd_def)
qed

lemma drainPending_up:
  assumes up: "all_up w" and inv: "audit_inv row_of (stored w) (db w)" and dl: "deliverable valid (db w)"
  shows "\<exists>w'. drainPending has_event insert_all w = (Inr (), w')
      \<and> audit_inv row_of (stored w') (db w') \<and> (\<forall>r \<in> set (audit_outbox (db w')). ob_state r = DDelivered)"
proof -
  let ?f = "\<lambda>d. sort (remdups (map ob_session_id (filter (\<lambda>r. ob_state r = DPending) (audit_outbox d))))"
  let ?w = "w\<lparr>calls := Suc (calls w)\<rparr>"
  have q: "query (select ?f) w = (Inr (?f (db w)), ?w)"
    using query_up [OF up, of "select ?f" "?f (db w)" "db w"] by (simp add: select_def)
  have "all_up ?w" using up by (simp add: all_up_def)
  from drain_sessions_up [OF this, of "?f (db w)"] inv dl q stored_sink [of ?w w]
  show ?thesis by (auto simp: drainPending_def bnd_def)
qed

end

section \<open>ClickHouse provides the sink\<close>

definition click_key :: "click_row \<Rightarrow> string \<times> int" where
  "click_key r = (ck_session_id r, ck_seq r)"

definition click_valid :: "string \<times> int \<Rightarrow> bool" where
  "click_valid k \<longleftrightarrow> is_uuid (fst k) \<and> 1 \<le> snd k"

lemma ch_query_cases:
  assumes "ch_query f w = (r, w')"
  shows "quiet w w' \<and> (all_up w \<longrightarrow> all_up w')
    \<and> (sink w' = sink w \<and> r = Inl ForeignError \<or> sink w' = snd (f (sink w)) \<and> (r = Inr (fst (f (sink w))) \<or> r = Inl ForeignError))
    \<and> (all_up w \<longrightarrow> r = Inr (fst (f (sink w))))"
  using assms by (auto simp: ch_query_def next_outcome_def quiet_def all_up_def split: if_splits prod.splits)

lemma audit_rows_Inr: "audit_rows es = Inr rows \<Longrightarrow> rows = map click_of es"
  by (induction es arbitrary: rows) (auto simp: auditRow_def split: sum.splits)

lemma audit_rows_valid: "(\<And>e. e \<in> set es \<Longrightarrow> click_valid (event_key e)) \<Longrightarrow> audit_rows es = Inr (map click_of es)"
proof (induction es)
  case (Cons e es)
  from Cons.prems [of e] have "is_uuid (ae_session_id e)" "1 \<le> ae_seq e" by (simp_all add: click_valid_def event_key_def)
  with Cons show ?case by (simp add: auditRow_def assertSessionAndSeq_def)
qed simp

lemma insertBatch_spec:
  assumes "insertBatch es w = (r, w')"
  shows "quiet w w' \<and> (sink w' = sink w @ map click_of es \<or> sink w' = sink w \<and> r \<noteq> Inr () \<and> es \<noteq> [])"
proof (cases "es = []")
  case False
  with assms have "bnd (of_result (audit_rows es)) (\<lambda>rows. ch_query (\<lambda>old. ((), old @ rows))) w = (r, w')"
    by (simp add: insertBatch_def)
  then show ?thesis
    by (cases rule: bndE) (use False in \<open>auto simp: of_result_def quiet_def dest!: audit_rows_Inr ch_query_cases\<close>)
qed (use assms in \<open>simp add: insertBatch_def ret_def quiet_def\<close>)

lemma insert_each_spec:
  assumes "insert_each es w = (r, w')"
  shows "quiet w w' \<and> (\<exists>k. sink w' = sink w @ map click_of (take k es) \<and> (r = Inr () \<longrightarrow> length es \<le> k))"
  using assms unfolding insert_each_def
proof (induction es arbitrary: w)
  case Nil
  then show ?case by (simp add: ret_def quiet_def)
next
  case (Cons e es)
  from Cons.prems have "seq (insert_event e) (for_each es insert_event) w = (r, w')" by simp
  then show ?case
  proof (cases rule: bndE)
    case (err e')
    from insertBatch_spec [OF err(1) [unfolded insert_event_def]] err(2) show ?thesis
      by (auto intro: exI [of _ 0] exI [of _ 1])
  next
    case (ok x w1)
    from insertBatch_spec [OF ok(1) [unfolded insert_event_def]]
    have "quiet w w1" "sink w1 = sink w @ [click_of e]" by auto
    moreover from Cons.IH [OF ok(2)] obtain k where "quiet w1 w'"
      "sink w' = sink w1 @ map click_of (take k es)" "r = Inr () \<longrightarrow> length es \<le> k" by blast
    ultimately show ?thesis by (intro conjI exI [of _ "Suc k"]) (auto simp: quiet_def)
  qed
qed

lemma hasEvent_spec:
  assumes "hasEvent s n w = (r, w')"
  shows "quiet w w' \<and> sink w' = sink w \<and> (\<forall>b. r = Inr b \<longrightarrow> (b \<longleftrightarrow> (s, n) \<in> click_key ` set (sink w)))"
  using assms unfolding hasEvent_def
  by (cases rule: bndE) (auto simp: of_result_def quiet_def click_key_def image_iff dest!: ch_query_cases)

interpretation ch: live_audit_sink hasEvent insertBatch sink click_of click_key click_valid
proof
  fix e show "click_key (click_of e) = event_key e" by (simp add: click_key_def click_of_def event_key_def Let_def)
next
  fix s n r w w' assume h: "hasEvent s n w = (r, w')"
  show "quiet w w' \<and> sink w' = sink w" using hasEvent_spec [OF h] by blast
next
  fix s n b w w' assume h: "hasEvent s n w = (Inr b, w')"
  show "b = ((s, n) \<in> click_key ` set (sink w))" using hasEvent_spec [OF h] by blast
next
  fix es w q w' assume "insertBatch es w = (q, w')"
  from insertBatch_spec [OF this]
  show "quiet w w' \<and> (\<exists>k. sink w' = sink w @ map click_of (take k es) \<and> (q = Inr () \<longrightarrow> length es \<le> k))"
    by (auto intro: exI [of _ "length es"] exI [of _ 0])
next
  fix w :: "'a world_scheme" and s n assume up: "all_up w" and v: "click_valid (s, n)"
  obtain r w' where h: "hasEvent s n w = (r, w')" by fastforce
  with v have "ch_query (\<lambda>rows. (\<exists>r\<in>set rows. ck_session_id r = s \<and> ck_seq r = n, rows)) w = (r, w')"
    by (simp add: hasEvent_def bnd_def of_result_def assertSessionAndSeq_def click_valid_def)
  from ch_query_cases [OF this] up h show "\<exists>b w'. hasEvent s n w = (Inr b, w') \<and> all_up w'" by auto
next
  fix w :: "'a world_scheme" and es assume up: "all_up w" and v: "\<And>e. e \<in> set es \<Longrightarrow> click_valid (event_key e)"
  show "\<exists>w'. insertBatch es w = (Inr (), w') \<and> all_up w'"
  proof (cases "es = []")
    case False
    obtain r w' where i: "insertBatch es w = (r, w')" by fastforce
    with False audit_rows_valid [OF v] have "ch_query (\<lambda>old. ((), old @ map click_of es)) w = (r, w')"
      by (simp add: insertBatch_def bnd_def of_result_def)
    from ch_query_cases [OF this] up i show ?thesis by auto
  qed (use up in \<open>simp add: insertBatch_def ret_def\<close>)
qed (simp_all)

interpretation che: audit_sink hasEvent insert_each sink click_of click_key
  by unfold_locales (auto simp: ch.key_row_of dest: hasEvent_spec insert_each_spec)

section \<open>The audit trail\<close>

text \<open>
  The runs of the system as the audit trail sees them: the operations above, in any order, with
  any outcome, and whatever the other components do to the database, which is to create sessions
  with no audit records and to change columns other than the sequence counter.
\<close>

definition audit_view :: "db \<Rightarrow> (string \<times> int) list" where
  "audit_view d = map (\<lambda>s. (sr_id s, sr_next_audit_seq s)) (sessions d)"

inductive audit_step :: "world \<Rightarrow> world \<Rightarrow> bool" where
  step_enqueue: "enqueue i w = (r, w') \<Longrightarrow> audit_step w w'"
| step_deliver: "deliverSession hasEvent insertBatch sid w = (r, w') \<Longrightarrow> audit_step w w'"
| step_environment: "audit_outbox (db w') = audit_outbox (db w) \<Longrightarrow> sink w' = sink w \<Longrightarrow>
    audit_view (db w') = audit_view (db w) \<Longrightarrow> audit_step w w'"
| step_session: "audit_outbox (db w') = audit_outbox (db w) \<Longrightarrow> sink w' = sink w \<Longrightarrow>
    audit_view (db w') = audit_view (db w) @ [(sid, 0)] \<Longrightarrow> sid \<notin> fst ` set (audit_view (db w)) \<Longrightarrow>
    audit_step w w'"

inductive audit_reachable :: "world \<Rightarrow> bool" where
  audit_init: "sessions (db w) = [] \<Longrightarrow> audit_outbox (db w) = [] \<Longrightarrow> sink w = [] \<Longrightarrow> audit_reachable w"
| audit_next: "audit_reachable w \<Longrightarrow> audit_step w w' \<Longrightarrow> audit_reachable w'"

lemma outbox_ok_view:
  "outbox_ok d \<longleftrightarrow> distinct (map fst (audit_view d)) \<and> distinct (map ob_id (audit_outbox d))
     \<and> (\<forall>(sid, n) \<in> set (audit_view d). 0 \<le> n \<and> map ob_seq (filter (\<lambda>r. ob_session_id r = sid) (audit_outbox d)) = [1..n])
     \<and> (\<forall>r \<in> set (audit_outbox d). ob_session_id r \<in> fst ` set (audit_view d) \<and> 0 \<le> ob_attempts r)"
  by (auto simp: outbox_ok_def audit_view_def rows_of_def o_def image_image)

lemma audit_inv_view:
  "audit_inv row_of S d \<Longrightarrow> audit_outbox d' = audit_outbox d \<Longrightarrow> audit_view d' = audit_view d \<Longrightarrow> audit_inv row_of S d'"
  by (simp add: audit_inv_def outbox_ok_view prefix_ok_def no_loss_def from_outbox_def)

lemma audit_inv_session:
  assumes "audit_inv row_of S d" "audit_outbox d' = audit_outbox d" "audit_view d' = audit_view d @ [(sid, 0)]"
    "sid \<notin> fst ` set (audit_view d)"
  shows "audit_inv row_of S d'"
proof -
  have "ob_session_id r \<noteq> sid" if "r \<in> set (audit_outbox d)" for r
    using assms(1,4) that by (auto simp: audit_inv_def outbox_ok_view)
  then have "filter (\<lambda>r. ob_session_id r = sid) (audit_outbox d) = []" by (auto simp: filter_empty_conv)
  with assms show ?thesis
    by (auto simp: audit_inv_def outbox_ok_view prefix_ok_def no_loss_def from_outbox_def)
qed

lemma enqueue_sink: "enqueue i w = (r, w') \<Longrightarrow> sink w' = sink w"
  by (elim enqueue_cases) simp_all

lemma audit_step_inv: "audit_step w w' \<Longrightarrow> audit_inv click_of (sink w) (db w) \<Longrightarrow> audit_inv click_of (sink w') (db w')"
proof (induction rule: audit_step.induct)
  case (step_enqueue i w r w')
  then show ?case using enqueue_inv [OF step_enqueue(1)] enqueue_sink [OF step_enqueue(1)] by simp
next
  case (step_deliver sid w r w')
  then show ?case by (rule ch.deliverSession_inv)
next
  case (step_environment w' w)
  then show ?case using audit_inv_view [of click_of "sink w" "db w" "db w'"] by simp
next
  case (step_session w' w sid)
  then show ?case using audit_inv_session [of click_of "sink w" "db w" "db w'" sid] by simp
qed

lemma audit_inv_empty: "sessions d = [] \<Longrightarrow> audit_outbox d = [] \<Longrightarrow> audit_inv row_of [] d"
  by (simp add: audit_inv_def outbox_ok_def prefix_ok_def no_loss_def from_outbox_def)

lemma audit_reachable_inv: "audit_reachable w \<Longrightarrow> audit_inv click_of (sink w) (db w)"
proof (induction rule: audit_reachable.induct)
  case (audit_init w)
  then show ?case by (simp add: audit_inv_empty)
next
  case (audit_next w w')
  then show ?case by (simp add: audit_step_inv)
qed

text \<open>(C8) The audit trail has no gap: whatever calls fail and however operations interleave, the outbox rows
  of a session carry the numbers 1, 2, .. up to the session's counter, in order and without repetition.\<close>

theorem audit_trail_gapless:
  assumes "audit_reachable w" and "s \<in> set (sessions (db w))"
  shows "map ob_seq (rows_of (sr_id s) (db w)) = [1..sr_next_audit_seq s]"
  using audit_reachable_inv [OF assms(1)] assms(2) by (auto simp: audit_inv_def outbox_ok_def)

text \<open>(C7) No audit record is lost: a row marked delivered is in ClickHouse, with the content of the outbox
  row, and so are all earlier records of its session; and nothing is in ClickHouse that the outbox
  does not hold.\<close>

theorem audit_trail_no_loss:
  assumes "audit_reachable w" and "r \<in> set (audit_outbox (db w))" and "ob_state r = DDelivered"
    and "q \<in> set (audit_outbox (db w))" and "ob_session_id q = ob_session_id r" and "ob_seq q \<le> ob_seq r"
  shows "click_of (event_of q) \<in> set (sink w) \<and> set (sink w) \<subseteq> (\<lambda>r. click_of (event_of r)) ` set (audit_outbox (db w))"
proof -
  have inv: "audit_inv click_of (sink w) (db w)" using assms(1) by (rule audit_reachable_inv)
  have "ob_state q = DDelivered"
  proof (cases "ob_seq q = ob_seq r")
    case True
    with assms inv row_key_inj [of "db w" r q] show ?thesis by (simp add: audit_inv_def row_key_def)
  next
    case False
    with assms inv show ?thesis by (auto simp: audit_inv_def prefix_ok_def)
  qed
  with inv assms(4) show ?thesis by (auto simp: audit_inv_def no_loss_def from_outbox_def)
qed


text \<open>(C9) Fail-closed pre-execution audit: when \<^verbatim>\<open>persistBeforeExecution\<close> returns, the record is in
  ClickHouse and nothing of the session is pending, so every earlier record of the session is there too.\<close>

theorem persist_before_execution_durable:
  assumes "audit_reachable w" and "persistBeforeExecution hasEvent insertBatch i w = (Inr e, w')"
  shows "click_of e \<in> set (sink w') \<and> pending_rows (ai_sessionId i) (db w') = [] \<and> ae_session_id e = ai_sessionId i"
  using ch.persistBeforeExecution_durable [OF assms(2) audit_reachable_inv [OF assms(1)]] by simp

text \<open>(C11) Recovery: once calls succeed again, one pass of \<^verbatim>\<open>drainPending\<close> returns and leaves every record
  delivered and in ClickHouse, provided the pending rows are ones ClickHouse accepts.\<close>

theorem drain_pending_recovers:
  assumes "audit_reachable w" and "all_up w" and "deliverable click_valid (db w)"
  shows "\<exists>w'. drainPending hasEvent insertBatch w = (Inr (), w')
      \<and> (\<forall>r \<in> set (audit_outbox (db w')). ob_state r = DDelivered \<and> click_of (event_of r) \<in> set (sink w'))"
proof -
  from ch.drainPending_up [OF assms(2) audit_reachable_inv [OF assms(1)] assms(3)]
  obtain w' where "drainPending hasEvent insertBatch w = (Inr (), w')" "audit_inv click_of (sink w') (db w')"
    "\<forall>r \<in> set (audit_outbox (db w')). ob_state r = DDelivered" by blast
  then show ?thesis by (auto simp: audit_inv_def no_loss_def)
qed

lemma assertSafeEntries_all:
  "(\<And>k v. (k, v) \<in> set kvs \<Longrightarrow> normalize_key (js k) \<notin> set unsafe_keys \<and> assertSafePayload v = Inr ()) \<Longrightarrow>
     assertSafeEntries (map (\<lambda>(k, v). (js k, v)) kvs) = Inr ()"
proof (induction kvs)
  case (Cons kv kvs)
  obtain k v where kv: "kv = (k, v)" by fastforce
  from Cons.prems [of k v] Cons.IH Cons.prems kv show ?case by auto
qed simp

lemma payload_keys_safe:
  "list_all (\<lambda>k. normalize_key (js k) \<notin> set unsafe_keys)
     [''actionId'', ''timestamp'', ''eventType'', ''actionType'', ''service'', ''method'', ''decision'', ''policyBundle'',
      ''policyReason'', ''obligations'', ''scopeUsed'', ''roleUsed'', ''paramsHash'', ''paramsPreview'', ''resultBytes'',
      ''resultHash'', ''redactionCount'', ''durationMs'', ''approvalId'', ''approvalWaitMs'', ''skillLoaded'',
      ''agentIntent'', ''driver'', ''hardwareIsolated'', ''traceId'', ''spanId'', ''errorCode'', ''errorMessage'',
      ''networkDestination'', ''networkProtocol'']"
  by code_simp

lemma payload_safe: "assertSafePayload (payload_json p) = Inr ()"
proof -
  have strs: "assertSafeItems (map JStr xs) = Inr ()" for xs by (induction xs) simp_all
  have opt: "assertSafePayload (case v of None \<Rightarrow> JNull | Some s \<Rightarrow> JStr (js s)) = Inr ()"
    "assertSafePayload (case n of None \<Rightarrow> JNull | Some k \<Rightarrow> JNum (of_int k)) = Inr ()" for v n
    by (simp_all split: option.splits)
  show ?thesis
    unfolding payload_json_def Let_def assertSafePayload.simps
    by (rule assertSafeEntries_all)
      (insert payload_keys_safe, simp only: list.pred_inject list.set insert_iff empty_iff prod.inject, elim disjE conjE,
        simp_all add: strs opt)
qed

text \<open>So the check never fires, and the payload is the input with its defaults.\<close>

lemma buildAuditPayload_safe [code]:
  "buildAuditPayload today i = Inr \<lparr>ap_actionId = ai_actionId i, ap_timestamp = orElse (ai_timestamp i) today,
        ap_eventType = ai_eventType i, ap_actionType = ai_actionType i,
        ap_service = orElse (ai_service i) [], ap_method = orElse (ai_method i) [],
        ap_decision = orElse (ai_decision i) ''n/a'', ap_policyBundle = orElse (ai_policyBundle i) [],
        ap_policyReason = orElse (ai_policyReason i) [], ap_obligations = orElse (ai_obligations i) [],
        ap_scopeUsed = orElse (ai_scopeUsed i) [], ap_roleUsed = orElse (ai_roleUsed i) [],
        ap_paramsHash = orElse (ai_paramsHash i) EMPTY_HASH,
        ap_paramsPreview = truncateUtf8 (orElse (ai_paramsPreview i) []) PREVIEW_MAX_BYTES,
        ap_resultBytes = orElse (ai_resultBytes i) 0, ap_resultHash = orElse (ai_resultHash i) EMPTY_HASH,
        ap_redactionCount = orElse (ai_redactionCount i) 0, ap_durationMs = orElse (ai_durationMs i) 0,
        ap_approvalId = ai_approvalId i, ap_approvalWaitMs = ai_approvalWaitMs i,
        ap_skillLoaded = orElse (ai_skillLoaded i) [],
        ap_agentIntent = truncateUtf8 (orElse (ai_agentIntent i) []) PREVIEW_MAX_BYTES,
        ap_driver = ai_driver i, ap_hardwareIsolated = ai_hardwareIsolated i,
        ap_traceId = orElse (ai_traceId i) [], ap_spanId = orElse (ai_spanId i) [],
        ap_errorCode = orElse (ai_errorCode i) [], ap_errorMessage = orElse (ai_errorMessage i) [],
        ap_networkDestination = orElse (ai_networkDestination i) [],
        ap_networkProtocol = orElse (ai_networkProtocol i) []\<rparr>"
  by (simp add: buildAuditPayload_def Let_def payload_safe)

text \<open>Payloads are bounded and never refused: \<^verbatim>\<open>buildAuditPayload\<close> succeeds on every input, and the two
  free-text columns hold at most 512 bytes of UTF-8.\<close>

theorem audit_payload_bounded:
  "\<exists>p. buildAuditPayload t i = Inr p \<and> byteLength (ap_paramsPreview p) \<le> 512 \<and> byteLength (ap_agentIntent p) \<le> 512
     \<and> ap_actionId p = ai_actionId i \<and> ap_eventType p = ai_eventType i"
  using truncateUtf8_byteLength [of _ PREVIEW_MAX_BYTES]
  by (simp add: buildAuditPayload_def payload_safe Let_def PREVIEW_MAX_BYTES_def)

section \<open>A concrete run\<close>

definition demo_session :: session_row where
  "demo_session = \<lparr>sr_id = ''0197a1b2-0000-7000-8000-00000000000a'', sr_status = Ready, sr_agent_image = ''agent'',
     sr_entrypoint = ''default'', sr_approval_mode = Rule, sr_scopes = [''http:get''], sr_roles = [''reader''],
     sr_policy_bundle_id = ''bundle'', sr_requested_by = ''op'', sr_purpose = None, sr_metadata = JObj [],
     sr_host_id = Some ''host'', sr_driver = Some Firecracker, sr_hardware_isolated = True, sr_snapshot_ref = None,
     sr_base_snapshot_id = None, sr_valid_from = 0, sr_expires_at = 3600000, sr_idle_timeout_s = 300,
     sr_last_activity_at = 0, sr_created_at = 0, sr_terminated_at = None, sr_termination_reason = None,
     sr_next_audit_seq = 0, sr_action_allow_count = 0, sr_action_deny_count = 0,
     sr_action_require_approval_count = 0, sr_failure_reason = None\<rparr>"

definition empty_db :: db where
  "empty_db = \<lparr>sessions = [], session_tokens = [], transport_bindings = [], policy_bundles = [], services = [],
     credential_refs = [], audit_outbox = [], settings = [], snapshots = [], session_snapshot_keys = [], snapshot_keys = [],
     snapshot_deletion_outbox = [], system_audit_events = []\<rparr>"

definition empty_world :: world where
  "empty_world = \<lparr>db = empty_db, sink = [], now = 1000, entropy = (\<lambda>_. []), draws = 0, fault = (\<lambda>_. Ok), calls = 0,
     activeEventIds = []\<rparr>"

definition demo_world :: world where
  "demo_world = empty_world\<lparr>db := empty_db\<lparr>sessions := [demo_session]\<rparr>\<rparr>"

definition demo_input :: audit_input where
  "demo_input = \<lparr>ai_sessionId = sr_id demo_session, ai_actionId = ''action'', ai_timestamp = None,
     ai_eventType = ''action.started'', ai_actionType = ''broker'', ai_service = Some (js ''api''), ai_method = Some (js ''get''),
     ai_decision = Some ''allow'', ai_policyBundle = None, ai_policyReason = None, ai_obligations = None,
     ai_scopeUsed = None, ai_roleUsed = None, ai_paramsHash = None, ai_paramsPreview = None, ai_resultBytes = None,
     ai_resultHash = None, ai_redactionCount = None, ai_durationMs = None, ai_approvalId = None,
     ai_approvalWaitMs = None, ai_skillLoaded = None, ai_agentIntent = None, ai_driver = Firecracker,
     ai_hardwareIsolated = True, ai_traceId = None, ai_spanId = None, ai_errorCode = None, ai_errorMessage = None,
     ai_networkDestination = None, ai_networkProtocol = None\<rparr>"

definition demo_enqueued :: world where
  "demo_enqueued = snd (enqueue demo_input demo_world)"

lemma demo_world_reachable: "audit_reachable demo_world"
  by (rule audit_next [OF audit_init [of empty_world] step_session [where sid = "sr_id demo_session"]])
    (simp_all add: empty_world_def demo_world_def empty_db_def audit_view_def demo_session_def)

lemma demo_enqueued_reachable: "audit_reachable demo_enqueued"
  unfolding demo_enqueued_def by (rule audit_next [OF demo_world_reachable step_enqueue]) (rule surjective_pairing)

lemmas demo_defs = demo_world_def empty_world_def empty_db_def demo_input_def demo_session_def

lemmas enqueue_eval = enqueue_def bnd_def build_now_run buildAuditPayload_def payload_safe transaction_def
  next_outcome_def allocateOutboxEvent_def uuidV7_def randomBytes_def query_def allocate_stmt_def allocate_row_def
  count_for_def int4_def update_where_def ret_def Let_def

lemma demo_enqueue_returns: "\<exists>e. fst (enqueue demo_input demo_world) = Inr e \<and> ae_session_id e = sr_id demo_session"
  by (simp add: demo_defs enqueue_eval)

lemma demo_enqueued_eval:
  "map ob_seq (audit_outbox (db demo_enqueued)) = [1]" "map ob_state (audit_outbox (db demo_enqueued)) = [DPending]"
  "map ob_session_id (audit_outbox (db demo_enqueued)) = [sr_id demo_session]"
  "map ob_attempts (audit_outbox (db demo_enqueued)) = [0]"
  "sessions (db demo_enqueued) = [allocate_row demo_input demo_session]" "sink demo_enqueued = []"
  "all_up demo_enqueued"
  by (simp_all add: demo_enqueued_def demo_defs enqueue_eval all_up_def)

lemma demo_uuid: "is_uuid (sr_id demo_session)"
  by code_simp

definition demo_delivered :: world where
  "demo_delivered = snd (deliverSession hasEvent insertBatch (sr_id demo_session) demo_enqueued)"

lemma demo_deliverable: "deliverable click_valid (db demo_enqueued)"
proof -
  obtain r where r: "audit_outbox (db demo_enqueued) = [r]"
    using demo_enqueued_eval(1) by (auto simp: map_eq_Cons_conv)
  with demo_enqueued_eval demo_uuid show ?thesis
    by (simp add: deliverable_def click_valid_def row_key_def int4_def)
qed

lemma demo_delivers:
  "deliverSession hasEvent insertBatch (sr_id demo_session) demo_enqueued = (Inr (), demo_delivered)"
proof -
  have "outbox_ok (db demo_enqueued)"
    using audit_reachable_inv [OF demo_enqueued_reachable] by (simp add: audit_inv_def)
  from ch.deliverSession_up [OF demo_enqueued_eval(7) this demo_deliverable, of "sr_id demo_session"]
  show ?thesis by (auto simp: demo_delivered_def)
qed

lemma demo_delivered_reachable: "audit_reachable demo_delivered"
  by (rule audit_next [OF demo_enqueued_reachable step_deliver]) (rule demo_delivers)

theorem audit_trail_gapless_witness:
  "map ob_seq (rows_of (sr_id demo_session) (db demo_enqueued)) = [1]"
  using audit_trail_gapless [OF demo_enqueued_reachable, of "allocate_row demo_input demo_session"]
  by (simp add: demo_enqueued_eval allocate_row_def demo_session_def)

lemma demo_delivered_row:
  obtains r where "r \<in> set (audit_outbox (db demo_delivered))" "ob_state r = DDelivered" "ob_session_id r = sr_id demo_session"
proof -
  let ?sid = "sr_id demo_session"
  have m: "db demo_delivered = mark_rows (now demo_enqueued) (map ob_id (pending_rows ?sid (db demo_enqueued))) (db demo_enqueued)"
    using demo_delivers by (cases rule: ch.deliverSession_spec) simp_all
  obtain r where r: "audit_outbox (db demo_enqueued) = [r]"
    using demo_enqueued_eval(1) by (auto simp: map_eq_Cons_conv)
  then have "pending_rows ?sid (db demo_enqueued) = [r]" "ob_session_id r = ?sid"
    using demo_enqueued_eval by (simp_all add: pending_rows_def)
  with r m that show thesis by (simp add: mark_rows_def update_where_def)
qed

theorem audit_trail_no_loss_witness:
  "\<exists>r \<in> set (audit_outbox (db demo_delivered)). click_of (event_of r) \<in> set (sink demo_delivered)"
proof -
  obtain r where "r \<in> set (audit_outbox (db demo_delivered))" "ob_state r = DDelivered"
    by (rule demo_delivered_row)
  with audit_trail_no_loss [OF demo_delivered_reachable this this(1)] show ?thesis by auto
qed


theorem persist_before_execution_durable_witness:
  "\<exists>e w'. persistBeforeExecution hasEvent insertBatch demo_input demo_world = (Inr e, w') \<and> click_of e \<in> set (sink w')"
proof -
  from demo_enqueue_returns obtain e where "fst (enqueue demo_input demo_world) = Inr e"
    and "ae_session_id e = sr_id demo_session" by blast
  moreover from this(1) have "enqueue demo_input demo_world = (Inr e, demo_enqueued)"
    by (simp add: demo_enqueued_def prod_eq_iff)
  ultimately have "persistBeforeExecution hasEvent insertBatch demo_input demo_world = (Inr e, demo_delivered)"
    using demo_delivers by (simp add: persistBeforeExecution_def bnd_def ret_def)
  from persist_before_execution_durable [OF demo_world_reachable this] this show ?thesis by blast
qed

theorem drain_pending_recovers_witness:
  "\<exists>w'. drainPending hasEvent insertBatch demo_enqueued = (Inr (), w')
     \<and> (\<forall>r \<in> set (audit_outbox (db w')). ob_state r = DDelivered \<and> click_of (event_of r) \<in> set (sink w'))"
  by (rule drain_pending_recovers [OF demo_enqueued_reachable demo_enqueued_eval(7) demo_deliverable])

end
