(* ===== verification/Session_Identity.thy ===== *)
theory Session_Identity
  imports Audit_Trail
begin

text \<open>
  Who a connection speaks for. The first part is the session state machine of
  \<^verbatim>\<open>packages/isolation/src/session-state-machine.ts\<close>; the second the tokens and transport
  bindings of \<^verbatim>\<open>apps/control-plane/src/session-identity.ts\<close>, where a peer address, and nothing
  the guest says, selects the session.
\<close>

section \<open>The session state machine\<close>

fun TRANSITIONS :: "session_status \<Rightarrow> session_status list" where
  "TRANSITIONS Pending = [Booting, Terminating, Failed]"
| "TRANSITIONS Booting = [Ready, Terminating, Failed]"
| "TRANSITIONS Ready = [Active, Terminating, Failed]"
| "TRANSITIONS Active = [Suspended, Terminating, Failed]"
| "TRANSITIONS Suspended = [Active, Terminating, Failed]"
| "TRANSITIONS Terminating = [Terminated]"
| "TRANSITIONS Terminated = []"
| "TRANSITIONS Failed = []"

record transition_event =
  te_from :: session_status
  te_to :: session_status
  te_reason :: "string option"
  te_legal :: bool

text \<open>The machine with the events its observer has been given.\<close>

record machine =
  m_status :: session_status
  m_events :: "transition_event list"

definition new_machine :: "session_status \<Rightarrow> machine" where
  "new_machine initial = \<lparr>m_status = initial, m_events = []\<rparr>"

definition isTerminal :: "machine \<Rightarrow> bool" where
  "isTerminal m \<longleftrightarrow> m_status m = Terminated \<or> m_status m = Failed"

definition emit :: "session_status \<Rightarrow> session_status \<Rightarrow> string option \<Rightarrow> bool \<Rightarrow> machine \<Rightarrow> machine" where
  "emit f t reason legal m = m\<lparr>m_events := m_events m @ [\<lparr>te_from = f, te_to = t, te_reason = reason, te_legal = legal\<rparr>]\<rparr>"

definition transition :: "session_status \<Rightarrow> string option \<Rightarrow> (machine, unit) proc" where
  "transition t reason m = (let f = m_status m in
     if t \<notin> set (TRANSITIONS f)
     then (Inl (Caisson INVALID_REQUEST ''illegal session transition''), emit f t reason False m)
     else (Inr (), emit f t reason True (m\<lparr>m_status := t\<rparr>)))"

text \<open>A sequence of calls, each caller catching the error of its own.\<close>

fun attempts :: "(session_status \<times> string option) list \<Rightarrow> machine \<Rightarrow> machine" where
  "attempts [] m = m"
| "attempts ((t, reason) # ts) m = attempts ts (snd (transition t reason m))"

text \<open>The legal events, as a path through the table from one status to another.\<close>

fun legal_path :: "session_status \<Rightarrow> transition_event list \<Rightarrow> session_status \<Rightarrow> bool" where
  "legal_path a [] b = (a = b)"
| "legal_path a (e # es) b = (te_from e = a \<and> te_to e \<in> set (TRANSITIONS a) \<and> legal_path (te_to e) es b)"

lemma legal_path_append: "legal_path a (es @ fs) b \<longleftrightarrow> (\<exists>c. legal_path a es c \<and> legal_path c fs b)"
  by (induction es arbitrary: a) auto

lemma attempts_path:
  "legal_path a (filter te_legal (m_events m)) (m_status m) \<Longrightarrow>
     legal_path a (filter te_legal (m_events (attempts ts m))) (m_status (attempts ts m))"
proof (induction ts m rule: attempts.induct)
  case (2 t reason ts m)
  show ?case unfolding attempts.simps
  proof (rule "2.IH")
    show "legal_path a (filter te_legal (m_events (snd (transition t reason m)))) (m_status (snd (transition t reason m)))"
      using "2.prems" by (auto simp: transition_def emit_def Let_def legal_path_append)
  qed
qed simp

lemma attempts_terminal: "isTerminal m \<Longrightarrow> m_status (attempts ts m) = m_status m"
proof (induction ts m rule: attempts.induct)
  case (2 t reason ts m)
  from "2.prems" have same: "m_status (snd (transition t reason m)) = m_status m"
    by (auto simp: isTerminal_def transition_def emit_def Let_def)
  with "2.IH" "2.prems" show ?case by (simp add: isTerminal_def)
qed simp

text \<open>Sessions only move along the table: whatever transitions are attempted, the legal events the
  observer saw form a path from the initial status to the current one, and a terminal session
  stays in its terminal status.\<close>

theorem session_machine_path:
  "legal_path initial (filter te_legal (m_events (attempts ts (new_machine initial)))) (m_status (attempts ts (new_machine initial)))
   \<and> (isTerminal (attempts ts (new_machine initial)) \<longrightarrow>
        m_status (attempts us (attempts ts (new_machine initial))) = m_status (attempts ts (new_machine initial)))"
  using attempts_path [of initial "new_machine initial" ts] attempts_terminal
  by (simp add: new_machine_def)

theorem session_machine_path_witness:
  "m_status (attempts [(Active, None)] (attempts [(Booting, None), (Active, None), (Failed, Some ''driver'')] (new_machine Pending)))
     = Failed"
  using session_machine_path [of Pending "[(Booting, None), (Active, None), (Failed, Some ''driver'')]" "[(Active, None)]"]
  by (simp add: transition_def emit_def new_machine_def isTerminal_def Let_def)

section \<open>Tokens (SessionTokenService)\<close>

record mint_request =
  mr_sessionId :: string
  mr_scopes :: "string list"
  mr_expiresAt :: int

record token_record =
  tr_id :: string
  tr_tokenHash :: string

text \<open>
  \<^verbatim>\<open>createSessionTokenRecord\<close>: the plaintext is 32 random bytes that never leave the function;
  \<open>argon2\<close> stands for the hash of the argon2 package, which draws its own salt.
\<close>

definition draw :: "nat \<Rightarrow> ('z world_scheme, byte list) proc" where
  "draw n w = (case randomBytes n w of (bs, w1) \<Rightarrow> (Inr bs, w1))"

definition createSessionTokenRecord ::
  "(byte list \<Rightarrow> byte list \<Rightarrow> string) \<Rightarrow> ('z world_scheme, token_record) proc" where
  "createSessionTokenRecord argon2 =
     bnd (draw 32) (\<lambda>plaintext. bnd uuidV7 (\<lambda>i. bnd (draw 16) (\<lambda>salt.
       ret \<lparr>tr_id = i, tr_tokenHash = argon2 plaintext salt\<rparr>)))"

text \<open>Primary key, the unique indexes on hash and session, and the foreign key on the session.\<close>

definition insert_token :: "token_row \<Rightarrow> unit statement" where
  "insert_token t d =
     (if (\<exists>u \<in> set (session_tokens d). tk_id u = tk_id t \<or> tk_token_hash u = tk_token_hash t
            \<or> tk_session_id u = tk_session_id t)
         \<or> tk_session_id t \<notin> sr_id ` set (sessions d)
      then Inl ForeignError
      else Inr ((), d\<lparr>session_tokens := session_tokens d @ [t]\<rparr>))"

definition mint :: "(byte list \<Rightarrow> byte list \<Rightarrow> string) \<Rightarrow> mint_request \<Rightarrow> ('z world_scheme, string) proc" where
  "mint argon2 request =
     bnd (createSessionTokenRecord argon2) (\<lambda>token. bnd (gets now) (\<lambda>t.
     seq (query (insert_token \<lparr>tk_id = tr_id token, tk_session_id = mr_sessionId request,
            tk_token_hash = tr_tokenHash token, tk_scopes = mr_scopes request, tk_issued_at = t,
            tk_expires_at = mr_expiresAt request, tk_revoked_at = None, tk_revocation_reason = None\<rparr>))
       (ret (tr_id token))))"

definition revoke_stmt :: "int \<Rightarrow> string \<Rightarrow> string \<Rightarrow> unit statement" where
  "revoke_stmt t tokenId reason = update (\<lambda>d. d\<lparr>session_tokens :=
     update_where (\<lambda>k. tk_id k = tokenId \<and> tk_revoked_at k = None)
       (\<lambda>k. k\<lparr>tk_revoked_at := Some t, tk_revocation_reason := Some reason\<rparr>) (session_tokens d)\<rparr>)"

definition revoke :: "string \<Rightarrow> string \<Rightarrow> ('z world_scheme, unit) proc" where
  "revoke tokenId reason = bnd (gets now) (\<lambda>t. query (revoke_stmt t tokenId reason))"

section \<open>Bindings (SessionIdentityResolver)\<close>

record peer =
  pr_hostId :: string
  pr_transportKind :: transport_kind
  pr_peerIdentifier :: string

record identity =
  id_sessionId :: string
  id_tokenId :: string
  id_scopes :: "string list"
  id_roles :: "string list"
  id_approvalMode :: approval_mode
  id_policyBundleId :: string
  id_expiresAt :: int
  id_requestedBy :: string
  id_purpose :: "string option"
  id_driver :: driver_kind
  id_hardwareIsolated :: bool

definition binding_peer :: "binding_row \<Rightarrow> peer" where
  "binding_peer b = \<lparr>pr_hostId = tb_host_id b, pr_transportKind = tb_transport_kind b,
     pr_peerIdentifier = tb_peer_identifier b\<rparr>"

definition active_for :: "peer \<Rightarrow> binding_row \<Rightarrow> bool" where
  "active_for p b \<longleftrightarrow> binding_peer b = p \<and> tb_released_at b = None"

text \<open>Primary key, the partial unique index on active peers, and the two foreign keys.\<close>

definition insert_binding :: "binding_row \<Rightarrow> unit statement" where
  "insert_binding b d =
     (if (\<exists>c \<in> set (transport_bindings d). tb_id c = tb_id b \<or> active_for (binding_peer b) c)
         \<or> tb_session_id b \<notin> sr_id ` set (sessions d) \<or> tb_token_id b \<notin> tk_id ` set (session_tokens d)
      then Inl ForeignError
      else Inr ((), d\<lparr>transport_bindings := transport_bindings d @ [b]\<rparr>))"

definition bind :: "string \<Rightarrow> string \<Rightarrow> peer \<Rightarrow> ('z world_scheme, unit) proc" where
  "bind sessionId tokenId p =
     bnd uuidV7 (\<lambda>i. bnd (gets now) (\<lambda>t.
       query (insert_binding \<lparr>tb_id = i, tb_session_id = sessionId, tb_host_id = pr_hostId p,
         tb_transport_kind = pr_transportKind p, tb_peer_identifier = pr_peerIdentifier p,
         tb_token_id = tokenId, tb_bound_at = t, tb_released_at = None\<rparr>)))"

definition release_stmt :: "int \<Rightarrow> peer \<Rightarrow> unit statement" where
  "release_stmt t p = update (\<lambda>d. d\<lparr>transport_bindings :=
     update_where (active_for p) (\<lambda>b. b\<lparr>tb_released_at := Some t\<rparr>) (transport_bindings d)\<rparr>)"

definition release_binding :: "peer \<Rightarrow> ('z world_scheme, unit) proc" where
  "release_binding p = bnd (gets now) (\<lambda>t. query (release_stmt t p))"

text \<open>The join of the active bindings of a peer with their tokens and sessions.\<close>

definition identity_rows :: "peer \<Rightarrow> db \<Rightarrow> (binding_row \<times> token_row \<times> session_row) list" where
  "identity_rows p d =
     [(b, t, s). b \<leftarrow> transport_bindings d, active_for p b, t \<leftarrow> session_tokens d, tk_id t = tb_token_id b,
       s \<leftarrow> sessions d, sr_id s = tb_session_id b]"

definition intersectScopes :: "string list \<Rightarrow> string list \<Rightarrow> string list" where
  "intersectScopes tokenScopes sessionScopes = filter (\<lambda>scope. scope \<in> set sessionScopes) tokenScopes"

definition check_identity :: "int \<Rightarrow> (binding_row \<times> token_row \<times> session_row) list \<Rightarrow> js_error + identity" where
  "check_identity t rows = (case rows of
     [] \<Rightarrow> Inl (Caisson SESSION_NOT_FOUND ''no active transport binding for connection'')
   | (b, k, s) # _ \<Rightarrow>
       if tk_revoked_at k \<noteq> None \<or> tk_expires_at k \<le> t \<or> sr_expires_at s \<le> t
       then Inl (Caisson SESSION_EXPIRED ''bound session token is expired or revoked'')
       else case sr_driver s of
         None \<Rightarrow> Inl (Caisson SESSION_NOT_READY ''bound session has no active isolation driver'')
       | Some drv \<Rightarrow> Inr
           \<lparr>id_sessionId = tb_session_id b, id_tokenId = tb_token_id b,
            id_scopes = intersectScopes (tk_scopes k) (sr_scopes s), id_roles = sr_roles s,
            id_approvalMode = sr_approval_mode s, id_policyBundleId = sr_policy_bundle_id s,
            id_expiresAt = sr_expires_at s, id_requestedBy = sr_requested_by s, id_purpose = sr_purpose s,
            id_driver = drv, id_hardwareIsolated = sr_hardware_isolated s\<rparr>)"

text \<open>\<^verbatim>\<open>resolve\<close>; the clock is read when the call is made.\<close>

definition resolve :: "peer \<Rightarrow> ('z world_scheme, identity) proc" where
  "resolve p = bnd (gets now) (\<lambda>t. bnd (query (select (identity_rows p))) (\<lambda>rows. of_result (check_identity t rows)))"

section \<open>What resolution guarantees\<close>

text \<open>The partial unique index: a peer has at most one active binding.\<close>

definition bindings_ok :: "db \<Rightarrow> bool" where
  "bindings_ok d \<longleftrightarrow> (\<forall>p. length (filter (active_for p) (transport_bindings d)) \<le> 1)"

lemma insert_binding_ok:
  assumes "bindings_ok d" and "insert_binding b d = Inr (x, d')"
  shows "bindings_ok d'"
proof -
  have none: "filter (active_for (binding_peer b)) (transport_bindings d) = []"
    using assms(2) by (auto simp: insert_binding_def filter_empty_conv split: if_splits)
  have "d' = d\<lparr>transport_bindings := transport_bindings d @ [b]\<rparr>"
    using assms(2) by (auto simp: insert_binding_def split: if_splits)
  moreover have "length (filter (active_for p) (transport_bindings d @ [b])) \<le> 1" for p
    using assms(1) none by (cases "p = binding_peer b") (auto simp: bindings_ok_def active_for_def)
  ultimately show ?thesis by (simp add: bindings_ok_def)
qed

lemma length_filter_map_le:
  "(\<And>x. p (f x) \<Longrightarrow> q x) \<Longrightarrow> length (filter p (map f xs)) \<le> length (filter q xs)"
  by (induction xs) (auto simp: le_SucI)

lemma release_stmt_ok: "bindings_ok d \<Longrightarrow> release_stmt t p d = Inr (x, d') \<Longrightarrow> bindings_ok d'"
proof -
  assume ok: "bindings_ok d" and r: "release_stmt t p d = Inr (x, d')"
  let ?g = "\<lambda>b. if active_for p b then b\<lparr>tb_released_at := Some t\<rparr> else b"
  have "length (filter (active_for q) (map ?g (transport_bindings d))) \<le> length (filter (active_for q) (transport_bindings d))" for q
    by (rule length_filter_map_le) (auto simp: active_for_def split: if_splits)
  moreover have "transport_bindings d' = map ?g (transport_bindings d)"
    using r by (auto simp: release_stmt_def update_def update_where_def)
  ultimately show ?thesis using ok unfolding bindings_ok_def by (metis order_trans)
qed

lemma resolve_cases:
  assumes "resolve p w = (Inr i, w')"
  obtains b k s rest where "identity_rows p (db w) = (b, k, s) # rest" "db w' = db w"
    "b \<in> set (transport_bindings (db w))" "active_for p b" "k \<in> set (session_tokens (db w))" "tk_id k = tb_token_id b"
    "s \<in> set (sessions (db w))" "sr_id s = tb_session_id b" "check_identity (now w) ((b, k, s) # rest) = Inr i"
proof -
  let ?rows = "identity_rows p (db w)"
  have c: "check_identity (now w) ?rows = Inr i" "db w' = db w"
    using assms by (auto simp: resolve_def bnd_def gets_def query_def select_def of_result_def next_outcome_def split: if_splits)
  then obtain b k s rest where r: "?rows = (b, k, s) # rest"
    by (cases ?rows) (auto simp: check_identity_def)
  then have "(b, k, s) \<in> set ?rows" by simp
  then show thesis using that [OF r] c r by (auto simp: identity_rows_def)
qed

text \<open>(C12) Identity comes from the transport alone: when a peer resolves, there is an unreleased binding of
  exactly that peer, whose token is neither revoked nor expired and whose session has not expired;
  the identity is that session's, and its scopes are those both token and session grant.\<close>

theorem resolve_authentic:
  assumes "resolve p w = (Inr i, w')"
  shows "\<exists>b \<in> set (transport_bindings (db w)). \<exists>k \<in> set (session_tokens (db w)). \<exists>s \<in> set (sessions (db w)).
     binding_peer b = p \<and> tb_released_at b = None \<and> tk_id k = tb_token_id b \<and> sr_id s = tb_session_id b
     \<and> tk_revoked_at k = None \<and> now w < tk_expires_at k \<and> now w < sr_expires_at s
     \<and> id_sessionId i = sr_id s \<and> id_tokenId i = tk_id k \<and> set (id_scopes i) = set (tk_scopes k) \<inter> set (sr_scopes s)
     \<and> db w' = db w"
  using assms
proof (cases rule: resolve_cases)
  case (1 b k s rest)
  then show ?thesis
    by (intro bexI [of _ b] bexI [of _ k] bexI [of _ s])
      (auto simp: check_identity_def active_for_def intersectScopes_def split: if_splits option.splits)
qed

lemma token_revoked:
  assumes "revoke_stmt t tokenId reason d = Inr (x, d')" "k \<in> set (session_tokens d')" "tk_id k = tokenId"
  shows "tk_revoked_at k \<noteq> None"
proof -
  have "k \<in> set (update_where (\<lambda>k. tk_id k = tokenId \<and> tk_revoked_at k = None)
      (\<lambda>k. k\<lparr>tk_revoked_at := Some t, tk_revocation_reason := Some reason\<rparr>) (session_tokens d))"
    using assms(1,2) by (auto simp: revoke_stmt_def update_def)
  then show ?thesis by (cases rule: update_whereE) (use assms(3) in auto)
qed

lemma binding_released:
  assumes "release_stmt t p d = Inr (x, d')" "b \<in> set (transport_bindings d')"
  shows "\<not> active_for p b"
proof -
  have "b \<in> set (update_where (active_for p) (\<lambda>b. b\<lparr>tb_released_at := Some t\<rparr>) (transport_bindings d))"
    using assms by (auto simp: release_stmt_def update_def)
  then show ?thesis by (cases rule: update_whereE) (auto simp: active_for_def)
qed

text \<open>Revocation and release take effect at once: after \<^verbatim>\<open>revoke\<close> returned no peer resolves to an identity
  of that token, and after \<^verbatim>\<open>release\<close> returned the peer resolves to no identity at all.\<close>

theorem revoke_release_effective:
  assumes "revoke tokenId reason w = (Inr (), w1)" and "resolve p w1 = (r, w2)"
    and "release_binding q v = (Inr (), v1)" and "resolve q v1 = (r', v2)"
  shows "(\<forall>i. r = Inr i \<longrightarrow> id_tokenId i \<noteq> tokenId) \<and> (\<forall>i. r' \<noteq> Inr i)"
proof (intro conjI allI impI)
  fix i assume "r = Inr i"
  with assms(2) have "resolve p w1 = (Inr i, w2)" by simp
  then show "id_tokenId i \<noteq> tokenId"
  proof (cases rule: resolve_cases)
    case (1 b k s rest)
    have "query (revoke_stmt (now w) tokenId reason) w = (Inr (), w1)"
      using assms(1) by (simp add: revoke_def bnd_def gets_def)
    then obtain d where "revoke_stmt (now w) tokenId reason (db w) = Inr ((), d)" "db w1 = d"
      by (cases rule: query_cases) auto
    with token_revoked [of "now w" tokenId reason "db w" "()" d k] 1(5,6,9) show ?thesis
      by (auto simp: check_identity_def split: if_splits option.splits)
  qed
next
  fix i show "r' \<noteq> Inr i"
  proof
    assume "r' = Inr i"
    with assms(4) have "resolve q v1 = (Inr i, v2)" by simp
    then show False
    proof (cases rule: resolve_cases)
      case (1 b k s rest)
      have "query (release_stmt (now v) q) v = (Inr (), v1)"
        using assms(3) by (simp add: release_binding_def bnd_def gets_def)
      then obtain d where "release_stmt (now v) q (db v) = Inr ((), d)" "db v1 = d"
        by (cases rule: query_cases) auto
      with 1(3,4) binding_released show False by blast
    qed
  qed
qed

text \<open>A peer never speaks for two sessions: creating and releasing bindings keeps at most one active
  binding per peer, whatever calls fail.\<close>

theorem bindings_exclusive:
  assumes "bindings_ok (db w)" and "bind sid tok p w = (r, w1)" and "release_binding q w1 = (r', w2)"
  shows "bindings_ok (db w1) \<and> bindings_ok (db w2)"
proof -
  obtain i n where u: "uuidV7 w = (Inr i, w\<lparr>draws := n\<rparr>)" using uuidV7_run by blast
  then obtain b where "query (insert_binding b) (w\<lparr>draws := n\<rparr>) = (r, w1)"
    using assms(2) by (auto simp: bind_def bnd_def gets_def)
  then have 1: "bindings_ok (db w1)"
    by (cases rule: query_cases) (use assms(1) in \<open>auto intro: insert_binding_ok\<close>)
  have "query (release_stmt (now w1) q) w1 = (r', w2)"
    using assms(3) by (simp add: release_binding_def bnd_def gets_def)
  then have "bindings_ok (db w2)"
    by (cases rule: query_cases) (use 1 in \<open>auto intro: release_stmt_ok\<close>)
  with 1 show ?thesis by blast
qed

section \<open>A concrete binding\<close>

definition demo_peer :: peer where
  "demo_peer = \<lparr>pr_hostId = ''host'', pr_transportKind = Vsock, pr_peerIdentifier = ''3''\<rparr>"

definition demo_token :: token_row where
  "demo_token = \<lparr>tk_id = ''token'', tk_session_id = sr_id demo_session, tk_token_hash = ''hash'',
     tk_scopes = [''http:get'', ''http:post''], tk_issued_at = 0, tk_expires_at = 3600000, tk_revoked_at = None,
     tk_revocation_reason = None\<rparr>"

definition demo_binding :: binding_row where
  "demo_binding = \<lparr>tb_id = ''binding'', tb_session_id = sr_id demo_session, tb_host_id = ''host'',
     tb_transport_kind = Vsock, tb_peer_identifier = ''3'', tb_token_id = ''token'', tb_bound_at = 0, tb_released_at = None\<rparr>"

definition bound_world :: world where
  "bound_world = demo_world\<lparr>db := (db demo_world)\<lparr>session_tokens := [demo_token], transport_bindings := [demo_binding]\<rparr>\<rparr>"

lemmas bound_defs = bound_world_def demo_binding_def demo_token_def demo_peer_def demo_defs

lemmas identity_eval = resolve_def check_identity_def identity_rows_def active_for_def binding_peer_def
  intersectScopes_def query_def next_outcome_def select_def bnd_def gets_def of_result_def

lemma demo_resolves: "\<exists>i. resolve demo_peer bound_world = (Inr i, bound_world\<lparr>calls := 1\<rparr>)"
  by (simp add: bound_defs identity_eval)

theorem resolve_authentic_witness:
  "\<exists>i w'. resolve demo_peer bound_world = (Inr i, w') \<and> id_sessionId i = sr_id demo_session
     \<and> set (id_scopes i) = {''http:get''}"
proof -
  obtain i where i: "resolve demo_peer bound_world = (Inr i, bound_world\<lparr>calls := 1\<rparr>)" using demo_resolves by blast
  from resolve_authentic [OF i] show ?thesis
    using i by (auto simp: bound_defs)
qed

theorem revoke_release_effective_witness:
  "fst (resolve demo_peer (snd (revoke ''token'' ''test'' bound_world))) \<notin> Inr ` {i. id_tokenId i = ''token''}
   \<and> fst (resolve demo_peer (snd (release_binding demo_peer bound_world))) \<notin> range Inr"
proof -
  have rv: "revoke ''token'' ''test'' bound_world = (Inr (), snd (revoke ''token'' ''test'' bound_world))"
    and rl: "release_binding demo_peer bound_world = (Inr (), snd (release_binding demo_peer bound_world))"
    by (simp_all add: revoke_def release_binding_def revoke_stmt_def release_stmt_def update_def bnd_def gets_def query_def
        next_outcome_def bound_defs)
  show ?thesis
    using revoke_release_effective [OF rv surjective_pairing rl surjective_pairing] by blast
qed

theorem bindings_exclusive_witness:
  "bindings_ok (db (snd (bind (sr_id demo_session) ''token'' demo_peer bound_world)))"
proof -
  have "bindings_ok (db bound_world)" by (simp add: bindings_ok_def bound_defs)
  from bindings_exclusive [OF this surjective_pairing surjective_pairing] show ?thesis by blast
qed

end
