(* ===== verification/Schemas.thy ===== *)
theory Schemas
  imports Json
begin

text \<open>
  The wire contracts of \<^verbatim>\<open>packages/protocol/src/schemas.ts\<close>. A schema is a value of the datatype
  \<open>schema\<close>, one constructor per combinator the source uses, so each definition below can be read
  against its declaration. The schema library itself is a parameter, \<open>parse\<close>: the locale
  \<open>schema_library\<close> states its documented behaviour, one law per combinator, where \<open>fmt\<close> decides the three string
  formats (uuid, url, datetime). \<open>zod\<close> is a function that meets the laws.
\<close>

section \<open>Combinators\<close>

datatype string_format = FUuid | FUrl | FDatetime

datatype string_check = SMin nat | SMax nat | STrim | SFormat string_format

datatype number_check = NInt | NPositive | NNonnegative | NMax int

datatype object_mode = Strict | Passthrough | Strip

datatype presence = Required | Optional | Default json

datatype schema =
    ZString "string_check list"
  | ZNumber "number_check list"
  | ZBoolean
  | ZNull
  | ZLiteral json
  | ZEnum "string list"
  | ZArray schema "nat option" "nat option"
  | ZRecord schema schema
  | ZObject object_mode "(string \<times> presence \<times> schema) list"
  | ZUnion "schema list"
  | ZNullable schema
  | ZJson
  | ZRefine schema "json \<Rightarrow> bool"

text \<open>\<^verbatim>\<open>String.prototype.trim\<close>: white space and line terminators at both ends.\<close>

definition is_space :: "16 word \<Rightarrow> bool" where
  "is_space u \<longleftrightarrow> u \<in> {9, 10, 11, 12, 13, 32, 0xA0, 0x1680, 0x2028, 0x2029, 0x202F, 0x205F, 0x3000, 0xFEFF}
     \<or> 0x2000 \<le> uint u \<and> uint u \<le> 0x200A"

definition trim :: "utf16 \<Rightarrow> utf16" where
  "trim s = rev (dropWhile is_space (rev (dropWhile is_space s)))"

fun check_string :: "(string_format \<Rightarrow> utf16 \<Rightarrow> bool) \<Rightarrow> string_check list \<Rightarrow> utf16 \<Rightarrow> utf16 option" where
  "check_string fmt [] s = Some s"
| "check_string fmt (SMin n # cs) s = (if length s < n then None else check_string fmt cs s)"
| "check_string fmt (SMax n # cs) s = (if n < length s then None else check_string fmt cs s)"
| "check_string fmt (STrim # cs) s = check_string fmt cs (trim s)"
| "check_string fmt (SFormat f # cs) s = (if fmt f s then check_string fmt cs s else None)"

fun check_number :: "number_check \<Rightarrow> rat \<Rightarrow> bool" where
  "check_number NInt r \<longleftrightarrow> r = of_int \<lfloor>r\<rfloor> \<and> \<bar>r\<bar> \<le> 9007199254740991"
| "check_number NPositive r \<longleftrightarrow> 0 < r"
| "check_number NNonnegative r \<longleftrightarrow> 0 \<le> r"
| "check_number (NMax m) r \<longleftrightarrow> r \<le> of_int m"

fun all_some :: "'a option list \<Rightarrow> 'a list option" where
  "all_some [] = Some []"
| "all_some (None # _) = None"
| "all_some (Some x # xs) = (case all_some xs of None \<Rightarrow> None | Some ys \<Rightarrow> Some (x # ys))"

definition in_bounds :: "nat option \<Rightarrow> nat option \<Rightarrow> nat \<Rightarrow> bool" where
  "in_bounds lo hi n \<longleftrightarrow> (case lo of None \<Rightarrow> True | Some l \<Rightarrow> l \<le> n) \<and> (case hi of None \<Rightarrow> True | Some h \<Rightarrow> n \<le> h)"

definition known_keys :: "(string \<times> presence \<times> schema) list \<Rightarrow> utf16 set" where
  "known_keys fs = set (map (\<lambda>f. js (fst f)) fs)"

fun parse_fields :: "(schema \<Rightarrow> json \<Rightarrow> json option) \<Rightarrow> (string \<times> presence \<times> schema) list
    \<Rightarrow> (utf16 \<times> json) list \<Rightarrow> (utf16 \<times> json) list option" where
  "parse_fields parse [] kvs = Some []"
| "parse_fields parse ((k, pr, s) # fs) kvs =
     (case map_of kvs (js k) of
        None \<Rightarrow> (case pr of
            Required \<Rightarrow> None
          | Optional \<Rightarrow> parse_fields parse fs kvs
          | Default d \<Rightarrow> map_option (\<lambda>r. (js k, d) # r) (parse_fields parse fs kvs))
      | Some x \<Rightarrow> (case parse s x of
            None \<Rightarrow> None
          | Some y \<Rightarrow> map_option (\<lambda>r. (js k, y) # r) (parse_fields parse fs kvs)))"

fun parse_union :: "(schema \<Rightarrow> json \<Rightarrow> json option) \<Rightarrow> schema list \<Rightarrow> json \<Rightarrow> json option" where
  "parse_union parse [] v = None"
| "parse_union parse (s # ss) v = (case parse s v of Some u \<Rightarrow> Some u | None \<Rightarrow> parse_union parse ss v)"

locale schema_library =
  fixes fmt :: "string_format \<Rightarrow> utf16 \<Rightarrow> bool"
    and parse :: "schema \<Rightarrow> json \<Rightarrow> json option"
  assumes parse_string: "parse (ZString cs) v =
      (case v of JStr s \<Rightarrow> map_option JStr (check_string fmt cs s) | _ \<Rightarrow> None)"
    and parse_number: "parse (ZNumber ns) v =
      (case v of JNum r \<Rightarrow> if list_all (\<lambda>c. check_number c r) ns then Some v else None | _ \<Rightarrow> None)"
    and parse_boolean: "parse ZBoolean v = (case v of JBool _ \<Rightarrow> Some v | _ \<Rightarrow> None)"
    and parse_null: "parse ZNull v = (if v = JNull then Some v else None)"
    and parse_literal: "parse (ZLiteral l) v = (if v = l then Some v else None)"
    and parse_enum: "parse (ZEnum names) v =
      (case v of JStr s \<Rightarrow> if s \<in> set (map js names) then Some v else None | _ \<Rightarrow> None)"
    and parse_array: "parse (ZArray s lo hi) v = (case v of
        JArr vs \<Rightarrow> if in_bounds lo hi (length vs) then map_option JArr (all_some (map (parse s) vs)) else None
      | _ \<Rightarrow> None)"
    and parse_record: "parse (ZRecord k s) v = (case v of
        JObj kvs \<Rightarrow> if list_all (\<lambda>kv. parse k (JStr (fst kv)) \<noteq> None) kvs
          then map_option (\<lambda>vs. JObj (zip (map fst kvs) vs)) (all_some (map (\<lambda>kv. parse s (snd kv)) kvs)) else None
      | _ \<Rightarrow> None)"
    and parse_object: "parse (ZObject mode fs) v = (case v of
        JObj kvs \<Rightarrow>
          if mode = Strict \<and> \<not> (\<forall>kv \<in> set kvs. fst kv \<in> known_keys fs) then None
          else map_option (\<lambda>parsed. JObj (parsed @ (if mode = Passthrough
                 then filter (\<lambda>kv. fst kv \<notin> known_keys fs) kvs else []))) (parse_fields parse fs kvs)
      | _ \<Rightarrow> None)"
    and parse_either: "parse (ZUnion ss) v = parse_union parse ss v"
    and parse_nullable: "parse (ZNullable s) v = (if v = JNull then Some v else parse s v)"
    and parse_json: "parse ZJson v = Some v"
    and parse_refine: "parse (ZRefine s p) v = (case parse s v of None \<Rightarrow> None | Some u \<Rightarrow> if p u then Some u else None)"

abbreviation req :: "string \<Rightarrow> schema \<Rightarrow> string \<times> presence \<times> schema" where "req k s \<equiv> (k, Required, s)"
abbreviation opt :: "string \<Rightarrow> schema \<Rightarrow> string \<times> presence \<times> schema" where "opt k s \<equiv> (k, Optional, s)"
abbreviation strict :: "(string \<times> presence \<times> schema) list \<Rightarrow> schema" where "strict fs \<equiv> ZObject Strict fs"
abbreviation lit :: "string \<Rightarrow> schema" where "lit s \<equiv> ZLiteral (JStr (js s))"

section \<open>schemas.ts\<close>

definition SessionIdSchema :: schema where "SessionIdSchema = ZString [SFormat FUuid]"
definition TraceIdSchema :: schema where "TraceIdSchema = ZString [SMin 1, SMax 128]"

definition frame_id_fits :: "json \<Rightarrow> bool" where
  "frame_id_fits v = (case v of JStr s \<Rightarrow> byteLength s \<le> 128 | _ \<Rightarrow> False)"

definition BrokerFrameIdSchema :: schema where "BrokerFrameIdSchema = ZRefine (ZString [SMin 1]) frame_id_fits"
definition BrokerErrorMessageSchema :: schema where "BrokerErrorMessageSchema = ZString [SMin 1, SMax 512]"

definition BrokerErrorDetailsSchema :: schema where
  "BrokerErrorDetailsSchema = ZRecord (ZString [SMin 1, SMax 128]) (ZUnion [ZString [SMax 512], ZNumber [], ZBoolean, ZNull])"

definition ApprovalModeSchema :: schema where "ApprovalModeSchema = ZEnum [''auto'', ''rule'', ''always'']"
definition IsolationDriverNameSchema :: schema where "IsolationDriverNameSchema = ZEnum [''firecracker'', ''container'']"
definition PolicyDecisionSchema :: schema where "PolicyDecisionSchema = ZEnum [''allow'', ''deny'', ''require_approval'']"

definition SessionStatusSchema :: schema where
  "SessionStatusSchema = ZEnum [''pending'', ''booting'', ''ready'', ''active'', ''suspended'', ''terminating'', ''terminated'', ''failed'']"

definition TerminalSessionStatusSchema :: schema where "TerminalSessionStatusSchema = ZEnum [''terminated'', ''failed'']"
definition SessionFailureReasonSchema :: schema where
  "SessionFailureReasonSchema = ZEnum [''start_timeout'', ''driver_error'', ''cleanup_pending'']"

text \<open>\<^verbatim>\<open>ErrorCodeSchema\<close> of errors.ts.\<close>

fun error_code_name :: "error_code \<Rightarrow> string" where
  "error_code_name INVALID_REQUEST = ''INVALID_REQUEST''" | "error_code_name SESSION_NOT_FOUND = ''SESSION_NOT_FOUND''"
| "error_code_name SESSION_NOT_READY = ''SESSION_NOT_READY''" | "error_code_name SESSION_SUSPENDED = ''SESSION_SUSPENDED''"
| "error_code_name SESSION_EXPIRED = ''SESSION_EXPIRED''" | "error_code_name SCOPE_DENIED = ''SCOPE_DENIED''"
| "error_code_name POLICY_DENIED = ''POLICY_DENIED''" | "error_code_name POLICY_UNAVAILABLE = ''POLICY_UNAVAILABLE''"
| "error_code_name APPROVAL_REQUIRED = ''APPROVAL_REQUIRED''" | "error_code_name APPROVAL_DENIED = ''APPROVAL_DENIED''"
| "error_code_name APPROVAL_TIMEOUT = ''APPROVAL_TIMEOUT''" | "error_code_name APPROVAL_UNAVAILABLE = ''APPROVAL_UNAVAILABLE''"
| "error_code_name SECRET_UNAVAILABLE = ''SECRET_UNAVAILABLE''" | "error_code_name AUDIT_UNAVAILABLE = ''AUDIT_UNAVAILABLE''"
| "error_code_name ADAPTER_NOT_FOUND = ''ADAPTER_NOT_FOUND''" | "error_code_name METHOD_NOT_FOUND = ''METHOD_NOT_FOUND''"
| "error_code_name PARAMS_INVALID = ''PARAMS_INVALID''" | "error_code_name SERVICE_TIMEOUT = ''SERVICE_TIMEOUT''"
| "error_code_name SERVICE_ERROR = ''SERVICE_ERROR''" | "error_code_name RATE_LIMITED = ''RATE_LIMITED''"
| "error_code_name SANDBOX_FAILED = ''SANDBOX_FAILED''" | "error_code_name BINARY_NOT_ALLOWED = ''BINARY_NOT_ALLOWED''"
| "error_code_name PATH_DENIED = ''PATH_DENIED''" | "error_code_name INTERNAL = ''INTERNAL''"

definition all_error_codes :: "error_code list" where
  "all_error_codes = [INVALID_REQUEST, SESSION_NOT_FOUND, SESSION_NOT_READY, SESSION_SUSPENDED, SESSION_EXPIRED, SCOPE_DENIED,
     POLICY_DENIED, POLICY_UNAVAILABLE, APPROVAL_REQUIRED, APPROVAL_DENIED, APPROVAL_TIMEOUT, APPROVAL_UNAVAILABLE,
     SECRET_UNAVAILABLE, AUDIT_UNAVAILABLE, ADAPTER_NOT_FOUND, METHOD_NOT_FOUND, PARAMS_INVALID, SERVICE_TIMEOUT,
     SERVICE_ERROR, RATE_LIMITED, SANDBOX_FAILED, BINARY_NOT_ALLOWED, PATH_DENIED, INTERNAL]"

definition ErrorCodeSchema :: schema where "ErrorCodeSchema = ZEnum (map error_code_name all_error_codes)"

definition BrokerCallBodySchema :: schema where
  "BrokerCallBodySchema = strict
     [req ''service'' (ZString [SMin 1]), req ''method'' (ZString [SMin 1]), req ''params'' (ZRecord (ZString []) ZJson),
      req ''idempotencyKey'' (ZString [SMin 1]), req ''intent'' (ZString [STrim, SMin 1])]"

definition BrokerCallRequestSchema :: schema where
  "BrokerCallRequestSchema = strict
     [req ''id'' BrokerFrameIdSchema, req ''op'' (lit ''broker.call''), req ''body'' BrokerCallBodySchema]"

definition WorkspacePathSchema :: schema where "WorkspacePathSchema = ZString [SMin 1, SMax 4096]"
definition WorkspaceContentSchema :: schema where "WorkspaceContentSchema = ZString [SMax (2 * 1024 * 1024)]"
definition WorkspaceMatchSchema :: schema where "WorkspaceMatchSchema = ZString [SMin 1, SMax (2 * 1024 * 1024)]"

text \<open>\<^verbatim>\<open>ToolRequestBaseSchema.extend({ op, body }).strict()\<close>\<close>

definition tool_request :: "string \<Rightarrow> schema \<Rightarrow> schema" where
  "tool_request op body = strict [req ''id'' BrokerFrameIdSchema, req ''op'' (lit op), req ''body'' body]"

definition range_ordered :: "json \<Rightarrow> bool" where
  "range_ordered v = (case v of JObj kvs \<Rightarrow>
     (case (map_of kvs (js ''start''), map_of kvs (js ''end'')) of (Some (JNum a), Some (JNum b)) \<Rightarrow> a < b | _ \<Rightarrow> False) | _ \<Rightarrow> False)"

definition FsReadRequestSchema :: schema where
  "FsReadRequestSchema = tool_request ''fs.read'' (strict
     [req ''path'' WorkspacePathSchema,
      opt ''range'' (ZRefine (strict [req ''start'' (ZNumber [NInt, NNonnegative]), req ''end'' (ZNumber [NInt, NPositive])])
        range_ordered)])"

definition FsWriteRequestSchema :: schema where
  "FsWriteRequestSchema = tool_request ''fs.write'' (strict
     [req ''path'' WorkspacePathSchema, req ''content'' WorkspaceContentSchema])"

definition FsEditRequestSchema :: schema where
  "FsEditRequestSchema = tool_request ''fs.edit'' (strict
     [req ''path'' WorkspacePathSchema, req ''oldString'' WorkspaceMatchSchema, req ''newString'' WorkspaceContentSchema])"

definition FsSearchRequestSchema :: schema where
  "FsSearchRequestSchema = tool_request ''fs.search'' (strict
     [req ''pattern'' (ZString [SMin 1, SMax 4096]), opt ''path'' WorkspacePathSchema,
      opt ''opts'' (strict [opt ''fixedStrings'' ZBoolean, opt ''caseSensitive'' ZBoolean])])"

definition ProcExecRequestSchema :: schema where
  "ProcExecRequestSchema = tool_request ''proc.exec'' (strict
     [req ''argv'' (ZArray (ZString [SMin 1, SMax 8192]) (Some 1) (Some 128)), opt ''cwd'' WorkspacePathSchema,
      opt ''timeoutMs'' (ZNumber [NInt, NPositive, NMax 300000])])"

definition UserAskRequestSchema :: schema where
  "UserAskRequestSchema = tool_request ''user.ask'' (strict
     [req ''question'' (ZString [STrim, SMin 1, SMax 8192]),
      opt ''options'' (ZArray (ZString [STrim, SMin 1, SMax 1024]) (Some 1) (Some 20))])"

definition LocalToolRequestSchema :: schema where
  "LocalToolRequestSchema = ZUnion [FsReadRequestSchema, FsWriteRequestSchema, FsEditRequestSchema, FsSearchRequestSchema,
     ProcExecRequestSchema, UserAskRequestSchema]"

definition LocalAuthorizedResponseSchema :: schema where
  "LocalAuthorizedResponseSchema = strict [req ''id'' BrokerFrameIdSchema, req ''ok'' (ZLiteral (JBool True)),
     req ''body'' (strict [req ''actionId'' SessionIdSchema, req ''authorized'' (ZLiteral (JBool True))])]"

definition LocalCompletionErrorSchema :: schema where
  "LocalCompletionErrorSchema = strict
     [req ''code'' ErrorCodeSchema, req ''message'' BrokerErrorMessageSchema, req ''details'' BrokerErrorDetailsSchema]"

definition has_key :: "string \<Rightarrow> json \<Rightarrow> bool" where
  "has_key k v = (case v of JObj kvs \<Rightarrow> map_of kvs (js k) \<noteq> None | _ \<Rightarrow> False)"

definition outcome_is :: "string \<Rightarrow> json \<Rightarrow> bool" where
  "outcome_is o' v = (case v of JObj kvs \<Rightarrow> map_of kvs (js ''outcome'') = Some (JStr (js o')) | _ \<Rightarrow> False)"

definition LocalCompletionRequestSchema :: schema where
  "LocalCompletionRequestSchema = strict [req ''id'' BrokerFrameIdSchema, req ''op'' (lit ''local.completed''),
     req ''body'' (ZRefine (ZUnion
       [strict [req ''actionId'' SessionIdSchema, req ''outcome'' (lit ''success''), req ''result'' ZJson],
        strict [req ''actionId'' SessionIdSchema, req ''outcome'' (lit ''failure''), req ''error'' LocalCompletionErrorSchema]])
       (\<lambda>b. outcome_is ''success'' b \<and> has_key ''result'' b \<or> outcome_is ''failure'' b \<and> has_key ''error'' b))]"

definition AgentOperationRequestSchema :: schema where
  "AgentOperationRequestSchema = ZUnion [BrokerCallRequestSchema, LocalToolRequestSchema]"

definition error_reply :: schema where
  "error_reply = strict [req ''id'' BrokerFrameIdSchema, req ''ok'' (ZLiteral (JBool False)),
     req ''error'' (strict [req ''code'' ErrorCodeSchema, req ''message'' BrokerErrorMessageSchema,
       req ''details'' BrokerErrorDetailsSchema, opt ''actionId'' SessionIdSchema])]"

definition BrokerCallResponseSchema :: schema where
  "BrokerCallResponseSchema = ZUnion
     [strict [req ''id'' BrokerFrameIdSchema, req ''ok'' (ZLiteral (JBool True)),
        req ''body'' (strict [req ''result'' ZJson,
          req ''meta'' (strict [req ''durationMs'' (ZNumber [NInt, NNonnegative]), req ''redactionCount'' (ZNumber [NInt, NNonnegative]),
            req ''roleUsed'' (ZString [SMax 128]), req ''actionId'' SessionIdSchema, opt ''truncated'' ZBoolean])])],
      error_reply]"

definition LocalToolResponseSchema :: schema where
  "LocalToolResponseSchema = ZUnion
     [strict [req ''id'' BrokerFrameIdSchema, req ''ok'' (ZLiteral (JBool True)),
        req ''body'' (strict [req ''result'' ZJson,
          req ''meta'' (strict [req ''actionId'' SessionIdSchema, req ''durationMs'' (ZNumber [NInt, NNonnegative]),
            opt ''truncated'' ZBoolean])])],
      error_reply]"

definition AgentOperationResponseSchema :: schema where
  "AgentOperationResponseSchema = ZUnion [BrokerCallResponseSchema, LocalToolResponseSchema]"

definition DriverCapabilitiesSchema :: schema where
  "DriverCapabilitiesSchema = strict [req ''hardwareIsolation'' ZBoolean, req ''snapshotSupport'' ZBoolean,
     req ''maxConcurrent'' (ZNumber [NInt, NPositive])]"

definition CreateSessionRequestSchema :: schema where
  "CreateSessionRequestSchema = strict
     [req ''agent'' (strict [req ''image'' (ZString [SMin 1]), (''entrypoint'', Default (JStr (js ''default'')), ZString [SMin 1])]),
      req ''scopes'' (ZArray (ZString [SMin 1]) (Some 1) None), req ''approvalMode'' ApprovalModeSchema,
      opt ''policyBundleId'' SessionIdSchema, req ''ttlSeconds'' (ZNumber [NInt, NPositive]),
      req ''idleTimeoutSeconds'' (ZNumber [NInt, NPositive]), req ''requestedBy'' (ZString [STrim, SMin 1]),
      opt ''purpose'' (ZString []), (''metadata'', Default (JObj []), ZRecord (ZString []) ZJson)]"

definition CreateSessionResponseSchema :: schema where
  "CreateSessionResponseSchema = strict
     [req ''sessionId'' SessionIdSchema, req ''status'' (lit ''booting''), req ''driver'' IsolationDriverNameSchema,
      req ''hardwareIsolated'' ZBoolean, req ''expiresAt'' (ZString [SFormat FDatetime]), req ''websocketUrl'' (ZString [SFormat FUrl])]"

definition GetSessionResponseSchema :: schema where
  "GetSessionResponseSchema = strict
     [req ''sessionId'' SessionIdSchema, req ''status'' SessionStatusSchema, req ''scopes'' (ZArray (ZString []) None None),
      req ''driver'' (ZNullable IsolationDriverNameSchema), req ''hardwareIsolated'' ZBoolean, req ''intent'' (ZNullable (ZString [])),
      req ''requestedBy'' (ZString []), req ''policyBundleId'' SessionIdSchema, req ''createdAt'' (ZString [SFormat FDatetime]),
      req ''expiresAt'' (ZString [SFormat FDatetime]), req ''lastActivityAt'' (ZString [SFormat FDatetime]),
      req ''failureReason'' (ZNullable SessionFailureReasonSchema),
      req ''actionCounts'' (strict [req ''allow'' (ZNumber [NInt, NNonnegative]), req ''deny'' (ZNumber [NInt, NNonnegative]),
        req ''requireApproval'' (ZNumber [NInt, NNonnegative])]),
      req ''pendingApprovals'' (ZNumber [NInt, NNonnegative])]"

definition DeleteSessionResponseSchema :: schema where
  "DeleteSessionResponseSchema = strict [req ''sessionId'' SessionIdSchema, req ''status'' TerminalSessionStatusSchema]"

definition ErrorResponseSchema :: schema where
  "ErrorResponseSchema = strict [req ''error'' (strict [req ''code'' ErrorCodeSchema, req ''message'' BrokerErrorMessageSchema,
     req ''details'' BrokerErrorDetailsSchema, req ''traceId'' TraceIdSchema])]"

section \<open>Trimming\<close>

lemma dropWhile_last_keep:
  "dropWhile p (rev (dropWhile p (rev (dropWhile p s)))) = rev (dropWhile p (rev (dropWhile p s)))"
proof -
  define t where "t = dropWhile p s"
  have hd: "t \<noteq> [] \<Longrightarrow> \<not> p (hd t)" using hd_dropWhile [of p s] by (auto simp: t_def)
  obtain pre where pre: "t = rev (dropWhile p (rev t)) @ pre"
    by (metis rev_append rev_rev_ident takeWhile_dropWhile_id)
  show ?thesis
  proof (cases "rev (dropWhile p (rev t)) = []")
    case False
    then have "hd (rev (dropWhile p (rev t))) = hd t" "t \<noteq> []" using pre by (metis hd_append2, auto)
    with hd False show ?thesis unfolding t_def [symmetric] by (metis dropWhile_eq_self_iff)
  next
    case True
    then show ?thesis unfolding t_def by (simp only: dropWhile.simps)
  qed
qed

lemma dropWhile_twice: "dropWhile p (dropWhile p s) = dropWhile p s"
  by (induction s) auto

lemma trim_idem [simp]: "trim (trim s) = trim s"
  unfolding trim_def by (simp only: dropWhile_last_keep rev_rev_ident dropWhile_twice)

section \<open>What the contracts admit\<close>

context schema_library
begin

text \<open>A strict object has no key but the declared ones, every required key, and each value passes its schema.\<close>

lemma parse_fields_keys:
  "parse_fields parse fs kvs = Some ps \<Longrightarrow> (k, Required, s) \<in> set fs \<Longrightarrow>
     \<exists>x y. map_of kvs (js k) = Some x \<and> parse s x = Some y \<and> (js k, y) \<in> set ps"
proof (induction fs arbitrary: ps)
  case (Cons f fs)
  obtain k' pr s' where f: "f = (k', pr, s')" by (metis prod_cases3)
  from Cons.prems(1) have "\<exists>qs. parse_fields parse fs kvs = Some qs \<and> set qs \<subseteq> set ps"
    by (auto simp: f split: option.splits presence.splits)
  then obtain qs where qs: "parse_fields parse fs kvs = Some qs" "set qs \<subseteq> set ps" by blast
  show ?case
  proof (cases "f = (k, Required, s)")
    case True
    then show ?thesis using Cons.prems(1) by (auto split: option.splits)
  next
    case False
    with Cons.prems(2) Cons.IH [OF qs(1)] qs(2) show ?thesis by auto
  qed
qed simp

lemma parse_strict:
  assumes "parse (ZObject Strict fs) v = Some u"
  obtains kvs ps where "v = JObj kvs" "u = JObj ps" "parse_fields parse fs kvs = Some ps" "fst ` set kvs \<subseteq> known_keys fs"
  using assms by (auto simp: parse_object split: json.splits if_splits)

lemma string_accepted: "parse (ZString cs) v = Some u \<longleftrightarrow> (\<exists>s t. v = JStr s \<and> check_string fmt cs s = Some t \<and> u = JStr t)"
  by (auto simp: parse_string split: json.splits)

lemma refine_accepted: "parse (ZRefine s p) v = Some u \<longleftrightarrow> parse s v = Some u \<and> p u"
  by (auto simp: parse_refine split: option.splits)

lemma frame_id_accepted:
  "parse BrokerFrameIdSchema v = Some u \<Longrightarrow> \<exists>i. u = JStr i \<and> v = u \<and> i \<noteq> [] \<and> byteLength i \<le> 128"
  unfolding BrokerFrameIdSchema_def refine_accepted string_accepted by (auto simp: frame_id_fits_def split: if_splits)

lemma tool_request_accepted:
  assumes "parse (tool_request op body) v = Some u"
  shows "\<exists>i b. u = JObj [(js ''id'', JStr i), (js ''op'', JStr (js op)), (js ''body'', b)] \<and> i \<noteq> [] \<and> byteLength i \<le> 128
     \<and> (\<exists>x. parse body x = Some b) \<and> has_key ''op'' v"
  using assms unfolding tool_request_def
  by (cases rule: parse_strict)
    (auto split: option.splits if_splits simp: has_key_def parse_literal dest!: frame_id_accepted)

lemma broker_request_accepted:
  assumes "parse BrokerCallRequestSchema v = Some u"
  shows "\<exists>kvs i svc m ps key intent. v = JObj kvs \<and> fst ` set kvs \<subseteq> {js ''id'', js ''op'', js ''body''}
     \<and> u = JObj [(js ''id'', JStr i), (js ''op'', JStr (js ''broker.call'')), (js ''body'', JObj [(js ''service'', JStr svc),
         (js ''method'', JStr m), (js ''params'', JObj ps), (js ''idempotencyKey'', JStr key), (js ''intent'', JStr intent)])]
     \<and> i \<noteq> [] \<and> byteLength i \<le> 128 \<and> svc \<noteq> [] \<and> m \<noteq> [] \<and> key \<noteq> [] \<and> intent \<noteq> [] \<and> trim intent = intent"
proof -
  from assms obtain kvs bs where v: "v = JObj kvs" and k: "fst ` set kvs \<subseteq> {js ''id'', js ''op'', js ''body''}"
    and f: "parse_fields parse [req ''id'' BrokerFrameIdSchema, req ''op'' (lit ''broker.call''), req ''body'' BrokerCallBodySchema] kvs
      = Some bs" and u: "u = JObj bs"
    unfolding BrokerCallRequestSchema_def by (cases rule: parse_strict) (auto simp: known_keys_def)
  from f obtain i x b where bs: "bs = [(js ''id'', JStr i), (js ''op'', JStr (js ''broker.call'')), (js ''body'', b)]"
    "i \<noteq> []" "byteLength i \<le> 128" and b: "parse BrokerCallBodySchema x = Some b"
    by (auto simp: parse_literal split: option.splits if_splits dest!: frame_id_accepted)
  from b obtain svc m ps key intent where "b = JObj [(js ''service'', JStr svc), (js ''method'', JStr m), (js ''params'', JObj ps),
      (js ''idempotencyKey'', JStr key), (js ''intent'', JStr intent)]" "svc \<noteq> []" "m \<noteq> []" "key \<noteq> []" "intent \<noteq> []"
      "trim intent = intent"
    unfolding BrokerCallBodySchema_def
    by (cases rule: parse_strict) (auto simp: parse_string parse_record split: option.splits if_splits json.splits)
  with v k u bs show ?thesis by blast
qed

end

section \<open>A function that meets the laws\<close>

fun zod :: "(string_format \<Rightarrow> utf16 \<Rightarrow> bool) \<Rightarrow> schema \<Rightarrow> json \<Rightarrow> json option"
and zod_fields :: "(string_format \<Rightarrow> utf16 \<Rightarrow> bool) \<Rightarrow> (string \<times> presence \<times> schema) list
    \<Rightarrow> (utf16 \<times> json) list \<Rightarrow> (utf16 \<times> json) list option"
and zod_union :: "(string_format \<Rightarrow> utf16 \<Rightarrow> bool) \<Rightarrow> schema list \<Rightarrow> json \<Rightarrow> json option" where
  "zod fmt (ZString cs) v = (case v of JStr s \<Rightarrow> map_option JStr (check_string fmt cs s) | _ \<Rightarrow> None)"
| "zod fmt (ZNumber cs) v = (case v of JNum r \<Rightarrow> if list_all (\<lambda>c. check_number c r) cs then Some v else None | _ \<Rightarrow> None)"
| "zod fmt ZBoolean v = (case v of JBool _ \<Rightarrow> Some v | _ \<Rightarrow> None)"
| "zod fmt ZNull v = (if v = JNull then Some v else None)"
| "zod fmt (ZLiteral l) v = (if v = l then Some v else None)"
| "zod fmt (ZEnum names) v = (case v of JStr s \<Rightarrow> if s \<in> set (map js names) then Some v else None | _ \<Rightarrow> None)"
| "zod fmt (ZArray s lo hi) v = (case v of
     JArr vs \<Rightarrow> if in_bounds lo hi (length vs) then map_option JArr (all_some (map (zod fmt s) vs)) else None
   | _ \<Rightarrow> None)"
| "zod fmt (ZRecord k s) v = (case v of
     JObj kvs \<Rightarrow> if list_all (\<lambda>kv. zod fmt k (JStr (fst kv)) \<noteq> None) kvs
       then map_option (\<lambda>vs. JObj (zip (map fst kvs) vs)) (all_some (map (\<lambda>kv. zod fmt s (snd kv)) kvs)) else None
   | _ \<Rightarrow> None)"
| "zod fmt (ZObject mode fs) v = (case v of
     JObj kvs \<Rightarrow>
       if mode = Strict \<and> \<not> (\<forall>kv \<in> set kvs. fst kv \<in> known_keys fs) then None
       else map_option (\<lambda>parsed. JObj (parsed @ (if mode = Passthrough
              then filter (\<lambda>kv. fst kv \<notin> known_keys fs) kvs else []))) (zod_fields fmt fs kvs)
   | _ \<Rightarrow> None)"
| "zod fmt (ZUnion ss) v = zod_union fmt ss v"
| "zod fmt (ZNullable s) v = (if v = JNull then Some v else zod fmt s v)"
| "zod fmt ZJson v = Some v"
| "zod fmt (ZRefine s p) v = (case zod fmt s v of None \<Rightarrow> None | Some u \<Rightarrow> if p u then Some u else None)"
| "zod_fields fmt [] kvs = Some []"
| "zod_fields fmt ((k, pr, s) # fs) kvs =
     (case map_of kvs (js k) of
        None \<Rightarrow> (case pr of
            Required \<Rightarrow> None
          | Optional \<Rightarrow> zod_fields fmt fs kvs
          | Default d \<Rightarrow> map_option (\<lambda>r. (js k, d) # r) (zod_fields fmt fs kvs))
      | Some x \<Rightarrow> (case zod fmt s x of
            None \<Rightarrow> None
          | Some y \<Rightarrow> map_option (\<lambda>r. (js k, y) # r) (zod_fields fmt fs kvs)))"
| "zod_union fmt [] v = None"
| "zod_union fmt (s # ss) v = (case zod fmt s v of Some u \<Rightarrow> Some u | None \<Rightarrow> zod_union fmt ss v)"

lemma zod_fields_eq: "zod_fields fmt fs kvs = parse_fields (zod fmt) fs kvs"
  by (induction fs) (auto split: option.splits presence.splits)

lemma zod_union_eq: "zod_union fmt ss v = parse_union (zod fmt) ss v"
  by (induction ss) (auto split: option.splits)

interpretation zod: schema_library fmt "zod fmt" for fmt
  by unfold_locales (simp_all only: zod.simps zod_fields_eq zod_union_eq)

text \<open>The broker contract is closed: an accepted request is an object with no keys but id, op and body, and
  what the pipeline receives has exactly the declared fields: a frame id of 1 to 128 UTF-8 bytes, a
  non-empty service, method and idempotency key, an object of parameters, and a trimmed, non-empty intent.\<close>

theorem broker_request_contract:
  assumes "schema_library fmt parse" and "parse BrokerCallRequestSchema v = Some u"
  shows "\<exists>kvs i svc m ps key intent. v = JObj kvs \<and> fst ` set kvs \<subseteq> {js ''id'', js ''op'', js ''body''}
     \<and> u = JObj [(js ''id'', JStr i), (js ''op'', JStr (js ''broker.call'')), (js ''body'', JObj [(js ''service'', JStr svc),
         (js ''method'', JStr m), (js ''params'', JObj ps), (js ''idempotencyKey'', JStr key), (js ''intent'', JStr intent)])]
     \<and> i \<noteq> [] \<and> byteLength i \<le> 128 \<and> svc \<noteq> [] \<and> m \<noteq> [] \<and> key \<noteq> [] \<and> intent \<noteq> [] \<and> trim intent = intent"
  using schema_library.broker_request_accepted [OF assms] .

definition demo_broker_request :: json where
  "demo_broker_request = JObj [(js ''op'', JStr (js ''broker.call'')), (js ''id'', JStr (js ''f1'')), (js ''body'',
     JObj [(js ''service'', JStr (js ''db'')), (js ''method'', JStr (js ''query'')), (js ''params'', JObj []),
       (js ''idempotencyKey'', JStr (js ''k'')), (js ''intent'', JStr (js '' read ''))])]"

definition demo_broker_parsed :: json where
  "demo_broker_parsed = JObj [(js ''id'', JStr (js ''f1'')), (js ''op'', JStr (js ''broker.call'')), (js ''body'',
     JObj [(js ''service'', JStr (js ''db'')), (js ''method'', JStr (js ''query'')), (js ''params'', JObj []),
       (js ''idempotencyKey'', JStr (js ''k'')), (js ''intent'', JStr (js ''read''))])]"

lemma demo_broker_accepted: "zod (\<lambda>_ _. True) BrokerCallRequestSchema demo_broker_request = Some demo_broker_parsed"
  by code_simp

theorem broker_request_contract_witness:
  "\<exists>i svc m ps key intent. demo_broker_parsed = JObj [(js ''id'', JStr i), (js ''op'', JStr (js ''broker.call'')),
       (js ''body'', JObj [(js ''service'', JStr svc), (js ''method'', JStr m), (js ''params'', JObj ps),
         (js ''idempotencyKey'', JStr key), (js ''intent'', JStr intent)])] \<and> trim intent = intent"
  using broker_request_contract [OF zod.schema_library_axioms demo_broker_accepted] by blast

end
