(* ===== verification/Policy.thy ===== *)
theory Policy
  imports Audit_Trail Schemas
begin

text \<open>
  \<^verbatim>\<open>packages/policy/src/policy-evaluator.ts\<close>: evaluation of a compiled policy bundle, fail-closed, and the
  loader with its cache; and \<^verbatim>\<open>SystemAuditWriter\<close> of \<^verbatim>\<open>packages/audit/src/system-audit.ts\<close>. The OPA package is a
  parameter: \<open>loadPolicy\<close> gives the policy of a WASM blob or fails, and a policy is the function its
  \<^verbatim>\<open>evaluate\<close> computes, which may throw.
\<close>

section \<open>Evaluation (PolicyEvaluator)\<close>

definition PolicyResultSchema :: schema where
  "PolicyResultSchema = strict
     [req ''decision'' PolicyDecisionSchema, req ''reason'' (ZString [SMin 1, SMax 512]),
      req ''obligations'' (ZArray (ZString [SMin 1, SMax 128]) None (Some 32)),
      req ''matchedRules'' (ZArray (ZString [SMin 1, SMax 128]) (Some 1) (Some 32))]"

datatype policy_verdict = Allow | Deny | RequireApproval

fun verdict_name :: "policy_verdict \<Rightarrow> string" where
  "verdict_name Allow = ''allow''" | "verdict_name Deny = ''deny''" | "verdict_name RequireApproval = ''require_approval''"

record policy_decision =
  pd_decision :: policy_verdict
  pd_reason :: utf16
  pd_obligations :: "utf16 list"
  pd_matchedRules :: "utf16 list"

type_synonym opa_policy = "json \<Rightarrow> js_error + json"

record loaded_bundle =
  lb_id :: string
  lb_version :: string
  lb_evaluator :: opa_policy

text \<open>The parsed object as a record.\<close>

definition verdict_of :: "utf16 \<Rightarrow> policy_verdict option" where
  "verdict_of s = List.find (\<lambda>v. js (verdict_name v) = s) [Allow, Deny, RequireApproval]"

fun string_of :: "json \<Rightarrow> utf16 option" where
  "string_of (JStr s) = Some s"
| "string_of _ = None"

definition strings_of :: "json \<Rightarrow> utf16 list option" where
  "strings_of v = (case v of JArr vs \<Rightarrow> all_some (map string_of vs) | _ \<Rightarrow> None)"

definition decision_of :: "json \<Rightarrow> policy_decision option" where
  "decision_of v = (case v of
     JObj [(_, JStr d), (_, JStr r), (_, obs), (_, rules)] \<Rightarrow>
       (case (verdict_of d, strings_of obs, strings_of rules) of
          (Some verdict, Some os, Some rs) \<Rightarrow>
            Some \<lparr>pd_decision = verdict, pd_reason = r, pd_obligations = os, pd_matchedRules = rs\<rparr>
        | _ \<Rightarrow> None)
   | _ \<Rightarrow> None)"

definition fromWasm :: "(byte list \<Rightarrow> opa_policy option) \<Rightarrow> byte list \<Rightarrow> js_error + opa_policy" where
  "fromWasm loadPolicy wasm = (case loadPolicy wasm of
     None \<Rightarrow> Inl (Caisson POLICY_UNAVAILABLE ''policy bundle could not be loaded'')
   | Some p \<Rightarrow> Inr p)"

text \<open>The body of the \<^verbatim>\<open>try\<close> block of \<^verbatim>\<open>evaluate\<close>; a schema error is not a \<^verbatim>\<open>CaissonError\<close>.\<close>

definition evaluate_body :: "(schema \<Rightarrow> json \<Rightarrow> json option) \<Rightarrow> opa_policy \<Rightarrow> json \<Rightarrow> js_error + policy_decision" where
  "evaluate_body parse policy input =
     (let invalid = Inl (Caisson POLICY_UNAVAILABLE ''policy bundle returned an invalid result'') in
      case policy input of
        Inl e \<Rightarrow> Inl e
      | Inr results \<Rightarrow> (case results of
          JArr [entry] \<Rightarrow> (case entry of
              JObj kvs \<Rightarrow> (case map_of kvs (js ''result'') of
                  None \<Rightarrow> invalid
                | Some r \<Rightarrow> (case parse PolicyResultSchema r of
                    None \<Rightarrow> Inl ForeignError
                  | Some u \<Rightarrow> (case decision_of u of None \<Rightarrow> Inl ForeignError | Some d \<Rightarrow> Inr d)))
            | _ \<Rightarrow> invalid)
        | _ \<Rightarrow> invalid))"

definition evaluate :: "(schema \<Rightarrow> json \<Rightarrow> json option) \<Rightarrow> opa_policy \<Rightarrow> json \<Rightarrow> js_error + policy_decision" where
  "evaluate parse policy input = (case evaluate_body parse policy input of
     Inl e \<Rightarrow> Inl (if is_caisson e then e else Caisson POLICY_UNAVAILABLE ''policy evaluation failed'')
   | Inr d \<Rightarrow> Inr d)"

section \<open>Loading (PolicyBundleLoader)\<close>

record policy_world = world +
  pw_loaded :: "string \<rightharpoonup> loaded_bundle"

definition bundle_rows :: "string \<Rightarrow> db \<Rightarrow> bundle_row list" where
  "bundle_rows bundleId d = filter (\<lambda>b. pb_id b = bundleId \<and> pb_retired_at b = None) (policy_bundles d)"

definition load :: "(byte list \<Rightarrow> opa_policy option) \<Rightarrow> string \<Rightarrow> ('z policy_world_scheme, loaded_bundle) proc" where
  "load loadPolicy bundleId =
     bnd (gets (\<lambda>w. pw_loaded w bundleId)) (\<lambda>cached. case cached of
       Some b \<Rightarrow> ret b
     | None \<Rightarrow>
         bnd (query (select (bundle_rows bundleId))) (\<lambda>rows. case rows of
           [] \<Rightarrow> throw (Caisson POLICY_UNAVAILABLE ''policy bundle is unavailable'')
         | bundle # _ \<Rightarrow>
             bnd (of_result (fromWasm loadPolicy (pb_wasm_blob bundle))) (\<lambda>evaluator.
               let loaded = \<lparr>lb_id = pb_id bundle, lb_version = pb_version bundle, lb_evaluator = evaluator\<rparr> in
               seq (modify (\<lambda>w. w\<lparr>pw_loaded := (pw_loaded w)(bundleId \<mapsto> loaded)\<rparr>)) (ret loaded))))"

text \<open>An identifier out of a JSON document; one with a character past U+00FF is no uuid, and the query that
  looks it up fails.\<close>

definition id_of :: "utf16 \<Rightarrow> js_error + string" where
  "id_of s = (if list_all (\<lambda>u. uint u < 256) s then Inr (map (\<lambda>u. char_of (uint u)) s) else Inl ForeignError)"

definition loadActive :: "(byte list \<Rightarrow> opa_policy option) \<Rightarrow> ('z policy_world_scheme, loaded_bundle) proc" where
  "loadActive loadPolicy =
     bnd (query (select (\<lambda>d. filter (\<lambda>s. st_key s = ''active_policy_bundle'') (settings d)))) (\<lambda>rows.
       let unavailable = throw (Caisson POLICY_UNAVAILABLE ''active policy bundle is unavailable'') in
       case rows of
         [] \<Rightarrow> unavailable
       | s # _ \<Rightarrow> (case st_value s of
           JObj kvs \<Rightarrow> (case map_of kvs (js ''policyBundleId'') of
               Some (JStr b) \<Rightarrow> if b = [] then unavailable else bnd (of_result (id_of b)) (load loadPolicy)
             | _ \<Rightarrow> unavailable)
         | _ \<Rightarrow> unavailable))"

section \<open>Administrative audit (SystemAuditWriter)\<close>

record system_audit_input =
  si_eventType :: string
  si_policyInput :: json
  si_outcome :: string
  si_durationMs :: int
  si_traceId :: string
  si_spanId :: string
  si_callerConnection :: "string option"

text \<open>\<^verbatim>\<open>randomUUID()\<close>: 16 random bytes with the version 4 and variant bits.\<close>

definition randomUUID :: "('z world_scheme, string) proc" where
  "randomUUID w = (case randomBytes 16 w of (bs, w1) \<Rightarrow>
     (Inr (uuid_format (bs[6 := or (and (bs ! 6) 0x0F) 0x40, 8 := or (and (bs ! 8) 0x3F) 0x80])), w1))"

definition insert_system_audit :: "system_audit_row \<Rightarrow> unit statement" where
  "insert_system_audit r d =
     (if (\<exists>q \<in> set (system_audit_events d). sy_id q = sy_id r) \<or> \<not> int4 (sy_duration_ms r) then Inl ForeignError
      else Inr ((), d\<lparr>system_audit_events := system_audit_events d @ [r]\<rparr>))"

definition system_write :: "(json \<Rightarrow> utf16) \<Rightarrow> (utf16 \<Rightarrow> string) \<Rightarrow> system_audit_input \<Rightarrow> ('z world_scheme, unit) proc" where
  "system_write stringify sha256 i =
     (if containsSecretShape (si_policyInput i)
      then throw (Caisson INVALID_REQUEST ''policy simulation input contains secret-shaped data'')
      else try_catch
        (bnd randomUUID (\<lambda>rid. bnd (gets now) (\<lambda>t.
           query (insert_system_audit \<lparr>sy_id = rid, sy_timestamp = t, sy_event_type = si_eventType i,
             sy_input_hash = sha256 (stringify (si_policyInput i)), sy_outcome = si_outcome i, sy_duration_ms = si_durationMs i,
             sy_trace_id = si_traceId i, sy_span_id = si_spanId i, sy_caller_connection = si_callerConnection i\<rparr>))))
        (\<lambda>_. throw (Caisson AUDIT_UNAVAILABLE ''system audit write failed'')))"

section \<open>Fail-closed evaluation\<close>

lemma all_some_Cons:
  "all_some (v # vs) = (case v of None \<Rightarrow> None | Some x \<Rightarrow> (case all_some vs of None \<Rightarrow> None | Some ys \<Rightarrow> Some (x # ys)))"
  by (cases v) auto

context schema_library
begin

lemma string_array_accepted:
  assumes "parse (ZArray (ZString [SMin a, SMax b]) lo hi) v = Some u"
  obtains ss where "u = JArr (map JStr ss)" "v = u" "in_bounds lo hi (length ss)" "\<forall>s \<in> set ss. a \<le> length s \<and> length s \<le> b"
proof -
  from assms obtain vs us where v: "v = JArr vs" "in_bounds lo hi (length vs)" "u = JArr us"
    and all: "all_some (map (parse (ZString [SMin a, SMax b])) vs) = Some us"
    by (auto simp: parse_array split: json.splits if_splits)
  have *: "\<exists>ss. us = map JStr ss \<and> vs = us \<and> (\<forall>s \<in> set ss. a \<le> length s \<and> length s \<le> b)"
    using all
  proof (induction vs arbitrary: us)
    case Nil
    then show ?case by (auto intro: exI [of _ "[]"])
  next
    case (Cons x vs)
    from Cons.prems obtain y ys where y: "parse (ZString [SMin a, SMax b]) x = Some y" "us = y # ys"
      "all_some (map (parse (ZString [SMin a, SMax b])) vs) = Some ys"
      by (auto simp: all_some_Cons split: option.splits)
    from y(1) obtain s where s: "x = JStr s" "y = JStr s" "a \<le> length s" "length s \<le> b"
      by (auto simp: string_accepted split: if_splits)
    from Cons.IH [OF y(3)] obtain ss where "ys = map JStr ss" "vs = ys" "\<forall>s \<in> set ss. a \<le> length s \<and> length s \<le> b" by blast
    with s y(2) show ?case by (intro exI [of _ "s # ss"]) auto
  qed
  then obtain ss where "us = map JStr ss" "vs = us" "\<forall>s \<in> set ss. a \<le> length s \<and> length s \<le> b" by blast
  with v show thesis by (intro that [of ss]) auto
qed

lemma all_some_strings: "all_some (map string_of (map JStr ss)) = Some ss"
  by (induction ss) auto

lemma policy_result_accepted:
  assumes "parse PolicyResultSchema v = Some u"
  obtains d r os rs where "u = JObj [(js ''decision'', JStr (js (verdict_name d))), (js ''reason'', JStr r),
      (js ''obligations'', JArr (map JStr os)), (js ''matchedRules'', JArr (map JStr rs))]"
    "r \<noteq> []" "length r \<le> 512" "length os \<le> 32" "\<forall>x \<in> set os. x \<noteq> [] \<and> length x \<le> 128" "rs \<noteq> []"
proof -
  from assms obtain kvs ps where f: "parse_fields parse
      [req ''decision'' PolicyDecisionSchema, req ''reason'' (ZString [SMin 1, SMax 512]),
       req ''obligations'' (ZArray (ZString [SMin 1, SMax 128]) None (Some 32)),
       req ''matchedRules'' (ZArray (ZString [SMin 1, SMax 128]) (Some 1) (Some 32))] kvs = Some ps" and u: "u = JObj ps"
    unfolding PolicyResultSchema_def by (cases rule: parse_strict) auto
  then obtain d r o' m xd xr xo xm where ps: "ps = [(js ''decision'', d), (js ''reason'', r), (js ''obligations'', o'), (js ''matchedRules'', m)]"
    and p: "parse PolicyDecisionSchema xd = Some d" "parse (ZString [SMin 1, SMax 512]) xr = Some r"
      "parse (ZArray (ZString [SMin 1, SMax 128]) None (Some 32)) xo = Some o'"
      "parse (ZArray (ZString [SMin 1, SMax 128]) (Some 1) (Some 32)) xm = Some m"
    by (auto split: option.splits)
  from p(1) obtain v where d: "d = JStr (js (verdict_name v))"
    unfolding PolicyDecisionSchema_def parse_enum
    by (auto split: json.splits if_splits) (metis verdict_name.simps)+
  from p(2) obtain s where r: "r = JStr s" "s \<noteq> []" "length s \<le> 512" by (auto simp: string_accepted split: if_splits)
  from p(3) obtain os where os: "o' = JArr (map JStr os)" "length os \<le> 32" "\<forall>x \<in> set os. x \<noteq> [] \<and> length x \<le> 128"
    by (cases rule: string_array_accepted) (fastforce simp: in_bounds_def)
  from p(4) obtain rs where rs: "m = JArr (map JStr rs)" "rs \<noteq> []"
    by (cases rule: string_array_accepted) (fastforce simp: in_bounds_def)
  show thesis by (rule that [of v s os rs]) (use u ps d r os rs in simp_all)
qed

lemma policy_result_decoded:
  assumes "parse PolicyResultSchema v = Some u"
  shows "\<exists>d. decision_of u = Some d"
proof -
  have v: "verdict_of (js (verdict_name d)) = Some d" for d by (cases d) (simp_all add: verdict_of_def)
  from assms show ?thesis
    by (cases rule: policy_result_accepted)
      (auto simp: decision_of_def strings_of_def all_some_strings v simp del: map_map)
qed

lemma evaluate_accepted:
  assumes "evaluate parse policy input = Inr d"
  shows "\<exists>kvs r u. policy input = Inr (JArr [JObj kvs]) \<and> map_of kvs (js ''result'') = Some r
     \<and> parse PolicyResultSchema r = Some u \<and> decision_of u = Some d"
    and "pd_reason d \<noteq> [] \<and> length (pd_reason d) \<le> 512 \<and> length (pd_obligations d) \<le> 32
     \<and> (\<forall>x \<in> set (pd_obligations d). x \<noteq> [] \<and> length x \<le> 128) \<and> pd_matchedRules d \<noteq> []"
proof -
  from assms obtain kvs r u where *: "policy input = Inr (JArr [JObj kvs])" "map_of kvs (js ''result'') = Some r"
     "parse PolicyResultSchema r = Some u" "decision_of u = Some d"
    unfolding evaluate_def evaluate_body_def Let_def
    by (auto split: sum.splits json.splits list.splits option.splits)
  then show "\<exists>kvs r u. policy input = Inr (JArr [JObj kvs]) \<and> map_of kvs (js ''result'') = Some r
     \<and> parse PolicyResultSchema r = Some u \<and> decision_of u = Some d" by blast
  from *(3,4) show "pd_reason d \<noteq> [] \<and> length (pd_reason d) \<le> 512 \<and> length (pd_obligations d) \<le> 32
     \<and> (\<forall>x \<in> set (pd_obligations d). x \<noteq> [] \<and> length x \<le> 128) \<and> pd_matchedRules d \<noteq> []"
    by (cases rule: policy_result_accepted)
      (auto simp: decision_of_def strings_of_def all_some_strings simp del: map_map split: option.splits)
qed

end

lemma evaluate_error:
  assumes "evaluate parse policy input = Inl e" and "\<And>e'. policy input = Inl e' \<Longrightarrow> e' = ForeignError"
  shows "\<exists>m. e = Caisson POLICY_UNAVAILABLE m"
  using assms unfolding evaluate_def evaluate_body_def Let_def
  by (auto split: sum.splits json.splits list.splits option.splits if_splits)

text \<open>(C13) Policy evaluation is fail-closed: a decision is returned exactly when the policy produced one entry whose
  result passes the schema, and then its reason, obligations and rules are within the schema's bounds;
  every other outcome, a throwing policy included, is POLICY_UNAVAILABLE.\<close>

theorem policy_fail_closed:
  assumes "schema_library fmt parse" and "\<And>e. policy input = Inl e \<Longrightarrow> e = ForeignError"
  shows "case evaluate parse policy input of
     Inr d \<Rightarrow> (\<exists>kvs r u. policy input = Inr (JArr [JObj kvs]) \<and> map_of kvs (js ''result'') = Some r
        \<and> parse PolicyResultSchema r = Some u \<and> decision_of u = Some d)
        \<and> pd_reason d \<noteq> [] \<and> length (pd_reason d) \<le> 512 \<and> length (pd_obligations d) \<le> 32
        \<and> (\<forall>x \<in> set (pd_obligations d). x \<noteq> [] \<and> length x \<le> 128) \<and> pd_matchedRules d \<noteq> []
   | Inl e \<Rightarrow> (\<exists>m. e = Caisson POLICY_UNAVAILABLE m)
        \<and> \<not> (\<exists>kvs r u. policy input = Inr (JArr [JObj kvs]) \<and> map_of kvs (js ''result'') = Some r
             \<and> parse PolicyResultSchema r = Some u)"
proof (cases "evaluate parse policy input")
  case (Inr d)
  with schema_library.evaluate_accepted [OF assms(1) Inr] show ?thesis by simp
next
  case (Inl e)
  have "\<not> (\<exists>kvs r u. policy input = Inr (JArr [JObj kvs]) \<and> map_of kvs (js ''result'') = Some r
             \<and> parse PolicyResultSchema r = Some u)"
  proof
    assume "\<exists>kvs r u. policy input = Inr (JArr [JObj kvs]) \<and> map_of kvs (js ''result'') = Some r
             \<and> parse PolicyResultSchema r = Some u"
    then obtain kvs r u where *: "policy input = Inr (JArr [JObj kvs])" "map_of kvs (js ''result'') = Some r"
      "parse PolicyResultSchema r = Some u" by blast
    from schema_library.policy_result_decoded [OF assms(1) *(3)] * Inl show False
      by (auto simp: evaluate_def evaluate_body_def)
  qed
  with evaluate_error [OF Inl assms(2)] Inl show ?thesis by simp
qed

definition demo_policy :: opa_policy where
  "demo_policy input = Inr (JArr [JObj [(js ''result'', JObj [(js ''decision'', JStr (js ''allow'')), (js ''reason'', JStr (js ''ok'')),
     (js ''obligations'', JArr [JStr (js ''role:reader'')]), (js ''matchedRules'', JArr [JStr (js ''r1'')])])]])"

lemma demo_policy_allows:
  "evaluate (zod fmt) demo_policy v = Inr \<lparr>pd_decision = Allow, pd_reason = js ''ok'', pd_obligations = [js ''role:reader''],
     pd_matchedRules = [js ''r1'']\<rparr>"
  by (simp add: evaluate_def evaluate_body_def demo_policy_def PolicyResultSchema_def PolicyDecisionSchema_def known_keys_def
      in_bounds_def decision_of_def strings_of_def verdict_of_def)
    (simp add: js_def)

theorem policy_fail_closed_witness:
  "length (pd_reason \<lparr>pd_decision = Allow, pd_reason = js ''ok'', pd_obligations = [js ''role:reader''],
     pd_matchedRules = [js ''r1'']\<rparr>) \<le> 512 \<and> evaluate (zod (\<lambda>_ _. True)) demo_policy JNull \<noteq> Inl ForeignError"
  using policy_fail_closed [OF zod.schema_library_axioms, of demo_policy JNull "\<lambda>_ _. True"]
  unfolding demo_policy_allows by (simp add: demo_policy_def)

section \<open>The loader\<close>

definition cache_ok :: "'z policy_world_scheme \<Rightarrow> bool" where
  "cache_ok w \<longleftrightarrow> (\<forall>i b. pw_loaded w i = Some b \<longrightarrow> lb_id b = i)"

lemma pw_loaded_more: "world.more w' = world.more w \<Longrightarrow> pw_loaded w' = pw_loaded w"
  by (cases w, cases w') simp

lemma pw_loaded_query: "query f w = (r, w') \<Longrightarrow> pw_loaded w' = pw_loaded w"
  by (cases rule: query_cases [of f w r w']) (auto intro: pw_loaded_more)

lemma load_sound:
  assumes "cache_ok w" and "load loadPolicy i w = (r, w')"
  shows "cache_ok w' \<and> db w' = db w \<and> sink w' = sink w \<and> (case r of
     Inr b \<Rightarrow> lb_id b = i \<and> load loadPolicy i w' = (Inr b, w')
       \<and> (pw_loaded w i = Some b \<or> (\<exists>row \<in> set (policy_bundles (db w)). pb_id row = i \<and> pb_retired_at row = None
            \<and> loadPolicy (pb_wasm_blob row) = Some (lb_evaluator b) \<and> lb_version b = pb_version row))
   | Inl e \<Rightarrow> pw_loaded w' = pw_loaded w \<and> (e = ForeignError \<or> (\<exists>m. e = Caisson POLICY_UNAVAILABLE m)))"
proof (cases "pw_loaded w i")
  case (Some b)
  with assms show ?thesis by (auto simp: load_def bnd_def gets_def ret_def cache_ok_def)
next
  case None
  obtain rq wq where q: "query (select (bundle_rows i)) w = (rq, wq)" by fastforce
  have frame: "db wq = db w" "sink wq = sink w" "pw_loaded wq = pw_loaded w"
    using q pw_loaded_query [OF q] by (cases rule: query_cases; auto simp: select_def same_env_def)+
  show ?thesis
  proof (cases rq)
    case (Inl e)
    with q have "e = ForeignError" by (auto dest: query_error simp: select_def)
    with assms None q Inl frame show ?thesis by (auto simp: load_def bnd_def gets_def cache_ok_def)
  next
    case (Inr rows)
    from q Inr have rows: "rows = bundle_rows i (db w)" by (cases rule: query_cases) (auto simp: select_def)
    show ?thesis
    proof (cases rows)
      case Nil
      with assms None q Inr frame show ?thesis by (auto simp: load_def bnd_def gets_def cache_ok_def throw_def)
    next
      case (Cons row rest)
      with rows have row: "row \<in> set (policy_bundles (db w))" "pb_id row = i" "pb_retired_at row = None"
        by (auto simp: bundle_rows_def filter_eq_Cons_iff dest!: sym [of "row # rest"])
      show ?thesis
        using assms None q Inr frame Cons row
        by (auto simp: load_def bnd_def gets_def cache_ok_def throw_def ret_def modify_def of_result_def fromWasm_def Let_def
            split: option.splits if_splits)
    qed
  qed
qed

lemma load_more:
  assumes "load f i w = (r, w')"
  shows "policy_world.more w' = policy_world.more w"
proof -
  have m: "query g w = (q, w1) \<Longrightarrow> policy_world.more w1 = policy_world.more w" for g q w1
    by (cases rule: query_cases [of g w q w1], assumption) (cases w, cases w1, simp)+
  show ?thesis
    using assms unfolding load_def
    by (elim bndE) (auto simp: gets_def ret_def throw_def of_result_def modify_def Let_def bnd_def dest!: m
        split: option.splits list.splits sum.splits prod.splits)
qed

text \<open>The loader returns the bundle it was asked for: a bundle cached under that id, or the compiled blob of an
  unretired row with that id; it then keeps it, so the next load is the same bundle without a query.
  A failed load changes no cached bundle.\<close>

theorem policy_load_sound:
  assumes "cache_ok w" and "load loadPolicy i w = (r, w')"
  shows "cache_ok w' \<and> db w' = db w \<and> sink w' = sink w \<and> (case r of
     Inr b \<Rightarrow> lb_id b = i \<and> load loadPolicy i w' = (Inr b, w')
       \<and> (pw_loaded w i = Some b \<or> (\<exists>row \<in> set (policy_bundles (db w)). pb_id row = i \<and> pb_retired_at row = None
            \<and> loadPolicy (pb_wasm_blob row) = Some (lb_evaluator b) \<and> lb_version b = pb_version row))
   | Inl e \<Rightarrow> pw_loaded w' = pw_loaded w \<and> (e = ForeignError \<or> (\<exists>m. e = Caisson POLICY_UNAVAILABLE m)))"
  by (rule load_sound [OF assms])

definition demo_bundle :: bundle_row where
  "demo_bundle = \<lparr>pb_id = ''bundle'', pb_version = ''1'', pb_wasm_blob = [0, 0x61], pb_activated_at = Some 0, pb_retired_at = None\<rparr>"

definition policy_demo :: policy_world where
  "policy_demo = world.extend (demo_world\<lparr>db := (db demo_world)\<lparr>policy_bundles := [demo_bundle]\<rparr>\<rparr>)
     (policy_world.fields Map.empty)"

lemmas policy_demo_defs = policy_demo_def policy_world.defs world.defs demo_bundle_def demo_defs

theorem policy_load_sound_witness:
  "\<exists>b w'. load (\<lambda>_. Some demo_policy) ''bundle'' policy_demo = (Inr b, w') \<and> lb_id b = ''bundle''
     \<and> load (\<lambda>_. Some demo_policy) ''bundle'' w' = (Inr b, w')"
proof -
  have "cache_ok policy_demo" by (simp add: cache_ok_def policy_demo_defs)
  moreover obtain b w' where l: "load (\<lambda>_. Some demo_policy) ''bundle'' policy_demo = (Inr b, w')"
    by (simp add: load_def bnd_def gets_def ret_def modify_def of_result_def fromWasm_def query_def next_outcome_def select_def
        bundle_rows_def policy_demo_defs Let_def)
  ultimately show ?thesis using policy_load_sound [of policy_demo _ "''bundle''" "Inr b" w'] by auto
qed

text \<open>The administrative audit never stores secret-shaped input: a write that returns has added exactly one row, of an
  input without any secret shape; a write that throws INVALID_REQUEST was refused and nothing changed;
  every other failure is AUDIT_UNAVAILABLE.\<close>

theorem system_write_guarded:
  assumes "system_write stringify sha256 i w = (r, w')"
  shows "case r of
     Inr _ \<Rightarrow> \<not> containsSecretShape (si_policyInput i) \<and> (\<exists>row. system_audit_events (db w') = system_audit_events (db w) @ [row]
        \<and> sy_input_hash row = sha256 (stringify (si_policyInput i)) \<and> sy_outcome row = si_outcome i)
   | Inl e \<Rightarrow> if containsSecretShape (si_policyInput i) then (\<exists>m. e = Caisson INVALID_REQUEST m) \<and> w' = w
        else (\<exists>m. e = Caisson AUDIT_UNAVAILABLE m)"
proof (cases "containsSecretShape (si_policyInput i)")
  case True
  with assms show ?thesis by (auto simp: system_write_def throw_def)
next
  case False
  define stmt where "stmt rid t = insert_system_audit \<lparr>sy_id = rid, sy_timestamp = t, sy_event_type = si_eventType i,
      sy_input_hash = sha256 (stringify (si_policyInput i)), sy_outcome = si_outcome i, sy_duration_ms = si_durationMs i,
      sy_trace_id = si_traceId i, sy_span_id = si_spanId i, sy_caller_connection = si_callerConnection i\<rparr>" for rid t
  obtain rid w1 where u: "randomUUID w = (Inr rid, w1)" "db w1 = db w"
    by (auto simp: randomUUID_def randomBytes_def)
  obtain rq wq where q: "query (stmt rid (now w1)) w1 = (rq, wq)" by fastforce
  from assms False u q have r: "r = (case rq of Inr x \<Rightarrow> Inr x | Inl _ \<Rightarrow> Inl (Caisson AUDIT_UNAVAILABLE ''system audit write failed''))" "w' = wq"
    by (auto simp: system_write_def try_catch_def bnd_def gets_def throw_def stmt_def split: sum.splits)
  show ?thesis
  proof (cases rq)
    case (Inr x)
    with q have "stmt rid (now w1) (db w1) = Inr (x, db wq)" by (cases rule: query_cases) auto
    with Inr r u False show ?thesis
      by (auto simp: stmt_def insert_system_audit_def split: if_splits dest!: sym [where t = "db wq"])
  qed (use r False in simp)
qed

theorem system_write_guarded_witness:
  "fst (system_write (\<lambda>_. []) (\<lambda>_. ''h'') \<lparr>si_eventType = ''policy.simulate'', si_policyInput = JObj [(js ''apiKey'', JStr [])],
      si_outcome = ''allow'', si_durationMs = 1, si_traceId = [], si_spanId = [], si_callerConnection = None\<rparr> demo_world)
     = Inl (Caisson INVALID_REQUEST ''policy simulation input contains secret-shaped data'')"
proof -
  let ?i = "\<lparr>si_eventType = ''policy.simulate'', si_policyInput = JObj [(js ''apiKey'', JStr [])],
      si_outcome = ''allow'', si_durationMs = 1, si_traceId = [], si_spanId = [], si_callerConnection = None\<rparr>"
  have s: "containsSecretShape (JObj [(js ''apiKey'', JStr [])])" by code_simp
  show ?thesis
    using system_write_guarded [of "\<lambda>_. []" "\<lambda>_. ''h''" ?i demo_world, OF surjective_pairing] s
    by (auto simp: system_write_def throw_def)
qed

end
