(* ===== verification/Secrets.thy ===== *)
theory Secrets
  imports Schemas "HOL-Library.Char_ord" "HOL-Library.Sublist"
begin

text \<open>
  \<^verbatim>\<open>packages/secrets\<close>: the credential documents (\<^verbatim>\<open>credentials.ts\<close>) and the two backends that fetch them, from
  the environment (\<^verbatim>\<open>env-secret-backend.ts\<close>) and from Vault (\<^verbatim>\<open>vault-secret-backend.ts\<close>). The schema library is
  the parameter \<open>parse\<close>; \<open>fromBase\<close> is \<^verbatim>\<open>Buffer.from(s, "base64")\<close> and \<open>jparse\<close> is \<^verbatim>\<open>JSON.parse\<close>, none
  when it throws.
\<close>

section \<open>Credentials (credentials.ts, types.ts)\<close>

record credential_ref =
  cf_backend :: string
  cf_backendPath :: string
  cf_role :: string

text \<open>\<^verbatim>\<open>SecretString\<close>: the private field is reached by \<^verbatim>\<open>reveal\<close> only; every conversion gives the marker.\<close>

datatype secret_string = SecretString (reveal: utf16)

definition REDACTED :: utf16 where "REDACTED = js ''[redacted]''"

definition secret_toString :: "secret_string \<Rightarrow> utf16" where "secret_toString s = REDACTED"

definition secret_toJSON :: "secret_string \<Rightarrow> json" where "secret_toJSON s = JStr REDACTED"

datatype ssl_mode = VerifyFull | RequireSsl | DisableSsl

fun ssl_name :: "ssl_mode \<Rightarrow> string" where
  "ssl_name VerifyFull = ''verify-full''" | "ssl_name RequireSsl = ''require''" | "ssl_name DisableSsl = ''disable''"

datatype credentials =
    PostgresCredentials (pc_host: utf16) (pc_port: rat) (pc_database: utf16) (pc_username: secret_string) (pc_password: secret_string)
      (pc_sslMode: ssl_mode) (pc_readUsername: secret_string) (pc_readPassword: secret_string)
  | S3Credentials (sc_accessKeyId: secret_string) (sc_secretAccessKey: secret_string)
  | SnapshotKekCredentials (kc_keyId: utf16) (kc_key: secret_string)

definition SslModeSchema :: schema where "SslModeSchema = ZEnum [''verify-full'', ''require'', ''disable'']"

definition nonempty :: schema where "nonempty = ZString [SMin 1]"

definition StoredPostgresCredentialsSchema :: schema where
  "StoredPostgresCredentialsSchema = strict
     [req ''kind'' (lit ''postgres''), req ''host'' nonempty,
      req ''port'' (ZRefine (ZNumber [NInt, NMax 65535]) (\<lambda>v. case v of JNum r \<Rightarrow> 1 \<le> r | _ \<Rightarrow> False)),
      req ''database'' nonempty, req ''username'' nonempty, req ''password'' nonempty,
      req ''readCredentials'' (strict [req ''username'' nonempty, req ''password'' nonempty]),
      (''sslMode'', Default (JStr (js ''verify-full'')), SslModeSchema)]"

definition StoredS3CredentialsSchema :: schema where
  "StoredS3CredentialsSchema = strict [req ''kind'' (lit ''s3''), req ''accessKeyId'' nonempty, req ''secretAccessKey'' nonempty]"

definition StoredSnapshotKekCredentialsSchema :: schema where
  "StoredSnapshotKekCredentialsSchema = strict
     [req ''kind'' (lit ''snapshot_kek''), req ''keyId'' (ZString [SMin 1, SMax 128]), req ''key'' nonempty]"

text \<open>The kinds exclude each other, so the discriminated union accepts what the plain union does.\<close>

definition StoredCredentialsSchema :: schema where
  "StoredCredentialsSchema = ZUnion [StoredPostgresCredentialsSchema, StoredS3CredentialsSchema, StoredSnapshotKekCredentialsSchema]"

definition field :: "json \<Rightarrow> string \<Rightarrow> json" where
  "field v k = (case v of JObj kvs \<Rightarrow> (case map_of kvs (js k) of Some x \<Rightarrow> x | None \<Rightarrow> JNull) | _ \<Rightarrow> JNull)"

definition text_field :: "json \<Rightarrow> string \<Rightarrow> utf16" where
  "text_field v k = (case field v k of JStr s \<Rightarrow> s | _ \<Rightarrow> [])"

definition number_field :: "json \<Rightarrow> string \<Rightarrow> rat" where
  "number_field v k = (case field v k of JNum r \<Rightarrow> r | _ \<Rightarrow> 0)"

definition secret_field :: "json \<Rightarrow> string \<Rightarrow> secret_string" where
  "secret_field v k = SecretString (text_field v k)"

definition ssl_of :: "utf16 \<Rightarrow> ssl_mode" where
  "ssl_of s = (if s = js ''disable'' then DisableSsl else if s = js ''require'' then RequireSsl else VerifyFull)"

definition unavailable :: js_error where
  "unavailable = Caisson SECRET_UNAVAILABLE ''credential unavailable''"

definition parseCredentials :: "(schema \<Rightarrow> json \<Rightarrow> json option) \<Rightarrow> (utf16 \<Rightarrow> byte list) \<Rightarrow> json option \<Rightarrow> string option
    \<Rightarrow> js_error + credentials" where
  "parseCredentials parse fromBase v environment =
     (case Option.bind v (parse StoredCredentialsSchema) of
        None \<Rightarrow> Inl unavailable
      | Some data \<Rightarrow>
          if text_field data ''kind'' = js ''s3''
          then Inr (S3Credentials (secret_field data ''accessKeyId'') (secret_field data ''secretAccessKey''))
          else if text_field data ''kind'' = js ''snapshot_kek''
          then (if length (fromBase (text_field data ''key'')) \<noteq> 32 then Inl unavailable
            else Inr (SnapshotKekCredentials (text_field data ''keyId'') (secret_field data ''key'')))
          else if ssl_of (text_field data ''sslMode'') = DisableSsl \<and> environment = Some ''production'' then Inl unavailable
          else Inr (PostgresCredentials (text_field data ''host'') (number_field data ''port'') (text_field data ''database'')
            (secret_field data ''username'') (secret_field data ''password'') (ssl_of (text_field data ''sslMode''))
            (secret_field (field data ''readCredentials'') ''username'') (secret_field (field data ''readCredentials'') ''password'')))"

section \<open>The environment (EnvSecretBackend)\<close>

definition upper :: "char \<Rightarrow> bool" where "upper c \<longleftrightarrow> CHR ''A'' \<le> c \<and> c \<le> CHR ''Z''"
definition digit :: "char \<Rightarrow> bool" where "digit c \<longleftrightarrow> CHR ''0'' \<le> c \<and> c \<le> CHR ''9''"
definition lower :: "char \<Rightarrow> bool" where "lower c \<longleftrightarrow> CHR ''a'' \<le> c \<and> c \<le> CHR ''z''"

text \<open>\<^verbatim>\<open>/^[A-Z][A-Z0-9_]*$/\<close>\<close>

fun ENVIRONMENT_VARIABLE :: "string \<Rightarrow> bool" where
  "ENVIRONMENT_VARIABLE [] = False"
| "ENVIRONMENT_VARIABLE (c # cs) = (upper c \<and> list_all (\<lambda>d. upper d \<or> digit d \<or> d = CHR ''_'') cs)"

definition env_fetch :: "(schema \<Rightarrow> json \<Rightarrow> json option) \<Rightarrow> (utf16 \<Rightarrow> byte list) \<Rightarrow> (utf16 \<Rightarrow> json option)
    \<Rightarrow> (string \<rightharpoonup> utf16) \<Rightarrow> string option \<Rightarrow> credential_ref \<Rightarrow> js_error + credentials" where
  "env_fetch parse fromBase jparse environment caissonEnvironment ref =
     (if cf_backend ref \<noteq> ''env'' \<or> \<not> ENVIRONMENT_VARIABLE (cf_backendPath ref) then Inl unavailable
      else case environment (cf_backendPath ref) of
        None \<Rightarrow> Inl unavailable
      | Some v \<Rightarrow> (case jparse v of
          None \<Rightarrow> Inl unavailable
        | Some document \<Rightarrow> parseCredentials parse fromBase (Some document) caissonEnvironment))"

section \<open>Vault (VaultSecretBackend)\<close>

definition path_char :: "char \<Rightarrow> bool" where
  "path_char c \<longleftrightarrow> upper c \<or> lower c \<or> digit c \<or> c = CHR ''_'' \<or> c = CHR ''-''"

text \<open>\<^verbatim>\<open>/^[A-Za-z0-9_-]+$/\<close>\<close>

definition path_segment :: "string \<Rightarrow> bool" where
  "path_segment s \<longleftrightarrow> s \<noteq> [] \<and> list_all path_char s"

definition assertPathSegment :: "string \<Rightarrow> js_error + string" where
  "assertPathSegment v = (if path_segment v then Inr v else Inl (Caisson SECRET_UNAVAILABLE ''Vault configuration unavailable''))"

fun split_slash :: "string \<Rightarrow> string list" where
  "split_slash [] = [[]]"
| "split_slash (c # cs) = (if c = CHR ''/'' then [] # split_slash cs
     else case split_slash cs of [] \<Rightarrow> [[c]] | p # ps \<Rightarrow> (c # p) # ps)"

definition assertVaultPath :: "string \<Rightarrow> js_error + string" where
  "assertVaultPath v =
     (if v = [] \<or> take 1 v = ''/'' \<or> CHR ''%'' \<in> set v
         \<or> (\<exists>part \<in> set (split_slash v). part = [] \<or> part = ''.'' \<or> part = ''..'' \<or> \<not> path_segment part)
      then Inl unavailable else Inr v)"

record vault =
  va_token :: string
  va_mount :: string
  va_pathPrefix :: string
  va_environment :: "string option"

text \<open>The constructor; \<open>protocol\<close> is that of the parsed address, none when it is no URL.\<close>

definition new_vault :: "string option \<Rightarrow> string \<Rightarrow> string \<Rightarrow> string \<Rightarrow> rat \<Rightarrow> string option \<Rightarrow> js_error + vault" where
  "new_vault protocol token mount pathPrefix timeoutMs environment =
     (case protocol of None \<Rightarrow> Inl ForeignError | Some pr \<Rightarrow>
      case assertPathSegment mount of Inl e \<Rightarrow> Inl e | Inr m \<Rightarrow>
      case assertVaultPath pathPrefix of Inl e \<Rightarrow> Inl e | Inr below \<Rightarrow>
        if token = [] \<or> timeoutMs \<le> 0 \<or> (environment = Some ''production'' \<and> pr \<noteq> ''https:'')
        then Inl (Caisson SECRET_UNAVAILABLE ''Vault configuration unavailable'')
        else Inr \<lparr>va_token = token, va_mount = m, va_pathPrefix = below, va_environment = environment\<rparr>)"

text \<open>
  A request: the state is the list of the paths asked of the server so far, and \<open>answer\<close> is what the server
  replies to each, nothing when the request fails or times out.
\<close>

record vault_response =
  vr_status :: nat
  vr_json :: "json option"

definition response_ok :: "vault_response \<Rightarrow> bool" where
  "response_ok r \<longleftrightarrow> 200 \<le> vr_status r \<and> vr_status r \<le> 299"

definition vault_request :: "(nat \<Rightarrow> vault_response option) \<Rightarrow> string \<Rightarrow> (string list, vault_response) proc" where
  "vault_request answer path paths = ((case answer (length paths) of None \<Rightarrow> Inl unavailable | Some r \<Rightarrow> Inr r), paths @ [path])"

text \<open>\<^verbatim>\<open>body.data?.data\<close>: a body that is null has no property \<^verbatim>\<open>data\<close> to read and throws.\<close>

definition vault_data :: "json \<Rightarrow> json option option" where
  "vault_data body = (case body of
     JNull \<Rightarrow> None
   | JObj kvs \<Rightarrow> (case map_of kvs (js ''data'') of
       Some (JObj inner) \<Rightarrow> Some (map_of inner (js ''data''))
     | _ \<Rightarrow> Some None)
   | _ \<Rightarrow> Some None)"

definition vault_fetch :: "(schema \<Rightarrow> json \<Rightarrow> json option) \<Rightarrow> (utf16 \<Rightarrow> byte list) \<Rightarrow> (nat \<Rightarrow> vault_response option) \<Rightarrow> vault
    \<Rightarrow> credential_ref \<Rightarrow> (string list, credentials) proc" where
  "vault_fetch parse fromBase answer v ref =
     (if cf_backend ref \<noteq> ''vault'' then throw unavailable
      else bnd (of_result (assertVaultPath (cf_backendPath ref))) (\<lambda>path.
        if path \<noteq> va_pathPrefix v \<and> take (Suc (length (va_pathPrefix v))) path \<noteq> va_pathPrefix v @ ''/'' then throw unavailable
        else bnd (vault_request answer (''v1/'' @ va_mount v @ ''/data/'' @ path)) (\<lambda>response.
          if \<not> response_ok response then throw unavailable
          else of_result (case Option.bind (vr_json response) vault_data of
              None \<Rightarrow> Inl unavailable
            | Some data \<Rightarrow> parseCredentials parse fromBase data (va_environment v)))))"

definition vault_health :: "(nat \<Rightarrow> vault_response option) \<Rightarrow> (string list, bool) proc" where
  "vault_health answer = try_catch
     (bnd (vault_request answer ''v1/sys/health'') (\<lambda>r. ret (200 \<le> vr_status r \<and> vr_status r < 500))) (\<lambda>_. ret False)"

section \<open>What a backend hands out\<close>

text \<open>A credential that may leave a backend.\<close>

definition fit :: "(utf16 \<Rightarrow> byte list) \<Rightarrow> string option \<Rightarrow> credentials \<Rightarrow> bool" where
  "fit fromBase environment c = (case c of
     SnapshotKekCredentials _ key \<Rightarrow> length (fromBase (reveal key)) = 32
   | PostgresCredentials _ _ _ _ _ ssl _ _ \<Rightarrow> environment = Some ''production'' \<longrightarrow> ssl \<noteq> DisableSsl
   | _ \<Rightarrow> True)"

lemma parseCredentials_sound:
  fixes parse fromBase v environment
  defines "r \<equiv> parseCredentials parse fromBase v environment"
  shows "case r of Inl e \<Rightarrow> e = unavailable
     | Inr c \<Rightarrow> fit fromBase environment c"
  unfolding r_def by (cases "Option.bind v (parse StoredCredentialsSchema)")
    (auto simp: parseCredentials_def fit_def secret_field_def bind_eq_Some_conv)

lemma vault_fetch_cases:
  assumes "vault_fetch parse fromBase answer v ref paths = (r, paths')"
  obtains (refused) "r = Inl unavailable" "paths' = paths"
  | (requested) path where "assertVaultPath path = Inr path" "path = va_pathPrefix v \<or> prefix (va_pathPrefix v @ ''/'') path"
      "paths' = paths @ [''v1/'' @ va_mount v @ ''/data/'' @ path]"
      "r = Inl unavailable \<or> (\<exists>data. r = parseCredentials parse fromBase data (va_environment v))"
proof (cases "cf_backend ref \<noteq> ''vault'' \<or> assertVaultPath (cf_backendPath ref) \<noteq> Inr (cf_backendPath ref)
    \<or> cf_backendPath ref \<noteq> va_pathPrefix v \<and> take (Suc (length (va_pathPrefix v))) (cf_backendPath ref) \<noteq> va_pathPrefix v @ ''/''")
  case True
  with assms refused show thesis
    by (auto simp: vault_fetch_def proc_defs assertVaultPath_def split: if_splits)
next
  case False
  have "take (Suc (length (va_pathPrefix v))) (cf_backendPath ref) = va_pathPrefix v @ ''/'' \<Longrightarrow>
      prefix (va_pathPrefix v @ ''/'') (cf_backendPath ref)"
    by (metis take_is_prefix)
  with False assms requested [of "cf_backendPath ref"] show thesis
    by (auto simp: vault_fetch_def proc_defs vault_request_def split: if_splits option.splits)
qed


text \<open>(C20) Vault is only ever asked below its configured prefix: each path requested for a credential is the mount's data path
  followed by the prefix itself or something under it, and no segment of it is empty, a dot, or a dot-dot.\<close>

theorem vault_requests_confined:
  assumes "vault_fetch parse fromBase answer v ref paths = (r, paths')" and "p \<in> set paths'" and "p \<notin> set paths"
  shows "\<exists>path. p = ''v1/'' @ va_mount v @ ''/data/'' @ path \<and> (path = va_pathPrefix v \<or> prefix (va_pathPrefix v @ ''/'') path)
     \<and> (\<forall>part \<in> set (split_slash path). path_segment part \<and> part \<noteq> ''..'' \<and> part \<noteq> ''.'')"
  using assms(1)
proof (cases rule: vault_fetch_cases)
  case refused
  with assms show ?thesis by simp
next
  case (requested path)
  then show ?thesis
    using assms(2,3) by (intro exI [of _ path]) (auto simp: assertVaultPath_def split: if_splits)
qed

definition demo_vault :: vault where
  "demo_vault = \<lparr>va_token = ''t'', va_mount = ''kv'', va_pathPrefix = ''caisson'', va_environment = None\<rparr>"

theorem vault_requests_confined_witness:
  "snd (vault_fetch (\<lambda>_ _. None) (\<lambda>_. []) (\<lambda>_. None) demo_vault \<lparr>cf_backend = ''vault'', cf_backendPath = ''caisson/db'', cf_role = ''r''\<rparr> [])
     = [''v1/kv/data/caisson/db'']
   \<and> (\<exists>path. ''v1/kv/data/caisson/db'' = ''v1/'' @ va_mount demo_vault @ ''/data/'' @ path)"
proof -
  let ?ref = "\<lparr>cf_backend = ''vault'', cf_backendPath = ''caisson/db'', cf_role = ''r''\<rparr>"
  have run: "vault_fetch (\<lambda>_ _. None) (\<lambda>_. []) (\<lambda>_. None) demo_vault ?ref [] = (Inl unavailable, [''v1/kv/data/caisson/db''])"
    by code_simp
  from vault_requests_confined [OF run, of "''v1/kv/data/caisson/db''"] run show ?thesis by auto
qed

end
