(* ===== verification/Broker_Pipeline.thy ===== *)
theory Broker_Pipeline
  imports Action_Gate Session_Identity Policy Secrets
begin

text \<open>
  \<^verbatim>\<open>apps/broker/src/broker-pipeline.ts\<close> with the service resolver of \<^verbatim>\<open>database-service-resolver.ts\<close>: a broker call from
  the peer's identity over admission, policy and the audit record to the secret, the service and the reply.

  While the handler waits, other handlers run: \<open>be_others\<close> is what they do to the shared state during the
  await that ends at a given call, and \<open>rely\<close> states what no handler does. \<open>bw_effects\<close> is the log of what the call
  asked of the secret backend and of the service, with the audit table and the gate at that moment.
\<close>

section \<open>Interfaces\<close>

datatype 'a per_params = Fixed 'a | Computed "json \<Rightarrow> js_error + 'a"

record 'c broker_method =
  bm_params :: "json \<Rightarrow> json option"
  bm_scopeRequired :: "utf16 per_params"
  bm_sideEffecting :: "bool per_params"
  bm_execute :: "nat \<Rightarrow> 'c option \<Rightarrow> json \<Rightarrow> int \<Rightarrow> js_error + json option"

record 'c broker_adapter =
  ba_name :: string
  ba_methods :: "(utf16 \<times> 'c broker_method) list"

record 'c broker_service =
  bs_adapter :: "'c broker_adapter"
  bs_timeoutMs :: int

datatype 'c service_call = FetchSecret credential_ref | ExecuteMethod utf16 "'c option" json

record 'c service_effect =
  ef_call :: "'c service_call"
  ef_action :: string
  ef_sink :: "click_row list"
  ef_gate :: gate

record 'c broker_world = policy_world +
  bw_gate :: gate
  bw_lease :: "nat option"
  bw_effects :: "'c service_effect list"

record 'c broker_env =
  be_parse :: "schema \<Rightarrow> json \<Rightarrow> json option"
  be_stringify :: "json \<Rightarrow> utf16"
  be_jparse :: "utf16 \<Rightarrow> js_error + json"
  be_sha256 :: "utf16 \<Rightarrow> string"
  be_iso :: "int \<Rightarrow> utf16"
  be_trace :: "(string \<times> string) option"
  be_loadPolicy :: "byte list \<Rightarrow> opa_policy option"
  be_adapters :: "'c broker_adapter list"
  be_fetch :: "nat \<Rightarrow> credential_ref \<Rightarrow> js_error + 'c"
  be_others :: "nat \<Rightarrow> 'c broker_world \<Rightarrow> 'c broker_world"

record broker_request =
  rq_id :: utf16
  rq_service :: utf16
  rq_method :: utf16
  rq_params :: json
  rq_intent :: utf16

text \<open>The parsed request as a record.\<close>

definition request_of :: "json \<Rightarrow> broker_request option" where
  "request_of v = (case v of
     JObj [(_, JStr i), _, (_, JObj [(_, JStr svc), (_, JStr m), (_, ps), _, (_, JStr intent)])] \<Rightarrow>
       Some \<lparr>rq_id = i, rq_service = svc, rq_method = m, rq_params = ps, rq_intent = intent\<rparr>
   | _ \<Rightarrow> None)"

text \<open>\<^verbatim>\<open>await m\<close>: the call settles, and whatever else was runnable has run before the handler goes on.\<close>

definition await :: "'c broker_env \<Rightarrow> ('c broker_world, 'a) proc \<Rightarrow> ('c broker_world, 'a) proc" where
  "await env m w = (case m w of (r, w1) \<Rightarrow> (r, be_others env (calls w1) w1))"

section \<open>Service resolution (DatabaseBrokerServiceResolver)\<close>

definition ServiceConfigSchema :: schema where
  "ServiceConfigSchema = ZObject Passthrough [req ''timeoutMs'' (ZNumber [NInt, NPositive])]"

definition adapter_named :: "string \<Rightarrow> 'c broker_adapter list \<Rightarrow> 'c broker_adapter option" where
  "adapter_named name adapters = List.find (\<lambda>a. ba_name a = name) (rev adapters)"

definition timeout_of :: "json \<Rightarrow> int option" where
  "timeout_of v = (case v of JObj kvs \<Rightarrow> (case map_of kvs (js ''timeoutMs'') of Some (JNum r) \<Rightarrow> Some \<lfloor>r\<rfloor> | _ \<Rightarrow> None) | _ \<Rightarrow> None)"

definition resolveService :: "'c broker_env \<Rightarrow> utf16 \<Rightarrow> ('c broker_world, 'c broker_service) proc" where
  "resolveService env name =
     bnd (query (select (\<lambda>d. filter (\<lambda>s. js (sv_name s) = name) (services d)))) (\<lambda>rows. case rows of
       [] \<Rightarrow> throw (Caisson ADAPTER_NOT_FOUND ''service is unavailable'')
     | service # _ \<Rightarrow>
         if \<not> sv_enabled service then throw (Caisson ADAPTER_NOT_FOUND ''service is unavailable'')
         else (case adapter_named (sv_adapter service) (be_adapters env) of
           None \<Rightarrow> throw (Caisson ADAPTER_NOT_FOUND ''service adapter is unavailable'')
         | Some adapter \<Rightarrow> (case Option.bind (be_parse env ServiceConfigSchema (sv_config service)) timeout_of of
             None \<Rightarrow> throw (Caisson SERVICE_ERROR ''service configuration is invalid'')
           | Some t \<Rightarrow> ret \<lparr>bs_adapter = adapter, bs_timeoutMs = t\<rparr>)))"

definition credential_rows :: "utf16 \<Rightarrow> utf16 \<Rightarrow> db \<Rightarrow> credential_row list" where
  "credential_rows name role d = [c. c \<leftarrow> credential_refs d, s \<leftarrow> services d, sv_id s = cr_service_id c,
     js (sv_name s) = name \<and> sv_enabled s \<and> js (cr_role c) = role]"

definition resolveCredentialRef :: "utf16 \<Rightarrow> utf16 \<Rightarrow> ('z world_scheme, credential_ref option) proc" where
  "resolveCredentialRef name role =
     bnd (query (select (credential_rows name role))) (\<lambda>rows. case rows of
       [] \<Rightarrow> ret None
     | c # _ \<Rightarrow>
         if cr_backend c \<noteq> ''env'' \<and> cr_backend c \<noteq> ''vault''
         then throw (Caisson SECRET_UNAVAILABLE ''credential reference is invalid'')
         else ret (Some \<lparr>cf_backend = cr_backend c, cf_backendPath = cr_backend_path c, cf_role = cr_role c\<rparr>))"

section \<open>Helpers\<close>

text \<open>\<^verbatim>\<open>service.adapter.methods[name]\<close> is a plain object: a name of \<^verbatim>\<open>Object.prototype\<close> gives an inherited value that is
  no method, and reading \<^verbatim>\<open>params.safeParse\<close> of it throws a \<^verbatim>\<open>TypeError\<close>.\<close>

definition object_prototype :: "string list" where
  "object_prototype = [''constructor'', ''__defineGetter__'', ''__defineSetter__'', ''hasOwnProperty'', ''__lookupGetter__'',
     ''__lookupSetter__'', ''isPrototypeOf'', ''propertyIsEnumerable'', ''toString'', ''valueOf'', ''__proto__'', ''toLocaleString'']"

definition lookup_method :: "'c broker_adapter \<Rightarrow> utf16 \<Rightarrow> js_error + 'c broker_method" where
  "lookup_method a name = (case map_of (ba_methods a) name of
     Some m \<Rightarrow> Inr m
   | None \<Rightarrow> if name \<in> set (map js object_prototype) then Inl ForeignError
       else Inl (Caisson METHOD_NOT_FOUND ''broker method is unavailable''))"

fun resolveValue :: "'a per_params \<Rightarrow> json \<Rightarrow> js_error + 'a" where
  "resolveValue (Fixed x) ps = Inr x"
| "resolveValue (Computed f) ps = f ps"

text \<open>\<^verbatim>\<open>/^role:([a-z][a-z0-9_-]{0,127})$/iu\<close>; folding case, \<^verbatim>\<open>[a-z]\<close> also matches U+017F and U+212A.\<close>

definition role_letter :: "16 word \<Rightarrow> bool" where
  "role_letter u \<longleftrightarrow> 97 \<le> uint u \<and> uint u \<le> 122 \<or> 65 \<le> uint u \<and> uint u \<le> 90 \<or> u = 0x17F \<or> u = 0x212A"

definition role_unit :: "16 word \<Rightarrow> bool" where
  "role_unit u \<longleftrightarrow> role_letter u \<or> 48 \<le> uint u \<and> uint u \<le> 57 \<or> u = 95 \<or> u = 45"

definition role_match :: "utf16 \<Rightarrow> utf16 option" where
  "role_match s = (let r = drop 5 s in
     if map lower_unit (take 5 s) = js ''role:'' \<and> r \<noteq> [] \<and> role_letter (hd r) \<and> list_all role_unit (tl r) \<and> length r \<le> 128
     then Some r else None)"

fun resolve_obligations :: "utf16 list \<Rightarrow> utf16 \<Rightarrow> js_error + utf16" where
  "resolve_obligations [] role = Inr role"
| "resolve_obligations (ob # obs) role = (case role_match ob of
     Some r \<Rightarrow> resolve_obligations obs r
   | None \<Rightarrow> Inl (Caisson POLICY_UNAVAILABLE ''policy obligation cannot be honored''))"

definition resolveObligations :: "utf16 list \<Rightarrow> js_error + utf16" where
  "resolveObligations obs = resolve_obligations obs (js ''default'')"

definition resultIsTruncated :: "json option \<Rightarrow> bool" where
  "resultIsTruncated v = (case v of Some (JObj kvs) \<Rightarrow> map_of kvs (js ''truncated'') = Some (JBool True) | _ \<Rightarrow> False)"

text \<open>\<^verbatim>\<open>auditInput\<close>; the optional fields are set by the caller.\<close>

definition auditInput :: "'c broker_env \<Rightarrow> identity \<Rightarrow> string \<Rightarrow> broker_request \<Rightarrow> string \<Rightarrow> policy_verdict \<Rightarrow> string
    \<Rightarrow> utf16 \<Rightarrow> utf16 list \<Rightarrow> utf16 \<Rightarrow> audit_input" where
  "auditInput env idn actionId rq eventType decision bundle reason obligations scopeUsed =
     \<lparr>ai_sessionId = id_sessionId idn, ai_actionId = actionId, ai_timestamp = None, ai_eventType = eventType,
      ai_actionType = ''broker_call'', ai_service = Some (rq_service rq), ai_method = Some (rq_method rq),
      ai_decision = Some (verdict_name decision), ai_policyBundle = Some bundle, ai_policyReason = Some reason,
      ai_obligations = Some obligations, ai_scopeUsed = Some scopeUsed, ai_roleUsed = None,
      ai_paramsHash = Some (be_sha256 env (be_stringify env (rq_params rq))), ai_paramsPreview = Some [],
      ai_resultBytes = None, ai_resultHash = None, ai_redactionCount = Some 0, ai_durationMs = None, ai_approvalId = None,
      ai_approvalWaitMs = None, ai_skillLoaded = None, ai_agentIntent = Some (rq_intent rq), ai_driver = id_driver idn,
      ai_hardwareIsolated = id_hardwareIsolated idn, ai_traceId = map_option fst (be_trace env),
      ai_spanId = map_option snd (be_trace env), ai_errorCode = None, ai_errorMessage = None,
      ai_networkDestination = None, ai_networkProtocol = None\<rparr>"

definition errorReply :: "broker_request \<Rightarrow> error_code \<Rightarrow> utf16 \<Rightarrow> (utf16 \<times> json) list \<Rightarrow> string \<Rightarrow> json" where
  "errorReply rq code message details actionId =
     JObj [(js ''id'', JStr (rq_id rq)), (js ''ok'', JBool False), (js ''error'', JObj [(js ''code'', JStr (js (error_code_name code))),
       (js ''message'', JStr message), (js ''details'', JObj details), (js ''actionId'', JStr (js actionId))])]"

definition successReply :: "broker_request \<Rightarrow> json \<Rightarrow> int \<Rightarrow> utf16 \<Rightarrow> string \<Rightarrow> bool \<Rightarrow> json" where
  "successReply rq result durationMs role actionId truncated =
     JObj [(js ''id'', JStr (rq_id rq)), (js ''ok'', JBool True), (js ''body'', JObj [(js ''result'', result),
       (js ''meta'', JObj [(js ''durationMs'', JNum (of_int durationMs)), (js ''redactionCount'', JNum 0), (js ''roleUsed'', JStr role),
         (js ''actionId'', JStr (js actionId)), (js ''truncated'', JBool truncated)])])]"

fun approval_name :: "approval_mode \<Rightarrow> string" where
  "approval_name Auto = ''auto''" | "approval_name Rule = ''rule''" | "approval_name Always = ''always''"

definition policy_input :: "'c broker_env \<Rightarrow> identity \<Rightarrow> string \<Rightarrow> utf16 \<Rightarrow> bool \<Rightarrow> utf16 \<Rightarrow> json \<Rightarrow> int \<Rightarrow> json" where
  "policy_input env idn adapterName methodName sideEffecting scopeUsed ps t = (let str = (\<lambda>s. JStr (js s)) in
     JObj [(js ''session'', JObj [(js ''id'', str (id_sessionId idn)), (js ''roles'', JArr (map str (id_roles idn))),
         (js ''scopes'', JArr (map str (id_scopes idn))), (js ''approvalMode'', str (approval_name (id_approvalMode idn))),
         (js ''expiresAt'', JStr (be_iso env (id_expiresAt idn))), (js ''validAtEvaluation'', JBool (t < id_expiresAt idn)),
         (js ''requestedBy'', str (id_requestedBy idn)),
         (js ''purpose'', (case id_purpose idn of None \<Rightarrow> JNull | Some p \<Rightarrow> str p))]),
       (js ''action'', JObj [(js ''service'', str adapterName), (js ''method'', JStr methodName), (js ''sideEffecting'', JBool sideEffecting),
         (js ''scopeRequired'', JStr scopeUsed), (js ''params'', ps)]),
       (js ''context'', JObj [(js ''now'', JStr (be_iso env t)), (js ''hardwareIsolated'', JBool (id_hardwareIsolated idn)),
         (js ''actionCountThisMethod'', JNum 0)])])"

section \<open>The pipeline\<close>

definition enter_gate :: "string \<Rightarrow> ('c broker_world, nat option) proc" where
  "enter_gate sid w = (case enter sid (bw_gate w) of (l, g) \<Rightarrow> (Inr l, w\<lparr>bw_gate := g, bw_lease := l\<rparr>))"

definition release_lease :: "nat \<Rightarrow> ('c broker_world, unit) proc" where
  "release_lease l = modify (\<lambda>w. w\<lparr>bw_gate := release l (bw_gate w)\<rparr>)"

text \<open>A request to the secret backend or to the service: it is logged, and its answer is that of the oracle.\<close>

definition external :: "string \<Rightarrow> 'c service_call \<Rightarrow> (nat \<Rightarrow> js_error + 'a) \<Rightarrow> ('c broker_world, 'a) proc" where
  "external actionId call answer w =
     (answer (calls w), w\<lparr>calls := Suc (calls w), bw_effects := bw_effects w @
        [\<lparr>ef_call = call, ef_action = actionId, ef_sink = sink w, ef_gate = bw_gate w\<rparr>]\<rparr>)"

definition fetch_credentials :: "'c broker_env \<Rightarrow> string \<Rightarrow> credential_ref option \<Rightarrow> ('c broker_world, 'c option) proc" where
  "fetch_credentials env actionId ref = (case ref of
     None \<Rightarrow> ret None
   | Some r \<Rightarrow> bnd (await env (external actionId (FetchSecret r) (\<lambda>n. be_fetch env n r))) (\<lambda>c. ret (Some c)))"

definition encode_result :: "'c broker_env \<Rightarrow> json option \<Rightarrow> js_error + utf16" where
  "encode_result env result = (case result of None \<Rightarrow> Inl ForeignError | Some v \<Rightarrow> Inr (be_stringify env v))"

text \<open>The \<^verbatim>\<open>try\<close> block after the record of the start.\<close>

definition perform :: "'c broker_env \<Rightarrow> identity \<Rightarrow> broker_request \<Rightarrow> int \<Rightarrow> 'c broker_service \<Rightarrow> 'c broker_method \<Rightarrow> json
    \<Rightarrow> string \<Rightarrow> utf16 \<Rightarrow> (string \<Rightarrow> audit_input) \<Rightarrow> ('c broker_world, json) proc" where
  "perform env idn rq startedAt service method ps actionId role input =
     bnd (await env (resolveCredentialRef (rq_service rq) role)) (\<lambda>ref.
     bnd (fetch_credentials env actionId ref) (\<lambda>credentials.
     bnd (await env (external actionId (ExecuteMethod (rq_method rq) credentials ps)
            (\<lambda>n. bm_execute method n credentials ps (bs_timeoutMs service)))) (\<lambda>result.
     bnd (of_result (encode_result env result)) (\<lambda>encoded.
     bnd (gets now) (\<lambda>t.
     seq (await env (persistDurably ((input ''action.completed'')\<lparr>ai_durationMs := Some (t - startedAt),
            ai_resultBytes := Some (int (byteLength encoded)), ai_resultHash := Some (be_sha256 env encoded)\<rparr>)))
     (bnd (of_result (be_jparse env encoded)) (\<lambda>body.
      bnd (gets now) (\<lambda>t2.
      of_result (case be_parse env BrokerCallResponseSchema
          (successReply rq body (t2 - startedAt) role actionId (resultIsTruncated result)) of
        None \<Rightarrow> Inl ForeignError | Some u \<Rightarrow> Inr u)))))))))"

definition as_caisson :: "js_error \<Rightarrow> js_error" where
  "as_caisson e = (if is_caisson e then e else Caisson SERVICE_ERROR ''service call failed'')"

definition call_failed :: "'c broker_env \<Rightarrow> broker_request \<Rightarrow> int \<Rightarrow> string \<Rightarrow> (string \<Rightarrow> audit_input) \<Rightarrow> js_error
    \<Rightarrow> ('c broker_world, json) proc" where
  "call_failed env rq startedAt actionId input e = (let c = as_caisson e in
     bnd (gets now) (\<lambda>t.
     seq (await env (persistDurably ((input ''action.failed'')\<lparr>ai_durationMs := Some (t - startedAt),
            ai_errorCode := Some (error_code_name (err_code c)), ai_errorMessage := Some (err_message c)\<rparr>)))
       (ret (errorReply rq (err_code c) (take 512 (err_message c)) [] actionId))))"

text \<open>From the decision on.\<close>

definition decided :: "'c broker_env \<Rightarrow> identity \<Rightarrow> broker_request \<Rightarrow> int \<Rightarrow> 'c broker_service \<Rightarrow> 'c broker_method \<Rightarrow> json
    \<Rightarrow> utf16 \<Rightarrow> string \<Rightarrow> loaded_bundle \<Rightarrow> policy_decision \<Rightarrow> utf16 \<Rightarrow> ('c broker_world, json) proc" where
  "decided env idn rq startedAt service method ps scopeUsed actionId bundle decision role =
     (let input = (\<lambda>verdict eventType. auditInput env idn actionId rq eventType verdict (lb_id bundle)
            (pd_reason decision) (pd_obligations decision) scopeUsed) in
      if pd_decision decision \<noteq> Allow
      then bnd (gets now) (\<lambda>t.
        seq (await env (persistDurably ((input (pd_decision decision) ''action.denied'')\<lparr>ai_durationMs := Some (t - startedAt)\<rparr>)))
          (ret (errorReply rq (if pd_decision decision = RequireApproval then APPROVAL_REQUIRED else POLICY_DENIED)
             (pd_reason decision) [(js ''scopeRequired'', JStr scopeUsed)] actionId)))
      else
        seq (await env (persistBeforeExecution hasEvent insertBatch (input Allow ''action.started'')))
          (try_catch (perform env idn rq startedAt service method ps actionId role (input Allow))
             (call_failed env rq startedAt actionId (input Allow))))"

text \<open>The body under the lease.\<close>

definition admitted :: "'c broker_env \<Rightarrow> identity \<Rightarrow> broker_request \<Rightarrow> int \<Rightarrow> ('c broker_world, json) proc" where
  "admitted env idn rq startedAt =
     bnd (await env (resolveService env (rq_service rq))) (\<lambda>service.
     bnd (of_result (lookup_method (bs_adapter service) (rq_method rq))) (\<lambda>method.
     bnd (of_result (case bm_params method (rq_params rq) of
            None \<Rightarrow> Inl (Caisson PARAMS_INVALID ''invalid adapter parameters'') | Some ps \<Rightarrow> Inr ps)) (\<lambda>ps.
     bnd (of_result (resolveValue (bm_scopeRequired method) ps)) (\<lambda>scopeUsed.
     bnd (of_result (resolveValue (bm_sideEffecting method) ps)) (\<lambda>sideEffecting.
     bnd randomUUID (\<lambda>actionId.
     bnd (await env (load (be_loadPolicy env) (id_policyBundleId idn))) (\<lambda>bundle.
     bnd (gets now) (\<lambda>t.
     bnd (of_result (evaluate (be_parse env) (lb_evaluator bundle)
            (policy_input env idn (ba_name (bs_adapter service)) (rq_method rq) sideEffecting scopeUsed ps t))) (\<lambda>decision.
     bnd (of_result (resolveObligations (pd_obligations decision))) (\<lambda>role.
       decided env idn rq startedAt service method ps scopeUsed actionId bundle decision role))))))))))"

definition suspended :: "'c broker_env \<Rightarrow> identity \<Rightarrow> broker_request \<Rightarrow> int \<Rightarrow> ('c broker_world, json) proc" where
  "suspended env idn rq startedAt =
     bnd randomUUID (\<lambda>actionId.
     bnd (gets now) (\<lambda>t.
     seq (await env (persistDurably ((auditInput env idn actionId rq ''action.denied'' Deny (id_policyBundleId idn)
            (js ''session snapshot capture is active'') [] [])\<lparr>ai_durationMs := Some (t - startedAt),
              ai_errorCode := Some (error_code_name SESSION_SUSPENDED), ai_errorMessage := Some (js ''session snapshot capture is active'')\<rparr>)))
       (ret (errorReply rq SESSION_SUSPENDED (js ''session snapshot capture is active'') [] actionId))))"

definition handleRequest :: "'c broker_env \<Rightarrow> peer \<Rightarrow> broker_request \<Rightarrow> ('c broker_world, json) proc" where
  "handleRequest env p rq =
     bnd (gets now) (\<lambda>startedAt.
     bnd (await env (resolve p)) (\<lambda>idn.
     bnd (enter_gate (id_sessionId idn)) (\<lambda>lease. case lease of
       None \<Rightarrow> suspended env idn rq startedAt
     | Some l \<Rightarrow> try_finally (admitted env idn rq startedAt) (release_lease l))))"

definition handle :: "'c broker_env \<Rightarrow> peer \<Rightarrow> json \<Rightarrow> ('c broker_world, json) proc" where
  "handle env p frame = (case Option.bind (be_parse env BrokerCallRequestSchema frame) request_of of
     None \<Rightarrow> throw (Caisson PARAMS_INVALID ''invalid broker request'')
   | Some rq \<Rightarrow> handleRequest env p rq)"

section \<open>What other handlers may do\<close>

text \<open>The records of the outbox, whatever their delivery state.\<close>

definition outbox_events :: "db \<Rightarrow> audit_event set" where
  "outbox_events d = event_of ` set (audit_outbox d)"

definition rely :: "'c broker_env \<Rightarrow> bool" where
  "rely env \<longleftrightarrow> (\<forall>n w. let w' = be_others env n w in
       set (sink w) \<subseteq> set (sink w') \<and> outbox_events (db w) \<subseteq> outbox_events (db w')
     \<and> (audit_inv click_of (sink w) (db w) \<longrightarrow> audit_inv click_of (sink w') (db w'))
     \<and> (gate_inv (bw_gate w) \<longrightarrow> gate_inv (bw_gate w')) \<and> (cache_ok w \<longrightarrow> cache_ok w')
     \<and> bw_lease w' = bw_lease w \<and> bw_effects w' = bw_effects w
     \<and> (\<forall>l. bw_lease w = Some l \<and> l < length (leases (bw_gate w)) \<longrightarrow>
          l < length (leases (bw_gate w')) \<and> leases (bw_gate w') ! l = leases (bw_gate w) ! l))"

text \<open>A step of the shared database, clock and audit table that does no harm.\<close>

definition benign :: "('z world_scheme, 'a) proc \<Rightarrow> bool" where
  "benign m \<longleftrightarrow> (\<forall>w r w'. m w = (r, w') \<longrightarrow> world.more w' = world.more w \<and> set (sink w) \<subseteq> set (sink w')
     \<and> outbox_events (db w) \<subseteq> outbox_events (db w')
     \<and> (audit_inv click_of (sink w) (db w) \<longrightarrow> audit_inv click_of (sink w') (db w')))"

named_theorems benign_rules "benign steps"

lemma benignI:
  assumes "\<And>w r w'. m w = (r, w') \<Longrightarrow> world.more w' = world.more w \<and> set (sink w) \<subseteq> set (sink w')
     \<and> outbox_events (db w) \<subseteq> outbox_events (db w')
     \<and> (audit_inv click_of (sink w) (db w) \<longrightarrow> audit_inv click_of (sink w') (db w'))"
  shows "benign m"
  using assms unfolding benign_def by blast

lemma benign_still [benign_rules]: "benign (ret x)" "benign (throw e)" "benign (gets f)" "benign (of_result q)"
  by (auto simp: benign_def proc_defs)

lemma benign_bnd [benign_rules]:
  assumes "benign m" and "\<And>x. benign (f x)"
  shows "benign (bnd m f)"
proof (rule benignI)
  fix w r w' assume "bnd m f w = (r, w')"
  then show "world.more w' = world.more w \<and> set (sink w) \<subseteq> set (sink w') \<and> outbox_events (db w) \<subseteq> outbox_events (db w')
     \<and> (audit_inv click_of (sink w) (db w) \<longrightarrow> audit_inv click_of (sink w') (db w'))"
  proof (cases rule: bndE)
    case (err e)
    then show ?thesis using assms(1) by (auto simp: benign_def)
  next
    case (ok x s1)
    then show ?thesis using assms(1) assms(2) [of x] unfolding benign_def by (metis (no_types, lifting) order_trans)
  qed
qed

lemma benign_if [benign_rules]: "benign m \<Longrightarrow> benign n \<Longrightarrow> benign (if b then m else n)"
  by simp

lemma benign_option [benign_rules]: "benign m \<Longrightarrow> (\<And>x. benign (f x)) \<Longrightarrow> benign (case v of None \<Rightarrow> m | Some x \<Rightarrow> f x)"
  by (cases v) simp_all

lemma benign_list [benign_rules]: "benign m \<Longrightarrow> (\<And>x xs. benign (f x xs)) \<Longrightarrow> benign (case v of [] \<Rightarrow> m | x # xs \<Rightarrow> f x xs)"
  by (cases v) simp_all

lemma benign_select [benign_rules]: "benign (query (select f))"
  by (rule benignI, elim query_cases) (auto simp: select_def same_env_def)

lemma benign_random [benign_rules]: "benign randomUUID"
  by (auto simp: benign_def randomUUID_def randomBytes_def)

lemma benign_resolve [benign_rules]: "benign (resolve p)"
  unfolding resolve_def by (intro benign_rules)

lemma benign_credentialRef [benign_rules]: "benign (resolveCredentialRef name role)"
  unfolding resolveCredentialRef_def by (intro benign_rules)

lemma benign_service [benign_rules]: "benign (resolveService env name)"
  unfolding resolveService_def by (intro benign_rules)

lemma events_append: "outbox_events (append_row eventId i p n d) = insert (event_of (new_row eventId i p n)) (outbox_events d)"
  by (auto simp: outbox_events_def append_row_def)

text \<open>The audit writer touches only the database, the audit table and its own bookkeeping.\<close>

definition more_is :: "'z \<Rightarrow> 'z world_scheme \<Rightarrow> bool" where
  "more_is m w \<longleftrightarrow> world.more w = m"

lemma more_query [pres_rules]: "pres (more_is m) (query f)"
  unfolding pres_def more_is_def query_def next_outcome_def by (auto split: sum.splits)

lemma more_ch_query [pres_rules]: "pres (more_is m) (ch_query f)"
  unfolding pres_def more_is_def ch_query_def next_outcome_def by (auto split: prod.splits)

lemma more_set_active [pres_rules]: "pres (more_is m) (set_active ids)"
  by (simp add: pres_def more_is_def)

lemma more_uuid [pres_rules]: "pres (more_is m) uuidV7"
  by (simp add: pres_def more_is_def uuidV7_def randomBytes_def)

lemma more_transaction [pres_rules]:
  assumes "pres (more_is m) body"
  shows "pres (more_is m) (transaction body)"
  unfolding pres_def
proof (intro allI impI)
  fix w assume w: "more_is m w"
  have "more_is m (snd (body (w\<lparr>calls := Suc (calls w)\<rparr>)))"
    using assms w by (simp add: pres_def more_is_def)
  with w show "more_is m (snd (transaction body w))"
    by (auto simp: transaction_def next_outcome_def more_is_def split: prod.splits sum.splits)
qed

lemma more_enqueue [pres_rules]: "pres (more_is m) (enqueue i)"
  unfolding enqueue_def build_now_def allocateOutboxEvent_def by (intro pres_rules)

lemma more_has [pres_rules]: "pres (more_is m) (hasEvent s n)"
  unfolding hasEvent_def by (intro pres_rules)

lemma more_insert [pres_rules]: "pres (more_is m) (insertBatch es)"
  unfolding insertBatch_def by (intro pres_rules)

lemma more_collect [pres_rules]: "pres (more_is m) (collect hasEvent rows es)"
  by (induction rows arbitrary: es) (auto intro!: pres_rules)

lemma more_deliver [pres_rules]: "pres (more_is m) (deliverSession hasEvent insertBatch sid)"
  unfolding deliverSession_def deliver_body_def by (intro pres_rules)

lemma pres_more: "(\<And>m. pres (more_is m) op) \<Longrightarrow> op w = (r, w') \<Longrightarrow> world.more w' = world.more w"
  by (metis more_is_def presD)

lemma outbox_events_kept [simp]: "outbox_events (mark_rows t ids d) = outbox_events d" "outbox_events (fail_rows ids d) = outbox_events d"
  by (simp_all add: outbox_events_def events_mark events_fail)

lemma deliver_events: "deliverSession hasEvent insertBatch sid w = (r, w') \<Longrightarrow>
    outbox_events (db w') = outbox_events (db w) \<and> set (sink w) \<subseteq> set (sink w')"
  by (cases rule: ch.deliverSession_spec [of sid w r w'])
    auto

lemma benign_enqueue [benign_rules]: "benign (enqueue i)"
proof (rule benignI)
  fix w r and w' :: "'a world_scheme" assume e: "enqueue i w = (r, w')"
  have "set (sink w) \<subseteq> set (sink w') \<and> outbox_events (db w) \<subseteq> outbox_events (db w')"
    using e by (cases rule: enqueue_cases) (auto simp: events_append)
  with pres_more [OF more_enqueue e] enqueue_inv [OF e, of click_of "sink w"] enqueue_sink [OF e]
  show "world.more w' = world.more w \<and> set (sink w) \<subseteq> set (sink w') \<and> outbox_events (db w) \<subseteq> outbox_events (db w')
     \<and> (audit_inv click_of (sink w) (db w) \<longrightarrow> audit_inv click_of (sink w') (db w'))" by simp
qed

lemma benign_deliver [benign_rules]: "benign (deliverSession hasEvent insertBatch sid)"
  by (rule benignI) (use pres_more [OF more_deliver] deliver_events ch.deliverSession_inv in blast)

lemma benign_durably [benign_rules]: "benign (persistDurably i)"
  unfolding persistDurably_def by (rule benign_enqueue)

lemma benign_before [benign_rules]: "benign (persistBeforeExecution hasEvent insertBatch i)"
  unfolding persistBeforeExecution_def by (intro benign_rules)

text \<open>The record a caller gets back is the one it asked for.\<close>

definition describes :: "audit_event \<Rightarrow> audit_input \<Rightarrow> bool" where
  "describes e i \<longleftrightarrow> ae_session_id e = ai_sessionId i \<and> ap_actionId (ae_payload e) = ai_actionId i
     \<and> ap_eventType (ae_payload e) = ai_eventType i \<and> ap_decision (ae_payload e) = orElse (ai_decision i) ''n/a''"

lemma payload_describes: "buildAuditPayload t i = Inr p \<Longrightarrow> ap_actionId p = ai_actionId i \<and> ap_eventType p = ai_eventType i
    \<and> ap_decision p = orElse (ai_decision i) ''n/a''"
  by (auto simp: buildAuditPayload_def Let_def split: sum.splits)

lemma enqueue_describes:
  assumes "enqueue i w = (Inr e, w')"
  shows "describes e i \<and> e \<in> outbox_events (db w')"
  using assms by (cases rule: enqueue_cases)
    (auto simp: describes_def event_of_def new_row_def events_append dest!: payload_describes)

lemma before_describes:
  assumes "persistBeforeExecution hasEvent insertBatch i w = (Inr e, w')" and "audit_inv click_of (sink w) (db w)"
  shows "describes e i \<and> e \<in> outbox_events (db w') \<and> click_of e \<in> set (sink w')"
proof -
  from assms(1) obtain w1 where e: "enqueue i w = (Inr e, w1)"
    and d: "deliverSession hasEvent insertBatch (ae_session_id e) w1 = (Inr (), w')"
    unfolding persistBeforeExecution_def by (elim bndE) (auto simp: ret_def)
  from ch.persistBeforeExecution_durable [OF assms] enqueue_describes [OF e] deliver_events [OF d] show ?thesis by auto
qed

section \<open>The handler's invariant\<close>

definition held :: "nat option \<Rightarrow> string \<Rightarrow> 'c broker_world \<Rightarrow> bool" where
  "held lo sid w \<longleftrightarrow> bw_lease w = lo \<and> (\<forall>l. lo = Some l \<longrightarrow> l < length (leases (bw_gate w))
     \<and> \<not> released (leases (bw_gate w) ! l) \<and> lease_session (leases (bw_gate w) ! l) = sid)"

definition host_ok :: "'c broker_world \<Rightarrow> bool" where
  "host_ok w \<longleftrightarrow> audit_inv click_of (sink w) (db w) \<and> gate_inv (bw_gate w) \<and> cache_ok w"

text \<open>The host is consistent, the lease \<open>lo\<close> is held, every effect so far satisfies \<open>P\<close>, and the records \<open>S\<close> are in the
  audit table and \<open>Ev\<close> in the outbox.\<close>

definition ctx :: "('c service_effect \<Rightarrow> bool) \<Rightarrow> nat option \<Rightarrow> string \<Rightarrow> click_row set \<Rightarrow> audit_event set \<Rightarrow> 'c broker_world \<Rightarrow> bool" where
  "ctx P lo sid S Ev w \<longleftrightarrow> host_ok w \<and> held lo sid w \<and> (\<forall>e \<in> set (bw_effects w). P e)
     \<and> S \<subseteq> set (sink w) \<and> Ev \<subseteq> outbox_events (db w)"

lemma bw_more: "world.more w' = world.more w \<Longrightarrow> bw_gate w' = bw_gate w \<and> bw_lease w' = bw_lease w
    \<and> bw_effects w' = bw_effects w \<and> pw_loaded w' = pw_loaded w"
  by (cases w, cases w') simp

lemma ctx_others:
  assumes "rely env" and "ctx P lo sid S Ev w"
  shows "ctx P lo sid S Ev (be_others env n w)"
proof -
  from assms(1) have r: "let w' = be_others env n w in
       set (sink w) \<subseteq> set (sink w') \<and> outbox_events (db w) \<subseteq> outbox_events (db w')
     \<and> (audit_inv click_of (sink w) (db w) \<longrightarrow> audit_inv click_of (sink w') (db w'))
     \<and> (gate_inv (bw_gate w) \<longrightarrow> gate_inv (bw_gate w')) \<and> (cache_ok w \<longrightarrow> cache_ok w')
     \<and> bw_lease w' = bw_lease w \<and> bw_effects w' = bw_effects w
     \<and> (\<forall>l. bw_lease w = Some l \<and> l < length (leases (bw_gate w)) \<longrightarrow>
          l < length (leases (bw_gate w')) \<and> leases (bw_gate w') ! l = leases (bw_gate w) ! l)"
    unfolding rely_def by blast
  have h: "held lo sid (be_others env n w)" using r assms(2) by (auto simp: Let_def ctx_def held_def)
  have o: "host_ok (be_others env n w)" using r assms(2) by (auto simp: Let_def ctx_def host_ok_def)
  show ?thesis using r assms(2) h o by (auto simp: Let_def ctx_def)
qed

lemma ctx_benign:
  assumes "benign m" and "ctx P lo sid S Ev w" and "m w = (r, w')"
  shows "ctx P lo sid S Ev w'"
proof -
  from assms(1,3) have m: "world.more w' = world.more w" and s: "set (sink w) \<subseteq> set (sink w')"
    "outbox_events (db w) \<subseteq> outbox_events (db w')" "audit_inv click_of (sink w) (db w) \<longrightarrow> audit_inv click_of (sink w') (db w')"
    unfolding benign_def by blast+
  with assms(2) bw_more [OF m] show ?thesis by (auto simp: ctx_def host_ok_def held_def cache_ok_def)
qed

lemma ctx_weaken: "ctx P lo sid S (insert e Ev) w \<Longrightarrow> ctx P lo sid S Ev w"
  by (simp add: ctx_def)

lemma ctx_more:
  assumes "ctx P lo sid S Ev w" "x \<in> set (sink w)" shows "ctx P lo sid (insert x S) Ev w"
  using assms by (simp add: ctx_def)

lemma ctx_event:
  assumes "ctx P lo sid S Ev w" "e \<in> outbox_events (db w)" shows "ctx P lo sid S (insert e Ev) w"
  using assms by (simp add: ctx_def)

lemma triple_benign:
  assumes "benign m"
  shows "triple (ctx P lo sid S Ev) m (\<lambda>_. ctx P lo sid S Ev) (\<lambda>_. ctx P lo sid S Ev)"
  by (rule tripleI) (auto intro: ctx_benign [OF assms])

lemma triple_await:
  assumes "rely env" and "triple A m (\<lambda>x w. ctx P lo sid (S x) (Ev x) w \<and> Q x) (\<lambda>_. ctx P' lo sid S' Ev')"
  shows "triple A (await env m) (\<lambda>x w. ctx P lo sid (S x) (Ev x) w \<and> Q x) (\<lambda>_. ctx P' lo sid S' Ev')"
proof (rule tripleI)
  fix s x s' assume "A s" "await env m s = (Inr x, s')"
  moreover obtain r w1 where "m s = (r, w1)" by fastforce
  ultimately show "ctx P lo sid (S x) (Ev x) s' \<and> Q x"
    using triple_Inr [OF assms(2)] ctx_others [OF assms(1)] by (auto simp: await_def)
next
  fix s e s' assume "A s" "await env m s = (Inl e, s')"
  moreover obtain r w1 where "m s = (r, w1)" by fastforce
  ultimately show "ctx P' lo sid S' Ev' s'"
    using triple_Inl [OF assms(2)] ctx_others [OF assms(1)] by (auto simp: await_def)
qed

lemma triple_await_benign:
  assumes "rely env" and "benign m"
  shows "triple (ctx P lo sid S Ev) (await env m) (\<lambda>_. ctx P lo sid S Ev) (\<lambda>_. ctx P lo sid S Ev)"
  by (rule triple_await [OF assms(1), where Q = "\<lambda>_. True" and S = "\<lambda>_. S" and Ev = "\<lambda>_. Ev", simplified])
    (rule triple_benign [OF assms(2)])

lemma triple_durably:
  "triple (ctx P lo sid S Ev) (persistDurably i) (\<lambda>e w. ctx P lo sid S (insert e Ev) w \<and> describes e i) (\<lambda>_. ctx P lo sid S Ev)"
  by (rule tripleI) (auto simp: persistDurably_def intro: ctx_benign [OF benign_enqueue] ctx_event dest: enqueue_describes)

lemma triple_before:
  "triple (ctx P lo sid S Ev) (persistBeforeExecution hasEvent insertBatch i)
     (\<lambda>e w. ctx P lo sid (insert (click_of e) S) (insert e Ev) w \<and> describes e i) (\<lambda>_. ctx P lo sid S Ev)"
proof (rule tripleI)
  fix s e s' assume c: "ctx P lo sid S Ev s" and r: "persistBeforeExecution hasEvent insertBatch i s = (Inr e, s')"
  from c have "audit_inv click_of (sink s) (db s)" by (simp add: ctx_def host_ok_def)
  from before_describes [OF r this] ctx_benign [OF benign_before c r]
  show "ctx P lo sid (insert (click_of e) S) (insert e Ev) s' \<and> describes e i" by (simp add: ctx_more ctx_event)
qed (rule ctx_benign [OF benign_before])

lemma load_frame:
  assumes "load f i w = (r, w')"
  shows "bw_gate w' = bw_gate w \<and> bw_lease w' = bw_lease w \<and> bw_effects w' = bw_effects w"
  using load_more [OF assms] by (cases w, cases w') simp

lemma triple_load:
  "triple (ctx P lo sid S Ev) (load f i) (\<lambda>b w. ctx P lo sid S Ev w \<and> lb_id b = i) (\<lambda>_. ctx P lo sid S Ev)"
proof -
  have "ctx P lo sid S Ev w' \<and> (\<forall>b. r = Inr b \<longrightarrow> lb_id b = i)" if c: "ctx P lo sid S Ev w" and l: "load f i w = (r, w')" for w r w'
  proof -
    from c have ok: "cache_ok w" by (simp add: ctx_def host_ok_def)
    from load_frame [OF l] load_sound [OF ok l] c show ?thesis by (auto simp: ctx_def host_ok_def held_def)
  qed
  then show ?thesis by (intro tripleI) blast+
qed

lemma triple_external:
  assumes "\<And>w. ctx P lo sid S Ev w \<Longrightarrow> P \<lparr>ef_call = call, ef_action = a, ef_sink = sink w, ef_gate = bw_gate w\<rparr>"
  shows "triple (ctx P lo sid S Ev) (external a call answer) (\<lambda>_. ctx P lo sid S Ev) (\<lambda>_. ctx P lo sid S Ev)"
proof -
  have "ctx P lo sid S Ev (w\<lparr>calls := n, bw_effects := bw_effects w @ [\<lparr>ef_call = call, ef_action = a, ef_sink = sink w, ef_gate = bw_gate w\<rparr>]\<rparr>)"
    if "ctx P lo sid S Ev w" for w n
    using assms [OF that] that by (auto simp: ctx_def host_ok_def held_def cache_ok_def)
  then show ?thesis by (auto simp: triple_def external_def split: sum.splits)
qed

section \<open>The stages\<close>

text \<open>A lease that is held keeps captures of its session out.\<close>

definition no_capture :: "string \<Rightarrow> gate \<Rightarrow> bool" where
  "no_capture sid g \<longleftrightarrow> (\<forall>i \<in> in_flight sid g. cap_pc (captures g ! i) \<noteq> Capturing)"

lemma held_no_capture:
  assumes "gate_inv g" "l < length (leases g)" "\<not> released (leases g ! l)" "lease_session (leases g ! l) = sid"
  shows "no_capture sid g"
  unfolding no_capture_def
proof
  fix i assume i: "i \<in> in_flight sid g"
  have "leases g ! l \<in> set (live_leases sid g)" using assms(2-4) by (auto simp: live_leases_def)
  then have "live_leases sid g \<noteq> []" by auto
  with session_okD(2,10) [OF gate_inv_session [OF assms(1)] capture_pins [OF assms(1) i]] i
  show "cap_pc (captures g ! i) \<noteq> Capturing" by (metis length_0_conv of_nat_eq_0_iff)
qed

lemma ctx_no_capture: "ctx P (Some l) sid S Ev w \<Longrightarrow> no_capture sid (bw_gate w)"
  by (auto simp: ctx_def held_def host_ok_def intro: held_no_capture)

text \<open>What justifies an effect: the record of the start is in the audit table, no capture of the session is running, and
  the policy bundle of the session allowed the action, with a role from honoured obligations.\<close>

definition started_row :: "string \<Rightarrow> string \<Rightarrow> click_row set \<Rightarrow> bool" where
  "started_row sid a S \<longleftrightarrow> (\<exists>r \<in> S. ck_session_id r = sid \<and> ck_action_id r = a \<and> ck_event_type r = ''action.started''
     \<and> ck_decision r = ''allow'')"

definition audited :: "string \<Rightarrow> 'c service_effect \<Rightarrow> bool" where
  "audited sid e \<longleftrightarrow> started_row sid (ef_action e) (set (ef_sink e)) \<and> no_capture sid (ef_gate e)"

definition authorised :: "'c broker_env \<Rightarrow> identity \<Rightarrow> broker_request \<Rightarrow> 'c service_effect \<Rightarrow> bool" where
  "authorised env idn rq e \<longleftrightarrow> (\<exists>(bundle :: loaded_bundle) input decision role.
      lb_id bundle = id_policyBundleId idn \<and> evaluate (be_parse env) (lb_evaluator bundle) input = Inr decision
    \<and> pd_decision decision = Allow \<and> resolveObligations (pd_obligations decision) = Inr role
    \<and> (case ef_call e of FetchSecret r \<Rightarrow> js (cf_role r) = role | ExecuteMethod m _ _ \<Rightarrow> m = rq_method rq))"

definition justified :: "'c broker_env \<Rightarrow> identity \<Rightarrow> broker_request \<Rightarrow> 'c service_effect \<Rightarrow> bool" where
  "justified env idn rq e \<longleftrightarrow> audited (id_sessionId idn) e \<and> authorised env idn rq e"

text \<open>The record a reply rests on.\<close>

definition replied :: "'c broker_env \<Rightarrow> broker_request \<Rightarrow> string \<Rightarrow> json \<Rightarrow> audit_event set \<Rightarrow> bool" where
  "replied env rq sid reply Ev \<longleftrightarrow> (\<exists>e \<in> Ev. ae_session_id e = sid \<and>
     ((\<exists>code message details. reply = errorReply rq code message details (ap_actionId (ae_payload e))
          \<and> (ap_eventType (ae_payload e) = ''action.denied'' \<and> ap_decision (ae_payload e) \<noteq> ''allow''
             \<or> ap_eventType (ae_payload e) = ''action.failed''))
      \<or> ap_eventType (ae_payload e) = ''action.completed''
          \<and> (\<exists>result d role truncated. be_parse env BrokerCallResponseSchema
               (successReply rq result d role (ap_actionId (ae_payload e)) truncated) = Some reply)))"

lemma replied_mono: "replied env rq sid reply Ev \<Longrightarrow> Ev \<subseteq> Ev' \<Longrightarrow> replied env rq sid reply Ev'"
  unfolding replied_def by blast

lemma replied_error:
  assumes "ae_session_id e = sid" "ap_actionId (ae_payload e) = a"
    "ap_eventType (ae_payload e) = ''action.denied'' \<and> ap_decision (ae_payload e) \<noteq> ''allow'' \<or> ap_eventType (ae_payload e) = ''action.failed''"
  shows "replied env rq sid (errorReply rq code message details a) {e}"
  using assms unfolding replied_def by blast

lemma credentialRef_role:
  assumes "resolveCredentialRef name role w = (Inr (Some r), w')"
  shows "js (cf_role r) = role"
proof -
  from assms obtain rows where q: "query (select (credential_rows name role)) w = (Inr rows, w')"
    and c: "(case rows of [] \<Rightarrow> ret None
     | c # _ \<Rightarrow> if cr_backend c \<noteq> ''env'' \<and> cr_backend c \<noteq> ''vault''
         then throw (Caisson SECRET_UNAVAILABLE ''credential reference is invalid'')
         else ret (Some \<lparr>cf_backend = cr_backend c, cf_backendPath = cr_backend_path c, cf_role = cr_role c\<rparr>)) w' = (Inr (Some r), w')"
    unfolding resolveCredentialRef_def
    by (elim bndE) (auto simp: ret_def throw_def split: list.splits if_splits)
  from q have rows: "rows = credential_rows name role (db w)" by (cases rule: query_cases) (auto simp: select_def)
  from c obtain c' rest where "rows = c' # rest" "cf_role r = cr_role c'"
    by (auto simp: ret_def throw_def split: list.splits if_splits)
  moreover from this rows have "c' \<in> set (credential_rows name role (db w))" by (metis list.set_intros(1))
  ultimately show ?thesis by (auto simp: credential_rows_def)
qed

lemma triple_credentialRef:
  "triple (ctx P lo sid S Ev) (resolveCredentialRef name role)
     (\<lambda>ref w. ctx P lo sid S Ev w \<and> (\<forall>r. ref = Some r \<longrightarrow> js (cf_role r) = role)) (\<lambda>_. ctx P lo sid S Ev)"
  by (rule tripleI) (auto intro: ctx_benign [OF benign_credentialRef] dest: credentialRef_role)

lemma triple_fetch:
  assumes "rely env" and ok: "\<And>w r. ctx P lo sid S Ev w \<Longrightarrow> js (cf_role r) = role \<Longrightarrow>
      P \<lparr>ef_call = FetchSecret r, ef_action = a, ef_sink = sink w, ef_gate = bw_gate w\<rparr>"
    and role: "\<forall>r. ref = Some r \<longrightarrow> js (cf_role r) = role"
  shows "triple (ctx P lo sid S Ev) (fetch_credentials env a ref) (\<lambda>_. ctx P lo sid S Ev) (\<lambda>_. ctx P lo sid S Ev)"
proof (cases ref)
  case None
  then show ?thesis by (simp add: fetch_credentials_def triple_ret)
next
  case (Some r)
  with role have "js (cf_role r) = role" by simp
  then have "triple (ctx P lo sid S Ev) (await env (external a (FetchSecret r) (\<lambda>n. be_fetch env n r)))
      (\<lambda>_. ctx P lo sid S Ev) (\<lambda>_. ctx P lo sid S Ev)"
    by (intro triple_await [OF assms(1), where Q = "\<lambda>_. True" and S = "\<lambda>_. S" and Ev = "\<lambda>_. Ev", simplified]
        triple_external ok)
  then show ?thesis by (simp add: Some fetch_credentials_def) (erule triple_bnd, simp add: triple_ret)
qed

lemma triple_perform:
  assumes rely: "rely env"
    and fetch: "\<And>w r. ctx P lo sid S Ev w \<Longrightarrow> js (cf_role r) = role \<Longrightarrow>
      P \<lparr>ef_call = FetchSecret r, ef_action = a, ef_sink = sink w, ef_gate = bw_gate w\<rparr>"
    and exec: "\<And>w c. ctx P lo sid S Ev w \<Longrightarrow>
      P \<lparr>ef_call = ExecuteMethod (rq_method rq) c ps, ef_action = a, ef_sink = sink w, ef_gate = bw_gate w\<rparr>"
    and input: "\<And>t. ai_sessionId (input t) = sid \<and> ai_actionId (input t) = a \<and> ai_eventType (input t) = t"
  shows "triple (ctx P lo sid S Ev) (perform env idn rq t0 service method ps a role input)
     (\<lambda>reply w. \<exists>e. replied env rq sid reply {e} \<and> ctx P lo sid S (insert e Ev) w) (\<lambda>_. ctx P lo sid S Ev)"
proof -
  note aw = triple_await [OF rely, where S = "\<lambda>_. S" and Ev = "\<lambda>_. Ev"]
  have reply: "triple (ctx P lo sid S (insert e Ev)) (bnd (of_result (be_jparse env encoded)) (\<lambda>body. bnd (gets now) (\<lambda>t2.
      of_result (case be_parse env BrokerCallResponseSchema (successReply rq body (t2 - t0) role a tr) of
        None \<Rightarrow> Inl ForeignError | Some u \<Rightarrow> Inr u))))
     (\<lambda>reply w. \<exists>e. replied env rq sid reply {e} \<and> ctx P lo sid S (insert e Ev) w) (\<lambda>_. ctx P lo sid S Ev)"
    if "ae_session_id e = sid" "ap_actionId (ae_payload e) = a" "ap_eventType (ae_payload e) = ''action.completed''" for e encoded tr
    unfolding triple_def bnd_def of_result_def gets_def replied_def using that
    by (auto split: sum.splits option.splits intro: ctx_weaken)
  show ?thesis
    unfolding perform_def persistDurably_def [symmetric]
    apply (rule triple_bnd)
     apply (rule aw [OF triple_credentialRef])
    apply (rule triple_fact)
    apply (rule triple_bnd)
     apply (rule triple_fetch [OF rely], rule fetch, assumption, assumption, assumption)
    apply (rule triple_bnd)
     apply (rule triple_await [OF rely, where Q = "\<lambda>_. True" and S = "\<lambda>_. S" and Ev = "\<lambda>_. Ev", simplified])
     apply (rule triple_external, rule exec, assumption)
    apply (rule triple_bnd, rule triple_of_result, rule triple_fact)
    apply (rule triple_bnd, rule triple_gets)
    apply (rule triple_bnd)
     apply (rule triple_await [OF rely, where S = "\<lambda>_. S" and Ev = "\<lambda>e. insert e Ev"], rule triple_durably)
    apply (rule triple_fact, rule reply)
    using input by (simp_all add: describes_def)
qed

lemma triple_failed:
  assumes rely: "rely env"
    and input: "\<And>t. ai_sessionId (input t) = sid \<and> ai_actionId (input t) = a \<and> ai_eventType (input t) = t"
  shows "triple (ctx P lo sid S Ev) (call_failed env rq t0 a input err)
     (\<lambda>reply w. \<exists>e. replied env rq sid reply {e} \<and> ctx P lo sid S (insert e Ev) w) (\<lambda>_. ctx P lo sid S Ev)"
  unfolding call_failed_def Let_def
  apply (rule triple_bnd, rule triple_gets)
  apply (rule triple_bnd)
   apply (rule triple_await [OF rely, where S = "\<lambda>_. S" and Ev = "\<lambda>e. insert e Ev"], rule triple_durably)
  apply (rule triple_fact, rule triple_ret)
  apply (intro exI conjI, rule replied_error)
  using input by (simp_all add: describes_def)

lemma audit_input_fields [simp]:
  "ai_sessionId (auditInput env idn a rq ev v b r os sc) = id_sessionId idn" "ai_actionId (auditInput env idn a rq ev v b r os sc) = a"
  "ai_eventType (auditInput env idn a rq ev v b r os sc) = ev"
  "ai_decision (auditInput env idn a rq ev v b r os sc) = Some (verdict_name v)"
  by (simp_all add: auditInput_def)

lemma started_described:
  assumes "describes e (auditInput env idn a rq ''action.started'' Allow b r os sc)" "click_of e \<in> T"
  shows "started_row (id_sessionId idn) a T"
  using assms by (auto simp: describes_def started_row_def click_of_def Let_def orElse_def intro!: bexI [of _ "click_of e"])

lemma triple_decided:
  fixes env :: "'c broker_env" and idn :: identity and rq :: broker_request
  defines "sid \<equiv> id_sessionId idn" and "P \<equiv> justified env idn rq"
  assumes rely: "rely env" and lb: "lb_id bundle = id_policyBundleId idn"
    and eval: "evaluate (be_parse env) (lb_evaluator bundle) inp = Inr decision"
    and role: "resolveObligations (pd_obligations decision) = Inr role"
  shows "triple (ctx P (Some l) sid {} {}) (decided env idn rq t0 service method ps sc a bundle decision role)
     (\<lambda>reply w. \<exists>Ev. replied env rq sid reply Ev \<and> ctx P (Some l) sid {} Ev w) (\<lambda>_. ctx P (Some l) sid {} {})"
proof (cases "pd_decision decision = Allow")
  case False
  have "verdict_name (pd_decision decision) \<noteq> ''allow''" using False by (cases "pd_decision decision") auto
  then show ?thesis
    unfolding decided_def Let_def if_P [OF False]
    apply -
    apply (rule triple_bnd, rule triple_gets)
    apply (rule triple_bnd)
     apply (rule triple_await [OF rely, where S = "\<lambda>_. {}" and Ev = "\<lambda>e. {e}"], rule triple_durably)
    apply (rule triple_fact, rule triple_ret)
    apply (intro exI conjI, rule replied_error)
    by (simp_all add: describes_def orElse_def sid_def)
next
  case True
  let ?in = "\<lambda>t. auditInput env idn a rq t Allow (lb_id bundle) (pd_reason decision) (pd_obligations decision) sc"
  have P: "P \<lparr>ef_call = call, ef_action = a, ef_sink = sink w, ef_gate = bw_gate w\<rparr>"
    if d: "describes e (?in ''action.started'')" and c: "ctx P (Some l) sid {click_of e} {e} w"
      and call: "case call of FetchSecret r \<Rightarrow> js (cf_role r) = role | ExecuteMethod m _ _ \<Rightarrow> m = rq_method rq" for e w call
  proof -
    have "click_of e \<in> set (sink w)" using c by (simp add: ctx_def)
    from started_described [OF d this] ctx_no_capture [OF c] call lb eval role True show ?thesis
      unfolding P_def justified_def audited_def authorised_def sid_def by auto
  qed
  have keep: "ctx P (Some l) sid {click_of e} Ev w \<Longrightarrow> ctx P (Some l) sid {} Ev w"
    "ctx P (Some l) sid {click_of e} Ev w \<Longrightarrow> ctx P (Some l) sid {} {} w" for e Ev w by (simp_all add: ctx_def)
  show ?thesis
    unfolding decided_def Let_def using True
    apply simp
    apply (rule triple_bnd)
     apply (rule triple_await [OF rely, where S = "\<lambda>e. {click_of e}" and Ev = "\<lambda>e. {e}"], rule triple_before)
    apply (rule triple_fact)
    subgoal for e
      apply (rule triple_conseq)
         apply (rule triple_try_catch)
          apply (rule triple_perform [OF rely, where P = P and lo = "Some l" and sid = sid and S = "{click_of e}" and Ev = "{e}"])
            apply (rule P, assumption, assumption, simp)
           apply (rule P, assumption, assumption, simp)
          apply (simp add: sid_def)
         apply (rule triple_failed [OF rely])
         apply (simp add: sid_def)
        apply assumption
       apply (auto intro: keep dest: replied_mono [where Ev' = "insert _ {e}"])
      done
    done
qed

lemma triple_admitted:
  fixes env :: "'c broker_env" and idn :: identity and rq :: broker_request
  defines "sid \<equiv> id_sessionId idn" and "P \<equiv> justified env idn rq"
  assumes rely: "rely env"
  shows "triple (ctx P (Some l) sid {} {}) (admitted env idn rq t0)
     (\<lambda>reply w. \<exists>Ev. replied env rq sid reply Ev \<and> ctx P (Some l) sid {} Ev w) (\<lambda>_. ctx P (Some l) sid {} {})"
  unfolding admitted_def
  apply (rule triple_bnd, rule triple_await_benign [OF rely benign_service])
  apply (rule triple_bnd, rule triple_of_result, rule triple_fact)
  apply (rule triple_bnd, rule triple_of_result, rule triple_fact)
  apply (rule triple_bnd, rule triple_of_result, rule triple_fact)
  apply (rule triple_bnd, rule triple_of_result, rule triple_fact)
  apply (rule triple_bnd, rule triple_benign [OF benign_random])
  apply (rule triple_bnd)
   apply (rule triple_await [OF rely, where S = "\<lambda>_. {}" and Ev = "\<lambda>_. {}"], rule triple_load)
  apply (rule triple_fact)
  apply (rule triple_bnd, rule triple_gets)
  apply (rule triple_bnd, rule triple_of_result, rule triple_fact)
  apply (rule triple_bnd, rule triple_of_result, rule triple_fact)
  unfolding sid_def P_def by (rule triple_decided [OF rely])

lemma triple_suspended:
  assumes rely: "rely env"
  shows "triple (ctx P None (id_sessionId idn) {} {}) (suspended env idn rq t0)
     (\<lambda>reply w. \<exists>Ev. replied env rq (id_sessionId idn) reply Ev \<and> ctx P None (id_sessionId idn) {} Ev w)
     (\<lambda>_. ctx P None (id_sessionId idn) {} {})"
  unfolding suspended_def
  apply (rule triple_bnd, rule triple_benign [OF benign_random])
  apply (rule triple_bnd, rule triple_gets)
  apply (rule triple_bnd)
   apply (rule triple_await [OF rely, where S = "\<lambda>_. {}" and Ev = "\<lambda>e. {e}"], rule triple_durably)
  apply (rule triple_fact, rule triple_ret)
  apply (intro exI conjI, rule replied_error)
  by (simp_all add: describes_def orElse_def)

text \<open>The end of a handler: consistent host, justified effects, and the lease, if one was taken, released.\<close>

definition settled :: "('c service_effect \<Rightarrow> bool) \<Rightarrow> audit_event set \<Rightarrow> 'c broker_world \<Rightarrow> bool" where
  "settled P Ev w \<longleftrightarrow> host_ok w \<and> (\<forall>e \<in> set (bw_effects w). P e) \<and> Ev \<subseteq> outbox_events (db w)
     \<and> (\<forall>l. bw_lease w = Some l \<longrightarrow> l < length (leases (bw_gate w)) \<and> released (leases (bw_gate w) ! l))"

lemma release_marks: "l < length (leases g) \<Longrightarrow> l < length (leases (release l g)) \<and> released (leases (release l g) ! l)"
  by (auto simp: release_def Let_def deleteIfIdle_def notify_drained_def upd_obj_def)

lemma release_settles:
  assumes "ctx P (Some l) sid S Ev w"
  shows "release_lease l w = (Inr (), w\<lparr>bw_gate := release l (bw_gate w)\<rparr>) \<and> settled P Ev (w\<lparr>bw_gate := release l (bw_gate w)\<rparr>)"
proof -
  from assms have g: "gate_inv (bw_gate w)" "l < length (leases (bw_gate w))" by (auto simp: ctx_def host_ok_def held_def)
  have "gate_inv (release l (bw_gate w))" by (rule gate_step_inv [OF step_release [OF g(2)] g(1)])
  with assms release_marks [OF g(2)] show ?thesis
    by (auto simp: settled_def ctx_def host_ok_def held_def release_lease_def modify_def cache_ok_def)
qed

lemma ctx_None_settled: "ctx P None sid S Ev w \<Longrightarrow> settled P Ev w"
  by (auto simp: ctx_def settled_def held_def)

lemma enter_ctx:
  assumes "ctx P None sid {} {} w" and "enter_gate s w = (r, w')"
  shows "\<exists>lo. r = Inr lo \<and> ctx P lo s {} {} w'"
proof -
  obtain lo g where e: "enter s (bw_gate w) = (lo, g)" by fastforce
  then have w': "r = Inr lo" "w' = w\<lparr>bw_gate := g, bw_lease := lo\<rparr>" using assms(2) by (auto simp: enter_gate_def)
  have gi: "gate_inv (bw_gate w)" using assms(1) by (simp add: ctx_def host_ok_def)
  have g: "gate_inv g" using enter_inv [OF gi, of s] e by simp
  have h: "held lo s w'"
  proof (cases lo)
    case (Some l)
    with e enter_admitted_lease [of s "bw_gate w" l g] show ?thesis by (simp add: held_def w'(2))
  qed (simp add: held_def w'(2))
  have "ctx P lo s {} {} w'" using assms(1) g h by (auto simp: ctx_def host_ok_def cache_ok_def w'(2))
  then show ?thesis using w'(1) by blast
qed

text \<open>A handler starts with no lease and no effect of its own, on a consistent host.\<close>

definition fresh_call :: "'c broker_world \<Rightarrow> bool" where
  "fresh_call w \<longleftrightarrow> host_ok w \<and> bw_lease w = None \<and> bw_effects w = []"

lemma admitted_settles:
  assumes rely: "rely env" and c: "ctx (justified env idn rq) (Some l) (id_sessionId idn) {} {} w"
    and run: "try_finally (admitted env idn rq t0) (release_lease l) w = (r, w')"
  shows "settled (justified env idn rq) {} w' \<and> (\<forall>reply. r = Inr reply \<longrightarrow> replied env rq (id_sessionId idn) reply (outbox_events (db w')))"
proof -
  obtain r1 w1 where a: "admitted env idn rq t0 w = (r1, w1)" by fastforce
  from triple_run [OF triple_admitted [OF rely] c a]
  obtain Ev where Ev: "ctx (justified env idn rq) (Some l) (id_sessionId idn) {} Ev w1"
    "\<And>reply. r1 = Inr reply \<Longrightarrow> replied env rq (id_sessionId idn) reply Ev"
    by (cases r1) auto
  from release_settles [OF Ev(1)] a run have w': "r = r1" "settled (justified env idn rq) Ev w'"
    by (auto simp: try_finally_def)
  then have "settled (justified env idn rq) {} w'" "Ev \<subseteq> outbox_events (db w')" by (simp_all add: settled_def)
  with w'(1) Ev(2) show ?thesis using replied_mono by blast
qed

lemma handle_settled:
  assumes rely: "rely env" and w: "fresh_call w" and run: "handle env p frame w = (r, w')"
  obtains (refused) "settled (\<lambda>_. False) {} w'" "\<And>x. r \<noteq> Inr x"
  | (served) idn w1 rq u where "resolve p w = (Inr idn, w1)" "be_parse env BrokerCallRequestSchema frame = Some u"
      "request_of u = Some rq" "settled (justified env idn rq) {} w'"
      "\<And>reply. r = Inr reply \<Longrightarrow> replied env rq (id_sessionId idn) reply (outbox_events (db w'))"
proof (cases "Option.bind (be_parse env BrokerCallRequestSchema frame) request_of")
  case None
  then show thesis
    using w run by (intro refused) (auto simp: handle_def throw_def fresh_call_def settled_def)
next
  case (Some rq)
  then obtain u where u: "be_parse env BrokerCallRequestSchema frame = Some u" "request_of u = Some rq" by (auto simp: bind_eq_Some_conv)
  have h: "handleRequest env p rq w = (r, w')" using run Some by (simp add: handle_def)
  obtain ri wi where i: "await env (resolve p) w = (ri, wi)" by fastforce
  have c0: "ctx P None s {} {} w" for P s using w by (auto simp: fresh_call_def ctx_def held_def)
  have ci: "ctx P None s {} {} wi" for P s
    using triple_run [OF triple_await_benign [OF rely benign_resolve] c0 i, of P s] by (cases ri) auto
  show thesis
  proof (cases ri)
    case (Inl e)
    then show thesis
      using h i ctx_None_settled [OF ci] by (intro refused) (auto simp: handleRequest_def bnd_def gets_def)
  next
    case (Inr idn)
    then obtain w1 where r1: "resolve p w = (Inr idn, w1)" using i by (auto simp: await_def split: prod.splits)
    let ?P = "justified env idn rq" and ?sid = "id_sessionId idn"
    obtain re we where e: "enter_gate ?sid wi = (re, we)" by fastforce
    from enter_ctx [OF ci e, of ?P] obtain lo where lo: "re = Inr lo" "ctx ?P lo ?sid {} {} we" by blast
    have rest: "(case lo of None \<Rightarrow> suspended env idn rq (now w)
        | Some l \<Rightarrow> try_finally (admitted env idn rq (now w)) (release_lease l)) we = (r, w')"
      using h i Inr e lo(1) by (auto simp: handleRequest_def bnd_def gets_def)
    show thesis
    proof (cases lo)
      case None
      have s0: "suspended env idn rq (now w) we = (r, w')" using rest None by simp
      from triple_run [OF triple_suspended [OF rely] lo(2) [unfolded None] s0]
      obtain Ev where "ctx ?P None ?sid {} Ev w'" "\<And>reply. r = Inr reply \<Longrightarrow> replied env rq ?sid reply Ev"
        by (cases r) auto
      with ctx_None_settled have s: "settled ?P Ev w'" "\<And>reply. r = Inr reply \<Longrightarrow> replied env rq ?sid reply Ev" by blast+
      then have "settled ?P {} w'" "Ev \<subseteq> outbox_events (db w')" by (simp_all add: settled_def)
      with served [OF r1 u] s(2) replied_mono show thesis by metis
    next
      case (Some l)
      with lo(2) rest have "ctx ?P (Some l) ?sid {} {} we"
        "try_finally (admitted env idn rq (now w)) (release_lease l) we = (r, w')" by simp_all
      from admitted_settles [OF rely this] served [OF r1 u] show thesis by blast
    qed
  qed
qed

section \<open>What the pipeline guarantees\<close>

text \<open>(C14) Nothing happens unrecorded: whenever a broker call asks the secret backend for a credential or calls the service, its
  record of the start, with decision allow, is already in ClickHouse, and no snapshot capture of the session
  is running. This holds for every pattern of failures and whatever the other handlers do meanwhile.\<close>

theorem broker_effects_audited:
  assumes "rely env" and "fresh_call w" and "handle env p frame w = (r, w')" and "e \<in> set (bw_effects w')"
  shows "\<exists>idn w1. resolve p w = (Inr idn, w1) \<and> no_capture (id_sessionId idn) (ef_gate e)
     \<and> (\<exists>row \<in> set (ef_sink e). ck_session_id row = id_sessionId idn \<and> ck_action_id row = ef_action e
          \<and> ck_event_type row = ''action.started'' \<and> ck_decision row = ''allow'')"
  using assms(1-3)
proof (cases rule: handle_settled)
  case (served idn w1 rq u)
  from served(1,4) assms(4) show ?thesis by (auto simp: settled_def justified_def audited_def started_row_def)
qed (use assms(4) in \<open>auto simp: settled_def\<close>)


text \<open>(C16) Every broker call gives its lease back, however it ends, and leaves the audit trail, the gate and the policy cache
  consistent.\<close>

theorem broker_lease_released:
  assumes "rely env" and "fresh_call w" and "handle env p frame w = (r, w')"
  shows "host_ok w' \<and> (\<forall>l. bw_lease w' = Some l \<longrightarrow> released (leases (bw_gate w') ! l))"
  using assms by (cases rule: handle_settled) (auto simp: settled_def)

text \<open>Every reply is accounted for: when the handler returns a reply, the outbox holds a record of the session under the
  action id of that reply: action.completed for a success, action.failed or a denial for an error.\<close>

theorem broker_reply_recorded:
  assumes "rely env" and "fresh_call w" and "handle env p frame w = (Inr reply, w')"
  shows "\<exists>idn w1 rq u. resolve p w = (Inr idn, w1) \<and> be_parse env BrokerCallRequestSchema frame = Some u \<and> request_of u = Some rq
     \<and> replied env rq (id_sessionId idn) reply (outbox_events (db w'))"
  using assms by (cases rule: handle_settled) blast+

section \<open>A call that succeeds\<close>

definition demo_method :: "unit broker_method" where
  "demo_method = \<lparr>bm_params = Some, bm_scopeRequired = Fixed (js ''http:get''), bm_sideEffecting = Fixed False,
     bm_execute = (\<lambda>_ _ _ _. Inr (Some JNull))\<rparr>"

definition demo_env :: "unit broker_env" where
  "demo_env = \<lparr>be_parse = zod (\<lambda>_ _. True), be_stringify = (\<lambda>_. js ''null''), be_jparse = (\<lambda>_. Inr JNull), be_sha256 = (\<lambda>_. ''h''),
     be_iso = (\<lambda>_. []), be_trace = None, be_loadPolicy = (\<lambda>_. Some demo_policy),
     be_adapters = [\<lparr>ba_name = ''pg'', ba_methods = [(js ''query'', demo_method)]\<rparr>], be_fetch = (\<lambda>_ _. Inr ()), be_others = (\<lambda>_ w. w)\<rparr>"

definition demo_host :: "unit broker_world" where
  "demo_host = policy_world.extend (world.extend (bound_world\<lparr>entropy := (\<lambda>n. replicate 16 (word_of_nat n)), db := (db bound_world)\<lparr>policy_bundles := [demo_bundle\<lparr>pb_id := sr_policy_bundle_id demo_session\<rparr>],
       services := [\<lparr>sv_id = ''s'', sv_name = ''db'', sv_adapter = ''pg'', sv_config = JObj [(js ''timeoutMs'', JNum 5)], sv_enabled = True\<rparr>],
       credential_refs := [\<lparr>cr_id = ''c'', cr_service_id = ''s'', cr_role = ''reader'', cr_backend = ''env'', cr_backend_path = ''P''\<rparr>]\<rparr>\<rparr>)
     (policy_world.fields Map.empty)) (broker_world.fields new_gate None [])"

lemma demo_rely: "rely demo_env"
  by (simp add: rely_def demo_env_def)

definition demo_request :: broker_request where
  "demo_request = \<lparr>rq_id = js ''f1'', rq_service = js ''db'', rq_method = js ''query'', rq_params = JObj [], rq_intent = js ''read''\<rparr>"

definition demo_identity :: identity where
  "demo_identity = \<lparr>id_sessionId = sr_id demo_session, id_tokenId = ''token'', id_scopes = [''http:get''], id_roles = sr_roles demo_session,
     id_approvalMode = sr_approval_mode demo_session, id_policyBundleId = sr_policy_bundle_id demo_session,
     id_expiresAt = sr_expires_at demo_session, id_requestedBy = sr_requested_by demo_session, id_purpose = sr_purpose demo_session,
     id_driver = the (sr_driver demo_session), id_hardwareIsolated = sr_hardware_isolated demo_session\<rparr>"

definition demo_adapter :: "unit broker_adapter" where
  "demo_adapter = \<lparr>ba_name = ''pg'', ba_methods = [(js ''query'', demo_method)]\<rparr>"

definition demo_ref :: credential_ref where "demo_ref = \<lparr>cf_backend = ''env'', cf_backendPath = ''P'', cf_role = ''reader''\<rparr>"

definition demo_verdict :: policy_decision where "demo_verdict = \<lparr>pd_decision = Allow, pd_reason = js ''ok'', pd_obligations = [js ''role:reader''], pd_matchedRules = [js ''r1'']\<rparr>"

definition demo_action :: string where "demo_action = ''00000000-0000-4000-8000-000000000000''"

text \<open>The states between the stages.\<close>

definition demo1 :: "unit broker_world" where "demo1 = snd (resolve demo_peer demo_host)"
definition demo2 :: "unit broker_world" where "demo2 = snd (enter_gate (sr_id demo_session) demo1)"
definition demo3 :: "unit broker_world" where "demo3 = snd (resolveService demo_env (js ''db'') demo2)"
definition demo4 :: "unit broker_world" where "demo4 = snd (randomUUID demo3)"
definition demo5 :: "unit broker_world" where "demo5 = snd (load (be_loadPolicy demo_env) (id_policyBundleId demo_identity) demo4)"

definition demo_started :: audit_input where
  "demo_started = auditInput demo_env demo_identity demo_action demo_request ''action.started'' Allow ''bundle'' (js ''ok'')
     [js ''role:reader''] (js ''http:get'')"

definition demo6 :: "unit broker_world" where "demo6 = snd (persistBeforeExecution hasEvent insertBatch demo_started demo5)"
definition demo7 :: "unit broker_world" where "demo7 = snd (resolveCredentialRef (js ''db'') (js ''reader'') demo6)"
definition demo8 :: "unit broker_world" where
  "demo8 = snd (external demo_action (FetchSecret demo_ref) (\<lambda>n. be_fetch demo_env n demo_ref) demo7)"
definition demo9 :: "unit broker_world" where
  "demo9 = snd (external demo_action (ExecuteMethod (js ''query'') (Some ()) (JObj []))
     (\<lambda>n. bm_execute demo_method n (Some ()) (JObj []) 5) demo8)"

definition demo_completed :: audit_input where
  "demo_completed = demo_started\<lparr>ai_eventType := ''action.completed'', ai_durationMs := Some 0, ai_resultBytes := Some 4, ai_resultHash := Some ''h''\<rparr>"

definition demo10 :: "unit broker_world" where "demo10 = snd (persistDurably demo_completed demo9)"

definition demo_reply :: json where "demo_reply = successReply demo_request JNull 0 (js ''reader'') demo_action False"

lemma demo_parsed: "Option.bind (be_parse demo_env BrokerCallRequestSchema demo_broker_request) request_of = Some demo_request"
  by code_simp

lemma demo_stage_values:
  "fst (resolve demo_peer demo_host) = Inr demo_identity"
  "fst (enter_gate (sr_id demo_session) demo1) = Inr (Some 0)"
  "fst (randomUUID demo3) = Inr demo_action"
  "fst (resolveCredentialRef (js ''db'') (js ''reader'') demo6) = Inr (Some demo_ref)"
  by code_simp+

lemma demo_clock: "now demo_host = 1000" "now demo5 = 1000" "now demo9 = 1000" "now demo10 = 1000"
  by code_simp+

lemma demo_tables:
  "filter (\<lambda>s. js (sv_name s) = js ''db'') (services (db demo2)) =
     [\<lparr>sv_id = ''s'', sv_name = ''db'', sv_adapter = ''pg'', sv_config = JObj [(js ''timeoutMs'', JNum 5)], sv_enabled = True\<rparr>]"
  "bundle_rows (id_policyBundleId demo_identity) (db demo4) = [demo_bundle]"
  "Option.is_none (pw_loaded demo4 (id_policyBundleId demo_identity))"
  "fault demo2 (calls demo2) = Ok" "fault demo4 (calls demo4) = Ok"
  "be_parse demo_env ServiceConfigSchema (JObj [(js ''timeoutMs'', JNum 5)]) = Some (JObj [(js ''timeoutMs'', JNum 5)])"
  by code_simp+

lemma demo_service: "fst (resolveService demo_env (js ''db'') demo2) = Inr \<lparr>bs_adapter = demo_adapter, bs_timeoutMs = 5\<rparr>"
  using demo_tables(1,4,6)
  by (simp add: resolveService_def query_def next_outcome_def select_def bnd_def ret_def adapter_named_def timeout_of_def demo_adapter_def)
    (simp add: demo_env_def timeout_of_def ret_def)

lemma demo_load: "fst (load (be_loadPolicy demo_env) (id_policyBundleId demo_identity) demo4) =
    Inr \<lparr>lb_id = ''bundle'', lb_version = ''1'', lb_evaluator = demo_policy\<rparr>"
  using demo_tables(2,3,5)
  by (simp add: load_def query_def next_outcome_def select_def bnd_def ret_def gets_def of_result_def fromWasm_def modify_def Let_def
      demo_bundle_def demo_env_def Option.is_none_def)

lemma demo_audits:
  "case fst (persistBeforeExecution hasEvent insertBatch demo_started demo5) of Inr _ \<Rightarrow> True | Inl _ \<Rightarrow> False"
  "case fst (persistDurably demo_completed demo9) of Inr _ \<Rightarrow> True | Inl _ \<Rightarrow> False"
  by code_simp+

lemma demo_effects: "map ef_call (bw_effects demo10) = [FetchSecret demo_ref, ExecuteMethod (js ''query'') (Some ()) (JObj [])]"
  by code_simp
lemma demo_replies: "be_parse demo_env BrokerCallResponseSchema demo_reply = Some demo_reply" by code_simp
lemma demo_role: "resolveObligations [js ''role:reader''] = Inr (js ''reader'')" by code_simp

lemma stage: "fst p = Inr x \<Longrightarrow> p = (Inr x, snd p)" by (cases p) simp

lemma stage_some: "(case fst p of Inr _ \<Rightarrow> True | Inl _ \<Rightarrow> False) \<Longrightarrow> \<exists>x. p = (Inr x, snd p)"
  by (cases p) (auto split: sum.splits)

lemmas demo_stages =
  demo_stage_values(1) [THEN stage, folded demo1_def] demo_stage_values(2) [THEN stage, folded demo2_def]
  demo_service [THEN stage, folded demo3_def] demo_stage_values(3) [THEN stage, folded demo4_def]
  demo_load [THEN stage, folded demo5_def] demo_stage_values(4) [THEN stage, folded demo7_def]

lemma demo_await: "await demo_env m w = m w"
  by (simp add: await_def demo_env_def split: prod.splits)

lemma demo_external:
  "external demo_action (FetchSecret demo_ref) (\<lambda>n. be_fetch demo_env n demo_ref) demo7 = (Inr (), demo8)"
  "external demo_action (ExecuteMethod (js ''query'') (Some ()) (JObj [])) (\<lambda>n. bm_execute demo_method n (Some ()) (JObj []) 5) demo8
     = (Inr (Some JNull), demo9)"
  by (simp_all add: demo8_def demo9_def external_def demo_env_def demo_method_def)

lemma demo_perform: "perform demo_env demo_identity demo_request 1000 \<lparr>bs_adapter = demo_adapter, bs_timeoutMs = 5\<rparr> demo_method (JObj [])
    demo_action (js ''reader'') (\<lambda>t. demo_started\<lparr>ai_eventType := t\<rparr>) demo6 = (Inr demo_reply, demo10)"
proof -
  obtain e where e: "persistDurably demo_completed demo9 = (Inr e, demo10)"
    using stage_some [OF demo_audits(2)] by (auto simp: demo10_def)
  have len: "byteLength (be_stringify demo_env v) = 4" "be_sha256 demo_env x = ''h''" "be_jparse demo_env x = Inr JNull" for v x
    by (simp_all add: demo_env_def) code_simp
  show ?thesis
    using e demo_replies
    by (simp add: perform_def bnd_def demo_await demo_stages demo_external fetch_credentials_def ret_def of_result_def gets_def
        encode_result_def demo_clock len demo_completed_def demo_reply_def resultIsTruncated_def demo_request_def)
qed


lemma demo_started_type: "demo_started\<lparr>ai_eventType := ''action.started''\<rparr> = demo_started"
  by (simp add: demo_started_def auditInput_def)

lemma demo_input_eq: "auditInput demo_env demo_identity demo_action demo_request t Allow ''bundle'' (js ''ok'') [js ''role:reader'']
    (js ''http:get'') = demo_started\<lparr>ai_eventType := t\<rparr>"
  by (simp add: demo_started_def auditInput_def)

lemma demo_admitted: "admitted demo_env demo_identity demo_request 1000 demo2 = (Inr demo_reply, demo10)"
proof -
  obtain e where e: "persistBeforeExecution hasEvent insertBatch demo_started demo5 = (Inr e, demo6)"
    using stage_some [OF demo_audits(1)] by (auto simp: demo6_def)
  have rq: "rq_service demo_request = js ''db''" "rq_method demo_request = js ''query''" "rq_params demo_request = JObj []"
    by (simp_all add: demo_request_def)
  have m: "lookup_method demo_adapter (js ''query'') = Inr demo_method" "bm_params demo_method v = Some v"
    "bm_scopeRequired demo_method = Fixed (js ''http:get'')" "bm_sideEffecting demo_method = Fixed False" for v
    by (simp_all add: demo_adapter_def lookup_method_def demo_method_def)
  have ev: "evaluate (be_parse demo_env) demo_policy v = Inr demo_verdict" for v
    by (simp add: demo_env_def demo_policy_allows demo_verdict_def)
  show ?thesis
    using demo_perform e
    by (simp add: admitted_def bnd_def demo_await demo_stages rq m of_result_def gets_def ev demo_verdict_def demo_role
        decided_def Let_def demo_input_eq demo_started_type try_catch_def)
qed

lemma demo_handled: "handle demo_env demo_peer demo_broker_request demo_host = (Inr demo_reply, demo10\<lparr>bw_gate := release 0 (bw_gate demo10)\<rparr>)"
proof -
  have i: "id_sessionId demo_identity = sr_id demo_session" by (simp add: demo_identity_def)
  show ?thesis
    by (simp add: handle_def demo_parsed handleRequest_def bnd_def gets_def demo_await demo_stages demo_clock i
        try_finally_def demo_admitted release_lease_def modify_def)
qed

lemma demo_fresh: "fresh_call demo_host"
proof -
  have "audit_inv click_of (sink demo_world) (db demo_world)" by (rule audit_reachable_inv [OF demo_world_reachable])
  then have "audit_inv click_of (sink demo_world) (db demo_host)"
    by (rule audit_inv_view) (simp_all add: audit_view_def demo_host_def policy_world.defs world.defs broker_world.defs bound_world_def)
  then have "audit_inv click_of (sink demo_host) (db demo_host)"
    by (simp add: demo_host_def policy_world.defs world.defs broker_world.defs bound_world_def)
  moreover have "bw_gate demo_host = new_gate" "pw_loaded demo_host = Map.empty" "bw_lease demo_host = None" "bw_effects demo_host = []"
    by (simp_all add: demo_host_def policy_world.defs world.defs broker_world.defs)
  ultimately show ?thesis by (simp add: fresh_call_def host_ok_def gate_inv_new cache_ok_def)
qed


theorem broker_effects_audited_witness:
  "\<exists>e \<in> set (bw_effects (snd (handle demo_env demo_peer demo_broker_request demo_host))).
     ef_call e = ExecuteMethod (js ''query'') (Some ()) (JObj [])
     \<and> (\<exists>idn w1. resolve demo_peer demo_host = (Inr idn, w1) \<and> no_capture (id_sessionId idn) (ef_gate e)
        \<and> (\<exists>row \<in> set (ef_sink e). ck_session_id row = id_sessionId idn \<and> ck_event_type row = ''action.started''))"
proof -
  have "ExecuteMethod (js ''query'') (Some ()) (JObj []) \<in> ef_call ` set (bw_effects demo10)"
    using arg_cong [OF demo_effects, of set] by (simp only: set_map) simp
  then obtain e where e: "e \<in> set (bw_effects demo10)" "ef_call e = ExecuteMethod (js ''query'') (Some ()) (JObj [])" by auto
  from e(1) have "e \<in> set (bw_effects (demo10\<lparr>bw_gate := release 0 (bw_gate demo10)\<rparr>))" by simp
  from broker_effects_audited [OF demo_rely demo_fresh demo_handled this] show ?thesis
    using e by (intro bexI [of _ e]) (auto simp: demo_handled)
qed


theorem broker_lease_released_witness:
  "host_ok (snd (handle demo_env demo_peer demo_broker_request demo_host))
   \<and> released (leases (bw_gate (snd (handle demo_env demo_peer demo_broker_request demo_host))) ! 0)"
proof -
  have "bw_lease demo10 = Some 0" by code_simp
  with broker_lease_released [OF demo_rely demo_fresh demo_handled] show ?thesis by (simp add: demo_handled)
qed

theorem broker_reply_recorded_witness:
  "\<exists>idn w1 rq. resolve demo_peer demo_host = (Inr idn, w1) \<and> replied demo_env rq (id_sessionId idn) demo_reply
     (outbox_events (db (snd (handle demo_env demo_peer demo_broker_request demo_host))))"
  using broker_reply_recorded [OF demo_rely demo_fresh demo_handled] unfolding demo_handled snd_conv by blast

end
