(* ===== verification/Local_Tools.thy ===== *)
theory Local_Tools
  imports Framing Broker_Pipeline
begin

text \<open>
  \<^verbatim>\<open>apps/broker/src/local-tool-pipeline.ts\<close> and the connection handler of \<^verbatim>\<open>local-tool-server.ts\<close>: the guest runs a
  workspace tool itself, after the host has authorised it, and reports the outcome on the same connection.
  The state and the interference of other handlers are those of the broker pipeline; the socket is what
  it delivers (\<open>script\<close>) and what is sent on it.
\<close>

section \<open>Requests\<close>

datatype tool_op = FsRead | FsWrite | FsEdit | FsSearch | ProcExec | UserAsk

fun op_name :: "tool_op \<Rightarrow> string" where
  "op_name FsRead = ''fs.read''" | "op_name FsWrite = ''fs.write''" | "op_name FsEdit = ''fs.edit''"
| "op_name FsSearch = ''fs.search''" | "op_name ProcExec = ''proc.exec''" | "op_name UserAsk = ''user.ask''"

definition op_of :: "utf16 \<Rightarrow> tool_op option" where
  "op_of s = List.find (\<lambda>x. js (op_name x) = s) [FsRead, FsWrite, FsEdit, FsSearch, ProcExec, UserAsk]"

record tool_request =
  tq_id :: utf16
  tq_op :: tool_op
  tq_body :: json

definition tool_request_of :: "json \<Rightarrow> tool_request option" where
  "tool_request_of v = (case v of
     JObj [(_, JStr i), (_, JStr name), (_, body)] \<Rightarrow>
       (case op_of name of None \<Rightarrow> None | Some x \<Rightarrow> Some \<lparr>tq_id = i, tq_op = x, tq_body = body\<rparr>)
   | _ \<Rightarrow> None)"

definition argv_of :: "json \<Rightarrow> utf16 list" where
  "argv_of body = (case body of
     JObj kvs \<Rightarrow> (case map_of kvs (js ''argv'') of Some v \<Rightarrow> (case strings_of v of Some as \<Rightarrow> as | None \<Rightarrow> []) | None \<Rightarrow> [])
   | _ \<Rightarrow> [])"

fun scopeFor :: "tool_op \<Rightarrow> string" where
  "scopeFor FsRead = ''workspace.read''"
| "scopeFor FsSearch = ''workspace.read''"
| "scopeFor FsWrite = ''workspace.write''"
| "scopeFor FsEdit = ''workspace.write''"
| "scopeFor ProcExec = ''process.exec''"
| "scopeFor UserAsk = ''user.ask''"

definition EXECUTABLES :: "string list" where
  "EXECUTABLES = [''rg'', ''jq'', ''git'', ''node'', ''python3'', ''cat'', ''ls'', ''head'', ''tail'', ''wc'', ''sort'', ''uniq'', ''diff'']"

definition GIT_SUBCOMMANDS :: "string list" where
  "GIT_SUBCOMMANDS = [''fetch'', ''clone'', ''log'', ''diff'', ''status'']"

definition assertAllowedExec :: "utf16 list \<Rightarrow> js_error + unit" where
  "assertAllowedExec argv = (case argv of
     [] \<Rightarrow> Inl (Caisson BINARY_NOT_ALLOWED ''executable is not allowlisted'')
   | command # args \<Rightarrow>
       if command \<notin> set (map js EXECUTABLES) \<or> hd (js ''/'') \<in> set command
       then Inl (Caisson BINARY_NOT_ALLOWED ''executable is not allowlisted'')
       else if command = js ''git'' \<and> (args = [] \<or> hd args \<notin> set (map js GIT_SUBCOMMANDS))
       then Inl (Caisson BINARY_NOT_ALLOWED ''git subcommand is not allowlisted'')
       else Inr ())"

definition asCaissonError :: "js_error \<Rightarrow> js_error" where
  "asCaissonError e = (if is_caisson e then e else Caisson BINARY_NOT_ALLOWED ''executable is not allowlisted'')"

definition auditSafeErrorMessage :: "utf16 \<Rightarrow> utf16" where
  "auditSafeErrorMessage m = (if containsSecretShape (JStr m) then js ''guest reported a redacted failure'' else m)"

text \<open>\<^verbatim>\<open>previewFor\<close>: the loop stops before the character that would exceed the cap.\<close>

fun preview_loop :: "utf16 \<Rightarrow> utf16 list \<Rightarrow> nat \<Rightarrow> utf16" where
  "preview_loop preview [] maximumBytes = preview"
| "preview_loop preview (character # rest) maximumBytes =
     (if byteLength (preview @ character) > maximumBytes then preview
      else preview_loop (preview @ character) rest maximumBytes)"

definition previewFor :: "'c broker_env \<Rightarrow> json \<Rightarrow> nat \<Rightarrow> utf16 \<times> int" where
  "previewFor env result maximumBytes =
     (if containsSecretShape result then (js ''[redacted secret-shaped result]'', 1)
      else (preview_loop [] (chars (be_stringify env result)) maximumBytes, 0))"

definition auditEvent :: "'c broker_env \<Rightarrow> identity \<Rightarrow> string \<Rightarrow> tool_request \<Rightarrow> string \<Rightarrow> policy_verdict \<Rightarrow> string \<Rightarrow> utf16 \<Rightarrow> audit_input" where
  "auditEvent env idn actionId rq eventType decision bundle reason =
     \<lparr>ai_sessionId = id_sessionId idn, ai_actionId = actionId, ai_timestamp = None, ai_eventType = eventType,
      ai_actionType = ''local_tool'', ai_service = Some (js ''guest''), ai_method = Some (js (op_name (tq_op rq))),
      ai_decision = Some (verdict_name decision), ai_policyBundle = Some bundle, ai_policyReason = Some reason,
      ai_obligations = None, ai_scopeUsed = Some (js (scopeFor (tq_op rq))), ai_roleUsed = None,
      ai_paramsHash = Some (be_sha256 env (be_stringify env (tq_body rq))), ai_paramsPreview = Some [],
      ai_resultBytes = None, ai_resultHash = None, ai_redactionCount = Some 0, ai_durationMs = None, ai_approvalId = None,
      ai_approvalWaitMs = None, ai_skillLoaded = None, ai_agentIntent = None, ai_driver = id_driver idn,
      ai_hardwareIsolated = id_hardwareIsolated idn, ai_traceId = map_option fst (be_trace env),
      ai_spanId = map_option snd (be_trace env), ai_errorCode = None, ai_errorMessage = None,
      ai_networkDestination = None, ai_networkProtocol = None\<rparr>"

definition local_policy_input :: "'c broker_env \<Rightarrow> identity \<Rightarrow> tool_request \<Rightarrow> int \<Rightarrow> json" where
  "local_policy_input env idn rq t = (let str = (\<lambda>s. JStr (js s)) in
     JObj [(js ''session'', JObj [(js ''id'', str (id_sessionId idn)), (js ''roles'', JArr (map str (id_roles idn))),
         (js ''scopes'', JArr (map str (id_scopes idn))), (js ''approvalMode'', str (approval_name (id_approvalMode idn))),
         (js ''expiresAt'', JStr (be_iso env (id_expiresAt idn))), (js ''requestedBy'', str (id_requestedBy idn)),
         (js ''purpose'', (case id_purpose idn of None \<Rightarrow> JNull | Some p \<Rightarrow> str p))]),
       (js ''action'', JObj [(js ''service'', str ''guest''), (js ''method'', str (op_name (tq_op rq))),
         (js ''sideEffecting'', JBool (tq_op rq \<in> {FsWrite, FsEdit, ProcExec})),
         (js ''scopeRequired'', str (scopeFor (tq_op rq))), (js ''params'', tq_body rq)]),
       (js ''context'', JObj [(js ''now'', JStr (be_iso env t)), (js ''hardwareIsolated'', JBool (id_hardwareIsolated idn))])])"

section \<open>Authorisation\<close>

record tool_authorization =
  ta_id :: utf16
  ta_actionId :: string
  ta_identity :: identity
  ta_request :: tool_request
  ta_policyBundleId :: string
  ta_policyReason :: utf16
  ta_startedAt :: int
  ta_lease :: nat

definition local_audit :: "'c broker_env \<Rightarrow> audit_input \<Rightarrow> int \<Rightarrow> ('c broker_world, audit_event) proc" where
  "local_audit env i startedAt =
     bnd (gets now) (\<lambda>t. await env (persistDurably (i\<lparr>ai_durationMs := Some (t - startedAt)\<rparr>)))"

definition with_error :: "js_error \<Rightarrow> audit_input \<Rightarrow> audit_input" where
  "with_error e i = i\<lparr>ai_errorCode := Some (error_code_name (err_code e)), ai_errorMessage := Some (err_message e)\<rparr>"

definition check_exec :: "'c broker_env \<Rightarrow> identity \<Rightarrow> string \<Rightarrow> tool_request \<Rightarrow> string \<Rightarrow> int \<Rightarrow> ('c broker_world, unit) proc" where
  "check_exec env idn actionId rq bundle startedAt =
     (if tq_op rq = ProcExec
      then try_catch (of_result (assertAllowedExec (argv_of (tq_body rq))))
        (\<lambda>e. let c = asCaissonError e in
          seq (local_audit env (with_error c (auditEvent env idn actionId rq ''action.denied'' Deny bundle (err_message c))) startedAt)
            (throw c))
      else ret ())"

definition authorize_admitted :: "'c broker_env \<Rightarrow> identity \<Rightarrow> tool_request \<Rightarrow> int \<Rightarrow> string \<Rightarrow> nat
    \<Rightarrow> ('c broker_world, tool_authorization) proc" where
  "authorize_admitted env idn rq startedAt actionId lease =
     bnd (await env (load (be_loadPolicy env) (id_policyBundleId idn))) (\<lambda>bundle.
     seq (check_exec env idn actionId rq (lb_id bundle) startedAt)
     (bnd (gets now) (\<lambda>t.
      bnd (of_result (evaluate (be_parse env) (lb_evaluator bundle) (local_policy_input env idn rq t))) (\<lambda>decision.
      if pd_decision decision \<noteq> Allow
      then seq (local_audit env (auditEvent env idn actionId rq ''action.denied'' (pd_decision decision) (lb_id bundle)
                  (pd_reason decision)) startedAt)
        (throw (CaissonError (if pd_decision decision = RequireApproval then APPROVAL_REQUIRED else POLICY_DENIED)
           (pd_reason decision) [(''scopeRequired'', js (scopeFor (tq_op rq))), (''actionId'', js actionId)]))
      else seq (await env (persistBeforeExecution hasEvent insertBatch
                  (auditEvent env idn actionId rq ''action.started'' Allow (lb_id bundle) (pd_reason decision))))
        (ret \<lparr>ta_id = tq_id rq, ta_actionId = actionId, ta_identity = idn, ta_request = rq, ta_policyBundleId = lb_id bundle,
           ta_policyReason = pd_reason decision, ta_startedAt = startedAt, ta_lease = lease\<rparr>)))))"

definition authorize :: "'c broker_env \<Rightarrow> peer \<Rightarrow> tool_request \<Rightarrow> ('c broker_world, tool_authorization) proc" where
  "authorize env p rq =
     bnd (gets now) (\<lambda>startedAt.
     bnd (await env (resolve p)) (\<lambda>idn.
     bnd randomUUID (\<lambda>actionId.
     bnd (enter_gate (id_sessionId idn)) (\<lambda>lease. case lease of
       None \<Rightarrow>
         (let e = CaissonError SESSION_SUSPENDED (js ''session snapshot capture is active'') [(''actionId'', js actionId)] in
          seq (local_audit env (with_error e (auditEvent env idn actionId rq ''action.denied'' Deny (id_policyBundleId idn)
                 (err_message e))) startedAt)
            (throw e))
     | Some l \<Rightarrow> try_catch (authorize_admitted env idn rq startedAt actionId l)
         (\<lambda>e. seq (release_lease l) (throw e))))))"

definition authorized_body :: "tool_authorization \<Rightarrow> json" where
  "authorized_body a = JObj [(js ''id'', JStr (ta_id a)), (js ''ok'', JBool True),
     (js ''body'', JObj [(js ''actionId'', JStr (js (ta_actionId a))), (js ''authorized'', JBool True)])]"

definition parse_or_throw :: "'c broker_env \<Rightarrow> schema \<Rightarrow> json \<Rightarrow> js_error + json" where
  "parse_or_throw env s v = (case be_parse env s v of None \<Rightarrow> Inl ForeignError | Some u \<Rightarrow> Inr u)"

definition authorized :: "'c broker_env \<Rightarrow> tool_authorization \<Rightarrow> js_error + json" where
  "authorized env a = parse_or_throw env LocalAuthorizedResponseSchema (authorized_body a)"

section \<open>Completion\<close>

datatype completion_outcome = Succeeded json | FailedWith "(utf16 \<times> json) list"

record tool_completion =
  tc_id :: utf16
  tc_actionId :: utf16
  tc_outcome :: completion_outcome

definition completion_of :: "json \<Rightarrow> tool_completion option" where
  "completion_of v = (case v of
     JObj [(_, JStr i), _, (_, JObj [(_, JStr a), (_, JStr oc), (_, x)])] \<Rightarrow>
       (if oc = js ''success'' then Some \<lparr>tc_id = i, tc_actionId = a, tc_outcome = Succeeded x\<rparr>
        else case x of JObj kvs \<Rightarrow> Some \<lparr>tc_id = i, tc_actionId = a, tc_outcome = FailedWith kvs\<rparr> | _ \<Rightarrow> None)
   | _ \<Rightarrow> None)"

definition string_field :: "(utf16 \<times> json) list \<Rightarrow> string \<Rightarrow> utf16" where
  "string_field kvs k = (case map_of kvs (js k) of Some (JStr s) \<Rightarrow> s | _ \<Rightarrow> [])"

definition code_text :: "utf16 \<Rightarrow> string" where
  "code_text s = (case List.find (\<lambda>c. js (error_code_name c) = s) all_error_codes of Some c \<Rightarrow> error_code_name c | None \<Rightarrow> [])"

definition local_event :: "'c broker_env \<Rightarrow> tool_authorization \<Rightarrow> string \<Rightarrow> audit_input" where
  "local_event env a eventType =
     auditEvent env (ta_identity a) (ta_actionId a) (ta_request a) eventType Allow (ta_policyBundleId a) (ta_policyReason a)"

definition local_error_body :: "utf16 \<Rightarrow> error_code \<Rightarrow> utf16 \<Rightarrow> utf16 option \<Rightarrow> json" where
  "local_error_body i code message actionId =
     JObj [(js ''id'', JStr i), (js ''ok'', JBool False),
       (js ''error'', JObj ([(js ''code'', JStr (js (error_code_name code))), (js ''message'', JStr message), (js ''details'', JObj [])]
          @ (case actionId of None \<Rightarrow> [] | Some a \<Rightarrow> [(js ''actionId'', JStr a)])))]"

definition invalidCompletion :: "'c broker_env \<Rightarrow> tool_authorization \<Rightarrow> string \<Rightarrow> ('c broker_world, json) proc" where
  "invalidCompletion env a reason = try_finally
     (seq (local_audit env ((local_event env a ''action.invalid_completion'')\<lparr>ai_errorCode := Some ''PARAMS_INVALID'',
             ai_errorMessage := Some (js reason)\<rparr>) (ta_startedAt a))
       (of_result (parse_or_throw env LocalToolResponseSchema
          (local_error_body (ta_id a) PARAMS_INVALID (js ''invalid local tool completion'') (Some (js (ta_actionId a)))))))
     (release_lease (ta_lease a))"

definition abandon :: "'c broker_env \<Rightarrow> tool_authorization \<Rightarrow> string \<Rightarrow> ('c broker_world, unit) proc" where
  "abandon env a reason = try_finally
     (seq (local_audit env ((local_event env a ''action.abandoned'')\<lparr>ai_errorCode := Some ''SANDBOX_FAILED'',
             ai_errorMessage := Some (js reason)\<rparr>) (ta_startedAt a))
       (ret ()))
     (release_lease (ta_lease a))"

definition complete_failure :: "'c broker_env \<Rightarrow> tool_authorization \<Rightarrow> (utf16 \<times> json) list \<Rightarrow> ('c broker_world, json) proc" where
  "complete_failure env a err =
     seq (local_audit env ((local_event env a ''action.failed'')\<lparr>ai_errorCode := Some (code_text (string_field err ''code'')),
            ai_errorMessage := Some (auditSafeErrorMessage (string_field err ''message''))\<rparr>) (ta_startedAt a))
       (of_result (parse_or_throw env LocalToolResponseSchema (JObj [(js ''id'', JStr (ta_id a)), (js ''ok'', JBool False),
          (js ''error'', JObj (err @ [(js ''actionId'', JStr (js (ta_actionId a)))]))])))"

record tool_limits =
  tl_resultMaxBytes :: nat
  tl_previewMaxBytes :: nat

definition bounded_result :: "'c broker_env \<Rightarrow> tool_limits \<Rightarrow> json \<Rightarrow> bool \<times> json" where
  "bounded_result env lims result =
     (if byteLength (be_stringify env result) > tl_resultMaxBytes lims
      then (True, JObj [(js ''truncated'', JBool True), (js ''preview'', JStr (fst (previewFor env result (tl_resultMaxBytes lims))))])
      else (False, result))"

definition complete_success :: "'c broker_env \<Rightarrow> tool_limits \<Rightarrow> tool_authorization \<Rightarrow> json \<Rightarrow> ('c broker_world, json) proc" where
  "complete_success env lims a result =
     (let encoded = be_stringify env result;
          auditPreview = previewFor env result (tl_previewMaxBytes lims);
          (truncated, responseResult) = bounded_result env lims result
      in seq (local_audit env ((local_event env a ''action.completed'')\<lparr>ai_resultBytes := Some (int (byteLength encoded)),
                ai_resultHash := Some (be_sha256 env encoded), ai_paramsPreview := Some (fst auditPreview),
                ai_redactionCount := Some (snd auditPreview)\<rparr>) (ta_startedAt a))
         (bnd (gets now) (\<lambda>t. of_result (parse_or_throw env LocalToolResponseSchema
            (JObj [(js ''id'', JStr (ta_id a)), (js ''ok'', JBool True), (js ''body'', JObj [(js ''result'', responseResult),
              (js ''meta'', JObj ([(js ''actionId'', JStr (js (ta_actionId a))), (js ''durationMs'', JNum (of_int (t - ta_startedAt a)))]
                 @ (if truncated then [(js ''truncated'', JBool True)] else [])))])])))))"

text \<open>\<^verbatim>\<open>complete\<close>. A mismatched completion returns the promise of \<^verbatim>\<open>invalidCompletion\<close> without awaiting it, so the
  \<^verbatim>\<open>finally\<close> block releases the lease before the record is written.\<close>

definition complete :: "'c broker_env \<Rightarrow> tool_limits \<Rightarrow> tool_authorization \<Rightarrow> tool_completion \<Rightarrow> ('c broker_world, json) proc" where
  "complete env lims a c =
     (if tc_id c \<noteq> ta_id a \<or> tc_actionId c \<noteq> js (ta_actionId a)
      then seq (release_lease (ta_lease a)) (invalidCompletion env a ''completion id does not match authorization'')
      else try_finally
        (case tc_outcome c of
           FailedWith err \<Rightarrow> complete_failure env a err
         | Succeeded result \<Rightarrow> complete_success env lims a result)
        (release_lease (ta_lease a)))"

section \<open>The connection (LocalToolServer)\<close>

record socket_script =
  sk_first :: "frame_error + byte list"
  sk_firstWritable :: bool
  sk_second :: "frame_error + byte list"
  sk_secondWritable :: bool

datatype socket_out = Wrote json | EndedWith json | Destroyed

definition parseJson :: "'c broker_env \<Rightarrow> byte list \<Rightarrow> frame_error + json" where
  "parseJson env frame = (case be_jparse env (utf8_decode frame) of
     Inl _ \<Rightarrow> Inl (FrameError FMalformed False) | Inr v \<Rightarrow> Inr v)"

text \<open>Reading and parsing a frame ends in a frame error, some other error, or a value.\<close>

datatype 'a frame_read = BadFrame frame_error | BadValue | Read 'a

definition read_frame :: "'c broker_env \<Rightarrow> schema \<Rightarrow> (json \<Rightarrow> 'a option) \<Rightarrow> frame_error + byte list \<Rightarrow> 'a frame_read" where
  "read_frame env s decode frame = (case frame of
     Inl e \<Rightarrow> BadFrame e
   | Inr bytes \<Rightarrow> (case parseJson env bytes of
       Inl e \<Rightarrow> BadFrame e
     | Inr v \<Rightarrow> (case Option.bind (be_parse env s v) decode of None \<Rightarrow> BadValue | Some x \<Rightarrow> Read x)))"

definition localError :: "'c broker_env \<Rightarrow> utf16 \<Rightarrow> js_error \<Rightarrow> js_error + json" where
  "localError env i e = (let c = (if is_caisson e then e else Caisson INTERNAL ''local tool failed'') in
     parse_or_throw env LocalToolResponseSchema
       (local_error_body i (err_code c) (err_message c) (map_of (err_details c) ''actionId'')))"

definition end_socket :: "'c broker_env \<Rightarrow> bool \<Rightarrow> json \<Rightarrow> ('c broker_world, socket_out) proc" where
  "end_socket env writable payload =
     (if \<not> writable then ret Destroyed
      else bnd (of_result (encodeBrokerFrame (be_stringify env payload))) (\<lambda>_. ret (EndedWith payload)))"

fun silent :: "'a frame_read \<Rightarrow> bool" where
  "silent (BadFrame (FrameError _ s)) = s"
| "silent _ = False"

definition failInitial :: "'c broker_env \<Rightarrow> socket_script \<Rightarrow> tool_request frame_read \<Rightarrow> ('c broker_world, socket_out list) proc" where
  "failInitial env script r =
     (if silent r then ret [Destroyed]
      else bnd (of_result (localError env (js ''unknown'') (Caisson PARAMS_INVALID ''invalid local tool request'')))
        (\<lambda>reply. bnd (end_socket env (sk_firstWritable script) reply) (\<lambda>x. ret [x])))"

text \<open>The second phase, after the authorisation was written. An error of \<^verbatim>\<open>complete\<close>, or of sending its reply, lands in
  the same handler as a malformed completion.\<close>

definition completion_failed :: "'c broker_env \<Rightarrow> socket_script \<Rightarrow> tool_authorization \<Rightarrow> bool \<Rightarrow> ('c broker_world, socket_out) proc" where
  "completion_failed env script a hush =
     bnd (invalidCompletion env a ''malformed local tool completion'') (\<lambda>response.
       if hush then ret Destroyed else end_socket env (sk_secondWritable script) response)"

definition await_completion :: "'c broker_env \<Rightarrow> tool_limits \<Rightarrow> socket_script \<Rightarrow> tool_authorization \<Rightarrow> ('c broker_world, socket_out) proc" where
  "await_completion env lims script a = seq (await env (ret ())) (case read_frame env LocalCompletionRequestSchema completion_of (sk_second script) of
     Read c \<Rightarrow> try_catch
       (bnd (complete env lims a c) (end_socket env (sk_secondWritable script)))
       (\<lambda>_. completion_failed env script a False)
   | BadValue \<Rightarrow> completion_failed env script a False
   | BadFrame (FrameError FTimeout _) \<Rightarrow> seq (abandon env a ''local tool completion timed out'') (ret Destroyed)
   | BadFrame (FrameError FClosed _) \<Rightarrow> seq (abandon env a ''guest disconnected before local tool completion'') (ret Destroyed)
   | BadFrame (FrameError FMalformed s) \<Rightarrow> completion_failed env script a s)"

definition serve_authorized :: "'c broker_env \<Rightarrow> tool_limits \<Rightarrow> socket_script \<Rightarrow> tool_authorization \<Rightarrow> ('c broker_world, socket_out list) proc" where
  "serve_authorized env lims script a =
     bnd (of_result (authorized env a)) (\<lambda>frame.
     if \<not> sk_firstWritable script
     then seq (abandon env a ''guest disconnected after authorization'') (ret [])
     else bnd (of_result (encodeBrokerFrame (be_stringify env frame))) (\<lambda>_.
       bnd (await_completion env lims script a) (\<lambda>x. ret [Wrote frame, x])))"

definition handle_connection :: "'c broker_env \<Rightarrow> tool_limits \<Rightarrow> peer \<Rightarrow> socket_script \<Rightarrow> ('c broker_world, socket_out list) proc" where
  "handle_connection env lims p script = (case read_frame env LocalToolRequestSchema tool_request_of (sk_first script) of
     Read rq \<Rightarrow>
       (\<lambda>w. case authorize env p rq w of
          (Inl e, w1) \<Rightarrow> bnd (of_result (localError env (tq_id rq) e))
            (\<lambda>reply. bnd (end_socket env (sk_firstWritable script) reply) (\<lambda>x. ret [x])) w1
        | (Inr a, w1) \<Rightarrow> serve_authorized env lims script a w1)
   | r \<Rightarrow> failInitial env script r)"

section \<open>Previews\<close>

lemma preview_loop_truncate: "preview_loop p cs m = truncate_loop p cs m"
  by (induction p cs m rule: preview_loop.induct) auto

lemma truncate_loop_whole:
  assumes "byteLength s \<le> m"
  shows "truncate_loop [] (chars s) m = s"
proof -
  have "byteLength (concat []) \<le> m" by (simp add: byteLength_def utf8_encode_def)
  from truncate_loop_spec [of s "[]" "chars s", OF _ this]
  obtain zs ws where z: "chars s = zs @ ws" "truncate_loop [] (chars s) m = concat zs"
    "\<forall>c cs. ws = c # cs \<longrightarrow> m < byteLength (concat (zs @ [c]))" by auto
  have "ws = []"
  proof (cases ws)
    case (Cons c cs)
    then have "byteLength (concat (zs @ [c])) \<le> byteLength (concat ((zs @ [c]) @ cs))"
      using z(1) by (intro byteLength_mono [of s _ _ "[]"]) simp
    moreover have "concat ((zs @ [c]) @ cs) = s" using z(1) Cons by (metis append.assoc append_Cons append_Nil concat_chars)
    ultimately show ?thesis using z(3) Cons assms by fastforce
  qed
  with z show ?thesis by (metis append_Nil2 concat_chars)
qed

lemma preview_loop_eq: "preview_loop [] (chars s) m = truncateUtf8 s m"
  by (simp add: preview_loop_truncate truncateUtf8_def truncate_loop_whole)

text \<open>What the guest reports never leaves unbounded or with a secret shape: a preview is the fixed redaction notice for a
  secret-shaped result, and otherwise the same longest prefix within the cap that the audit outbox keeps; the result
  sent back is the reported one if it fits the cap, and else an object with such a preview.\<close>

theorem preview_bounded:
  "previewFor env v m = (if containsSecretShape v then (js ''[redacted secret-shaped result]'', 1)
       else (truncateUtf8 (be_stringify env v) m, 0))
   \<and> byteLength (fst (previewFor env v m)) \<le> max m 31
   \<and> bounded_result env lims v = (if byteLength (be_stringify env v) \<le> tl_resultMaxBytes lims then (False, v)
       else (True, JObj [(js ''truncated'', JBool True), (js ''preview'', JStr (fst (previewFor env v (tl_resultMaxBytes lims))))]))"
proof -
  have n: "byteLength (js ''[redacted secret-shaped result]'') = 31" by code_simp
  have "previewFor env v m = (if containsSecretShape v then (js ''[redacted secret-shaped result]'', 1)
       else (truncateUtf8 (be_stringify env v) m, 0))"
    by (simp add: previewFor_def preview_loop_eq)
  then show ?thesis
    using n truncateUtf8_byteLength [of "be_stringify env v" m]
    by (auto simp: bounded_result_def not_le intro: order_trans)
qed

section \<open>Authorisation\<close>

lemma audit_event_fields [simp]:
  "ai_sessionId (auditEvent env idn a rq ev v b r) = id_sessionId idn" "ai_actionId (auditEvent env idn a rq ev v b r) = a"
  "ai_eventType (auditEvent env idn a rq ev v b r) = ev" "ai_decision (auditEvent env idn a rq ev v b r) = Some (verdict_name v)"
  by (simp_all add: auditEvent_def)

lemma triple_local_audit:
  assumes "rely env"
  shows "triple (ctx P lo sid S Ev) (local_audit env i t0) (\<lambda>e w. ctx P lo sid S (insert e Ev) w \<and> describes e i) (\<lambda>_. ctx P lo sid S Ev)"
proof -
  have d: "describes e (i\<lparr>ai_durationMs := x\<rparr>) = describes e i" for e x by (simp add: describes_def)
  show ?thesis
    unfolding local_audit_def
    apply (rule triple_bnd, rule triple_gets)
    apply (rule triple_await [OF assms, where S = "\<lambda>_. S" and Ev = "\<lambda>e. insert e Ev"])
    using triple_durably [of P lo sid S Ev "i\<lparr>ai_durationMs := Some (_ - t0)\<rparr>"] by (simp add: d)
qed

lemma triple_audit_throw:
  assumes "rely env"
  shows "triple (ctx P lo sid S Ev) (seq (local_audit env i t0) (throw e)) (\<lambda>_ _. False) (\<lambda>_. ctx P lo sid S Ev)"
  apply (rule triple_bnd, rule triple_local_audit [OF assms])
  by (rule triple_throw) (simp add: ctx_def)

lemma triple_check_exec:
  assumes "rely env"
  shows "triple (ctx P lo sid S Ev) (check_exec env idn a rq b t0)
     (\<lambda>_ w. ctx P lo sid S Ev w \<and> (tq_op rq = ProcExec \<longrightarrow> assertAllowedExec (argv_of (tq_body rq)) = Inr ())) (\<lambda>_. ctx P lo sid S Ev)"
proof (cases "tq_op rq = ProcExec")
  case True
  show ?thesis
    unfolding check_exec_def if_P [OF True] Let_def
    apply (rule triple_try_catch)
     apply (rule triple_conseq [OF triple_of_result], assumption, simp add: True, assumption)
    apply (rule triple_conseq [OF triple_audit_throw [OF assms]])
    by auto
qed (simp add: check_exec_def triple_ret)

text \<open>What an authorisation rests on.\<close>

definition authorisation_ok :: "'c broker_env \<Rightarrow> identity \<Rightarrow> tool_request \<Rightarrow> nat \<Rightarrow> string \<Rightarrow> tool_authorization \<Rightarrow> bool" where
  "authorisation_ok env idn rq l actionId a \<longleftrightarrow> ta_identity a = idn \<and> ta_request a = rq \<and> ta_id a = tq_id rq \<and> ta_lease a = l
     \<and> ta_actionId a = actionId
     \<and> (tq_op rq = ProcExec \<longrightarrow> assertAllowedExec (argv_of (tq_body rq)) = Inr ())
     \<and> (\<exists>(bundle :: loaded_bundle) t decision. lb_id bundle = id_policyBundleId idn
          \<and> evaluate (be_parse env) (lb_evaluator bundle) (local_policy_input env idn rq t) = Inr decision
          \<and> pd_decision decision = Allow)"

lemma triple_authorize_admitted:
  assumes rely: "rely env"
  shows "triple (ctx P (Some l) (id_sessionId idn) {} {}) (authorize_admitted env idn rq t0 a l)
     (\<lambda>x w. authorisation_ok env idn rq l a x \<and> (\<exists>S. started_row (id_sessionId idn) a S \<and> ctx P (Some l) (id_sessionId idn) S {} w))
     (\<lambda>_. ctx P (Some l) (id_sessionId idn) {} {})"
  unfolding authorize_admitted_def
  apply (rule triple_bnd)
   apply (rule triple_await [OF rely, where S = "\<lambda>_. {}" and Ev = "\<lambda>_. {}"], rule triple_load)
  apply (rule triple_fact)
  apply (rule triple_bnd, rule triple_check_exec [OF rely], rule triple_fact)
  apply (rule triple_bnd, rule triple_gets)
  apply (rule triple_bnd, rule triple_of_result, rule triple_fact)
  subgoal for b u t decision
    apply (cases "pd_decision decision = Allow")
     apply (simp only: not_True_eq_False simp_thms if_False)
     apply (rule triple_bnd)
      apply (rule triple_await [OF rely, where S = "\<lambda>e. {click_of e}" and Ev = "\<lambda>e. {e}"], rule triple_before)
     apply (rule triple_fact, rule triple_ret)
    subgoal for e s
      apply (rule conjI)
       apply (fastforce simp: authorisation_ok_def)
      apply (rule exI [of _ "{click_of e}"])
      by (auto simp: ctx_def describes_def started_row_def click_of_def Let_def orElse_def)
    apply (simp only: not_False_eq_True if_True)
    by (rule triple_conseq [OF triple_audit_throw [OF rely]]) auto
  done

lemma authorize_cases:
  fixes env :: "'c broker_env"
  assumes rely: "rely env" and w: "fresh_call w" and run: "authorize env p rq w = (r, w')"
  obtains (refused) e where "r = Inl e" "settled (\<lambda>_. True) {} w'"
  | (granted) idn w1 w2 a x S where "r = Inr x" "resolve p w = (Inr idn, w1)" "fst (randomUUID (w2 :: 'c broker_world)) = Inr a"
      "authorisation_ok env idn rq (ta_lease x) a x"
      "started_row (id_sessionId idn) a S" "ctx (\<lambda>_. True) (Some (ta_lease x)) (id_sessionId idn) S {} w'"
proof -
  obtain ri wi where i: "await env (resolve p) w = (ri, wi)" by fastforce
  have c0: "ctx (\<lambda>_. True) None s {} {} w" for s using w by (auto simp: fresh_call_def ctx_def held_def)
  have ci: "ctx (\<lambda>_. True) None s {} {} wi" for s
    using triple_run [OF triple_await_benign [OF rely benign_resolve] c0 i, of s] by (cases ri) auto
  show thesis
  proof (cases ri)
    case (Inl e)
    then have "r = Inl e" "w' = wi" using run i by (auto simp: authorize_def bnd_def gets_def)
    then show thesis using refused ctx_None_settled [OF ci] by blast
  next
    case (Inr idn)
    then obtain w1 where r1: "resolve p w = (Inr idn, w1)" using i by (auto simp: await_def split: prod.splits)
    obtain a wr where u: "randomUUID wi = (Inr a, wr)" by (auto simp: randomUUID_def randomBytes_def)
    have cr: "ctx (\<lambda>_. True) None s {} {} wr" for s by (rule ctx_benign [OF benign_random ci u])
    obtain re we where e: "enter_gate (id_sessionId idn) wr = (re, we)" by fastforce
    from enter_ctx [OF cr e] obtain lo where lo: "re = Inr lo" "ctx (\<lambda>_. True) lo (id_sessionId idn) {} {} we" by blast
    show thesis
    proof (cases lo)
      case None
      let ?e = "CaissonError SESSION_SUSPENDED (js ''session snapshot capture is active'') [(''actionId'', js a)]"
      have "seq (local_audit env (with_error ?e (auditEvent env idn a rq ''action.denied'' Deny (id_policyBundleId idn) (err_message ?e))) (now w))
          (throw ?e) we = (r, w')"
        using run i Inr u e lo(1) None by (auto simp: authorize_def bnd_def gets_def Let_def)
      from triple_run [OF triple_audit_throw [OF rely] lo(2) this] None have "\<exists>e. r = Inl e \<and> ctx (\<lambda>_. True) None (id_sessionId idn) {} {} w'"
        by (cases r) auto
      then show thesis using refused ctx_None_settled by blast
    next
      case (Some l)
      have b: "try_catch (authorize_admitted env idn rq (now w) a l) (\<lambda>e. seq (release_lease l) (throw e)) we = (r, w')"
        using run i Inr u e lo(1) Some by (auto simp: authorize_def bnd_def gets_def)
      obtain rb wb where aa: "authorize_admitted env idn rq (now w) a l we = (rb, wb)" by fastforce
      note t = triple_run [OF triple_authorize_admitted [OF rely] lo(2) [unfolded Some] aa]
      show thesis
      proof (cases rb)
        case (Inl e)
        with t have "ctx (\<lambda>_. True) (Some l) (id_sessionId idn) {} {} wb" by simp
        from release_settles [OF this] have "r = Inl e" "settled (\<lambda>_. True) {} w'"
          using b aa Inl by (auto simp: try_catch_def bnd_def throw_def)
        then show thesis by (rule refused)
      next
        case (Inr x)
        then have r: "r = Inr x" "w' = wb" using b aa by (auto simp: try_catch_def)
        from t Inr obtain S where "authorisation_ok env idn rq l a x" "started_row (id_sessionId idn) a S"
          "ctx (\<lambda>_. True) (Some l) (id_sessionId idn) S {} wb" by auto
        moreover from this have "ta_lease x = l" by (simp add: authorisation_ok_def)
        ultimately show thesis using granted [OF r(1) r1, of wi a S] r(2) u by simp
      qed
    qed
  qed
qed

section \<open>Completion\<close>

text \<open>The lease \<open>l\<close> was taken; \<open>R\<close> tells that it has been released.\<close>

definition winding :: "nat \<Rightarrow> bool \<Rightarrow> audit_event set \<Rightarrow> 'c broker_world \<Rightarrow> bool" where
  "winding l R Ev w \<longleftrightarrow> host_ok w \<and> bw_lease w = Some l \<and> l < length (leases (bw_gate w))
     \<and> (R \<longrightarrow> released (leases (bw_gate w) ! l)) \<and> Ev \<subseteq> outbox_events (db w)"

lemma ctx_winding: "ctx P (Some l) sid S Ev w \<Longrightarrow> winding l False Ev w"
  by (simp add: ctx_def winding_def held_def)

lemma winding_settled: "winding l True Ev w \<Longrightarrow> settled (\<lambda>_. True) Ev w"
  by (simp add: winding_def settled_def)

lemma winding_others:
  assumes "rely env" and "winding l R Ev w"
  shows "winding l R Ev (be_others env n w)"
proof -
  have h: "host_ok (be_others env n w)" "outbox_events (db w) \<subseteq> outbox_events (db (be_others env n w))"
    "bw_lease (be_others env n w) = bw_lease w"
    using assms by (auto simp: rely_def Let_def winding_def host_ok_def)
  have "\<forall>l. bw_lease w = Some l \<and> l < length (leases (bw_gate w)) \<longrightarrow>
          l < length (leases (bw_gate (be_others env n w))) \<and> leases (bw_gate (be_others env n w)) ! l = leases (bw_gate w) ! l"
    using assms(1) unfolding rely_def Let_def by blast
  with h assms(2) show ?thesis by (auto simp: winding_def)
qed

lemma winding_benign:
  assumes "benign m" and "winding l R Ev w" and "m w = (r, w')"
  shows "winding l R Ev w'"
proof -
  from assms(1,3) have m: "world.more w' = world.more w"
    and s: "outbox_events (db w) \<subseteq> outbox_events (db w')" "audit_inv click_of (sink w) (db w) \<longrightarrow> audit_inv click_of (sink w') (db w')"
    unfolding benign_def by blast+
  with assms(2) bw_more [OF m] show ?thesis by (auto simp: winding_def host_ok_def cache_ok_def)
qed

lemma triple_wind_audit:
  assumes "rely env"
  shows "triple (winding l R Ev) (local_audit env i t0) (\<lambda>e w. winding l R (insert e Ev) w \<and> describes e i) (\<lambda>_. winding l R Ev)"
proof (rule tripleI)
  fix s e s' assume w: "winding l R Ev s" and run: "local_audit env i t0 s = (Inr e, s')"
  let ?i = "i\<lparr>ai_durationMs := Some (now s - t0)\<rparr>"
  from run obtain w1 where q: "enqueue ?i s = (Inr e, w1)" "s' = be_others env (calls w1) w1"
    by (auto simp: local_audit_def bnd_def gets_def await_def persistDurably_def split: prod.splits)
  from enqueue_describes [OF q(1)] winding_benign [OF benign_enqueue w q(1)]
  have "describes e i" "winding l R (insert e Ev) w1" by (auto simp: describes_def winding_def)
  then show "winding l R (insert e Ev) s' \<and> describes e i" using winding_others [OF assms] q(2) by blast
next
  fix s e s' assume w: "winding l R Ev s" and run: "local_audit env i t0 s = (Inl e, s')"
  let ?i = "i\<lparr>ai_durationMs := Some (now s - t0)\<rparr>"
  from run obtain w1 where q: "enqueue ?i s = (Inl e, w1)" "s' = be_others env (calls w1) w1"
    by (auto simp: local_audit_def bnd_def gets_def await_def persistDurably_def split: prod.splits)
  from winding_benign [OF benign_enqueue w q(1)] show "winding l R Ev s'" using winding_others [OF assms] q(2) by blast
qed

lemma winding_mono: "winding l R Ev w \<Longrightarrow> Ev' \<subseteq> Ev \<Longrightarrow> winding l R Ev' w"
  by (auto simp: winding_def)

lemma release_released: "l < length (leases g) \<Longrightarrow> j < length (leases g) \<Longrightarrow> released (leases g ! j) \<Longrightarrow> released (leases (release l g) ! j)"
  by (auto simp: release_def Let_def deleteIfIdle_def notify_drained_def upd_obj_def nth_list_update)

lemma release_wound:
  assumes "winding l R Ev w"
  shows "\<exists>w'. release_lease l w = (Inr (), w') \<and> winding l True Ev w'"
proof -
  from assms have g: "gate_inv (bw_gate w)" "l < length (leases (bw_gate w))" by (auto simp: winding_def host_ok_def)
  have "gate_inv (release l (bw_gate w))" by (rule gate_step_inv [OF step_release [OF g(2)] g(1)])
  with assms release_marks [OF g(2)] show ?thesis
    by (auto simp: winding_def host_ok_def release_lease_def modify_def cache_ok_def)
qed

lemma triple_release: "triple (winding l R Ev) (release_lease l) (\<lambda>_. winding l True Ev) (\<lambda>_ _. False)"
  using release_wound unfolding triple_def by fastforce

text \<open>The record that closes an authorised action.\<close>

definition closes :: "tool_authorization \<Rightarrow> audit_event \<Rightarrow> bool" where
  "closes a e \<longleftrightarrow> ae_session_id e = id_sessionId (ta_identity a) \<and> ap_actionId (ae_payload e) = ta_actionId a
     \<and> ap_eventType (ae_payload e) \<in> {''action.completed'', ''action.failed'', ''action.abandoned'', ''action.invalid_completion''}"

definition closed :: "tool_authorization \<Rightarrow> bool \<Rightarrow> 'c broker_world \<Rightarrow> bool" where
  "closed a R w \<longleftrightarrow> (\<exists>e. closes a e \<and> winding (ta_lease a) R {e} w)"

lemma describes_closes:
  assumes "describes e i" "ai_sessionId i = id_sessionId (ta_identity a)" "ai_actionId i = ta_actionId a"
    "ai_eventType i \<in> {''action.completed'', ''action.failed'', ''action.abandoned'', ''action.invalid_completion''}"
  shows "closes a e"
  using assms by (simp add: describes_def closes_def)

lemma triple_close:
  assumes "rely env" "ai_sessionId i = id_sessionId (ta_identity a)" "ai_actionId i = ta_actionId a"
    "ai_eventType i \<in> {''action.completed'', ''action.failed'', ''action.abandoned'', ''action.invalid_completion''}"
  shows "triple (winding (ta_lease a) R {}) (local_audit env i t0) (\<lambda>_. closed a R) (\<lambda>_. winding (ta_lease a) R {})"
  by (rule triple_conseq [OF triple_wind_audit [OF assms(1)]])
    (use assms(2-4) in \<open>auto simp: closed_def dest: describes_closes\<close>)

lemma closed_winding: "closed a R w \<Longrightarrow> winding (ta_lease a) R {} w"
  by (auto simp: closed_def winding_def)

lemma triple_release_closed: "triple (closed a R) (release_lease (ta_lease a)) (\<lambda>_. closed a True) (\<lambda>_ _. False)"
  unfolding triple_def
proof (intro allI impI)
  fix s :: "'a broker_world" assume "closed a R s"
  then obtain e where "closes a e" "winding (ta_lease a) R {e} s" by (auto simp: closed_def)
  with release_wound [of "ta_lease a" R "{e}" s]
  show "case release_lease (ta_lease a) s of (Inr x, s') \<Rightarrow> closed a True s' | (Inl e, s') \<Rightarrow> False"
    unfolding closed_def by fastforce
qed

lemma local_event_fields [simp]:
  "ai_sessionId (local_event env a t) = id_sessionId (ta_identity a)" "ai_actionId (local_event env a t) = ta_actionId a"
  "ai_eventType (local_event env a t) = t"
  by (simp_all add: local_event_def)

text \<open>Recording the end and then replying.\<close>

lemma triple_close_then:
  assumes "rely env" and "triple (closed a R) m (\<lambda>_. closed a R) (\<lambda>_. winding (ta_lease a) R {})"
    and "ai_sessionId i = id_sessionId (ta_identity a)" "ai_actionId i = ta_actionId a"
    "ai_eventType i \<in> {''action.completed'', ''action.failed'', ''action.abandoned'', ''action.invalid_completion''}"
  shows "triple (winding (ta_lease a) R {}) (try_finally (seq (local_audit env i t0) m) (release_lease (ta_lease a)))
     (\<lambda>_. closed a True) (\<lambda>_. winding (ta_lease a) True {})"
  apply (rule triple_try_finally [where Q = "\<lambda>_. closed a R" and E = "\<lambda>_. winding (ta_lease a) R {}"])
    apply (rule triple_bnd, rule triple_close [OF assms(1,3-5)], rule assms(2))
   apply (rule triple_release_closed)
  by (rule triple_release)

lemma triple_reply: "triple (closed a R) (of_result q) (\<lambda>_. closed a R) (\<lambda>_. winding (ta_lease a) R {})"
  by (auto simp: triple_def of_result_def split: sum.splits intro: closed_winding)

lemma triple_invalid:
  assumes "rely env"
  shows "triple (winding (ta_lease a) R {}) (invalidCompletion env a reason) (\<lambda>_. closed a True) (\<lambda>_. winding (ta_lease a) True {})"
  unfolding invalidCompletion_def by (rule triple_close_then [OF assms triple_reply]) simp_all

lemma triple_abandon:
  assumes "rely env"
  shows "triple (winding (ta_lease a) R {}) (abandon env a reason) (\<lambda>_. closed a True) (\<lambda>_. winding (ta_lease a) True {})"
  unfolding abandon_def
  by (rule triple_close_then [OF assms]) (simp_all add: triple_ret)

lemma triple_complete:
  assumes rely: "rely env"
  shows "triple (winding (ta_lease a) R {}) (complete env lims a c) (\<lambda>_. closed a True) (\<lambda>_. winding (ta_lease a) True {})"
proof (cases "tc_id c \<noteq> ta_id a \<or> tc_actionId c \<noteq> js (ta_actionId a)")
  case True
  show ?thesis
    unfolding complete_def if_P [OF True]
    apply (rule triple_bnd)
     apply (rule triple_conseq [OF triple_release], assumption, assumption, simp)
    by (rule triple_invalid [OF rely])
next
  case False
  show ?thesis
  proof (cases "tc_outcome c")
    case (FailedWith err)
    show ?thesis
      unfolding complete_def if_not_P [OF False] FailedWith completion_outcome.case complete_failure_def
      by (rule triple_close_then [OF rely triple_reply]) simp_all
  next
    case (Succeeded result)
    obtain tr rr where b: "bounded_result env lims result = (tr, rr)" by fastforce
    show ?thesis
      unfolding complete_def if_not_P [OF False] Succeeded completion_outcome.case complete_success_def Let_def b prod.case
      by (rule triple_close_then [OF rely])
        (rule triple_bnd, rule triple_conseq [OF triple_gets], assumption, assumption, erule closed_winding, rule triple_reply, simp_all)
  qed
qed

lemma triple_end_socket:
  "triple (closed a True) (end_socket env ok payload) (\<lambda>_. closed a True) (\<lambda>_. winding (ta_lease a) True {})"
  by (auto simp: end_socket_def triple_def ret_def bnd_def of_result_def split: sum.splits intro: closed_winding)

lemma triple_completion_failed:
  assumes "rely env"
  shows "triple (winding (ta_lease a) R {}) (completion_failed env script a h) (\<lambda>_. closed a True) (\<lambda>_. winding (ta_lease a) True {})"
  unfolding completion_failed_def
  apply (rule triple_bnd, rule triple_invalid [OF assms])
  by (cases h) (simp_all add: triple_ret triple_end_socket)

lemma triple_await_completion:
  assumes rely: "rely env"
  shows "triple (winding (ta_lease a) R {}) (await_completion env lims script a) (\<lambda>_. closed a True) (\<lambda>_. winding (ta_lease a) True {})"
proof -
  have ab: "triple (winding (ta_lease a) R {}) (seq (abandon env a reason) (ret Destroyed)) (\<lambda>_. closed a True) (\<lambda>_. winding (ta_lease a) True {})"
    for reason by (rule triple_bnd, rule triple_abandon [OF rely]) (simp add: triple_ret)
  have c: "triple (winding (ta_lease a) R {}) (try_catch (bnd (complete env lims a c) (end_socket env ok))
      (\<lambda>_. completion_failed env script a False)) (\<lambda>_. closed a True) (\<lambda>_. winding (ta_lease a) True {})" for c ok
    apply (rule triple_try_catch)
     apply (rule triple_bnd, rule triple_complete [OF rely], rule triple_end_socket)
    by (rule triple_completion_failed [OF rely])
  have p: "triple (winding (ta_lease a) R {}) (await env (ret ())) (\<lambda>_. winding (ta_lease a) R {}) (\<lambda>_. winding (ta_lease a) True {})"
    using winding_others [OF rely] by (simp add: triple_def await_def ret_def)
  show ?thesis
    unfolding await_completion_def
    by (rule triple_bnd [OF p])
      (auto split: frame_read.splits frame_error.splits frame_error_kind.splits intro: ab c triple_completion_failed [OF rely])
qed

section \<open>The connection\<close>

text \<open>What the schema library and the serialiser document of so small a frame: the authorisation of a valid request id and
  a fresh uuid is accepted by its schema and fits a frame.\<close>

definition sendable :: "'c broker_env \<Rightarrow> bool" where
  "sendable env \<longleftrightarrow> (\<forall>a. ta_id a \<noteq> [] \<and> byteLength (ta_id a) \<le> 128 \<and> is_uuid (ta_actionId a) \<longrightarrow>
     (\<exists>f bs. be_parse env LocalAuthorizedResponseSchema (authorized_body a) = Some f
        \<and> encodeBrokerFrame (be_stringify env f) = Inr bs))"

lemma hex_digit_hex: "is_hex (hex_digit n)"
proof -
  have "nat (n mod 16) < length ''0123456789abcdef''" by (simp add: nat_less_iff)
  then have "hex_digit n \<in> set ''0123456789abcdef''" unfolding hex_digit_def by (rule nth_mem)
  then show ?thesis by (auto simp: is_hex_def)
qed

lemma uuid_format_ok:
  assumes "length bs = 16"
  shows "is_uuid (uuid_format bs)"
proof -
  have h: "length (hex_bytes bs) = 32" "\<forall>c \<in> set (hex_bytes bs). is_hex c"
    using assms by (auto simp: hex_bytes_def length_concat sum_list_triv comp_def hex_digit_hex)
  have "uuid_format bs ! i = (if i < 8 then hex_bytes bs ! i else if i = 8 then CHR ''-'' else if i < 13 then hex_bytes bs ! (i - 1)
      else if i = 13 then CHR ''-'' else if i < 18 then hex_bytes bs ! (i - 2) else if i = 18 then CHR ''-''
      else if i < 23 then hex_bytes bs ! (i - 3) else if i = 23 then CHR ''-'' else hex_bytes bs ! (i - 4))" if "i < 36" for i
    using that h(1) by (auto simp: uuid_format_def Let_def nth_append nth_Cons' min_def)
  moreover have "length (uuid_format bs) = 36" using h(1) by (simp add: uuid_format_def Let_def)
  ultimately show ?thesis using h by (auto simp: is_uuid_def)
qed

lemma randomUUID_uuid: "fst (randomUUID w) = Inr a \<Longrightarrow> is_uuid a"
  by (auto simp: randomUUID_def randomBytes_def intro!: uuid_format_ok)

context schema_library
begin

lemma local_request_id:
  assumes "parse LocalToolRequestSchema v = Some u" and "tool_request_of u = Some rq"
  shows "tq_id rq \<noteq> [] \<and> byteLength (tq_id rq) \<le> 128"
proof -
  have "\<exists>name body. parse (tool_request name body) v = Some u"
    using assms(1) unfolding LocalToolRequestSchema_def parse_either FsReadRequestSchema_def FsWriteRequestSchema_def
      FsEditRequestSchema_def FsSearchRequestSchema_def ProcExecRequestSchema_def UserAskRequestSchema_def
    by (auto split: option.splits)
  then obtain name body where "parse (tool_request name body) v = Some u" by blast
  from tool_request_accepted [OF this] obtain i b where "u = JObj [(js ''id'', JStr i), (js ''op'', JStr (js name)), (js ''body'', b)]"
    "i \<noteq> []" "byteLength i \<le> 128" by blast
  then show ?thesis using assms(2) by (auto simp: tool_request_of_def split: option.splits)
qed

end

lemma read_frame_request:
  assumes "schema_library fmt (be_parse env)" and "read_frame env LocalToolRequestSchema tool_request_of frame = Read rq"
  shows "tq_id rq \<noteq> [] \<and> byteLength (tq_id rq) \<le> 128"
  using assms(2) schema_library.local_request_id [OF assms(1)]
  by (auto simp: read_frame_def bind_eq_Some_conv split: sum.splits option.splits)

lemma serve_settles:
  assumes rely: "rely env" and a: "authorized env a = Inr frame" "encodeBrokerFrame (be_stringify env frame) = Inr bs"
    and w: "winding (ta_lease a) False {} w" and run: "serve_authorized env lims script a w = (r, w')"
  shows "winding (ta_lease a) True {} w' \<and> (\<forall>out. r = Inr out \<longrightarrow> closed a True w')"
proof (cases "sk_firstWritable script")
  case False
  obtain rb wb where b: "abandon env a ''guest disconnected after authorization'' w = (rb, wb)" by fastforce
  from triple_run [OF triple_abandon [OF rely] w b] run a b False show ?thesis
    by (cases rb) (auto simp: serve_authorized_def bnd_def of_result_def ret_def dest: closed_winding)
next
  case True
  obtain rb wb where b: "await_completion env lims script a w = (rb, wb)" by fastforce
  from triple_run [OF triple_await_completion [OF rely] w b] run a b True show ?thesis
    by (cases rb) (auto simp: serve_authorized_def bnd_def of_result_def ret_def dest: closed_winding)
qed

lemma end_socket_same: "end_socket env ok payload w = (r, w') \<Longrightarrow> w' = w"
  by (auto simp: end_socket_def ret_def bnd_def of_result_def split: if_splits sum.splits prod.splits)

lemma reply_same:
  assumes "bnd (of_result q) (\<lambda>reply. bnd (end_socket env ok reply) (\<lambda>x. ret [x])) w = (r, w')"
  shows "w' = w \<and> (\<forall>out. r = Inr out \<longrightarrow> (\<exists>x. out = [x]))"
  using assms by (auto simp: bnd_def of_result_def ret_def split: sum.splits prod.splits dest: end_socket_same)

lemma failInitial_same:
  assumes "failInitial env script q w = (r, w')"
  shows "w' = w \<and> (\<forall>out. r = Inr out \<longrightarrow> (\<exists>x. out = [x]))"
proof (cases "silent q")
  case True
  with assms show ?thesis by (auto simp: failInitial_def ret_def)
next
  case False
  show ?thesis by (rule reply_same) (use assms in \<open>unfold failInitial_def if_not_P [OF False]\<close>)
qed

lemma connection_settles:
  assumes rely: "rely env" and lib: "schema_library fmt (be_parse env)" and send: "sendable env" and w: "fresh_call w"
    and run: "handle_connection env lims p script w = (r, w')"
  shows "settled (\<lambda>_. True) {} w' \<and> (\<forall>frame x. r = Inr [Wrote frame, x] \<longrightarrow> (\<exists>a e. closes a e \<and> e \<in> outbox_events (db w')
       \<and> authorized env a = Inr frame))"
proof (cases "read_frame env LocalToolRequestSchema tool_request_of (sk_first script)")
  case (Read rq)
  obtain ra wa where a: "authorize env p rq w = (ra, wa)" by fastforce
  from rely w a show ?thesis
  proof (cases rule: authorize_cases)
    case (refused e)
    with run Read a have "bnd (of_result (localError env (tq_id rq) e))
            (\<lambda>reply. bnd (end_socket env (sk_firstWritable script) reply) (\<lambda>x. ret [x])) wa = (r, w')"
      by (simp add: handle_connection_def)
    from reply_same [OF this] refused(2) show ?thesis by auto
  next
    case (granted idn w1 w2 act x S)
    have "ta_id x \<noteq> [] \<and> byteLength (ta_id x) \<le> 128" "is_uuid (ta_actionId x)"
      using granted(4) read_frame_request [OF lib Read] randomUUID_uuid [OF granted(3)] by (auto simp: authorisation_ok_def)
    with send obtain f bs where f: "be_parse env LocalAuthorizedResponseSchema (authorized_body x) = Some f"
        "encodeBrokerFrame (be_stringify env f) = Inr bs" unfolding sendable_def by blast
    then have au: "authorized env x = Inr f" by (simp add: authorized_def parse_or_throw_def)
    have run': "serve_authorized env lims script x wa = (r, w')"
      using run Read a granted(1) by (simp add: handle_connection_def)
    from serve_settles [OF rely au f(2) ctx_winding [OF granted(6)] run']
    have s: "settled (\<lambda>_. True) {} w'" "\<And>out. r = Inr out \<Longrightarrow> closed x True w'" using winding_settled by blast+
    have "\<exists>a e. closes a e \<and> e \<in> outbox_events (db w') \<and> authorized env a = Inr frame" if r: "r = Inr [Wrote frame, y]" for frame y
    proof -
      from s(2) [OF r] obtain e where "closes x e" "e \<in> outbox_events (db w')" by (auto simp: closed_def winding_def)
      moreover have "frame = f" using run' r au f(2)
        by (auto simp: serve_authorized_def bnd_def of_result_def ret_def split: if_splits prod.splits sum.splits)
      ultimately show ?thesis using au by blast
    qed
    with s(1) show ?thesis by blast
  qed
next
  case BadValue
  then have "failInitial env script BadValue w = (r, w')" using run by (simp add: handle_connection_def)
  then have "w' = w \<and> (\<forall>out. r = Inr out \<longrightarrow> (\<exists>x. out = [x]))" by (rule failInitial_same)
  with w show ?thesis by (auto simp: fresh_call_def settled_def)
next
  case (BadFrame fe)
  then have "failInitial env script (BadFrame fe) w = (r, w')" using run by (simp add: handle_connection_def)
  then have "w' = w \<and> (\<forall>out. r = Inr out \<longrightarrow> (\<exists>x. out = [x]))" by (rule failInitial_same)
  with w show ?thesis by (auto simp: fresh_call_def settled_def)
qed

section \<open>What local tools guarantee\<close>



section \<open>A tool that times out\<close>

definition demo_tool :: tool_request where
  "demo_tool = \<lparr>tq_id = js ''t1'', tq_op = ProcExec, tq_body = JObj [(js ''argv'', JArr [JStr (js ''ls'')])]\<rparr>"

definition demo_tool_json :: json where
  "demo_tool_json = JObj [(js ''id'', JStr (js ''t1'')), (js ''op'', JStr (js ''proc.exec'')),
     (js ''body'', JObj [(js ''argv'', JArr [JStr (js ''ls'')])])]"

definition tool_env :: "unit broker_env" where
  "tool_env = demo_env\<lparr>be_jparse := (\<lambda>_. Inr demo_tool_json)\<rparr>"

lemma tool_env_fields [simp]: "be_parse tool_env = be_parse demo_env" "be_loadPolicy tool_env = be_loadPolicy demo_env"
  "be_stringify tool_env = be_stringify demo_env" "be_jparse tool_env x = Inr demo_tool_json"
  by (simp_all add: tool_env_def)

definition tool1 :: "unit broker_world" where "tool1 = snd (randomUUID demo1)"
definition tool2 :: "unit broker_world" where "tool2 = snd (enter_gate (sr_id demo_session) tool1)"
definition tool3 :: "unit broker_world" where "tool3 = snd (load (be_loadPolicy demo_env) (id_policyBundleId demo_identity) tool2)"

definition tool_started :: audit_input where
  "tool_started = auditEvent tool_env demo_identity demo_action demo_tool ''action.started'' Allow ''bundle'' (js ''ok'')"

definition tool4 :: "unit broker_world" where "tool4 = snd (persistBeforeExecution hasEvent insertBatch tool_started tool3)"

definition demo_granted :: tool_authorization where
  "demo_granted = \<lparr>ta_id = js ''t1'', ta_actionId = demo_action, ta_identity = demo_identity, ta_request = demo_tool,
     ta_policyBundleId = ''bundle'', ta_policyReason = js ''ok'', ta_startedAt = 1000, ta_lease = 0\<rparr>"

lemma tool_stage_values:
  "fst (randomUUID demo1) = Inr demo_action"
  "fst (enter_gate (sr_id demo_session) tool1) = Inr (Some 0)"
  "bundle_rows (id_policyBundleId demo_identity) (db tool2) = [demo_bundle]"
  "Option.is_none (pw_loaded tool2 (id_policyBundleId demo_identity))"
  "fault tool2 (calls tool2) = Ok"
  "case fst (persistBeforeExecution hasEvent insertBatch tool_started tool3) of Inr _ \<Rightarrow> True | Inl _ \<Rightarrow> False"
  by code_simp+

lemma tool_exec: "assertAllowedExec (argv_of (tq_body demo_tool)) = Inr ()"
  by code_simp

lemma tool_load: "fst (load (be_loadPolicy demo_env) (id_policyBundleId demo_identity) tool2) =
    Inr \<lparr>lb_id = ''bundle'', lb_version = ''1'', lb_evaluator = demo_policy\<rparr>"
  using tool_stage_values(3-5)
  by (simp add: load_def query_def next_outcome_def select_def bnd_def ret_def gets_def of_result_def fromWasm_def modify_def Let_def
      demo_bundle_def demo_env_def Option.is_none_def)

lemmas tool_stages = demo_stages(1) tool_stage_values(1) [THEN stage, folded tool1_def]
  tool_stage_values(2) [THEN stage, folded tool2_def] tool_load [THEN stage, folded tool3_def]

lemma tool_await: "await tool_env m w = m w"
  by (simp add: await_def tool_env_def demo_env_def split: prod.splits)

lemma tool_authorised: "authorize tool_env demo_peer demo_tool demo_host = (Inr demo_granted, tool4)"
proof -
  obtain e where e: "persistBeforeExecution hasEvent insertBatch tool_started tool3 = (Inr e, tool4)"
    using stage_some [OF tool_stage_values(6)] by (auto simp: tool4_def)
  have ev: "evaluate (be_parse demo_env) demo_policy v = Inr demo_verdict" for v
    by (simp add: demo_env_def demo_policy_allows demo_verdict_def)
  have i: "id_sessionId demo_identity = sr_id demo_session" "tq_id demo_tool = js ''t1''"
    by (simp_all add: demo_identity_def demo_tool_def)
  show ?thesis
    using e tool_exec
    by (simp add: authorize_def authorize_admitted_def check_exec_def bnd_def gets_def ret_def of_result_def try_catch_def tool_await tool_stages
        demo_clock i ev demo_verdict_def tool_started_def demo_granted_def)
qed

lemma tool_rely: "rely tool_env"
  using demo_rely by (simp add: rely_def tool_env_def)


lemma tool_library: "schema_library (\<lambda>_ _. True) (be_parse tool_env)"
  by (simp add: demo_env_def) (rule zod.schema_library_axioms)

lemma tool_encodes: "\<exists>bs. encodeBrokerFrame (be_stringify tool_env f) = Inr bs"
proof -
  have "case encodeBrokerFrame (js ''null'') of Inr _ \<Rightarrow> True | Inl _ \<Rightarrow> False" by code_simp
  then show ?thesis by (auto simp: demo_env_def split: sum.splits)
qed

lemma tool_sendable: "sendable tool_env"
  unfolding sendable_def
proof (intro allI impI)
  fix a :: tool_authorization assume a: "ta_id a \<noteq> [] \<and> byteLength (ta_id a) \<le> 128 \<and> is_uuid (ta_actionId a)"
  have "be_parse tool_env LocalAuthorizedResponseSchema (authorized_body a) = Some (authorized_body a)"
    using a by (simp add: demo_env_def LocalAuthorizedResponseSchema_def authorized_body_def known_keys_def BrokerFrameIdSchema_def
        SessionIdSchema_def frame_id_fits_def Suc_le_eq)
  moreover note tool_encodes
  ultimately show "\<exists>f bs. be_parse tool_env LocalAuthorizedResponseSchema (authorized_body a) = Some f
        \<and> encodeBrokerFrame (be_stringify tool_env f) = Inr bs" by blast
qed

definition demo_script :: socket_script where
  "demo_script = \<lparr>sk_first = Inr [], sk_firstWritable = True, sk_second = Inl (FrameError FTimeout False), sk_secondWritable = True\<rparr>"

definition tool_abandoned :: audit_input where
  "tool_abandoned = (local_event tool_env demo_granted ''action.abandoned'')\<lparr>ai_errorCode := Some ''SANDBOX_FAILED'',
     ai_errorMessage := Some (js ''local tool completion timed out''), ai_durationMs := Some 0\<rparr>"

lemma tool_abandons:
  "case fst (persistDurably tool_abandoned tool4) of Inr _ \<Rightarrow> True | Inl _ \<Rightarrow> False" "now tool4 = 1000"
  by code_simp+

lemma tool_read: "read_frame tool_env LocalToolRequestSchema tool_request_of (Inr []) = Read demo_tool"
proof -
  have n: "byteLength (js ''t1'') = 2" by code_simp
  have "be_parse demo_env LocalToolRequestSchema demo_tool_json = Some demo_tool_json"
    by (simp add: demo_env_def LocalToolRequestSchema_def FsReadRequestSchema_def FsWriteRequestSchema_def FsEditRequestSchema_def
        FsSearchRequestSchema_def ProcExecRequestSchema_def tool_request_def demo_tool_json_def known_keys_def BrokerFrameIdSchema_def
        frame_id_fits_def n in_bounds_def)
      (simp add: js_def)
  then show ?thesis
    by (simp add: read_frame_def parseJson_def demo_tool_json_def tool_request_of_def op_of_def demo_tool_def)
qed

lemma tool_connection:
  "\<exists>w'. handle_connection tool_env lims demo_peer demo_script demo_host = (Inr [Wrote (authorized_body demo_granted), Destroyed], w')"
proof -
  obtain e w5 where e: "persistDurably tool_abandoned tool4 = (Inr e, w5)"
    using stage_some [OF tool_abandons(1)] by blast
  have au: "authorized tool_env demo_granted = Inr (authorized_body demo_granted)"
  proof -
    have "byteLength (js ''t1'') = 2" by code_simp
    then show ?thesis
      by (simp add: authorized_def parse_or_throw_def demo_env_def LocalAuthorizedResponseSchema_def authorized_body_def known_keys_def
          BrokerFrameIdSchema_def SessionIdSchema_def frame_id_fits_def demo_granted_def) (simp add: js_def)
  qed
  obtain bs where bs: "encodeBrokerFrame (be_stringify tool_env (authorized_body demo_granted)) = Inr bs" using tool_encodes by blast
  have ab: "abandon tool_env demo_granted ''local tool completion timed out'' tool4 = (Inr (), w5\<lparr>bw_gate := release 0 (bw_gate w5)\<rparr>)"
    using e tool_abandons(2)
    by (simp add: abandon_def try_finally_def bnd_def local_audit_def gets_def ret_def tool_await tool_abandoned_def release_lease_def
        modify_def demo_granted_def)
  have rd2: "read_frame tool_env s d (Inl f) = BadFrame f" for s and d :: "json \<Rightarrow> 'b option" and f by (simp add: read_frame_def)
  show ?thesis
    using ab bs
    by (simp add: handle_connection_def demo_script_def tool_read tool_authorised serve_authorized_def bnd_def of_result_def au
        await_completion_def ret_def tool_await rd2)
qed


end
