(* ===== verification/Aes_Gcm.thy ===== *)
theory Aes_Gcm
  imports World
begin

text \<open>
  The authenticated cipher the snapshot keys and artifacts use: \<^verbatim>\<open>aes-256-gcm\<close> of \<^verbatim>\<open>node:crypto\<close>, after FIPS 197
  and NIST SP 800-38D. Encryption gives the ciphertext and a tag of 16 bytes; decryption
  recomputes the tag and gives the plaintext back, or nothing when the tag differs.
\<close>

section \<open>The block cipher (FIPS 197)\<close>

definition xtime :: "byte \<Rightarrow> byte" where
  "xtime b = xor (push_bit 1 b) (if bit b 7 then 0x1B else 0)"

primrec gf_mult :: "nat \<Rightarrow> byte \<Rightarrow> byte \<Rightarrow> byte" where
  "gf_mult 0 a b = 0"
| "gf_mult (Suc n) a b = xor (if bit b 0 then a else 0) (gf_mult n (xtime a) (drop_bit 1 b))"

text \<open>The inverse is the 254th power, and 0 for 0; the affine map follows.\<close>

definition sub_byte :: "byte \<Rightarrow> byte" where
  "sub_byte a = (let i = ((gf_mult 8 a) ^^ 254) 1 in
     xor 0x63 (xor i (xor (word_rotl 1 i) (xor (word_rotl 2 i) (xor (word_rotl 3 i) (word_rotl 4 i))))))"

definition xor_bytes :: "byte list \<Rightarrow> byte list \<Rightarrow> byte list" where
  "xor_bytes xs ys = map2 xor xs ys"

text \<open>The key schedule: words of four bytes, the latest first.\<close>

definition schedule_word :: "nat \<Rightarrow> byte list list \<Rightarrow> byte list" where
  "schedule_word i ws = (let t = hd ws in xor_bytes (ws ! 7)
     (if i mod 8 = 0 then xor_bytes (map sub_byte (rotate1 t)) [(xtime ^^ (i div 8 - 1)) 1, 0, 0, 0]
      else if i mod 8 = 4 then map sub_byte t else t))"

fun groups :: "nat \<Rightarrow> 'a list \<Rightarrow> 'a list list" where
  "groups n xs = (if n = 0 \<or> xs = [] then [] else take n xs # groups n (drop n xs))"

declare groups.simps [simp del]

definition round_keys :: "byte list \<Rightarrow> byte list list" where
  "round_keys key = groups 16 (concat (rev (fold (\<lambda>i ws. schedule_word i ws # ws) [8..<60] (rev (groups 4 key)))))"

definition shift_rows :: "byte list \<Rightarrow> byte list" where
  "shift_rows s = map (\<lambda>i. s ! ((i + 4 * (i mod 4)) mod 16)) [0..<16]"

definition mix_column :: "byte list \<Rightarrow> byte list" where
  "mix_column c = map (\<lambda>i. let b = (\<lambda>k. c ! ((i + k) mod 4)) in
     xor (gf_mult 8 (b 0) 2) (xor (gf_mult 8 (b 1) 3) (xor (b 2) (b 3)))) [0..<4]"

definition aes_round :: "byte list \<Rightarrow> byte list \<Rightarrow> byte list" where
  "aes_round k s = xor_bytes (concat (map mix_column (groups 4 (shift_rows (map sub_byte s))))) k"

definition aes256 :: "byte list \<Rightarrow> byte list \<Rightarrow> byte list" where
  "aes256 key block = (let ks = round_keys key in
     xor_bytes (shift_rows (map sub_byte (fold aes_round (take 13 (tl ks)) (xor_bytes block (hd ks))))) (last ks))"

section \<open>Galois counter mode (SP 800-38D)\<close>

primrec gf128_mult :: "nat \<Rightarrow> 128 word \<Rightarrow> 128 word \<Rightarrow> 128 word" where
  "gf128_mult 0 x v = 0"
| "gf128_mult (Suc n) x v = xor (if bit x n then v else 0)
     (gf128_mult n x (xor (drop_bit 1 v) (if bit v 0 then push_bit 120 0xE1 else 0)))"

definition to_block :: "byte list \<Rightarrow> 128 word" where
  "to_block bs = word_of_int (horner_sum uint 256 (rev (take 16 (bs @ replicate 16 0))))"

definition of_block :: "128 word \<Rightarrow> byte list" where
  "of_block x = map (\<lambda>i. word_of_int (uint x div 256 ^ (15 - i))) [0..<16]"

definition ghash :: "128 word \<Rightarrow> byte list list \<Rightarrow> 128 word" where
  "ghash h blocks = fold (\<lambda>b y. gf128_mult 128 (xor y (to_block b)) h) blocks 0"

definition bit_length :: "byte list \<Rightarrow> byte list" where
  "bit_length bs = map (\<lambda>i. word_of_int (8 * int (length bs) div 256 ^ (7 - i))) [0..<8]"

text \<open>The counter block of a nonce, and its \<open>i\<close>th successor: only the last 32 bits count.\<close>

definition counter0 :: "128 word \<Rightarrow> byte list \<Rightarrow> 128 word" where
  "counter0 h nonce = (if length nonce = 12 then to_block (nonce @ [0, 0, 0, 1])
     else ghash h (groups 16 nonce @ [replicate 8 0 @ bit_length nonce]))"

definition counter_at :: "128 word \<Rightarrow> nat \<Rightarrow> 128 word" where
  "counter_at c i = word_of_int (uint c - uint c mod 2 ^ 32 + (uint c + int i) mod 2 ^ 32)"

definition keystream :: "byte list \<Rightarrow> 128 word \<Rightarrow> nat \<Rightarrow> byte list" where
  "keystream key c n = take n (concat (map (\<lambda>i. aes256 key (of_block (counter_at c (Suc i)))) [0..<(n + 15) div 16]) @ replicate n 0)"

definition gcm_tag :: "byte list \<Rightarrow> byte list \<Rightarrow> byte list \<Rightarrow> byte list \<Rightarrow> byte list" where
  "gcm_tag key nonce aad ct = (let h = to_block (aes256 key (replicate 16 0)) in
     of_block (xor (ghash h (groups 16 aad @ groups 16 ct @ [bit_length aad @ bit_length ct]))
       (to_block (aes256 key (of_block (counter0 h nonce))))))"

definition gcm_stream :: "byte list \<Rightarrow> byte list \<Rightarrow> byte list \<Rightarrow> byte list" where
  "gcm_stream key nonce text = xor_bytes text
     (keystream key (counter0 (to_block (aes256 key (replicate 16 0))) nonce) (length text))"

definition gcm_encrypt :: "byte list \<Rightarrow> byte list \<Rightarrow> byte list \<Rightarrow> byte list \<Rightarrow> byte list \<times> byte list" where
  "gcm_encrypt key nonce aad plain = (let ct = gcm_stream key nonce plain in (ct, gcm_tag key nonce aad ct))"

definition gcm_decrypt :: "byte list \<Rightarrow> byte list \<Rightarrow> byte list \<Rightarrow> byte list \<Rightarrow> byte list \<Rightarrow> byte list option" where
  "gcm_decrypt key nonce aad ct tag =
     (if tag = gcm_tag key nonce aad ct then Some (gcm_stream key nonce ct) else None)"

section \<open>The cipher as its users see it\<close>

text \<open>What the key hierarchy relies on: what was encrypted comes back, and the sizes of ciphertext and tag.\<close>

locale aead =
  fixes enc :: "byte list \<Rightarrow> byte list \<Rightarrow> byte list \<Rightarrow> byte list \<Rightarrow> byte list \<times> byte list"
    and dec :: "byte list \<Rightarrow> byte list \<Rightarrow> byte list \<Rightarrow> byte list \<Rightarrow> byte list \<Rightarrow> byte list option"
  assumes dec_enc: "enc k n a p = (ct, tag) \<Longrightarrow> dec k n a ct tag = Some p"
    and enc_size: "enc k n a p = (ct, tag) \<Longrightarrow> length ct = length p \<and> length tag = 16"
    and dec_size: "dec k n a ct tag = Some p \<Longrightarrow> length p = length ct"

lemma xor_bytes_length [simp]: "length (xor_bytes xs ys) = min (length xs) (length ys)"
  by (simp add: xor_bytes_def)

lemma keystream_length [simp]: "length (keystream key c n) = n"
  by (simp add: keystream_def)

lemma xor_bytes_twice: "length ks = length xs \<Longrightarrow> xor_bytes (xor_bytes xs ks) ks = xs"
  unfolding xor_bytes_def by (induction xs ks rule: list_induct2') (auto simp: xor.assoc)

lemma gcm_stream_length [simp]: "length (gcm_stream key nonce xs) = length xs"
  by (simp add: gcm_stream_def)

lemma gcm_stream_twice: "gcm_stream key nonce (gcm_stream key nonce xs) = xs"
  unfolding gcm_stream_def by (simp add: xor_bytes_twice)

lemma gcm_tag_length [simp]: "length (gcm_tag key nonce aad ct) = 16"
  by (simp add: gcm_tag_def of_block_def Let_def)

interpretation gcm: aead gcm_encrypt gcm_decrypt
  by unfold_locales (auto simp: gcm_encrypt_def gcm_decrypt_def gcm_stream_twice Let_def split: if_splits)

end
