(* ===== verification/Rely_Guarantee.thy ===== *)
theory Rely_Guarantee
  imports World
begin

text \<open>
  Handlers that share the database with others. A protocol is a reflexive and transitive relation on the database that every
  handler keeps with every statement it commits; a handler may rely on the others keeping it while it waits, and must
  itself keep it whatever calls fail. The locale \<open>protocol\<close> has the rules by which a handler is shown to do so.
\<close>

section \<open>Awaiting\<close>

text \<open>\<^verbatim>\<open>await m\<close>: other handlers run before this one goes on.\<close>

definition pause :: "(nat \<Rightarrow> 'z world_scheme \<Rightarrow> 'z world_scheme) \<Rightarrow> ('z world_scheme, 'a) proc \<Rightarrow> ('z world_scheme, 'a) proc" where
  "pause others m w = (case m w of (r, w1) \<Rightarrow> (r, others (calls w1) w1))"

text \<open>A call that leaves the process: its answer is that of the oracle for its number.\<close>

definition outside :: "(nat \<Rightarrow> js_error + 'a) \<Rightarrow> ('z world_scheme, 'a) proc" where
  "outside answer w = (answer (calls w), w\<lparr>calls := Suc (calls w)\<rparr>)"

definition keep :: "(db \<Rightarrow> db \<Rightarrow> bool) \<Rightarrow> (nat \<Rightarrow> 'z world_scheme \<Rightarrow> 'z world_scheme) \<Rightarrow> bool" where
  "keep R others \<longleftrightarrow> (\<forall>n w. R (db w) (db (others n w)))"

definition stable :: "(db \<Rightarrow> db \<Rightarrow> bool) \<Rightarrow> (db \<Rightarrow> bool) \<Rightarrow> bool" where
  "stable R P \<longleftrightarrow> (\<forall>d d'. P d \<longrightarrow> R d d' \<longrightarrow> P d')"

text \<open>From a database with \<open>P\<close> the handler moves it along \<open>R\<close>, and when it returns \<open>x\<close> the database has \<open>Q x\<close>.\<close>

definition guar :: "(db \<Rightarrow> db \<Rightarrow> bool) \<Rightarrow> (db \<Rightarrow> bool) \<Rightarrow> ('z world_scheme, 'a) proc \<Rightarrow> ('a \<Rightarrow> db \<Rightarrow> bool) \<Rightarrow> bool" where
  "guar R P m Q \<longleftrightarrow> (\<forall>w r w'. P (db w) \<longrightarrow> m w = (r, w') \<longrightarrow> R (db w) (db w') \<and> (\<forall>x. r = Inr x \<longrightarrow> Q x (db w')))"

lemma guarI:
  assumes "\<And>w r w'. P (db w) \<Longrightarrow> m w = (r, w') \<Longrightarrow> R (db w) (db w')"
    and "\<And>w x w'. P (db w) \<Longrightarrow> m w = (Inr x, w') \<Longrightarrow> Q x (db w')"
  shows "guar R P m Q"
  using assms unfolding guar_def by blast

lemma guar_step: "guar R P m Q \<Longrightarrow> P (db w) \<Longrightarrow> m w = (r, w') \<Longrightarrow> R (db w) (db w')"
  unfolding guar_def by blast

lemma guar_post: "guar R P m Q \<Longrightarrow> P (db w) \<Longrightarrow> m w = (Inr x, w') \<Longrightarrow> Q x (db w')"
  unfolding guar_def by blast

lemma guar_conseq: "guar R P m Q \<Longrightarrow> (\<And>d. P' d \<Longrightarrow> P d) \<Longrightarrow> (\<And>x d. Q x d \<Longrightarrow> Q' x d) \<Longrightarrow> guar R P' m Q'"
  unfolding guar_def by blast

lemma stableI: "(\<And>d d'. P d \<Longrightarrow> R d d' \<Longrightarrow> P d') \<Longrightarrow> stable R P"
  unfolding stable_def by blast

lemma stableD: "stable R P \<Longrightarrow> P d \<Longrightarrow> R d d' \<Longrightarrow> P d'"
  unfolding stable_def by blast

lemma stable_True [simp]: "stable R (\<lambda>_. True)"
  by (simp add: stable_def)

lemma stable_const [simp]: "stable R (\<lambda>_. b)"
  by (simp add: stable_def)

lemma stable_conj: "stable R P \<Longrightarrow> stable R Q \<Longrightarrow> stable R (\<lambda>d. P d \<and> Q d)"
  unfolding stable_def by blast

lemma stable_ball: "(\<And>x. x \<in> S \<Longrightarrow> stable R (P x)) \<Longrightarrow> stable R (\<lambda>d. \<forall>x \<in> S. P x d)"
  unfolding stable_def by blast

lemma guar_stable: "guar R P' m Q \<Longrightarrow> (\<And>d. P d \<Longrightarrow> P' d) \<Longrightarrow> stable R P \<Longrightarrow> guar R P m (\<lambda>_. P)"
  unfolding guar_def stable_def by blast

lemma guar_conj: "guar R P m Q \<Longrightarrow> guar R P m Q' \<Longrightarrow> guar R P m (\<lambda>x d. Q x d \<and> Q' x d)"
  unfolding guar_def by blast

section \<open>Rules\<close>

locale protocol =
  fixes R :: "db \<Rightarrow> db \<Rightarrow> bool"
  assumes step_refl: "R d d" and step_trans: "R d d' \<Longrightarrow> R d' d'' \<Longrightarrow> R d d''"
begin

lemma guar_still:
  assumes "\<And>w r w'. m w = (r, w') \<Longrightarrow> db w' = db w" and "\<And>w x w'. P (db w) \<Longrightarrow> m w = (Inr x, w') \<Longrightarrow> Q x (db w)"
  shows "guar R P m Q"
  by (rule guarI) (use assms step_refl in fastforce)+

lemma guar_ret: "(\<And>d. P d \<Longrightarrow> Q x d) \<Longrightarrow> guar R P (ret x) Q"
  by (rule guar_still) (auto simp: ret_def)

lemma guar_throw: "guar R P (throw e) Q"
  by (rule guar_still) (auto simp: throw_def)

lemma guar_of_result: "(\<And>d x. P d \<Longrightarrow> r = Inr x \<Longrightarrow> Q x d) \<Longrightarrow> guar R P (of_result r) Q"
  by (rule guar_still) (auto simp: of_result_def)

lemma guar_outside: "(\<And>d x. P d \<Longrightarrow> Q x d) \<Longrightarrow> guar R P (outside f) Q"
  by (rule guar_still) (auto simp: outside_def)

lemma guar_gets: "(\<And>d x. P d \<Longrightarrow> Q x d) \<Longrightarrow> guar R P (gets f) Q"
  by (rule guar_still) (auto simp: gets_def)

lemma guar_modify: "(\<And>w. db (f w) = db w) \<Longrightarrow> (\<And>d. P d \<Longrightarrow> Q () d) \<Longrightarrow> guar R P (modify f) Q"
  by (rule guar_still) (auto simp: modify_def)

lemma guar_bnd:
  assumes "guar R P m M" and "\<And>x. guar R (M x) (f x) Q"
  shows "guar R P (bnd m f) Q"
  unfolding guar_def
proof (intro allI impI)
  fix w r w' assume P: "P (db w)" and "bnd m f w = (r, w')"
  from this(2) show "R (db w) (db w') \<and> (\<forall>x. r = Inr x \<longrightarrow> Q x (db w'))"
  proof (cases rule: bndE)
    case (err e)
    with guar_step [OF assms(1) P] show ?thesis by simp
  next
    case (ok x w1)
    with guar_step [OF assms(1) P] guar_post [OF assms(1) P] assms(2) [of x] step_trans show ?thesis
      unfolding guar_def by blast
  qed
qed

lemma guar_try_catch:
  assumes "guar R P m Q" and "stable R P" and "\<And>e. guar R P (h e) Q"
  shows "guar R P (try_catch m h) Q"
  unfolding guar_def
proof (intro allI impI)
  fix w r w' assume P: "P (db w)" and t: "try_catch m h w = (r, w')"
  obtain r1 w1 where m: "m w = (r1, w1)" by fastforce
  have R1: "R (db w) (db w1)" using guar_step [OF assms(1) P m] .
  show "R (db w) (db w') \<and> (\<forall>x. r = Inr x \<longrightarrow> Q x (db w'))"
  proof (cases r1)
    case (Inl e)
    with t m have h: "h e w1 = (r, w')" by (simp add: try_catch_def)
    have P1: "P (db w1)" using stableD [OF assms(2) P R1] .
    from guar_step [OF assms(3) P1 h] guar_post [OF assms(3) P1] h R1 step_trans show ?thesis by blast
  next
    case (Inr x)
    with t m guar_post [OF assms(1) P] R1 show ?thesis by (auto simp: try_catch_def)
  qed
qed

lemma guar_try_finally:
  assumes "guar R P m Q" and "stable R P" and "\<And>x. stable R (Q x)" and "guar R P fin (\<lambda>_ _. True)"
  shows "guar R P (try_finally m fin) Q"
  unfolding guar_def
proof (intro allI impI)
  fix w r w' assume P: "P (db w)" and t: "try_finally m fin w = (r, w')"
  obtain r1 w1 where m: "m w = (r1, w1)" by fastforce
  obtain r2 w2 where f: "fin w1 = (r2, w2)" by fastforce
  have R1: "R (db w) (db w1)" using guar_step [OF assms(1) P m] .
  have R2: "R (db w1) (db w2)" using guar_step [OF assms(4) stableD [OF assms(2) P R1] f] .
  have w2: "w' = w2" using t m f by (auto simp: try_finally_def split: sum.splits)
  have "Q x (db w2)" if "r = Inr x" for x
  proof -
    have "r1 = Inr x" using that t m f by (auto simp: try_finally_def split: sum.splits)
    with guar_post [OF assms(1) P] m have "Q x (db w1)" by blast
    then show ?thesis using stableD [OF assms(3) _ R2] by blast
  qed
  with w2 step_trans [OF R1 R2] show "R (db w) (db w') \<and> (\<forall>x. r = Inr x \<longrightarrow> Q x (db w'))" by blast
qed

lemma guar_pause:
  assumes "keep R others" and "guar R P m Q" and "\<And>x. stable R (Q x)"
  shows "guar R P (pause others m) Q"
  unfolding guar_def
proof (intro allI impI)
  fix w r w' assume P: "P (db w)" and t: "pause others m w = (r, w')"
  obtain w1 where m: "m w = (r, w1)" and w': "w' = others (calls w1) w1"
    using t by (auto simp: pause_def split: prod.splits)
  have R2: "R (db w1) (db w')" using assms(1) w' by (auto simp: keep_def)
  from guar_step [OF assms(2) P m] R2 step_trans guar_post [OF assms(2) P] m stableD [OF assms(3) _ R2]
  show "R (db w) (db w') \<and> (\<forall>x. r = Inr x \<longrightarrow> Q x (db w'))" by blast
qed

lemma guar_query:
  assumes "\<And>d x d'. P d \<Longrightarrow> f d = Inr (x, d') \<Longrightarrow> R d d' \<and> Q x d'"
  shows "guar R P (query f) Q"
  unfolding guar_def
proof (intro allI impI)
  fix w r w' assume P: "P (db w)" and "query f w = (r, w')"
  from this(2) show "R (db w) (db w') \<and> (\<forall>x. r = Inr x \<longrightarrow> Q x (db w'))"
    by (cases rule: query_cases) (use assms P step_refl in auto)
qed

lemma guar_query_stable:
  assumes "\<And>d x d'. P d \<Longrightarrow> f d = Inr (x, d') \<Longrightarrow> R d d'" and "stable R P"
  shows "guar R P (query f) (\<lambda>_. P)"
  by (rule guar_query) (use assms in \<open>auto simp: stable_def\<close>)

lemma guar_select: "(\<And>d. P d \<Longrightarrow> Q (f d) d) \<Longrightarrow> guar R P (query (select f)) Q"
  by (rule guar_query) (auto simp: select_def step_refl)

lemma guar_transaction:
  assumes "\<And>d. P d \<Longrightarrow> triple (\<lambda>w. db w = d) body (\<lambda>x w. R d (db w) \<and> Q x (db w)) (\<lambda>_ _. True)"
  shows "guar R P (transaction body) Q"
  unfolding guar_def
proof (intro allI impI)
  fix w r w' assume P: "P (db w)" and "transaction body w = (r, w')"
  from this(2) show "R (db w) (db w') \<and> (\<forall>x. r = Inr x \<longrightarrow> Q x (db w'))"
  proof (cases rule: transaction_cases)
    case (committed x w2)
    with triple_Inr [OF assms [OF P] _ committed(1)] show ?thesis by auto
  qed (use step_refl in auto)
qed

lemma guar_for_each:
  assumes "\<And>ys x zs. xs = ys @ x # zs \<Longrightarrow> guar R (J ys) (f x) (\<lambda>_. J (ys @ [x]))"
  shows "guar R (J []) (for_each xs f) (\<lambda>_. J xs)"
proof -
  have "guar R (J ys) (for_each zs f) (\<lambda>_. J xs)" if "xs = ys @ zs" for ys zs
    using that
  proof (induction zs arbitrary: ys)
    case Nil
    then show ?case by (auto intro: guar_ret)
  next
    case (Cons z zs)
    show ?case unfolding for_each.simps
      by (rule guar_bnd [OF assms [OF Cons.prems] Cons.IH]) (use Cons.prems in simp)
  qed
  from this [of "[]" xs] show ?thesis by simp
qed

lemma guar_each: "(\<And>x. x \<in> set xs \<Longrightarrow> guar R P (f x) (\<lambda>_. P)) \<Longrightarrow> guar R P (for_each xs f) (\<lambda>_. P)"
  by (rule guar_for_each [where J = "\<lambda>_. P"]) auto

end

end
