(* ===== verification/Snapshot_Crypto.thy ===== *)
theory Snapshot_Crypto
  imports Aes_Gcm Secrets Session_Identity Rely_Guarantee
begin

text \<open>
  \<^verbatim>\<open>apps/control-plane/src/session-snapshot-crypto.ts\<close>: the hierarchy of keys that protects session snapshots. A root key
  held by the secret backend wraps one key per session, which wraps one key per snapshot, which encrypts the
  artifacts. The backend is a parameter, \<open>ce_fetch\<close>: what it answers to the call of a given number. Overwriting a key
  buffer when a function is left has no effect on any result and is not part of the model.
\<close>

section \<open>SessionSnapshotCrypto\<close>

definition KEY_BYTES :: nat where "KEY_BYTES = 32"
definition GCM_NONCE_BYTES :: nat where "GCM_NONCE_BYTES = 12"
definition GCM_TAG_BYTES :: nat where "GCM_TAG_BYTES = 16"

record wrapped_key =
  wk_nonce :: "byte list"
  wk_ciphertext :: "byte list"

record session_kek =
  kek_keyId :: utf16
  kek_wrapped :: wrapped_key

record encrypted_bytes =
  en_nonce :: "byte list"
  en_ciphertext :: "byte list"
  en_tag :: "byte list"

record crypto_env =
  ce_fetch :: "nat \<Rightarrow> js_error + credentials"
  ce_fromBase :: "utf16 \<Rightarrow> byte list"

definition wrap :: "byte list \<Rightarrow> byte list \<Rightarrow> byte list \<Rightarrow> ('z world_scheme, wrapped_key) proc" where
  "wrap v key aad = bnd (draw GCM_NONCE_BYTES) (\<lambda>nonce. case gcm_encrypt key nonce aad v of (ct, tag) \<Rightarrow>
     ret \<lparr>wk_nonce = nonce, wk_ciphertext = ct @ tag\<rparr>)"

definition unwrap :: "wrapped_key \<Rightarrow> byte list \<Rightarrow> byte list \<Rightarrow> js_error + byte list" where
  "unwrap wrapped key aad =
     (if length (wk_nonce wrapped) \<noteq> GCM_NONCE_BYTES \<or> length (wk_ciphertext wrapped) \<noteq> KEY_BYTES + GCM_TAG_BYTES
      then Inl (Caisson SANDBOX_FAILED ''wrapped session snapshot key is invalid'')
      else case gcm_decrypt key (wk_nonce wrapped) aad (take KEY_BYTES (wk_ciphertext wrapped)) (drop KEY_BYTES (wk_ciphertext wrapped)) of
        None \<Rightarrow> Inl (Caisson SANDBOX_FAILED ''session snapshot key unwrap failed'')
      | Some v \<Rightarrow> Inr v)"

definition rootKek :: "crypto_env \<Rightarrow> utf16 option \<Rightarrow> ('z world_scheme, utf16 \<times> byte list) proc" where
  "rootKek env expectedKeyId = bnd (outside (ce_fetch env)) (\<lambda>credentials.
     let missing = throw (Caisson SECRET_UNAVAILABLE ''session snapshot wrapping key is unavailable'') in
     case credentials of
       SnapshotKekCredentials keyId key \<Rightarrow>
         if expectedKeyId \<noteq> None \<and> expectedKeyId \<noteq> Some keyId then missing
         else let bytes = ce_fromBase env (reveal key) in
           if length bytes \<noteq> KEY_BYTES then missing else ret (keyId, bytes)
     | _ \<Rightarrow> missing)"

definition kek_aad :: "utf16 \<Rightarrow> byte list" where
  "kek_aad keyId = utf8_encode (js ''caisson/session-kek/'' @ keyId)"

definition dek_aad :: "byte list" where
  "dek_aad = utf8_encode (js ''caisson/snapshot-dek'')"

definition createWrappedSessionKek :: "crypto_env \<Rightarrow> ('z world_scheme, session_kek) proc" where
  "createWrappedSessionKek env =
     bnd (draw KEY_BYTES) (\<lambda>sessionKek.
     bnd (rootKek env None) (\<lambda>(keyId, bytes).
     bnd (wrap sessionKek bytes (kek_aad keyId)) (\<lambda>wrapped.
       ret \<lparr>kek_keyId = keyId, kek_wrapped = wrapped\<rparr>)))"

definition unwrapSessionKek :: "crypto_env \<Rightarrow> session_kek \<Rightarrow> ('z world_scheme, byte list) proc" where
  "unwrapSessionKek env wrapped = bnd (rootKek env (Some (kek_keyId wrapped))) (\<lambda>(_, bytes).
     of_result (unwrap (kek_wrapped wrapped) bytes (kek_aad (kek_keyId wrapped))))"

definition unwrapSnapshotDek :: "crypto_env \<Rightarrow> session_kek \<Rightarrow> wrapped_key \<Rightarrow> ('z world_scheme, byte list) proc" where
  "unwrapSnapshotDek env sessionKek snapshotDek = bnd (unwrapSessionKek env sessionKek) (\<lambda>plain.
     of_result (unwrap snapshotDek plain dek_aad))"

definition createWrappedSnapshotDek :: "crypto_env \<Rightarrow> session_kek \<Rightarrow> ('z world_scheme, wrapped_key) proc" where
  "createWrappedSnapshotDek env sessionKek =
     bnd (unwrapSessionKek env sessionKek) (\<lambda>plain.
     bnd (draw KEY_BYTES) (\<lambda>snapshotDek. wrap snapshotDek plain dek_aad))"

definition encrypt :: "crypto_env \<Rightarrow> byte list \<Rightarrow> session_kek \<Rightarrow> wrapped_key \<Rightarrow> byte list \<Rightarrow> ('z world_scheme, encrypted_bytes) proc" where
  "encrypt env plain sessionKek snapshotDek aad =
     bnd (unwrapSnapshotDek env sessionKek snapshotDek) (\<lambda>dek.
     bnd (draw GCM_NONCE_BYTES) (\<lambda>nonce. case gcm_encrypt dek nonce aad plain of (ct, tag) \<Rightarrow>
       ret \<lparr>en_nonce = nonce, en_ciphertext = ct, en_tag = tag\<rparr>))"

definition decrypt :: "crypto_env \<Rightarrow> encrypted_bytes \<Rightarrow> session_kek \<Rightarrow> wrapped_key \<Rightarrow> byte list \<Rightarrow> ('z world_scheme, byte list) proc" where
  "decrypt env encrypted sessionKek snapshotDek aad =
     (if length (en_nonce encrypted) \<noteq> GCM_NONCE_BYTES \<or> length (en_tag encrypted) \<noteq> GCM_TAG_BYTES
      then throw (Caisson SANDBOX_FAILED ''session snapshot encryption metadata is invalid'')
      else bnd (unwrapSnapshotDek env sessionKek snapshotDek) (\<lambda>dek.
        of_result (case gcm_decrypt dek (en_nonce encrypted) aad (en_ciphertext encrypted) (en_tag encrypted) of
          None \<Rightarrow> Inl (Caisson SANDBOX_FAILED ''session snapshot decryption failed'')
        | Some v \<Rightarrow> Inr v)))"

section \<open>What is wrapped can be unwrapped\<close>

lemmas crypto_sizes = KEY_BYTES_def GCM_NONCE_BYTES_def GCM_TAG_BYTES_def

lemma draw_run: "\<exists>bs w'. draw n w = (Inr bs, w') \<and> length bs = n"
  by (simp add: draw_def randomBytes_def)

lemma wrap_run:
  assumes "length v = 32"
  shows "\<exists>x w'. wrap v key aad w = (Inr x, w') \<and> unwrap x key aad = Inr v"
proof -
  obtain nonce w' where d: "draw GCM_NONCE_BYTES w = (Inr nonce, w')" "length nonce = 12"
    using draw_run [of GCM_NONCE_BYTES w] by (auto simp: crypto_sizes)
  obtain ct tag where e: "gcm_encrypt key nonce aad v = (ct, tag)" by fastforce
  from gcm.enc_size [OF e] gcm.dec_enc [OF e] d e assms show ?thesis
    by (simp add: wrap_def bnd_def ret_def unwrap_def crypto_sizes)
qed

text \<open>The secret backend holds the root key.\<close>

definition root_available :: "crypto_env \<Rightarrow> utf16 \<Rightarrow> bool" where
  "root_available env keyId \<longleftrightarrow> (\<exists>key. length (ce_fromBase env (reveal key)) = KEY_BYTES
     \<and> (\<forall>n. ce_fetch env n = Inr (SnapshotKekCredentials keyId key)))"

lemma root_run:
  fixes env :: crypto_env
  assumes "root_available env keyId"
  obtains bytes where "\<And>x (w :: 'z world_scheme). x = None \<or> x = Some keyId \<Longrightarrow> \<exists>w'. rootKek env x w = (Inr (keyId, bytes), w')"
proof -
  obtain key where k: "length (ce_fromBase env (reveal key)) = KEY_BYTES"
    "\<And>n. ce_fetch env n = Inr (SnapshotKekCredentials keyId key)"
    using assms by (auto simp: root_available_def)
  show thesis
    by (rule that [of "ce_fromBase env (reveal key)"]) (auto simp: rootKek_def bnd_def outside_def k ret_def Let_def)
qed

lemma session_kek_run:
  fixes w :: "'z world_scheme"
  assumes "root_available env keyId"
  shows "\<exists>kek w' plain. createWrappedSessionKek env w = (Inr kek, w') \<and> length plain = 32
     \<and> (\<forall>v :: 'z world_scheme. \<exists>v'. unwrapSessionKek env kek v = (Inr plain, v'))"
proof -
  obtain bytes where R: "\<And>x (w :: 'z world_scheme). x = None \<or> x = Some keyId \<Longrightarrow> \<exists>w'. rootKek env x w = (Inr (keyId, bytes), w')"
    using root_run [OF assms] by blast
  obtain plain w1 where d: "draw KEY_BYTES w = (Inr plain, w1)" "length plain = 32"
    using draw_run [of KEY_BYTES w] by (auto simp: crypto_sizes)
  obtain w2 where r: "rootKek env None w1 = (Inr (keyId, bytes), w2)" using R by blast
  obtain x w3 where x: "wrap plain bytes (kek_aad keyId) w2 = (Inr x, w3)" "unwrap x bytes (kek_aad keyId) = Inr plain"
    using wrap_run [OF d(2)] by blast
  let ?kek = "\<lparr>kek_keyId = keyId, kek_wrapped = x\<rparr>"
  have "createWrappedSessionKek env w = (Inr ?kek, w3)"
    by (simp add: createWrappedSessionKek_def bnd_def d r x ret_def)
  moreover have "\<exists>v'. unwrapSessionKek env ?kek v = (Inr plain, v')" for v :: "'z world_scheme"
    using R [of "Some keyId" v] by (auto simp: unwrapSessionKek_def bnd_def of_result_def x(2))
  ultimately show ?thesis using d(2) by blast
qed

lemma snapshot_dek_run:
  fixes w :: "'z world_scheme"
  assumes "length plain = 32" and "\<And>v :: 'z world_scheme. \<exists>v'. unwrapSessionKek env kek v = (Inr plain, v')"
  shows "\<exists>x w' dek. createWrappedSnapshotDek env kek w = (Inr x, w') \<and> (\<forall>v :: 'z world_scheme. \<exists>v'. unwrapSnapshotDek env kek x v = (Inr dek, v'))"
proof -
  obtain w1 where u: "unwrapSessionKek env kek w = (Inr plain, w1)" using assms(2) by blast
  obtain dek w2 where d: "draw KEY_BYTES w1 = (Inr dek, w2)" "length dek = 32"
    using draw_run [of KEY_BYTES w1] by (auto simp: crypto_sizes)
  obtain x w3 where x: "wrap dek plain dek_aad w2 = (Inr x, w3)" "unwrap x plain dek_aad = Inr dek"
    using wrap_run [OF d(2)] by blast
  have "createWrappedSnapshotDek env kek w = (Inr x, w3)"
    by (simp add: createWrappedSnapshotDek_def bnd_def u d x)
  moreover have "\<exists>v'. unwrapSnapshotDek env kek x v = (Inr dek, v')" for v :: "'z world_scheme"
    using assms(2) [of v] by (auto simp: unwrapSnapshotDek_def bnd_def of_result_def x(2))
  ultimately show ?thesis by blast
qed

text \<open>(C21) A snapshot can be read back: with the root key in the backend, creating the session key, creating the snapshot key
  and encrypting all succeed, and at any later time decrypting with the stored wrappers gives the plaintext.\<close>

theorem snapshot_crypto_roundtrip:
  fixes w w1 w2 :: "'z world_scheme"
  assumes "root_available env keyId"
  shows "\<exists>kek dek e. fst (createWrappedSessionKek env w) = Inr kek \<and> fst (createWrappedSnapshotDek env kek w1) = Inr dek
     \<and> fst (encrypt env plain kek dek aad w2) = Inr e \<and> (\<forall>v :: 'z world_scheme. fst (decrypt env e kek dek aad v) = Inr plain)"
proof -
  obtain kek w' kp where k: "createWrappedSessionKek env w = (Inr kek, w')" "length kp = 32"
    "\<And>v :: 'z world_scheme. \<exists>v'. unwrapSessionKek env kek v = (Inr kp, v')" using session_kek_run [OF assms] by blast
  obtain x w1' dek where x: "createWrappedSnapshotDek env kek w1 = (Inr x, w1')"
    "\<And>v :: 'z world_scheme. \<exists>v'. unwrapSnapshotDek env kek x v = (Inr dek, v')" using snapshot_dek_run [OF k(2,3)] by blast
  obtain w3 where u: "unwrapSnapshotDek env kek x w2 = (Inr dek, w3)" using x(2) by blast
  obtain nonce w4 where d: "draw GCM_NONCE_BYTES w3 = (Inr nonce, w4)" "length nonce = 12"
    using draw_run [of GCM_NONCE_BYTES w3] by (auto simp: crypto_sizes)
  obtain ct tag where g: "gcm_encrypt dek nonce aad plain = (ct, tag)" by fastforce
  let ?e = "\<lparr>en_nonce = nonce, en_ciphertext = ct, en_tag = tag\<rparr>"
  have "encrypt env plain kek x aad w2 = (Inr ?e, w4)" by (simp add: encrypt_def bnd_def u d g ret_def)
  moreover have "fst (decrypt env ?e kek x aad v) = Inr plain" for v :: "'z world_scheme"
    using x(2) [of v] gcm.enc_size [OF g] gcm.dec_enc [OF g] d(2)
    by (auto simp: decrypt_def bnd_def of_result_def crypto_sizes)
  ultimately show ?thesis using k(1) x(1) by (metis fst_conv)
qed

definition demo_crypto :: crypto_env where
  "demo_crypto = \<lparr>ce_fetch = (\<lambda>_. Inr (SnapshotKekCredentials (js ''root-1'') (SecretString (js ''k'')))), ce_fromBase = (\<lambda>_. replicate 32 7)\<rparr>"

lemma demo_root: "root_available demo_crypto (js ''root-1'')"
  by (auto simp: root_available_def demo_crypto_def crypto_sizes intro: exI [of _ "SecretString (js ''k'')"])

theorem snapshot_crypto_roundtrip_witness:
  "\<exists>kek dek e. fst (createWrappedSessionKek demo_crypto demo_world) = Inr kek
     \<and> fst (createWrappedSnapshotDek demo_crypto kek demo_world) = Inr dek
     \<and> fst (encrypt demo_crypto [1, 2, 3] kek dek [] demo_world) = Inr e
     \<and> fst (decrypt demo_crypto e kek dek [] demo_enqueued) = Inr [1, 2, 3]"
  using snapshot_crypto_roundtrip [OF demo_root, of demo_world demo_world "[1, 2, 3]" "[]" demo_world] by blast

end
