(* ===== verification/Session_Snapshots.thy ===== *)
theory Session_Snapshots
  imports Snapshot_Crypto Action_Gate
begin

text \<open>
  \<^verbatim>\<open>apps/control-plane/src/session-snapshot-service.ts\<close>: capture of a session under the exclusive gate, restore, retention, and
  the erasure of keys before the physical deletion of objects. The isolation driver, the object stores and the
  callback that binds a restored transport are the options of the service and parameters here (\<open>snapshot_env\<close>).

  \<open>se_others\<close> is what other handlers do to the shared state while a call of this one is awaited.
\<close>

section \<open>Interfaces (isolation/src/types.ts)\<close>

record sandbox_spec =
  sp_id :: string
  sp_image :: string
  sp_entrypoint :: "string option"

record sandbox_handle =
  hd_id :: string
  hd_driver :: driver_kind

record prepared_sandbox =
  pp_handle :: sandbox_handle
  pp_transport :: peer

record resume_context =
  rc_lastAuditSeq :: int
  rc_lastActionId :: string
  rc_resumedAt :: int

record object_ref =
  ob_bucket :: string
  ob_key :: string
  ob_versionId :: "string option"
  ob_sha256 :: string
  ob_sizeBytes :: int

record snapshot_ref =
  rf_id :: string
  rf_kind :: snapshot_kind
  rf_manifest :: object_ref
  rf_manifestKeyId :: string
  rf_createdAt :: int
  rf_sessionId :: "string option"
  rf_baseSnapshotId :: "string option"

record local_snapshot =
  lo_id :: string
  lo_kind :: snapshot_kind
  lo_statePath :: string
  lo_memoryPath :: string
  lo_rootfsPath :: "string option"
  lo_kernelPath :: "string option"
  lo_createdAt :: int

record resolved_snapshot =
  rs_ref :: snapshot_ref
  rs_statePath :: string
  rs_memoryPath :: string
  rs_rootfsPath :: "string option"
  rs_kernelPath :: "string option"

record store_input =
  si_sessionId :: string
  si_baseSnapshotId :: string
  si_sessionKek :: session_kek
  si_snapshotDek :: wrapped_key

record snapshot_world = world +
  sw_gate :: gate

record 'w snapshot_env =
  se_crypto :: crypto_env
  se_snapshot :: "sandbox_handle \<Rightarrow> nat \<Rightarrow> js_error + local_snapshot"
  se_restore :: "resolved_snapshot \<Rightarrow> sandbox_spec \<Rightarrow> nat \<Rightarrow> js_error + prepared_sandbox"
  se_start :: "sandbox_handle \<Rightarrow> resume_context option \<Rightarrow> nat \<Rightarrow> js_error + unit"
  se_destroy :: "sandbox_handle \<Rightarrow> nat \<Rightarrow> js_error + unit"
  se_release :: "peer \<Rightarrow> nat \<Rightarrow> js_error + unit"
  se_store :: "local_snapshot \<Rightarrow> store_input \<Rightarrow> nat \<Rightarrow> js_error + snapshot_ref"
  se_resolve :: "snapshot_ref \<Rightarrow> store_input \<Rightarrow> resolved_snapshot \<Rightarrow> nat \<Rightarrow> js_error + resolved_snapshot"
  se_deleteObjects :: "snapshot_ref \<Rightarrow> nat \<Rightarrow> js_error + unit"
  se_baseResolve :: "snapshot_ref \<Rightarrow> nat \<Rightarrow> js_error + resolved_snapshot"
  se_baseRelease :: "snapshot_ref \<Rightarrow> nat \<Rightarrow> js_error + unit"
  se_bindRestored :: "string \<Rightarrow> prepared_sandbox \<Rightarrow> ('w, unit) proc"
  se_durationMs :: int
  se_count :: int
  se_drainTimeoutMs :: int
  se_others :: "nat \<Rightarrow> 'w \<Rightarrow> 'w"

section \<open>Configuration\<close>

text \<open>The constructor's checks.\<close>

definition check_options :: "'w snapshot_env \<Rightarrow> js_error + unit" where
  "check_options env =
     (if \<not> positive_safe (se_durationMs env) then Inl (Caisson SANDBOX_FAILED ''session snapshot retention duration configuration is invalid'')
      else if \<not> positive_safe (se_count env) then Inl (Caisson SANDBOX_FAILED ''session snapshot retention count configuration is invalid'')
      else if \<not> positive_safe (se_drainTimeoutMs env)
      then Inl (Caisson SANDBOX_FAILED ''session snapshot action-drain timeout configuration is invalid'')
      else Inr ())"

text \<open>\<^verbatim>\<open>Number.parseInt(s, 10)\<close>, none for \<^verbatim>\<open>NaN\<close>: leading white space, a sign, then digits up to the first other character.\<close>

definition parse_digits :: "utf16 \<Rightarrow> int option" where
  "parse_digits s = (let ds = takeWhile (\<lambda>u. 48 \<le> uint u \<and> uint u \<le> 57) s in
     if ds = [] then None else Some (fold (\<lambda>u n. 10 * n + (uint u - 48)) ds 0))"

definition parseInt10 :: "utf16 \<Rightarrow> int option" where
  "parseInt10 s = (case dropWhile is_space s of
     [] \<Rightarrow> None
   | u # r \<Rightarrow> if u = 45 then map_option uminus (parse_digits r) else if u = 43 then parse_digits r else parse_digits (u # r))"

definition positive_setting :: "(string \<rightharpoonup> utf16) \<Rightarrow> string \<Rightarrow> int option" where
  "positive_setting environment name = (case Option.bind (environment name) parseInt10 of
     None \<Rightarrow> None | Some n \<Rightarrow> if positive_safe n then Some n else None)"

definition retentionFromEnvironment :: "(string \<rightharpoonup> utf16) \<Rightarrow> js_error + int \<times> int" where
  "retentionFromEnvironment environment =
     (case (positive_setting environment ''CAISSON_SESSION_SNAPSHOT_RETENTION_MS'',
            positive_setting environment ''CAISSON_SESSION_SNAPSHOT_RETENTION_COUNT'') of
        (Some durationMs, Some retained) \<Rightarrow> Inr (durationMs, retained)
      | _ \<Rightarrow> Inl (Caisson SANDBOX_FAILED ''session snapshot retention configuration is missing or invalid''))"

definition captureDrainTimeoutFromEnvironment :: "(string \<rightharpoonup> utf16) \<Rightarrow> js_error + int" where
  "captureDrainTimeoutFromEnvironment environment =
     (case positive_setting environment ''CAISSON_SESSION_SNAPSHOT_DRAIN_TIMEOUT_MS'' of
        Some n \<Rightarrow> Inr n
      | None \<Rightarrow> Inl (Caisson SANDBOX_FAILED ''session snapshot action-drain timeout configuration is missing or invalid''))"

section \<open>Rows and references\<close>

definition toSnapshotRef :: "snapshot_row \<Rightarrow> snapshot_ref" where
  "toSnapshotRef row = (let own = (sn_kind row = Session \<and> sn_session_id row \<noteq> None \<and> sn_base_snapshot_id row \<noteq> None) in
     \<lparr>rf_id = sn_id row, rf_kind = sn_kind row,
      rf_manifest = \<lparr>ob_bucket = sn_bucket row, ob_key = sn_manifest_key row, ob_versionId = sn_manifest_version row,
        ob_sha256 = sn_manifest_sha256 row, ob_sizeBytes = sn_manifest_size_bytes row\<rparr>,
      rf_manifestKeyId = sn_manifest_key_id row, rf_createdAt = sn_built_at row,
      rf_sessionId = (if own then sn_session_id row else None), rf_baseSnapshotId = (if own then sn_base_snapshot_id row else None)\<rparr>)"

definition insert_session_key :: "session_key_row \<Rightarrow> unit statement" where
  "insert_session_key k d =
     (if sk_session_id k \<in> sk_session_id ` set (session_snapshot_keys d) \<or> sk_session_id k \<notin> sr_id ` set (sessions d)
      then Inl ForeignError else Inr ((), d\<lparr>session_snapshot_keys := session_snapshot_keys d @ [k]\<rparr>))"

definition insert_snapshot :: "snapshot_row \<Rightarrow> unit statement" where
  "insert_snapshot n d =
     (if sn_id n \<in> sn_id ` set (snapshots d) \<or> (case sn_session_id n of None \<Rightarrow> False | Some sid \<Rightarrow> sid \<notin> sr_id ` set (sessions d))
         \<or> (case sn_lineage_session_id n of None \<Rightarrow> False | Some sid \<Rightarrow> sid \<notin> sr_id ` set (sessions d))
      then Inl ForeignError else Inr ((), d\<lparr>snapshots := snapshots d @ [n]\<rparr>))"

definition insert_snapshot_key :: "snapshot_key_row \<Rightarrow> unit statement" where
  "insert_snapshot_key k d =
     (if nk_snapshot_id k \<in> nk_snapshot_id ` set (snapshot_keys d) \<or> nk_snapshot_id k \<notin> sn_id ` set (snapshots d)
         \<or> nk_session_id k \<notin> sr_id ` set (sessions d)
      then Inl ForeignError else Inr ((), d\<lparr>snapshot_keys := snapshot_keys d @ [k]\<rparr>))"

text \<open>\<^verbatim>\<open>ON CONFLICT (snapshot_id) DO NOTHING\<close>\<close>

definition queue_deletion :: "int \<Rightarrow> snapshot_row \<Rightarrow> string \<Rightarrow> unit statement" where
  "queue_deletion t n sid d =
     (if sn_id n \<in> dl_snapshot_id ` set (snapshot_deletion_outbox d) then Inr ((), d)
      else if sn_id n \<notin> sn_id ` set (snapshots d) \<or> sid \<notin> sr_id ` set (sessions d) then Inl ForeignError
      else Inr ((), d\<lparr>snapshot_deletion_outbox := snapshot_deletion_outbox d @
        [\<lparr>dl_snapshot_id = sn_id n, dl_session_id = sid, dl_bucket = sn_bucket n, dl_manifest_key = sn_manifest_key n,
          dl_attempts = 0, dl_last_error = None, dl_created_at = t, dl_completed_at = None\<rparr>]\<rparr>))"

definition set_deletion :: "deletion_state \<Rightarrow> (snapshot_row \<Rightarrow> bool) \<Rightarrow> db \<Rightarrow> db" where
  "set_deletion st p d = d\<lparr>snapshots := update_where p (\<lambda>n. n\<lparr>sn_deletion_state := st\<rparr>) (snapshots d)\<rparr>"

definition active_snapshot :: "string \<Rightarrow> snapshot_row \<Rightarrow> bool" where
  "active_snapshot sid n \<longleftrightarrow> sn_session_id n = Some sid \<and> sn_kind n = Session \<and> sn_deletion_state n = Retained"

definition remove_session_key :: "string \<Rightarrow> db \<Rightarrow> db" where
  "remove_session_key sid d = d\<lparr>session_snapshot_keys := filter (\<lambda>k. sk_session_id k \<noteq> sid) (session_snapshot_keys d)\<rparr>"

definition remove_snapshot_key :: "string \<Rightarrow> string \<Rightarrow> db \<Rightarrow> db" where
  "remove_snapshot_key i sid d =
     d\<lparr>snapshot_keys := filter (\<lambda>k. \<not> (nk_snapshot_id k = i \<and> nk_session_id k = sid)) (snapshot_keys d)\<rparr>"

section \<open>Keys\<close>

definition provisionSessionKey :: "crypto_env \<Rightarrow> string \<Rightarrow> ('z world_scheme, unit) proc" where
  "provisionSessionKey crypto sid = bnd (createWrappedSessionKek crypto) (\<lambda>kek.
     query (insert_session_key \<lparr>sk_session_id = sid, sk_root_kek_key_id = kek_keyId kek, sk_wrap_nonce = wk_nonce (kek_wrapped kek),
       sk_wrapped_session_kek = wk_ciphertext (kek_wrapped kek)\<rparr>))"

definition erased_key :: js_error where
  "erased_key = Caisson SANDBOX_FAILED ''session snapshot key has been erased''"

definition sessionKek :: "string \<Rightarrow> ('z world_scheme, session_kek) proc" where
  "sessionKek sid = bnd (query (select (\<lambda>d. filter (\<lambda>k. sk_session_id k = sid) (session_snapshot_keys d)))) (\<lambda>rows. case rows of
     [] \<Rightarrow> throw erased_key
   | k # _ \<Rightarrow> ret \<lparr>kek_keyId = sk_root_kek_key_id k,
       kek_wrapped = \<lparr>wk_nonce = sk_wrap_nonce k, wk_ciphertext = sk_wrapped_session_kek k\<rparr>\<rparr>)"

definition snapshotDek :: "string \<Rightarrow> string \<Rightarrow> ('z world_scheme, wrapped_key) proc" where
  "snapshotDek i sid = bnd (query (select (\<lambda>d. filter (\<lambda>k. nk_snapshot_id k = i \<and> nk_session_id k = sid) (snapshot_keys d)))) (\<lambda>rows.
     case rows of [] \<Rightarrow> throw erased_key | k # _ \<Rightarrow> ret \<lparr>wk_nonce = nk_wrap_nonce k, wk_ciphertext = nk_wrapped_dek k\<rparr>)"

text \<open>The outbox row with the greatest number; every payload carries a string \<^verbatim>\<open>actionId\<close>.\<close>

definition last_record :: "string \<Rightarrow> db \<Rightarrow> outbox_row list" where
  "last_record sid d = take 1 (rev (sort_key ob_seq (filter (\<lambda>r. ob_session_id r = sid) (audit_outbox d))))"

definition latestDurableAction :: "string \<Rightarrow> ('z world_scheme, int \<times> string) proc" where
  "latestDurableAction sid = bnd (query (select (last_record sid))) (\<lambda>rows. case rows of
     [] \<Rightarrow> throw (Caisson AUDIT_UNAVAILABLE ''durable suspension point is unavailable'')
   | r # _ \<Rightarrow> ret (ob_seq r, ap_actionId (ob_payload r)))"

section \<open>Erasure and retention\<close>

definition eraseSnapshot :: "snapshot_row \<Rightarrow> string \<Rightarrow> ('z world_scheme, unit) proc" where
  "eraseSnapshot n sid = transaction (bnd (gets now) (\<lambda>t.
     seq (query (update (remove_snapshot_key (sn_id n) sid)))
    (seq (query (update (set_deletion CryptoErased (\<lambda>m. sn_id m = sn_id n \<and> sn_deletion_state m = Retained))))
         (query (queue_deletion t n sid)))))"

definition retained_newest :: "string \<Rightarrow> db \<Rightarrow> snapshot_row list" where
  "retained_newest sid d = sort_key (\<lambda>n. - sn_built_at n) (filter (active_snapshot sid) (snapshots d))"

definition excess :: "int \<Rightarrow> int \<Rightarrow> snapshot_row list \<Rightarrow> snapshot_row list" where
  "excess cutoff count ns = map snd (filter (\<lambda>(i, n). sn_built_at n < cutoff \<or> count \<le> int i) (enumerate 0 ns))"

definition prune :: "('z world_scheme) snapshot_env \<Rightarrow> string \<Rightarrow> ('z world_scheme, unit) proc" where
  "prune env sid = bnd (gets now) (\<lambda>t. let cutoff = t - se_durationMs env in
     bnd (pause (se_others env) (query (select (retained_newest sid)))) (\<lambda>ns.
     for_each (excess cutoff (se_count env) ns) (\<lambda>n. pause (se_others env) (eraseSnapshot n sid))))"

definition eraseSession :: "string \<Rightarrow> ('z world_scheme, unit) proc" where
  "eraseSession sid = transaction (bnd (gets now) (\<lambda>t.
     seq (query (update (remove_session_key sid)))
    (bnd (query (select (\<lambda>d. filter (active_snapshot sid) (snapshots d)))) (\<lambda>ns.
       for_each ns (\<lambda>n. seq (query (update (set_deletion CryptoErased (\<lambda>m. sn_id m = sn_id n))))
         (query (queue_deletion t n sid)))))))"

definition pending_deletions :: "db \<Rightarrow> deletion_row list" where
  "pending_deletions d = sort_key dl_created_at (filter (\<lambda>r. dl_completed_at r = None) (snapshot_deletion_outbox d))"

definition update_deletion :: "string \<Rightarrow> (deletion_row \<Rightarrow> deletion_row) \<Rightarrow> unit statement" where
  "update_deletion i f d =
     (if \<exists>r \<in> set (snapshot_deletion_outbox d). dl_snapshot_id r = i \<and> \<not> int4 (dl_attempts (f r)) then Inl ForeignError
      else Inr ((), d\<lparr>snapshot_deletion_outbox := update_where (\<lambda>r. dl_snapshot_id r = i) f (snapshot_deletion_outbox d)\<rparr>))"

definition delete_physically :: "('z world_scheme) snapshot_env \<Rightarrow> deletion_row \<Rightarrow> ('z world_scheme, unit) proc" where
  "delete_physically env row = (let others = se_others env; i = dl_snapshot_id row in
     bnd (pause others (query (select (\<lambda>d. filter (\<lambda>n. sn_id n = i) (snapshots d))))) (\<lambda>rows.
     seq (case rows of [] \<Rightarrow> ret () | n # _ \<Rightarrow> pause others (outside (se_deleteObjects env (toSnapshotRef n))))
    (bnd (gets now) (\<lambda>t.
     seq (pause others (query (update_deletion i (\<lambda>r. r\<lparr>dl_completed_at := Some t, dl_last_error := None\<rparr>))))
         (pause others (query (update (set_deletion PhysicallyDeleted (\<lambda>n. sn_id n = i)))))))))"

definition retryPhysicalDeletion :: "('z world_scheme) snapshot_env \<Rightarrow> ('z world_scheme, unit) proc" where
  "retryPhysicalDeletion env = bnd (pause (se_others env) (query (select pending_deletions))) (\<lambda>rows.
     for_each rows (\<lambda>row. try_catch (delete_physically env row)
       (\<lambda>_. pause (se_others env) (query (update_deletion (dl_snapshot_id row)
          (\<lambda>r. r\<lparr>dl_attempts := dl_attempts r + 1, dl_last_error := Some ''physical deletion failed''\<rparr>))))))"

section \<open>Capture and restore\<close>

text \<open>
  \<^verbatim>\<open>actionGate.withExclusiveCapture\<close>: the gate is closed at once; the wait ends when the last lease is released while
  others run, or else by the timer.
\<close>

definition on_gate :: "(gate \<Rightarrow> (js_error + 'a) \<times> gate) \<Rightarrow> ('z snapshot_world_scheme, 'a) proc" where
  "on_gate f w = (case f (sw_gate w) of (r, g) \<Rightarrow> (r, w\<lparr>sw_gate := g\<rparr>))"

definition after_wait :: "nat \<Rightarrow> gate \<Rightarrow> (js_error + unit) \<times> gate" where
  "after_wait c g = (if cap_pc (captures g ! c) = Waiting
     then (Inl (Caisson SANDBOX_FAILED ''session snapshot action drain timed out without creating a snapshot''), drain_timeout c g)
     else (Inr (), begin_capture c g))"

definition withExclusiveCapture :: "('z snapshot_world_scheme) snapshot_env \<Rightarrow> string \<Rightarrow> ('z snapshot_world_scheme, 'a) proc
    \<Rightarrow> ('z snapshot_world_scheme, 'a) proc" where
  "withExclusiveCapture env sid work =
     bnd (on_gate (open_capture sid (se_drainTimeoutMs env))) (\<lambda>c.
       try_finally (seq (pause (se_others env) (ret ())) (seq (on_gate (after_wait c)) work))
         (on_gate (\<lambda>g. (Inr (), end_capture c g))))"

definition snapshot_of :: "string \<Rightarrow> string \<Rightarrow> snapshot_ref \<Rightarrow> int \<Rightarrow> int \<Rightarrow> string \<Rightarrow> snapshot_row" where
  "snapshot_of sid baseSnapshotId stored expiresAt seqNo actionId =
     \<lparr>sn_id = rf_id stored, sn_kind = Session, sn_session_id = Some sid, sn_bucket = ob_bucket (rf_manifest stored),
      sn_manifest_key = ob_key (rf_manifest stored), sn_manifest_version = ob_versionId (rf_manifest stored),
      sn_manifest_sha256 = ob_sha256 (rf_manifest stored), sn_manifest_size_bytes = ob_sizeBytes (rf_manifest stored),
      sn_manifest_key_id = rf_manifestKeyId stored, sn_built_at = rf_createdAt stored, sn_promoted_at = None,
      sn_expires_at = Some expiresAt, sn_base_snapshot_id = Some baseSnapshotId, sn_lineage_session_id = Some sid,
      sn_resume_audit_seq = Some seqNo, sn_resume_action_id = Some actionId, sn_deletion_state = Retained\<rparr>"

definition record_snapshot :: "('z snapshot_world_scheme) snapshot_env \<Rightarrow> string \<Rightarrow> string \<Rightarrow> snapshot_ref \<Rightarrow> wrapped_key \<Rightarrow> int \<times> string
    \<Rightarrow> ('z snapshot_world_scheme, unit) proc" where
  "record_snapshot env sid baseSnapshotId stored dek suspension = transaction (bnd (gets now) (\<lambda>t.
     seq (query (insert_snapshot (snapshot_of sid baseSnapshotId stored (t + se_durationMs env) (fst suspension) (snd suspension))))
         (query (insert_snapshot_key \<lparr>nk_snapshot_id = rf_id stored, nk_session_id = sid, nk_wrap_nonce = wk_nonce dek,
            nk_wrapped_dek = wk_ciphertext dek\<rparr>))))"

definition take_snapshot :: "('z snapshot_world_scheme) snapshot_env \<Rightarrow> string \<Rightarrow> prepared_sandbox \<Rightarrow> string
    \<Rightarrow> ('z snapshot_world_scheme, snapshot_ref) proc" where
  "take_snapshot env sid prepared baseSnapshotId = (let others = se_others env in
     bnd (pause others (latestDurableAction sid)) (\<lambda>suspension.
     bnd (pause others (sessionKek sid)) (\<lambda>kek.
     bnd (pause others (createWrappedSnapshotDek (se_crypto env) kek)) (\<lambda>dek.
     bnd (pause others (outside (se_snapshot env (pp_handle prepared)))) (\<lambda>local.
     bnd (pause others (outside (se_store env local
       \<lparr>si_sessionId = sid, si_baseSnapshotId = baseSnapshotId, si_sessionKek = kek, si_snapshotDek = dek\<rparr>))) (\<lambda>stored.
     seq (try_catch (pause others (record_snapshot env sid baseSnapshotId stored dek suspension))
            (\<lambda>e. seq (try_catch (pause others (outside (se_deleteObjects env stored))) (\<lambda>_. ret ())) (throw e)))
       (ret stored)))))))"

definition snapshot_capture :: "('z snapshot_world_scheme) snapshot_env \<Rightarrow> string \<Rightarrow> prepared_sandbox \<Rightarrow> string
    \<Rightarrow> ('z snapshot_world_scheme, snapshot_ref) proc" where
  "snapshot_capture env sid prepared baseSnapshotId =
     bnd (withExclusiveCapture env sid (take_snapshot env sid prepared baseSnapshotId)) (\<lambda>ref.
       seq (prune env sid) (ret ref))"

definition restore_rows :: "snapshot_ref \<Rightarrow> string \<Rightarrow> db \<Rightarrow> snapshot_row list" where
  "restore_rows ref sid d = filter (\<lambda>n. sn_id n = rf_id ref \<and> active_snapshot sid n) (snapshots d)"

definition resume_restored :: "('z snapshot_world_scheme) snapshot_env \<Rightarrow> string \<Rightarrow> prepared_sandbox \<Rightarrow> resolved_snapshot \<Rightarrow> resume_context
    \<Rightarrow> ('z snapshot_world_scheme, prepared_sandbox) proc" where
  "resume_restored env sid prepared base resume = (let others = se_others env in
     try_finally
       (try_catch
         (seq (pause others (se_bindRestored env sid prepared))
           (seq (pause others (outside (se_start env (pp_handle prepared) (Some resume)))) (ret prepared)))
         (\<lambda>e. seq (pause others (outside (se_destroy env (pp_handle prepared))))
           (seq (pause others (outside (se_release env (pp_transport prepared)))) (throw e))))
       (pause others (outside (se_baseRelease env (rs_ref base)))))"

definition snapshot_restore :: "('z snapshot_world_scheme) snapshot_env \<Rightarrow> snapshot_ref \<Rightarrow> string \<Rightarrow> sandbox_spec
    \<Rightarrow> ('z snapshot_world_scheme, prepared_sandbox) proc" where
  "snapshot_restore env ref sid spec = (let others = se_others env in
     case rf_baseSnapshotId ref of
       None \<Rightarrow> throw (Caisson SANDBOX_FAILED ''session snapshot restore lineage is invalid'')
     | Some baseId \<Rightarrow>
       if rf_kind ref \<noteq> Session \<or> rf_sessionId ref \<noteq> Some sid
       then throw (Caisson SANDBOX_FAILED ''session snapshot restore lineage is invalid'')
       else bnd (pause others (query (select (restore_rows ref sid)))) (\<lambda>rows.
         let missing = throw (Caisson SANDBOX_FAILED ''session snapshot suspension point is unavailable'') in
         case rows of [] \<Rightarrow> missing
         | stored # _ \<Rightarrow> (case (sn_resume_audit_seq stored, sn_resume_action_id stored) of
             (Some seqNo, Some actionId) \<Rightarrow>
               if sn_base_snapshot_id stored \<noteq> Some baseId then missing
               else bnd (pause others (query (select (\<lambda>d. filter (\<lambda>n. sn_id n = baseId \<and> sn_kind n = Base) (snapshots d))))) (\<lambda>bases.
                 case bases of [] \<Rightarrow> throw (Caisson SANDBOX_FAILED ''session snapshot base is unavailable'')
                 | base # _ \<Rightarrow>
                   bnd (pause others (outside (se_baseResolve env (toSnapshotRef base)))) (\<lambda>resolvedBase.
                   bnd (pause others (sessionKek sid)) (\<lambda>kek.
                   bnd (pause others (snapshotDek (rf_id ref) sid)) (\<lambda>dek.
                   bnd (pause others (outside (se_resolve env (toSnapshotRef stored)
                     \<lparr>si_sessionId = sid, si_baseSnapshotId = baseId, si_sessionKek = kek, si_snapshotDek = dek\<rparr> resolvedBase))) (\<lambda>resolved.
                   bnd (pause others (outside (se_restore env resolved spec))) (\<lambda>prepared.
                   bnd (gets now) (\<lambda>t.
                     resume_restored env sid prepared resolvedBase
                       \<lparr>rc_lastAuditSeq = seqNo, rc_lastActionId = actionId, rc_resumedAt = t\<rparr>)))))))
           | _ \<Rightarrow> missing)))"

end
