(* ===== verification/Snapshot_Protocol.thy ===== *)
theory Snapshot_Protocol
  imports Session_Snapshots
begin

text \<open>
  Why an erased snapshot stays erased: the invariant that ties session snapshots to their wrapped keys and to the deletion
  outbox, the protocol by which handlers share these tables, and the proof that the snapshot service keeps it under
  every failure and every interleaving that keeps it (locale \<open>snapshot_protocol\<close>).
\<close>

section \<open>The protocol of keys and deletions\<close>

definition has_kek :: "string \<Rightarrow> db \<Rightarrow> bool" where
  "has_kek sid d \<longleftrightarrow> sid \<in> sk_session_id ` set (session_snapshot_keys d)"

definition has_dek :: "string \<Rightarrow> string \<Rightarrow> db \<Rightarrow> bool" where
  "has_dek i sid d \<longleftrightarrow> (\<exists>k \<in> set (snapshot_keys d). nk_snapshot_id k = i \<and> nk_session_id k = sid)"

definition queued :: "string \<Rightarrow> db \<Rightarrow> bool" where
  "queued i d \<longleftrightarrow> i \<in> dl_snapshot_id ` set (snapshot_deletion_outbox d)"

text \<open>
  A session snapshot that is kept has its key; one that is not is queued for physical deletion, and one of the two wrappers
  that lead to its key is gone. Only such a snapshot is ever queued.
\<close>

definition snapshot_ok :: "db \<Rightarrow> snapshot_row \<Rightarrow> bool" where
  "snapshot_ok d n \<longleftrightarrow> (\<exists>sid. sn_session_id n = Some sid \<and> sid \<in> sr_id ` set (sessions d)
     \<and> (if sn_deletion_state n = Retained then has_dek (sn_id n) sid d
        else queued (sn_id n) d \<and> \<not> (has_dek (sn_id n) sid d \<and> has_kek sid d)))"

definition snap_inv :: "db \<Rightarrow> bool" where
  "snap_inv d \<longleftrightarrow> distinct (map sn_id (snapshots d)) \<and> (\<forall>n \<in> set (snapshots d). sn_kind n = Session \<longrightarrow> snapshot_ok d n)
     \<and> (\<forall>i. queued i d \<longrightarrow> (\<exists>n \<in> set (snapshots d). sn_id n = i \<and> sn_kind n = Session \<and> sn_deletion_state n \<noteq> Retained))"

text \<open>What a handler may do: keep the invariant, keep every row but its deletion state, never take back an erasure.\<close>

definition same_snapshot :: "snapshot_row \<Rightarrow> snapshot_row \<Rightarrow> bool" where
  "same_snapshot n m \<longleftrightarrow> sn_id m = sn_id n \<and> sn_kind m = sn_kind n \<and> sn_session_id m = sn_session_id n
     \<and> (sn_deletion_state n \<noteq> Retained \<longrightarrow> sn_deletion_state m \<noteq> Retained)"

definition snap_step :: "db \<Rightarrow> db \<Rightarrow> bool" where
  "snap_step d d' \<longleftrightarrow> (snap_inv d \<longrightarrow> snap_inv d')
     \<and> (\<forall>n \<in> set (snapshots d). \<exists>m \<in> set (snapshots d'). same_snapshot n m)
     \<and> (\<forall>i. queued i d \<longrightarrow> queued i d') \<and> sr_id ` set (sessions d) \<subseteq> sr_id ` set (sessions d')
     \<and> (\<forall>n \<in> set (snapshots d). \<forall>sid. has_dek (sn_id n) sid d' \<longrightarrow> has_dek (sn_id n) sid d)
     \<and> (\<forall>sid \<in> sr_id ` set (sessions d). has_kek sid d' \<longrightarrow> has_kek sid d)"

lemma same_snapshot_trans: "same_snapshot a b \<Longrightarrow> same_snapshot b c \<Longrightarrow> same_snapshot a c"
  by (auto simp: same_snapshot_def)

lemma snap_step_refl: "snap_step d d"
  by (auto simp: snap_step_def same_snapshot_def)

lemma snap_stepD:
  assumes "snap_step d d'"
  shows "snap_inv d \<Longrightarrow> snap_inv d'" "n \<in> set (snapshots d) \<Longrightarrow> \<exists>m \<in> set (snapshots d'). same_snapshot n m" "queued i d \<Longrightarrow> queued i d'"
    "sid \<in> sr_id ` set (sessions d) \<Longrightarrow> sid \<in> sr_id ` set (sessions d')"
    "n \<in> set (snapshots d) \<Longrightarrow> has_dek (sn_id n) sid d' \<Longrightarrow> has_dek (sn_id n) sid d"
    "sid \<in> sr_id ` set (sessions d) \<Longrightarrow> has_kek sid d' \<Longrightarrow> has_kek sid d"
  using assms unfolding snap_step_def by blast+

lemma snap_stepI:
  assumes "snap_inv d \<Longrightarrow> snap_inv d'" "\<And>n. n \<in> set (snapshots d) \<Longrightarrow> \<exists>m \<in> set (snapshots d'). same_snapshot n m"
    "\<And>i. queued i d \<Longrightarrow> queued i d'" "\<And>sid. sid \<in> sr_id ` set (sessions d) \<Longrightarrow> sid \<in> sr_id ` set (sessions d')"
    "\<And>n sid. n \<in> set (snapshots d) \<Longrightarrow> has_dek (sn_id n) sid d' \<Longrightarrow> has_dek (sn_id n) sid d"
    "\<And>sid. sid \<in> sr_id ` set (sessions d) \<Longrightarrow> has_kek sid d' \<Longrightarrow> has_kek sid d"
  shows "snap_step d d'"
  unfolding snap_step_def using assms by blast

lemma snap_step_trans:
  assumes 1: "snap_step d d'" and 2: "snap_step d' d''"
  shows "snap_step d d''"
proof (rule snap_stepI)
  fix n assume n: "n \<in> set (snapshots d)"
  then obtain m where m: "m \<in> set (snapshots d')" "same_snapshot n m" using snap_stepD(2) [OF 1] by blast
  then show "\<exists>m \<in> set (snapshots d''). same_snapshot n m" using snap_stepD(2) [OF 2] same_snapshot_trans by blast
  fix sid assume "has_dek (sn_id n) sid d''"
  with m have "has_dek (sn_id n) sid d'" using snap_stepD(5) [OF 2, of m] by (simp add: same_snapshot_def)
  then show "has_dek (sn_id n) sid d" using snap_stepD(5) [OF 1 n] by blast
next
  show "snap_inv d''" if "snap_inv d" using snap_stepD(1) [OF 2 snap_stepD(1) [OF 1 that]] .
  show "queued i d''" if "queued i d" for i using snap_stepD(3) [OF 2 snap_stepD(3) [OF 1 that]] .
  show "sid \<in> sr_id ` set (sessions d'')" if "sid \<in> sr_id ` set (sessions d)" for sid
    using snap_stepD(4) [OF 2 snap_stepD(4) [OF 1 that]] .
  show "has_kek sid d" if "sid \<in> sr_id ` set (sessions d)" "has_kek sid d''" for sid
    using snap_stepD(6) [OF 1 that(1) snap_stepD(6) [OF 2 snap_stepD(4) [OF 1 that(1)] that(2)]] .
qed

interpretation snap0: protocol snap_step
  by unfold_locales (fact snap_step_refl, fact snap_step_trans)

text \<open>The tables of the other components, which no statement of this one writes.\<close>

definition snap_frame :: "db \<Rightarrow> db \<Rightarrow> bool" where
  "snap_frame d d' \<longleftrightarrow> sessions d' = sessions d \<and> session_tokens d' = session_tokens d \<and> transport_bindings d' = transport_bindings d
     \<and> audit_outbox d' = audit_outbox d"

lemma snap_frame_trans: "snap_frame d d' \<Longrightarrow> snap_frame d' d'' \<Longrightarrow> snap_frame d d''"
  by (simp add: snap_frame_def)

lemma statement_frames:
  "snap_frame d d" "snap_frame d (set_deletion st p d)" "snap_frame d (remove_session_key sid d)" "snap_frame d (remove_snapshot_key i sid d)"
  "queue_deletion t n sid d = Inr (x, d') \<Longrightarrow> snap_frame d d'" "update_deletion i f d = Inr (x, d') \<Longrightarrow> snap_frame d d'"
  "insert_snapshot n d = Inr (x, d') \<Longrightarrow> snap_frame d d'" "insert_snapshot_key k d = Inr (x, d') \<Longrightarrow> snap_frame d d'"
  by (auto simp: snap_frame_def set_deletion_def remove_session_key_def remove_snapshot_key_def queue_deletion_def update_deletion_def
      insert_snapshot_def insert_snapshot_key_def split: if_splits)

section \<open>Every statement keeps it\<close>

lemma snap_inv_row: "snap_inv d \<Longrightarrow> n \<in> set (snapshots d) \<Longrightarrow> m \<in> set (snapshots d) \<Longrightarrow> sn_id n = sn_id m \<Longrightarrow> n = m"
  unfolding snap_inv_def by (metis distinct_map inj_onD)

definition belongs :: "string \<Rightarrow> string \<Rightarrow> db \<Rightarrow> bool" where
  "belongs i sid d \<longleftrightarrow> (\<exists>n \<in> set (snapshots d). sn_id n = i \<and> sn_kind n = Session \<and> sn_session_id n = Some sid)"

lemma stable_belongs: "stable snap_step (belongs i sid)"
proof (rule stableI)
  fix d d' assume b: "belongs i sid d" and s: "snap_step d d'"
  then obtain n where n: "n \<in> set (snapshots d)" "sn_id n = i" "sn_kind n = Session" "sn_session_id n = Some sid"
    by (auto simp: belongs_def)
  from snap_stepD(2) [OF s n(1)] n show "belongs i sid d'" by (auto simp: belongs_def same_snapshot_def)
qed

lemma stable_queued: "stable snap_step (queued i)"
  by (rule stableI) (simp add: snap_step_def)

definition erased :: "string \<Rightarrow> string \<Rightarrow> db \<Rightarrow> bool" where
  "erased i sid d \<longleftrightarrow> (\<exists>n \<in> set (snapshots d). sn_id n = i \<and> sn_deletion_state n \<noteq> Retained) \<and> \<not> has_dek i sid d \<and> queued i d"

lemma stable_erased: "stable snap_step (erased i sid)"
proof (rule stableI)
  fix d d' assume e: "erased i sid d" and s: "snap_step d d'"
  then obtain n where n: "n \<in> set (snapshots d)" "sn_id n = i" "sn_deletion_state n \<noteq> Retained" by (auto simp: erased_def)
  with snap_stepD(2) [OF s] obtain m where "m \<in> set (snapshots d')" "same_snapshot n m" by blast
  moreover have "\<not> has_dek i sid d'" using e n snap_stepD(5) [OF s n(1), of sid] by (auto simp: erased_def)
  moreover have "queued i d'" using e s by (simp add: erased_def snap_step_def)
  ultimately show "erased i sid d'" using n by (auto simp: erased_def same_snapshot_def)
qed

text \<open>The marking of one snapshot, with its entry in the deletion outbox, once a wrapper is gone.\<close>

lemma set_deletion_rows:
  "m \<in> set (snapshots (set_deletion st p d)) \<longleftrightarrow>
     (\<exists>n \<in> set (snapshots d). m = (if p n then n\<lparr>sn_deletion_state := st\<rparr> else n))"
proof -
  have "snapshots (set_deletion st p d) = map (\<lambda>n. if p n then n\<lparr>sn_deletion_state := st\<rparr> else n) (snapshots d)"
    by (simp add: set_deletion_def update_where_def)
  then show ?thesis by (simp only: set_map image_iff)
qed

lemma set_deletion_ids: "map sn_id (snapshots (set_deletion st p d)) = map sn_id (snapshots d)"
  by (simp add: set_deletion_def update_where_def o_def if_distrib cong: if_cong)

lemma set_deletion_other [simp]:
  "sessions (set_deletion st p d) = sessions d" "snapshot_keys (set_deletion st p d) = snapshot_keys d"
  "session_snapshot_keys (set_deletion st p d) = session_snapshot_keys d"
  "snapshot_deletion_outbox (set_deletion st p d) = snapshot_deletion_outbox d"
  by (simp_all add: set_deletion_def)


lemma queue_deletion_Inr:
  assumes "queue_deletion t n sid d = Inr (x, d')"
  shows "snapshots d' = snapshots d" "sessions d' = sessions d" "snapshot_keys d' = snapshot_keys d"
    "session_snapshot_keys d' = session_snapshot_keys d" "queued i d' \<longleftrightarrow> queued i d \<or> i = sn_id n"
  using assms by (auto simp: queue_deletion_def queued_def split: if_splits)

lemma erase_row:
  assumes inv: "snap_inv d" and b: "belongs i sid d"
    and same: "snapshots d0 = snapshots d" "sessions d0 = sessions d" "snapshot_deletion_outbox d0 = snapshot_deletion_outbox d"
    and dek: "\<And>j s. j \<noteq> i \<Longrightarrow> has_dek j s d0 = has_dek j s d" "\<And>s. has_dek i s d0 \<Longrightarrow> has_dek i s d"
    and kek: "\<And>s. has_kek s d0 \<Longrightarrow> has_kek s d" and gone: "\<not> (has_dek i sid d0 \<and> has_kek sid d0)"
    and p: "\<And>n. sn_id n = i \<Longrightarrow> sn_deletion_state n = Retained \<Longrightarrow> p n" "\<And>n. p n \<Longrightarrow> sn_id n = i"
    and q: "queue_deletion t n sid (set_deletion CryptoErased p d0) = Inr (x, d')" "sn_id n = i"
  shows "snap_step d d'" and "\<exists>m \<in> set (snapshots d'). sn_id m = i \<and> sn_deletion_state m \<noteq> Retained" and "queued i d'"
    and "\<And>m. m \<in> set (snapshots d') \<Longrightarrow> sn_deletion_state m = Retained \<Longrightarrow> m \<in> set (snapshots d)"
proof -
  define g where "g n = (if p n then n\<lparr>sn_deletion_state := CryptoErased\<rparr> else n)" for n
  have rows: "m \<in> set (snapshots d') \<longleftrightarrow> (\<exists>n \<in> set (snapshots d). m = g n)" for m
    by (simp only: queue_deletion_Inr(1) [OF q(1)] set_deletion_rows same g_def)
  have D: "has_dek j s d' = has_dek j s d0" "has_kek s d' = has_kek s d0" for j s
    using queue_deletion_Inr(3,4) [OF q(1)] by (simp_all add: has_dek_def has_kek_def)
  have Q: "queued j d' \<longleftrightarrow> queued j d \<or> j = i" for j
    using queue_deletion_Inr(5) [OF q(1), of j] q(2) same(3) by (simp add: queued_def)
  have S: "sessions d' = sessions d" using queue_deletion_Inr(2) [OF q(1)] same(2) by simp
  have f: "sn_id (g n) = sn_id n" "sn_kind (g n) = sn_kind n" "sn_session_id (g n) = sn_session_id n"
    "sn_id n = i \<Longrightarrow> sn_deletion_state (g n) \<noteq> Retained" "sn_id n \<noteq> i \<Longrightarrow> g n = n" for n
    by (simp_all add: g_def) (use p [of n] in blast)+
  obtain r where r: "r \<in> set (snapshots d)" "sn_id r = i" "sn_kind r = Session" "sn_session_id r = Some sid"
    using b by (auto simp: belongs_def)
  have fr: "g r \<in> set (snapshots d')" using rows r(1) by blast
  show "\<exists>m \<in> set (snapshots d'). sn_id m = i \<and> sn_deletion_state m \<noteq> Retained" using fr f(1,4) [of r] r(2) by metis
  show "queued i d'" using Q by simp
  show "m \<in> set (snapshots d)" if "m \<in> set (snapshots d')" "sn_deletion_state m = Retained" for m
    using that rows f(4,5) by metis
  have ok: "snapshot_ok d' (g n)" if n: "n \<in> set (snapshots d)" "sn_kind n = Session" for n
  proof (cases "sn_id n = i")
    case True
    then have "n = r" using snap_inv_row [OF inv n(1) r(1)] r(2) by simp
    then have "sn_session_id (g n) = Some sid" "sn_id (g n) = i" "sn_deletion_state (g n) \<noteq> Retained"
      using f(1,3,4) [of n] True r(4) by auto
    moreover have "sid \<in> sr_id ` set (sessions d')"
    proof -
      have "snapshot_ok d r" using inv r(1,3) by (simp add: snap_inv_def)
      then show ?thesis using r(4) S by (auto simp: snapshot_ok_def)
    qed
    ultimately show ?thesis unfolding snapshot_ok_def using Q gone D by simp
  next
    case False
    have "snapshot_ok d n" using inv n by (simp add: snap_inv_def)
    with False f(5) [OF False] D dek(1) [OF False] kek Q S show ?thesis unfolding snapshot_ok_def by metis
  qed
  have "snap_inv d'"
    unfolding snap_inv_def
  proof (intro conjI ballI allI impI)
    show "distinct (map sn_id (snapshots d'))"
      using inv by (simp add: queue_deletion_Inr(1) [OF q(1)] set_deletion_ids same snap_inv_def)
    show "snapshot_ok d' m" if "m \<in> set (snapshots d')" "sn_kind m = Session" for m
      using that ok rows f(2) by metis
    show "\<exists>m \<in> set (snapshots d'). sn_id m = j \<and> sn_kind m = Session \<and> sn_deletion_state m \<noteq> Retained" if "queued j d'" for j
    proof (cases "j = i")
      case True
      then show ?thesis using fr f(1,2,4) [of r] r(2,3) by metis
    next
      case False
      with that Q inv obtain n where "n \<in> set (snapshots d)" "sn_id n = j" "sn_kind n = Session" "sn_deletion_state n \<noteq> Retained"
        by (auto simp: snap_inv_def)
      with rows f(5) False show ?thesis by metis
    qed
  qed
  moreover have "same_snapshot n (g n)" for n by (simp add: same_snapshot_def g_def)
  ultimately show "snap_step d d'"
    using rows Q S D dek kek by (intro snap_stepI) metis+
qed


lemma stable_snap_inv: "stable snap_step snap_inv"
  by (rule stableI) (erule (1) snap_stepD(1) [rotated])

lemma triple_update: "triple (\<lambda>w. db w = d) (query (update f)) (\<lambda>_ w. db w = f d) (\<lambda>_ _. True)"
  by (rule triple_query) (auto simp: update_def)

lemma triple_now: "triple P (gets f) (\<lambda>_. P) (\<lambda>_ _. True)"
  by (simp add: triple_def gets_def)

lemma snap_step_remove_kek: "snap_inv d \<Longrightarrow> snap_step d (remove_session_key sid d)"
proof (rule snap_stepI)
  let ?d = "remove_session_key sid d"
  have k: "has_kek s ?d \<Longrightarrow> has_kek s d" for s by (auto simp: has_kek_def remove_session_key_def)
  have s: "snapshots ?d = snapshots d" "sessions ?d = sessions d" "has_dek i t ?d = has_dek i t d" "queued i ?d = queued i d" for i t
    by (simp_all add: remove_session_key_def has_dek_def queued_def)
  show "snap_inv ?d" if "snap_inv d"
    using that k unfolding snap_inv_def snapshot_ok_def s by metis
  show "\<exists>m \<in> set (snapshots ?d). same_snapshot n m" if "n \<in> set (snapshots d)" for n
    using that s by (auto simp: same_snapshot_def)
qed (auto simp: has_kek_def has_dek_def queued_def remove_session_key_def)


text \<open>The loop of \<^verbatim>\<open>eraseSession\<close>: which of the snapshots read are marked so far.\<close>

definition erasing :: "db \<Rightarrow> string \<Rightarrow> snapshot_row list \<Rightarrow> snapshot_row list \<Rightarrow> db \<Rightarrow> bool" where
  "erasing d0 sid ns done d \<longleftrightarrow> snap_step d0 d \<and> snap_frame d0 d \<and> snap_inv d \<and> \<not> has_kek sid d \<and> (\<forall>n \<in> set ns. belongs (sn_id n) sid d)
     \<and> (\<forall>n \<in> set done. \<exists>m \<in> set (snapshots d). sn_id m = sn_id n \<and> sn_deletion_state m \<noteq> Retained)
     \<and> (\<forall>m \<in> set (snapshots d). active_snapshot sid m \<longrightarrow> sn_id m \<in> sn_id ` set ns)"

lemma erasing_row:
  assumes e: "erasing d0 sid ns done d" and n: "n \<in> set ns"
    and q: "queue_deletion t n sid (set_deletion CryptoErased (\<lambda>m. sn_id m = sn_id n) d) = Inr (x, d')"
  shows "erasing d0 sid ns (done @ [n]) d'"
proof -
  have inv: "snap_inv d" and b: "belongs (sn_id n) sid d" and k: "\<not> has_kek sid d" using e n by (auto simp: erasing_def)
  note E = erase_row [OF inv b, of d "\<lambda>m. sn_id m = sn_id n" t n "()" d', simplified, OF _ q [simplified]]
  have step: "snap_step d d'" using E(1) k by blast
  have mine: "\<exists>m \<in> set (snapshots d'). sn_id m = sn_id n \<and> sn_deletion_state m \<noteq> Retained" using E(2) k by blast
  have old: "m \<in> set (snapshots d)" if "m \<in> set (snapshots d')" "sn_deletion_state m = Retained" for m using E(4) k that by blast
  have rest: "\<exists>m \<in> set (snapshots d'). sn_id m = sn_id j \<and> sn_deletion_state m \<noteq> Retained" if j: "j \<in> set done" for j
  proof -
    obtain m where m: "m \<in> set (snapshots d)" "sn_id m = sn_id j" "sn_deletion_state m \<noteq> Retained"
      using e j by (auto simp: erasing_def)
    with snap_stepD(2) [OF step m(1)] show ?thesis by (auto simp: same_snapshot_def)
  qed
  have "has_kek sid d' = has_kek sid d"
    using queue_deletion_Inr(4) [OF q] by (simp add: has_kek_def)
  moreover have "belongs (sn_id j) sid d'" if "j \<in> set ns" for j
    using that e stableD [OF stable_belongs _ step] by (simp add: erasing_def)
  moreover have "sn_id m \<in> sn_id ` set ns" if "m \<in> set (snapshots d')" "active_snapshot sid m" for m
    using that old [of m] e by (simp add: erasing_def active_snapshot_def)
  moreover have "snap_frame d0 d'"
    using e snap_frame_trans [OF snap_frame_trans [OF _ statement_frames(2)] statement_frames(5) [OF q]] by (simp add: erasing_def)
  ultimately show ?thesis
    using e k mine rest step snap_stepD(1) [OF step inv] snap_step_trans by (auto simp: erasing_def)
qed

lemma erasing_start:
  assumes "snap_inv d"
  shows "erasing d sid (filter (active_snapshot sid) (snapshots d)) [] (remove_session_key sid d)"
proof -
  let ?d = "remove_session_key sid d"
  have s: "snapshots ?d = snapshots d" "\<not> has_kek sid ?d" by (auto simp: remove_session_key_def has_kek_def)
  have "snap_step d ?d" by (rule snap_step_remove_kek [OF assms])
  with snap_stepD(1) [OF this assms] s statement_frames(3) show ?thesis
    by (auto simp: erasing_def belongs_def active_snapshot_def)
qed

lemma erasing_end:
  assumes "erasing d sid ns ns d'" and "m \<in> set (snapshots d')"
  shows "\<not> active_snapshot sid m"
proof
  assume a: "active_snapshot sid m"
  then obtain n where n: "n \<in> set ns" "sn_id m = sn_id n" using assms by (auto simp: erasing_def)
  then obtain k where k: "k \<in> set (snapshots d')" "sn_id k = sn_id n" "sn_deletion_state k \<noteq> Retained"
    using assms(1) by (auto simp: erasing_def)
  have "k = m" by (rule snap_inv_row [OF _ k(1) assms(2)]) (use assms(1) k n in \<open>auto simp: erasing_def\<close>)
  with k a show False by (simp add: active_snapshot_def)
qed

text \<open>Statements that touch no row of these tables, or only bookkeeping.\<close>

lemma snap_step_same:
  assumes "snapshots d' = snapshots d" "sr_id ` set (sessions d') = sr_id ` set (sessions d)" "snapshot_keys d' = snapshot_keys d"
    "session_snapshot_keys d' = session_snapshot_keys d"
    "dl_snapshot_id ` set (snapshot_deletion_outbox d') = dl_snapshot_id ` set (snapshot_deletion_outbox d)"
  shows "snap_step d d'"
proof (rule snap_stepI)
  have k: "has_kek s d' = has_kek s d" "has_dek i s d' = has_dek i s d" "queued i d' = queued i d" for s i
    using assms by (simp_all add: has_kek_def has_dek_def queued_def)
  show "snap_inv d'" if "snap_inv d" using that unfolding snap_inv_def snapshot_ok_def k assms .
  show "\<exists>m \<in> set (snapshots d'). same_snapshot n m" if "n \<in> set (snapshots d)" for n
    using that assms(1) by (auto simp: same_snapshot_def)
qed (use assms in \<open>auto simp: has_kek_def has_dek_def queued_def\<close>)

lemma update_deletion_step:
  assumes "update_deletion i f d = Inr (x, d')" and "\<And>r. dl_snapshot_id (f r) = dl_snapshot_id r"
  shows "snap_step d d'"
proof -
  have "d' = d\<lparr>snapshot_deletion_outbox := update_where (\<lambda>r. dl_snapshot_id r = i) f (snapshot_deletion_outbox d)\<rparr>"
    using assms(1) by (simp add: update_deletion_def split: if_splits)
  then show ?thesis
    by (intro snap_step_same) (simp_all add: image_update_where [of dl_snapshot_id f, OF assms(2)])
qed

lemma physically_deleted_step:
  assumes inv: "snap_inv d" and q: "queued i d"
  shows "snap_step d (set_deletion PhysicallyDeleted (\<lambda>n. sn_id n = i) d)"
proof -
  let ?d = "set_deletion PhysicallyDeleted (\<lambda>n. sn_id n = i) d"
  define g where "g n = (if sn_id n = i then n\<lparr>sn_deletion_state := PhysicallyDeleted\<rparr> else n)" for n :: snapshot_row
  have rows: "m \<in> set (snapshots ?d) \<longleftrightarrow> (\<exists>n \<in> set (snapshots d). m = g n)" for m
    by (simp only: set_deletion_rows g_def)
  obtain r where r: "r \<in> set (snapshots d)" "sn_id r = i" "sn_deletion_state r \<noteq> Retained"
    using inv q by (auto simp: snap_inv_def)
  have g: "same_snapshot n (g n)" "sn_id (g n) = sn_id n" "sn_kind (g n) = sn_kind n" "sn_session_id (g n) = sn_session_id n" for n
    by (simp_all add: g_def same_snapshot_def)
  have st: "sn_deletion_state (g n) = Retained \<longleftrightarrow> sn_deletion_state n = Retained" if "n \<in> set (snapshots d)" for n
    using r snap_inv_row [OF inv that r(1)] by (auto simp: g_def)
  have k: "has_kek s ?d = has_kek s d" "has_dek j s ?d = has_dek j s d" "queued j ?d = queued j d" for s j
    by (simp_all add: has_kek_def has_dek_def queued_def)
  have ok: "snapshot_ok ?d (g n)" if "n \<in> set (snapshots d)" "snapshot_ok d n" for n
    using that(2) unfolding snapshot_ok_def st [OF that(1)] g(2,4) k set_deletion_other(1) .
  have "snap_inv ?d"
    unfolding snap_inv_def
  proof (intro conjI ballI allI impI)
    show "distinct (map sn_id (snapshots ?d))" using inv by (simp add: set_deletion_ids snap_inv_def)
    show "snapshot_ok ?d m" if m: "m \<in> set (snapshots ?d)" "sn_kind m = Session" for m
    proof -
      obtain n where n: "n \<in> set (snapshots d)" "m = g n" using m(1) rows by blast
      then have "snapshot_ok d n" using inv m(2) g(3) [of n] by (simp add: snap_inv_def)
      with ok n show ?thesis by simp
    qed
    show "\<exists>m \<in> set (snapshots ?d). sn_id m = j \<and> sn_kind m = Session \<and> sn_deletion_state m \<noteq> Retained" if qj: "queued j ?d" for j
    proof -
      obtain n where n: "n \<in> set (snapshots d)" "sn_id n = j" "sn_kind n = Session" "sn_deletion_state n \<noteq> Retained"
        using qj inv unfolding k snap_inv_def by blast
      with rows st [OF n(1)] g(2,3) [of n] show ?thesis by (intro bexI [of _ "g n"]) auto
    qed
  qed
  then show ?thesis
    using rows g(1) k by (intro snap_stepI) auto
qed

lemma record_step:
  assumes s: "insert_snapshot n d = Inr (x, d1)" and k: "insert_snapshot_key k d1 = Inr (y, d')"
    and n: "sn_id n = nk_snapshot_id k" "sn_session_id n = Some (nk_session_id k)" "sn_deletion_state n = Retained"
  shows "snap_step d d'"
proof (rule snap_stepI)
  have new: "sn_id n \<notin> sn_id ` set (snapshots d)" and sid: "nk_session_id k \<in> sr_id ` set (sessions d)"
    and d1: "d1 = d\<lparr>snapshots := snapshots d @ [n]\<rparr>"
    using s n(2) by (auto simp: insert_snapshot_def split: if_splits)
  have d': "d' = d1\<lparr>snapshot_keys := snapshot_keys d1 @ [k]\<rparr>"
    using k by (auto simp: insert_snapshot_key_def split: if_splits)
  have K: "has_kek s d' = has_kek s d" "queued i d' = queued i d" for s i
    by (simp_all add: d' d1 has_kek_def queued_def)
  have D: "has_dek i s d' \<longleftrightarrow> has_dek i s d \<or> i = sn_id n \<and> s = nk_session_id k" for i s
    by (auto simp: d' d1 has_dek_def n)
  have S: "sessions d' = sessions d" "snapshots d' = snapshots d @ [n]" by (simp_all add: d' d1)
  show "snap_inv d'" if inv: "snap_inv d"
  proof -
    have "snapshot_ok d' m" if m: "m \<in> set (snapshots d)" "sn_kind m = Session" for m
    proof -
      have "sn_id m \<noteq> sn_id n" using new m(1) by (metis imageI)
      moreover have "snapshot_ok d m" using inv m by (simp add: snap_inv_def)
      ultimately show ?thesis using K D S by (auto simp: snapshot_ok_def)
    qed
    moreover have "snapshot_ok d' n" using n sid D S by (simp add: snapshot_ok_def)
    ultimately show ?thesis
      using inv new S K by (auto simp: snap_inv_def)
  qed
  show "\<exists>m \<in> set (snapshots d'). same_snapshot j m" if "j \<in> set (snapshots d)" for j
    using that S by (intro bexI [of _ j]) (auto simp: same_snapshot_def)
  show "has_dek (sn_id j) s d" if "j \<in> set (snapshots d)" "has_dek (sn_id j) s d'" for j s
    using that new D by (metis imageI)
  show "queued i d'" if "queued i d" for i using that K by simp
  show "i \<in> sr_id ` set (sessions d')" if "i \<in> sr_id ` set (sessions d)" for i using that S by simp
  show "has_kek i d" if "has_kek i d'" for i using that K by simp
qed



lemma db_draw: "draw n w = (r, w') \<Longrightarrow> db w' = db w"
  by (auto simp: draw_def randomBytes_def)

lemma db_select: "query (select f) w = (r, w') \<Longrightarrow> db w' = db w"
  by (erule query_cases) (auto simp: select_def)

lemma db_outside: "outside f w = (r, w') \<Longrightarrow> db w' = db w"
  by (auto simp: outside_def)

lemma db_bnd: "bnd m f w = (r, w') \<Longrightarrow> (\<And>w r w'. m w = (r, w') \<Longrightarrow> db w' = db w) \<Longrightarrow> (\<And>x w r w'. f x w = (r, w') \<Longrightarrow> db w' = db w) \<Longrightarrow>
    db w' = db w"
  by (erule bndE) metis+

lemma db_rootKek: "rootKek env x w = (r, w') \<Longrightarrow> db w' = db w"
  unfolding rootKek_def by (erule db_bnd, erule db_outside) (auto simp: Let_def proc_defs split: credentials.splits if_splits)

lemma db_unwrapSessionKek: "unwrapSessionKek env kek w = (r, w') \<Longrightarrow> db w' = db w"
  unfolding unwrapSessionKek_def by (erule db_bnd, erule db_rootKek) (auto simp: proc_defs split: prod.splits)

lemma db_wrap: "wrap v key aad w = (r, w') \<Longrightarrow> db w' = db w"
  unfolding wrap_def by (erule db_bnd, erule db_draw) (auto simp: proc_defs split: prod.splits)

lemma db_createDek: "createWrappedSnapshotDek env kek w = (r, w') \<Longrightarrow> db w' = db w"
  unfolding createWrappedSnapshotDek_def by (erule db_bnd, erule db_unwrapSessionKek) (erule db_bnd, erule db_draw, erule db_wrap)

lemma db_createKek: "createWrappedSessionKek env w = (r, w') \<Longrightarrow> db w' = db w"
  unfolding createWrappedSessionKek_def
  by (erule db_bnd, erule db_draw, erule db_bnd, erule db_rootKek) (auto simp: proc_defs dest: db_wrap split: prod.splits sum.splits)

lemma db_latest: "latestDurableAction sid w = (r, w') \<Longrightarrow> db w' = db w"
  unfolding latestDurableAction_def by (erule db_bnd, erule db_select) (auto simp: proc_defs split: list.splits)

lemma db_sessionKek: "sessionKek sid w = (r, w') \<Longrightarrow> db w' = db w"
  unfolding sessionKek_def by (erule db_bnd, erule db_select) (auto simp: proc_defs split: list.splits)

section \<open>Every handler keeps it\<close>

text \<open>
  A protocol under which the service runs: it implies that of the service, and allows whatever that one allows on the
  tables of the service alone.
\<close>

locale snapshot_protocol = protocol +
  assumes within: "R d d' \<Longrightarrow> snap_step d d'" and covers: "snap_inv d \<Longrightarrow> snap_step d d' \<Longrightarrow> snap_frame d d' \<Longrightarrow> R d d'"
begin

lemma stable_snap: "stable snap_step P \<Longrightarrow> stable R P"
  unfolding stable_def using within by blast

lemmas stables = stable_snap [OF stable_snap_inv] stable_snap [OF stable_belongs] stable_snap [OF stable_queued] stable_snap [OF stable_erased]

lemma guar_eraseSnapshot:
  assumes i: "i = sn_id n"
  shows "guar R (\<lambda>d. snap_inv d \<and> belongs i sid d) (eraseSnapshot n sid) (\<lambda>_. erased i sid)"
  unfolding eraseSnapshot_def
proof (rule guar_transaction, rule triple_bnd [OF triple_now], rule triple_bnd [OF triple_update], rule triple_bnd [OF triple_update],
    rule triple_query)
  fix d t x d' and w :: "'z world_scheme"
  assume d: "snap_inv d \<and> belongs i sid d"
  let ?p = "\<lambda>m. sn_id m = sn_id n \<and> sn_deletion_state m = Retained" and ?d = "remove_snapshot_key (sn_id n) sid d"
  assume w: "db w = set_deletion CryptoErased ?p ?d" and q: "queue_deletion t n sid (db w) = Inr (x, d')"
  have gone: "\<not> has_dek i sid ?d" by (auto simp: has_dek_def remove_snapshot_key_def i)
  note E = erase_row [of d i sid ?d ?p t n x d']
  have step: "snap_step d d'" "\<exists>m \<in> set (snapshots d'). sn_id m = i \<and> sn_deletion_state m \<noteq> Retained" "queued i d'"
    by (rule E; (use d q w gone in \<open>auto simp: has_dek_def has_kek_def remove_snapshot_key_def i\<close>)?)+
  have "snap_frame d d'" using statement_frames(2,4,5) q w snap_frame_trans by metis
  with d step have "R d d'" by (blast intro: covers)
  moreover have "has_dek i sid d' = has_dek i sid ?d"
    using queue_deletion_Inr(3) [OF q] w by (simp add: has_dek_def)
  ultimately show "R d (db (w\<lparr>calls := Suc (calls w), db := d'\<rparr>)) \<and> erased i sid (db (w\<lparr>calls := Suc (calls w), db := d'\<rparr>))"
    using gone step by (simp add: erased_def)
qed

lemma guar_eraseSession:
  "guar R snap_inv (eraseSession sid) (\<lambda>_ d. \<not> has_kek sid d \<and> (\<forall>n \<in> set (snapshots d). \<not> active_snapshot sid n))"
  unfolding eraseSession_def
proof (rule guar_transaction, rule triple_bnd [OF triple_now], rule triple_bnd [OF triple_update])
  fix d t assume inv: "snap_inv d"
  let ?sel = "\<lambda>d. filter (active_snapshot sid) (snapshots d)" and ?d = "remove_session_key sid d"
  have same: "?sel ?d = ?sel d" by (simp add: remove_session_key_def)
  show "triple (\<lambda>w :: 'z world_scheme. db w = ?d)
    (bnd (query (select ?sel)) (\<lambda>ns. for_each ns (\<lambda>n. seq (query (update (set_deletion CryptoErased (\<lambda>m. sn_id m = sn_id n))))
       (query (queue_deletion t n sid)))))
    (\<lambda>_ w. R d (db w) \<and> \<not> has_kek sid (db w) \<and> (\<forall>n \<in> set (snapshots (db w)). \<not> active_snapshot sid n)) (\<lambda>_ _. True)"
  proof (rule triple_bnd)
    show "triple (\<lambda>w :: 'z world_scheme. db w = ?d) (query (select ?sel)) (\<lambda>ns w. ns = ?sel d \<and> erasing d sid (?sel d) [] (db w)) (\<lambda>_ _. True)"
      by (rule triple_query) (use erasing_start [OF inv, of sid] same in \<open>auto simp: select_def\<close>)
    fix ns
    have "triple (\<lambda>w :: 'z world_scheme. erasing d sid ns [] (db w))
      (for_each ns (\<lambda>n. seq (query (update (set_deletion CryptoErased (\<lambda>m. sn_id m = sn_id n)))) (query (queue_deletion t n sid))))
      (\<lambda>_ w. erasing d sid ns ns (db w)) (\<lambda>_ _. True)"
    proof (rule triple_for_each, rule triple_bnd)
      fix ys n zs assume n: "ns = ys @ n # zs"
      let ?f = "set_deletion CryptoErased (\<lambda>m. sn_id m = sn_id n)"
      show "triple (\<lambda>w :: 'z world_scheme. erasing d sid ns ys (db w)) (query (update ?f))
          (\<lambda>_ w. \<exists>d1. erasing d sid ns ys d1 \<and> db w = ?f d1) (\<lambda>_ _. True)"
        by (rule triple_query) (auto simp: update_def)
      show "triple (\<lambda>w :: 'z world_scheme. \<exists>d1. erasing d sid ns ys d1 \<and> db w = ?f d1) (query (queue_deletion t n sid))
          (\<lambda>_ w. erasing d sid ns (ys @ [n]) (db w)) (\<lambda>_ _. True)"
        by (rule triple_query) (use n in \<open>auto intro: erasing_row\<close>)
    qed
    then show "triple (\<lambda>w :: 'z world_scheme. ns = ?sel d \<and> erasing d sid (?sel d) [] (db w))
      (for_each ns (\<lambda>n. seq (query (update (set_deletion CryptoErased (\<lambda>m. sn_id m = sn_id n)))) (query (queue_deletion t n sid))))
      (\<lambda>_ w. R d (db w) \<and> \<not> has_kek sid (db w) \<and> (\<forall>n \<in> set (snapshots (db w)). \<not> active_snapshot sid n)) (\<lambda>_ _. True)"
      by (rule triple_conseq) (use erasing_end inv in \<open>auto simp: erasing_def [where done = "[]"]\<close>, auto simp: erasing_def intro: covers)
  qed
qed


lemma guar_record: "guar R snap_inv (record_snapshot env sid base stored dek suspension) (\<lambda>_. snap_inv)"
  unfolding record_snapshot_def
proof (rule guar_transaction, rule triple_bnd [OF triple_now], rule triple_bnd)
  fix d t assume inv: "snap_inv d"
  let ?n = "snapshot_of sid base stored (t + se_durationMs env) (fst suspension) (snd suspension)"
  let ?k = "\<lparr>nk_snapshot_id = rf_id stored, nk_session_id = sid, nk_wrap_nonce = wk_nonce dek, nk_wrapped_dek = wk_ciphertext dek\<rparr>"
  show "triple (\<lambda>w :: 'a snapshot_world_scheme. db w = d) (query (insert_snapshot ?n)) (\<lambda>_ w. insert_snapshot ?n d = Inr ((), db w)) (\<lambda>_ _. True)"
    by (rule triple_query) auto
  have "R d d' \<and> snap_inv d'" if i: "insert_snapshot ?n d = Inr ((), d1)" "insert_snapshot_key ?k d1 = Inr (y, d')" for d1 y d'
  proof -
    have "snap_step d d'" by (rule record_step [OF i]) (simp_all add: snapshot_of_def)
    moreover have "snap_frame d d'" using statement_frames(7) [OF i(1)] statement_frames(8) [OF i(2)] snap_frame_trans by blast
    ultimately show ?thesis using inv covers snap_stepD(1) by blast
  qed
  with inv show "triple (\<lambda>w :: 'a snapshot_world_scheme. insert_snapshot ?n d = Inr ((), db w)) (query (insert_snapshot_key ?k))
      (\<lambda>_ w. R d (db w) \<and> snap_inv (db w)) (\<lambda>_ _. True)"
    by (intro triple_query) auto
qed

text \<open>The body of \<^verbatim>\<open>prune\<close> once the clock has been read: what was in excess is erased.\<close>

lemma guar_prune_body:
  fixes env :: "('z world_scheme) snapshot_env"
  assumes "keep R (se_others env)"
  shows "guar R (\<lambda>d. snap_inv d \<and> (d0 = None \<or> d0 = Some d))
    (bnd (pause (se_others env) (query (select (retained_newest sid)))) (\<lambda>ns.
       for_each (excess cutoff count ns) (\<lambda>n. pause (se_others env) (eraseSnapshot n sid))))
    (\<lambda>_ d. snap_inv d \<and> (\<forall>d1. d0 = Some d1 \<longrightarrow> (\<forall>n \<in> set (excess cutoff count (retained_newest sid d1)). erased (sn_id n) sid d)))"
proof (rule guar_bnd)
  let ?P = "\<lambda>ns d. snap_inv d \<and> (\<forall>n \<in> set ns. belongs (sn_id n) sid d)"
  let ?Q = "\<lambda>ns d. ?P ns d \<and> (\<forall>d1. d0 = Some d1 \<longrightarrow> ns = retained_newest sid d1)"
  have stP: "stable R (?P ns)" for ns by (intro stable_conj stables(1) stable_ball stables(2))
  have stQ: "stable R (?Q ns)" for ns by (intro stable_conj stP stable_const)
  show "guar R (\<lambda>d. snap_inv d \<and> (d0 = None \<or> d0 = Some d)) (pause (se_others env) (query (select (retained_newest sid)))) ?Q"
    by (rule guar_pause [OF assms guar_select stQ]) (auto simp: retained_newest_def belongs_def active_snapshot_def)
  fix ns
  let ?J = "\<lambda>(ys :: snapshot_row list) d. ?Q ns d \<and> (\<forall>n \<in> set ys. erased (sn_id n) sid d)"
  have stJ: "stable R (?J ys)" for ys by (intro stable_conj stQ stable_ball stables(4))
  have "guar R (?J []) (for_each (excess cutoff count ns) (\<lambda>n. pause (se_others env) (eraseSnapshot n sid)))
      (\<lambda>_. ?J (excess cutoff count ns))"
  proof (rule guar_for_each [where J = ?J])
    fix ys n zs assume e: "excess cutoff count ns = ys @ n # zs"
    then have "n \<in> set (excess cutoff count ns)" by simp
    then have n: "n \<in> set ns" by (auto simp: excess_def in_set_enumerate_eq)
    let ?m = "eraseSnapshot n sid :: ('z world_scheme, unit) proc"
    have "guar R (?J ys) ?m (\<lambda>_. ?J ys)"
      by (rule guar_stable [OF guar_eraseSnapshot [OF refl] _ stJ]) (use n in simp)
    moreover have "guar R (?J ys) ?m (\<lambda>_. erased (sn_id n) sid)"
      by (rule guar_conseq [OF guar_eraseSnapshot [OF refl]]) (use n in simp)
    ultimately have "guar R (?J ys) ?m (\<lambda>_. ?J (ys @ [n]))"
      by (rule guar_conseq [OF guar_conj]) simp_all
    then show "guar R (?J ys) (pause (se_others env) (eraseSnapshot n sid)) (\<lambda>_. ?J (ys @ [n]))"
      by (rule guar_pause [OF assms]) (rule stJ)
  qed
  then show "guar R (?Q ns) (for_each (excess cutoff count ns) (\<lambda>n. pause (se_others env) (eraseSnapshot n sid)))
    (\<lambda>_ d. snap_inv d \<and> (\<forall>d1. d0 = Some d1 \<longrightarrow> (\<forall>n \<in> set (excess cutoff count (retained_newest sid d1)). erased (sn_id n) sid d)))"
    by (rule guar_conseq) auto
qed

lemma guar_prune:
  assumes "keep R (se_others env)"
  shows "guar R snap_inv (prune env sid) (\<lambda>_. snap_inv)"
  unfolding prune_def Let_def
  by (rule guar_bnd [OF guar_gets], assumption, rule guar_conseq [OF guar_prune_body [OF assms, of None]]) auto

lemma update_deletion_covered:
  "snap_inv d \<Longrightarrow> update_deletion i f d = Inr (x, d') \<Longrightarrow> (\<And>r. dl_snapshot_id (f r) = dl_snapshot_id r) \<Longrightarrow> R d d'"
  by (blast intro: covers update_deletion_step statement_frames)

lemma guar_delete:
  assumes "keep R (se_others env)" and "i = dl_snapshot_id row"
  shows "guar R (\<lambda>d. snap_inv d \<and> queued i d) (delete_physically env row) (\<lambda>_ d. snap_inv d \<and> queued i d)"
proof -
  let ?P = "\<lambda>d. snap_inv d \<and> queued i d"
  have stable: "stable R ?P" by (intro stable_conj stables(1) stables(3))
  note pause = guar_pause [OF assms(1) _ stable, where P = ?P]
  show ?thesis
    unfolding delete_physically_def Let_def assms(2) [symmetric]
    apply (rule guar_bnd [OF pause], rule guar_select, assumption)
    apply (rule guar_bnd [where M = "\<lambda>_. ?P"])
     apply (auto split: list.split intro!: guar_ret pause guar_outside) [1]
    apply (rule guar_bnd [OF guar_gets], assumption)
    apply (rule guar_bnd [OF pause], rule guar_query_stable [OF update_deletion_covered stable], blast, assumption, simp)
    apply (rule pause, rule guar_query_stable [OF _ stable])
    apply (auto simp: update_def intro: covers physically_deleted_step statement_frames)
    done
qed

lemma guar_retry:
  assumes "keep R (se_others env)"
  shows "guar R snap_inv (retryPhysicalDeletion env) (\<lambda>_. snap_inv)"
  unfolding retryPhysicalDeletion_def
proof (rule guar_bnd)
  let ?Q = "\<lambda>rows d. snap_inv d \<and> (\<forall>r \<in> set rows. queued (dl_snapshot_id r) d)"
  have stable: "stable R (?Q rows)" for rows
    by (intro stable_conj stables(1) stable_ball stables(3))
  show "guar R snap_inv (pause (se_others env) (query (select pending_deletions))) ?Q"
    by (rule guar_pause [OF assms guar_select stable]) (auto simp: pending_deletions_def queued_def)
  fix rows
  show "guar R (?Q rows) (for_each rows (\<lambda>row. try_catch (delete_physically env row)
       (\<lambda>_. pause (se_others env) (query (update_deletion (dl_snapshot_id row)
          (\<lambda>r. r\<lparr>dl_attempts := dl_attempts r + 1, dl_last_error := Some ''physical deletion failed''\<rparr>)))))) (\<lambda>_. snap_inv)"
  proof (rule guar_conseq [OF guar_each [where P = "?Q rows"]], rule guar_try_catch)
    fix row assume row: "row \<in> set rows"
    show "guar R (?Q rows) (delete_physically env row) (\<lambda>_. ?Q rows)"
      by (rule guar_stable [OF guar_delete [OF assms refl] _ stable]) (use row in simp)
    show "stable R (?Q rows)" by (rule stable)
    show "guar R (?Q rows) (pause (se_others env) (query (update_deletion (dl_snapshot_id row)
        (\<lambda>r. r\<lparr>dl_attempts := dl_attempts r + 1, dl_last_error := Some ''physical deletion failed''\<rparr>)))) (\<lambda>_. ?Q rows)"
      by (rule guar_pause [OF assms guar_query_stable [OF update_deletion_covered stable] stable], blast, assumption) simp
  qed simp_all
qed

text \<open>A handler of which nothing but the protocol is claimed.\<close>

lemma guar_snap_pause:
  assumes "keep R (se_others env)" and "guar R snap_inv m (\<lambda>_. snap_inv)"
  shows "guar R snap_inv (pause (se_others env) m) (\<lambda>_. snap_inv)"
  by (rule guar_pause [OF assms stables(1)])

lemma guar_on_gate: "guar R P (on_gate f) (\<lambda>_. P)"
  by (rule guar_still) (auto simp: on_gate_def split: prod.splits)


lemma snap_still:
  assumes "\<And>w r w'. m w = (r, w') \<Longrightarrow> db w' = db w"
  shows "guar R P m (\<lambda>_. P)"
  by (rule guar_still) (use assms in auto)

lemma guar_take:
  assumes "keep R (se_others env)"
  shows "guar R snap_inv (take_snapshot env sid prepared base) (\<lambda>_. snap_inv)"
proof -
  note pause = guar_snap_pause [OF assms]
  show ?thesis
    unfolding take_snapshot_def Let_def
    apply (rule guar_bnd [OF pause [OF snap_still]], erule db_latest)
    apply (rule guar_bnd [OF pause [OF snap_still]], erule db_sessionKek)
    apply (rule guar_bnd [OF pause [OF snap_still]], erule db_createDek)
    apply (rule guar_bnd [OF pause [OF snap_still]], erule db_outside)
    apply (rule guar_bnd [OF pause [OF snap_still]], erule db_outside)
    apply (rule guar_bnd [OF guar_try_catch [OF pause [OF guar_record] stables(1)]])
     apply (rule guar_bnd [OF guar_try_catch [OF pause [OF snap_still] stables(1)]], erule db_outside)
      apply (rule guar_ret, assumption)
     apply (rule guar_throw)
    apply (rule guar_ret, assumption)
    done
qed

lemma guar_capture:
  assumes "keep R (se_others env)"
  shows "guar R snap_inv (snapshot_capture env sid prepared base) (\<lambda>_. snap_inv)"
  unfolding snapshot_capture_def withExclusiveCapture_def
  apply (rule guar_bnd [where M = "\<lambda>_. snap_inv"])
   apply (rule guar_bnd [OF guar_on_gate])
   apply (rule guar_try_finally [OF _ stables(1) stables(1)])
    apply (rule guar_bnd [OF guar_snap_pause [OF assms guar_ret]], assumption)
    apply (rule guar_bnd [OF guar_on_gate guar_take [OF assms]])
   apply (rule guar_conseq [OF guar_on_gate], assumption, simp)
  apply (rule guar_bnd [OF guar_prune [OF assms]])
  apply (rule guar_ret, assumption)
  done

end

interpretation snap: snapshot_protocol snap_step
  by unfold_locales assumption+

section \<open>What the service guarantees\<close>

text \<open>(C22) Erasure is never undone: with other handlers keeping the protocol, capture, pruning, session erasure and the retry of
  deletions keep it too, whatever calls fail. A retained session snapshot has its key; one that is erased is queued for
  deletion and lacks one of the two wrapped keys that would decrypt it; a key that is gone does not come back.\<close>

theorem snapshot_erasure_invariant:
  fixes w :: "'z snapshot_world_scheme"
  assumes "keep snap_step (se_others env)" and "snap_inv (db w)"
    and "w' \<in> {snd (snapshot_capture env sid prepared base w), snd (prune env sid w), snd (eraseSession sid w), snd (retryPhysicalDeletion env w)}"
  shows "snap_inv (db w') \<and> snap_step (db w) (db w')"
proof -
  have "snap_step (db w) (db w')"
    using assms(3) guar_step [OF snap.guar_capture [OF assms(1)] assms(2) surjective_pairing, of sid prepared base]
      guar_step [OF snap.guar_prune [OF assms(1)] assms(2) surjective_pairing, of sid]
      guar_step [OF snap.guar_eraseSession assms(2) surjective_pairing, of sid]
      guar_step [OF snap.guar_retry [OF assms(1)] assms(2) surjective_pairing]
    by (elim insertE) simp_all
  with snap_stepD(1) assms(2) show ?thesis by blast
qed

text \<open>(C23) An erased session cannot be resumed: once \<^verbatim>\<open>eraseSession\<close> returned, its session key is gone, no snapshot of it is
  retained, each is queued for deletion, and restoring any of them throws.\<close>

theorem erased_session_unrestorable:
  assumes "snap_inv (db w)" and "eraseSession sid w = (Inr (), w')"
  shows "\<not> has_kek sid (db w')
     \<and> (\<forall>n \<in> set (snapshots (db w')). sn_kind n = Session \<and> sn_session_id n = Some sid \<longrightarrow> sn_deletion_state n \<noteq> Retained \<and> queued (sn_id n) (db w'))
     \<and> (\<exists>e. fst (snapshot_restore env ref sid spec w') = Inl e)"
proof -
  have gone: "\<not> has_kek sid (db w')" "\<And>n. n \<in> set (snapshots (db w')) \<Longrightarrow> \<not> active_snapshot sid n"
    using guar_post [OF snap.guar_eraseSession assms] by blast+
  have inv: "snap_inv (db w')" using guar_step [OF snap.guar_eraseSession assms] snap_stepD(1) assms(1) by blast
  have q: "sn_deletion_state n \<noteq> Retained \<and> queued (sn_id n) (db w')"
    if n: "n \<in> set (snapshots (db w'))" "sn_kind n = Session" "sn_session_id n = Some sid" for n
  proof -
    have "snapshot_ok (db w') n" using inv n by (simp add: snap_inv_def)
    with gone(2) [OF n(1)] n show ?thesis by (auto simp: active_snapshot_def snapshot_ok_def)
  qed
  have "restore_rows ref sid (db w') = []" using gone(2) by (auto simp: restore_rows_def filter_empty_conv)
  then have "\<exists>e. fst (snapshot_restore env ref sid spec w') = Inl e"
    by (auto simp: snapshot_restore_def Let_def throw_def bnd_def pause_def query_def select_def next_outcome_def
        split: option.splits)
  with gone(1) q show ?thesis by blast
qed

lemma excess_rest:
  assumes "\<And>n. n \<in> set ns \<Longrightarrow> p n \<Longrightarrow> n \<notin> set (excess cutoff (int c) ns)"
  shows "length (filter p ns) \<le> c" and "n \<in> set ns \<Longrightarrow> p n \<Longrightarrow> cutoff \<le> sn_built_at n"
proof -
  have late: "(i, ns ! i) \<in> set (enumerate 0 ns)" if "i < length ns" for i
    using that by (simp add: in_set_enumerate_eq)
  have "filter p (drop c ns) = []"
  proof (rule ccontr)
    assume "filter p (drop c ns) \<noteq> []"
    then obtain n where "n \<in> set (drop c ns)" "p n" by (auto simp: filter_empty_conv)
    then obtain j where j: "j < length (drop c ns)" "p (drop c ns ! j)" by (metis in_set_conv_nth)
    then have "ns ! (c + j) \<in> set (excess cutoff (int c) ns)" "p (ns ! (c + j))"
      using late [of "c + j"] by (force simp: excess_def)+
    with assms j show False by simp
  qed
  then have "filter p ns = filter p (take c ns)" by (metis append_Nil2 append_take_drop_id filter_append)
  then show "length (filter p ns) \<le> c" by (metis length_filter_le length_take min.bounded_iff min.cobounded2 order_trans)
  assume n: "n \<in> set ns" "p n"
  then obtain i where "i < length ns" "ns ! i = n" by (metis in_set_conv_nth)
  then have "(i, n) \<in> set (enumerate 0 ns)" using late by blast
  then show "cutoff \<le> sn_built_at n" using assms [OF n] by (force simp: excess_def)
qed

text \<open>(C24) Retention: when \<^verbatim>\<open>prune\<close> returns, of the snapshots the session had at most the configured number are left and none of
  those is older than the configured duration.\<close>

theorem prune_retention:
  fixes w :: "'z world_scheme"
  assumes "keep snap_step (se_others env)" and "snap_inv (db w)" and "check_options env = Inr ()"
    and "prune env sid w = (Inr (), w')"
  defines "left \<equiv> filter (\<lambda>n. \<exists>m \<in> set (snapshots (db w')). sn_id m = sn_id n \<and> active_snapshot sid m) (retained_newest sid (db w))"
  shows "int (length left) \<le> se_count env \<and> (\<forall>n \<in> set left. now w - se_durationMs env \<le> sn_built_at n)"
proof -
  let ?ns = "retained_newest sid (db w)" and ?cutoff = "now w - se_durationMs env"
  obtain c where c: "se_count env = int c"
    using assms(3) nonneg_int_cases [of "se_count env"] by (auto simp: check_options_def positive_safe_def split: if_splits)
  have run: "bnd (pause (se_others env) (query (select (retained_newest sid)))) (\<lambda>ns.
       for_each (excess ?cutoff (se_count env) ns) (\<lambda>n. pause (se_others env) (eraseSnapshot n sid))) w = (Inr (), w')"
    using assms(4) by (simp add: prune_def bnd_def gets_def Let_def)
  have post: "snap_inv (db w')" "\<And>n. n \<in> set (excess ?cutoff (int c) ?ns) \<Longrightarrow> erased (sn_id n) sid (db w')"
    using guar_post [OF snap.guar_prune_body [OF assms(1), of "Some (db w)"] _ run] assms(2) c by auto
  have kept: "n \<notin> set (excess ?cutoff (int c) ?ns)" if "\<exists>m \<in> set (snapshots (db w')). sn_id m = sn_id n \<and> active_snapshot sid m" for n
  proof
    assume "n \<in> set (excess ?cutoff (int c) ?ns)"
    then obtain k where "k \<in> set (snapshots (db w'))" "sn_id k = sn_id n" "sn_deletion_state k \<noteq> Retained"
      using post(2) by (auto simp: erased_def)
    with that snap_inv_row [OF post(1)] show False by (metis active_snapshot_def)
  qed
  from excess_rest [OF kept] show ?thesis unfolding left_def c by simp
qed


section \<open>A session with two snapshots\<close>

definition demo_snapshot :: "string \<Rightarrow> int \<Rightarrow> snapshot_row" where
  "demo_snapshot i t = snapshot_of (sr_id demo_session) ''base''
     \<lparr>rf_id = i, rf_kind = Session, rf_manifest = \<lparr>ob_bucket = ''b'', ob_key = ''k'', ob_versionId = None, ob_sha256 = ''h'', ob_sizeBytes = 1\<rparr>,
      rf_manifestKeyId = ''mk'', rf_createdAt = t, rf_sessionId = Some (sr_id demo_session), rf_baseSnapshotId = Some ''base''\<rparr> 5000 1 ''action''"

definition demo_dek :: "string \<Rightarrow> snapshot_key_row" where
  "demo_dek i = \<lparr>nk_snapshot_id = i, nk_session_id = sr_id demo_session, nk_wrap_nonce = [], nk_wrapped_dek = []\<rparr>"

definition demo_snapshots :: snapshot_world where
  "demo_snapshots = \<lparr>db = empty_db\<lparr>sessions := [demo_session], snapshots := [demo_snapshot ''s1'' 900, demo_snapshot ''s2'' 500],
       snapshot_keys := [demo_dek ''s1'', demo_dek ''s2''],
       session_snapshot_keys := [\<lparr>sk_session_id = sr_id demo_session, sk_root_kek_key_id = js ''root-1'', sk_wrap_nonce = [], sk_wrapped_session_kek = []\<rparr>]\<rparr>,
     sink = [], now = 1000, entropy = (\<lambda>_. []), draws = 0, fault = (\<lambda>_. Ok), calls = 0, activeEventIds = [], sw_gate = new_gate\<rparr>"

definition demo_snapshot_env :: "snapshot_world snapshot_env" where
  "demo_snapshot_env = \<lparr>se_crypto = demo_crypto, se_snapshot = (\<lambda>_ _. Inl ForeignError), se_restore = (\<lambda>_ _ _. Inl ForeignError),
     se_start = (\<lambda>_ _ _. Inr ()), se_destroy = (\<lambda>_ _. Inr ()), se_release = (\<lambda>_ _. Inr ()), se_store = (\<lambda>_ _ _. Inl ForeignError),
     se_resolve = (\<lambda>_ _ _ _. Inl ForeignError), se_deleteObjects = (\<lambda>_ _. Inr ()), se_baseResolve = (\<lambda>_ _. Inl ForeignError),
     se_baseRelease = (\<lambda>_ _. Inr ()), se_bindRestored = (\<lambda>_ _. ret ()), se_durationMs = 1000, se_count = 1, se_drainTimeoutMs = 100,
     se_others = (\<lambda>_ w. w)\<rparr>"

lemma demo_keep: "keep snap_step (se_others demo_snapshot_env)"
  by (simp add: keep_def demo_snapshot_env_def snap_step_refl)

lemma demo_snap_inv: "snap_inv (db demo_snapshots)"
  by (simp add: snap_inv_def snapshot_ok_def has_dek_def has_kek_def queued_def demo_snapshots_def demo_snapshot_def snapshot_of_def
      demo_dek_def empty_db_def)

theorem snapshot_erasure_invariant_witness:
  "snap_inv (db (snd (eraseSession (sr_id demo_session) demo_snapshots)))"
  using snapshot_erasure_invariant [OF demo_keep demo_snap_inv, of "snd (eraseSession (sr_id demo_session) demo_snapshots)" "sr_id demo_session"]
  by simp

lemma demo_erases: "fst (eraseSession (sr_id demo_session) demo_snapshots) = Inr ()"
  by code_simp

theorem erased_session_unrestorable_witness:
  "\<not> has_kek (sr_id demo_session) (db (snd (eraseSession (sr_id demo_session) demo_snapshots)))
   \<and> (\<exists>e. fst (snapshot_restore demo_snapshot_env (toSnapshotRef (demo_snapshot ''s1'' 900)) (sr_id demo_session)
        \<lparr>sp_id = ''s'', sp_image = ''i'', sp_entrypoint = None\<rparr> (snd (eraseSession (sr_id demo_session) demo_snapshots))) = Inl e)"
proof -
  have run: "eraseSession (sr_id demo_session) demo_snapshots = (Inr (), snd (eraseSession (sr_id demo_session) demo_snapshots))"
    using demo_erases by (metis surjective_pairing)
  from erased_session_unrestorable [OF demo_snap_inv run] show ?thesis by blast
qed

lemma demo_prunes: "fst (prune demo_snapshot_env (sr_id demo_session) demo_snapshots) = Inr ()"
  by code_simp

theorem prune_retention_witness:
  "int (length (filter (\<lambda>n. \<exists>m \<in> set (snapshots (db (snd (prune demo_snapshot_env (sr_id demo_session) demo_snapshots)))).
       sn_id m = sn_id n \<and> active_snapshot (sr_id demo_session) m) (retained_newest (sr_id demo_session) (db demo_snapshots)))) \<le> 1"
proof -
  have run: "prune demo_snapshot_env (sr_id demo_session) demo_snapshots = (Inr (), snd (prune demo_snapshot_env (sr_id demo_session) demo_snapshots))"
    using demo_prunes by (metis surjective_pairing)
  have "check_options demo_snapshot_env = Inr ()" "se_count demo_snapshot_env = 1"
    by (simp_all add: check_options_def positive_safe_def demo_snapshot_env_def)
  from prune_retention [OF demo_keep demo_snap_inv this(1) run] this(2) show ?thesis by simp
qed

end
