(* ===== verification/Lifecycle.thy ===== *)
theory Lifecycle
  imports Snapshot_Protocol Policy
begin

text \<open>
  \<^verbatim>\<open>apps/control-plane/src/session-lifecycle.ts\<close>: creation, start, teardown and reconciliation of sessions. The isolation driver, the
  transport host and the argon2 package are parameters; the snapshot keys are those of the snapshot service.

  Every \<^verbatim>\<open>await\<close> lets other handlers run. The per-session lock of \<^verbatim>\<open>#withSessionLock\<close> only removes interleavings, so
  it is left out here, and what holds here holds without it; the lock itself is the subject of \<^verbatim>\<open>Session_Lock\<close>.
\<close>

section \<open>State and interfaces\<close>

record lifecycle_world = snapshot_world +
  lw_prepared :: "string \<rightharpoonup> prepared_sandbox"
  lw_startup :: "(string \<times> prepared_sandbox) list"
  lw_lastSnapshotAt :: "string \<rightharpoonup> int"

record lifecycle_env =
  le_snap :: "lifecycle_world snapshot_env"
  le_prepare :: "sandbox_spec \<Rightarrow> nat \<Rightarrow> js_error + prepared_sandbox"
  le_start :: "sandbox_handle \<Rightarrow> nat \<Rightarrow> (int \<times> (js_error + unit)) option"
  le_hardwareIsolation :: bool
  le_argon2 :: "byte list \<Rightarrow> byte list \<Rightarrow> string"
  le_websocketBaseUrl :: string
  le_startTimeoutMs :: int

record create_request =
  cq_image :: string
  cq_entrypoint :: string
  cq_approvalMode :: approval_mode
  cq_scopes :: "string list"
  cq_policyBundleId :: "string option"
  cq_requestedBy :: string
  cq_purpose :: "string option"
  cq_metadata :: json
  cq_ttlSeconds :: int
  cq_idleTimeoutSeconds :: int

record create_response =
  cs_sessionId :: string
  cs_status :: session_status
  cs_driver :: driver_kind
  cs_hardwareIsolated :: bool
  cs_expiresAt :: int
  cs_websocketUrl :: string

record get_response =
  gs_sessionId :: string
  gs_status :: session_status
  gs_scopes :: "string list"
  gs_driver :: "driver_kind option"
  gs_hardwareIsolated :: bool
  gs_intent :: "string option"
  gs_requestedBy :: string
  gs_policyBundleId :: string
  gs_createdAt :: int
  gs_expiresAt :: int
  gs_lastActivityAt :: int
  gs_failureReason :: "failure_reason option"
  gs_allow :: int
  gs_deny :: int
  gs_requireApproval :: int
  gs_pendingApprovals :: int

definition SESSION_SNAPSHOT_INTERVAL_MS :: int where "SESSION_SNAPSHOT_INTERVAL_MS = 5 * 60 * 1000"

abbreviation waits :: "lifecycle_env \<Rightarrow> (lifecycle_world, 'a) proc \<Rightarrow> (lifecycle_world, 'a) proc" where
  "waits env \<equiv> pause (se_others (le_snap env))"

text \<open>\<^verbatim>\<open>options.websocketBaseUrl.replace(/\/$/, "")\<close>\<close>

definition strip_slash :: "string \<Rightarrow> string" where
  "strip_slash s = (if s \<noteq> [] \<and> last s = CHR ''/'' then butlast s else s)"

text \<open>
  \<^verbatim>\<open>Promise.all\<close>: every branch runs to its end, and the first rejection is thrown. What the branches do to each other while
  they wait is part of what others do.
\<close>

fun promise_all :: "('s, unit) proc list \<Rightarrow> ('s, unit) proc" where
  "promise_all [] = ret ()"
| "promise_all (m # ms) = (\<lambda>s. case m s of (r, s1) \<Rightarrow> (case promise_all ms s1 of (r2, s2) \<Rightarrow>
     (case r of Inl e \<Rightarrow> Inl e | Inr _ \<Rightarrow> r2, s2)))"

section \<open>Queries\<close>

definition terminal :: "session_status \<Rightarrow> bool" where
  "terminal st \<longleftrightarrow> st = Terminated \<or> st = Failed"

definition unsettled :: "session_status \<Rightarrow> bool" where
  "unsettled st \<longleftrightarrow> st \<in> {Pending, Booting, Ready, Active, Suspended}"

definition requireDriver :: "driver_kind option \<Rightarrow> js_error + driver_kind" where
  "requireDriver d = (case d of None \<Rightarrow> Inl (Caisson SANDBOX_FAILED ''session driver is unavailable'') | Some k \<Rightarrow> Inr k)"

definition getSession :: "string \<Rightarrow> ('z world_scheme, session_row) proc" where
  "getSession sid = bnd (query (select (\<lambda>d. filter (\<lambda>s. sr_id s = sid) (sessions d)))) (\<lambda>rows. case rows of
     [] \<Rightarrow> throw (Caisson SESSION_NOT_FOUND ''session not found'') | s # _ \<Rightarrow> ret s)"

definition setting_string :: "string \<Rightarrow> string \<Rightarrow> db \<Rightarrow> utf16 option" where
  "setting_string key k d = (case filter (\<lambda>s. st_key s = key) (settings d) of
     [] \<Rightarrow> None
   | s # _ \<Rightarrow> (case st_value s of JObj kvs \<Rightarrow> (case map_of kvs (js k) of Some (JStr v) \<Rightarrow> Some v | _ \<Rightarrow> None) | _ \<Rightarrow> None))"

definition activePolicyBundleId :: "('z world_scheme, string) proc" where
  "activePolicyBundleId = bnd (query (select (setting_string ''active_policy_bundle'' ''policyBundleId''))) (\<lambda>v. case v of
     None \<Rightarrow> throw (Caisson POLICY_UNAVAILABLE ''no active policy bundle is configured'')
   | Some b \<Rightarrow> of_result (id_of b))"

definition resolvePolicyBundle :: "lifecycle_env \<Rightarrow> string option \<Rightarrow> (lifecycle_world, string) proc" where
  "resolvePolicyBundle env requested =
     bnd (case requested of Some b \<Rightarrow> ret b | None \<Rightarrow> waits env activePolicyBundleId) (\<lambda>policyBundleId.
     bnd (waits env (query (select (bundle_rows policyBundleId)))) (\<lambda>rows. case rows of
       [] \<Rightarrow> throw (Caisson POLICY_UNAVAILABLE ''requested policy bundle is unavailable'')
     | b # _ \<Rightarrow> ret (pb_id b)))"

definition activeBaseSnapshotId :: "lifecycle_env \<Rightarrow> (lifecycle_world, string) proc" where
  "activeBaseSnapshotId env =
     bnd (waits env (query (select (setting_string ''active_base_snapshot'' ''snapshotId'')))) (\<lambda>v. case v of
       None \<Rightarrow> throw (Caisson SANDBOX_FAILED ''no active base snapshot is configured'')
     | Some b \<Rightarrow> bnd (of_result (id_of b)) (\<lambda>i.
         bnd (waits env (query (select (\<lambda>d. filter (\<lambda>n. sn_id n = i \<and> sn_kind n = Base) (snapshots d))))) (\<lambda>rows. case rows of
           [] \<Rightarrow> throw (Caisson SANDBOX_FAILED ''active base snapshot is unavailable'')
         | n # _ \<Rightarrow> ret (sn_id n))))"

text \<open>The newest unreleased binding of the session.\<close>

definition bound_rows :: "string \<Rightarrow> db \<Rightarrow> binding_row list" where
  "bound_rows sid d = sort_key (\<lambda>b. - tb_bound_at b) (filter (\<lambda>b. tb_session_id b = sid \<and> tb_released_at b = None) (transport_bindings d))"

definition runtimeFor :: "lifecycle_env \<Rightarrow> session_row \<Rightarrow> (lifecycle_world, prepared_sandbox) proc" where
  "runtimeFor env s = bnd (gets (\<lambda>w. lw_prepared w (sr_id s))) (\<lambda>live. case live of
     Some p \<Rightarrow> ret p
   | None \<Rightarrow> bnd (waits env (query (select (bound_rows (sr_id s))))) (\<lambda>rows. case rows of
       [] \<Rightarrow> throw (Caisson SANDBOX_FAILED ''sandbox transport binding is unavailable'')
     | b # _ \<Rightarrow> bnd (of_result (requireDriver (sr_driver s))) (\<lambda>k.
         ret \<lparr>pp_handle = \<lparr>hd_id = sr_id s, hd_driver = k\<rparr>, pp_transport = binding_peer b\<rparr>)))"

section \<open>Audit records\<close>

fun failure_name :: "failure_reason \<Rightarrow> string" where
  "failure_name StartTimeout = ''start_timeout''" | "failure_name DriverError = ''driver_error''"
| "failure_name CleanupPending = ''cleanup_pending''"

definition lifecycleAuditInput :: "string \<Rightarrow> string \<Rightarrow> driver_kind \<Rightarrow> bool \<Rightarrow> string option \<Rightarrow> string option
    \<Rightarrow> ('z world_scheme, audit_input) proc" where
  "lifecycleAuditInput sid action k hardwareIsolated intent errorCode = bnd uuidV7 (\<lambda>actionId. ret
     \<lparr>ai_sessionId = sid, ai_actionId = actionId, ai_timestamp = None, ai_eventType = ''lifecycle'', ai_actionType = ''lifecycle'',
      ai_service = None, ai_method = Some (js action), ai_decision = Some ''n/a'', ai_policyBundle = None, ai_policyReason = None,
      ai_obligations = None, ai_scopeUsed = None, ai_roleUsed = None, ai_paramsHash = Some (replicate 64 (CHR ''0'')),
      ai_paramsPreview = Some (js (''status='' @ action)), ai_resultBytes = None, ai_resultHash = None, ai_redactionCount = None,
      ai_durationMs = None, ai_approvalId = None, ai_approvalWaitMs = None, ai_skillLoaded = None,
      ai_agentIntent = Some (js (case intent of None \<Rightarrow> [] | Some p \<Rightarrow> p)), ai_driver = k, ai_hardwareIsolated = hardwareIsolated,
      ai_traceId = None, ai_spanId = None, ai_errorCode = errorCode, ai_errorMessage = None, ai_networkDestination = None,
      ai_networkProtocol = None\<rparr>)"

definition audit_session :: "session_row \<Rightarrow> string \<Rightarrow> string option \<Rightarrow> ('z world_scheme, unit) proc" where
  "audit_session s action errorCode =
     bnd (of_result (requireDriver (sr_driver s))) (\<lambda>k.
     bnd (lifecycleAuditInput (sr_id s) action k (sr_hardware_isolated s) (sr_purpose s) errorCode) (\<lambda>i.
     seq (enqueueInTransaction i) (ret ())))"

section \<open>Status changes\<close>

text \<open>\<^verbatim>\<open>UPDATE sessions SET .. WHERE id = .. AND p\<close>, with the number of rows it changed.\<close>

definition update_session :: "string \<Rightarrow> (session_status \<Rightarrow> bool) \<Rightarrow> (session_row \<Rightarrow> session_row) \<Rightarrow> nat statement" where
  "update_session sid p f d = (let hit = (\<lambda>s. sr_id s = sid \<and> p (sr_status s)) in
     Inr (length (filter hit (sessions d)), d\<lparr>sessions := update_where hit f (sessions d)\<rparr>))"

definition markReady :: "session_row \<Rightarrow> ('z world_scheme, unit) proc" where
  "markReady s = transaction (
     bnd (query (update_session (sr_id s) (\<lambda>st. st = Booting) (\<lambda>r. r\<lparr>sr_status := Ready\<rparr>))) (\<lambda>count.
       if count = 0 then ret () else audit_session s ''ready'' None))"

definition markFailed :: "session_row \<Rightarrow> failure_reason \<Rightarrow> string \<Rightarrow> ('z world_scheme, unit) proc" where
  "markFailed s reason auditMethod = transaction (bnd (gets now) (\<lambda>t.
     bnd (query (update_session (sr_id s) unsettled (\<lambda>r. r\<lparr>sr_status := Failed, sr_failure_reason := Some reason,
            sr_terminated_at := Some t, sr_termination_reason := Some (failure_name reason)\<rparr>))) (\<lambda>count.
       if count = 0 then ret () else audit_session s auditMethod (Some (failure_name reason)))))"

definition markTerminated :: "session_row \<Rightarrow> string \<Rightarrow> ('z world_scheme, unit) proc" where
  "markTerminated s reason = transaction (bnd (gets now) (\<lambda>t.
     seq (query (update_session (sr_id s) unsettled (\<lambda>r. r\<lparr>sr_status := Terminating\<rparr>)))
    (bnd (query (update_session (sr_id s) (\<lambda>st. st = Terminating) (\<lambda>r. r\<lparr>sr_status := Terminated, sr_terminated_at := Some t,
            sr_termination_reason := Some reason\<rparr>))) (\<lambda>count.
       if count = 0 then ret () else audit_session s ''destroy'' None))))"

section \<open>Steps of teardown\<close>

definition attempt :: "('s, unit) proc \<Rightarrow> ('s, bool) proc" where
  "attempt m = try_catch (seq m (ret True)) (\<lambda>_. ret False)"

definition revoke_tokens :: "int \<Rightarrow> string \<Rightarrow> string \<Rightarrow> unit statement" where
  "revoke_tokens t sid reason = update (\<lambda>d. d\<lparr>session_tokens :=
     update_where (\<lambda>k. tk_session_id k = sid \<and> tk_revoked_at k = None)
       (\<lambda>k. k\<lparr>tk_revoked_at := Some t, tk_revocation_reason := Some reason\<rparr>) (session_tokens d)\<rparr>)"

definition tryRevokeToken :: "lifecycle_env \<Rightarrow> string \<Rightarrow> string \<Rightarrow> (lifecycle_world, bool) proc" where
  "tryRevokeToken env sid reason = attempt (bnd (gets now) (\<lambda>t. waits env (query (revoke_tokens t sid reason))))"

definition tryEraseSessionKeys :: "lifecycle_env \<Rightarrow> string \<Rightarrow> (lifecycle_world, bool) proc" where
  "tryEraseSessionKeys env sid = attempt (waits env (eraseSession sid))"

definition tryDestroy :: "lifecycle_env \<Rightarrow> sandbox_handle \<Rightarrow> (lifecycle_world, bool) proc" where
  "tryDestroy env handle = attempt (waits env (outside (se_destroy (le_snap env) handle)))"

definition release_bindings :: "int \<Rightarrow> string \<Rightarrow> unit statement" where
  "release_bindings t sid = update (\<lambda>d. d\<lparr>transport_bindings :=
     update_where (\<lambda>b. tb_session_id b = sid \<and> tb_released_at b = None) (\<lambda>b. b\<lparr>tb_released_at := Some t\<rparr>) (transport_bindings d)\<rparr>)"

definition tryRelease :: "lifecycle_env \<Rightarrow> string \<Rightarrow> peer \<Rightarrow> (lifecycle_world, bool) proc" where
  "tryRelease env sid transport = attempt (
     seq (waits env (outside (se_release (le_snap env) transport)))
       (bnd (gets now) (\<lambda>t. waits env (query (release_bindings t sid)))))"

definition destroyAndRelease :: "lifecycle_env \<Rightarrow> prepared_sandbox \<Rightarrow> (lifecycle_world, unit) proc" where
  "destroyAndRelease env p = seq (waits env (outside (se_destroy (le_snap env) (pp_handle p))))
     (waits env (outside (se_release (le_snap env) (pp_transport p))))"

definition forget_prepared :: "string \<Rightarrow> (lifecycle_world, unit) proc" where
  "forget_prepared sid = modify (\<lambda>w. w\<lparr>lw_prepared := (lw_prepared w)(sid := None)\<rparr>)"

section \<open>Creation\<close>

text \<open>Primary key, the foreign key on the policy bundle, and the width of the timeout.\<close>

definition insert_session :: "session_row \<Rightarrow> unit statement" where
  "insert_session s d =
     (if sr_id s \<in> sr_id ` set (sessions d) \<or> sr_policy_bundle_id s \<notin> pb_id ` set (policy_bundles d) \<or> \<not> int4 (sr_idle_timeout_s s)
      then Inl ForeignError else Inr ((), d\<lparr>sessions := sessions d @ [s]\<rparr>))"

definition new_session :: "lifecycle_env \<Rightarrow> create_request \<Rightarrow> string \<Rightarrow> string \<Rightarrow> int \<Rightarrow> prepared_sandbox \<Rightarrow> string option \<Rightarrow> int \<Rightarrow> session_row" where
  "new_session env request sid bundle expiresAt p baseSnapshotId t =
     \<lparr>sr_id = sid, sr_status = Booting, sr_agent_image = cq_image request, sr_entrypoint = cq_entrypoint request,
      sr_approval_mode = cq_approvalMode request, sr_scopes = cq_scopes request, sr_roles = [], sr_policy_bundle_id = bundle,
      sr_requested_by = cq_requestedBy request, sr_purpose = cq_purpose request, sr_metadata = cq_metadata request,
      sr_host_id = Some (pr_hostId (pp_transport p)), sr_driver = Some (hd_driver (pp_handle p)),
      sr_hardware_isolated = le_hardwareIsolation env, sr_snapshot_ref = None, sr_base_snapshot_id = baseSnapshotId, sr_valid_from = t,
      sr_expires_at = expiresAt, sr_idle_timeout_s = cq_idleTimeoutSeconds request, sr_last_activity_at = t, sr_created_at = t,
      sr_terminated_at = None, sr_termination_reason = None, sr_next_audit_seq = 0, sr_action_allow_count = 0,
      sr_action_deny_count = 0, sr_action_require_approval_count = 0, sr_failure_reason = None\<rparr>"

definition create_rows :: "lifecycle_env \<Rightarrow> create_request \<Rightarrow> string \<Rightarrow> string \<Rightarrow> int \<Rightarrow> token_record \<Rightarrow> prepared_sandbox \<Rightarrow> string option
    \<Rightarrow> ('z world_scheme, unit) proc" where
  "create_rows env request sid bundle expiresAt token p baseSnapshotId = bnd (gets now) (\<lambda>t.
     seq (query (insert_session (new_session env request sid bundle expiresAt p baseSnapshotId t)))
    (seq (provisionSessionKey (se_crypto (le_snap env)) sid)
    (seq (query (insert_token \<lparr>tk_id = tr_id token, tk_session_id = sid, tk_token_hash = tr_tokenHash token, tk_scopes = cq_scopes request,
            tk_issued_at = t, tk_expires_at = expiresAt, tk_revoked_at = None, tk_revocation_reason = None\<rparr>))
    (bnd uuidV7 (\<lambda>i.
     seq (query (insert_binding \<lparr>tb_id = i, tb_session_id = sid, tb_host_id = pr_hostId (pp_transport p),
            tb_transport_kind = pr_transportKind (pp_transport p), tb_peer_identifier = pr_peerIdentifier (pp_transport p),
            tb_token_id = tr_id token, tb_bound_at = t, tb_released_at = None\<rparr>))
    (bnd (lifecycleAuditInput sid ''create'' (hd_driver (pp_handle p)) (le_hardwareIsolation env) (cq_purpose request) None) (\<lambda>a.
     seq (enqueueInTransaction a) (ret ()))))))))"

definition create_body :: "lifecycle_env \<Rightarrow> create_request \<Rightarrow> string \<Rightarrow> string \<Rightarrow> int \<Rightarrow> token_record \<Rightarrow> prepared_sandbox
    \<Rightarrow> (lifecycle_world, unit) proc" where
  "create_body env request sid bundle expiresAt token p =
     bnd (if hd_driver (pp_handle p) = Firecracker then bnd (activeBaseSnapshotId env) (\<lambda>b. ret (Some b)) else ret None) (\<lambda>baseSnapshotId.
       waits env (transaction (create_rows env request sid bundle expiresAt token p baseSnapshotId)))"

definition create :: "lifecycle_env \<Rightarrow> create_request \<Rightarrow> (lifecycle_world, create_response) proc" where
  "create env request =
     bnd uuidV7 (\<lambda>sid.
     bnd (gets now) (\<lambda>t. let expiresAt = t + cq_ttlSeconds request * 1000 in
     bnd (resolvePolicyBundle env (cq_policyBundleId request)) (\<lambda>bundle.
     bnd (waits env (createSessionTokenRecord (le_argon2 env))) (\<lambda>token.
     bnd (waits env (outside (le_prepare env \<lparr>sp_id = sid, sp_image = cq_image request, sp_entrypoint = Some (cq_entrypoint request)\<rparr>))) (\<lambda>p.
     seq (try_catch (create_body env request sid bundle expiresAt token p)
            (\<lambda>e. seq (destroyAndRelease env p) (throw e)))
    (seq (modify (\<lambda>w. w\<lparr>lw_prepared := (lw_prepared w)(sid \<mapsto> p), lw_startup := lw_startup w @ [(sid, p)]\<rparr>))
     (ret \<lparr>cs_sessionId = sid, cs_status = Booting, cs_driver = hd_driver (pp_handle p),
        cs_hardwareIsolated = le_hardwareIsolation env, cs_expiresAt = expiresAt,
        cs_websocketUrl = strip_slash (le_websocketBaseUrl env) @ ''/v1/sessions/'' @ sid @ ''/events''\<rparr>)))))))"

definition get_session :: "lifecycle_env \<Rightarrow> string \<Rightarrow> (lifecycle_world, get_response) proc" where
  "get_session env sid = bnd (waits env (getSession sid)) (\<lambda>s. ret
     \<lparr>gs_sessionId = sr_id s, gs_status = sr_status s, gs_scopes = sr_scopes s, gs_driver = sr_driver s,
      gs_hardwareIsolated = sr_hardware_isolated s, gs_intent = sr_purpose s, gs_requestedBy = sr_requested_by s,
      gs_policyBundleId = sr_policy_bundle_id s, gs_createdAt = sr_created_at s, gs_expiresAt = sr_expires_at s,
      gs_lastActivityAt = sr_last_activity_at s, gs_failureReason = sr_failure_reason s, gs_allow = sr_action_allow_count s,
      gs_deny = sr_action_deny_count s, gs_requireApproval = sr_action_require_approval_count s, gs_pendingApprovals = 0\<rparr>)"

section \<open>Teardown\<close>

definition destroy :: "lifecycle_env \<Rightarrow> string \<Rightarrow> string \<Rightarrow> (lifecycle_world, string \<times> session_status) proc" where
  "destroy env sid reason = bnd (waits env (getSession sid)) (\<lambda>s.
     if terminal (sr_status s) then ret (sid, sr_status s)
     else bnd (tryEraseSessionKeys env sid) (\<lambda>keysErased.
       bnd (tryRevokeToken env sid ''terminated'') (\<lambda>revoked.
       bnd (runtimeFor env s) (\<lambda>runtime.
       bnd (tryDestroy env (pp_handle runtime)) (\<lambda>destroyed.
         if \<not> keysErased \<or> \<not> revoked \<or> \<not> destroyed
         then seq (waits env (markFailed s CleanupPending ''destroy_failed'')) (ret (sid, Failed))
         else bnd (tryRelease env sid (pp_transport runtime)) (\<lambda>released.
           if \<not> released then seq (waits env (markFailed s CleanupPending ''release_failed'')) (ret (sid, Failed))
           else seq (waits env (markTerminated s reason)) (seq (forget_prepared sid) (ret (sid, Terminated)))))))))"

definition failStart :: "lifecycle_env \<Rightarrow> session_row \<Rightarrow> failure_reason \<Rightarrow> string \<Rightarrow> (lifecycle_world, unit) proc" where
  "failStart env s reason auditMethod =
     bnd (tryRevokeToken env (sr_id s) ''failed'') (\<lambda>revoked.
     bnd (runtimeFor env s) (\<lambda>runtime.
     bnd (tryDestroy env (pp_handle runtime)) (\<lambda>destroyed.
       if \<not> revoked \<or> \<not> destroyed then waits env (markFailed s CleanupPending auditMethod)
       else bnd (tryRelease env (sr_id s) (pp_transport runtime)) (\<lambda>released.
         if \<not> released then waits env (markFailed s CleanupPending auditMethod)
         else seq (waits env (markFailed s reason auditMethod)) (forget_prepared (sr_id s))))))"

section \<open>Start\<close>

datatype start_result = Started | StartRejected | StartTimedOut

text \<open>\<^verbatim>\<open>withTimeout\<close>: the operation settles after some time, or never; a tie goes to the timer.\<close>

definition withTimeout :: "(int \<times> (js_error + unit)) option \<Rightarrow> int \<Rightarrow> start_result" where
  "withTimeout operation timeoutMs = (case operation of
     None \<Rightarrow> StartTimedOut
   | Some (t, r) \<Rightarrow> if timeoutMs \<le> t then StartTimedOut else (case r of Inl _ \<Rightarrow> StartRejected | Inr _ \<Rightarrow> Started))"

definition start_failed :: "lifecycle_env \<Rightarrow> string \<Rightarrow> failure_reason \<Rightarrow> (lifecycle_world, unit) proc" where
  "start_failed env sid reason = bnd (waits env (getSession sid)) (\<lambda>s.
     if sr_status s = Booting then failStart env s reason ''start_failed'' else ret ())"

definition start :: "lifecycle_env \<Rightarrow> string \<Rightarrow> prepared_sandbox \<Rightarrow> (lifecycle_world, unit) proc" where
  "start env sid runtime = bnd (waits env (getSession sid)) (\<lambda>s0.
     if sr_status s0 \<noteq> Booting then ret ()
     else bnd (waits env (outside (\<lambda>n. Inr (withTimeout (le_start env (pp_handle runtime) n) (le_startTimeoutMs env))))) (\<lambda>r.
       case r of
         StartTimedOut \<Rightarrow> start_failed env sid StartTimeout
       | StartRejected \<Rightarrow> start_failed env sid DriverError
       | Started \<Rightarrow> try_catch
           (bnd (waits env (getSession sid)) (\<lambda>s. if sr_status s = Booting then waits env (markReady s) else ret ()))
           (\<lambda>_. start_failed env sid DriverError)))"

section \<open>Reconciliation\<close>

text \<open>
  \<^verbatim>\<open>#withReconciliationLock\<close>: a transaction of its own holds the advisory lock; the work runs on other connections, and is
  not undone when that transaction fails to commit.
\<close>

definition withReconciliationLock :: "lifecycle_env \<Rightarrow> (lifecycle_world, unit) proc \<Rightarrow> (lifecycle_world, unit) proc" where
  "withReconciliationLock env work =
     seq (waits env (query (select (\<lambda>_. ())))) (seq (waits env (query (select (\<lambda>_. ())))) (seq work (waits env (query (select (\<lambda>_. ()))))))"

definition reconcileBooting :: "lifecycle_env \<Rightarrow> (lifecycle_world, unit) proc" where
  "reconcileBooting env = bnd (gets now) (\<lambda>t. let cutoff = t - le_startTimeoutMs env in
     bnd (waits env (query (select (\<lambda>d. filter (\<lambda>s. sr_status s = Booting \<and> sr_created_at s \<le> cutoff) (sessions d))))) (\<lambda>ss.
     promise_all (map (\<lambda>s. withReconciliationLock env
       (bnd (waits env (getSession (sr_id s))) (\<lambda>current.
          if sr_status current = Booting then failStart env current StartTimeout ''boot_timeout'' else ret ()))) ss)))"

definition clear_failure :: "string \<Rightarrow> unit statement" where
  "clear_failure sid d = Inr ((), d\<lparr>sessions := update_where (\<lambda>s. sr_id s = sid \<and> sr_status s = Failed)
     (\<lambda>s. s\<lparr>sr_failure_reason := None\<rparr>) (sessions d)\<rparr>)"

definition cleanup_session :: "lifecycle_env \<Rightarrow> string \<Rightarrow> (lifecycle_world, unit) proc" where
  "cleanup_session env sid = bnd (waits env (getSession sid)) (\<lambda>current.
     if sr_status current \<noteq> Failed \<or> sr_failure_reason current \<noteq> Some CleanupPending then ret ()
     else bnd (runtimeFor env current) (\<lambda>runtime.
       bnd (tryEraseSessionKeys env sid) (\<lambda>keysErased.
       bnd (tryRevokeToken env sid ''failed'') (\<lambda>revoked.
       bnd (tryDestroy env (pp_handle runtime)) (\<lambda>destroyed.
         if \<not> keysErased \<or> \<not> revoked \<or> \<not> destroyed then ret ()
         else bnd (tryRelease env sid (pp_transport runtime)) (\<lambda>released.
           if \<not> released then ret ()
           else seq (waits env (query (clear_failure sid))) (forget_prepared sid)))))))"

definition reconcileCleanup :: "lifecycle_env \<Rightarrow> (lifecycle_world, unit) proc" where
  "reconcileCleanup env =
     bnd (waits env (query (select (\<lambda>d. filter (\<lambda>s. sr_status s = Failed \<and> sr_failure_reason s = Some CleanupPending) (sessions d))))) (\<lambda>ss.
     promise_all (map (\<lambda>s. withReconciliationLock env (cleanup_session env (sr_id s))) ss))"

definition capture_due :: "lifecycle_env \<Rightarrow> int \<Rightarrow> session_row \<Rightarrow> (lifecycle_world, unit) proc" where
  "capture_due env t s = (case sr_base_snapshot_id s of
     None \<Rightarrow> ret ()
   | Some base \<Rightarrow> bnd (gets (\<lambda>w. (lw_lastSnapshotAt w (sr_id s), lw_prepared w (sr_id s)))) (\<lambda>(previous, runtime).
       if (case previous of None \<Rightarrow> False | Some l \<Rightarrow> t < l + SESSION_SNAPSHOT_INTERVAL_MS) then ret ()
       else (case runtime of
         None \<Rightarrow> ret ()
       | Some p \<Rightarrow> seq (snapshot_capture (le_snap env) (sr_id s) p base)
           (modify (\<lambda>w. w\<lparr>lw_lastSnapshotAt := (lw_lastSnapshotAt w)(sr_id s \<mapsto> t)\<rparr>)))))"

definition captureDueSessionSnapshots :: "lifecycle_env \<Rightarrow> (lifecycle_world, unit) proc" where
  "captureDueSessionSnapshots env =
     bnd (waits env (query (select (\<lambda>d. filter (\<lambda>s. sr_status s = Active) (sessions d))))) (\<lambda>ss.
     bnd (gets now) (\<lambda>t. promise_all (map (capture_due env t) ss)))"

definition reconcile :: "lifecycle_env \<Rightarrow> (lifecycle_world, unit) proc" where
  "reconcile env = seq (reconcileBooting env) (seq (reconcileCleanup env)
     (seq (captureDueSessionSnapshots env) (retryPhysicalDeletion (le_snap env))))"

end
