(* ===== verification/Lifecycle_Safety.thy ===== *)
theory Lifecycle_Safety
  imports Lifecycle
begin

text \<open>
  What the lifecycle guarantees under every failure and interleaving. The audit trail of a session is a run of the session state
  machine that ends in the status of its row; a session that is over has no live token, no bound transport and, when it
  was terminated, no snapshot key. \<open>life_step\<close> is the protocol the handlers keep and rely on.
\<close>

section \<open>The abstract machine\<close>

text \<open>The transitions a lifecycle record stands for, and the machine after the records of a session.\<close>

definition record_transitions :: "utf16 \<Rightarrow> session_status list" where
  "record_transitions action = (if action = js ''create'' then [Booting] else if action = js ''ready'' then [Ready]
     else if action = js ''destroy'' then [Terminating, Terminated] else [Failed])"

definition follow :: "utf16 \<Rightarrow> machine \<Rightarrow> machine" where
  "follow action = attempts (map (\<lambda>t. (t, None)) (record_transitions action))"

definition replay :: "utf16 list \<Rightarrow> machine" where
  "replay trail = fold follow trail (new_machine Pending)"

definition lifecycle_log :: "string \<Rightarrow> db \<Rightarrow> utf16 list" where
  "lifecycle_log sid d = map (\<lambda>r. ap_method (ob_payload r))
     (filter (\<lambda>r. ob_session_id r = sid \<and> ap_eventType (ob_payload r) = ''lifecycle'') (audit_outbox d))"

definition legal :: "machine \<Rightarrow> bool" where
  "legal m \<longleftrightarrow> list_all te_legal (m_events m)"

definition traced :: "db \<Rightarrow> session_row \<Rightarrow> bool" where
  "traced d s \<longleftrightarrow> legal (replay (lifecycle_log (sr_id s) d)) \<and> m_status (replay (lifecycle_log (sr_id s) d)) = sr_status s"

lemma attempts_legal:
  "legal (attempts ts m) \<Longrightarrow> legal m \<and> m_status (attempts ts m) = (if ts = [] then m_status m else fst (last ts))"
proof (induction ts m rule: attempts.induct)
  case (2 t reason ts m)
  then have "legal (snd (transition t reason m))" "m_status (attempts ts (snd (transition t reason m))) =
      (if ts = [] then m_status (snd (transition t reason m)) else fst (last ts))" by simp_all
  then show ?case by (auto simp: transition_def emit_def legal_def Let_def split: if_splits)
qed simp

lemma replay_snoc: "replay (trail @ [a]) = follow a (replay trail)"
  by (simp add: replay_def)

lemma replay_status:
  "legal (replay trail) \<Longrightarrow> m_status (replay trail) \<in> {Pending, Booting, Ready, Terminated, Failed}"
proof (induction trail rule: rev_induct)
  case Nil
  then show ?case by (simp add: replay_def new_machine_def)
next
  case (snoc a trail)
  then have "legal (attempts (map (\<lambda>t. (t, None)) (record_transitions a)) (replay trail))" by (simp add: replay_snoc follow_def)
  from attempts_legal [OF this] show ?case
    by (auto simp: replay_snoc follow_def record_transitions_def split: if_splits)
qed

lemma follow_legal:
  assumes "legal m"
  shows "m_status m = Pending \<Longrightarrow> legal (follow (js ''create'') m) \<and> m_status (follow (js ''create'') m) = Booting"
    and "m_status m = Booting \<Longrightarrow> legal (follow (js ''ready'') m) \<and> m_status (follow (js ''ready'') m) = Ready"
    and "unsettled (m_status m) \<Longrightarrow> legal (follow (js ''destroy'') m) \<and> m_status (follow (js ''destroy'') m) = Terminated"
    and "unsettled (m_status m) \<Longrightarrow> a \<notin> {js ''create'', js ''ready'', js ''destroy''} \<Longrightarrow>
      legal (follow a m) \<and> m_status (follow a m) = Failed"
  using assms by (auto simp: follow_def record_transitions_def transition_def emit_def legal_def unsettled_def Let_def)

section \<open>The invariant and the protocol\<close>

definition revoked :: "string \<Rightarrow> db \<Rightarrow> bool" where
  "revoked sid d \<longleftrightarrow> (\<forall>k \<in> set (session_tokens d). tk_session_id k = sid \<longrightarrow> tk_revoked_at k \<noteq> None)"

definition unbound :: "string \<Rightarrow> db \<Rightarrow> bool" where
  "unbound sid d \<longleftrightarrow> (\<forall>b \<in> set (transport_bindings d). tb_session_id b = sid \<longrightarrow> tb_released_at b \<noteq> None)"

text \<open>A session that is over, with nothing left to clean up.\<close>

definition settled_row :: "session_row \<Rightarrow> bool" where
  "settled_row s \<longleftrightarrow> sr_status s = Terminated \<or> sr_status s = Failed \<and> sr_failure_reason s \<noteq> Some CleanupPending"

definition session_safe :: "db \<Rightarrow> session_row \<Rightarrow> bool" where
  "session_safe d s \<longleftrightarrow> traced d s \<and> (settled_row s \<longrightarrow> revoked (sr_id s) d \<and> unbound (sr_id s) d)
     \<and> (sr_status s = Terminated \<longrightarrow> \<not> has_kek (sr_id s) d)"

definition life_inv :: "db \<Rightarrow> bool" where
  "life_inv d \<longleftrightarrow> outbox_ok d \<and> snap_inv d \<and> (\<forall>s \<in> set (sessions d). session_safe d s)"

definition known :: "string \<Rightarrow> db \<Rightarrow> bool" where
  "known sid d \<longleftrightarrow> sid \<in> sr_id ` set (sessions d)"

definition life_step :: "db \<Rightarrow> db \<Rightarrow> bool" where
  "life_step d d' \<longleftrightarrow> snap_step d d' \<and> (life_inv d \<longrightarrow> life_inv d')
     \<and> (\<forall>sid. known sid d \<longrightarrow> (revoked sid d \<longrightarrow> revoked sid d') \<and> (unbound sid d \<longrightarrow> unbound sid d'))
     \<and> (\<forall>s \<in> set (sessions d). terminal (sr_status s) \<longrightarrow> (\<exists>t \<in> set (sessions d'). sr_id t = sr_id s \<and> sr_status t = sr_status s))
     \<and> (\<forall>sid. prefix (lifecycle_log sid d) (lifecycle_log sid d'))"

lemma life_stepD:
  assumes "life_step d d'"
  shows "snap_step d d'" "life_inv d \<Longrightarrow> life_inv d'" "known sid d \<Longrightarrow> revoked sid d \<Longrightarrow> revoked sid d'"
    "known sid d \<Longrightarrow> unbound sid d \<Longrightarrow> unbound sid d'" "known sid d \<Longrightarrow> known sid d'"
    "s \<in> set (sessions d) \<Longrightarrow> terminal (sr_status s) \<Longrightarrow> \<exists>t \<in> set (sessions d'). sr_id t = sr_id s \<and> sr_status t = sr_status s"
    "prefix (lifecycle_log sid d) (lifecycle_log sid d')" "known sid d \<Longrightarrow> has_kek sid d' \<Longrightarrow> has_kek sid d"
  using assms snap_stepD(4,6) [of d d'] unfolding life_step_def known_def by blast+

lemma life_step_refl: "life_step d d"
  by (auto simp: life_step_def snap_step_refl)

lemma life_step_trans:
  assumes 1: "life_step d d'" and 2: "life_step d' d''"
  shows "life_step d d''"
  unfolding life_step_def
proof (intro conjI allI ballI impI)
  show "snap_step d d''" using snap_step_trans life_stepD(1) [OF 1] life_stepD(1) [OF 2] by blast
  show "life_inv d''" if "life_inv d" using life_stepD(2) [OF 2 life_stepD(2) [OF 1 that]] .
  show "revoked sid d''" if "known sid d" "revoked sid d" for sid
    using life_stepD(3) [OF 2 life_stepD(5) [OF 1 that(1)] life_stepD(3) [OF 1 that]] .
  show "unbound sid d''" if "known sid d" "unbound sid d" for sid
    using life_stepD(4) [OF 2 life_stepD(5) [OF 1 that(1)] life_stepD(4) [OF 1 that]] .
  show "\<exists>t \<in> set (sessions d''). sr_id t = sr_id s \<and> sr_status t = sr_status s" if "s \<in> set (sessions d)" "terminal (sr_status s)" for s
    using life_stepD(6) [OF 1 that] life_stepD(6) [OF 2] that(2) by metis
  show "prefix (lifecycle_log sid d) (lifecycle_log sid d'')" for sid
    using prefix_order.trans life_stepD(7) [OF 1] life_stepD(7) [OF 2] by blast
qed

lemma life_step_frame:
  assumes s: "snap_step d d'" and f: "snap_frame d d'"
  shows "life_step d d'"
proof -
  have same: "sessions d' = sessions d" "lifecycle_log sid d' = lifecycle_log sid d" "revoked sid d' = revoked sid d"
    "unbound sid d' = unbound sid d" for sid
    using f by (simp_all add: snap_frame_def lifecycle_log_def revoked_def unbound_def)
  have ok: "outbox_ok d' = outbox_ok d" using f by (simp add: snap_frame_def outbox_ok_def rows_of_def)
  have safe: "session_safe d' t" if "t \<in> set (sessions d)" "session_safe d t" for t
    using that(2) snap_stepD(6) [OF s, of "sr_id t"] that(1) unfolding session_safe_def traced_def same by blast
  have "life_inv d'" if "life_inv d"
    using that safe snap_stepD(1) [OF s] unfolding life_inv_def ok same by blast
  with s same show ?thesis unfolding life_step_def by auto
qed

interpretation life: snapshot_protocol life_step
  by unfold_locales (fact life_step_refl, erule (1) life_step_trans, erule life_stepD(1), rule life_step_frame)


section \<open>Every transaction keeps the protocol\<close>

lemma life_session_unique: "life_inv d \<Longrightarrow> s \<in> set (sessions d) \<Longrightarrow> t \<in> set (sessions d) \<Longrightarrow> sr_id s = sr_id t \<Longrightarrow> s = t"
  unfolding life_inv_def outbox_ok_def by (metis distinct_map inj_onD)

lemma not_terminating:
  assumes "life_inv d" "s \<in> set (sessions d)"
  shows "sr_status s \<in> {Pending, Booting, Ready, Terminated, Failed}"
  using assms replay_status by (metis life_inv_def session_safe_def traced_def)

text \<open>A statement that changes tokens and bindings only, and only by revoking and releasing.\<close>

lemma life_step_rows:
  assumes same: "sessions d' = sessions d" "audit_outbox d' = audit_outbox d" "snapshots d' = snapshots d" "snapshot_keys d' = snapshot_keys d"
    "session_snapshot_keys d' = session_snapshot_keys d" "snapshot_deletion_outbox d' = snapshot_deletion_outbox d"
    and less: "\<And>sid. revoked sid d \<Longrightarrow> revoked sid d'" "\<And>sid. unbound sid d \<Longrightarrow> unbound sid d'"
  shows "life_step d d'"
proof -
  have eq: "lifecycle_log sid d' = lifecycle_log sid d" "has_kek sid d' = has_kek sid d" "outbox_ok d' = outbox_ok d" for sid
    using same by (simp_all add: lifecycle_log_def has_kek_def outbox_ok_def rows_of_def)
  have s: "snap_step d d'" by (rule snap_step_same) (use same in simp_all)
  have "session_safe d' t" if "session_safe d t" for t
    using that less unfolding session_safe_def traced_def eq by blast
  then have "life_inv d'" if "life_inv d"
    using that snap_stepD(1) [OF s] unfolding life_inv_def eq same by blast
  with s same less eq show ?thesis unfolding life_step_def by auto
qed

lemma revoke_tokens_step:
  assumes "revoke_tokens t sid reason d = Inr (x, d')"
  shows "life_step d d'" and "revoked sid d'"
proof -
  let ?p = "\<lambda>k. tk_session_id k = sid \<and> tk_revoked_at k = None"
  let ?f = "\<lambda>k. k\<lparr>tk_revoked_at := Some t, tk_revocation_reason := Some reason\<rparr>"
  have d': "d' = d\<lparr>session_tokens := update_where ?p ?f (session_tokens d)\<rparr>"
    using assms by (simp add: revoke_tokens_def update_def)
  have "revoked i d'" if "revoked i d" for i
    unfolding revoked_def
  proof (intro ballI impI)
    fix k assume "k \<in> set (session_tokens d')" and i: "tk_session_id k = i"
    then have "k \<in> set (update_where ?p ?f (session_tokens d))" by (simp add: d')
    then show "tk_revoked_at k \<noteq> None" by (cases rule: update_whereE) (use that i in \<open>auto simp: revoked_def\<close>)
  qed
  then show "life_step d d'" by (intro life_step_rows) (simp_all add: d' unbound_def)
  show "revoked sid d'"
    unfolding revoked_def
  proof (intro ballI impI)
    fix k assume "k \<in> set (session_tokens d')" and i: "tk_session_id k = sid"
    then have "k \<in> set (update_where ?p ?f (session_tokens d))" by (simp add: d')
    then show "tk_revoked_at k \<noteq> None" by (cases rule: update_whereE) (use i in auto)
  qed
qed

lemma release_bindings_step:
  assumes "release_bindings t sid d = Inr (x, d')"
  shows "life_step d d'" and "unbound sid d'"
proof -
  let ?p = "\<lambda>b. tb_session_id b = sid \<and> tb_released_at b = None" and ?f = "\<lambda>b. b\<lparr>tb_released_at := Some t\<rparr>"
  have d': "d' = d\<lparr>transport_bindings := update_where ?p ?f (transport_bindings d)\<rparr>"
    using assms by (simp add: release_bindings_def update_def)
  have row: "tb_released_at b \<noteq> None" if "b \<in> set (transport_bindings d')" "tb_session_id b = i" "i = sid \<or> unbound i d" for b i
  proof -
    have "b \<in> set (update_where ?p ?f (transport_bindings d))" using that(1) by (simp add: d')
    then show ?thesis by (cases rule: update_whereE) (use that(2,3) in \<open>auto simp: unbound_def\<close>)
  qed
  then show "unbound sid d'" by (auto simp: unbound_def)
  have "unbound i d'" if "unbound i d" for i using row that by (auto simp: unbound_def)
  then show "life_step d d'" by (intro life_step_rows) (simp_all add: d' revoked_def)
qed

text \<open>A change of one session's row together with its audit record.\<close>

lemma log_append:
  assumes "ap_eventType p = ''lifecycle''"
  shows "lifecycle_log sid (append_row e i p n d) = lifecycle_log sid d @ (if sid = ai_sessionId i then [ap_method p] else [])"
  using assms by (auto simp: lifecycle_log_def append_row_def new_row_def)

lemma append_row_same [simp]:
  "session_tokens (append_row e i p n d) = session_tokens d" "transport_bindings (append_row e i p n d) = transport_bindings d"
  "snapshots (append_row e i p n d) = snapshots d" "snapshot_keys (append_row e i p n d) = snapshot_keys d"
  "session_snapshot_keys (append_row e i p n d) = session_snapshot_keys d"
  "snapshot_deletion_outbox (append_row e i p n d) = snapshot_deletion_outbox d"
  by (simp_all add: append_row_def)

lemma append_row_sessions:
  "t \<in> set (sessions (append_row e i p n d)) \<longleftrightarrow> (\<exists>s \<in> set (sessions d). t = (if sr_id s = ai_sessionId i then allocate_row i s else s))"
proof -
  have "sessions (append_row e i p n d) = map (\<lambda>s. if sr_id s = ai_sessionId i then allocate_row i s else s) (sessions d)"
    by (simp add: append_row_def update_where_def)
  then show ?thesis by (simp only: set_map image_iff)
qed

lemma allocate_row_same [simp]:
  "sr_id (allocate_row i s) = sr_id s" "sr_status (allocate_row i s) = sr_status s" "sr_failure_reason (allocate_row i s) = sr_failure_reason s"
  by (simp_all add: allocate_row_def)

lemma session_ids_update:
  "(\<And>s. sr_id (f s) = sr_id s) \<Longrightarrow> sr_id ` set (update_where q f ss) = sr_id ` set ss"
  by (rule image_update_where)

lemma append_row_ids: "sr_id ` set (sessions (append_row e i p n d)) = sr_id ` set (sessions d)"
  by (simp add: append_row_def session_ids_update)

lemma outbox_ok_sessions:
  assumes "outbox_ok d" and "\<And>s. sr_id (f s) = sr_id s" and "\<And>s. sr_next_audit_seq (f s) = sr_next_audit_seq s"
  shows "outbox_ok (d\<lparr>sessions := update_where q f (sessions d)\<rparr>)"
proof -
  have "audit_view (d\<lparr>sessions := update_where q f (sessions d)\<rparr>) = audit_view d"
    using assms(2,3) by (auto simp: audit_view_def update_where_def)
  with assms(1) show ?thesis by (simp add: outbox_ok_view)
qed


lemma life_mark:
  fixes f :: "session_row \<Rightarrow> session_row"
  assumes inv: "life_inv d" and s0: "s0 \<in> set (sessions d)" "sr_id s0 = sid" "\<not> terminal (sr_status s0)"
    and f: "\<And>s. sr_id (f s) = sr_id s" "\<And>s. sr_next_audit_seq (f s) = sr_next_audit_seq s"
    and q: "q s0" "\<And>s. q s \<Longrightarrow> sr_id s = sid"
    and i: "ai_sessionId i = sid" "ap_eventType p = ''lifecycle''"
    and s1: "s1 \<in> set (sessions (d\<lparr>sessions := update_where q f (sessions d)\<rparr>))" "sr_id s1 = sid" "e \<notin> ob_id ` set (audit_outbox d)"
    and legal: "\<And>m. legal m \<Longrightarrow> m_status m = sr_status s0 \<Longrightarrow>
      legal (follow (ap_method p) m) \<and> m_status (follow (ap_method p) m) = sr_status (f s0)"
    and settle: "settled_row (f s0) \<Longrightarrow> revoked sid d \<and> unbound sid d"
    and kek: "sr_status (f s0) = Terminated \<Longrightarrow> \<not> has_kek sid d"
  shows "life_step d (append_row e i p (sr_next_audit_seq s1 + 1) (d\<lparr>sessions := update_where q f (sessions d)\<rparr>))" (is "life_step d ?d'")
proof -
  define d1 where "d1 = d\<lparr>sessions := update_where q f (sessions d)\<rparr>"
  define d' where "d' = append_row e i p (sr_next_audit_seq s1 + 1) d1"
  have one: "s = s0" if "s \<in> set (sessions d)" "sr_id s = sid" for s
    using life_session_unique [OF inv that(1) s0(1)] that(2) s0(2) by simp
  have rows1: "s \<in> set (sessions d1) \<Longrightarrow> s = f s0 \<or> s \<in> set (sessions d) \<and> sr_id s \<noteq> sid" for s
  proof -
    assume "s \<in> set (sessions d1)"
    then have "s \<in> set (update_where q f (sessions d))" by (simp add: d1_def)
    then show ?thesis by (cases rule: update_whereE) (use one q in metis)+
  qed
  have rows: "t = allocate_row i (f s0) \<or> t \<in> set (sessions d) \<and> sr_id t \<noteq> sid" if t: "t \<in> set (sessions d')" for t
  proof -
    obtain s where "s \<in> set (sessions d1)" "t = (if sr_id s = sid then allocate_row i s else s)"
      using t unfolding d'_def append_row_sessions i(1) by blast
    with rows1 [of s] f(1) [of s0] s0(2) show ?thesis by auto
  qed
  have log: "lifecycle_log j d' = lifecycle_log j d @ (if j = sid then [ap_method p] else [])" for j
    unfolding d'_def log_append [OF i(2)] i(1) by (simp add: d1_def lifecycle_log_def)
  have same: "revoked j d' = revoked j d" "unbound j d' = unbound j d" "has_kek j d' = has_kek j d" for j
    by (simp_all add: d'_def d1_def revoked_def unbound_def has_kek_def)
  have ids: "sr_id ` set (sessions d') = sr_id ` set (sessions d)"
    by (simp add: d'_def append_row_ids d1_def session_ids_update f)
  have step: "snap_step d d'" by (rule snap_step_same) (use ids in \<open>simp_all add: d'_def d1_def\<close>)
  have out: "outbox_ok d'"
    unfolding d'_def d1_def
    by (rule outbox_ok_append [OF outbox_ok_sessions]) (use inv f s1 i in \<open>auto simp: life_inv_def\<close>)
  have tr: "traced d s0" using inv s0(1) by (simp add: life_inv_def session_safe_def)
  have "session_safe d' t" if t: "t \<in> set (sessions d')" for t
    using rows [OF t]
  proof
    assume t: "t = allocate_row i (f s0)"
    then have "sr_id t = sid" "sr_status t = sr_status (f s0)" "settled_row t = settled_row (f s0)"
      using f(1) s0(2) by (simp_all add: settled_row_def)
    then show ?thesis
      using tr legal settle kek s0(2) unfolding session_safe_def traced_def same log by (simp add: replay_snoc)
  next
    assume t: "t \<in> set (sessions d) \<and> sr_id t \<noteq> sid"
    then have "session_safe d t" using inv by (simp add: life_inv_def)
    with t show ?thesis unfolding session_safe_def traced_def same log by simp
  qed
  then have "life_inv d'" using out snap_stepD(1) [OF step] inv by (simp add: life_inv_def)
  moreover have "\<exists>t \<in> set (sessions d'). sr_id t = sr_id s \<and> sr_status t = sr_status s"
    if s: "s \<in> set (sessions d)" "terminal (sr_status s)" for s
  proof -
    have "sr_id s \<noteq> sid" using one s s0(3) by blast
    then have "s \<in> set (sessions d1)" using s(1) q(2) by (auto simp: d1_def update_where_def)
    then show ?thesis unfolding d'_def append_row_sessions
      using \<open>sr_id s \<noteq> sid\<close> i(1) by (intro bexI [of _ s]) (auto simp: append_row_sessions)
  qed
  ultimately have "life_step d d'" using step same log unfolding life_step_def by simp
  then show ?thesis unfolding d'_def d1_def .
qed


lemma enqueued_run:
  assumes "enqueueInTransaction i w = (Inr ev, w')" and "ai_eventType i = ''lifecycle''" and "ai_method i = Some a"
  obtains e p s1 where "s1 \<in> set (sessions (db w))" "sr_id s1 = ai_sessionId i" "e \<notin> ob_id ` set (audit_outbox (db w))"
    "ap_eventType p = ''lifecycle''" "ap_method p = a" "db w' = append_row e i p (sr_next_audit_seq s1 + 1) (db w)"
proof -
  obtain p where p: "buildAuditPayload (now w) i = Inr p" and al: "allocateOutboxEvent i p w = (Inr ev, w')"
    using assms(1) by (auto simp: enqueueInTransaction_def bnd_def build_now_run split: sum.splits)
  have "ap_eventType p = ''lifecycle''" "ap_method p = a"
    using p assms(2,3) by (auto simp: buildAuditPayload_def orElse_def Let_def split: sum.splits)
  with al that show thesis by (cases rule: allocateOutboxEvent_cases) blast+
qed

lemma audit_input_run:
  assumes "lifecycleAuditInput sid action k hw intent ec w = (r, w1)"
  obtains i where "r = Inr i" "ai_sessionId i = sid" "ai_eventType i = ''lifecycle''" "ai_method i = Some (js action)" "db w1 = db w"
proof -
  obtain u n where "uuidV7 w = (Inr u, w\<lparr>draws := n\<rparr>)" using uuidV7_run by blast
  with assms show thesis by (intro that) (auto simp: lifecycleAuditInput_def bnd_def ret_def)
qed

lemma audit_session_run:
  assumes "audit_session s action ec w = (Inr x, w')"
  obtains e i p s1 where "s1 \<in> set (sessions (db w))" "sr_id s1 = sr_id s" "e \<notin> ob_id ` set (audit_outbox (db w))"
    "ai_sessionId i = sr_id s" "ap_eventType p = ''lifecycle''" "ap_method p = js action"
    "db w' = append_row e i p (sr_next_audit_seq s1 + 1) (db w)"
proof -
  obtain k where k: "requireDriver (sr_driver s) = Inr k"
    using assms by (auto simp: audit_session_def bnd_def of_result_def split: sum.splits)
  obtain r w1 where a: "lifecycleAuditInput (sr_id s) action k (sr_hardware_isolated s) (sr_purpose s) ec w = (r, w1)" by fastforce
  then obtain i where i: "r = Inr i" "ai_sessionId i = sr_id s" "ai_eventType i = ''lifecycle''" "ai_method i = Some (js action)" "db w1 = db w"
    by (rule audit_input_run)
  obtain ev w2 where e: "enqueueInTransaction i w1 = (Inr ev, w2)" and w': "w' = w2"
    using assms k a i(1) by (auto simp: audit_session_def bnd_def of_result_def ret_def split: sum.splits prod.splits)
  from enqueued_run [OF e i(3,4)] i w' that show thesis by metis
qed

lemma update_session_hit:
  assumes "update_session sid P f d = Inr (n, d1)" and "n \<noteq> 0"
  obtains s0 where "s0 \<in> set (sessions d)" "sr_id s0 = sid" "P (sr_status s0)"
    "d1 = d\<lparr>sessions := update_where (\<lambda>s. sr_id s = sid \<and> P (sr_status s)) f (sessions d)\<rparr>"
  using assms by (auto simp: update_session_def Let_def filter_empty_conv)

lemma update_session_miss:
  assumes "update_session sid P f d = Inr (0, d1)"
  shows "d1 = d"
proof -
  have "\<not> (sr_id s = sid \<and> P (sr_status s))" if "s \<in> set (sessions d)" for s
    using assms that by (auto simp: update_session_def Let_def filter_empty_conv)
  then have "update_where (\<lambda>s. sr_id s = sid \<and> P (sr_status s)) f (sessions d) = sessions d"
    by (intro update_where_none) blast
  with assms show ?thesis by (simp add: update_session_def Let_def)
qed

text \<open>The common form of the three transactions: after the update, the record or nothing.\<close>

lemma triple_record:
  assumes "\<And>e i p s1. s1 \<in> set (sessions d1) \<Longrightarrow> sr_id s1 = sr_id s \<Longrightarrow> e \<notin> ob_id ` set (audit_outbox d1) \<Longrightarrow> ai_sessionId i = sr_id s \<Longrightarrow>
      ap_eventType p = ''lifecycle'' \<Longrightarrow> ap_method p = js action \<Longrightarrow> count \<noteq> 0 \<Longrightarrow> life_step d (append_row e i p (sr_next_audit_seq s1 + 1) d1)"
    and "count = 0 \<Longrightarrow> life_step d d1"
  shows "triple (\<lambda>w. db w = d1) (if count = 0 then ret () else audit_session s action ec) (\<lambda>_ w. life_step d (db w)) (\<lambda>_ _. True)"
proof (cases "count = 0")
  case True
  then show ?thesis using assms(2) by (auto intro: triple_ret)
next
  case False
  have "triple (\<lambda>w. db w = d1) (audit_session s action ec) (\<lambda>_ w. life_step d (db w)) (\<lambda>_ _. True)"
    by (rule tripleI) (use assms(1) False in \<open>auto elim!: audit_session_run\<close>)
  with False show ?thesis by simp
qed

lemma triple_db: "(\<And>d1. A d1 \<Longrightarrow> triple (\<lambda>w. db w = d1) m Q E) \<Longrightarrow> triple (\<lambda>w. A (db w)) m Q E"
  unfolding triple_def by simp

lemma triple_statement: "triple (\<lambda>w. db w = d) (query f) (\<lambda>x w. f d = Inr (x, db w)) (\<lambda>_ _. True)"
  by (rule triple_query) auto

lemma triple_inv:
  assumes "life_inv d" and "triple P m (\<lambda>_ w. life_step d (db w)) (\<lambda>_ _. True)"
  shows "triple P m (\<lambda>_ w. life_step d (db w) \<and> life_inv (db w)) (\<lambda>_ _. True)"
  by (rule triple_conseq [OF assms(2)]) (use assms(1) life_stepD(2) in auto)

lemma triple_mark:
  fixes f :: "session_row \<Rightarrow> session_row"
  assumes inv: "life_inv d" and P: "\<And>st. P st \<Longrightarrow> \<not> terminal st"
    and f: "\<And>s. sr_id (f s) = sr_id s" "\<And>s. sr_next_audit_seq (f s) = sr_next_audit_seq s"
    and legal: "\<And>m s0. legal m \<Longrightarrow> P (m_status m) \<Longrightarrow> legal (follow (js action) m) \<and> m_status (follow (js action) m) = sr_status (f s0)"
    and settle: "\<And>s0. settled_row (f s0) \<Longrightarrow> revoked (sr_id s) d \<and> unbound (sr_id s) d"
    and kek: "\<And>s0. sr_status (f s0) = Terminated \<Longrightarrow> \<not> has_kek (sr_id s) d"
  shows "triple (\<lambda>w. db w = d) (bnd (query (update_session (sr_id s) P f)) (\<lambda>count.
      if count = 0 then ret () else audit_session s action ec)) (\<lambda>_ w. life_step d (db w) \<and> life_inv (db w)) (\<lambda>_ _. True)"
proof (rule triple_inv [OF inv], rule triple_bnd [OF triple_statement], rule triple_db, rule triple_record)
  fix n d1 e s1 and i :: audit_input and p :: audit_payload
  assume u: "update_session (sr_id s) P f d = Inr (n, d1)" and n: "n \<noteq> 0"
    and new: "s1 \<in> set (sessions d1)" "sr_id s1 = sr_id s" "e \<notin> ob_id ` set (audit_outbox d1)" "ai_sessionId i = sr_id s"
      "ap_eventType p = ''lifecycle''" "ap_method p = js action"
  obtain s0 where s0: "s0 \<in> set (sessions d)" "sr_id s0 = sr_id s" "P (sr_status s0)"
    "d1 = d\<lparr>sessions := update_where (\<lambda>t. sr_id t = sr_id s \<and> P (sr_status t)) f (sessions d)\<rparr>"
    using update_session_hit [OF u n] by blast
  show "life_step d (append_row e i p (sr_next_audit_seq s1 + 1) d1)"
    unfolding s0(4)
    by (rule life_mark [OF inv s0(1,2) P [OF s0(3)]])
      (use s0 new f legal settle kek in auto)
next
  fix n d1 assume "update_session (sr_id s) P f d = Inr (n, d1)" "n = 0"
  then show "life_step d d1" using update_session_miss life_step_refl by blast
qed

lemma guar_markReady: "guar life_step life_inv (markReady s) (\<lambda>_. life_inv)"
  unfolding markReady_def
  by (rule life.guar_transaction, rule triple_mark) (auto simp: terminal_def settled_row_def follow_legal)

lemma stable_life: "stable life_step life_inv" "stable life_step (known sid)"
  by (auto intro: stableI dest: life_stepD(2,5))

lemma stable_over:
  "stable life_step (\<lambda>d. known sid d \<and> revoked sid d)" "stable life_step (\<lambda>d. known sid d \<and> unbound sid d)"
  "stable life_step (\<lambda>d. known sid d \<and> \<not> has_kek sid d)"
  by (auto intro!: stableI dest: life_stepD(3,4,5,8))

definition over :: "string \<Rightarrow> db \<Rightarrow> bool" where
  "over sid d \<longleftrightarrow> known sid d \<and> revoked sid d \<and> unbound sid d"

lemma stable_over_known: "stable life_step (over sid)"
  using stable_over(1,2) unfolding over_def stable_def by blast

lemma unsettled_not_terminal: "unsettled st \<Longrightarrow> \<not> terminal st"
  by (auto simp: unsettled_def terminal_def)

lemma guar_markFailed:
  assumes "js auditMethod \<notin> {js ''create'', js ''ready'', js ''destroy''}"
  shows "guar life_step (\<lambda>d. life_inv d \<and> (reason \<noteq> CleanupPending \<longrightarrow> over (sr_id s) d)) (markFailed s reason auditMethod) (\<lambda>_. life_inv)"
  unfolding markFailed_def
  by (rule life.guar_transaction, rule triple_bnd [OF triple_now], rule triple_mark)
    (use assms in \<open>simp_all add: unsettled_not_terminal follow_legal(4) settled_row_def over_def\<close>)

lemma unsettled_cases:
  assumes inv: "life_inv d" and 1: "update_session sid unsettled f d = Inr (n1, d1)"
    and f: "\<And>s. sr_id (f s) = sr_id s" "\<And>s. sr_status (f s) = Terminating"
    and 2: "update_session sid (\<lambda>st. st = Terminating) g d1 = Inr (n, d2)"
  shows "update_session sid unsettled (\<lambda>s. g (f s)) d = Inr (n, d2)"
proof -
  let ?p = "\<lambda>s. sr_id s = sid \<and> unsettled (sr_status s)" and ?q = "\<lambda>s. sr_id s = sid \<and> sr_status s = Terminating"
  have d1: "d1 = d\<lparr>sessions := update_where ?p f (sessions d)\<rparr>" using 1 by (simp add: update_session_def Let_def)
  have not: "sr_status s \<noteq> Terminating" if "s \<in> set (sessions d)" for s using not_terminating [OF inv that] by auto
  have m: "map (\<lambda>s. if ?q s then g s else s) (map (\<lambda>s. if ?p s then f s else s) (sessions d)) = map (\<lambda>s. if ?p s then g (f s) else s) (sessions d)"
    using not f by auto
  have "filter ?q (map (\<lambda>s. if ?p s then f s else s) ss) = map f (filter ?p ss)"
    if "\<forall>s \<in> set ss. sr_status s \<noteq> Terminating" for ss
    using that f by (induction ss) auto
  from this [of "sessions d"] not
  have l: "length (filter ?q (map (\<lambda>s. if ?p s then f s else s) (sessions d))) = length (filter ?p (sessions d))" by simp
  have "sessions d1 = map (\<lambda>s. if ?p s then f s else s) (sessions d)" by (simp add: d1 update_where_def)
  with 2 have "n = length (filter ?p (sessions d))" "d2 = d1\<lparr>sessions := map (\<lambda>s. if ?p s then g (f s) else s) (sessions d)\<rparr>"
    by (simp_all only: update_session_def Let_def update_where_def m l sum.inject prod.inject)
  then show ?thesis by (simp add: update_session_def Let_def update_where_def d1)
qed

lemma guar_markTerminated:
  "guar life_step (\<lambda>d. life_inv d \<and> over (sr_id s) d \<and> \<not> has_kek (sr_id s) d) (markTerminated s reason) (\<lambda>_. life_inv)"
  unfolding markTerminated_def
proof (rule life.guar_transaction, rule triple_bnd [OF triple_now], rule triple_bnd [OF triple_statement], rule triple_db,
    rule triple_bnd [OF triple_statement], rule triple_db)
  fix d n1 d1 n d2 t
  let ?f = "\<lambda>r :: session_row. r\<lparr>sr_status := Terminating\<rparr>"
  let ?g = "\<lambda>r :: session_row. r\<lparr>sr_status := Terminated, sr_terminated_at := Some t, sr_termination_reason := Some reason\<rparr>"
  assume d: "life_inv d \<and> over (sr_id s) d \<and> \<not> has_kek (sr_id s) d"
    and u: "update_session (sr_id s) unsettled ?f d = Inr (n1, d1)" "update_session (sr_id s) (\<lambda>st. st = Terminating) ?g d1 = Inr (n, d2)"
  have both: "update_session (sr_id s) unsettled (\<lambda>r. ?g (?f r)) d = Inr (n, d2)"
    by (rule unsettled_cases [OF _ u(1) _ _ u(2)]) (use d in simp_all)
  show "triple (\<lambda>w :: 'a world_scheme. db w = d2) (if n = 0 then ret () else audit_session s ''destroy'' None)
      (\<lambda>_ w. life_step d (db w) \<and> life_inv (db w)) (\<lambda>_ _. True)"
  proof (rule triple_inv, use d in simp, rule triple_record)
    show "life_step d d2" if "n = 0" using both that update_session_miss life_step_refl by blast
    fix e s1 and i :: audit_input and p :: audit_payload
    assume n: "n \<noteq> 0" and new: "s1 \<in> set (sessions d2)" "sr_id s1 = sr_id s" "e \<notin> ob_id ` set (audit_outbox d2)" "ai_sessionId i = sr_id s"
      "ap_eventType p = ''lifecycle''" "ap_method p = js ''destroy''"
    obtain s0 where s0: "s0 \<in> set (sessions d)" "sr_id s0 = sr_id s" "unsettled (sr_status s0)"
      "d2 = d\<lparr>sessions := update_where (\<lambda>t. sr_id t = sr_id s \<and> unsettled (sr_status t)) (\<lambda>r. ?g (?f r)) (sessions d)\<rparr>"
      using update_session_hit [OF both n] by blast
    show "life_step d (append_row e i p (sr_next_audit_seq s1 + 1) d2)"
      unfolding s0(4)
      by (rule life_mark [OF _ s0(1,2) unsettled_not_terminal [OF s0(3)]])
        (use d s0 new in \<open>auto simp: follow_legal(3) over_def\<close>)
  qed
qed


text \<open>Creation: the five rows appear together.\<close>

lemma life_create:
  assumes inv: "life_inv d" and new: "sr_id s \<notin> sr_id ` set (sessions d)" and s: "sr_status s = Booting" "sr_next_audit_seq s = 0"
    and rows: "sk_session_id k = sr_id s" "tk_session_id t = sr_id s" "tb_session_id b = sr_id s"
    and d3: "d3 = d\<lparr>sessions := sessions d @ [s], session_snapshot_keys := session_snapshot_keys d @ [k],
      session_tokens := session_tokens d @ [t], transport_bindings := transport_bindings d @ [b]\<rparr>"
    and i: "ai_sessionId i = sr_id s" "ap_eventType p = ''lifecycle''" "ap_method p = js ''create''"
    and s1: "s1 \<in> set (sessions d3)" "sr_id s1 = sr_id s" "e \<notin> ob_id ` set (audit_outbox d3)"
  shows "life_step d (append_row e i p (sr_next_audit_seq s1 + 1) d3)"
proof -
  define d' where "d' = append_row e i p (sr_next_audit_seq s1 + 1) d3"
  have out: "outbox_ok d" using inv by (simp add: life_inv_def)
  have foreign: "ob_session_id r \<noteq> sr_id s" if "r \<in> set (audit_outbox d)" for r
    using out new that unfolding outbox_ok_def by metis
  then have none: "filter (\<lambda>r. ob_session_id r = sr_id s) (audit_outbox d) = []" by (simp add: filter_empty_conv)
  have "audit_view d3 = audit_view d @ [(sr_id s, 0)]" "audit_outbox d3 = audit_outbox d"
    by (simp_all add: d3 audit_view_def s)
  with out none new have "outbox_ok d3" by (auto simp: outbox_ok_view audit_view_def image_image)
  then have out': "outbox_ok d'" unfolding d'_def by (rule outbox_ok_append) (use s1 i in auto)
  have other: "revoked j d' = revoked j d" "unbound j d' = unbound j d" "has_kek j d' = has_kek j d" if "known j d" for j
  proof -
    have "j \<noteq> sr_id s" using that new unfolding known_def by metis
    then show "revoked j d' = revoked j d" "unbound j d' = unbound j d" "has_kek j d' = has_kek j d"
      using rows by (auto simp: d'_def d3 revoked_def unbound_def has_kek_def)
  qed
  have log: "lifecycle_log j d' = lifecycle_log j d @ (if j = sr_id s then [js ''create''] else [])" for j
    unfolding d'_def log_append [OF i(2)] i by (simp add: d3 lifecycle_log_def)
  have log0: "lifecycle_log (sr_id s) d = []"
    using foreign by (auto simp: lifecycle_log_def filter_empty_conv)
  have sess: "u \<in> set (sessions d') \<longleftrightarrow> u \<in> set (sessions d) \<or> u = allocate_row i s" for u
    unfolding d'_def append_row_sessions i(1) using new by (auto simp: d3) (metis imageI)+
  have snap: "snapshots d' = snapshots d" "has_dek j u d' = has_dek j u d" "queued j d' = queued j d" for j u
    by (simp_all add: d'_def d3 has_dek_def queued_def)
  have known: "known j d'" if "known j d" for j using that sess by (auto simp: known_def)
  have "snapshot_ok d' n" if "snapshot_ok d n" for n
    using that other(3) known unfolding snapshot_ok_def snap known_def by metis
  then have snap': "snap_inv d'" using inv unfolding life_inv_def snap_inv_def snap by blast
  have step: "snap_step d d'"
    by (rule snap_stepI) (use snap snap' known other(3) in \<open>auto simp: same_snapshot_def known_def\<close>)
  have safe: "session_safe d' u" if u: "u \<in> set (sessions d')" for u
    using u unfolding sess
  proof
    assume u: "u \<in> set (sessions d)"
    then have "known (sr_id u) d" "sr_id u \<noteq> sr_id s" "session_safe d u" using new inv unfolding known_def life_inv_def by (metis imageI)+
    then show ?thesis unfolding session_safe_def traced_def log by (simp add: other)
  next
    assume "u = allocate_row i s"
    then show ?thesis
      using s follow_legal(1) [of "replay []"]
      by (simp add: session_safe_def traced_def log log0 settled_row_def replay_def new_machine_def legal_def)
  qed
  have "life_step d d'"
    unfolding life_step_def
  proof (intro conjI allI ballI impI)
    show "life_inv d'" using safe out' snap' by (simp add: life_inv_def)
    show "\<exists>u \<in> set (sessions d'). sr_id u = sr_id v \<and> sr_status u = sr_status v" if "v \<in> set (sessions d)" for v
      using that sess by blast
  qed (use step other log in auto)
  then show ?thesis by (simp add: d'_def)
qed



end
