(* ===== verification/Lifecycle_Handlers.thy ===== *)
theory Lifecycle_Handlers
  imports Lifecycle_Safety
begin

text \<open>
  The handlers of the session lifecycle keep \<open>life_step\<close> and the invariant, whatever other handlers do while they wait and
  whichever statement, driver call or transport call fails; and what a client gets from a successful creation.
\<close>

section \<open>Creation\<close>

lemma triple_still:
  assumes "\<And>w r w'. m w = (r, w') \<Longrightarrow> db w' = db w"
  shows "triple (\<lambda>w. db w = d) m (\<lambda>_ w. db w = d) (\<lambda>_ _. True)"
  by (rule tripleI) (use assms in auto)

lemma triple_provision:
  "triple (\<lambda>w. db w = d) (provisionSessionKey crypto sid)
     (\<lambda>_ w. \<exists>k. sk_session_id k = sid \<and> insert_session_key k d = Inr ((), db w)) (\<lambda>_ _. True)"
  unfolding provisionSessionKey_def
  by (rule triple_bnd [OF triple_still [OF db_createKek]], assumption, rule triple_conseq [OF triple_statement],
      assumption, rule exI, rule conjI [rotated]) auto

lemma db_uuidV7: "uuidV7 w = (r, w') \<Longrightarrow> db w' = db w"
  by (auto simp: uuidV7_def randomBytes_def)

lemma triple_audit_create:
  "triple (\<lambda>w. db w = d) (bnd (lifecycleAuditInput sid action k hw intent ec) (\<lambda>a. seq (enqueueInTransaction a) (ret ())))
     (\<lambda>_ w. \<exists>e i p s1. s1 \<in> set (sessions d) \<and> sr_id s1 = sid \<and> e \<notin> ob_id ` set (audit_outbox d) \<and> ai_sessionId i = sid
        \<and> ap_eventType p = ''lifecycle'' \<and> ap_method p = js action \<and> db w = append_row e i p (sr_next_audit_seq s1 + 1) d) (\<lambda>_ _. True)"
proof (rule tripleI)
  fix w x w' assume d: "db w = d"
    and run: "bnd (lifecycleAuditInput sid action k hw intent ec) (\<lambda>a. seq (enqueueInTransaction a) (ret ())) w = (Inr x, w')"
  obtain r w1 where a: "lifecycleAuditInput sid action k hw intent ec w = (r, w1)" by fastforce
  then obtain i where i: "r = Inr i" "ai_sessionId i = sid" "ai_eventType i = ''lifecycle''" "ai_method i = Some (js action)" "db w1 = db w"
    by (rule audit_input_run)
  obtain ev where e: "enqueueInTransaction i w1 = (Inr ev, w')"
    using run a i(1) by (auto simp: bnd_def ret_def split: sum.splits prod.splits)
  from enqueued_run [OF e i(3,4)] i d
  show "\<exists>e i p s1. s1 \<in> set (sessions d) \<and> sr_id s1 = sid \<and> e \<notin> ob_id ` set (audit_outbox d) \<and> ai_sessionId i = sid
        \<and> ap_eventType p = ''lifecycle'' \<and> ap_method p = js action \<and> db w' = append_row e i p (sr_next_audit_seq s1 + 1) d"
    by metis
qed simp

text \<open>What a committed creation did to the database.\<close>

definition created :: "session_row \<Rightarrow> token_row \<Rightarrow> binding_row \<Rightarrow> db \<Rightarrow> db \<Rightarrow> bool" where
  "created s t b d d' \<longleftrightarrow> (\<exists>k e i p s1 d3. sr_id s \<notin> sr_id ` set (sessions d) \<and> sk_session_id k = sr_id s
     \<and> tk_id t \<notin> tk_id ` set (session_tokens d) \<and> filter (active_for (binding_peer b)) (transport_bindings d) = []
     \<and> d3 = d\<lparr>sessions := sessions d @ [s], session_snapshot_keys := session_snapshot_keys d @ [k],
          session_tokens := session_tokens d @ [t], transport_bindings := transport_bindings d @ [b]\<rparr>
     \<and> ai_sessionId i = sr_id s \<and> ap_eventType p = ''lifecycle'' \<and> ap_method p = js ''create''
     \<and> s1 \<in> set (sessions d3) \<and> sr_id s1 = sr_id s \<and> e \<notin> ob_id ` set (audit_outbox d3)
     \<and> d' = append_row e i p (sr_next_audit_seq s1 + 1) d3)"

definition new_token :: "create_request \<Rightarrow> string \<Rightarrow> int \<Rightarrow> token_record \<Rightarrow> int \<Rightarrow> token_row" where
  "new_token request sid expiresAt token t = \<lparr>tk_id = tr_id token, tk_session_id = sid, tk_token_hash = tr_tokenHash token,
     tk_scopes = cq_scopes request, tk_issued_at = t, tk_expires_at = expiresAt, tk_revoked_at = None, tk_revocation_reason = None\<rparr>"

definition new_binding :: "string \<Rightarrow> string \<Rightarrow> token_record \<Rightarrow> prepared_sandbox \<Rightarrow> int \<Rightarrow> binding_row" where
  "new_binding i sid token p t = \<lparr>tb_id = i, tb_session_id = sid, tb_host_id = pr_hostId (pp_transport p),
     tb_transport_kind = pr_transportKind (pp_transport p), tb_peer_identifier = pr_peerIdentifier (pp_transport p),
     tb_token_id = tr_id token, tb_bound_at = t, tb_released_at = None\<rparr>"

lemma triple_create_rows:
  "triple (\<lambda>w. db w = d) (create_rows env request sid bundle expiresAt token p base)
     (\<lambda>_ w. \<exists>t i. created (new_session env request sid bundle expiresAt p base t) (new_token request sid expiresAt token t)
        (new_binding i sid token p t) d (db w)) (\<lambda>_ _. True)"
  unfolding create_rows_def
proof (rule triple_bnd [OF triple_now], rule triple_bnd [OF triple_statement], rule triple_db, rule triple_bnd [OF triple_provision], rule triple_db,
    rule triple_bnd [OF triple_statement], rule triple_db, rule triple_bnd [OF triple_still [OF db_uuidV7]], assumption,
    rule triple_bnd [OF triple_statement], rule triple_db, rule triple_conseq [OF triple_audit_create])
  fix t d0 d1 d2 i d3 and w :: "'a world_scheme" and u u' u'' :: unit
  let ?s = "new_session env request sid bundle expiresAt p base t"
  assume s: "insert_session ?s d = Inr (u, d0)" and k: "\<exists>k. sk_session_id k = sid \<and> insert_session_key k d0 = Inr ((), d1)"
    and t: "insert_token \<lparr>tk_id = tr_id token, tk_session_id = sid, tk_token_hash = tr_tokenHash token,
     tk_scopes = cq_scopes request, tk_issued_at = t, tk_expires_at = expiresAt, tk_revoked_at = None, tk_revocation_reason = None\<rparr> d1 = Inr (u', d2)"
    and b: "insert_binding \<lparr>tb_id = i, tb_session_id = sid, tb_host_id = pr_hostId (pp_transport p),
     tb_transport_kind = pr_transportKind (pp_transport p), tb_peer_identifier = pr_peerIdentifier (pp_transport p),
     tb_token_id = tr_id token, tb_bound_at = t, tb_released_at = None\<rparr> d2 = Inr (u'', d3)"
  assume a: "\<exists>e i p s1. s1 \<in> set (sessions d3) \<and> sr_id s1 = sid \<and> e \<notin> ob_id ` set (audit_outbox d3) \<and> ai_sessionId i = sid
        \<and> ap_eventType p = ''lifecycle'' \<and> ap_method p = js ''create'' \<and> db w = append_row e i p (sr_next_audit_seq s1 + 1) d3"
  obtain k where k: "sk_session_id k = sid" "insert_session_key k d0 = Inr ((), d1)" using k by blast
  have id: "sr_id ?s = sid" by (simp add: new_session_def)
  have d0: "sid \<notin> sr_id ` set (sessions d)" "d0 = d\<lparr>sessions := sessions d @ [?s]\<rparr>"
    using s id by (auto simp: insert_session_def split: if_splits)
  have d1: "d1 = d0\<lparr>session_snapshot_keys := session_snapshot_keys d0 @ [k]\<rparr>"
    using k by (auto simp: insert_session_key_def split: if_splits)
  have d2: "tr_id token \<notin> tk_id ` set (session_tokens d1)" "d2 = d1\<lparr>session_tokens := session_tokens d1 @ [new_token request sid expiresAt token t]\<rparr>"
    using t by (auto simp: insert_token_def new_token_def split: if_splits)
  have d3: "filter (active_for (binding_peer (new_binding i sid token p t))) (transport_bindings d2) = []"
    "d3 = d2\<lparr>transport_bindings := transport_bindings d2 @ [new_binding i sid token p t]\<rparr>"
    using b by (auto simp: insert_binding_def new_binding_def filter_empty_conv split: if_splits)
  have "d3 = d\<lparr>sessions := sessions d @ [?s], session_snapshot_keys := session_snapshot_keys d @ [k],
      session_tokens := session_tokens d @ [new_token request sid expiresAt token t],
      transport_bindings := transport_bindings d @ [new_binding i sid token p t]\<rparr>"
    by (simp add: d3(2) d2(2) d1 d0(2))
  moreover have "tk_id (new_token request sid expiresAt token t) \<notin> tk_id ` set (session_tokens d)" "transport_bindings d2 = transport_bindings d"
    using d2 by (simp_all add: new_token_def d1 d0(2))
  ultimately show "\<exists>t i. created (new_session env request sid bundle expiresAt p base t) (new_token request sid expiresAt token t)
        (new_binding i sid token p t) d (db w)"
    using a d0(1) d3(1) k(1) id unfolding created_def by metis
qed simp_all


lemma created_step:
  assumes "life_inv d" and "created s t b d d'" and "sr_status s = Booting" "sr_next_audit_seq s = 0" and "tk_session_id t = sr_id s" "tb_session_id b = sr_id s"
  shows "life_step d d'"
proof -
  obtain k e i p s1 d3 where c: "sr_id s \<notin> sr_id ` set (sessions d)" "sk_session_id k = sr_id s"
    "d3 = d\<lparr>sessions := sessions d @ [s], session_snapshot_keys := session_snapshot_keys d @ [k],
          session_tokens := session_tokens d @ [t], transport_bindings := transport_bindings d @ [b]\<rparr>"
    "ai_sessionId i = sr_id s" "ap_eventType p = ''lifecycle''" "ap_method p = js ''create''"
    "s1 \<in> set (sessions d3)" "sr_id s1 = sr_id s" "e \<notin> ob_id ` set (audit_outbox d3)" "d' = append_row e i p (sr_next_audit_seq s1 + 1) d3"
    using assms(2) unfolding created_def by blast
  from life_create [OF assms(1) c(1) assms(3,4) c(2) assms(5,6) c(3-9)] show ?thesis unfolding c(10) .
qed

lemma guar_create_rows:
  "guar life_step life_inv (transaction (create_rows env request sid bundle expiresAt token p base)) (\<lambda>_ d'. life_inv d' \<and> known sid d')"
proof (rule life.guar_transaction, rule triple_conseq [OF triple_create_rows])
  fix d x and w :: "'a world_scheme" assume inv: "life_inv d"
  assume "\<exists>t i. created (new_session env request sid bundle expiresAt p base t) (new_token request sid expiresAt token t)
        (new_binding i sid token p t) d (db w)"
  then obtain t i where c: "created (new_session env request sid bundle expiresAt p base t) (new_token request sid expiresAt token t)
        (new_binding i sid token p t) d (db w)" by blast
  have "life_step d (db w)"
    by (rule created_step [OF inv c]) (simp_all add: new_session_def new_token_def new_binding_def)
  moreover have "known sid (db w)"
    using c by (auto simp: created_def known_def append_row_ids new_session_def)
  ultimately show "life_step d (db w) \<and> life_inv (db w) \<and> known sid (db w)" using life_stepD(2) inv by blast
qed simp_all

section \<open>Steps of teardown\<close>

text \<open>What a handler has established about a session: key erased, tokens revoked, transport released.\<close>

definition facts :: "string \<Rightarrow> bool \<Rightarrow> bool \<Rightarrow> bool \<Rightarrow> db \<Rightarrow> bool" where
  "facts sid k r u d \<longleftrightarrow> life_inv d \<and> known sid d \<and> (k \<longrightarrow> \<not> has_kek sid d) \<and> (r \<longrightarrow> revoked sid d) \<and> (u \<longrightarrow> unbound sid d)"

lemma stable_facts: "stable life_step (facts sid k r u)"
  by (rule stableI) (auto simp: facts_def dest: life_stepD)

lemma factsD: "facts sid k r u d \<Longrightarrow> life_inv d" "facts sid k r u d \<Longrightarrow> known sid d" "facts sid k r u d \<Longrightarrow> snap_inv d"
  by (simp_all add: facts_def life_inv_def)

lemma guar_attempt:
  assumes "guar life_step P m (\<lambda>_. Q)" and "stable life_step P"
  shows "guar life_step P (attempt m) (\<lambda>b d. P d \<and> (b \<longrightarrow> Q d))"
  unfolding attempt_def
  by (rule life.guar_try_catch [OF _ assms(2)], rule life.guar_bnd [OF guar_conj [OF assms(1) guar_stable [OF assms(1) _ assms(2)]]])
    (auto intro: life.guar_ret)

lemma guar_promise_all:
  assumes "\<And>m. m \<in> set ms \<Longrightarrow> guar life_step P m (\<lambda>_. P)" and "stable life_step P"
  shows "guar life_step P (promise_all ms) (\<lambda>_. P)"
  using assms(1)
proof (induction ms)
  case Nil
  then show ?case by (auto intro: life.guar_ret)
next
  case (Cons m ms)
  have m: "guar life_step P m (\<lambda>_. P)" and ms: "guar life_step P (promise_all ms) (\<lambda>_. P)" using Cons by auto
  show ?case
    unfolding guar_def
  proof (intro allI impI)
    fix w r w' assume P: "P (db w)" and run: "promise_all (m # ms) w = (r, w')"
    obtain r1 w1 r2 where 1: "m w = (r1, w1)" and 2: "promise_all ms w1 = (r2, w')"
      using run by (auto split: prod.splits)
    have s1: "life_step (db w) (db w1)" using guar_step [OF m P 1] .
    have P1: "P (db w1)" using stableD [OF assms(2) P s1] .
    have s2: "life_step (db w1) (db w')" using guar_step [OF ms P1 2] .
    show "life_step (db w) (db w') \<and> (\<forall>x. r = Inr x \<longrightarrow> P (db w'))"
      using life_step_trans [OF s1 s2] stableD [OF assms(2) P1 s2] by blast
  qed
qed

abbreviation others :: "lifecycle_env \<Rightarrow> nat \<Rightarrow> lifecycle_world \<Rightarrow> lifecycle_world" where
  "others env \<equiv> se_others (le_snap env)"

lemma guar_wait_still:
  assumes "keep life_step (others env)" and "stable life_step P" and "\<And>w r w'. m w = (r, w') \<Longrightarrow> db w' = db w"
  shows "guar life_step P (waits env m) (\<lambda>_. P)"
  by (rule life.guar_pause [OF assms(1) _ assms(2)], rule life.guar_still) (use assms(3) in auto)

lemma guar_getSession_safe:
  assumes "keep life_step (others env)"
  shows "guar life_step life_inv (waits env (getSession sid))
    (\<lambda>s d. sr_id s = sid \<and> facts sid (sr_status s = Terminated) (settled_row s) (settled_row s) d)"
  unfolding getSession_def
proof (rule life.guar_pause [OF assms])
  show "guar life_step life_inv (bnd (query (select (\<lambda>d. filter (\<lambda>s. sr_id s = sid) (sessions d)))) (\<lambda>rows. case rows of
     [] \<Rightarrow> throw (Caisson SESSION_NOT_FOUND ''session not found'') | s # _ \<Rightarrow> ret s))
    (\<lambda>s d. sr_id s = sid \<and> facts sid (sr_status s = Terminated) (settled_row s) (settled_row s) d)"
    by (rule life.guar_bnd [OF life.guar_select, where M = "\<lambda>rows d. life_inv d \<and> (\<forall>s \<in> set rows. sr_id s = sid \<and> s \<in> set (sessions d))"])
      (auto intro!: life.guar_ret life.guar_throw simp: facts_def known_def life_inv_def session_safe_def split: list.split)
qed (auto intro: stable_conj stable_facts)

lemma guar_getSession:
  assumes "keep life_step (others env)"
  shows "guar life_step life_inv (waits env (getSession sid)) (\<lambda>s d. sr_id s = sid \<and> facts sid False False False d)"
  by (rule guar_conseq [OF guar_getSession_safe [OF assms]]) (auto simp: facts_def)

lemma guar_wait_attempt:
  assumes "guar life_step (facts sid k r u) m (\<lambda>_. Q)" and "\<And>b d. facts sid k r u d \<Longrightarrow> b \<longrightarrow> Q d \<Longrightarrow> Q' b d"
  shows "guar life_step (facts sid k r u) (attempt m) Q'"
  by (rule guar_conseq [OF guar_attempt [OF assms(1) stable_facts]]) (use assms(2) in auto)

lemma guar_tryRevoke:
  assumes "keep life_step (others env)"
  shows "guar life_step (facts sid k r u) (tryRevokeToken env sid reason) (\<lambda>b. facts sid k b u)"
  unfolding tryRevokeToken_def
proof (rule guar_wait_attempt, rule life.guar_bnd [OF life.guar_gets], assumption, rule life.guar_pause [OF assms _ stable_facts], rule life.guar_query)
  fix t d x d' assume f: "facts sid k r u d" and "revoke_tokens t sid reason d = Inr (x, d')"
  note step = revoke_tokens_step [OF this(2)]
  from step stableD [OF stable_facts f step(1)] show "life_step d d' \<and> facts sid k True u d'" by (simp add: facts_def)
qed (auto simp: facts_def)

lemma guar_tryErase:
  assumes "keep life_step (others env)"
  shows "guar life_step (facts sid k r u) (tryEraseSessionKeys env sid) (\<lambda>b. facts sid b r u)"
  unfolding tryEraseSessionKeys_def
proof (rule guar_wait_attempt, rule life.guar_pause [OF assms _ stable_facts])
  have "guar life_step (facts sid k r u) (eraseSession sid :: (lifecycle_world, unit) proc) (\<lambda>_ d. \<not> has_kek sid d)"
    by (rule guar_conseq [OF life.guar_eraseSession]) (auto dest: factsD)
  from guar_conj [OF this guar_stable [OF this _ stable_facts]]
  show "guar life_step (facts sid k r u) (eraseSession sid :: (lifecycle_world, unit) proc) (\<lambda>_. facts sid True r u)"
    by (rule guar_conseq) (auto simp: facts_def)
qed (auto simp: facts_def)

lemma guar_tryDestroy:
  assumes "keep life_step (others env)"
  shows "guar life_step (facts sid k r u) (tryDestroy env handle) (\<lambda>_. facts sid k r u)"
  unfolding tryDestroy_def
  by (rule guar_wait_attempt [OF guar_wait_still [OF assms stable_facts db_outside]])

lemma guar_tryRelease:
  assumes "keep life_step (others env)"
  shows "guar life_step (facts sid k r u) (tryRelease env sid transport) (\<lambda>b. facts sid k r b)"
  unfolding tryRelease_def
proof (rule guar_wait_attempt, rule life.guar_bnd [OF guar_wait_still [OF assms stable_facts db_outside]], assumption,
    rule life.guar_bnd [OF life.guar_gets], assumption, rule life.guar_pause [OF assms _ stable_facts], rule life.guar_query)
  fix t d x d' assume f: "facts sid k r u d" and "release_bindings t sid d = Inr (x, d')"
  note step = release_bindings_step [OF this(2)]
  from step stableD [OF stable_facts f step(1)] show "life_step d d' \<and> facts sid k r True d'" by (simp add: facts_def)
qed (auto simp: facts_def)

lemma guar_runtimeFor:
  assumes "keep life_step (others env)"
  shows "guar life_step (facts sid k r u) (runtimeFor env s) (\<lambda>_. facts sid k r u)"
  unfolding runtimeFor_def
  by (rule life.guar_bnd [OF life.guar_gets], assumption)
    (auto intro!: life.guar_ret life.guar_throw life.guar_of_result life.guar_bnd [OF guar_wait_still [OF assms stable_facts db_select]]
      life.guar_bnd [OF life.guar_of_result [where Q = "\<lambda>_. facts sid k r u"]] split: option.split list.split)

lemma guar_forget: "guar life_step P (forget_prepared sid) (\<lambda>_. P)"
  unfolding forget_prepared_def by (rule life.guar_modify) simp_all

lemma guar_wait_failed:
  assumes "keep life_step (others env)" and "js auditMethod \<notin> {js ''create'', js ''ready'', js ''destroy''}"
    and "reason = CleanupPending \<or> r \<and> u"
  shows "guar life_step (facts (sr_id s) k r u) (waits env (markFailed s reason auditMethod)) (\<lambda>_. life_inv)"
  by (rule life.guar_pause [OF assms(1) guar_conseq [OF guar_markFailed [OF assms(2)]] stable_life(1)])
    (use assms(3) in \<open>auto simp: facts_def over_def\<close>)

lemma guar_wait_terminated:
  assumes "keep life_step (others env)"
  shows "guar life_step (facts (sr_id s) True True True) (waits env (markTerminated s reason)) (\<lambda>_. life_inv)"
  by (rule life.guar_pause [OF assms guar_conseq [OF guar_markTerminated] stable_life(1)]) (auto simp: facts_def over_def)


section \<open>The handlers\<close>

lemma guar_if: "(b \<Longrightarrow> guar R P m Q) \<Longrightarrow> (\<not> b \<Longrightarrow> guar R P m' Q) \<Longrightarrow> guar R P (if b then m else m') Q"
  by simp

lemma guar_life: "guar life_step P m Q \<Longrightarrow> (\<And>d. P d \<Longrightarrow> life_inv d) \<Longrightarrow> guar life_step P m (\<lambda>_. life_inv)"
  unfolding guar_def using life_stepD(2) by blast

lemma guar_fact: "(b \<Longrightarrow> guar R P m Q) \<Longrightarrow> guar R (\<lambda>d. b \<and> P d) m Q"
  by (cases b) (auto simp: guar_def)

text \<open>Handlers that mark a session as failed with work left over, and those that end with nothing left.\<close>

lemma guar_left_over:
  assumes "keep life_step (others env)" and "js auditMethod \<notin> {js ''create'', js ''ready'', js ''destroy''}"
    and "\<And>x. guar life_step life_inv (h x) Q"
  shows "guar life_step (facts (sr_id s) k r u) (bnd (waits env (markFailed s CleanupPending auditMethod)) h) Q"
  by (rule life.guar_bnd [OF guar_wait_failed [OF assms(1,2)] assms(3)]) simp

text \<open>A session reported as terminated has no key, no live token and no bound transport.\<close>

definition torn_down :: "string \<Rightarrow> string \<times> session_status \<Rightarrow> db \<Rightarrow> bool" where
  "torn_down sid r d \<longleftrightarrow> fst r = sid \<and> life_inv d \<and> (snd r = Terminated \<longrightarrow> facts sid True True True d)"

lemma guar_failed_ret: "guar life_step life_inv (ret (sid, Failed)) (torn_down sid)"
  by (rule life.guar_ret) (simp add: torn_down_def)

lemma guar_destroy_last:
  assumes keeps: "keep life_step (others env)" and sid: "sr_id s = sid"
  shows "guar life_step (facts sid True True u) (bnd (tryRelease env sid transport) (\<lambda>released.
           if \<not> released then seq (waits env (markFailed s CleanupPending ''release_failed'')) (ret (sid, Failed))
           else seq (waits env (markTerminated s reason)) (seq (forget_prepared sid) (ret (sid, Terminated))))) (torn_down sid)"
  unfolding sid [symmetric]
proof (rule life.guar_bnd [OF guar_tryRelease [OF keeps]], rule guar_if)
  fix b
  show "guar life_step (facts (sr_id s) True True b)
     (seq (waits env (markFailed s CleanupPending ''release_failed'')) (ret (sr_id s, Failed))) (torn_down (sr_id s))"
    by (rule guar_left_over [OF keeps _ guar_failed_ret]) simp
  assume "\<not> \<not> b"
  then show "guar life_step (facts (sr_id s) True True b)
     (seq (waits env (markTerminated s reason)) (seq (forget_prepared (sr_id s)) (ret (sr_id s, Terminated)))) (torn_down (sr_id s))"
    by (auto intro!: life.guar_bnd [OF guar_stable [OF guar_wait_terminated [OF keeps] _ stable_facts]] life.guar_bnd [OF guar_forget] life.guar_ret
        simp: torn_down_def dest: factsD)
qed

lemma guar_destroy:
  assumes keeps: "keep life_step (others env)"
  shows "guar life_step life_inv (destroy env sid reason) (torn_down sid)"
  unfolding destroy_def
proof (rule life.guar_bnd [OF guar_getSession_safe [OF keeps]], rule guar_fact, rule guar_if)
  fix s :: session_row assume sid: "sr_id s = sid"
  let ?facts = "facts sid (sr_status s = Terminated) (settled_row s) (settled_row s)"
  show "guar life_step ?facts (ret (sid, sr_status s)) (torn_down sid)"
    by (rule life.guar_ret) (auto simp: torn_down_def facts_def settled_row_def)
  have stuck: "guar life_step (facts sid k r u) (seq (waits env (markFailed s CleanupPending ''destroy_failed'')) (ret (sid, Failed))) (torn_down sid)"
    for k r u
    unfolding sid [symmetric] by (rule guar_left_over [OF keeps _ guar_failed_ret]) simp
  show "guar life_step ?facts (bnd (tryEraseSessionKeys env sid) (\<lambda>keysErased.
       bnd (tryRevokeToken env sid ''terminated'') (\<lambda>revoked.
       bnd (runtimeFor env s) (\<lambda>runtime.
       bnd (tryDestroy env (pp_handle runtime)) (\<lambda>destroyed.
         if \<not> keysErased \<or> \<not> revoked \<or> \<not> destroyed
         then seq (waits env (markFailed s CleanupPending ''destroy_failed'')) (ret (sid, Failed))
         else bnd (tryRelease env sid (pp_transport runtime)) (\<lambda>released.
           if \<not> released then seq (waits env (markFailed s CleanupPending ''release_failed'')) (ret (sid, Failed))
           else seq (waits env (markTerminated s reason)) (seq (forget_prepared sid) (ret (sid, Terminated))))))))) (torn_down sid)"
    by (rule life.guar_bnd [OF guar_tryErase [OF keeps]], rule life.guar_bnd [OF guar_tryRevoke [OF keeps]],
        rule life.guar_bnd [OF guar_runtimeFor [OF keeps]], rule life.guar_bnd [OF guar_tryDestroy [OF keeps]], rule guar_if)
      (use guar_destroy_last [OF keeps sid] stuck in auto)
qed

lemma guar_failStart:
  assumes "keep life_step (others env)" and "js auditMethod \<notin> {js ''create'', js ''ready'', js ''destroy''}"
  shows "guar life_step (facts (sr_id s) k r u) (failStart env s reason auditMethod) (\<lambda>_. life_inv)"
  unfolding failStart_def
proof (rule life.guar_bnd [OF guar_tryRevoke [OF assms(1)]], rule life.guar_bnd [OF guar_runtimeFor [OF assms(1)]],
    rule life.guar_bnd [OF guar_tryDestroy [OF assms(1)]], rule guar_if [OF guar_wait_failed [OF assms]], simp,
    rule life.guar_bnd [OF guar_tryRelease [OF assms(1)]], rule guar_if [OF guar_wait_failed [OF assms]], simp)
  fix b x c d assume "\<not> (\<not> b \<or> \<not> c)" "\<not> \<not> d"
  then show "guar life_step (facts (sr_id s) k b d) (seq (waits env (markFailed s reason auditMethod)) (forget_prepared (sr_id s))) (\<lambda>_. life_inv)"
    by (auto intro!: life.guar_bnd [OF guar_wait_failed [OF assms]] guar_forget)
qed

lemma guar_start_failed:
  assumes "keep life_step (others env)"
  shows "guar life_step life_inv (start_failed env sid reason) (\<lambda>_. life_inv)"
  unfolding start_failed_def
  by (rule life.guar_bnd [OF guar_getSession [OF assms]], rule guar_fact, rule guar_if)
    (auto intro!: guar_failStart [OF assms] life.guar_ret dest: factsD)

lemma guar_start:
  assumes "keep life_step (others env)"
  shows "guar life_step life_inv (start env sid runtime) (\<lambda>_. life_inv)"
  unfolding start_def
proof (rule life.guar_bnd [OF guar_getSession [OF assms]], rule guar_fact, rule guar_if, rule life.guar_ret, erule factsD,
    rule guar_conseq [where P = life_inv and Q = "\<lambda>_. life_inv"], rule life.guar_bnd [OF guar_wait_still [OF assms stable_life(1) db_outside]], assumption)
  fix r
  have ready: "guar life_step life_inv (bnd (waits env (getSession sid)) (\<lambda>s. if sr_status s = Booting then waits env (markReady s) else ret ())) (\<lambda>_. life_inv)"
    by (rule life.guar_bnd [OF guar_getSession [OF assms]], rule guar_conseq [where P = life_inv and Q = "\<lambda>_. life_inv"], rule guar_if)
      (auto intro: life.guar_pause [OF assms guar_markReady stable_life(1)] life.guar_ret dest: factsD)
  show "guar life_step life_inv (case r of
         StartTimedOut \<Rightarrow> start_failed env sid StartTimeout
       | StartRejected \<Rightarrow> start_failed env sid DriverError
       | Started \<Rightarrow> try_catch
           (bnd (waits env (getSession sid)) (\<lambda>s. if sr_status s = Booting then waits env (markReady s) else ret ()))
           (\<lambda>_. start_failed env sid DriverError)) (\<lambda>_. life_inv)"
    by (auto intro: guar_start_failed [OF assms] life.guar_try_catch [OF ready stable_life(1)] split: start_result.split)
qed (auto dest: factsD)


text \<open>Clearing the failure reason of a session whose resources are gone.\<close>

lemma clear_failure_step:
  assumes f: "facts sid True True True d" and c: "clear_failure sid d = Inr (x, d')"
  shows "life_step d d'"
proof -
  let ?q = "\<lambda>s. sr_id s = sid \<and> sr_status s = Failed" and ?f = "\<lambda>s :: session_row. s\<lparr>sr_failure_reason := None\<rparr>"
  have d': "d' = d\<lparr>sessions := update_where ?q ?f (sessions d)\<rparr>" using c by (simp add: clear_failure_def)
  have inv: "life_inv d" and o: "revoked sid d" "unbound sid d" using f by (simp_all add: facts_def)
  have same: "lifecycle_log j d' = lifecycle_log j d" "revoked j d' = revoked j d" "unbound j d' = unbound j d" "has_kek j d' = has_kek j d" for j
    by (simp_all add: d' lifecycle_log_def revoked_def unbound_def has_kek_def)
  have out: "outbox_ok d'" unfolding d' by (rule outbox_ok_sessions) (use inv in \<open>simp_all add: life_inv_def\<close>)
  have ids: "sr_id ` set (sessions d') = sr_id ` set (sessions d)" by (simp add: d' session_ids_update)
  have step: "snap_step d d'" by (rule snap_step_same) (use ids in \<open>simp_all add: d'\<close>)
  have rows: "t \<in> set (sessions d) \<or> (\<exists>s \<in> set (sessions d). ?q s \<and> t = ?f s)" if "t \<in> set (sessions d')" for t
  proof -
    have "t \<in> set (update_where ?q ?f (sessions d))" using that by (simp add: d')
    then show ?thesis by (cases rule: update_whereE) auto
  qed
  have safe: "session_safe d' t" if t: "t \<in> set (sessions d')" for t
    using rows [OF t]
  proof
    assume "t \<in> set (sessions d)"
    then have "session_safe d t" using inv by (simp add: life_inv_def)
    then show ?thesis unfolding session_safe_def traced_def same .
  next
    assume "\<exists>s \<in> set (sessions d). ?q s \<and> t = ?f s"
    then obtain s where s: "s \<in> set (sessions d)" "?q s" "t = ?f s" by blast
    then have "session_safe d s" using inv by (simp add: life_inv_def)
    with s o show ?thesis unfolding session_safe_def traced_def same by simp
  qed
  define g where "g = (\<lambda>s. if ?q s then ?f s else s)"
  have ss: "sessions d' = map g (sessions d)" by (simp add: d' g_def update_where_def)
  have g: "sr_id (g s) = sr_id s" "sr_status (g s) = sr_status s" for s by (simp_all add: g_def)
  show ?thesis
    unfolding life_step_def
  proof (intro conjI allI ballI impI)
    show "life_inv d'" using out safe snap_stepD(1) [OF step] inv by (simp add: life_inv_def)
    show "\<exists>t \<in> set (sessions d'). sr_id t = sr_id s \<and> sr_status t = sr_status s" if s: "s \<in> set (sessions d)" for s
      by (rule bexI [of _ "g s"]) (use s in \<open>simp_all add: ss g\<close>)
    show "snap_step d d'" by (rule step)
    show "prefix (lifecycle_log j d) (lifecycle_log j d')" for j by (simp add: same)
  qed (simp_all add: same)
qed

lemma guar_cleanup:
  assumes "keep life_step (others env)"
  shows "guar life_step life_inv (cleanup_session env sid) (\<lambda>_. life_inv)"
  unfolding cleanup_session_def
proof (rule life.guar_bnd [OF guar_getSession [OF assms]], rule guar_fact, rule guar_if)
  fix s :: session_row
  let ?done = "seq (waits env (query (clear_failure sid))) (forget_prepared sid)"
  let ?last = "\<lambda>runtime. bnd (tryRelease env sid (pp_transport runtime)) (\<lambda>released. if \<not> released then ret () else ?done)"
  have "guar life_step (facts sid True True True) (waits env (query (clear_failure sid))) (\<lambda>_. life_inv)"
    by (rule life.guar_pause [OF assms _ stable_life(1)], rule guar_life, rule life.guar_query_stable)
      (auto intro: clear_failure_step stable_facts dest: factsD)
  then have "guar life_step (facts sid True True True) ?done (\<lambda>_. life_inv)" by (rule life.guar_bnd [OF _ guar_forget])
  then have last: "guar life_step (facts sid True True u) (?last runtime) (\<lambda>_. life_inv)" for u runtime
    by (intro life.guar_bnd [OF guar_tryRelease [OF assms]]) (auto intro: life.guar_ret dest: factsD)
  show "guar life_step (facts sid False False False) (bnd (runtimeFor env s) (\<lambda>runtime.
       bnd (tryEraseSessionKeys env sid) (\<lambda>keysErased.
       bnd (tryRevokeToken env sid ''failed'') (\<lambda>revoked.
       bnd (tryDestroy env (pp_handle runtime)) (\<lambda>destroyed.
         if \<not> keysErased \<or> \<not> revoked \<or> \<not> destroyed then ret () else ?last runtime))))) (\<lambda>_. life_inv)"
    by (rule life.guar_bnd [OF guar_runtimeFor [OF assms]], rule life.guar_bnd [OF guar_tryErase [OF assms]],
        rule life.guar_bnd [OF guar_tryRevoke [OF assms]], rule life.guar_bnd [OF guar_tryDestroy [OF assms]], rule guar_if)
      (use last in \<open>auto intro: life.guar_ret dest: factsD\<close>)
qed (auto intro: life.guar_ret dest: factsD)

lemma guar_locked:
  assumes "keep life_step (others env)" and "guar life_step life_inv work (\<lambda>_. life_inv)"
  shows "guar life_step life_inv (withReconciliationLock env work) (\<lambda>_. life_inv)"
  unfolding withReconciliationLock_def
  by (intro life.guar_bnd [OF guar_wait_still [OF assms(1) stable_life(1) db_select]] life.guar_bnd [OF assms(2)]
      guar_wait_still [OF assms(1) stable_life(1) db_select])

lemma guar_reconcile:
  assumes keeps: "keep life_step (others env)"
  shows "guar life_step life_inv (reconcile env) (\<lambda>_. life_inv)"
proof -
  note wait = life.guar_bnd [OF guar_wait_still [OF keeps stable_life(1) db_select]]
  have "guar life_step life_inv (bnd (waits env (getSession sid)) (\<lambda>current.
          if sr_status current = Booting then failStart env current StartTimeout ''boot_timeout'' else ret ())) (\<lambda>_. life_inv)" for sid
    by (rule life.guar_bnd [OF guar_getSession [OF keeps]], rule guar_fact, rule guar_if)
      (auto intro!: guar_failStart [OF keeps] life.guar_ret dest: factsD)
  then have booting: "guar life_step life_inv (reconcileBooting env) (\<lambda>_. life_inv)"
    unfolding reconcileBooting_def Let_def
    by (intro life.guar_bnd [OF life.guar_gets [where Q = "\<lambda>_. life_inv"]] wait guar_promise_all stable_life)
      (auto intro: guar_locked keeps)
  have cleanup: "guar life_step life_inv (reconcileCleanup env) (\<lambda>_. life_inv)"
    unfolding reconcileCleanup_def
    by (intro wait guar_promise_all stable_life) (auto intro: guar_locked keeps guar_cleanup)
  have snap: "guar life_step life_inv m (\<lambda>_. life_inv)" if "guar life_step snap_inv m Q" for m :: "(lifecycle_world, 'b) proc" and Q
    by (rule guar_life [OF guar_conseq [OF that]]) (auto simp: life_inv_def)
  have due: "guar life_step life_inv (capture_due env t s) (\<lambda>_. life_inv)" for t s
    unfolding capture_due_def
    by (auto intro!: life.guar_ret life.guar_bnd [OF life.guar_gets [where Q = "\<lambda>_. life_inv"]]
        life.guar_bnd [OF snap [OF life.guar_capture [OF keeps]]] life.guar_modify split: option.split)
  have captures: "guar life_step life_inv (captureDueSessionSnapshots env) (\<lambda>_. life_inv)"
    unfolding captureDueSessionSnapshots_def
    by (intro wait life.guar_bnd [OF life.guar_gets [where Q = "\<lambda>_. life_inv"]] guar_promise_all stable_life) (auto intro: due)
  show ?thesis
    unfolding reconcile_def
    by (intro life.guar_bnd [OF booting] life.guar_bnd [OF cleanup] life.guar_bnd [OF captures] snap [OF life.guar_retry [OF keeps]])
qed


lemma db_activePolicy: "activePolicyBundleId w = (r, w') \<Longrightarrow> db w' = db w"
  unfolding activePolicyBundleId_def by (erule db_bnd, erule db_select) (auto simp: proc_defs split: option.splits)

lemma db_tokenRecord: "createSessionTokenRecord argon2 w = (r, w') \<Longrightarrow> db w' = db w"
  unfolding createSessionTokenRecord_def
  by (erule db_bnd, erule db_draw, erule db_bnd, erule db_uuidV7, erule db_bnd, erule db_draw) (auto simp: proc_defs)

lemma guar_resolveBundle:
  assumes "keep life_step (others env)" and "stable life_step P"
  shows "guar life_step P (resolvePolicyBundle env requested) (\<lambda>_. P)"
  unfolding resolvePolicyBundle_def
  by (rule life.guar_bnd [where M = "\<lambda>_. P"], cases requested)
    (auto intro!: life.guar_ret life.guar_throw guar_wait_still [OF assms db_activePolicy] life.guar_bnd [OF guar_wait_still [OF assms db_select]]
      split: list.split)

lemma guar_baseSnapshot:
  assumes "keep life_step (others env)" and "stable life_step P"
  shows "guar life_step P (activeBaseSnapshotId env) (\<lambda>_. P)"
  unfolding activeBaseSnapshotId_def
  by (auto intro!: life.guar_ret life.guar_throw life.guar_bnd [OF guar_wait_still [OF assms db_select]]
      life.guar_bnd [OF life.guar_of_result [where Q = "\<lambda>_. P"]] split: list.split option.split)

lemma guar_create:
  assumes keeps: "keep life_step (others env)"
  shows "guar life_step life_inv (create env request) (\<lambda>_. life_inv)"
proof -
  note still = guar_wait_still [OF keeps stable_life(1)]
  have rows: "guar life_step life_inv (waits env (transaction (create_rows env request sid pb expiresAt token p base))) (\<lambda>_. life_inv)"
    for sid pb expiresAt token p base
    by (rule life.guar_pause [OF keeps guar_life [OF guar_create_rows] stable_life(1)])
  have body: "guar life_step life_inv (create_body env request sid pb expiresAt token p) (\<lambda>_. life_inv)" for sid pb expiresAt token p
    unfolding create_body_def
    by (intro life.guar_bnd [where M = "\<lambda>_. life_inv"] guar_if life.guar_bnd [OF guar_baseSnapshot [OF keeps stable_life(1)]] life.guar_ret rows)
  have undo: "guar life_step life_inv (seq (destroyAndRelease env p) (throw e)) Q" for p e and Q :: "'b \<Rightarrow> db \<Rightarrow> bool"
    unfolding destroyAndRelease_def
    by (intro life.guar_bnd [where M = "\<lambda>_. life_inv"] still [OF db_outside] life.guar_throw)
  show ?thesis
    unfolding create_def Let_def
    by (intro life.guar_bnd [where M = "\<lambda>_. life_inv"] life.guar_gets guar_resolveBundle [OF keeps stable_life(1)] still [OF db_tokenRecord]
        still [OF db_outside] life.guar_try_catch [OF body stable_life(1) undo] life.guar_modify life.guar_ret
        life.guar_still [OF db_uuidV7]) simp_all
qed


section \<open>What a session's owner gets\<close>

text \<open>No other handler runs while this one waits.\<close>

lemma pause_alone [simp]: "pause (\<lambda>_ w. w) m = m"
  by (rule ext) (simp add: pause_def split: prod.split)

lemma db_resolveBundle: "se_others (le_snap env) = (\<lambda>_ w. w) \<Longrightarrow> resolvePolicyBundle env q w = (r, w') \<Longrightarrow> db w' = db w"
  unfolding resolvePolicyBundle_def
  by (erule db_bnd) (auto simp: ret_def throw_def split: option.splits list.splits elim!: db_bnd dest!: db_activePolicy db_select)

lemma db_baseSnapshot: "se_others (le_snap env) = (\<lambda>_ w. w) \<Longrightarrow> activeBaseSnapshotId env w = (r, w') \<Longrightarrow> db w' = db w"
  unfolding activeBaseSnapshotId_def
  by (auto simp: ret_def throw_def of_result_def split: option.splits list.splits elim!: db_bnd dest!: db_select)

definition owned :: "lifecycle_env \<Rightarrow> create_request \<Rightarrow> db \<Rightarrow> create_response \<Rightarrow> lifecycle_world \<Rightarrow> bool" where
  "owned env request d r w \<longleftrightarrow> (\<exists>pb token p base t i. created (new_session env request (cs_sessionId r) pb (cs_expiresAt r) p base t)
       (new_token request (cs_sessionId r) (cs_expiresAt r) token t) (new_binding i (cs_sessionId r) token p t) d (db w)
     \<and> lw_prepared w (cs_sessionId r) = Some p)"

lemma triple_create:
  assumes alone: "se_others (le_snap env) = (\<lambda>_ w. w)"
  shows "triple (\<lambda>w. db w = d) (create env request) (owned env request d) (\<lambda>_ _. True)"
proof -
  have rows: "triple (\<lambda>w. db w = d) (create_body env request sid pb expiresAt token p)
     (\<lambda>_ w. \<exists>base t i. created (new_session env request sid pb expiresAt p base t) (new_token request sid expiresAt token t)
        (new_binding i sid token p t) d (db w)) (\<lambda>_ _. True)" for sid pb expiresAt token p
    unfolding create_body_def alone pause_alone
    by (rule triple_bnd [OF triple_still], auto simp: ret_def elim!: db_bnd db_baseSnapshot [OF alone] split: if_splits)
      (rule triple_conseq [OF triple_transaction [OF triple_create_rows]], auto)
  show ?thesis
    unfolding create_def Let_def alone pause_alone
    apply (rule triple_bnd [OF triple_still [OF db_uuidV7]], assumption, rule triple_bnd [OF triple_now],
        rule triple_bnd [OF triple_still [OF db_resolveBundle [OF alone]]], assumption, rule triple_bnd [OF triple_still [OF db_tokenRecord]], assumption,
        rule triple_bnd [OF triple_still [OF db_outside]], assumption)
    apply (rule triple_bnd [OF triple_try_catch [OF rows]])
     apply (rule triple_bnd [where R = "\<lambda>_ _. True"], simp add: triple_def split: prod.split sum.split, rule triple_throw, simp)
    apply (simp add: triple_def bnd_def modify_def ret_def owned_def)
    apply blast
    done
qed


text \<open>The join of a resolution, as a product of selections.\<close>

lemma identity_rows_select:
  "identity_rows p d = concat (map (\<lambda>b. concat (map (\<lambda>t. map (\<lambda>s. (b, t, s)) (filter (\<lambda>s. sr_id s = tb_session_id b) (sessions d)))
     (filter (\<lambda>t. tk_id t = tb_token_id b) (session_tokens d)))) (filter (active_for p) (transport_bindings d)))"
proof -
  have one: "concat (map (\<lambda>x. if q x then f x else []) xs) = concat (map f (filter q xs))" for q and f :: "'x \<Rightarrow> 'y list" and xs
    by (induction xs) auto
  have "concat (map (\<lambda>s. if q s then [g s] else []) xs) = map g (filter q xs)" for q and g :: "'x \<Rightarrow> 'y" and xs
    by (induction xs) auto
  then show ?thesis unfolding identity_rows_def by (simp add: one)
qed

lemma filter_unique: "filter p (xs @ [x]) = [x]" if "p x" "\<And>y. y \<in> set xs \<Longrightarrow> \<not> p y"
  using that by (simp add: filter_empty_conv)

lemma created_rows:
  assumes c: "created s t b d d'" and ids: "tb_session_id b = sr_id s" "tb_token_id b = tk_id t" "tb_released_at b = None"
  shows "\<exists>i. identity_rows (binding_peer b) d' = [(b, t, allocate_row i s)]"
proof -
  obtain k e i p n where new: "sr_id s \<notin> sr_id ` set (sessions d)" "tk_id t \<notin> tk_id ` set (session_tokens d)"
    "filter (active_for (binding_peer b)) (transport_bindings d) = []" and i: "ai_sessionId i = sr_id s"
    and d': "d' = append_row e i p n (d\<lparr>sessions := sessions d @ [s], session_snapshot_keys := session_snapshot_keys d @ [k],
          session_tokens := session_tokens d @ [t], transport_bindings := transport_bindings d @ [b]\<rparr>)"
    using c unfolding created_def by metis
  define g where "g = (\<lambda>u. if sr_id u = sr_id s then allocate_row i u else u)"
  have g: "sr_id (g u) = sr_id u" for u by (simp add: g_def)
  have ss: "sessions d' = map g (sessions d) @ [allocate_row i s]"
    by (simp add: d' append_row_def update_where_def g_def i)
  have "filter (active_for (binding_peer b)) (transport_bindings d') = [b]"
    using new(3) ids(3) by (simp add: d' active_for_def)
  moreover have "filter (\<lambda>u. tk_id u = tk_id t) (session_tokens d') = [t]"
  proof -
    have "session_tokens d' = session_tokens d @ [t]" by (simp add: d')
    moreover have "filter (\<lambda>u. tk_id u = tk_id t) (session_tokens d @ [t]) = [t]"
      by (rule filter_unique) (use new(2) in \<open>metis imageI\<close>)+
    ultimately show ?thesis by simp
  qed
  moreover have "filter (\<lambda>u. sr_id u = sr_id s) (sessions d') = [allocate_row i s]"
    unfolding ss by (rule filter_unique) (use new(1) g in \<open>auto simp: image_iff\<close>)
  ultimately show ?thesis by (auto simp: identity_rows_select ids)
qed

section \<open>Properties\<close>

text \<open>(C25) The lifecycle service refines the session state machine. Whatever calls fail and however handlers interleave, after creation,
  start, destruction or reconciliation the status of every session is the state its audit trail leads the machine to, through
  legal transitions only; the trail only grows, and a session that ended never leaves its final status.\<close>

theorem lifecycle_refines_machine:
  assumes "keep life_step (se_others (le_snap env))" and "life_inv (db w)"
    and "w' \<in> {snd (create env request w), snd (start env sid runtime w), snd (destroy env sid reason w), snd (reconcile env w)}"
  shows "(\<forall>s \<in> set (sessions (db w')). legal (replay (lifecycle_log (sr_id s) (db w')))
       \<and> m_status (replay (lifecycle_log (sr_id s) (db w'))) = sr_status s)
     \<and> (\<forall>i. prefix (lifecycle_log i (db w)) (lifecycle_log i (db w')))
     \<and> (\<forall>s \<in> set (sessions (db w)). terminal (sr_status s) \<longrightarrow> (\<exists>t \<in> set (sessions (db w')). sr_id t = sr_id s \<and> sr_status t = sr_status s))
     \<and> life_inv (db w')"
proof -
  have step: "life_step (db w) (db w')"
    using assms(3) guar_step [OF guar_create [OF assms(1)] assms(2) surjective_pairing, of request]
      guar_step [OF guar_start [OF assms(1)] assms(2) surjective_pairing, of sid runtime]
      guar_step [OF guar_destroy [OF assms(1)] assms(2) surjective_pairing, of sid reason]
      guar_step [OF guar_reconcile [OF assms(1)] assms(2) surjective_pairing]
    by (elim insertE) simp_all
  have inv: "life_inv (db w')" using life_stepD(2) [OF step assms(2)] .
  have traced: "legal (replay (lifecycle_log (sr_id s) (db w'))) \<and> m_status (replay (lifecycle_log (sr_id s) (db w'))) = sr_status s"
    if "s \<in> set (sessions (db w'))" for s
    using inv that by (simp add: life_inv_def session_safe_def traced_def)
  from inv traced life_stepD(6,7) [OF step] show ?thesis by blast
qed

text \<open>(C26) A session reported as terminated is gone for good: when \<^verbatim>\<open>destroy\<close> returns \<^verbatim>\<open>terminated\<close>, then in every later state no peer
  resolves to the session, its tokens are revoked and its snapshot key does not exist.\<close>

theorem terminated_session_gone:
  fixes v :: "'z world_scheme"
  assumes "keep life_step (se_others (le_snap env))" and "life_inv (db w)" and "destroy env sid reason w = (Inr (sid', Terminated), w')"
    and "life_step (db w') (db v)"
  shows "(\<forall>i. fst (resolve p v) = Inr i \<longrightarrow> id_sessionId i \<noteq> sid) \<and> sid' = sid \<and> \<not> has_kek sid (db v)
     \<and> (\<forall>k \<in> set (session_tokens (db v)). tk_session_id k = sid \<longrightarrow> tk_revoked_at k \<noteq> None)"
proof -
  have t: "torn_down sid (sid', Terminated) (db w')" using guar_post [OF guar_destroy [OF assms(1)] assms(2,3)] .
  then have "facts sid True True True (db w')" by (simp add: torn_down_def)
  then have f: "facts sid True True True (db v)" using stableD [OF stable_facts _ assms(4)] by blast
  have "id_sessionId i \<noteq> sid" if "fst (resolve p v) = Inr i" for i
  proof -
    have "resolve p v = (Inr i, snd (resolve p v))" using that by (metis surjective_pairing)
    then obtain b k s rest where r: "b \<in> set (transport_bindings (db v))" "active_for p b"
      "check_identity (now v) ((b, k, s) # rest) = Inr i" by (rule resolve_cases)
    have "id_sessionId i = tb_session_id b" using r(3) by (auto simp: check_identity_def split: if_splits option.splits)
    moreover have "tb_session_id b \<noteq> sid" using f r(1,2) by (auto simp: facts_def unbound_def active_for_def)
    ultimately show ?thesis by simp
  qed
  with f t show ?thesis by (auto simp: facts_def revoked_def torn_down_def)
qed

text \<open>(C27) A created session works: when \<^verbatim>\<open>create\<close> returns and nothing else has happened, the peer of the prepared sandbox resolves to the
  new session with exactly the requested scopes and approval mode, until the announced expiry.\<close>

theorem create_usable:
  fixes v :: "'z world_scheme"
  assumes "se_others (le_snap env) = (\<lambda>_ w. w)" and "create env request w = (Inr r, w')"
    and "db v = db w'" and "now v < cs_expiresAt r" and "fault v (calls v) = Ok"
  shows "\<exists>p i v'. lw_prepared w' (cs_sessionId r) = Some p \<and> resolve (pp_transport p) v = (Inr i, v') \<and> id_sessionId i = cs_sessionId r
     \<and> id_scopes i = cq_scopes request \<and> id_roles i = [] \<and> id_approvalMode i = cq_approvalMode request \<and> id_expiresAt i = cs_expiresAt r
     \<and> id_driver i = hd_driver (pp_handle p) \<and> id_requestedBy i = cq_requestedBy request"
proof -
  obtain pb token p base t i where c: "created (new_session env request (cs_sessionId r) pb (cs_expiresAt r) p base t)
       (new_token request (cs_sessionId r) (cs_expiresAt r) token t) (new_binding i (cs_sessionId r) token p t) (db w) (db v)"
     "lw_prepared w' (cs_sessionId r) = Some p"
    using triple_Inr [OF triple_create [OF assms(1)] refl assms(2)] unfolding owned_def assms(3) by blast
  have peer: "binding_peer (new_binding i (cs_sessionId r) token p t) = pp_transport p"
    by (simp add: binding_peer_def new_binding_def)
  obtain j where rows: "identity_rows (pp_transport p) (db v) = [(new_binding i (cs_sessionId r) token p t,
      new_token request (cs_sessionId r) (cs_expiresAt r) token t, allocate_row j (new_session env request (cs_sessionId r) pb (cs_expiresAt r) p base t))]"
    using created_rows [OF c(1)] unfolding peer by (auto simp: new_binding_def new_session_def new_token_def)
  have sc: "filter (\<lambda>x. x \<in> set xs) xs = xs" for xs :: "string list" by (rule filter_True) simp
  have "\<exists>i v'. resolve (pp_transport p) v = (Inr i, v') \<and> id_sessionId i = cs_sessionId r
     \<and> id_scopes i = cq_scopes request \<and> id_roles i = [] \<and> id_approvalMode i = cq_approvalMode request \<and> id_expiresAt i = cs_expiresAt r
     \<and> id_driver i = hd_driver (pp_handle p) \<and> id_requestedBy i = cq_requestedBy request"
    using assms(4,5)
    by (simp add: resolve_def bnd_def gets_def query_def next_outcome_def select_def rows check_identity_def of_result_def
        new_token_def new_session_def new_binding_def allocate_row_def intersectScopes_def sc)
  with c(2) show ?thesis by blast
qed


section \<open>A session from creation to its end\<close>

definition demo_life :: lifecycle_world where
  "demo_life = \<lparr>db = empty_db\<lparr>policy_bundles := [demo_bundle]\<rparr>, sink = [], now = 1000, entropy = (\<lambda>n. replicate 48 (word_of_nat n)), draws = 0,
     fault = (\<lambda>_. Ok), calls = 0, activeEventIds = [], sw_gate = new_gate, lw_prepared = (\<lambda>_. None), lw_startup = [], lw_lastSnapshotAt = (\<lambda>_. None)\<rparr>"

definition demo_life_env :: lifecycle_env where
  "demo_life_env = \<lparr>le_snap = \<lparr>se_crypto = demo_crypto, se_snapshot = (\<lambda>_ _. Inl ForeignError), se_restore = (\<lambda>_ _ _. Inl ForeignError),
     se_start = (\<lambda>_ _ _. Inr ()), se_destroy = (\<lambda>_ _. Inr ()), se_release = (\<lambda>_ _. Inr ()), se_store = (\<lambda>_ _ _. Inl ForeignError),
     se_resolve = (\<lambda>_ _ _ _. Inl ForeignError), se_deleteObjects = (\<lambda>_ _. Inr ()), se_baseResolve = (\<lambda>_ _. Inl ForeignError),
     se_baseRelease = (\<lambda>_ _. Inr ()), se_bindRestored = (\<lambda>_ _. ret ()), se_durationMs = 1000, se_count = 1, se_drainTimeoutMs = 100,
     se_others = (\<lambda>_ w. w)\<rparr>,
     le_prepare = (\<lambda>sp _. Inr \<lparr>pp_handle = \<lparr>hd_id = sp_id sp, hd_driver = Container\<rparr>, pp_transport = demo_peer\<rparr>),
     le_start = (\<lambda>_ _. Some (10, Inr ())), le_hardwareIsolation = False, le_argon2 = (\<lambda>_ _. ''hash''), le_websocketBaseUrl = ''ws://host/'',
     le_startTimeoutMs = 30000\<rparr>"

definition demo_request :: create_request where
  "demo_request = \<lparr>cq_image = ''agent'', cq_entrypoint = ''run'', cq_approvalMode = Auto, cq_scopes = [''http:get''], cq_policyBundleId = Some ''bundle'',
     cq_requestedBy = ''owner'', cq_purpose = None, cq_metadata = JObj [], cq_ttlSeconds = 3600, cq_idleTimeoutSeconds = 600\<rparr>"

lemma demo_alone: "se_others (le_snap demo_life_env) = (\<lambda>_ w. w)" "se_crypto (le_snap demo_life_env) = demo_crypto"
  by (simp_all add: demo_life_env_def)

lemma demo_life_keep: "keep life_step (se_others (le_snap demo_life_env))"
  by (simp add: demo_alone keep_def life_step_refl)

lemma demo_life_inv: "life_inv (db demo_life)"
  by (simp add: demo_life_def empty_db_def life_inv_def snap_inv_def queued_def outbox_ok_def rows_of_def)

theorem lifecycle_refines_machine_witness:
  "life_inv (db (snd (create demo_life_env demo_request demo_life)))"
  using lifecycle_refines_machine [OF demo_life_keep demo_life_inv, of "snd (create demo_life_env demo_request demo_life)" demo_request] by simp

lemma demo_kek_run:
  "\<exists>K. createWrappedSessionKek demo_crypto = (\<lambda>w :: lifecycle_world. (Inr (K w), w\<lparr>draws := Suc (Suc (draws w)), calls := Suc (calls w)\<rparr>))"
  by (rule exI [of _ "\<lambda>w. projr (fst (createWrappedSessionKek demo_crypto w))"], rule ext)
    (simp add: createWrappedSessionKek_def bnd_def draw_def randomBytes_def rootKek_def outside_def demo_crypto_def crypto_sizes ret_def Let_def
     wrap_def split: prod.split)

lemma demo_creates:
  "\<exists>r w'. create demo_life_env demo_request demo_life = (Inr r, w') \<and> now w' < cs_expiresAt r \<and> fault w' (calls w') = Ok"
proof -
  obtain K where K: "createWrappedSessionKek demo_crypto = (\<lambda>w :: lifecycle_world. (Inr (K w), w\<lparr>draws := Suc (Suc (draws w)), calls := Suc (calls w)\<rparr>))"
    using demo_kek_run by blast
  show ?thesis
    unfolding create_def create_body_def create_rows_def provisionSessionKey_def demo_alone K
    by (simp add: resolvePolicyBundle_def bundle_rows_def createSessionTokenRecord_def insert_session_def insert_session_key_def insert_token_def
        insert_binding_def new_session_def lifecycleAuditInput_def enqueueInTransaction_def enqueue_eval outside_def select_def throw_def gets_def
        modify_def of_result_def draw_def try_catch_def demo_life_def demo_life_env_def demo_request_def demo_bundle_def empty_db_def)
qed

theorem create_usable_witness:
  "\<exists>r w' p i v'. create demo_life_env demo_request demo_life = (Inr r, w') \<and> lw_prepared w' (cs_sessionId r) = Some p
     \<and> resolve (pp_transport p) w' = (Inr i, v') \<and> id_sessionId i = cs_sessionId r \<and> id_scopes i = [''http:get'']"
proof -
  obtain r w' where r: "create demo_life_env demo_request demo_life = (Inr r, w')" "now w' < cs_expiresAt r" "fault w' (calls w') = Ok"
    using demo_creates by blast
  have "cq_scopes demo_request = [''http:get'']" by (simp add: demo_request_def)
  with create_usable [OF demo_alone(1) r(1) refl r(2,3)] r(1) show ?thesis by metis
qed

definition demo_create_input :: audit_input where
  "demo_create_input = demo_input\<lparr>ai_eventType := ''lifecycle'', ai_method := Some (js ''create'')\<rparr>"

definition demo_create_payload :: audit_payload where
  "demo_create_payload = projr (buildAuditPayload 1000 demo_create_input)"

definition demo_booting :: db where
  "demo_booting = (db demo_life)\<lparr>sessions := [demo_session\<lparr>sr_status := Booting\<rparr>],
     session_snapshot_keys := [\<lparr>sk_session_id = sr_id demo_session, sk_root_kek_key_id = js ''root-1'', sk_wrap_nonce = [], sk_wrapped_session_kek = []\<rparr>],
     session_tokens := [demo_token], transport_bindings := [demo_binding]\<rparr>"

definition demo_live :: lifecycle_world where
  "demo_live = demo_life\<lparr>db := append_row ''event'' demo_create_input demo_create_payload 1 demo_booting\<rparr>"

lemma demo_live_inv: "life_inv (db demo_live)"
proof -
  have "life_step (db demo_life) (append_row ''event'' demo_create_input demo_create_payload (sr_next_audit_seq (demo_session\<lparr>sr_status := Booting\<rparr>) + 1) demo_booting)"
    by (rule life_create [OF demo_life_inv, where s = "demo_session\<lparr>sr_status := Booting\<rparr>" and t = demo_token and b = demo_binding
          and k = "\<lparr>sk_session_id = sr_id demo_session, sk_root_kek_key_id = js ''root-1'', sk_wrap_nonce = [], sk_wrapped_session_kek = []\<rparr>"])
      (simp_all add: demo_life_def demo_booting_def empty_db_def demo_token_def demo_binding_def demo_create_input_def demo_create_payload_def
        demo_input_def demo_session_def buildAuditPayload_def payload_safe orElse_def Let_def)
  then have "life_step (db demo_life) (db demo_live)" by (simp add: demo_live_def demo_session_def)
  then show ?thesis using life_stepD(2) demo_life_inv by blast
qed

lemma demo_destroys: "fst (destroy demo_life_env (sr_id demo_session) ''done'' demo_live) = Inr (sr_id demo_session, Terminated)"
  by code_simp

theorem terminated_session_gone_witness:
  "fst (resolve demo_peer (snd (destroy demo_life_env (sr_id demo_session) ''done'' demo_live))) \<notin> Inr ` {i. id_sessionId i = sr_id demo_session}"
proof -
  have run: "destroy demo_life_env (sr_id demo_session) ''done'' demo_live =
      (Inr (sr_id demo_session, Terminated), snd (destroy demo_life_env (sr_id demo_session) ''done'' demo_live))"
    using demo_destroys by (metis surjective_pairing)
  from terminated_session_gone [OF demo_life_keep demo_live_inv run life_step_refl, of demo_peer] show ?thesis by auto
qed

end
