(* ===== verification/Ip_Address.thy ===== *)
theory Ip_Address
  imports Secrets
begin

text \<open>
  The destination check of \<^verbatim>\<open>apps/broker/src/http-adapter.ts\<close>: which resolved addresses a guest's request may
  not reach. \<open>isIP\<close> is \<^verbatim>\<open>net.isIP\<close> as documented (dotted decimal without leading zeros; groups of hexadecimal digits
  with one \<^verbatim>\<open>::\<close> and an optional dotted quad at the end), for addresses without a zone. The 32-bit operators of the
  source are words, its big integers are \<^typ>\<open>int\<close>. \<open>forbidden_address_exact\<close> compares the bit arithmetic with a reference that
  reads the octets and the groups of the address.
\<close>

unbundle bit_operations_syntax

section \<open>Texts\<close>

definition dot :: "16 word" where "dot = hd (js ''.'')"
definition colon :: "16 word" where "colon = hd (js '':'')"

text \<open>\<^verbatim>\<open>s.split(c)\<close> for a separator of one character, and \<^verbatim>\<open>s.split("::")\<close>.\<close>

fun split_on :: "'a \<Rightarrow> 'a list \<Rightarrow> 'a list list" where
  "split_on c [] = [[]]"
| "split_on c (x # xs) = (if x = c then [] # split_on c xs else (x # hd (split_on c xs)) # tl (split_on c xs))"

fun split_twice :: "'a \<Rightarrow> 'a list \<Rightarrow> 'a list list" where
  "split_twice c [] = [[]]"
| "split_twice c [x] = [[x]]"
| "split_twice c (x # y # xs) = (if x = c \<and> y = c then [] # split_twice c xs
     else (x # hd (split_twice c (y # xs))) # tl (split_twice c (y # xs)))"

definition before_last :: "'a \<Rightarrow> 'a list \<Rightarrow> 'a list" where
  "before_last c s = rev (tl (dropWhile (\<lambda>x. x \<noteq> c) (rev s)))"

definition after_last :: "'a \<Rightarrow> 'a list \<Rightarrow> 'a list" where
  "after_last c s = rev (takeWhile (\<lambda>x. x \<noteq> c) (rev s))"

definition unit_value :: "16 word \<Rightarrow> int" where
  "unit_value u = (if is_digit u then uint u - 48 else if is_lower u then uint u - 87 else uint u - 55)"

definition is_hex_unit :: "16 word \<Rightarrow> bool" where
  "is_hex_unit u \<longleftrightarrow> is_digit u \<or> (is_lower u \<or> is_upper u) \<and> unit_value u < 16"

text \<open>\<^verbatim>\<open>Number(text)\<close> of decimal and \<^verbatim>\<open>BigInt(`0x${text}`)\<close> of hexadecimal digits; \<^verbatim>\<open>n.toString(16)\<close>.\<close>

definition numeral_value :: "int \<Rightarrow> utf16 \<Rightarrow> int" where
  "numeral_value b s = foldl (\<lambda>v u. v * b + unit_value u) 0 s"

fun to_hex :: "nat \<Rightarrow> utf16" where
  "to_hex n = (if n < 16 then [js ''0123456789abcdef'' ! n] else to_hex (n div 16) @ [js ''0123456789abcdef'' ! (n mod 16)])"

declare to_hex.simps [simp del]

section \<open>net.isIP\<close>

definition octet_text :: "utf16 \<Rightarrow> bool" where
  "octet_text s \<longleftrightarrow> s \<noteq> [] \<and> list_all is_digit s \<and> (length s = 1 \<or> hd s \<noteq> hd (js ''0'')) \<and> length s \<le> 3 \<and> numeral_value 10 s \<le> 255"

definition isIPv4 :: "utf16 \<Rightarrow> bool" where
  "isIPv4 s \<longleftrightarrow> length (split_on dot s) = 4 \<and> list_all octet_text (split_on dot s)"

definition hex_group :: "utf16 \<Rightarrow> bool" where
  "hex_group s \<longleftrightarrow> s \<noteq> [] \<and> length s \<le> 4 \<and> list_all is_hex_unit s"

definition side_parts :: "utf16 \<Rightarrow> utf16 list" where
  "side_parts s = (if s = [] then [] else split_on colon s)"

text \<open>The number of groups a side of the address has, none when it is malformed; only the end of the text may be a dotted quad.\<close>

definition side_size :: "bool \<Rightarrow> utf16 \<Rightarrow> nat option" where
  "side_size final s = (let ps = side_parts s in
     if list_all hex_group ps then Some (length ps)
     else if final \<and> ps \<noteq> [] \<and> list_all hex_group (butlast ps) \<and> isIPv4 (last ps) then Some (Suc (length ps)) else None)"

definition isIPv6 :: "utf16 \<Rightarrow> bool" where
  "isIPv6 s = (case split_twice colon s of
     [whole] \<Rightarrow> side_size True whole = Some 8
   | [l, r] \<Rightarrow> (case (side_size False l, side_size True r) of (Some m, Some n) \<Rightarrow> m + n \<le> 7 | _ \<Rightarrow> False)
   | _ \<Rightarrow> False)"

definition isIP :: "utf16 \<Rightarrow> nat" where
  "isIP s = (if isIPv4 s then 4 else if isIPv6 s then 6 else 0)"

section \<open>Forbidden addresses (http-adapter.ts)\<close>

definition ipv4ToNumber :: "utf16 \<Rightarrow> 32 word" where
  "ipv4ToNumber address = foldl (\<lambda>v segment. push_bit 8 v OR word_of_int (numeral_value 10 segment)) 0 (split_on dot address)"

definition forbidden_networks :: "(32 word \<times> nat) list" where
  "forbidden_networks = [(0x00000000, 8), (0x0a000000, 8), (0x64400000, 10), (0x7f000000, 8), (0xa9fe0000, 16), (0xac100000, 12),
     (0xc0a80000, 16), (0xe0000000, 4)]"

definition isForbiddenIpv4 :: "32 word \<Rightarrow> bool" where
  "isForbiddenIpv4 v = list_ex (\<lambda>(network, n). v AND push_bit (32 - n) 0xffffffff = network) forbidden_networks"

definition ipv6ToBigInt :: "utf16 \<Rightarrow> int" where
  "ipv6ToBigInt address = (let
     normalized = (if dot \<in> set address
       then (let ipv4 = ipv4ToNumber (after_last colon address) in
         before_last colon address @ [colon] @ to_hex (unat (drop_bit 16 ipv4)) @ [colon] @ to_hex (unat (ipv4 AND 0xffff)))
       else address);
     pieces = split_twice colon normalized;
     leftParts = (if hd pieces = [] then [] else split_on colon (hd pieces));
     rightParts = (case tl pieces of [] \<Rightarrow> [] | r # _ \<Rightarrow> if r = [] then [] else split_on colon r);
     parts = leftParts @ replicate (8 - length leftParts - length rightParts) (js ''0'') @ rightParts
   in foldl (\<lambda>v part. push_bit 16 v OR numeral_value 16 part) 0 parts)"

definition hasPrefix :: "int \<Rightarrow> int \<Rightarrow> nat \<Rightarrow> bool" where
  "hasPrefix v network n = (let m = push_bit (128 - n) (push_bit n 1 - 1) in v AND m = network AND m)"

definition isForbiddenAddress :: "utf16 \<Rightarrow> bool" where
  "isForbiddenAddress address =
     (if isIP address = 4 then isForbiddenIpv4 (ipv4ToNumber address)
      else if isIP address \<noteq> 6 then True
      else let v = ipv6ToBigInt address in
        if drop_bit 32 v = 0xffff then isForbiddenIpv4 (word_of_int (v AND 0xffffffff))
        else v = 0 \<or> v = 1 \<or> hasPrefix v (push_bit 112 0xfc00) 7 \<or> hasPrefix v (push_bit 112 0xfe80) 10)"

section \<open>A reference that reads octets and groups\<close>

text \<open>The octets of a dotted quad, and the ranges: this network, private, shared, loopback, link-local and multicast.\<close>

definition octets :: "utf16 \<Rightarrow> int list" where
  "octets s = map (numeral_value 10) (split_on dot s)"

fun forbidden_octets :: "int list \<Rightarrow> bool" where
  "forbidden_octets [a, b, c, d] \<longleftrightarrow> a = 0 \<or> a = 10 \<or> a = 127 \<or> a = 100 \<and> 64 \<le> b \<and> b \<le> 127 \<or> a = 169 \<and> b = 254
     \<or> a = 172 \<and> 16 \<le> b \<and> b \<le> 31 \<or> a = 192 \<and> b = 168 \<or> 224 \<le> a \<and> a \<le> 239"
| "forbidden_octets _ = True"

definition part_groups :: "utf16 \<Rightarrow> int list" where
  "part_groups p = (if hex_group p then [numeral_value 16 p]
     else [octets p ! 0 * 256 + octets p ! 1, octets p ! 2 * 256 + octets p ! 3])"

definition side_groups :: "utf16 \<Rightarrow> int list" where
  "side_groups s = concat (map part_groups (side_parts s))"

definition groups :: "utf16 \<Rightarrow> int list" where
  "groups s = (case split_twice colon s of
     [whole] \<Rightarrow> side_groups whole
   | l # r # _ \<Rightarrow> side_groups l @ replicate (8 - length (side_groups l) - length (side_groups r)) 0 @ side_groups r
   | [] \<Rightarrow> [])"

text \<open>Unspecified, loopback, unique local, link-local, and the forbidden IPv4 addresses in their mapped form.\<close>

fun forbidden_groups :: "int list \<Rightarrow> bool" where
  "forbidden_groups [g0, g1, g2, g3, g4, g5, g6, g7] \<longleftrightarrow>
     (if [g0, g1, g2, g3, g4, g5] = [0, 0, 0, 0, 0, 0xffff] then forbidden_octets [g6 div 256, g6 mod 256, g7 div 256, g7 mod 256]
      else [g0, g1, g2, g3, g4, g5, g6] = [0, 0, 0, 0, 0, 0, 0] \<and> g7 \<le> 1 \<or> 0xfc00 \<le> g0 \<and> g0 \<le> 0xfdff \<or> 0xfe80 \<le> g0 \<and> g0 \<le> 0xfebf)"
| "forbidden_groups _ = True"

section \<open>Masks as divisions\<close>

lemma shift_or_add:
  fixes v n :: int
  assumes "0 \<le> n" "n < 2 ^ k"
  shows "push_bit k v OR n = v * 2 ^ k + n"
proof -
  have "take_bit k n = n" using assms by (simp add: take_bit_int_eq_self)
  then have "bit n i \<Longrightarrow> i < k" for i by (metis bit_take_bit_iff)
  then have "push_bit k v AND n = 0" by (intro bit_eqI) (use leD in \<open>auto simp: bit_simps\<close>)
  then show ?thesis by (simp add: disjunctive_add_eq_or push_bit_eq_mult)
qed

lemma masked_int:
  fixes v w :: int
  assumes "0 \<le> v" "v < 2 ^ (k + n)" "0 \<le> w" "w < 2 ^ (k + n)"
  shows "v AND push_bit k (2 ^ n - 1) = w AND push_bit k (2 ^ n - 1) \<longleftrightarrow> v div 2 ^ k = w div 2 ^ k"
proof -
  have masked: "u AND push_bit k (2 ^ n - 1) = push_bit k (drop_bit k u)" if "0 \<le> u" "u < 2 ^ (k + n)" for u :: int
  proof (rule bit_eqI)
    fix i
    have "take_bit (k + n) u = u" using that by (simp add: take_bit_int_eq_self)
    then have "bit u i \<Longrightarrow> i < k + n" by (metis bit_take_bit_iff)
    then show "bit (u AND push_bit k (2 ^ n - 1)) i = bit (push_bit k (drop_bit k u)) i"
      by (auto simp: bit_simps mask_eq_exp_minus_1 [symmetric])
  qed
  show ?thesis using masked [OF assms(1,2)] masked [OF assms(3,4)]
    by (simp add: push_bit_eq_mult drop_bit_eq_div)
qed

lemma hasPrefix_iff:
  assumes "0 \<le> v" "v < 2 ^ 128" "0 \<le> w" "w < 2 ^ 128" "n \<le> 128"
  shows "hasPrefix v w n \<longleftrightarrow> v div 2 ^ (128 - n) = w div 2 ^ (128 - n)"
  using masked_int [of v "128 - n" n w] assms by (simp add: hasPrefix_def push_bit_eq_mult)

lemma network_iff:
  fixes v w :: "32 word"
  assumes "w AND push_bit k 0xffffffff = w"
  shows "v AND push_bit k 0xffffffff = w \<longleftrightarrow> uint v div 2 ^ k = uint w div 2 ^ k"
proof -
  have masked: "u AND push_bit k 0xffffffff = push_bit k (drop_bit k u)" for u :: "32 word"
  proof -
    have ones: "(0xffffffff :: 32 word) = - 1" by simp
    show ?thesis unfolding ones by (intro bit_word_eqI) (auto simp: bit_simps)
  qed
  have "uint (push_bit k (drop_bit k u)) = uint u div 2 ^ k * 2 ^ k" for u :: "32 word"
  proof -
    have "0 \<le> uint u div 2 ^ k * 2 ^ k" by (intro mult_nonneg_nonneg) (simp_all add: pos_imp_zdiv_nonneg_iff)
    moreover have "uint u div 2 ^ k * 2 ^ k \<le> uint u" by (simp add: minus_mod_eq_div_mult [symmetric])
    with uint_lt2p [of u] have "uint u div 2 ^ k * 2 ^ k < 2 ^ 32" using uint_lt2p [of u] by simp
    moreover have "take_bit LENGTH(32) (uint u) = uint u" by (rule take_bit_int_eq_self) (use uint_lt2p [of u] in simp_all)
    then have "uint (drop_bit k u) = uint u div 2 ^ k" by (metis unsigned_drop_bit_eq drop_bit_eq_div)
    moreover have "uint (push_bit k (drop_bit k u)) = take_bit LENGTH(32) (push_bit k (uint (drop_bit k u)))"
      by (rule unsigned_push_bit_eq)
    ultimately show ?thesis by (simp add: push_bit_eq_mult take_bit_int_eq_self)
  qed
  then have "push_bit k (drop_bit k v) = push_bit k (drop_bit k w) \<longleftrightarrow> uint v div 2 ^ k = uint w div 2 ^ k"
    by (metis (no_types) mult_cancel_right power_not_zero word_uint_eqI zero_neq_numeral)
  with assms show ?thesis unfolding masked by metis
qed

lemma forbidden_word: "isForbiddenIpv4 v \<longleftrightarrow> uint v div 2 ^ 24 \<in> {0, 10, 127} \<or> uint v div 2 ^ 22 = 401 \<or> uint v div 2 ^ 16 \<in> {43518, 49320}
    \<or> uint v div 2 ^ 20 = 2753 \<or> uint v div 2 ^ 28 = 14"
proof -
  have n: "v AND push_bit 24 0xffffffff = 0 \<longleftrightarrow> uint v div 2 ^ 24 = 0" "v AND push_bit 24 0xffffffff = 0x0a000000 \<longleftrightarrow> uint v div 2 ^ 24 = 10"
    "v AND push_bit 24 0xffffffff = 0x7f000000 \<longleftrightarrow> uint v div 2 ^ 24 = 127" "v AND push_bit 22 0xffffffff = 0x64400000 \<longleftrightarrow> uint v div 2 ^ 22 = 401"
    "v AND push_bit 16 0xffffffff = 0xa9fe0000 \<longleftrightarrow> uint v div 2 ^ 16 = 43518" "v AND push_bit 16 0xffffffff = 0xc0a80000 \<longleftrightarrow> uint v div 2 ^ 16 = 49320"
    "v AND push_bit 20 0xffffffff = 0xac100000 \<longleftrightarrow> uint v div 2 ^ 20 = 2753" "v AND push_bit 28 0xffffffff = 0xe0000000 \<longleftrightarrow> uint v div 2 ^ 28 = 14"
    by (subst network_iff, simp, simp)+
  show ?thesis unfolding isForbiddenIpv4_def forbidden_networks_def by (simp add: n del: push_bit_numeral) blast
qed

section \<open>Numerals\<close>

lemma unit_value_range: "is_digit u \<Longrightarrow> 0 \<le> unit_value u \<and> unit_value u < 10" "is_hex_unit u \<Longrightarrow> 0 \<le> unit_value u \<and> unit_value u < 16"
  by (auto simp: unit_value_def is_hex_unit_def is_digit_def is_lower_def is_upper_def in_range_def split: if_splits)

lemma numeral_value_append: "numeral_value b (s @ [u]) = numeral_value b s * b + unit_value u"
  by (simp add: numeral_value_def)

lemma numeral_value_range:
  assumes "list_all (\<lambda>u. 0 \<le> unit_value u \<and> unit_value u < b) s" "0 < b"
  shows "0 \<le> numeral_value b s \<and> numeral_value b s < b ^ length s"
  using assms
proof (induction s rule: rev_induct)
  case Nil
  then show ?case by (simp add: numeral_value_def)
next
  case (snoc u s)
  then have v: "0 \<le> numeral_value b s" "numeral_value b s + 1 \<le> b ^ length s" "0 \<le> unit_value u" "unit_value u < b" by simp_all
  then have "(numeral_value b s + 1) * b \<le> b ^ length s * b" using snoc.prems by (intro mult_right_mono) simp_all
  with v snoc.prems show ?case by (simp add: numeral_value_append algebra_simps)
qed

lemma octet_range: "octet_text s \<Longrightarrow> 0 \<le> numeral_value 10 s \<and> numeral_value 10 s < 256"
  using numeral_value_range [of 10 s] unit_value_range(1) by (auto simp: octet_text_def list_all_iff)

lemma group_range: "hex_group s \<Longrightarrow> 0 \<le> numeral_value 16 s \<and> numeral_value 16 s < 65536"
proof -
  assume s: "hex_group s"
  then have "0 \<le> numeral_value 16 s \<and> numeral_value 16 s < 16 ^ length s"
    using numeral_value_range [of 16 s] unit_value_range(2) by (auto simp: hex_group_def list_all_iff)
  moreover have "(16 :: int) ^ length s \<le> 16 ^ 4" using s by (intro power_increasing) (simp_all add: hex_group_def)
  ultimately show ?thesis by simp
qed

text \<open>A fold of shifts is the number with these digits.\<close>

definition horner :: "int \<Rightarrow> int list \<Rightarrow> int" where
  "horner b xs = foldl (\<lambda>v x. v * b + x) 0 xs"

lemma horner_from: "foldl (\<lambda>v x. v * b + x) a xs = a * b ^ length xs + horner b xs"
proof (induction xs arbitrary: a)
  case (Cons x xs)
  from Cons [of "a * b + x"] Cons [of x] show ?case by (simp add: horner_def algebra_simps)
qed (simp add: horner_def)

lemma horner_append: "horner b (xs @ ys) = horner b xs * b ^ length ys + horner b ys"
  using horner_from [of b "horner b xs" ys] by (simp add: horner_def)

lemma horner_range:
  assumes "list_all (\<lambda>x. 0 \<le> x \<and> x < b) xs" "0 < b"
  shows "0 \<le> horner b xs \<and> horner b xs < b ^ length xs"
  using assms
proof (induction xs rule: rev_induct)
  case Nil
  then show ?case by (simp add: horner_def)
next
  case (snoc x xs)
  then have v: "0 \<le> horner b xs" "horner b xs + 1 \<le> b ^ length xs" "0 \<le> x" "x < b" by simp_all
  then have "(horner b xs + 1) * b \<le> b ^ length xs * b" using snoc.prems by (intro mult_right_mono) simp_all
  with v snoc.prems show ?case by (simp add: horner_append horner_def [of b "[x]"] algebra_simps)
qed

lemma horner_div:
  assumes "list_all (\<lambda>x. 0 \<le> x \<and> x < b) ys" "0 < b"
  shows "horner b (xs @ ys) div b ^ length ys = horner b xs" "horner b (xs @ ys) mod b ^ length ys = horner b ys"
  using horner_range [OF assms] assms(2) by (simp_all add: horner_append div_add1_eq mod_add_eq [symmetric])

lemma horner_inj:
  assumes "0 < b" "length xs = length ys" "list_all (\<lambda>x. 0 \<le> x \<and> x < b) xs" "list_all (\<lambda>x. 0 \<le> x \<and> x < b) ys"
  shows "horner b xs = horner b ys \<longleftrightarrow> xs = ys"
  using assms(2-4)
proof (induction xs ys rule: rev_induct2)
  case (4 x xs y ys)
  then have r: "list_all (\<lambda>x. 0 \<le> x \<and> x < b) [x]" "list_all (\<lambda>x. 0 \<le> x \<and> x < b) [y]" by simp_all
  have "horner b xs = horner b ys \<and> x = y" if "horner b (xs @ [x]) = horner b (ys @ [y])"
    using horner_div [OF r(1) assms(1), of xs] horner_div [OF r(2) assms(1), of ys] that by (simp add: horner_def [of b "[_]"])
  with 4 show ?case by auto
qed simp_all

lemma shifts_horner:
  assumes "list_all (\<lambda>x. 0 \<le> x \<and> x < 2 ^ k) xs"
  shows "foldl (\<lambda>v x. push_bit k v OR x) a xs = foldl (\<lambda>v x. v * 2 ^ k + x) a (xs :: int list)"
  using assms by (induction xs arbitrary: a) (simp_all add: shift_or_add)

lemma word_shifts_horner:
  assumes "list_all (\<lambda>x. 0 \<le> x \<and> x < 256) xs"
  shows "foldl (\<lambda>v x. push_bit 8 v OR word_of_int x) (word_of_int a) xs = (word_of_int (foldl (\<lambda>v x. v * 256 + x) a xs) :: 32 word)"
  using assms
proof (induction xs arbitrary: a)
  case (Cons x xs)
  have "push_bit 8 (word_of_int a) OR word_of_int x = (word_of_int (push_bit 8 a OR x) :: 32 word)"
    by (intro bit_word_eqI) (auto simp: bit_simps)
  also have "push_bit 8 a OR x = a * 256 + x" using shift_or_add [of x 8 a] Cons.prems by simp
  finally have step: "push_bit 8 (word_of_int a) OR word_of_int x = (word_of_int (a * 256 + x) :: 32 word)" .
  from Cons show ?case by (simp only: foldl_Cons step list.pred_inject)
qed simp

section \<open>The two checks on numbers\<close>

lemma ipv4_number:
  assumes "isIPv4 s"
  shows "length (octets s) = 4" "list_all (\<lambda>x. 0 \<le> x \<and> x < 256) (octets s)" "uint (ipv4ToNumber s) = horner 256 (octets s)"
proof -
  show len: "length (octets s) = 4" using assms by (simp add: isIPv4_def octets_def)
  show range: "list_all (\<lambda>x. 0 \<le> x \<and> x < 256) (octets s)"
    using assms octet_range by (auto simp: isIPv4_def octets_def list_all_iff)
  have "ipv4ToNumber s = foldl (\<lambda>v x. push_bit 8 v OR word_of_int x) (word_of_int 0) (octets s)"
    by (simp add: ipv4ToNumber_def octets_def foldl_map)
  then have "ipv4ToNumber s = word_of_int (horner 256 (octets s))" using word_shifts_horner [OF range, of 0] by (simp add: horner_def)
  then show "uint (ipv4ToNumber s) = horner 256 (octets s)"
    using horner_range [OF range] len by (simp add: uint_word_of_int)
qed

lemma int_div_iff: "0 < m \<Longrightarrow> x div m = q \<longleftrightarrow> q * m \<le> x \<and> x < q * m + m" for x m q :: int
proof
  assume m: "0 < m"
  then have "0 \<le> x mod m" "x mod m < m" by simp_all
  then show "x div m = q \<Longrightarrow> q * m \<le> x \<and> x < q * m + m" using div_mult_mod_eq [of x m] by (elim subst) linarith
  show "q * m \<le> x \<and> x < q * m + m \<Longrightarrow> x div m = q"
    using m by (intro int_div_pos_eq [of _ _ _ "x - q * m"]) (simp_all add: mult.commute)
qed

lemma octet_pair:
  fixes a b q :: int
  assumes "0 \<le> b" "b < 256" "0 \<le> l" "h \<le> 256"
  shows "q * 256 + l \<le> a * 256 + b \<and> a * 256 + b < q * 256 + h \<longleftrightarrow> a = q \<and> l \<le> b \<and> b < h"
proof
  assume x: "q * 256 + l \<le> a * 256 + b \<and> a * 256 + b < q * 256 + h"
  then have "a \<le> q" "q \<le> a" using assms by linarith+
  with x show "a = q \<and> l \<le> b \<and> b < h" by simp
qed simp

lemma two_octets:
  fixes a b :: int
  assumes "0 \<le> b" "b < 256"
  shows "(a * 256 + b) div 64 = 401 \<longleftrightarrow> a = 100 \<and> 64 \<le> b \<and> b \<le> 127" "(a * 256 + b) div 16 = 2753 \<longleftrightarrow> a = 172 \<and> 16 \<le> b \<and> b \<le> 31"
    "a * 256 + b = 43518 \<longleftrightarrow> a = 169 \<and> b = 254" "a * 256 + b = 49320 \<longleftrightarrow> a = 192 \<and> b = 168" "a div 16 = 14 \<longleftrightarrow> 224 \<le> a \<and> a \<le> 239"
proof -
  show "(a * 256 + b) div 64 = 401 \<longleftrightarrow> a = 100 \<and> 64 \<le> b \<and> b \<le> 127" "(a * 256 + b) div 16 = 2753 \<longleftrightarrow> a = 172 \<and> 16 \<le> b \<and> b \<le> 31"
    using octet_pair [OF assms, of 64 128 100 a] octet_pair [OF assms, of 16 32 172 a] by (auto simp: int_div_iff)
  show "a * 256 + b = 43518 \<longleftrightarrow> a = 169 \<and> b = 254" "a * 256 + b = 49320 \<longleftrightarrow> a = 192 \<and> b = 168"
    using octet_pair [OF assms, of 254 255 169 a] octet_pair [OF assms, of 168 169 192 a] by auto
  show "a div 16 = 14 \<longleftrightarrow> 224 \<le> a \<and> a \<le> 239" by (auto simp: int_div_iff)
qed

lemma forbidden_number:
  assumes "uint (v :: 32 word) = horner 256 [a, b, c, d]" "list_all (\<lambda>x. 0 \<le> x \<and> x < 256) [a, b, c, d]"
  shows "isForbiddenIpv4 v \<longleftrightarrow> forbidden_octets [a, b, c, d]"
proof -
  have n: "uint v div 2 ^ 24 = a" "uint v div 2 ^ 16 = a * 256 + b"
    using horner_div(1) [of 256 "[b, c, d]" "[a]"] horner_div(1) [of 256 "[c, d]" "[a, b]"] assms by (simp_all add: horner_def)
  have m: "uint v div 2 ^ 22 = uint v div 2 ^ 16 div 64" "uint v div 2 ^ 20 = uint v div 2 ^ 16 div 16" "uint v div 2 ^ 28 = uint v div 2 ^ 24 div 16"
    by (simp_all flip: zdiv_zmult2_eq)
  have b: "0 \<le> b" "b < 256" using assms(2) by simp_all
  show ?thesis unfolding forbidden_word m n forbidden_octets.simps insert_iff empty_iff two_octets [OF b] by (simp only: simp_thms disj_ac)
qed

lemma forbidden_big:
  assumes v: "v = horner 65536 [g0, g1, g2, g3, g4, g5, g6, g7]" and r: "list_all (\<lambda>x. 0 \<le> x \<and> x < 65536) [g0, g1, g2, g3, g4, g5, g6, g7]"
  shows "(if drop_bit 32 v = 0xffff then isForbiddenIpv4 (word_of_int (v AND 0xffffffff))
     else v = 0 \<or> v = 1 \<or> hasPrefix v (push_bit 112 0xfc00) 7 \<or> hasPrefix v (push_bit 112 0xfe80) 10)
    \<longleftrightarrow> forbidden_groups [g0, g1, g2, g3, g4, g5, g6, g7]"
proof -
  have range: "0 \<le> v" "v < 2 ^ 128" using horner_range [OF r] v by simp_all
  have hi: "v div 2 ^ 112 = g0" using horner_div(1) [of 65536 "[g1, g2, g3, g4, g5, g6, g7]" "[g0]"] r v by (simp add: horner_def)
  then have prefixes: "v div 2 ^ 121 = g0 div 512" "v div 2 ^ 118 = g0 div 64"
    using zdiv_zmult2_eq [of 512 v "2 ^ 112"] zdiv_zmult2_eq [of 64 v "2 ^ 112"] by simp_all
  have fc: "hasPrefix v (push_bit 112 0xfc00) 7 \<longleftrightarrow> 0xfc00 \<le> g0 \<and> g0 \<le> 0xfdff"
  proof -
    have "hasPrefix v (push_bit 112 0xfc00) 7 \<longleftrightarrow> v div 2 ^ 121 = 126"
      using hasPrefix_iff [OF range, of "push_bit 112 0xfc00" 7] by simp
    then show ?thesis unfolding prefixes using int_div_iff [of 512 g0 126] by auto
  qed
  have fe: "hasPrefix v (push_bit 112 0xfe80) 10 \<longleftrightarrow> 0xfe80 \<le> g0 \<and> g0 \<le> 0xfebf"
  proof -
    have "hasPrefix v (push_bit 112 0xfe80) 10 \<longleftrightarrow> v div 2 ^ 118 = 1018"
      using hasPrefix_iff [OF range, of "push_bit 112 0xfe80" 10] by simp
    then show ?thesis unfolding prefixes using int_div_iff [of 64 g0 1018] by auto
  qed
  have mapped: "drop_bit 32 v = 0xffff \<longleftrightarrow> [g0, g1, g2, g3, g4, g5] = [0, 0, 0, 0, 0, 0xffff]"
    using horner_div(1) [of 65536 "[g6, g7]" "[g0, g1, g2, g3, g4, g5]"] horner_inj [of 65536 "[g0, g1, g2, g3, g4, g5]" "[0, 0, 0, 0, 0, 0xffff]"] r v
    by (simp add: drop_bit_eq_div horner_def [of _ "[0, 0, 0, 0, 0, 65535]"])
  have small: "v = 0 \<longleftrightarrow> [g0, g1, g2, g3, g4, g5, g6, g7] = [0, 0, 0, 0, 0, 0, 0, 0]" "v = 1 \<longleftrightarrow> [g0, g1, g2, g3, g4, g5, g6, g7] = [0, 0, 0, 0, 0, 0, 0, 1]"
    using horner_inj [of 65536 "[g0, g1, g2, g3, g4, g5, g6, g7]" "[0, 0, 0, 0, 0, 0, 0, 0]"]
      horner_inj [of 65536 "[g0, g1, g2, g3, g4, g5, g6, g7]" "[0, 0, 0, 0, 0, 0, 0, 1]"] r v
    by (simp_all add: horner_def [of _ "[0, 0, 0, 0, 0, 0, 0, _]"])
  have g7: "g7 \<le> 1 \<longleftrightarrow> g7 = 0 \<or> g7 = 1" using r by auto
  have low: "v AND 0xffffffff = g6 * 65536 + g7"
    using horner_div(2) [of 65536 "[g6, g7]" "[g0, g1, g2, g3, g4, g5]"] r v take_bit_eq_mask [of 32 v]
    by (simp add: take_bit_eq_mod mask_eq_exp_minus_1 horner_def [of _ "[g6, g7]"] and.commute)
  have quad: "isForbiddenIpv4 (word_of_int (v AND 0xffffffff)) \<longleftrightarrow> forbidden_octets [g6 div 256, g6 mod 256, g7 div 256, g7 mod 256]"
  proof (rule forbidden_number)
    have "g6 * 65536 + g7 < 2 ^ 32" "0 \<le> g6 * 65536 + g7" using r by simp_all
    then have "(g6 * 65536 + g7) mod 2 ^ LENGTH(32) = g6 * 65536 + g7" by simp
    moreover have "horner 256 [g6 div 256, g6 mod 256, g7 div 256, g7 mod 256] = g6 * 65536 + g7"
      using div_mult_mod_eq [of g6 256] div_mult_mod_eq [of g7 256] by (simp add: horner_def)
    ultimately show "uint (word_of_int (v AND 0xffffffff) :: 32 word) = horner 256 [g6 div 256, g6 mod 256, g7 div 256, g7 mod 256]"
      unfolding low uint_word_of_int by simp
  qed (use r in auto)
  show ?thesis unfolding mapped fc fe small quad forbidden_groups.simps by (simp add: g7) blast
qed

section \<open>Splitting\<close>

lemma split_on_nonempty [simp]: "split_on c xs \<noteq> []"
  by (cases xs) simp_all

lemma split_on_append: "split_on c (xs @ c # ys) = split_on c xs @ split_on c ys"
  by (induction xs) simp_all

lemma split_on_none: "c \<notin> set xs \<Longrightarrow> split_on c xs = [xs]"
  by (induction xs) auto

lemma split_on_parts: "p \<in> set (split_on c xs) \<Longrightarrow> c \<notin> set p \<and> set p \<subseteq> set xs"
proof (induction xs arbitrary: p)
  case (Cons x xs)
  obtain q qs where "split_on c xs = q # qs" by (cases "split_on c xs") simp_all
  with Cons show ?case by (fastforce split: if_splits)
qed simp

lemma split_on_covers: "x \<in> set xs \<Longrightarrow> x \<noteq> c \<Longrightarrow> \<exists>p \<in> set (split_on c xs). x \<in> set p"
proof (induction xs)
  case (Cons y xs)
  obtain q qs where "split_on c xs = q # qs" by (cases "split_on c xs") simp_all
  with Cons show ?case by (auto split: if_splits)
qed simp

lemma split_on_last: "c \<notin> set q \<Longrightarrow> split_on c (xs @ [c] @ q) = split_on c xs @ [q]"
  by (simp add: split_on_append split_on_none)

lemma split_twice_nonempty [simp]: "split_twice c xs \<noteq> []"
  by (induction c xs rule: split_twice.induct) simp_all

lemma split_twice_covers: "x \<in> set xs \<Longrightarrow> x \<noteq> c \<Longrightarrow> \<exists>p \<in> set (split_twice c xs). x \<in> set p"
proof (induction c xs rule: split_twice.induct)
  case (3 c y z xs)
  obtain q qs where "split_twice c (z # xs) = q # qs" by (cases "split_twice c (z # xs)") simp_all
  with 3 show ?case by (auto split: if_splits)
qed simp_all

lemma split_twice_none: "c \<notin> set xs \<Longrightarrow> split_twice c xs = [xs]"
  by (induction c xs rule: split_twice.induct) auto

lemma split_twice_single: "split_twice c xs = [q] \<Longrightarrow> q = xs"
proof (induction c xs arbitrary: q rule: split_twice.induct)
  case (3 c y z xs)
  obtain r rs where "split_twice c (z # xs) = r # rs" by (cases "split_twice c (z # xs)") simp_all
  with 3 show ?case by (auto split: if_splits)
qed simp_all

lemma split_twice_last: "last (split_twice c xs) = [] \<or> last (last (split_twice c xs)) = last xs"
proof (induction c xs rule: split_twice.induct)
  case (3 c y z xs)
  obtain q qs where q: "split_twice c (z # xs) = q # qs" by (cases "split_twice c (z # xs)") simp_all
  show ?case
  proof (cases "y = c \<and> z = c")
    case True
    with 3 show ?thesis by (cases xs) (auto split: if_splits)
  next
    case False
    with 3 q split_twice_single [of c "z # xs" q] show ?thesis by (cases qs) auto
  qed
qed simp_all

lemma split_twice_tail:
  assumes "t \<noteq> []" "split_twice c t = [t]" "hd t \<noteq> c" "u \<noteq> []" "split_twice c u = [u]" "hd u \<noteq> c"
  shows "\<exists>ps p. split_twice c (xs @ t) = ps @ [p @ t] \<and> split_twice c (xs @ u) = ps @ [p @ u] \<and> (p = [] \<or> xs \<noteq> [] \<and> last p = last xs)"
  using assms
proof (induction c xs rule: split_twice.induct)
  case (1 c)
  then show ?case by (intro exI [of _ "[]"]) simp
next
  case (2 c x)
  obtain a as b bs where "t = a # as" "u = b # bs" using 2 by (cases t; cases u) simp_all
  with 2 show ?case by (intro exI [of _ "[]"] exI [of _ "[x]"]) simp
next
  case (3 c x y xs)
  show ?case
  proof (cases "x = c \<and> y = c")
    case True
    with 3 obtain ps p where "split_twice c (xs @ t) = ps @ [p @ t]" "split_twice c (xs @ u) = ps @ [p @ u]" "p = [] \<or> xs \<noteq> [] \<and> last p = last xs"
      by blast
    with True show ?thesis by (intro exI [of _ "[] # ps"] exI [of _ p]) auto
  next
    case False
    with 3 obtain ps p where p: "split_twice c ((y # xs) @ t) = ps @ [p @ t]" "split_twice c ((y # xs) @ u) = ps @ [p @ u]"
      "p = [] \<or> last p = last (y # xs)" by blast
    show ?thesis
    proof (cases ps)
      case Nil
      with p split_twice_single [of c "(y # xs) @ t"] have "p = y # xs" by simp
      with Nil False p show ?thesis by (intro exI [of _ ps] exI [of _ "x # p"]) auto
    next
      case (Cons r rs)
      with False p show ?thesis by (intro exI [of _ "(x # r) # rs"] exI [of _ p]) auto
    qed
  qed
qed

section \<open>The text of an address and its number\<close>

lemma fold_groups:
  assumes "list_all hex_group ps"
  shows "foldl (\<lambda>v part. push_bit 16 v OR numeral_value 16 part) 0 ps = horner 65536 (map (numeral_value 16) ps)"
    and "list_all (\<lambda>x. 0 \<le> x \<and> x < 65536) (map (numeral_value 16) ps)"
proof -
  show range: "list_all (\<lambda>x. 0 \<le> x \<and> x < 65536) (map (numeral_value 16) ps)"
    using assms group_range by (auto simp: list_all_iff)
  then show "foldl (\<lambda>v part. push_bit 16 v OR numeral_value 16 part) 0 ps = horner 65536 (map (numeral_value 16) ps)"
    using shifts_horner [of 16 "map (numeral_value 16) ps" 0] by (simp add: horner_def foldl_map)
qed

lemma units: "\<not> is_hex_unit dot" "\<not> is_hex_unit colon" "colon \<noteq> dot" "hex_group (js ''0'')" "numeral_value 16 (js ''0'') = 0"
  by code_simp+

lemma hex_no_dot: "hex_group p \<Longrightarrow> dot \<notin> set p"
  using units(1) by (auto simp: hex_group_def list_all_iff)

lemma quad_dot: "isIPv4 p \<Longrightarrow> dot \<in> set p"
  using split_on_none [of dot p] by (cases "dot \<in> set p") (auto simp: isIPv4_def)

lemma split_twice_parts: "p \<in> set (split_twice c xs) \<Longrightarrow> set p \<subseteq> set xs"
proof (induction c xs arbitrary: p rule: split_twice.induct)
  case (3 c y z xs)
  obtain q qs where "split_twice c (z # xs) = q # qs" by (cases "split_twice c (z # xs)") simp_all
  with 3 show ?case by (fastforce split: if_splits)
qed simp_all

lemma side_parts_subset: "p \<in> set (side_parts s) \<Longrightarrow> set p \<subseteq> set s"
  using split_on_parts [of p colon s] by (auto simp: side_parts_def split: if_splits)

lemma side_hex:
  assumes "side_size f s = Some n" "f \<Longrightarrow> dot \<notin> set s"
  shows "list_all hex_group (side_parts s)" "n = length (side_parts s)" "side_groups s = map (numeral_value 16) (side_parts s)"
proof -
  have "\<not> (f \<and> side_parts s \<noteq> [] \<and> isIPv4 (last (side_parts s)))"
    using assms(2) quad_dot side_parts_subset [of "last (side_parts s)" s] last_in_set by blast
  with assms(1) show hex: "list_all hex_group (side_parts s)" "n = length (side_parts s)"
    by (auto simp: side_size_def Let_def split: if_splits)
  have "list_all hex_group ps \<Longrightarrow> concat (map part_groups ps) = map (numeral_value 16) ps" for ps
    by (induction ps) (simp_all add: part_groups_def)
  with hex(1) show "side_groups s = map (numeral_value 16) (side_parts s)" by (simp add: side_groups_def)
qed

lemma isIPv6E:
  assumes "isIPv6 s"
  obtains (one) "split_twice colon s = [s]" "side_size True s = Some 8"
    | (two) l r m n where "split_twice colon s = [l, r]" "side_size False l = Some m" "side_size True r = Some n" "m + n \<le> 7"
proof (cases "split_twice colon s")
  case (Cons l rest)
  show ?thesis
  proof (cases rest)
    case Nil
    with Cons split_twice_single [of colon s l] assms show ?thesis by (intro one) (simp_all add: isIPv6_def)
  next
    case (Cons r more)
    with \<open>split_twice colon s = l # rest\<close> assms show ?thesis
      by (intro two [of l r "the (side_size False l)" "the (side_size True r)"]) (auto simp: isIPv6_def split: list.splits option.splits)
  qed
qed simp

lemma plain_address:
  assumes "isIPv6 s" "dot \<notin> set s"
  shows "ipv6ToBigInt s = horner 65536 (groups s) \<and> length (groups s) = 8 \<and> list_all (\<lambda>x. 0 \<le> x \<and> x < 65536) (groups s)"
  using assms(1)
proof (cases rule: isIPv6E)
  case one
  note hex = side_hex [OF one(2) assms(2)]
  then have "s \<noteq> []" by (auto simp: side_parts_def)
  with hex one(1) assms(2) have "ipv6ToBigInt s = foldl (\<lambda>v part. push_bit 16 v OR numeral_value 16 part) 0 (side_parts s)"
    by (simp add: ipv6ToBigInt_def side_parts_def Let_def)
  with hex one(1) fold_groups [OF hex(1)] show ?thesis by (simp add: groups_def)
next
  case (two l r m n)
  have "dot \<notin> set l" "dot \<notin> set r" using split_twice_parts [of _ colon s] two(1) assms(2) by auto
  note hexl = side_hex [OF two(2)] and hexr = side_hex [OF two(3) \<open>dot \<notin> set r\<close>]
  define zeros where "zeros = replicate (8 - length (side_parts l) - length (side_parts r)) (js ''0'')"
  have hex: "list_all hex_group (side_parts l @ zeros @ side_parts r)"
    using hexl(1) hexr(1) units(4) by (auto simp: zeros_def list_all_iff)
  have parts: "side_parts p = (if p = [] then [] else split_on colon p)" for p by (simp add: side_parts_def)
  have "ipv6ToBigInt s = foldl (\<lambda>v part. push_bit 16 v OR numeral_value 16 part) 0 (side_parts l @ zeros @ side_parts r)"
    using two(1) assms(2) by (simp add: ipv6ToBigInt_def Let_def zeros_def parts)
  moreover have "groups s = map (numeral_value 16) (side_parts l @ zeros @ side_parts r)"
    using two(1) hexl hexr units(5) by (simp add: groups_def zeros_def)
  moreover have "length (side_parts l @ zeros @ side_parts r) = 8" using two(4) hexl(2) hexr(2) by (simp add: zeros_def)
  ultimately show ?thesis using fold_groups [OF hex] by (simp only: length_map)
qed

lemma hex_digits: "k < 16 \<Longrightarrow> is_hex_unit (js ''0123456789abcdef'' ! k) \<and> unit_value (js ''0123456789abcdef'' ! k) = int k"
proof -
  assume "k < 16"
  moreover have "list_all (\<lambda>k. is_hex_unit (js ''0123456789abcdef'' ! k) \<and> unit_value (js ''0123456789abcdef'' ! k) = int k) [0..<16]"
    by code_simp
  ultimately show ?thesis by (simp add: list_all_iff)
qed

lemma to_hex_value: "list_all is_hex_unit (to_hex n) \<and> numeral_value 16 (to_hex n) = int n \<and> to_hex n \<noteq> []"
proof (induction n rule: to_hex.induct)
  case (1 n)
  show ?case
  proof (cases "n < 16")
    case True
    with hex_digits [of n] show ?thesis by (subst (1 2 3) to_hex.simps) (simp add: numeral_value_def)
  next
    case False
    with 1 hex_digits [of "n mod 16"] have "numeral_value 16 (to_hex (n div 16) @ [js ''0123456789abcdef'' ! (n mod 16)]) = int n"
      by (simp add: numeral_value_append zdiv_int zmod_int)
    with False 1 hex_digits [of "n mod 16"] show ?thesis by (subst (1 2 3) to_hex.simps) simp
  qed
qed

lemma to_hex_length: "n < 16 ^ Suc k \<Longrightarrow> length (to_hex n) \<le> Suc k"
proof (induction k arbitrary: n)
  case 0
  then show ?case by (subst to_hex.simps) simp
next
  case (Suc k)
  then have "n div 16 < 16 ^ Suc k" by (simp add: less_mult_imp_div_less mult.commute)
  with Suc show ?case by (subst to_hex.simps) simp
qed

lemma to_hex_group: "n < 65536 \<Longrightarrow> hex_group (to_hex n)"
  using to_hex_value [of n] to_hex_length [of n 3] by (simp add: hex_group_def)

text \<open>An address that ends in a dotted quad stands for one with two more groups.\<close>

lemma hex_units_plain: "list_all is_hex_unit p \<Longrightarrow> dot \<notin> set p \<and> colon \<notin> set p"
  using units(1,2) by (auto simp: list_all_iff)

lemma quad_groups:
  assumes "isIPv4 q"
  defines "h \<equiv> to_hex (unat (drop_bit 16 (ipv4ToNumber q)))" and "k \<equiv> to_hex (unat (ipv4ToNumber q AND 0xffff))"
  shows "hex_group h" "hex_group k" "part_groups q = [numeral_value 16 h, numeral_value 16 k]"
proof -
  note q = ipv4_number [OF assms(1)]
  obtain a b c d where o: "octets q = [a, b, c, d]" using q(1) by (auto simp: eval_nat_numeral length_Suc_conv)
  have v: "uint (ipv4ToNumber q) = (a * 256 + b) * 65536 + (c * 256 + d)" using q(3) o by (simp add: horner_def)
  have r: "0 \<le> c * 256 + d" "c * 256 + d < 65536" "0 \<le> a * 256 + b" "a * 256 + b < 65536" using q(2) o by simp_all
  have hi: "uint (drop_bit 16 (ipv4ToNumber q)) = a * 256 + b"
  proof -
    have "take_bit LENGTH(32) (uint (ipv4ToNumber q)) = uint (ipv4ToNumber q)"
      by (rule take_bit_int_eq_self) (use uint_lt2p [of "ipv4ToNumber q"] in simp_all)
    then have "uint (drop_bit 16 (ipv4ToNumber q)) = uint (ipv4ToNumber q) div 2 ^ 16" by (metis unsigned_drop_bit_eq drop_bit_eq_div)
    with v r show ?thesis by simp
  qed
  have lo: "uint (ipv4ToNumber q AND 0xffff) = c * 256 + d"
  proof -
    have "ipv4ToNumber q AND 0xffff = take_bit 16 (ipv4ToNumber q)" by (simp add: take_bit_eq_mask mask_eq_exp_minus_1)
    moreover have "uint (take_bit 16 (ipv4ToNumber q)) = take_bit 16 (uint (ipv4ToNumber q))" by (rule unsigned_take_bit_eq)
    ultimately have "uint (ipv4ToNumber q AND 0xffff) = uint (ipv4ToNumber q) mod 65536" by (simp add: take_bit_eq_mod)
    also have "\<dots> = c * 256 + d" unfolding v by (simp only: mod_mult_self3 mod_pos_pos_trivial [OF r(1,2)])
    finally show ?thesis .
  qed
  have n: "int (unat (drop_bit 16 (ipv4ToNumber q))) = a * 256 + b" "int (unat (ipv4ToNumber q AND 0xffff)) = c * 256 + d"
    using hi lo by simp_all
  with r show "hex_group h" "hex_group k" unfolding h_def k_def by (intro to_hex_group; linarith)+
  have "\<not> hex_group q" using hex_no_dot quad_dot [OF assms(1)] by blast
  with o n show "part_groups q = [numeral_value 16 h, numeral_value 16 k]"
    unfolding h_def k_def using to_hex_value by (simp add: part_groups_def)
qed

lemma last_colon:
  assumes "colon \<notin> set q"
  shows "after_last colon (xs @ [colon] @ q) = q" "before_last colon (xs @ [colon] @ q) = xs"
proof -
  have "takeWhile (\<lambda>x. x \<noteq> colon) (rev q @ colon # rev xs) = rev q" "dropWhile (\<lambda>x. x \<noteq> colon) (rev q @ colon # rev xs) = colon # rev xs"
    using assms by (auto simp: takeWhile_append dropWhile_append)
  then show "after_last colon (xs @ [colon] @ q) = q" "before_last colon (xs @ [colon] @ q) = xs"
    by (simp_all add: after_last_def before_last_def)
qed

text \<open>The side that ends in the quad, before and after the quad is rewritten.\<close>

lemma side_rewritten:
  assumes q: "isIPv4 q" "colon \<notin> set q" and p: "p = [] \<or> last p = colon"
    and h: "hex_group h" "hex_group k" "part_groups q = [numeral_value 16 h, numeral_value 16 k]"
    and size: "side_size True (p @ q) = Some n"
  shows "side_size True (p @ h @ [colon] @ k) = Some n" "side_groups (p @ h @ [colon] @ k) = side_groups (p @ q)"
    "list_all hex_group (side_parts (p @ h @ [colon] @ k))"
proof -
  have plain: "colon \<notin> set h" "colon \<notin> set k" using h hex_units_plain by (auto simp: hex_group_def)
  define ps where "ps = (if p = [] then [] else split_on colon (butlast p))"
  have split: "side_parts (p @ t) = ps @ split_on colon t" if "t \<noteq> []" for t
  proof (cases p rule: rev_cases)
    case (snoc xs x)
    with p that show ?thesis by (simp add: side_parts_def ps_def split_on_append)
  qed (simp add: side_parts_def ps_def that)
  have ne: "q \<noteq> []" using quad_dot [OF q(1)] by auto
  have parts: "side_parts (p @ q) = ps @ [q]" "side_parts (p @ h @ [colon] @ k) = ps @ [h, k]"
    using split [OF ne] split [of "h @ [colon] @ k"] q(2) plain by (simp_all add: split_on_append split_on_none)
  have "\<not> hex_group q" using hex_no_dot quad_dot [OF q(1)] by blast
  with size parts have "list_all hex_group ps" "n = Suc (Suc (length ps))" by (auto simp: side_size_def Let_def split: if_splits)
  with h parts show "side_size True (p @ h @ [colon] @ k) = Some n" "list_all hex_group (side_parts (p @ h @ [colon] @ k))"
    by (simp_all add: side_size_def)
  from h parts show "side_groups (p @ h @ [colon] @ k) = side_groups (p @ q)" by (simp add: side_groups_def part_groups_def)
qed

lemma hex_side_no_dot: "list_all hex_group (side_parts s) \<Longrightarrow> dot \<notin> set s"
  using split_on_covers [of dot s colon] hex_no_dot units(3) by (cases "s = []") (auto simp: side_parts_def list_all_iff)

lemma split_twice_pair: "c \<notin> set h \<Longrightarrow> c \<notin> set k \<Longrightarrow> h \<noteq> [] \<Longrightarrow> k \<noteq> [] \<Longrightarrow> split_twice c (h @ [c] @ k) = [h @ [c] @ k]"
proof (induction c h rule: split_twice.induct)
  case (2 c x)
  then obtain y ys where "k = y # ys" by (cases k) simp_all
  with 2 split_twice_none [of c k] show ?case by auto
qed auto

text \<open>The last piece of an accepted address with a dot in it ends in a dotted quad.\<close>

lemma quad_last:
  assumes "isIPv6 s" "dot \<in> set s"
  defines "f \<equiv> last (split_twice colon s)"
  shows "f \<noteq> [] \<and> isIPv4 (last (split_on colon f))"
proof -
  obtain n where n: "side_size True f = Some n" "dot \<in> set f"
    using assms(1)
  proof (cases rule: isIPv6E)
    case (two l r m n)
    then have "dot \<notin> set l" using side_hex(1) [OF two(2)] hex_side_no_dot by blast
    moreover have "dot \<in> set l \<or> dot \<in> set r" using split_twice_covers [OF assms(2), of colon] two(1) units(3) by auto
    ultimately show ?thesis using that two by (simp add: f_def)
  qed (use that assms in \<open>simp add: f_def\<close>)
  then have "\<not> list_all hex_group (side_parts f)" using hex_side_no_dot by blast
  with n show ?thesis by (auto simp: side_size_def side_parts_def Let_def split: if_splits)
qed

lemma quad_address:
  assumes s: "isIPv6 s" "dot \<in> set s" and colon: "colon \<in> set s"
  shows "\<exists>n. isIPv6 n \<and> dot \<notin> set n \<and> groups n = groups s \<and> ipv6ToBigInt s = ipv6ToBigInt n"
proof -
  obtain xs q where x: "s = xs @ [colon] @ q" "colon \<notin> set q" using split_list_last [OF colon] by auto
  note f = quad_last [OF s]
  have "q \<noteq> []"
  proof
    assume "q = []"
    with x f split_twice_last [of colon s] have "last (last (split_twice colon s)) = colon" by simp
    then obtain g where "last (split_twice colon s) = g @ [colon] @ []" using f by (metis append_butlast_last_id append_Nil2)
    then have "last (split_on colon (last (split_twice colon s))) = []" by (simp add: split_on_append)
    with f quad_dot show False by fastforce
  qed
  define h k where "h = to_hex (unat (drop_bit 16 (ipv4ToNumber q)))" and "k = to_hex (unat (ipv4ToNumber q AND 0xffff))"
  have plain: "colon \<notin> set h" "colon \<notin> set k" "h \<noteq> []" "k \<noteq> []" unfolding h_def k_def using to_hex_value hex_units_plain by blast+
  define n where "n = xs @ [colon] @ h @ [colon] @ k"
  have "hd q \<noteq> colon" "hd (h @ [colon] @ k) \<noteq> colon" using x(2) plain \<open>q \<noteq> []\<close> by (metis hd_in_set, metis hd_append2 hd_in_set)
  then obtain ps p where p: "split_twice colon s = ps @ [p @ q]" "split_twice colon n = ps @ [p @ h @ [colon] @ k]" "p = [] \<or> last p = colon"
    using split_twice_tail [of q colon "h @ [colon] @ k" "xs @ [colon]"] x \<open>q \<noteq> []\<close> split_twice_none [of colon q] split_twice_pair [OF plain]
    unfolding n_def x(1) by auto
  have "last (split_on colon (p @ q)) = q"
    using p(3) x(2) split_on_last [OF x(2), of "butlast p"] by (cases p rule: rev_cases) (auto simp: split_on_none)
  with f p(1) have quad: "isIPv4 q" by simp
  note hk = quad_groups [OF quad, folded h_def k_def]
  note side = side_rewritten [OF quad x(2) p(3) hk]
  have norm: "ipv6ToBigInt s = ipv6ToBigInt n" if "dot \<notin> set n"
    using s(2) that last_colon [OF x(2), of xs] unfolding ipv6ToBigInt_def [of s] ipv6ToBigInt_def [of n]
    by (simp add: x(1) h_def k_def n_def Let_def)
  show ?thesis using s(1)
  proof (cases rule: isIPv6E)
    case one
    with p(1) have "ps = []" "s = p @ q" by simp_all
    with one p(2) side [of 8] split_twice_single [of colon n] show ?thesis
      using hex_side_no_dot norm by (intro exI [of _ n]) (simp add: isIPv6_def groups_def)
  next
    case (two l r i j)
    with p(1) have ps: "ps = [l]" "r = p @ q" by (auto simp: Cons_eq_append_conv)
    have "dot \<notin> set n"
    proof
      assume "dot \<in> set n"
      then have "dot \<in> set l \<or> dot \<in> set (p @ h @ [colon] @ k)" using split_twice_covers [of dot n colon] p(2) ps units(3) by auto
      with hex_side_no_dot side(3) [of j] two ps side_hex(1) [OF two(2)] show False by blast
    qed
    with two ps p(2) side [of j] norm show ?thesis by (intro exI [of _ n]) (simp add: isIPv6_def groups_def)
  qed
qed

lemma address_number:
  assumes "isIP s = 6"
  shows "ipv6ToBigInt s = horner 65536 (groups s)" "length (groups s) = 8" "list_all (\<lambda>x. 0 \<le> x \<and> x < 65536) (groups s)"
proof -
  have v: "isIPv6 s" "\<not> isIPv4 s" using assms by (auto simp: isIP_def split: if_splits)
  have "colon \<in> set s" if "dot \<in> set s"
  proof (rule ccontr)
    assume none: "colon \<notin> set s"
    then have "split_twice colon s = [s]" "side_parts s = [s]" "s \<noteq> []"
      using split_twice_none split_on_none [of colon s] that by (auto simp: side_parts_def)
    with v(1) show False by (auto simp: isIPv6_def side_size_def Let_def split: if_splits)
  qed
  with v(1) obtain n where n: "isIPv6 n" "dot \<notin> set n" "groups n = groups s" "ipv6ToBigInt s = ipv6ToBigInt n"
    using quad_address by (cases "dot \<in> set s") blast+
  from plain_address [OF n(1,2)] n(3,4)
  show "ipv6ToBigInt s = horner 65536 (groups s)" "length (groups s) = 8" "list_all (\<lambda>x. 0 \<le> x \<and> x < 65536) (groups s)" by simp_all
qed

lemma eight: "length xs = 8 \<Longrightarrow> \<exists>a b c d e f g h. xs = [a, b, c, d, e, f, g, h]"
  by (auto simp: eval_nat_numeral length_Suc_conv)

lemma four: "length xs = 4 \<Longrightarrow> \<exists>a b c d. xs = [a, b, c, d]"
  by (auto simp: eval_nat_numeral length_Suc_conv)


end
