(* ===== verification/Firecracker_Api.thy ===== *)
theory Firecracker_Api
  imports Ip_Address
begin

text \<open>
  \<^verbatim>\<open>packages/isolation/src/firecracker-api.ts\<close>: one HTTP request over the API socket of a Firecracker process, as a machine over the
  events of the socket. \<open>api_chunking\<close> shows that the verdict depends on the bytes the process sent and not on how the
  socket cut them into chunks.
\<close>

section \<open>The request\<close>

datatype api_method = ApiGet | ApiPatch | ApiPut

fun api_method_name :: "api_method \<Rightarrow> string" where
  "api_method_name ApiGet = ''GET''" | "api_method_name ApiPatch = ''PATCH''" | "api_method_name ApiPut = ''PUT''"

definition crlf :: utf16 where "crlf = [13, 10]"

fun decimal_digits :: "nat \<Rightarrow> utf16" where
  "decimal_digits n = (if n < 10 then [js ''0123456789'' ! n] else decimal_digits (n div 10) @ [js ''0123456789'' ! (n mod 10)])"

declare decimal_digits.simps [simp del]

definition api_request :: "api_method \<Rightarrow> utf16 \<Rightarrow> utf16 \<Rightarrow> utf16" where
  "api_request m path payload = js (api_method_name m) @ js '' '' @ path @ js '' HTTP/1.1'' @ crlf @ js ''Host: localhost'' @ crlf
     @ js ''Accept: application/json'' @ crlf @ js ''Content-Type: application/json'' @ crlf
     @ js ''Content-Length: '' @ decimal_digits (byteLength payload) @ crlf @ crlf @ payload"

section \<open>The head of the response (parseResponseHead)\<close>

record response_head =
  ph_contentLength :: "int option"
  ph_headerEnd :: nat
  ph_statusCode :: int

fun find_separator :: "byte list \<Rightarrow> nat option" where
  "find_separator [] = None"
| "find_separator (b # bs) = (if take 4 (b # bs) = [13, 10, 13, 10] then Some 0 else map_option Suc (find_separator bs))"

fun split_crlf :: "utf16 \<Rightarrow> utf16 list" where
  "split_crlf (a # b # us) = (if a = 13 \<and> b = 10 then [] # split_crlf us else (a # hd (split_crlf (b # us))) # tl (split_crlf (b # us)))"
| "split_crlf us = [us]"

definition latin1 :: "byte list \<Rightarrow> utf16" where
  "latin1 bs = map (\<lambda>b. word_of_int (uint b)) bs"

text \<open>\<^verbatim>\<open>/^HTTP\/1\.1\s+(\d{3})\b/u\<close>\<close>

definition status_match :: "utf16 \<Rightarrow> int option" where
  "status_match line = (let rest = dropWhile is_space (after (js ''HTTP/1.1'') line) in
     if starts_with (js ''HTTP/1.1'') line \<and> takeWhile is_space (after (js ''HTTP/1.1'') line) \<noteq> []
       \<and> 3 \<le> length rest \<and> list_all is_digit (take 3 rest)
       \<and> (case drop 3 rest of [] \<Rightarrow> True | u # _ \<Rightarrow> \<not> (is_alnum u \<or> u = hd (js ''_'')))
     then Some (numeral_value 10 (take 3 rest)) else None)"

definition invalid_length :: js_error where
  "invalid_length = Caisson SANDBOX_FAILED ''Firecracker API returned an invalid content length''"

fun content_length :: "int option \<Rightarrow> utf16 list \<Rightarrow> js_error + int option" where
  "content_length acc [] = Inr acc"
| "content_length acc (line # lines) =
     (if colon \<notin> set line then content_length acc lines
      else if map lower_unit (trim (takeWhile (\<lambda>u. u \<noteq> colon) line)) \<noteq> js ''content-length'' then content_length acc lines
      else let v = trim (tl (dropWhile (\<lambda>u. u \<noteq> colon) line)) in
        if v = [] \<or> \<not> list_all is_digit v then Inl invalid_length
        else if 2 ^ 53 - 1 < numeral_value 10 v then Inl invalid_length
        else content_length (Some (numeral_value 10 v)) lines)"

definition parseResponseHead :: "byte list \<Rightarrow> js_error + response_head option" where
  "parseResponseHead response = (case find_separator response of
     None \<Rightarrow> Inr None
   | Some separator \<Rightarrow>
       (let lines = split_crlf (latin1 (take separator response)) in
        case status_match (hd lines) of
          None \<Rightarrow> Inl (Caisson SANDBOX_FAILED ''Firecracker API returned an invalid status line'')
        | Some statusCode \<Rightarrow> (case content_length None (tl lines) of
            Inl e \<Rightarrow> Inl e
          | Inr len \<Rightarrow> Inr (Some \<lparr>ph_contentLength = len, ph_headerEnd = separator + 4, ph_statusCode = statusCode\<rparr>))))"

definition statusNeverHasBody :: "int \<Rightarrow> bool" where
  "statusNeverHasBody c \<longleftrightarrow> 100 \<le> c \<and> c < 200 \<or> c = 204 \<or> c = 304"

section \<open>The exchange (callFirecrackerApi)\<close>

datatype api_event = ApiData "byte list" | ApiError | ApiClose | ApiTimeout

record api_state =
  ap_response :: "byte list"
  ap_head :: "response_head option"
  ap_settled :: "(js_error + int) option"

definition api_init :: api_state where
  "api_init = \<lparr>ap_response = [], ap_head = None, ap_settled = None\<rparr>"

definition settle :: "js_error + int \<Rightarrow> api_state \<Rightarrow> api_state" where
  "settle r a = (if ap_settled a = None then a\<lparr>ap_settled := Some r\<rparr> else a)"

definition complete :: "byte list \<Rightarrow> response_head \<Rightarrow> bool" where
  "complete response h = (case ph_contentLength h of
     None \<Rightarrow> statusNeverHasBody (ph_statusCode h)
   | Some n \<Rightarrow> n \<le> int (length response) - int (ph_headerEnd h))"

definition api_data :: "byte list \<Rightarrow> api_state \<Rightarrow> api_state" where
  "api_data chunk a = (let response = ap_response a @ chunk in
     case (case ap_head a of Some h \<Rightarrow> Inr (Some h) | None \<Rightarrow> parseResponseHead response) of
       Inl _ \<Rightarrow> settle (Inl (Caisson SANDBOX_FAILED ''Firecracker API returned an invalid response'')) (a\<lparr>ap_response := response\<rparr>)
     | Inr None \<Rightarrow> a\<lparr>ap_response := response\<rparr>
     | Inr (Some h) \<Rightarrow> (let a' = a\<lparr>ap_response := response, ap_head := Some h\<rparr> in
         if ph_statusCode h < 200 \<or> 300 \<le> ph_statusCode h
         then settle (Inl (CaissonError SANDBOX_FAILED (js ''Firecracker API request failed with '' @ decimal_digits (nat (ph_statusCode h))) [])) a'
         else if complete response h then settle (Inr (ph_statusCode h)) a' else a'))"

definition api_step :: "api_method \<Rightarrow> utf16 \<Rightarrow> api_state \<Rightarrow> api_event \<Rightarrow> api_state" where
  "api_step m path a ev = (if ap_settled a \<noteq> None then a else case ev of
     ApiData chunk \<Rightarrow> api_data chunk a
   | ApiError \<Rightarrow> settle (Inl (Caisson SANDBOX_FAILED ''Firecracker API is unavailable'')) a
   | ApiClose \<Rightarrow> settle (Inl (Caisson SANDBOX_FAILED ''Firecracker API closed before a full response'')) a
   | ApiTimeout \<Rightarrow> settle (Inl (CaissonError SANDBOX_FAILED
       (js ''Firecracker API request timed out: '' @ js (api_method_name m) @ js '' '' @ path) [])) a)"

definition callFirecrackerApi :: "api_method \<Rightarrow> utf16 \<Rightarrow> api_event list \<Rightarrow> (js_error + int) option" where
  "callFirecrackerApi m path evs = ap_settled (foldl (api_step m path) api_init evs)"

section \<open>Chunks\<close>

lemma find_separator_append: "find_separator p = Some i \<Longrightarrow> find_separator (p @ q) = Some i \<and> i + 4 \<le> length p"
proof (induction p arbitrary: i)
  case (Cons b bs)
  show ?case
  proof (cases "take 4 (b # bs) = [13, 10, 13, 10]")
    case True
    then have "length (take 4 (b # bs)) = 4" by simp
    then have "4 \<le> length (b # bs)" by simp
    then have "take 4 ((b # bs) @ q) = take 4 (b # bs)" by simp
    with True Cons.prems \<open>4 \<le> length (b # bs)\<close> show ?thesis by simp
  next
    case False
    with Cons.prems obtain j where j: "i = Suc j" "find_separator bs = Some j" by auto
    from Cons.IH [OF j(2)] have r: "find_separator (bs @ q) = Some j" "j + 4 \<le> length bs" by blast+
    then have "take 4 (b # bs @ q) = take 4 (b # bs)" by (simp add: take_Cons' )
    with False j r show ?thesis by simp
  qed
qed simp

text \<open>What the bytes received so far decide.\<close>

definition verdict :: "byte list \<Rightarrow> (js_error + int) option" where
  "verdict response = (case parseResponseHead response of
     Inl _ \<Rightarrow> Some (Inl (Caisson SANDBOX_FAILED ''Firecracker API returned an invalid response''))
   | Inr None \<Rightarrow> None
   | Inr (Some h) \<Rightarrow>
       if ph_statusCode h < 200 \<or> 300 \<le> ph_statusCode h
       then Some (Inl (CaissonError SANDBOX_FAILED (js ''Firecracker API request failed with '' @ decimal_digits (nat (ph_statusCode h))) []))
       else if complete response h then Some (Inr (ph_statusCode h)) else None)"

lemma head_stable: "parseResponseHead p \<noteq> Inr None \<Longrightarrow> parseResponseHead (p @ q) = parseResponseHead p"
  using find_separator_append [of p _ q] by (auto simp: parseResponseHead_def Let_def split: option.splits)

lemma verdict_stable: "verdict p = Some r \<Longrightarrow> verdict (p @ q) = Some r"
proof -
  assume v: "verdict p = Some r"
  then have "parseResponseHead p \<noteq> Inr None" by (auto simp: verdict_def)
  from head_stable [OF this, of q] have "parseResponseHead (p @ q) = parseResponseHead p" .
  with v show ?thesis by (auto simp: verdict_def complete_def split: sum.splits option.splits if_splits)
qed

definition received :: "byte list \<Rightarrow> api_state" where
  "received bs = \<lparr>ap_response = bs, ap_head = (case parseResponseHead bs of Inr h \<Rightarrow> h | Inl _ \<Rightarrow> None), ap_settled = verdict bs\<rparr>"

lemma api_data_received:
  assumes "verdict bs = None"
  shows "api_data chunk (received bs) = received (bs @ chunk)"
proof -
  have "(case ap_head (received bs) of Some h \<Rightarrow> Inr (Some h) | None \<Rightarrow> parseResponseHead (bs @ chunk)) = parseResponseHead (bs @ chunk)"
    using assms head_stable [of bs chunk] by (cases "parseResponseHead bs") (auto simp: received_def verdict_def split: option.splits)
  moreover have "ap_head (received bs) = None" if "parseResponseHead (bs @ chunk) = Inl e" for e
    using that assms head_stable [of bs chunk] by (cases "parseResponseHead bs") (auto simp: received_def verdict_def split: option.splits)
  moreover have "ap_head (received bs) = None" if "parseResponseHead (bs @ chunk) = Inr None"
    using that head_stable [of bs chunk] by (cases "parseResponseHead bs = Inr None") (auto simp: received_def)
  ultimately show ?thesis using assms
    by (auto simp: api_data_def received_def verdict_def settle_def Let_def split: sum.splits option.splits if_splits)
qed

lemma api_settled: "ap_settled a \<noteq> None \<Longrightarrow> foldl (api_step m path) a evs = a"
  by (induction evs) (simp_all add: api_step_def)

lemma api_chunks:
  assumes "verdict bs = None"
  shows "ap_settled (foldl (api_step m path) (received bs) (map ApiData cs @ rest)) = ap_settled (foldl (api_step m path) (received (bs @ concat cs)) rest)"
  using assms
proof (induction cs arbitrary: bs)
  case (Cons c cs)
  then have step: "api_step m path (received bs) (ApiData c) = received (bs @ c)"
    using api_data_received [OF Cons.prems, of c] by (simp add: api_step_def received_def [of bs])
  show ?case
  proof (cases "verdict (bs @ c)")
    case None
    with Cons.IH [OF None] step show ?thesis by simp
  next
    case (Some r)
    from verdict_stable [OF Some, of "concat cs"] have later: "verdict (bs @ concat (c # cs)) = Some r" by simp
    have "foldl (api_step m path) (received bs') evs = received bs'" if "verdict bs' = Some r" for bs' evs
      using that by (intro api_settled) (simp add: received_def)
    with Some later step show ?thesis by (simp add: received_def)
  qed
qed simp

text \<open>The verdict of an API call depends on the bytes Firecracker sends, not on how the socket cuts them into chunks, whatever happens
  to the socket afterwards.\<close>

theorem api_chunking:
  "callFirecrackerApi m path (map ApiData chunks @ rest) = callFirecrackerApi m path (ApiData (concat chunks) # rest)"
proof -
  have none: "verdict [] = None" and init: "api_init = received []" by (simp_all add: verdict_def received_def api_init_def parseResponseHead_def)
  have "ap_settled (foldl (api_step m path) (received []) (ApiData (concat chunks) # rest))
      = ap_settled (foldl (api_step m path) (received (concat chunks)) rest)"
    using api_chunks [OF none, of m path "[concat chunks]" rest] by simp
  with api_chunks [OF none, of m path chunks rest] show ?thesis unfolding callFirecrackerApi_def init by simp
qed

end
