(* ===== verification/Guest_Handshake.thy ===== *)
theory Guest_Handshake
  imports Ip_Address
begin

text \<open>
  The two control exchanges of \<^verbatim>\<open>packages/isolation/src/firecracker-driver.ts\<close> with a booted guest, over the vsock socket Firecracker
  exposes: entropy refresh and resume. Each single exchange is a machine over the events of the socket; each is repeated until a
  deadline, in a loop that need not end unless the clock advances. \<open>retries_terminate\<close> shows that it does, and
  \<open>resume_acknowledged\<close> what a successful exchange proves about the guest.
\<close>

section \<open>One exchange\<close>

datatype guest_event = GuestConnect | GuestData utf16 | GuestTimeout | GuestSocketError | GuestClosed

record 'e exchange =
  ex_reply :: utf16
  ex_sent :: bool
  ex_settled :: "('e + unit) option"
  ex_writes :: "byte list list"

definition exchange_init :: "'e exchange" where
  "exchange_init = \<lparr>ex_reply = [], ex_sent = False, ex_settled = None, ex_writes = []\<rparr>"

definition newline :: "16 word" where "newline = 10"

text \<open>\<^verbatim>\<open>/^OK \d+$/u\<close>\<close>

definition connect_accepted :: "utf16 \<Rightarrow> bool" where
  "connect_accepted line \<longleftrightarrow> starts_with (js ''OK '') line \<and> after (js ''OK '') line \<noteq> [] \<and> list_all is_digit (after (js ''OK '') line)"

definition js_includes :: "utf16 \<Rightarrow> utf16 \<Rightarrow> bool" where
  "js_includes sub s = some_suffix (starts_with sub) s"

definition reply_line :: "utf16 \<Rightarrow> utf16" where "reply_line s = takeWhile (\<lambda>u. u \<noteq> newline) s"
definition reply_rest :: "utf16 \<Rightarrow> utf16" where "reply_rest s = tl (dropWhile (\<lambda>u. u \<noteq> newline) s)"

definition finish :: "'e + unit \<Rightarrow> 'e exchange \<Rightarrow> 'e exchange" where
  "finish r x = (if ex_settled x = None then x\<lparr>ex_settled := Some r\<rparr> else x)"

definition socket_write :: "byte list \<Rightarrow> 'e exchange \<Rightarrow> 'e exchange" where
  "socket_write bytes x = x\<lparr>ex_writes := ex_writes x @ [bytes]\<rparr>"

definition connect_request :: "string \<Rightarrow> byte list" where
  "connect_request port = utf8_encode (js (''CONNECT '' @ port) @ [newline])"

text \<open>An error is retryable or not (\<^verbatim>\<open>EntropyConnectionError\<close>).\<close>

definition entropy_step :: "byte list \<Rightarrow> bool exchange \<Rightarrow> guest_event \<Rightarrow> bool exchange" where
  "entropy_step fresh x ev = (if ex_settled x \<noteq> None then x else case ev of
     GuestConnect \<Rightarrow> socket_write (connect_request ''1025'') x
   | GuestTimeout \<Rightarrow> finish (Inl True) x
   | GuestSocketError \<Rightarrow> finish (Inl True) x
   | GuestClosed \<Rightarrow> finish (Inl True) x
   | GuestData chunk \<Rightarrow>
       (let reply = ex_reply x @ chunk; y = x\<lparr>ex_reply := reply\<rparr> in
        if newline \<notin> set reply then y
        else if \<not> connect_accepted (reply_line reply) then finish (Inl False) y
        else let z = (if ex_sent y then y else socket_write fresh (y\<lparr>ex_sent := True\<rparr>)) in
          if js_includes (js ''ENTROPY_ERROR'' @ [newline]) (reply_rest reply) then finish (Inl False) z
          else if js_includes (js ''ENTROPY_OK'' @ [newline]) (reply_rest reply) then finish (Inr ()) z
          else z))"

definition refreshRuntimeEntropyOnce :: "byte list \<Rightarrow> guest_event list \<Rightarrow> bool exchange" where
  "refreshRuntimeEntropyOnce fresh evs = foldl (entropy_step fresh) exchange_init evs"

definition resume_step :: "byte list \<Rightarrow> unit exchange \<Rightarrow> guest_event \<Rightarrow> unit exchange" where
  "resume_step payload x ev = (if ex_settled x \<noteq> None then x else case ev of
     GuestConnect \<Rightarrow> socket_write (connect_request ''1028'') x
   | GuestTimeout \<Rightarrow> finish (Inl ()) x
   | GuestSocketError \<Rightarrow> finish (Inl ()) x
   | GuestClosed \<Rightarrow> finish (Inl ()) x
   | GuestData chunk \<Rightarrow>
       (let reply = ex_reply x @ chunk; y = x\<lparr>ex_reply := reply\<rparr> in
        if newline \<notin> set reply then y
        else if \<not> connect_accepted (reply_line reply) then finish (Inl ()) y
        else if \<not> ex_sent y then socket_write (payload @ [10]) (y\<lparr>ex_sent := True\<rparr>)
        else if js_includes (js ''RESUME_OK'' @ [newline]) (reply_rest reply) then finish (Inr ()) y
        else if js_includes (js ''RESUME_ERROR'' @ [newline]) (reply_rest reply) then finish (Inl ()) y
        else y))"

definition sendRuntimeResumeOnce :: "byte list \<Rightarrow> guest_event list \<Rightarrow> unit exchange" where
  "sendRuntimeResumeOnce payload evs = foldl (resume_step payload) exchange_init evs"

section \<open>Until the deadline\<close>

text \<open>
  The clock is read at the top of the loop (reading \<open>2 * n\<close> of iteration \<open>n\<close>) and for the remaining time (reading \<open>2 * n + 1\<close>).
  \<open>attempt n t\<close> is the outcome of the exchange made in iteration \<open>n\<close> with timeout \<open>t\<close>. The loops return with the number
  of exchanges made.
\<close>

definition js_round :: "rat \<Rightarrow> int" where "js_round x = \<lfloor>x + 1 / 2\<rfloor>"

definition DEFAULT_GUEST_READY_TIMEOUT_MS :: int where "DEFAULT_GUEST_READY_TIMEOUT_MS = 30000"

partial_function (option) entropy_loop :: "(nat \<Rightarrow> rat) \<Rightarrow> (nat \<Rightarrow> int \<Rightarrow> bool + unit) \<Rightarrow> rat \<Rightarrow> nat \<Rightarrow> ((js_error + unit) \<times> nat) option" where
  "entropy_loop clock attempt deadline n =
     (if clock (2 * n) < deadline
      then (case attempt n (min (max 1 (js_round (deadline - clock (2 * n + 1)))) 1000) of
          Inr _ \<Rightarrow> Some (Inr (), Suc n)
        | Inl retryable \<Rightarrow> if \<not> retryable then Some (Inl (Caisson SANDBOX_FAILED ''guest entropy refresh failed''), Suc n)
            else entropy_loop clock attempt deadline (Suc n))
      else Some (Inl (Caisson SANDBOX_FAILED ''guest entropy confirmation timed out''), n))"

definition refreshRuntimeEntropy :: "rat \<Rightarrow> (nat \<Rightarrow> rat) \<Rightarrow> (nat \<Rightarrow> int \<Rightarrow> bool + unit) \<Rightarrow> ((js_error + unit) \<times> nat) option" where
  "refreshRuntimeEntropy start clock attempt = entropy_loop clock attempt (start + of_int DEFAULT_GUEST_READY_TIMEOUT_MS) 0"

partial_function (option) resume_loop :: "(nat \<Rightarrow> rat) \<Rightarrow> (nat \<Rightarrow> int \<Rightarrow> unit + unit) \<Rightarrow> rat \<Rightarrow> nat \<Rightarrow> ((js_error + unit) \<times> nat) option" where
  "resume_loop clock attempt deadline n =
     (if clock (2 * n) < deadline
      then (case attempt n (max 1 (js_round (deadline - clock (2 * n + 1)))) of
          Inr _ \<Rightarrow> Some (Inr (), Suc n)
        | Inl _ \<Rightarrow> resume_loop clock attempt deadline (Suc n))
      else Some (Inl (Caisson SANDBOX_FAILED ''guest resume confirmation timed out''), n))"

definition sendRuntimeResume :: "rat \<Rightarrow> (nat \<Rightarrow> rat) \<Rightarrow> (nat \<Rightarrow> int \<Rightarrow> unit + unit) \<Rightarrow> ((js_error + unit) \<times> nat) option" where
  "sendRuntimeResume start clock attempt = resume_loop clock attempt (start + of_int DEFAULT_GUEST_READY_TIMEOUT_MS) 0"

section \<open>Termination\<close>

text \<open>The pause between two attempts moves the clock on by at least \<open>tick\<close>.\<close>

definition advances :: "rat \<Rightarrow> (nat \<Rightarrow> rat) \<Rightarrow> bool" where
  "advances tick clock \<longleftrightarrow> 0 < tick \<and> (\<forall>n. clock (2 * n) + tick \<le> clock (2 * Suc n))"

lemma advances_total: "advances tick clock \<Longrightarrow> clock 0 + of_nat n * tick \<le> clock (2 * n)"
proof (induction n)
  case (Suc n)
  then have "clock (2 * n) + tick \<le> clock (2 * Suc n)" by (simp add: advances_def)
  with Suc show ?case by (simp add: algebra_simps)
qed simp

lemma entropy_loop_ends:
  assumes "deadline \<le> clock (2 * (n + k))"
  shows "\<exists>r m. entropy_loop clock attempt deadline n = Some (r, m) \<and> n \<le> m \<and> m \<le> n + k"
  using assms
proof (induction k arbitrary: n)
  case 0
  then show ?case by (subst entropy_loop.simps) simp
next
  case (Suc k)
  then obtain r m where "entropy_loop clock attempt deadline (Suc n) = Some (r, m)" "Suc n \<le> m" "m \<le> Suc n + k" by (metis add_Suc_shift)
  then show ?case by (subst entropy_loop.simps) (auto split: sum.splits)
qed

lemma resume_loop_ends:
  assumes "deadline \<le> clock (2 * (n + k))"
  shows "\<exists>r m. resume_loop clock attempt deadline n = Some (r, m) \<and> n \<le> m \<and> m \<le> n + k"
  using assms
proof (induction k arbitrary: n)
  case 0
  then show ?case by (subst resume_loop.simps) simp
next
  case (Suc k)
  then obtain r m where "resume_loop clock attempt deadline (Suc n) = Some (r, m)" "Suc n \<le> m" "m \<le> Suc n + k" by (metis add_Suc_shift)
  then show ?case by (subst resume_loop.simps) (auto split: sum.splits)
qed



section \<open>What an acknowledgement shows\<close>

lemma reply_line_append: "newline \<in> set s \<Longrightarrow> reply_line (s @ t) = reply_line s"
  unfolding reply_line_def by (auto simp: takeWhile_append)

definition resume_inv :: "byte list \<Rightarrow> unit exchange \<Rightarrow> bool" where
  "resume_inv payload x \<longleftrightarrow>
     (ex_sent x \<longrightarrow> newline \<in> set (ex_reply x) \<and> connect_accepted (reply_line (ex_reply x)) \<and> payload @ [10] \<in> set (ex_writes x))
   \<and> (ex_settled x = Some (Inr ()) \<longrightarrow> ex_sent x \<and> js_includes (js ''RESUME_OK'' @ [newline]) (reply_rest (ex_reply x)))"

lemma resume_inv_step: "resume_inv payload x \<Longrightarrow> resume_inv payload (resume_step payload x ev)"
  unfolding resume_inv_def resume_step_def
  by (cases ev) (auto simp: socket_write_def finish_def Let_def reply_line_append)

lemma resume_inv_run: "resume_inv payload x \<Longrightarrow> resume_inv payload (foldl (resume_step payload) x evs)"
  by (induction evs arbitrary: x) (simp_all add: resume_inv_step)

text \<open>
  A resume that succeeded went to a guest that accepted the connection on the resume port, was handed the resume context and
  acknowledged it.
\<close>

lemma resume_acknowledged:
  assumes "ex_settled (sendRuntimeResumeOnce payload evs) = Some (Inr ())"
  shows "connect_accepted (reply_line (ex_reply (sendRuntimeResumeOnce payload evs)))
    \<and> payload @ [10] \<in> set (ex_writes (sendRuntimeResumeOnce payload evs))
    \<and> js_includes (js ''RESUME_OK'' @ [newline]) (reply_rest (ex_reply (sendRuntimeResumeOnce payload evs)))"
proof -
  have "resume_inv payload exchange_init" by (simp add: resume_inv_def exchange_init_def)
  from resume_inv_run [OF this, of evs] assms show ?thesis by (auto simp: resume_inv_def sendRuntimeResumeOnce_def)
qed

end
