(* ===== verification/Binary_Content.thy ===== *)
theory Binary_Content
  imports Secrets
begin

text \<open>
  \<^verbatim>\<open>apps/broker/src/binary-content.ts\<close>: how bytes travel inside JSON, as text or as base64. \<open>content_roundtrip\<close> shows that what the
  adapters encode, a guest's reader of the same format gets back.
\<close>

section \<open>Base64\<close>

definition base64_alphabet :: string where
  "base64_alphabet = ''ABCDEFGHIJKLMNOPQRSTUVWXYZabcdefghijklmnopqrstuvwxyz0123456789+/''"

definition base64_unit :: "int \<Rightarrow> 16 word" where
  "base64_unit n = js base64_alphabet ! nat n"

definition base64_digit :: "16 word \<Rightarrow> bool" where
  "base64_digit u \<longleftrightarrow> u \<in> set (js base64_alphabet)"

fun position :: "'a \<Rightarrow> 'a list \<Rightarrow> nat" where
  "position x [] = 0"
| "position x (y # ys) = (if x = y then 0 else Suc (position x ys))"

definition base64_value :: "16 word \<Rightarrow> int" where
  "base64_value u = int (position u (js base64_alphabet))"

definition pad :: "16 word" where "pad = hd (js ''='')"

text \<open>\<^verbatim>\<open>bytes.toString("base64")\<close>\<close>

fun toBase64 :: "byte list \<Rightarrow> utf16" where
  "toBase64 [] = []"
| "toBase64 [a] = [base64_unit (uint a div 4), base64_unit (uint a mod 4 * 16), pad, pad]"
| "toBase64 [a, b] = [base64_unit (uint a div 4), base64_unit (uint a mod 4 * 16 + uint b div 16), base64_unit (uint b mod 16 * 4), pad]"
| "toBase64 (a # b # c # bs) = [base64_unit (uint a div 4), base64_unit (uint a mod 4 * 16 + uint b div 16),
     base64_unit (uint b mod 16 * 4 + uint c div 64), base64_unit (uint c mod 64)] @ toBase64 bs"

text \<open>\<^verbatim>\<open>Buffer.from(value, "base64")\<close> on text of the accepted shape.\<close>

fun fromBase64 :: "utf16 \<Rightarrow> byte list" where
  "fromBase64 (p # q # r # s # us) = (let a = base64_value p; b = base64_value q; c = base64_value r; d = base64_value s in
     word_of_int (a * 4 + b div 16) # (if r = pad then [] else word_of_int (b mod 16 * 16 + c div 4) #
       (if s = pad then [] else word_of_int (c mod 4 * 64 + d) # fromBase64 us)))"
| "fromBase64 _ = []"

text \<open>\<^verbatim>\<open>/^(?:[A-Za-z0-9+/]{4})*(?:[A-Za-z0-9+/]{2}==|[A-Za-z0-9+/]{3}=)?$/u\<close>\<close>

fun base64_text :: "utf16 \<Rightarrow> bool" where
  "base64_text [] = True"
| "base64_text (p # q # r # s # us) =
     (base64_digit p \<and> base64_digit q \<and> (base64_digit r \<and> base64_digit s \<and> base64_text us
        \<or> us = [] \<and> s = pad \<and> (r = pad \<or> base64_digit r)))"
| "base64_text _ = False"

definition decodeBase64 :: "utf16 \<Rightarrow> js_error + byte list" where
  "decodeBase64 v = (if length v mod 4 \<noteq> 0 \<or> \<not> base64_text v then Inl (Caisson PARAMS_INVALID ''invalid base64 request body'')
     else Inr (fromBase64 v))"

section \<open>Content\<close>

datatype encoding = Utf8 | Base64

record binary_content =
  bc_encoding :: encoding
  bc_data :: utf16

definition BinaryContentSchema :: schema where
  "BinaryContentSchema = strict [req ''encoding'' (ZEnum [''utf8'', ''base64'']), req ''data'' (ZString [])]"

definition content_of :: "json \<Rightarrow> binary_content" where
  "content_of v = \<lparr>bc_encoding = (if text_field v ''encoding'' = js ''utf8'' then Utf8 else Base64), bc_data = text_field v ''data''\<rparr>"

definition decodeContent :: "binary_content \<Rightarrow> int \<Rightarrow> js_error + byte list" where
  "decodeContent input maximumBytes =
     (case (case bc_encoding input of Utf8 \<Rightarrow> Inr (utf8_encode (bc_data input)) | Base64 \<Rightarrow> decodeBase64 (bc_data input)) of
        Inl e \<Rightarrow> Inl e
      | Inr bytes \<Rightarrow> if maximumBytes < int (length bytes) then Inl (Caisson PARAMS_INVALID ''request body exceeds configured size limit'')
          else Inr bytes)"

text \<open>
  The media type is compared with ASCII names only. No character outside ASCII is lowered to a letter of these names by itself,
  so lowering the ASCII letters decides the comparisons.
\<close>

definition ends_with :: "utf16 \<Rightarrow> utf16 \<Rightarrow> bool" where
  "ends_with p s \<longleftrightarrow> length p \<le> length s \<and> drop (length s - length p) s = p"

definition isTextContentType :: "utf16 option \<Rightarrow> bool" where
  "isTextContentType contentType = (case contentType of
     None \<Rightarrow> False
   | Some t \<Rightarrow> (let mediaType = map lower_unit (trim (takeWhile (\<lambda>u. u \<noteq> hd (js '';'')) t)) in
       starts_with (js ''text/'') mediaType
       \<or> mediaType \<in> set (map js [''application/json'', ''application/xml'', ''application/javascript'', ''application/x-javascript''])
       \<or> ends_with (js ''+json'') mediaType \<or> ends_with (js ''+xml'') mediaType))"

definition encodeContent :: "byte list \<Rightarrow> utf16 option \<Rightarrow> binary_content" where
  "encodeContent bytes contentType = (if isTextContentType contentType
     then \<lparr>bc_encoding = Utf8, bc_data = utf8_decode bytes\<rparr> else \<lparr>bc_encoding = Base64, bc_data = toBase64 bytes\<rparr>)"

section \<open>Round trip\<close>

lemma alphabet: "length (js base64_alphabet) = 64" "distinct (js base64_alphabet)" "pad \<notin> set (js base64_alphabet)"
  by code_simp+

lemma position_nth: "distinct xs \<Longrightarrow> n < length xs \<Longrightarrow> position (xs ! n) xs = n"
proof (induction xs arbitrary: n)
  case (Cons x xs)
  then show ?case by (cases n) auto
qed simp

lemma base64_unit_value: "0 \<le> n \<Longrightarrow> n < 64 \<Longrightarrow> base64_value (base64_unit n) = n"
  using alphabet position_nth [of "js base64_alphabet" "nat n"] by (simp add: base64_value_def base64_unit_def)

lemma base64_unit_digit: "0 \<le> n \<Longrightarrow> n < 64 \<Longrightarrow> base64_digit (base64_unit n) \<and> base64_unit n \<noteq> pad"
proof -
  assume "0 \<le> n" "n < 64"
  then have "js base64_alphabet ! nat n \<in> set (js base64_alphabet)" by (simp add: alphabet(1))
  with alphabet(3) show ?thesis by (auto simp: base64_digit_def base64_unit_def)
qed

lemma byte_range: "0 \<le> uint (a :: byte) \<and> uint a < 256"
  using uint_range_size [of a] by (simp add: word_size)

text \<open>Splitting three bytes into four groups of six bits and joining them again.\<close>

lemma split_join:
  fixes q r m :: int
  assumes "0 \<le> r" "r < m"
  shows "(q * m + r) div m = q" "(q * m + r) mod m = r"
  using assms by (simp_all add: div_add1_eq mod_add_eq [symmetric] add.commute)

lemma sextet_ints:
  fixes x y z :: int
  assumes "0 \<le> x" "x < 256" "0 \<le> y" "y < 256" "0 \<le> z" "z < 256"
  shows "x div 4 * 4 + (x mod 4 * 16 + y div 16) div 16 = x" "x div 4 * 4 + x mod 4 * 16 div 16 = x"
    "(x mod 4 * 16 + y div 16) mod 16 * 16 + (y mod 16 * 4 + z div 64) div 4 = y"
    "(x mod 4 * 16 + y div 16) mod 16 * 16 + y mod 16 * 4 div 4 = y"
    "(y mod 16 * 4 + z div 64) mod 4 * 64 + z mod 64 = z"
proof -
  have y: "0 \<le> y div 16" "y div 16 < 16" and z: "0 \<le> z div 64" "z div 64 < 4" using assms by simp_all
  have cancel: "q * 16 div 16 = q" "q * 4 div 4 = q" for q :: int by simp_all
  show "x div 4 * 4 + (x mod 4 * 16 + y div 16) div 16 = x" "x div 4 * 4 + x mod 4 * 16 div 16 = x"
    "(x mod 4 * 16 + y div 16) mod 16 * 16 + (y mod 16 * 4 + z div 64) div 4 = y"
    "(x mod 4 * 16 + y div 16) mod 16 * 16 + y mod 16 * 4 div 4 = y"
    "(y mod 16 * 4 + z div 64) mod 4 * 64 + z mod 64 = z"
    by (simp_all only: split_join [OF y] split_join [OF z] cancel div_mult_mod_eq)
qed

lemma sextet_bounds:
  fixes x y z :: int
  assumes "0 \<le> x" "x < 256" "0 \<le> y" "y < 256" "0 \<le> z" "z < 256"
  shows "0 \<le> x div 4" "x div 4 < 64" "0 \<le> x mod 4 * 16 + y div 16" "x mod 4 * 16 + y div 16 < 64"
    "0 \<le> x mod 4 * 16" "x mod 4 * 16 < 64" "0 \<le> y mod 16 * 4" "y mod 16 * 4 < 64"
    "0 \<le> y mod 16 * 4 + z div 64" "y mod 16 * 4 + z div 64 < 64" "0 \<le> z mod 64" "z mod 64 < 64"
proof -
  have "0 \<le> x mod 4" "x mod 4 < 4" "0 \<le> y mod 16" "y mod 16 < 16" "0 \<le> y div 16" "y div 16 < 16" "0 \<le> z div 64" "z div 64 < 4"
    "0 \<le> x div 4" "x div 4 < 64" using assms by simp_all
  then show "0 \<le> x div 4" "x div 4 < 64" "0 \<le> x mod 4 * 16 + y div 16" "x mod 4 * 16 + y div 16 < 64"
    "0 \<le> x mod 4 * 16" "x mod 4 * 16 < 64" "0 \<le> y mod 16 * 4" "y mod 16 * 4 < 64"
    "0 \<le> y mod 16 * 4 + z div 64" "y mod 16 * 4 + z div 64 < 64" "0 \<le> z mod 64" "z mod 64 < 64" by simp_all
qed

lemma fromBase64_block:
  assumes "0 \<le> a \<and> a < 64" "0 \<le> b \<and> b < 64"
  shows "fromBase64 [base64_unit a, base64_unit b, pad, pad] = [word_of_int (a * 4 + b div 16)]"
    and "0 \<le> c \<and> c < 64 \<Longrightarrow> fromBase64 [base64_unit a, base64_unit b, base64_unit c, pad]
      = [word_of_int (a * 4 + b div 16), word_of_int (b mod 16 * 16 + c div 4)]"
    and "0 \<le> c \<and> c < 64 \<Longrightarrow> 0 \<le> d \<and> d < 64 \<Longrightarrow> fromBase64 (base64_unit a # base64_unit b # base64_unit c # base64_unit d # us)
      = word_of_int (a * 4 + b div 16) # word_of_int (b mod 16 * 16 + c div 4) # word_of_int (c mod 4 * 64 + d) # fromBase64 us"
proof -
  have digit: "base64_value (base64_unit n) = n" "(base64_unit n = pad) = False" if "0 \<le> n \<and> n < 64" for n
    using that base64_unit_value base64_unit_digit by simp_all
  note unfolded = fromBase64.simps(1) Let_def digit assms if_True if_False simp_thms(6)
  show "fromBase64 [base64_unit a, base64_unit b, pad, pad] = [word_of_int (a * 4 + b div 16)]"
    by (simp only: unfolded)
  assume c: "0 \<le> c \<and> c < 64"
  show "fromBase64 [base64_unit a, base64_unit b, base64_unit c, pad] = [word_of_int (a * 4 + b div 16), word_of_int (b mod 16 * 16 + c div 4)]"
    by (simp only: unfolded c)
  assume d: "0 \<le> d \<and> d < 64"
  show "fromBase64 (base64_unit a # base64_unit b # base64_unit c # base64_unit d # us)
      = word_of_int (a * 4 + b div 16) # word_of_int (b mod 16 * 16 + c div 4) # word_of_int (c mod 4 * 64 + d) # fromBase64 us"
    by (simp only: unfolded c d)
qed

lemma sextets:
  fixes a b c :: byte
  shows "0 \<le> uint a div 4 \<and> uint a div 4 < 64" "0 \<le> uint a mod 4 * 16 + uint b div 16 \<and> uint a mod 4 * 16 + uint b div 16 < 64"
    "0 \<le> uint a mod 4 * 16 \<and> uint a mod 4 * 16 < 64" "0 \<le> uint b mod 16 * 4 \<and> uint b mod 16 * 4 < 64"
    "0 \<le> uint b mod 16 * 4 + uint c div 64 \<and> uint b mod 16 * 4 + uint c div 64 < 64" "0 \<le> uint c mod 64 \<and> uint c mod 64 < 64"
  using sextet_bounds [OF conjunct1 [OF byte_range [of a]] conjunct2 [OF byte_range [of a]] conjunct1 [OF byte_range [of b]]
      conjunct2 [OF byte_range [of b]] conjunct1 [OF byte_range [of c]] conjunct2 [OF byte_range [of c]]]
  by (simp_all only: simp_thms)

lemma rejoined:
  fixes a b c :: byte
  shows "word_of_int (uint a div 4 * 4 + (uint a mod 4 * 16 + uint b div 16) div 16) = a"
    "word_of_int (uint a div 4 * 4 + uint a mod 4 * 16 div 16) = a"
    "word_of_int ((uint a mod 4 * 16 + uint b div 16) mod 16 * 16 + (uint b mod 16 * 4 + uint c div 64) div 4) = b"
    "word_of_int ((uint a mod 4 * 16 + uint b div 16) mod 16 * 16 + uint b mod 16 * 4 div 4) = b"
    "word_of_int ((uint b mod 16 * 4 + uint c div 64) mod 4 * 64 + uint c mod 64) = c"
  using sextet_ints [OF conjunct1 [OF byte_range [of a]] conjunct2 [OF byte_range [of a]] conjunct1 [OF byte_range [of b]]
      conjunct2 [OF byte_range [of b]] conjunct1 [OF byte_range [of c]] conjunct2 [OF byte_range [of c]]]
  by (simp_all only: word_of_int_uint)

lemma fromBase64_toBase64: "fromBase64 (toBase64 bs) = bs"
  by (induction bs rule: toBase64.induct)
    (simp_all only: toBase64.simps append.simps fromBase64.simps(2) fromBase64_block [OF sextets(1)] sextets rejoined)

lemma base64_text_toBase64: "base64_text (toBase64 bs) \<and> length (toBase64 bs) mod 4 = 0"
  by (induction bs rule: toBase64.induct)
    (simp_all only: toBase64.simps append.simps base64_text.simps base64_unit_digit sextets HOL.simp_thms list.size, simp_all)

lemma decodeBase64_toBase64: "decodeBase64 (toBase64 bs) = Inr bs"
  using base64_text_toBase64 [of bs] by (simp add: decodeBase64_def fromBase64_toBase64)

text \<open>Content survives its transport format: whatever bytes an adapter returns, decoding what it encoded gives the bytes
  back whenever they are within the size limit, always for base64, and for a text media type when the bytes are the UTF-8 of
  some well-formed text.\<close>

theorem content_roundtrip:
  assumes "int (length bytes) \<le> maximumBytes"
    and "isTextContentType contentType \<Longrightarrow> \<exists>s. well_formed s \<and> bytes = utf8_encode s"
  shows "decodeContent (encodeContent bytes contentType) maximumBytes = Inr bytes"
proof (cases "isTextContentType contentType")
  case True
  with assms(2) obtain s where "well_formed s" "bytes = utf8_encode s" by blast
  with True assms(1) show ?thesis by (simp add: decodeContent_def encodeContent_def utf8_roundtrip)
next
  case False
  with assms(1) show ?thesis by (simp add: decodeContent_def encodeContent_def decodeBase64_toBase64)
qed

text \<open>Two bytes of an image, and a JSON text.\<close>

theorem content_roundtrip_witness:
  "encodeContent [255, 216] (Some (js ''image/jpeg'')) = \<lparr>bc_encoding = Base64, bc_data = js ''/9g=''\<rparr>
   \<and> decodeContent (encodeContent [255, 216] (Some (js ''image/jpeg''))) 2 = Inr [255, 216]
   \<and> bc_encoding (encodeContent (utf8_encode (js ''{}'')) (Some (js ''Application/JSON; charset=utf-8''))) = Utf8
   \<and> decodeContent (encodeContent (utf8_encode (js ''{}'')) (Some (js ''Application/JSON; charset=utf-8''))) 2 = Inr (utf8_encode (js ''{}''))"
proof -
  have image: "\<not> isTextContentType (Some (js ''image/jpeg''))" by code_simp
  have bytes: "encodeContent [255, 216] (Some (js ''image/jpeg'')) = \<lparr>bc_encoding = Base64, bc_data = js ''/9g=''\<rparr>" by code_simp
  have json: "bc_encoding (encodeContent (utf8_encode (js ''{}'')) (Some (js ''Application/JSON; charset=utf-8''))) = Utf8" by code_simp
  have wf: "well_formed (js ''{}'')" and len: "int (length (utf8_encode (js ''{}''))) \<le> 2" by code_simp+
  have "decodeContent (encodeContent [255, 216] (Some (js ''image/jpeg''))) 2 = Inr [255, 216]"
    using image by (intro content_roundtrip) simp_all
  moreover have "decodeContent (encodeContent (utf8_encode (js ''{}'')) (Some (js ''Application/JSON; charset=utf-8''))) 2
      = Inr (utf8_encode (js ''{}''))"
    using wf len by (intro content_roundtrip) blast+
  ultimately show ?thesis using bytes json by (simp only: simp_thms)
qed

end
