(* ===== verification/Firecracker_Driver.thy ===== *)
theory Firecracker_Driver
  imports Session_Snapshots Firecracker_Api Guest_Handshake Binary_Content
begin

text \<open>
  \<^verbatim>\<open>packages/isolation/src/firecracker-driver.ts\<close> and \<^verbatim>\<open>firecracker-drive-config.ts\<close>: the driver that runs each session in a
  Firecracker microVM. The state is the host's: the pool of guest context identifiers (CIDs), the driver's records, the
  processes spawned, the transports reserved and the API requests sent to each process. What the file system, the transport host, the
  processes and the guest answer comes from the oracles of \<open>fc_env\<close>, by the number of the call. Every awaited call is followed by
  \<open>fe_others\<close>, which stands for the other operations of the driver that run meanwhile. \<open>cid_exclusive\<close> shows that no two sessions
  ever hold the same CID, whatever fails and however operations interleave.
\<close>

section \<open>State\<close>

record cid_pool =
  cp_next :: int
  cp_released :: "int list"
  cp_allocated :: "(string \<times> int) list"

record fc_record =
  fr_apiSocketPath :: string
  fr_logPath :: string
  fr_process :: nat
  fr_runtimePath :: string
  fr_vsockPath :: string
  fr_guestCid :: int
  fr_transport :: peer
  fr_restored :: bool

text \<open>A request that the driver sent to the API socket of a process.\<close>

record api_call =
  al_process :: nat
  al_method :: api_method
  al_path :: string
  al_body :: json

record fc_host =
  fh_pool :: cid_pool
  fh_records :: "(string \<times> fc_record) list"
  fh_spawned :: nat
  fh_killed :: "nat list"
  fh_sent :: "api_call list"
  fh_calls :: nat

record fc_options =
  fo_firecrackerPath :: string
  fo_kernelImagePath :: string
  fo_rootfsPath :: string
  fo_runtimeDirectory :: string
  fo_snapshotDirectory :: string
  fo_guestCidStart :: int
  fo_hostId :: string
  fo_vcpuCount :: int
  fo_memoryMiB :: int
  fo_maxConcurrent :: int
  fo_bootArgs :: utf16
  fo_infrastructureProbe :: bool
  fo_oneShotBrokerRequest :: "json option"

record exec_request =
  xr_argv :: "string list"
  xr_cwd :: "string option"
  xr_timeoutMs :: "int option"

record exec_result =
  xs_exitCode :: int
  xs_stdout :: utf16
  xs_stderr :: utf16
  xs_durationMs :: int

text \<open>What one look at a starting process finds.\<close>

datatype socket_view = SpawnFailed | Exited | SocketReady | NotYet

record fc_env =
  fe_options :: fc_options
  fe_production :: bool
  fe_manualDiagnostics :: bool
  fe_linux :: bool
  fe_accessible :: "string \<Rightarrow> nat \<Rightarrow> bool"
  fe_reserve :: "peer \<Rightarrow> nat \<Rightarrow> js_error + peer \<times> string"
  fe_release :: "peer \<Rightarrow> nat \<Rightarrow> js_error + unit"
  fe_file :: "string \<Rightarrow> nat \<Rightarrow> js_error + unit"
  fe_socket :: "nat \<Rightarrow> socket_view"
  fe_api :: "nat \<Rightarrow> api_event list"
  fe_entropy :: "string \<Rightarrow> nat \<Rightarrow> js_error + unit"
  fe_resume :: "string \<Rightarrow> resume_context \<Rightarrow> nat \<Rightarrow> js_error + unit"
  fe_ready :: "string \<Rightarrow> nat \<Rightarrow> js_error + unit"
  fe_execute :: "string \<Rightarrow> exec_request \<Rightarrow> nat \<Rightarrow> js_error + exec_result"
  fe_uuid :: "nat \<Rightarrow> string"
  fe_now :: "nat \<Rightarrow> int"
  fe_others :: "nat \<Rightarrow> fc_host \<Rightarrow> fc_host"

text \<open>An awaited call: its answer, and then whatever the other operations did meanwhile.\<close>

definition await_call :: "fc_env \<Rightarrow> (nat \<Rightarrow> js_error + 'a) \<Rightarrow> (fc_host, 'a) proc" where
  "await_call env answer h = (answer (fh_calls h), fe_others env (fh_calls h) (h\<lparr>fh_calls := Suc (fh_calls h)\<rparr>))"

section \<open>Drives (firecracker-drive-config.ts)\<close>

definition M1_DEV_PROBE_ROOTFS :: string where "M1_DEV_PROBE_ROOTFS = ''m1-dev-probe-rootfs.ext4''"
definition DIAGNOSTIC_RUNTIME_ROOTFS :: string where "DIAGNOSTIC_RUNTIME_ROOTFS = ''caisson-runtime-diagnostic-rootfs.ext4''"
definition AGENT_RUNTIME_DIAGNOSTIC_ROOTFS :: string where "AGENT_RUNTIME_DIAGNOSTIC_ROOTFS = ''caisson-agent-runtime-diagnostic-rootfs.ext4''"

definition basename :: "string \<Rightarrow> string" where
  "basename path = after_last (CHR ''/'') (rev (dropWhile (\<lambda>c. c = CHR ''/'') (rev path)))"

definition text_json :: "string \<Rightarrow> json" where "text_json s = JStr (js s)"

definition firecrackerRootfsDriveConfig :: "string \<Rightarrow> json" where
  "firecrackerRootfsDriveConfig rootfsPath = JObj [(js ''drive_id'', text_json ''rootfs''), (js ''path_on_host'', text_json rootfsPath),
     (js ''is_root_device'', JBool True), (js ''is_read_only'', JBool (basename rootfsPath \<noteq> M1_DEV_PROBE_ROOTFS))]"

definition isM1DevelopmentProbeRootfs :: "string \<Rightarrow> bool" where
  "isM1DevelopmentProbeRootfs rootfsPath \<longleftrightarrow> basename rootfsPath = M1_DEV_PROBE_ROOTFS"

definition isIneligibleBaseRootfs :: "string \<Rightarrow> bool" where
  "isIneligibleBaseRootfs rootfsPath \<longleftrightarrow>
     basename rootfsPath \<in> {M1_DEV_PROBE_ROOTFS, DIAGNOSTIC_RUNTIME_ROOTFS, AGENT_RUNTIME_DIAGNOSTIC_ROOTFS}"

section \<open>Boot parameters\<close>

definition MAX_RUNTIME_BOOT_REQUEST_BYTES :: nat where "MAX_RUNTIME_BOOT_REQUEST_BYTES = 2048"

text \<open>\<^verbatim>\<open>toString("base64url")\<close>: the last two digits differ, and there is no padding.\<close>

definition base64url :: "byte list \<Rightarrow> utf16" where
  "base64url bytes = map (\<lambda>u. if u = hd (js ''+'') then hd (js ''-'') else if u = hd (js ''/'') then hd (js ''_'') else u)
     (filter (\<lambda>u. u \<noteq> pad) (toBase64 bytes))"

text \<open>\<open>stringify\<close> is \<^verbatim>\<open>JSON.stringify\<close>.\<close>

definition withOneShotBrokerRequest :: "(schema \<Rightarrow> json \<Rightarrow> json option) \<Rightarrow> (json \<Rightarrow> utf16) \<Rightarrow> utf16 \<Rightarrow> json option \<Rightarrow> js_error + utf16" where
  "withOneShotBrokerRequest parse stringify bootArgs request = (case request of
     None \<Rightarrow> Inr bootArgs
   | Some v \<Rightarrow> (case parse BrokerCallRequestSchema v of
       None \<Rightarrow> Inl (Caisson PARAMS_INVALID ''runtime broker request is invalid'')
     | Some data \<Rightarrow> (let encoded = base64url (utf8_encode (stringify data)) in
         if MAX_RUNTIME_BOOT_REQUEST_BYTES < byteLength encoded
         then Inl (Caisson PARAMS_INVALID ''runtime broker request exceeds boot parameter limit'')
         else Inr (bootArgs @ js '' caisson.broker_request_b64='' @ encoded))))"

section \<open>The pool of CIDs\<close>

text \<open>\<^verbatim>\<open>getGuestCidPool\<close>: the pools of the host process, by host id.\<close>

definition getGuestCidPool :: "string \<Rightarrow> int \<Rightarrow> (string \<times> cid_pool) list \<Rightarrow> cid_pool \<times> (string \<times> cid_pool) list" where
  "getGuestCidPool hostId guestCidStart pools = (case map_of pools hostId of
     Some p \<Rightarrow> (p, pools)
   | None \<Rightarrow> (let p = \<lparr>cp_next = guestCidStart, cp_released = [], cp_allocated = []\<rparr> in (p, pools @ [(hostId, p)])))"

definition allocateGuestCid :: "string \<Rightarrow> (fc_host, int) proc" where
  "allocateGuestCid sessionId h = (let p = fh_pool h;
       (guestCid, p') = (case sort (cp_released p) of
           [] \<Rightarrow> (cp_next p, p\<lparr>cp_next := cp_next p + 1\<rparr>)
         | reusable # _ \<Rightarrow> (reusable, p\<lparr>cp_released := removeAll reusable (cp_released p)\<rparr>)) in
     if map_of (cp_allocated p') sessionId \<noteq> None
     then (Inl (Caisson SANDBOX_FAILED ''Firecracker session already has a guest CID''), h\<lparr>fh_pool := p'\<rparr>)
     else if guestCid \<in> snd ` set (cp_allocated p')
     then (Inl (Caisson SANDBOX_FAILED ''Firecracker guest CID allocation collision''), h\<lparr>fh_pool := p'\<rparr>)
     else (Inr guestCid, h\<lparr>fh_pool := p'\<lparr>cp_allocated := cp_allocated p' @ [(sessionId, guestCid)]\<rparr>\<rparr>))"

definition releaseGuestCid :: "string \<Rightarrow> (fc_host, unit) proc" where
  "releaseGuestCid sessionId = modify (\<lambda>h. let p = fh_pool h in
     case map_of (cp_allocated p) sessionId of
       None \<Rightarrow> h
     | Some guestCid \<Rightarrow> h\<lparr>fh_pool := p\<lparr>cp_allocated := filter (\<lambda>e. fst e \<noteq> sessionId) (cp_allocated p),
         cp_released := List.insert guestCid (cp_released p)\<rparr>\<rparr>)"

section \<open>Records\<close>

definition getRecord :: "sandbox_handle \<Rightarrow> (fc_host, fc_record) proc" where
  "getRecord handle =
     (if hd_driver handle \<noteq> Firecracker then throw (Caisson SANDBOX_FAILED ''Firecracker driver received a foreign sandbox handle'')
      else bnd (gets fh_records) (\<lambda>rs. case map_of rs (hd_id handle) of
          None \<Rightarrow> throw (Caisson SESSION_NOT_FOUND ''sandbox handle is no longer active'')
        | Some r \<Rightarrow> ret r))"

definition set_record :: "string \<Rightarrow> fc_record \<Rightarrow> (fc_host, unit) proc" where
  "set_record sid r = modify (\<lambda>h. h\<lparr>fh_records := filter (\<lambda>e. fst e \<noteq> sid) (fh_records h) @ [(sid, r)]\<rparr>)"

definition delete_record :: "string \<Rightarrow> (fc_host, unit) proc" where
  "delete_record sid = modify (\<lambda>h. h\<lparr>fh_records := filter (\<lambda>e. fst e \<noteq> sid) (fh_records h)\<rparr>)"

section \<open>Processes\<close>

definition safePathSegment :: "string \<Rightarrow> string" where
  "safePathSegment v = take 48 (filter (\<lambda>c. path_char c \<or> c = CHR ''.'') v)"

definition join_path :: "string \<Rightarrow> string \<Rightarrow> string" where "join_path a b = a @ ''/'' @ b"

definition spawn_process :: "(fc_host, nat) proc" where
  "spawn_process h = (Inr (fh_spawned h), h\<lparr>fh_spawned := Suc (fh_spawned h)\<rparr>)"

text \<open>\<open>wait_attempts n\<close>: the loop of \<^verbatim>\<open>#waitForApiSocket\<close> with \<open>n\<close> attempts left.\<close>

fun wait_attempts :: "fc_env \<Rightarrow> nat \<Rightarrow> (fc_host, unit) proc" where
  "wait_attempts env 0 = throw (Caisson SANDBOX_FAILED ''Firecracker did not open its API socket'')"
| "wait_attempts env (Suc n) = bnd (await_call env (\<lambda>k. Inr (fe_socket env k))) (\<lambda>view. case view of
     SpawnFailed \<Rightarrow> throw (Caisson SANDBOX_FAILED ''Firecracker process could not start'')
   | Exited \<Rightarrow> throw (Caisson SANDBOX_FAILED ''Firecracker exited before opening its API socket'')
   | SocketReady \<Rightarrow> ret ()
   | NotYet \<Rightarrow> wait_attempts env n)"

definition waitForApiSocket :: "fc_env \<Rightarrow> (fc_host, unit) proc" where
  "waitForApiSocket env = wait_attempts env 100"

definition startProcess :: "fc_env \<Rightarrow> string \<Rightarrow> int \<Rightarrow> peer \<Rightarrow> string \<Rightarrow> (fc_host, fc_record) proc" where
  "startProcess env sessionId guestCid transport vsockPath =
     (let runtimePath = join_path (fo_runtimeDirectory (fe_options env)) (safePathSegment sessionId);
          apiSocketPath = join_path runtimePath ''firecracker.sock'';
          logPath = join_path runtimePath ''firecracker.log'' in
      seq (await_call env (fe_file env runtimePath))
      (seq (await_call env (fe_file env logPath))
      (bnd (try_finally spawn_process (await_call env (fe_file env logPath))) (\<lambda>process.
       seq (waitForApiSocket env)
         (ret \<lparr>fr_apiSocketPath = apiSocketPath, fr_logPath = logPath, fr_process = process, fr_runtimePath = runtimePath,
            fr_vsockPath = vsockPath, fr_guestCid = guestCid, fr_transport = transport, fr_restored = False\<rparr>)))))"

definition kill_process :: "nat \<Rightarrow> (fc_host, unit) proc" where
  "kill_process p = modify (\<lambda>h. if p \<in> set (fh_killed h) then h else h\<lparr>fh_killed := fh_killed h @ [p]\<rparr>)"

definition stopProcess :: "fc_env \<Rightarrow> fc_record \<Rightarrow> bool \<Rightarrow> (fc_host, unit) proc" where
  "stopProcess env r preserveRuntime = seq (kill_process (fr_process r))
     (if preserveRuntime then ret () else await_call env (fe_file env (fr_runtimePath r)))"

text \<open>A call whose process never answers ends with the timeout.\<close>

definition callApi :: "fc_env \<Rightarrow> fc_record \<Rightarrow> api_method \<Rightarrow> string \<Rightarrow> json \<Rightarrow> (fc_host, unit) proc" where
  "callApi env r m path body =
     seq (modify (\<lambda>h. h\<lparr>fh_sent := fh_sent h @ [\<lparr>al_process = fr_process r, al_method = m, al_path = path, al_body = body\<rparr>]\<rparr>))
       (await_call env (\<lambda>n. case callFirecrackerApi m (js path) (fe_api env n @ [ApiTimeout]) of
          Some (Inl e) \<Rightarrow> Inl e | _ \<Rightarrow> Inr ()))"

section \<open>Operations\<close>

definition assertHostRequirements :: "fc_env \<Rightarrow> (fc_host, unit) proc" where
  "assertHostRequirements env =
     (if \<not> fe_linux env then throw (Caisson SANDBOX_FAILED ''Firecracker requires a Linux host'')
      else await_call env (\<lambda>n. if list_all (\<lambda>path. fe_accessible env path n) [''/dev/kvm'', ''/dev/vhost-vsock'', fo_firecrackerPath (fe_options env),
          fo_kernelImagePath (fe_options env), fo_rootfsPath (fe_options env)]
        then Inr () else Inl (Caisson SANDBOX_FAILED ''Firecracker host requirements are unavailable'')))"

definition assertProductionRootfs :: "fc_env \<Rightarrow> (fc_host, unit) proc" where
  "assertProductionRootfs env =
     (if fe_production env \<and> isIneligibleBaseRootfs (fo_rootfsPath (fe_options env))
      then throw (Caisson SANDBOX_FAILED ''production refuses an ineligible development or diagnostic rootfs'') else ret ())"

definition destroy :: "fc_env \<Rightarrow> sandbox_handle \<Rightarrow> (fc_host, unit) proc" where
  "destroy env handle = bnd (getRecord handle) (\<lambda>record.
     seq (delete_record (hd_id handle)) (seq (stopProcess env record (fe_manualDiagnostics env)) (releaseGuestCid (hd_id handle))))"

text \<open>\<^verbatim>\<open>String(guestCid)\<close>\<close>

fun nat_text :: "nat \<Rightarrow> string" where
  "nat_text n = (if n < 10 then [''0123456789'' ! n] else nat_text (n div 10) @ [''0123456789'' ! (n mod 10)])"

declare nat_text.simps [simp del]

definition int_text :: "int \<Rightarrow> string" where
  "int_text n = (if n < 0 then CHR ''-'' # nat_text (nat (- n)) else nat_text (nat n))"

definition vsock_transport :: "fc_env \<Rightarrow> int \<Rightarrow> peer" where
  "vsock_transport env guestCid = \<lparr>pr_hostId = fo_hostId (fe_options env), pr_transportKind = Vsock, pr_peerIdentifier = int_text guestCid\<rparr>"

definition integer :: "int \<Rightarrow> json" where "integer n = JNum (of_int n)"

text \<open>
  The part \<^verbatim>\<open>prepare\<close> and \<^verbatim>\<open>restore\<close> share: reserve the transport of an allocated CID, then start and configure the process, and
  undo on failure. \<open>restored\<close> and \<open>configure\<close> are where the two differ. The record is known to the error handler only once
  \<^verbatim>\<open>#startProcess\<close> has returned.
\<close>

definition reserve_transport :: "fc_env \<Rightarrow> string \<Rightarrow> peer \<Rightarrow> (fc_host, string) proc" where
  "reserve_transport env sid transport =
     bnd (try_catch (await_call env (fe_reserve env transport)) (\<lambda>e. seq (releaseGuestCid sid) (throw e))) (\<lambda>(descriptor, endpointPath).
       if descriptor \<noteq> transport then throw (Caisson SANDBOX_FAILED ''Firecracker transport attachment is invalid'') else ret endpointPath)"

definition boot :: "fc_env \<Rightarrow> string \<Rightarrow> int \<Rightarrow> bool \<Rightarrow> (fc_record \<Rightarrow> (fc_host, unit) proc) \<Rightarrow> (fc_host, prepared_sandbox) proc" where
  "boot env sid guestCid restored configure =
     (let transport = vsock_transport env guestCid; handle = \<lparr>hd_id = sid, hd_driver = Firecracker\<rparr> in
      bnd (reserve_transport env sid transport) (\<lambda>endpointPath.
      bnd (try_catch (startProcess env sid guestCid transport endpointPath)
          (\<lambda>e. seq (releaseGuestCid sid) (seq (await_call env (fe_release env transport)) (throw e)))) (\<lambda>started.
      let record = started\<lparr>fr_restored := restored\<rparr> in
      try_catch (seq (configure record) (seq (set_record sid record) (ret \<lparr>pp_handle = handle, pp_transport = transport\<rparr>)))
        (\<lambda>e. seq (set_record sid record) (seq (destroy env handle) (seq (await_call env (fe_release env transport)) (throw e)))))))"

definition configure_vm :: "fc_env \<Rightarrow> utf16 \<Rightarrow> int \<Rightarrow> fc_record \<Rightarrow> (fc_host, unit) proc" where
  "configure_vm env bootArgs guestCid r =
     seq (callApi env r ApiPut ''/machine-config'' (JObj [(js ''vcpu_count'', integer (fo_vcpuCount (fe_options env))),
       (js ''mem_size_mib'', integer (fo_memoryMiB (fe_options env))), (js ''smt'', JBool False)]))
     (seq (callApi env r ApiPut ''/boot-source'' (JObj [(js ''kernel_image_path'', text_json (fo_kernelImagePath (fe_options env))),
       (js ''boot_args'', JStr bootArgs)]))
     (seq (callApi env r ApiPut ''/drives/rootfs'' (firecrackerRootfsDriveConfig (fo_rootfsPath (fe_options env))))
     (callApi env r ApiPut ''/vsock'' (JObj [(js ''guest_cid'', integer guestCid), (js ''uds_path'', text_json (fr_vsockPath r))]))))"

definition prepare :: "fc_env \<Rightarrow> utf16 \<Rightarrow> sandbox_spec \<Rightarrow> (fc_host, prepared_sandbox) proc" where
  "prepare env bootArgs spec =
     seq (assertProductionRootfs env) (seq (assertHostRequirements env)
     (bnd (gets (\<lambda>h. int (length (fh_records h)))) (\<lambda>n.
      if fo_maxConcurrent (fe_options env) \<le> n then throw (Caisson SANDBOX_FAILED ''Firecracker driver concurrency limit reached'')
      else bnd (allocateGuestCid (sp_id spec)) (\<lambda>guestCid. boot env (sp_id spec) guestCid False (configure_vm env bootArgs guestCid)))))"

definition load_snapshot :: "fc_env \<Rightarrow> resolved_snapshot \<Rightarrow> fc_record \<Rightarrow> (fc_host, unit) proc" where
  "load_snapshot env ref r = callApi env r ApiPut ''/snapshot/load'' (JObj [(js ''snapshot_path'', text_json (rs_statePath ref)),
     (js ''mem_file_path'', text_json (rs_memoryPath ref)), (js ''resume_vm'', JBool False),
     (js ''vsock_override'', JObj [(js ''uds_path'', text_json (fr_vsockPath r))])])"

definition restore :: "fc_env \<Rightarrow> resolved_snapshot \<Rightarrow> sandbox_spec \<Rightarrow> (fc_host, prepared_sandbox) proc" where
  "restore env ref spec =
     seq (assertProductionRootfs env)
     (if rs_rootfsPath ref \<noteq> None \<and> rs_rootfsPath ref \<noteq> Some (fo_rootfsPath (fe_options env))
      then throw (Caisson SANDBOX_FAILED ''Firecracker restore rootfs path does not match the snapshot backing path'')
      else seq (assertHostRequirements env)
        (bnd (allocateGuestCid (sp_id spec)) (\<lambda>guestCid. boot env (sp_id spec) guestCid True (load_snapshot env ref))))"

definition contains_text :: "string \<Rightarrow> string \<Rightarrow> bool" where
  "contains_text sub s \<longleftrightarrow> list_ex (\<lambda>i. take (length sub) (drop i s) = sub) [0..<Suc (length s)]"

definition waitForGuestReady :: "fc_env \<Rightarrow> fc_record \<Rightarrow> (fc_host, unit) proc" where
  "waitForGuestReady env r =
     (if \<not> fo_infrastructureProbe (fe_options env)
      then throw (Caisson SANDBOX_FAILED ''Firecracker infrastructure probe is required to confirm guest readiness'')
      else await_call env (fe_ready env (fr_vsockPath r)))"

definition vm_state :: "string \<Rightarrow> json" where "vm_state st = JObj [(js ''state'', text_json st)]"

definition start :: "fc_env \<Rightarrow> sandbox_handle \<Rightarrow> resume_context option \<Rightarrow> (fc_host, unit) proc" where
  "start env handle resume = bnd (getRecord handle) (\<lambda>record.
     seq (if fr_restored record then callApi env record ApiPatch ''/vm'' (vm_state ''Resumed'')
       else callApi env record ApiPut ''/actions'' (JObj [(js ''action_type'', text_json ''InstanceStart'')]))
     (seq (if fo_oneShotBrokerRequest (fe_options env) \<noteq> None \<or> contains_text ''agent-runtime'' (fo_rootfsPath (fe_options env))
       then await_call env (fe_entropy env (fr_vsockPath record)) else waitForGuestReady env record)
     (case resume of
        Some context \<Rightarrow>
          if \<not> fr_restored record then throw (Caisson SANDBOX_FAILED ''resume control is valid only after snapshot restore'')
          else await_call env (fe_resume env (fr_vsockPath record) context)
      | None \<Rightarrow>
          if fr_restored record \<and> contains_text ''agent-runtime'' (fo_rootfsPath (fe_options env))
          then throw (Caisson SANDBOX_FAILED ''restored agent runtime requires durable resume context'') else ret ())))"

definition exec :: "fc_env \<Rightarrow> sandbox_handle \<Rightarrow> exec_request \<Rightarrow> (fc_host, exec_result) proc" where
  "exec env handle request = seq (getRecord handle)
     (if xr_argv request = [] then throw (Caisson INVALID_REQUEST ''infrastructure exec requires a non-empty argv array'')
      else if \<not> fo_infrastructureProbe (fe_options env)
      then throw (Caisson SANDBOX_FAILED ''Firecracker infrastructure probe is not configured'')
      else bnd (getRecord handle) (\<lambda>record. await_call env (fe_execute env (fr_vsockPath record) request)))"

definition snapshot :: "fc_env \<Rightarrow> sandbox_handle \<Rightarrow> snapshot_kind \<Rightarrow> (fc_host, local_snapshot) proc" where
  "snapshot env handle kind = bnd (getRecord handle) (\<lambda>record.
     bnd (gets fh_calls) (\<lambda>n. let sid = fe_uuid env n; options = fe_options env;
       statePath = join_path (fo_snapshotDirectory options) (sid @ ''.state''); memoryPath = join_path (fo_snapshotDirectory options) (sid @ ''.memory'') in
     seq (await_call env (fe_file env (fo_snapshotDirectory options)))
     (seq (callApi env record ApiPatch ''/vm'' (vm_state ''Paused''))
     (seq (try_finally
         (callApi env record ApiPut ''/snapshot/create'' (JObj [(js ''snapshot_type'', text_json ''Full''), (js ''snapshot_path'', text_json statePath),
            (js ''mem_file_path'', text_json memoryPath)]))
         (callApi env record ApiPatch ''/vm'' (vm_state ''Resumed'')))
     (bnd (gets fh_calls) (\<lambda>m. ret \<lparr>lo_id = sid, lo_kind = kind, lo_statePath = statePath, lo_memoryPath = memoryPath,
         lo_rootfsPath = Some (fo_rootfsPath options), lo_kernelPath = Some (fo_kernelImagePath options), lo_createdAt = fe_now env m\<rparr>))))))"

record driver_capabilities =
  dc_hardwareIsolation :: bool
  dc_snapshotSupport :: bool
  dc_maxConcurrent :: int

record fc_driver_options =
  dp_firecrackerPath :: string
  dp_kernelImagePath :: string
  dp_rootfsPath :: string
  dp_runtimeDirectory :: string
  dp_snapshotDirectory :: string
  dp_guestCidStart :: "int option"
  dp_hostId :: "string option"
  dp_vcpuCount :: "int option"
  dp_memoryMiB :: "int option"
  dp_maxConcurrent :: "int option"
  dp_bootArgs :: "utf16 option"
  dp_infrastructureProbe :: bool
  dp_oneShotBrokerRequest :: "json option"

definition given :: "'a \<Rightarrow> 'a option \<Rightarrow> 'a" where "given d v = (case v of None \<Rightarrow> d | Some x \<Rightarrow> x)"

definition with_defaults :: "fc_driver_options \<Rightarrow> fc_options" where
  "with_defaults raw = \<lparr>fo_firecrackerPath = dp_firecrackerPath raw, fo_kernelImagePath = dp_kernelImagePath raw, fo_rootfsPath = dp_rootfsPath raw,
     fo_runtimeDirectory = dp_runtimeDirectory raw, fo_snapshotDirectory = dp_snapshotDirectory raw, fo_guestCidStart = given 10000 (dp_guestCidStart raw),
     fo_hostId = given ''local'' (dp_hostId raw), fo_vcpuCount = given 1 (dp_vcpuCount raw), fo_memoryMiB = given 512 (dp_memoryMiB raw),
     fo_maxConcurrent = given 50 (dp_maxConcurrent raw), fo_bootArgs = given (js ''console=ttyS0 reboot=k panic=1 pci=off'') (dp_bootArgs raw),
     fo_infrastructureProbe = dp_infrastructureProbe raw, fo_oneShotBrokerRequest = dp_oneShotBrokerRequest raw\<rparr>"

text \<open>The constructor: its options, its pool among the pools of the host process, and its boot arguments.\<close>

definition new_firecracker_driver :: "(schema \<Rightarrow> json \<Rightarrow> json option) \<Rightarrow> (json \<Rightarrow> utf16) \<Rightarrow> fc_driver_options \<Rightarrow> (string \<times> cid_pool) list
    \<Rightarrow> (js_error + fc_options \<times> cid_pool \<times> utf16) \<times> (string \<times> cid_pool) list" where
  "new_firecracker_driver parse stringify raw pools = (let options = with_defaults raw;
     (pool, pools') = getGuestCidPool (fo_hostId options) (fo_guestCidStart options) pools in
     (case withOneShotBrokerRequest parse stringify (fo_bootArgs options) (dp_oneShotBrokerRequest raw) of
        Inl e \<Rightarrow> Inl e | Inr bootArgs \<Rightarrow> Inr (options, pool, bootArgs), pools'))"

definition capabilities :: "fc_options \<Rightarrow> driver_capabilities" where
  "capabilities options = \<lparr>dc_hardwareIsolation = True, dc_snapshotSupport = True, dc_maxConcurrent = fo_maxConcurrent options\<rparr>"

section \<open>Exclusive CIDs\<close>

text \<open>
  Sessions and CIDs are matched one to one in the pool, released CIDs are not in use, fresh ones come after all of them, and
  every record has the CID its session holds.
\<close>

definition cids_ok :: "(string \<times> int) list \<Rightarrow> int list \<Rightarrow> int \<Rightarrow> (string \<times> fc_record) list \<Rightarrow> bool" where
  "cids_ok held_cids free_cids upto_cid records \<longleftrightarrow>
     distinct (map fst held_cids) \<and> distinct (map snd held_cids @ free_cids)
   \<and> (\<forall>c \<in> snd ` set held_cids \<union> set free_cids. c < upto_cid)
   \<and> distinct (map fst records) \<and> (\<forall>(sid, r) \<in> set records. map_of held_cids sid = Some (fr_guestCid r))"

definition cid_inv :: "fc_host \<Rightarrow> bool" where
  "cid_inv h \<longleftrightarrow> cids_ok (cp_allocated (fh_pool h)) (cp_released (fh_pool h)) (cp_next (fh_pool h)) (fh_records h)"

text \<open>The requests the driver sends: machine, boot source, root drive and vsock device, start and pause, snapshots; no network interface.\<close>

definition driver_requests :: "string list" where
  "driver_requests = [''/machine-config'', ''/boot-source'', ''/drives/rootfs'', ''/vsock'', ''/actions'', ''/vm'', ''/snapshot/create'', ''/snapshot/load'']"

definition driver_inv :: "fc_host \<Rightarrow> bool" where
  "driver_inv h \<longleftrightarrow> cid_inv h \<and> (\<forall>a \<in> set (fh_sent h). al_path a \<in> set driver_requests)"

text \<open>A session with a CID and no record yet, or no longer: an operation on it is under way.\<close>

definition pending :: "string \<Rightarrow> int \<Rightarrow> fc_host \<Rightarrow> bool" where
  "pending sid c h \<longleftrightarrow> map_of (cp_allocated (fh_pool h)) sid = Some c \<and> sid \<notin> fst ` set (fh_records h)"

text \<open>What an operation relies on: the others keep the invariant and leave alone the sessions of \<open>T\<close> that are under way.\<close>

definition polite :: "string set \<Rightarrow> (nat \<Rightarrow> fc_host \<Rightarrow> fc_host) \<Rightarrow> bool" where
  "polite T others \<longleftrightarrow> (\<forall>n h. driver_inv h \<longrightarrow> driver_inv (others n h) \<and> (\<forall>sid \<in> T. \<forall>c. pending sid c h \<longrightarrow> pending sid c (others n h)))"

definition held_by :: "(string \<times> int) set \<Rightarrow> fc_host \<Rightarrow> bool" where
  "held_by S h \<longleftrightarrow> driver_inv h \<and> (\<forall>(sid, c) \<in> S. pending sid c h)"

lemma held_other [simp]: "held_by S (h\<lparr>fh_spawned := a\<rparr>) = held_by S h" "held_by S (h\<lparr>fh_killed := b\<rparr>) = held_by S h"
  "held_by S (h\<lparr>fh_calls := n\<rparr>) = held_by S h"
  by (simp_all add: held_by_def driver_inv_def cid_inv_def pending_def)

lemma triple_pres: "pres I m \<Longrightarrow> triple I m (\<lambda>_. I) (\<lambda>_. I)"
  unfolding pres_def triple_def by (auto split: prod.splits sum.splits)

lemma held_frame:
  assumes "held_by S h" "fh_sent h' = fh_sent h" "cid_inv h'" "\<And>s d. (s, d) \<in> S' \<Longrightarrow> pending s d h'"
  shows "held_by S' h'"
  using assms by (auto simp: held_by_def driver_inv_def)

lemma held_await:
  assumes "polite T (fe_others env)" "fst ` S \<subseteq> T"
  shows "pres (held_by S) (await_call env answer)"
proof -
  have "held_by S (fe_others env n h)" if "held_by S h" for n h
    using assms that unfolding polite_def held_by_def by fastforce
  then show ?thesis by (simp add: pres_def await_call_def)
qed

lemma map_of_without: "map_of (filter (\<lambda>e. fst e \<noteq> sid) es) s = (if s = sid then None else map_of es s)"
  by (induction es) auto

lemma without_absent: "sid \<notin> fst ` set es \<Longrightarrow> filter (\<lambda>e. fst e \<noteq> sid) es = es"
  by (induction es) auto

lemma same_owner: "distinct (map snd es) \<Longrightarrow> (a, c) \<in> set es \<Longrightarrow> (b, c) \<in> set es \<Longrightarrow> a = b"
  by (metis distinct_map inj_onD prod.inject snd_conv)

text \<open>Putting a CID back into the pool and taking one out.\<close>

lemma cids_okD:
  assumes "cids_ok A R n rs"
  shows "distinct (map fst A)" "distinct (map snd A)" "distinct R" "snd ` set A \<inter> set R = {}" "\<forall>x \<in> snd ` set A \<union> set R. x < n"
    "distinct (map fst rs)" "\<forall>(s, r) \<in> set rs. map_of A s = Some (fr_guestCid r)"
proof -
  note a = assms [unfolded cids_ok_def distinct_append set_map]
  show "distinct (map fst A)" using a by (elim conjE)
  show "distinct (map snd A)" using a by (elim conjE)
  show "distinct R" using a by (elim conjE)
  show "snd ` set A \<inter> set R = {}" using a by (elim conjE)
  show "\<forall>x \<in> snd ` set A \<union> set R. x < n" using a by (elim conjE)
  show "distinct (map fst rs)" using a by (elim conjE)
  show "\<forall>(s, r) \<in> set rs. map_of A s = Some (fr_guestCid r)" using a by (elim conjE)
qed

lemma cids_ok_release:
  assumes ok: "cids_ok A R n rs" and c: "map_of A sid = Some c" "sid \<notin> fst ` set rs"
  shows "cids_ok (filter (\<lambda>e. fst e \<noteq> sid) A) (List.insert c R) n rs"
proof -
  note i = cids_okD [OF ok]
  have m: "(sid, c) \<in> set A" using c(1) by (rule map_of_SomeD)
  have c_in: "c \<in> snd ` set A" using imageI [OF m, of snd] by simp
  have out: "c \<notin> snd ` set (filter (\<lambda>e. fst e \<noteq> sid) A)"
  proof
    assume "c \<in> snd ` set (filter (\<lambda>e. fst e \<noteq> sid) A)"
    then obtain a where "(a, c) \<in> set A" "a \<noteq> sid" by auto
    with same_owner [OF i(2) m] show False by blast
  qed
  have sub: "snd ` set (filter (\<lambda>e. fst e \<noteq> sid) A) \<subseteq> snd ` set A" by auto
  have "distinct (map snd (filter (\<lambda>e. fst e \<noteq> sid) A) @ List.insert c R)"
    using i(2,3,4) out sub by (simp add: distinct_map_filterI) blast
  moreover have "\<forall>x \<in> snd ` set (filter (\<lambda>e. fst e \<noteq> sid) A) \<union> set (List.insert c R). x < n"
    using i(5) sub c_in by (simp only: set_insert) blast
  moreover have "\<forall>(s, r) \<in> set rs. map_of (filter (\<lambda>e. fst e \<noteq> sid) A) s = Some (fr_guestCid r)"
    using i(7) c(2) by (force simp: map_of_without)
  ultimately show ?thesis using i(1,6) by (simp add: cids_ok_def distinct_map_filterI)
qed

lemma cids_ok_allocate:
  assumes "cids_ok A R n rs" "set R' \<subseteq> set R" "distinct R'" "n \<le> n'"
  shows "cids_ok A R' n' rs"
    and "sid \<notin> fst ` set A \<Longrightarrow> c \<notin> set R' \<Longrightarrow> c \<notin> snd ` set A \<Longrightarrow> c < n' \<Longrightarrow> cids_ok (A @ [(sid, c)]) R' n' rs"
proof -
  have i: "distinct (map fst A)" "distinct (map snd A)" "snd ` set A \<inter> set R' = {}" "\<forall>x \<in> snd ` set A \<union> set R'. x < n'"
    "distinct (map fst rs)" "\<forall>(s, r) \<in> set rs. map_of A s = Some (fr_guestCid r)"
  proof -
    note ok = cids_okD [OF assms(1)]
    show "distinct (map fst A)" "distinct (map snd A)" "distinct (map fst rs)" "\<forall>(s, r) \<in> set rs. map_of A s = Some (fr_guestCid r)" by (rule ok)+
    show "snd ` set A \<inter> set R' = {}" using ok(4) assms(2) by blast
    show "\<forall>x \<in> snd ` set A \<union> set R'. x < n'" using ok(5) assms(2,4) by (meson UnE UnI1 UnI2 less_le_trans subsetD)
  qed
  then show "cids_ok A R' n' rs" using assms(3) by (simp add: cids_ok_def)
  assume s: "sid \<notin> fst ` set A" "c \<notin> set R'" "c \<notin> snd ` set A" "c < n'"
  have "\<forall>(s, r) \<in> set rs. map_of (A @ [(sid, c)]) s = Some (fr_guestCid r)" using i(6) by (auto simp: map_add_Some_iff)
  with i s assms(3) show "cids_ok (A @ [(sid, c)]) R' n' rs" by (simp add: cids_ok_def)
qed

lemma held_release:
  assumes "sid \<notin> fst ` S"
  shows "triple (held_by (insert (sid, c) S)) (releaseGuestCid sid) (\<lambda>_. held_by S) (\<lambda>_ _. False)"
proof (rule tripleI)
  fix h x h' assume h: "held_by (insert (sid, c) S) h" and r: "releaseGuestCid sid h = (Inr x, h')"
  then have p: "cid_inv h" "map_of (cp_allocated (fh_pool h)) sid = Some c" "sid \<notin> fst ` set (fh_records h)" by (auto simp: held_by_def driver_inv_def pending_def)
  with r have h': "h' = h\<lparr>fh_pool := (fh_pool h)\<lparr>cp_allocated := filter (\<lambda>e. fst e \<noteq> sid) (cp_allocated (fh_pool h)),
      cp_released := List.insert c (cp_released (fh_pool h))\<rparr>\<rparr>" by (simp add: releaseGuestCid_def modify_def Let_def)
  have "pending s d h'" if "(s, d) \<in> S" for s d
  proof -
    have "s \<noteq> sid" using assms that by force
    moreover have "pending s d h" using h that by (auto simp: held_by_def driver_inv_def)
    ultimately show ?thesis unfolding h' by (simp add: pending_def map_of_without)
  qed
  moreover have "cid_inv h'" using cids_ok_release [OF _ p(2,3)] p(1) h' by (simp add: cid_inv_def)
  ultimately show "held_by S h'" by (intro held_frame [OF h]) (simp_all add: h')
qed (simp add: releaseGuestCid_def modify_def)

lemma held_allocate: "triple (held_by S) (allocateGuestCid sid) (\<lambda>c h. held_by (insert (sid, c) S) h \<and> sid \<notin> fst ` S) (\<lambda>_. held_by S)"
proof -
  have step: "case allocateGuestCid sid h of (Inr c, h') \<Rightarrow> held_by (insert (sid, c) S) h' \<and> sid \<notin> fst ` S | (Inl _, h') \<Rightarrow> held_by S h'"
    if h: "held_by S h" for h
  proof -
    define p where "p = fh_pool h"
    have ok: "cids_ok (cp_allocated p) (cp_released p) (cp_next p) (fh_records h)" and S: "\<And>s c. (s, c) \<in> S \<Longrightarrow> pending s c h"
      using h by (auto simp: held_by_def driver_inv_def cid_inv_def p_def)
    define chosen where "chosen = (case sort (cp_released p) of
           [] \<Rightarrow> (cp_next p, p\<lparr>cp_next := cp_next p + 1\<rparr>) | reusable # _ \<Rightarrow> (reusable, p\<lparr>cp_released := removeAll reusable (cp_released p)\<rparr>))"
    obtain c p' where "chosen = (c, p')" by (cases chosen)
    note step = this [symmetric, unfolded chosen_def]
    have p': "cp_allocated p' = cp_allocated p" "set (cp_released p') \<subseteq> set (cp_released p)" "distinct (cp_released p')" "cp_next p \<le> cp_next p'"
      "c \<notin> set (cp_released p')" "c \<notin> snd ` set (cp_allocated p)" "c < cp_next p'"
    proof -
      note own = cids_okD [OF ok]
      have "cp_allocated p' = cp_allocated p \<and> set (cp_released p') \<subseteq> set (cp_released p) \<and> distinct (cp_released p') \<and> cp_next p \<le> cp_next p'
        \<and> c \<notin> set (cp_released p') \<and> c \<notin> snd ` set (cp_allocated p) \<and> c < cp_next p'"
      proof (cases "sort (cp_released p)")
        case Nil
        then have "cp_released p = []" by (metis set_empty set_sort)
        moreover have "c = cp_next p" "p' = p\<lparr>cp_next := cp_next p + 1\<rparr>" using step Nil by simp_all
        moreover have "cp_next p \<notin> snd ` set (cp_allocated p)" using own(5) by blast
        ultimately show ?thesis by simp
      next
        case (Cons r rs)
        then have r: "r \<in> set (cp_released p)" by (metis list.set_intros(1) set_sort)
        moreover have "c = r" "p' = p\<lparr>cp_released := removeAll r (cp_released p)\<rparr>" using step Cons by simp_all
        moreover have "r \<notin> snd ` set (cp_allocated p)" using own(4) r by blast
        ultimately show ?thesis using bspec [OF own(5), of r] own(3) by (simp add: distinct_removeAll)
      qed
      then show "cp_allocated p' = cp_allocated p" "set (cp_released p') \<subseteq> set (cp_released p)" "distinct (cp_released p')" "cp_next p \<le> cp_next p'"
        "c \<notin> set (cp_released p')" "c \<notin> snd ` set (cp_allocated p)" "c < cp_next p'" by blast+
    qed
    note ok' = cids_ok_allocate [OF ok p'(2,3,4)]
    have run: "allocateGuestCid sid h = (if map_of (cp_allocated p) sid \<noteq> None
       then (Inl (Caisson SANDBOX_FAILED ''Firecracker session already has a guest CID''), h\<lparr>fh_pool := p'\<rparr>)
       else (Inr c, h\<lparr>fh_pool := p'\<lparr>cp_allocated := cp_allocated p @ [(sid, c)]\<rparr>\<rparr>))"
      unfolding allocateGuestCid_def Let_def p_def [symmetric] step [symmetric] using p'(1,6) by simp
    show ?thesis
    proof (cases "map_of (cp_allocated p) sid")
      case (Some d)
      have "held_by S (h\<lparr>fh_pool := p'\<rparr>)"
        using ok'(1) S p'(1) by (intro held_frame [OF h]) (simp_all add: cid_inv_def pending_def p_def)
      with Some run show ?thesis by simp
    next
      case None
      then have new: "sid \<notin> fst ` set (cp_allocated p)" by (simp add: map_of_eq_None_iff)
      have "sid \<notin> fst ` set (fh_records h)" using ok None by (force simp: cids_ok_def)
      with new None have "pending sid c (h\<lparr>fh_pool := p'\<lparr>cp_allocated := cp_allocated p @ [(sid, c)]\<rparr>\<rparr>)" by (simp add: pending_def map_add_Some_iff)
      moreover have kept: "pending s d (h\<lparr>fh_pool := p'\<lparr>cp_allocated := cp_allocated p @ [(sid, c)]\<rparr>\<rparr>) \<and> s \<noteq> sid" if "(s, d) \<in> S" for s d
        using S [OF that] None by (auto simp: pending_def p_def map_add_Some_iff)
      moreover have "sid \<notin> fst ` S" using kept by fastforce
      ultimately have "held_by (insert (sid, c) S) (h\<lparr>fh_pool := p'\<lparr>cp_allocated := cp_allocated p @ [(sid, c)]\<rparr>\<rparr>)"
        using ok'(2) [OF new p'(5,6,7)] by (intro held_frame [OF h]) (auto simp: cid_inv_def)
      with None run \<open>sid \<notin> fst ` S\<close> show ?thesis by simp
    qed
  qed
  then show ?thesis unfolding triple_def by blast
qed

lemma held_set:
  assumes "sid \<notin> fst ` S" "fr_guestCid r = c"
  shows "triple (held_by (insert (sid, c) S)) (set_record sid r) (\<lambda>_ h. held_by S h \<and> map_of (fh_records h) sid = Some r) (\<lambda>_ _. False)"
proof (rule tripleI)
  fix h x h' assume h: "held_by (insert (sid, c) S) h" and r: "set_record sid r h = (Inr x, h')"
  then have ok: "cid_inv h" "map_of (cp_allocated (fh_pool h)) sid = Some c" "sid \<notin> fst ` set (fh_records h)" and S: "\<And>s d. (s, d) \<in> S \<Longrightarrow> pending s d h"
    by (auto simp: held_by_def driver_inv_def pending_def)
  then have h': "h' = h\<lparr>fh_records := fh_records h @ [(sid, r)]\<rparr>" using r by (simp add: set_record_def modify_def without_absent)
  have "cid_inv h'" using ok assms(2) unfolding h' cid_inv_def cids_ok_def by auto
  moreover have "pending s d h'" if "(s, d) \<in> S" for s d using S [OF that] assms(1) that unfolding h' by (force simp: pending_def)
  moreover have "map_of (fh_records h') sid = Some r" using ok(3) unfolding h' by (simp add: map_of_eq_None_iff map_add_Some_iff)
  ultimately show "held_by S h' \<and> map_of (fh_records h') sid = Some r" using held_frame [OF h, of h' S] by (simp add: h')
qed (simp add: set_record_def modify_def)

lemma held_delete:
  "triple (\<lambda>h. held_by S h \<and> map_of (fh_records h) sid = Some r) (delete_record sid)
     (\<lambda>_ h. held_by (insert (sid, fr_guestCid r) S) h \<and> sid \<notin> fst ` S) (\<lambda>_ _. False)"
proof (rule tripleI)
  fix h x h' assume h: "held_by S h \<and> map_of (fh_records h) sid = Some r" and r: "delete_record sid h = (Inr x, h')"
  then have m: "(sid, r) \<in> set (fh_records h)" and S: "\<And>s d. (s, d) \<in> S \<Longrightarrow> pending s d h" and ok: "cid_inv h"
    by (auto simp: held_by_def driver_inv_def dest: map_of_SomeD)
  have h': "h' = h\<lparr>fh_records := filter (\<lambda>e. fst e \<noteq> sid) (fh_records h)\<rparr>" using r by (simp add: delete_record_def modify_def)
  have "cid_inv h'" using ok unfolding h' cid_inv_def cids_ok_def by (auto simp: distinct_map_filterI)
  moreover have "pending sid (fr_guestCid r) h'" using ok m unfolding h' by (auto simp: pending_def cid_inv_def cids_ok_def)
  moreover have "pending s d h'" "s \<noteq> sid" if "(s, d) \<in> S" for s d using S [OF that] m unfolding h' by (force simp: pending_def)+
  moreover have "sid \<notin> fst ` S" using S m by (force simp: pending_def)
  ultimately show "held_by (insert (sid, fr_guestCid r) S) h' \<and> sid \<notin> fst ` S"
    using held_frame [OF conjunct1 [OF h], of h' "insert (sid, fr_guestCid r) S"] by (auto simp: h')
qed (simp add: delete_record_def modify_def)

lemma held_get: "triple (held_by S) (getRecord handle) (\<lambda>r h. held_by S h \<and> map_of (fh_records h) (hd_id handle) = Some r) (\<lambda>_. held_by S)"
  unfolding getRecord_def
  by (auto simp: triple_def proc_defs split: option.splits)

section \<open>Every operation keeps them\<close>

named_theorems held_rules "operations that keep what is held"

lemma held_spawn [held_rules]: "pres (held_by S) spawn_process"
  by (simp add: pres_def spawn_process_def)

lemma held_kill [held_rules]: "pres (held_by S) (kill_process p)"
  unfolding kill_process_def by (rule pres_modify) simp

lemma held_wait: "polite T (fe_others env) \<Longrightarrow> fst ` S \<subseteq> T \<Longrightarrow> pres (held_by S) (wait_attempts env n)"
proof (induction n)
  case (Suc n)
  have "pres (held_by S) (case view of SpawnFailed \<Rightarrow> throw a | Exited \<Rightarrow> throw b | SocketReady \<Rightarrow> ret () | NotYet \<Rightarrow> wait_attempts env n)" for view a b
    using Suc by (cases view) (simp_all add: pres_rules)
  then show ?case unfolding wait_attempts.simps by (intro pres_bnd [OF held_await [OF Suc.prems]])
qed (simp add: pres_throw)

lemma held_callApi:
  assumes "polite T (fe_others env)" "fst ` S \<subseteq> T"
    and "path \<in> set driver_requests"
  shows "pres (held_by S) (callApi env r m path body)"
  unfolding callApi_def
  by (intro pres_bnd pres_modify held_await [OF assms(1,2)]) (use assms(3) in \<open>auto simp: held_by_def driver_inv_def cid_inv_def pending_def\<close>)

lemma held_stop:
  assumes "polite T (fe_others env)" "fst ` S \<subseteq> T"
  shows "pres (held_by S) (stopProcess env r keep_files)"
  unfolding stopProcess_def by (intro pres_bnd pres_if pres_ret held_kill held_await [OF assms])

lemma held_startProcess:
  assumes "polite T (fe_others env)" "fst ` S \<subseteq> T"
  shows "triple (held_by S) (startProcess env sid c t v) (\<lambda>r h. held_by S h \<and> fr_guestCid r = c) (\<lambda>_. held_by S)"
proof -
  have "pres (held_by S) (startProcess env sid c t v)"
    unfolding startProcess_def Let_def waitForApiSocket_def
    by (intro pres_bnd pres_try_finally pres_ret held_spawn held_await [OF assms] held_wait [OF assms])
  moreover have "triple (\<lambda>_. True) (startProcess env sid c t v) (\<lambda>r _. fr_guestCid r = c) (\<lambda>_ _. True)"
    unfolding startProcess_def Let_def by (auto simp: triple_def bnd_def ret_def split: prod.splits sum.splits)
  ultimately show ?thesis unfolding pres_def triple_def by (fastforce split: prod.splits sum.splits)
qed

lemma held_mono: "S \<subseteq> S' \<Longrightarrow> held_by S' h \<Longrightarrow> held_by S h"
  by (auto simp: held_by_def driver_inv_def)

lemma triple_total: "triple P m Q (\<lambda>_ _. False) \<Longrightarrow> triple P m Q E"
  by (erule triple_conseq) simp_all

text \<open>The session of a record that is being torn down holds its CID until the process is gone.\<close>

lemma held_teardown:
  assumes "polite T (fe_others env)" "fst ` S \<subseteq> T" "sid \<in> T" "sid \<notin> fst ` S"
  shows "triple (held_by (insert (sid, c) S)) (seq (stopProcess env r b) (releaseGuestCid sid)) (\<lambda>_. held_by S) (\<lambda>_. held_by S)"
proof (rule triple_bnd)
  have sub: "fst ` insert (sid, c) S \<subseteq> T" using assms by simp
  show "triple (held_by (insert (sid, c) S)) (stopProcess env r b) (\<lambda>_. held_by (insert (sid, c) S)) (\<lambda>_. held_by S)"
    by (rule triple_conseq [OF triple_pres [OF held_stop [OF assms(1) sub]]]) (auto intro: held_mono [rotated])
  show "triple (held_by (insert (sid, c) S)) (releaseGuestCid sid) (\<lambda>_. held_by S) (\<lambda>_. held_by S)"
    by (rule triple_total [OF held_release [OF assms(4)]])
qed

lemma held_destroy:
  assumes "polite T (fe_others env)" "fst ` S \<subseteq> T" "hd_id handle \<in> T"
  shows "triple (held_by S) (destroy env handle) (\<lambda>_. held_by S) (\<lambda>_. held_by S)"
  unfolding destroy_def
proof (rule triple_bnd [OF held_get])
  fix r
  show "triple (\<lambda>h. held_by S h \<and> map_of (fh_records h) (hd_id handle) = Some r)
      (seq (delete_record (hd_id handle)) (seq (stopProcess env r (fe_manualDiagnostics env)) (releaseGuestCid (hd_id handle)))) (\<lambda>_. held_by S) (\<lambda>_. held_by S)"
    by (rule triple_bnd [OF triple_total [OF held_delete]], rule triple_fact, rule held_teardown [OF assms])
qed

lemma held_reserve:
  assumes "polite T (fe_others env)" "fst ` S \<subseteq> T" "sid \<in> T" "sid \<notin> fst ` S"
  shows "triple (held_by (insert (sid, c) S)) (reserve_transport env sid t) (\<lambda>_. held_by (insert (sid, c) S)) (\<lambda>_. held_by S)"
proof -
  have sub: "fst ` insert (sid, c) S \<subseteq> T" using assms by simp
  have undo: "triple (held_by (insert (sid, c) S)) (seq (releaseGuestCid sid) (throw e)) Q (\<lambda>_. held_by S)" for e Q
    by (rule triple_bnd [OF triple_total [OF held_release [OF assms(4)]]]) (auto intro: triple_throw)
  have check: "triple (held_by (insert (sid, c) S)) (case a of (descriptor, endpointPath) \<Rightarrow>
       if descriptor \<noteq> t then throw (Caisson SANDBOX_FAILED ''Firecracker transport attachment is invalid'') else ret endpointPath)
      (\<lambda>_. held_by (insert (sid, c) S)) (\<lambda>_. held_by S)" for a
    by (cases a) (simp add: triple_ret triple_throw held_mono [OF subset_insertI])
  show ?thesis unfolding reserve_transport_def
    by (rule triple_bnd [OF triple_try_catch [OF triple_pres [OF held_await [OF assms(1) sub]] undo] check])
qed

lemma held_boot:
  assumes "polite T (fe_others env)" "fst ` S \<subseteq> T" "sid \<in> T" "sid \<notin> fst ` S"
    and configure: "\<And>r S'. fst ` S' \<subseteq> T \<Longrightarrow> pres (held_by S') (configure r)"
  shows "triple (held_by (insert (sid, c) S)) (boot env sid c restored configure) (\<lambda>_. held_by S) (\<lambda>_. held_by S)"
proof -
  have sub: "fst ` insert (sid, c) S \<subseteq> T" using assms by simp
  have quit: "triple (held_by S) (seq (await_call env (fe_release env t)) (throw e)) Q (\<lambda>_. held_by S)" for t e Q
    by (rule triple_bnd [OF triple_pres [OF held_await [OF assms(1,2)]]]) (auto intro: triple_throw)
  have undo: "triple (held_by (insert (sid, c) S)) (seq (releaseGuestCid sid) (seq (await_call env (fe_release env t)) (throw e))) Q (\<lambda>_. held_by S)" for t e Q
    by (rule triple_bnd [OF triple_total [OF held_release [OF assms(4)]] quit])
  have record_set: "triple (held_by (insert (sid, c) S)) (set_record sid r) (\<lambda>_. held_by S) E" if "fr_guestCid r = c" for r E
    by (rule triple_conseq [OF held_set [OF assms(4) that]]) auto
  have destroyed: "triple (held_by S) (destroy env \<lparr>hd_id = sid, hd_driver = Firecracker\<rparr>) (\<lambda>_. held_by S) (\<lambda>_. held_by S)"
    by (rule held_destroy [OF assms(1,2)]) (simp add: assms)
  have finish_up: "triple (held_by (insert (sid, c) S)) (try_catch (seq (configure r) (seq (set_record sid r) (ret x)))
      (\<lambda>e. seq (set_record sid r) (seq (destroy env \<lparr>hd_id = sid, hd_driver = Firecracker\<rparr>) (seq (await_call env (fe_release env t)) (throw e)))))
      (\<lambda>_. held_by S) (\<lambda>_. held_by S)" if "fr_guestCid r = c" for r x t
  proof (rule triple_try_catch)
    show "triple (held_by (insert (sid, c) S)) (seq (configure r) (seq (set_record sid r) (ret x))) (\<lambda>_. held_by S) (\<lambda>_. held_by (insert (sid, c) S))"
      by (intro triple_bnd [OF triple_pres [OF configure [OF sub]]] triple_bnd [OF record_set [OF that]] triple_ret)
    show "triple (held_by (insert (sid, c) S)) (seq (set_record sid r) (seq (destroy env \<lparr>hd_id = sid, hd_driver = Firecracker\<rparr>)
        (seq (await_call env (fe_release env t)) (throw e)))) (\<lambda>_. held_by S) (\<lambda>_. held_by S)" for e
      by (intro triple_bnd [OF record_set [OF that]] triple_bnd [OF destroyed] quit)
  qed
  show ?thesis unfolding boot_def Let_def
    by (rule triple_bnd [OF held_reserve [OF assms(1-4)] triple_bnd [OF triple_try_catch [OF held_startProcess [OF assms(1) sub] undo]]],
        rule triple_fact, rule finish_up) simp
qed

lemma held_prepare:
  assumes "polite T (fe_others env)" "fst ` S \<subseteq> T" "sp_id spec \<in> T"
  shows "triple (held_by S) (prepare env bootArgs spec) (\<lambda>_. held_by S) (\<lambda>_. held_by S)"
proof -
  have checks: "pres (held_by S) (assertProductionRootfs env)" "pres (held_by S) (assertHostRequirements env)"
    unfolding assertProductionRootfs_def assertHostRequirements_def by (intro pres_if pres_throw pres_ret held_await [OF assms(1,2)])+
  have configure: "pres (held_by S') (configure_vm env bootArgs c r)" if "fst ` S' \<subseteq> T" for S' c r
    unfolding configure_vm_def by (intro pres_bnd held_callApi [OF assms(1) that]) (simp_all add: driver_requests_def)
  have "triple (\<lambda>h. held_by (insert (sp_id spec, c) S) h \<and> sp_id spec \<notin> fst ` S) (boot env (sp_id spec) c False (configure_vm env bootArgs c))
      (\<lambda>_. held_by S) (\<lambda>_. held_by S)" for c
    by (rule triple_fact, rule held_boot [OF assms]) (use configure in auto)
  then have go: "triple (held_by S) (bnd (allocateGuestCid (sp_id spec)) (\<lambda>c. boot env (sp_id spec) c False (configure_vm env bootArgs c))) (\<lambda>_. held_by S) (\<lambda>_. held_by S)"
    by (rule triple_bnd [OF held_allocate])
  then show ?thesis unfolding prepare_def
    by (intro triple_bnd [OF triple_pres [OF checks(1)]] triple_bnd [OF triple_pres [OF checks(2)]] triple_bnd [OF triple_gets]) (auto intro: triple_throw)
qed

lemma held_restore:
  assumes "polite T (fe_others env)" "fst ` S \<subseteq> T" "sp_id spec \<in> T"
  shows "triple (held_by S) (restore env ref spec) (\<lambda>_. held_by S) (\<lambda>_. held_by S)"
proof -
  have checks: "pres (held_by S) (assertProductionRootfs env)" "pres (held_by S) (assertHostRequirements env)"
    unfolding assertProductionRootfs_def assertHostRequirements_def by (intro pres_if pres_throw pres_ret held_await [OF assms(1,2)])+
  have configure: "pres (held_by S') (load_snapshot env ref r)" if "fst ` S' \<subseteq> T" for S' r
    unfolding load_snapshot_def by (rule held_callApi [OF assms(1) that]) (simp add: driver_requests_def)
  have "triple (\<lambda>h. held_by (insert (sp_id spec, c) S) h \<and> sp_id spec \<notin> fst ` S) (boot env (sp_id spec) c True (load_snapshot env ref))
      (\<lambda>_. held_by S) (\<lambda>_. held_by S)" for c
    by (rule triple_fact, rule held_boot [OF assms]) (use configure in auto)
  then have go: "triple (held_by S) (bnd (allocateGuestCid (sp_id spec)) (\<lambda>c. boot env (sp_id spec) c True (load_snapshot env ref))) (\<lambda>_. held_by S) (\<lambda>_. held_by S)"
    by (rule triple_bnd [OF held_allocate])
  then show ?thesis unfolding restore_def
    by (intro triple_bnd [OF triple_pres [OF checks(1)]]) (auto intro: triple_throw triple_bnd [OF triple_pres [OF checks(2)]])
qed

lemma pres_getRecord: "pres I (getRecord handle)"
  unfolding getRecord_def by (intro pres_rules)

lemma held_start:
  assumes "polite T (fe_others env)" "fst ` S \<subseteq> T"
  shows "pres (held_by S) (start env handle resume)"
  unfolding start_def waitForGuestReady_def
  by (intro pres_bnd pres_if pres_case_option pres_ret pres_throw pres_getRecord held_callApi [OF assms] held_await [OF assms])
    (simp_all add: driver_requests_def)

lemma held_exec:
  assumes "polite T (fe_others env)" "fst ` S \<subseteq> T"
  shows "pres (held_by S) (exec env handle request)"
  unfolding exec_def by (intro pres_bnd pres_if pres_throw pres_getRecord held_await [OF assms])

lemma held_snapshot:
  assumes "polite T (fe_others env)" "fst ` S \<subseteq> T"
  shows "pres (held_by S) (snapshot env handle kind)"
  unfolding snapshot_def Let_def
  by (intro pres_bnd pres_try_finally pres_ret pres_gets pres_getRecord held_callApi [OF assms] held_await [OF assms])
    (simp_all add: driver_requests_def)

datatype driver_op =
    PrepareOp utf16 sandbox_spec | RestoreOp resolved_snapshot sandbox_spec | StartOp sandbox_handle "resume_context option"
  | ExecOp sandbox_handle exec_request | SnapshotOp sandbox_handle snapshot_kind | DestroyOp sandbox_handle

fun op_session :: "driver_op \<Rightarrow> string" where
  "op_session (PrepareOp _ spec) = sp_id spec" | "op_session (RestoreOp _ spec) = sp_id spec" | "op_session (StartOp handle _) = hd_id handle"
| "op_session (ExecOp handle _) = hd_id handle" | "op_session (SnapshotOp handle _) = hd_id handle" | "op_session (DestroyOp handle) = hd_id handle"

fun run_op :: "fc_env \<Rightarrow> driver_op \<Rightarrow> fc_host \<Rightarrow> fc_host" where
  "run_op env (PrepareOp bootArgs spec) h = snd (prepare env bootArgs spec h)"
| "run_op env (RestoreOp ref spec) h = snd (restore env ref spec h)"
| "run_op env (StartOp handle resume) h = snd (start env handle resume h)"
| "run_op env (ExecOp handle request) h = snd (exec env handle request h)"
| "run_op env (SnapshotOp handle kind) h = snd (snapshot env handle kind h)"
| "run_op env (DestroyOp handle) h = snd (destroy env handle h)"

lemma triple_snd: "triple I m (\<lambda>_. I) (\<lambda>_. I) \<Longrightarrow> I h \<Longrightarrow> I (snd (m h))"
  unfolding triple_def by (cases "m h") (auto split: sum.splits dest!: spec [of _ h])

lemma held_run:
  assumes "polite T (fe_others env)" "fst ` S \<subseteq> T" "op_session op \<in> T" "held_by S h"
  shows "held_by S (run_op env op h)"
proof (cases op)
  case (PrepareOp b spec)
  with triple_snd [OF held_prepare [OF assms(1,2)] assms(4)] assms(3) show ?thesis by simp
next
  case (RestoreOp ref spec)
  with triple_snd [OF held_restore [OF assms(1,2)] assms(4)] assms(3) show ?thesis by simp
next
  case (DestroyOp handle)
  with triple_snd [OF held_destroy [OF assms(1,2)] assms(4)] assms(3) show ?thesis by simp
qed (use assms(4) held_start [OF assms(1,2)] held_exec [OF assms(1,2)] held_snapshot [OF assms(1,2)] in \<open>simp_all add: pres_def\<close>)

lemma record_cids:
  assumes "cids_ok A R n rs"
  shows "distinct (map (\<lambda>(sid, r). fr_guestCid r) rs)"
proof -
  note ok = cids_okD [OF assms]
  have "inj_on (\<lambda>(sid, r). fr_guestCid r) (set rs)"
  proof (rule inj_onI)
    fix x y assume "x \<in> set rs" "y \<in> set rs" and eq: "(case x of (sid, r) \<Rightarrow> fr_guestCid r) = (case y of (sid, r) \<Rightarrow> fr_guestCid r)"
    moreover obtain a q b r where "x = (a, q)" "y = (b, r)" by (cases x, cases y)
    ultimately have x: "(a, q) \<in> set rs" "(b, r) \<in> set rs" "fr_guestCid q = fr_guestCid r" by simp_all
    then have "map_of A a = Some (fr_guestCid q)" "map_of A b = Some (fr_guestCid q)" using ok(7) by auto
    then have "a = b" by (intro same_owner [OF ok(2)]) (auto dest: map_of_SomeD)
    with x ok(6) show "x = y" by (simp add: \<open>x = (a, q)\<close> \<open>y = (b, r)\<close> eq_key_imp_eq_value)
  qed
  moreover have "distinct rs" using ok(6) by (simp add: distinct_map)
  ultimately show ?thesis by (simp add: distinct_map)
qed

text \<open>(C30) No two sessions of a host ever have the same CID, and the driver sends a microVM no request that would configure a network interface:
  every operation, at whatever call it fails and whatever the other operations do meanwhile within the same discipline, keeps sessions
  and CIDs matched one to one, every record on the CID its session holds and the requests among the eight it needs; and it leaves
  alone the CIDs of other sessions whose operations are under way, so that they may rely on it in turn.\<close>

theorem cid_exclusive:
  assumes "polite (insert (op_session op) T) (fe_others env)" and "driver_inv h"
  shows "driver_inv (run_op env op h) \<and> distinct (map (\<lambda>(sid, r). fr_guestCid r) (fh_records (run_op env op h)))
    \<and> (\<forall>sid \<in> T. \<forall>c. pending sid c h \<longrightarrow> pending sid c (run_op env op h))"
proof -
  have "held_by {} (run_op env op h)" using assms by (intro held_run [OF assms(1)]) (simp_all add: held_by_def)
  then have inv: "driver_inv (run_op env op h)" by (simp add: held_by_def)
  then have "distinct (map (\<lambda>(sid, r). fr_guestCid r) (fh_records (run_op env op h)))" unfolding driver_inv_def cid_inv_def by (blast intro: record_cids)
  moreover have "pending sid c (run_op env op h)" if "sid \<in> T" "pending sid c h" for sid c
    using held_run [OF assms(1), of "{(sid, c)}" op h] assms(2) that by (simp add: held_by_def)
  ultimately show ?thesis using inv by blast
qed

section \<open>Examples\<close>

definition demo_fc_options :: fc_options where
  "demo_fc_options = \<lparr>fo_firecrackerPath = ''fc'', fo_kernelImagePath = ''k'', fo_rootfsPath = ''r'', fo_runtimeDirectory = ''d'', fo_snapshotDirectory = ''s'',
     fo_guestCidStart = 7, fo_hostId = ''h'', fo_vcpuCount = 1, fo_memoryMiB = 512, fo_maxConcurrent = 2, fo_bootArgs = [], fo_infrastructureProbe = True,
     fo_oneShotBrokerRequest = None\<rparr>"

definition demo_fc_env :: "socket_view \<Rightarrow> fc_env" where
  "demo_fc_env view = \<lparr>fe_options = demo_fc_options, fe_production = False, fe_manualDiagnostics = False, fe_linux = True, fe_accessible = \<lambda>_ _. True,
     fe_reserve = \<lambda>t _. Inr (t, ''u''), fe_release = \<lambda>_ _. Inr (), fe_file = \<lambda>_ _. Inr (), fe_socket = \<lambda>_. view,
     fe_api = \<lambda>_. [ApiData (utf8_encode (js ''HTTP/1.1 204 '' @ crlf @ crlf))],
     fe_entropy = \<lambda>_ _. Inr (), fe_resume = \<lambda>_ _ _. Inr (), fe_ready = \<lambda>_ _. Inr (),
     fe_execute = \<lambda>_ _ _. Inl ForeignError, fe_uuid = \<lambda>_. ''i'', fe_now = \<lambda>_. 0, fe_others = \<lambda>_ h. h\<rparr>"

definition demo_fc_host :: fc_host where
  "demo_fc_host = \<lparr>fh_pool = \<lparr>cp_next = 9, cp_released = [8], cp_allocated = [(''a'', 7)]\<rparr>, fh_records = [], fh_spawned = 0, fh_killed = [], fh_sent = [], fh_calls = 0\<rparr>"

definition demo_fc_spec :: sandbox_spec where "demo_fc_spec = \<lparr>sp_id = ''b'', sp_image = ''img'', sp_entrypoint = None\<rparr>"

lemma demo_prepared:
  "map (\<lambda>(sid, r). (sid, fr_guestCid r)) (fh_records (run_op (demo_fc_env SocketReady) (PrepareOp [] demo_fc_spec) demo_fc_host)) = [(''b'', 8)]"
  by code_simp

text \<open>While another session is under way with CID 7, a session is prepared with the released CID 8.\<close>

theorem cid_exclusive_witness:
  "map (\<lambda>(sid, r). (sid, fr_guestCid r)) (fh_records (run_op (demo_fc_env SocketReady) (PrepareOp [] demo_fc_spec) demo_fc_host)) = [(''b'', 8)]
   \<and> driver_inv (run_op (demo_fc_env SocketReady) (PrepareOp [] demo_fc_spec) demo_fc_host)
   \<and> pending ''a'' 7 (run_op (demo_fc_env SocketReady) (PrepareOp [] demo_fc_spec) demo_fc_host)"
proof -
  have "polite (insert (op_session (PrepareOp [] demo_fc_spec)) {''a''}) (fe_others (demo_fc_env SocketReady))" by (simp add: polite_def demo_fc_env_def)
  moreover have "driver_inv demo_fc_host" "pending ''a'' 7 demo_fc_host" by (simp_all add: demo_fc_host_def driver_inv_def cid_inv_def cids_ok_def pending_def)
  ultimately show ?thesis using cid_exclusive [of "PrepareOp [] demo_fc_spec" "{''a''}" "demo_fc_env SocketReady" demo_fc_host] demo_prepared by blast
qed

text \<open>
  A process that does not open its API socket in time is left running: \<^verbatim>\<open>#startProcess\<close> throws before the caller has a record
  to destroy, so the process that was spawned is never killed, although its CID is back in the pool.
\<close>

lemma never_ready:
  assumes "\<And>k h. fe_others env k h = h" "\<And>k. fe_socket env k = NotYet"
  shows "wait_attempts env n h = (Inl (Caisson SANDBOX_FAILED ''Firecracker did not open its API socket''), h\<lparr>fh_calls := fh_calls h + n\<rparr>)"
  using assms by (induction n arbitrary: h) (simp_all add: proc_defs await_call_def)

lemma orphaned_process:
  "let h = run_op (demo_fc_env NotYet) (PrepareOp [] demo_fc_spec) demo_fc_host in
     fh_spawned h = 1 \<and> fh_killed h = [] \<and> fh_records h = [] \<and> 8 \<in> set (cp_released (fh_pool h))"
proof -
  have wait: "wait_attempts (demo_fc_env NotYet) n h = (Inl (Caisson SANDBOX_FAILED ''Firecracker did not open its API socket''), h\<lparr>fh_calls := fh_calls h + n\<rparr>)" for n h
    by (rule never_ready) (simp_all add: demo_fc_env_def)
  have env: "fe_file (demo_fc_env v) = (\<lambda>_ _. Inr ())" "fe_release (demo_fc_env v) = (\<lambda>_ _. Inr ())" "fe_reserve (demo_fc_env v) = (\<lambda>t _. Inr (t, ''u''))"
    "fe_others (demo_fc_env v) = (\<lambda>_ h. h)" "fe_options (demo_fc_env v) = demo_fc_options" "\<not> fe_production (demo_fc_env v)" "fe_linux (demo_fc_env v)"
    "fe_accessible (demo_fc_env v) = (\<lambda>_ _. True)" for v by (simp_all add: demo_fc_env_def)
  show ?thesis
    by (simp add: Let_def prepare_def assertProductionRootfs_def assertHostRequirements_def allocateGuestCid_def boot_def reserve_transport_def vsock_transport_def
        startProcess_def waitForApiSocket_def wait env spawn_process_def releaseGuestCid_def proc_defs await_call_def
        demo_fc_options_def demo_fc_host_def demo_fc_spec_def)
qed

end
