(* ===== verification/Container_Driver.thy ===== *)
theory Container_Driver
  imports Firecracker_Driver
begin

text \<open>
  \<^verbatim>\<open>packages/isolation/src/container-driver.ts\<close>, the driver for development, with \<^verbatim>\<open>process.ts\<close>, which runs its docker commands, and
  \<^verbatim>\<open>driver-selection.ts\<close>, which chooses between the two drivers. The state is the driver's containers and the log of what it asked of
  docker and of the transport host, in order; answers come from oracles and \<open>ce_others\<close> is what other operations do meanwhile.
  \<open>container_cleanup\<close> shows that a failed preparation removes the container before the endpoint it could use is released.
\<close>

section \<open>Commands (process.ts)\<close>

datatype command_event = CommandStdout utf16 | CommandStderr utf16 | CommandTimeout | CommandError | CommandClose "int option"

record command_state =
  cm_stdout :: utf16
  cm_stderr :: utf16
  cm_timedOut :: bool
  cm_settled :: "(js_error + exec_result) option"

definition command_init :: command_state where
  "command_init = \<lparr>cm_stdout = [], cm_stderr = [], cm_timedOut = False, cm_settled = None\<rparr>"

text \<open>\<open>elapsed\<close> is the time from the start of the command to its end. The timeout kills the child, which then closes.\<close>

definition command_step :: "rat \<Rightarrow> command_state \<Rightarrow> command_event \<Rightarrow> command_state" where
  "command_step elapsed c ev = (case ev of
     CommandStdout chunk \<Rightarrow> c\<lparr>cm_stdout := cm_stdout c @ chunk\<rparr>
   | CommandStderr chunk \<Rightarrow> c\<lparr>cm_stderr := cm_stderr c @ chunk\<rparr>
   | CommandTimeout \<Rightarrow> if cm_settled c \<noteq> None then c else c\<lparr>cm_timedOut := True\<rparr>
   | CommandError \<Rightarrow> if cm_settled c \<noteq> None then c else c\<lparr>cm_settled := Some (Inl (Caisson SANDBOX_FAILED ''sandbox command could not start''))\<rparr>
   | CommandClose code \<Rightarrow> if cm_settled c \<noteq> None then c
       else if cm_timedOut c then c\<lparr>cm_settled := Some (Inl (Caisson SANDBOX_FAILED ''sandbox command timed out''))\<rparr>
       else c\<lparr>cm_settled := Some (Inr \<lparr>xs_exitCode = (case code of None \<Rightarrow> 1 | Some n \<Rightarrow> n), xs_stdout = cm_stdout c, xs_stderr = cm_stderr c,
         xs_durationMs = js_round elapsed\<rparr>)\<rparr>)"

definition runCommand :: "rat \<Rightarrow> command_event list \<Rightarrow> (js_error + exec_result) option" where
  "runCommand elapsed evs = cm_settled (foldl (command_step elapsed) command_init evs)"

section \<open>State\<close>

datatype host_action = ReserveTransport peer | ReleaseTransport peer | DockerCommand "string list" "int option"

record ct_host =
  ch_containers :: "(string \<times> string) list"
  ch_log :: "host_action list"
  ch_calls :: nat

record ct_env =
  ce_maxConcurrent :: int
  ce_hostId :: string
  ce_transportDirectory :: string
  ce_directory :: "string \<Rightarrow> nat \<Rightarrow> js_error + unit"
  ce_uuid :: "nat \<Rightarrow> string"
  ce_reserve :: "peer \<Rightarrow> nat \<Rightarrow> js_error + peer \<times> string"
  ce_release :: "peer \<Rightarrow> nat \<Rightarrow> js_error + unit"
  ce_docker :: "string list \<Rightarrow> nat \<Rightarrow> js_error + exec_result"
  ce_others :: "nat \<Rightarrow> ct_host \<Rightarrow> ct_host"

record ct_options =
  co_dockerPath :: "string option"
  co_maxConcurrent :: "int option"
  co_hostId :: "string option"
  co_transportDirectory :: "string option"

text \<open>The constructor's defaults; \<open>tmpdir\<close> is \<^verbatim>\<open>os.tmpdir()\<close>. It also warns that the driver gives no hardware isolation.\<close>

definition container_defaults :: "string \<Rightarrow> ct_options \<Rightarrow> string \<times> int \<times> string \<times> string" where
  "container_defaults tmpdir raw = (given ''docker'' (co_dockerPath raw), given 50 (co_maxConcurrent raw), given ''local'' (co_hostId raw),
     given (join_path tmpdir ''caisson-broker-sockets'') (co_transportDirectory raw))"

definition container_capabilities :: "ct_env \<Rightarrow> driver_capabilities" where
  "container_capabilities env = \<lparr>dc_hardwareIsolation = False, dc_snapshotSupport = False, dc_maxConcurrent = ce_maxConcurrent env\<rparr>"

definition ct_await :: "ct_env \<Rightarrow> (nat \<Rightarrow> js_error + 'a) \<Rightarrow> (ct_host, 'a) proc" where
  "ct_await env answer h = (answer (ch_calls h), ce_others env (ch_calls h) (h\<lparr>ch_calls := Suc (ch_calls h)\<rparr>))"

definition log_action :: "host_action \<Rightarrow> (ct_host, unit) proc" where
  "log_action a = modify (\<lambda>h. h\<lparr>ch_log := ch_log h @ [a]\<rparr>)"

definition docker :: "ct_env \<Rightarrow> string list \<Rightarrow> int option \<Rightarrow> (ct_host, exec_result) proc" where
  "docker env args timeoutMs = seq (log_action (DockerCommand args timeoutMs)) (ct_await env (ce_docker env args))"

definition ct_release :: "ct_env \<Rightarrow> peer \<Rightarrow> (ct_host, unit) proc" where
  "ct_release env t = seq (log_action (ReleaseTransport t)) (ct_await env (ce_release env t))"

section \<open>Operations\<close>

definition container_name :: "string \<Rightarrow> string" where
  "container_name sid = ''caisson-'' @ safePathSegment sid"

definition create_command :: "string \<Rightarrow> string \<Rightarrow> int \<Rightarrow> string \<Rightarrow> string list" where
  "create_command name endpointPath workspaceSizeMiB img =
     [''create'', ''--name'', name, ''--network'', ''none'', ''--read-only'', ''--cap-drop'', ''ALL'', ''--security-opt'', ''no-new-privileges'',
      ''--pids-limit'', ''128'', ''--memory'', ''512m'', ''--cpus'', ''1'', ''--workdir'', ''/workspace'',
      ''--mount'', ''type=bind,src='' @ endpointPath @ '',dst=/run/caisson-broker.sock'',
      ''--tmpfs'', ''/workspace:rw,noexec,nosuid,nodev,size='' @ int_text workspaceSizeMiB @ ''m'',
      ''--tmpfs'', ''/tmp:rw,noexec,nosuid,nodev,size=16m'', img, ''sleep'', ''infinity'']"

definition remove_command :: "string \<Rightarrow> string list" where "remove_command name = [''rm'', ''-f'', name]"

definition create_container :: "ct_env \<Rightarrow> string \<Rightarrow> sandbox_spec \<Rightarrow> int option \<Rightarrow> peer \<Rightarrow> peer \<times> string \<Rightarrow> (ct_host, unit) proc" where
  "create_container env name spec workspaceSizeMiB transport = (\<lambda>(descriptor, endpointPath).
     if descriptor \<noteq> transport \<or> endpointPath \<noteq> pr_peerIdentifier transport
     then throw (Caisson SANDBOX_FAILED ''container transport attachment is invalid'')
     else bnd (docker env (create_command name endpointPath (given 64 workspaceSizeMiB) (sp_image spec)) None) (\<lambda>create.
       if xs_exitCode create \<noteq> 0 then throw (Caisson SANDBOX_FAILED ''container sandbox creation failed'') else ret ()))"

text \<open>With the transport reserved: create the container, or remove what docker may have left of it before the endpoint is released.\<close>

definition enter_container :: "ct_env \<Rightarrow> sandbox_spec \<Rightarrow> int option \<Rightarrow> peer \<Rightarrow> peer \<times> string \<Rightarrow> (ct_host, prepared_sandbox) proc" where
  "enter_container env spec workspaceSizeMiB transport attachment = (let name = container_name (sp_id spec) in
     seq (try_catch (create_container env name spec workspaceSizeMiB transport attachment)
       (\<lambda>e. seq (docker env (remove_command name) None) (seq (ct_release env transport) (throw e))))
     (seq (modify (\<lambda>h. h\<lparr>ch_containers := filter (\<lambda>c. fst c \<noteq> sp_id spec) (ch_containers h) @ [(sp_id spec, name)]\<rparr>))
       (ret \<lparr>pp_handle = \<lparr>hd_id = sp_id spec, hd_driver = Container\<rparr>, pp_transport = transport\<rparr>)))"

definition container_prepare :: "ct_env \<Rightarrow> sandbox_spec \<Rightarrow> int option \<Rightarrow> (ct_host, prepared_sandbox) proc" where
  "container_prepare env spec workspaceSizeMiB = bnd (gets (\<lambda>h. int (length (ch_containers h)))) (\<lambda>n.
     if ce_maxConcurrent env \<le> n then throw (Caisson SANDBOX_FAILED ''container driver concurrency limit reached'')
     else seq (ct_await env (ce_directory env (ce_transportDirectory env))) (seq (ct_await env (ce_directory env (ce_transportDirectory env)))
       (bnd (gets (\<lambda>h. ce_uuid env (ch_calls h))) (\<lambda>u.
        let transport = \<lparr>pr_hostId = ce_hostId env, pr_transportKind = Unix, pr_peerIdentifier = join_path (ce_transportDirectory env) (u @ ''.sock'')\<rparr> in
        bnd (seq (log_action (ReserveTransport transport)) (ct_await env (ce_reserve env transport)))
          (enter_container env spec workspaceSizeMiB transport)))))"

definition getContainer :: "sandbox_handle \<Rightarrow> (ct_host, string) proc" where
  "getContainer handle =
     (if hd_driver handle \<noteq> Container then throw (Caisson SANDBOX_FAILED ''container driver received a foreign sandbox handle'')
      else bnd (gets ch_containers) (\<lambda>cs. case map_of cs (hd_id handle) of
          None \<Rightarrow> throw (Caisson SESSION_NOT_FOUND ''sandbox handle is no longer active'')
        | Some name \<Rightarrow> ret name))"

definition container_start :: "ct_env \<Rightarrow> sandbox_handle \<Rightarrow> (ct_host, unit) proc" where
  "container_start env handle = bnd (getContainer handle) (\<lambda>name. bnd (docker env [''start'', name] None) (\<lambda>r.
     if xs_exitCode r \<noteq> 0 then throw (Caisson SANDBOX_FAILED ''container sandbox start failed'') else ret ()))"

definition container_exec :: "ct_env \<Rightarrow> sandbox_handle \<Rightarrow> exec_request \<Rightarrow> (ct_host, exec_result) proc" where
  "container_exec env handle request = bnd (getContainer handle) (\<lambda>name.
     if xr_argv request = [] then throw (Caisson INVALID_REQUEST ''infrastructure exec requires a non-empty argv array'')
     else docker env ([''exec''] @ (case xr_cwd request of None \<Rightarrow> [] | Some d \<Rightarrow> [''--workdir'', d]) @ [name] @ xr_argv request) (xr_timeoutMs request))"

definition container_snapshot :: "sandbox_handle \<Rightarrow> snapshot_kind \<Rightarrow> (ct_host, local_snapshot) proc" where
  "container_snapshot handle kind = throw (Caisson SANDBOX_FAILED ''container driver does not support snapshots'')"

definition container_restore :: "resolved_snapshot \<Rightarrow> sandbox_spec \<Rightarrow> (ct_host, prepared_sandbox) proc" where
  "container_restore ref spec = throw (Caisson SANDBOX_FAILED ''container driver does not support snapshot restore'')"

definition container_destroy :: "ct_env \<Rightarrow> sandbox_handle \<Rightarrow> (ct_host, unit) proc" where
  "container_destroy env handle = bnd (gets ch_containers) (\<lambda>cs. case map_of cs (hd_id handle) of
     None \<Rightarrow> ret ()
   | Some name \<Rightarrow> bnd (docker env (remove_command name) None) (\<lambda>removal.
       seq (modify (\<lambda>h. h\<lparr>ch_containers := filter (\<lambda>c. fst c \<noteq> hd_id handle) (ch_containers h)\<rparr>))
       (if xs_exitCode removal \<noteq> 0 then throw (Caisson SANDBOX_FAILED ''container sandbox destruction failed'') else ret ())))"

section \<open>Selection (driver-selection.ts)\<close>

definition selectIsolationDriver :: "bool \<Rightarrow> 'd \<Rightarrow> 'd option \<Rightarrow> js_error + 'd" where
  "selectIsolationDriver kvmAvailable containerDriver firecrackerDriver =
     (if kvmAvailable
      then (case firecrackerDriver of
          None \<Rightarrow> Inl (Caisson SANDBOX_FAILED ''KVM is available but no Firecracker driver is configured'')
        | Some d \<Rightarrow> Inr d)
      else Inr containerDriver)"

definition validateIsolationDriverForEnvironment :: "driver_capabilities \<Rightarrow> string option \<Rightarrow> js_error + unit" where
  "validateIsolationDriverForEnvironment c environment =
     (if environment = Some ''production'' \<and> \<not> dc_hardwareIsolation c
      then Inl (Caisson SANDBOX_FAILED ''production requires a driver with hardware isolation'') else Inr ())"

lemma production_isolated:
  "validateIsolationDriverForEnvironment (container_capabilities env) (Some ''production'') \<noteq> Inr ()
   \<and> validateIsolationDriverForEnvironment (capabilities options) environment = Inr ()"
  by (simp add: validateIsolationDriverForEnvironment_def container_capabilities_def capabilities_def)

section \<open>Cleaning up\<close>

text \<open>A log in which an endpoint is released only after the container that could hold it was removed.\<close>

fun removed_first :: "string \<Rightarrow> host_action list \<Rightarrow> bool" where
  "removed_first name [] = True"
| "removed_first name (ReleaseTransport t # acts) = False"
| "removed_first name (ReserveTransport t # acts) = removed_first name acts"
| "removed_first name (DockerCommand args timeoutMs # acts) = (args = remove_command name \<or> removed_first name acts)"

text \<open>
  When operations do not interleave: preparing a sandbox, whatever fails, releases its endpoint only after it has removed the
  container with the sandbox's name, and never releases it when it succeeds.
\<close>

lemma create_log:
  assumes "\<And>n h. ce_others env n h = h" and "create_container env name spec size_mib t a h = (r, h')"
  shows "ch_containers h' = ch_containers h \<and> (ch_log h' = ch_log h \<and> (\<exists>e. r = Inl e)
    \<or> (\<exists>args. ch_log h' = ch_log h @ [DockerCommand args None]))"
  using assms by (auto simp: create_container_def docker_def log_action_def ct_await_def proc_defs split: if_splits prod.splits sum.splits)

lemma enter_log:
  assumes "\<And>n h. ce_others env n h = h" and "enter_container env spec size_mib t a h = (r, h')"
  shows "\<exists>acts. ch_log h' = ch_log h @ acts \<and> removed_first (container_name (sp_id spec)) acts
    \<and> (\<forall>p. r = Inr p \<longrightarrow> ReleaseTransport (pp_transport p) \<notin> set acts \<and> map_of (ch_containers h') (sp_id spec) = Some (container_name (sp_id spec)))"
proof -
  obtain rc h1 where create: "create_container env (container_name (sp_id spec)) spec size_mib t a h = (rc, h1)" by fastforce
  from create_log [OF assms(1) create] obtain acts where acts: "ch_log h1 = ch_log h @ acts" "acts = [] \<or> (\<exists>args. acts = [DockerCommand args None])" by auto
  show ?thesis
  proof (cases rc)
    case (Inl e)
    define more where "more = drop (length (ch_log h1)) (ch_log h')"
    have "ch_log h' = ch_log h1 @ more" "\<exists>rest. more = DockerCommand (remove_command (container_name (sp_id spec))) None # rest" "\<exists>e. r = Inl e"
      using assms create Inl
      by (auto simp: more_def enter_container_def Let_def docker_def ct_release_def log_action_def ct_await_def proc_defs split: sum.splits)
    with acts show ?thesis by auto
  next
    case (Inr x)
    then have "ch_log h' = ch_log h1" "map_of (ch_containers h') (sp_id spec) = Some (container_name (sp_id spec))"
      using assms create by (auto simp: enter_container_def Let_def proc_defs map_add_Some_iff map_of_without)
    with acts show ?thesis by auto
  qed
qed

lemma container_cleanup:
  assumes "\<And>n h. ce_others env n h = h" and "container_prepare env spec size_mib h = (r, h')"
  shows "\<exists>acts. ch_log h' = ch_log h @ acts \<and> removed_first (container_name (sp_id spec)) acts
    \<and> (\<forall>p. r = Inr p \<longrightarrow> ReleaseTransport (pp_transport p) \<notin> set acts \<and> map_of (ch_containers h') (sp_id spec) = Some (container_name (sp_id spec)))"
proof -
  have "(\<exists>e. r = Inl e) \<and> (ch_log h' = ch_log h \<or> (\<exists>t. ch_log h' = ch_log h @ [ReserveTransport t]))
    \<or> (\<exists>t a h1. ch_log h1 = ch_log h @ [ReserveTransport t] \<and> enter_container env spec size_mib t a h1 = (r, h'))"
    using assms by (auto simp: container_prepare_def Let_def log_action_def ct_await_def proc_defs split: if_splits sum.splits)
  then show ?thesis
  proof (elim disjE)
    assume "\<exists>t a h1. ch_log h1 = ch_log h @ [ReserveTransport t] \<and> enter_container env spec size_mib t a h1 = (r, h')"
    then obtain t a h1 where h1: "ch_log h1 = ch_log h @ [ReserveTransport t]" "enter_container env spec size_mib t a h1 = (r, h')" by blast
    from enter_log [OF assms(1) h1(2)] h1(1) show ?thesis by auto
  qed auto
qed

end
