(* ===== verification/Http_Adapter.thy ===== *)
theory Http_Adapter
  imports Ip_Address Binary_Content
begin

text \<open>
  \<^verbatim>\<open>apps/broker/src/http-adapter.ts\<close>: the adapter that makes HTTPS requests for a guest. Parameters are the schema library
  (\<open>parse\<close>), the URL parser (\<open>parse_url\<close>, none when \<^verbatim>\<open>new URL\<close> throws), the name resolver (\<open>resolve\<close>) and the injected
  transport (\<open>transport\<close>); the state of \<open>http_execute\<close> is the list of the requests handed to the transport so far, so that
  \<open>http_requests_confined\<close> can say which requests can ever be made. \<open>transport_run\<close> is \<^verbatim>\<open>NodePinnedHttpTransport\<close> over the events
  Node emits.
\<close>

section \<open>Requests and configuration\<close>

definition READ_METHODS :: "utf16 list" where "READ_METHODS = map js [''GET'', ''HEAD'', ''OPTIONS'']"
definition WRITE_METHODS :: "utf16 list" where "WRITE_METHODS = map js [''POST'', ''PUT'', ''PATCH'', ''DELETE'']"

definition HttpRequestSchema :: schema where
  "HttpRequestSchema = strict [req ''url'' (ZString [SFormat FUrl]), req ''method'' (ZString [SMin 1, SMax 16]),
     opt ''headers'' (ZRecord (ZString []) (ZString [])), opt ''body'' BinaryContentSchema]"

record http_entry =
  he_host :: utf16
  he_pathPrefix :: utf16

record http_config =
  hc_allowlist :: "http_entry list"
  hc_allowedPorts :: "int list"
  hc_timeoutMs :: int
  hc_requestSizeBytes :: int
  hc_responseSizeBytes :: int
  hc_responseHeaderBytes :: int

record http_input =
  hi_address :: utf16
  hi_host :: utf16
  hi_port :: int
  hi_method :: utf16
  hi_path :: utf16
  hi_headers :: "(utf16 \<times> utf16) list"
  hi_body :: "byte list option"
  hi_timeoutMs :: int
  hi_responseSizeBytes :: int

record http_reply =
  hp_status :: int
  hp_headers :: "(utf16 \<times> utf16) list"
  hp_body :: "byte list"

record http_response =
  hr_status :: int
  hr_headers :: "(utf16 \<times> utf16) list"
  hr_body :: binary_content

record url =
  url_protocol :: utf16
  url_username :: utf16
  url_password :: utf16
  url_hostname :: utf16
  url_port :: utf16
  url_pathname :: utf16
  url_search :: utf16

text \<open>
  \<^verbatim>\<open>toLowerCase\<close> of host names and header names, and \<^verbatim>\<open>toUpperCase\<close> of methods, as far as comparisons with ASCII text can tell:
  the Kelvin sign is lowered to k; the dotless i, the long s, the sharp s and the ligatures are raised to ASCII letters.
\<close>

definition lower_text :: "utf16 \<Rightarrow> utf16" where
  "lower_text s = map (\<lambda>u. if u = 0x212A then 0x6B else lower_unit u) s"

definition upper_unit :: "16 word \<Rightarrow> utf16" where
  "upper_unit u = (if is_lower u then [u - 32] else if u = 0x131 then js ''I'' else if u = 0x17F then js ''S'' else if u = 0xDF then js ''SS''
     else if u = 0xFB00 then js ''FF'' else if u = 0xFB01 then js ''FI'' else if u = 0xFB02 then js ''FL'' else if u = 0xFB03 then js ''FFI''
     else if u = 0xFB04 then js ''FFL'' else if u = 0xFB05 \<or> u = 0xFB06 then js ''ST'' else [u])"

definition upper_text :: "utf16 \<Rightarrow> utf16" where
  "upper_text s = concat (map upper_unit s)"

text \<open>\<^verbatim>\<open>/^[a-z0-9.-]+$/iu\<close>, closed under simple case folding.\<close>

definition host_unit :: "16 word \<Rightarrow> bool" where
  "host_unit u \<longleftrightarrow> is_alnum u \<or> u = dot \<or> u = hd (js ''-'') \<or> u = 0x17F \<or> u = 0x212A"

definition assertConfig :: "http_config option \<Rightarrow> js_error + unit" where
  "assertConfig config = (case config of
     None \<Rightarrow> Inl (Caisson PARAMS_INVALID ''HTTP adapter configuration is required'')
   | Some c \<Rightarrow>
       if hc_allowlist c = [] \<or> hc_allowedPorts c = [] then Inl (Caisson PARAMS_INVALID ''HTTP allowlist and ports are required'')
       else if \<not> list_all positive_safe [hc_timeoutMs c, hc_requestSizeBytes c, hc_responseSizeBytes c, hc_responseHeaderBytes c]
       then Inl (Caisson PARAMS_INVALID ''HTTP adapter limits must be positive integers'')
       else if \<not> list_all (\<lambda>port. 1 \<le> port \<and> port \<le> 65535) (hc_allowedPorts c)
       then Inl (Caisson PARAMS_INVALID ''HTTP allowed ports must be valid'')
       else if \<not> list_all (\<lambda>e. he_host e \<noteq> [] \<and> list_all host_unit (he_host e) \<and> starts_with (js ''/'') (he_pathPrefix e)) (hc_allowlist c)
       then Inl (Caisson PARAMS_INVALID ''HTTP allowlist entry is invalid'')
       else Inr ())"

definition serializedHeaderBytes :: "(utf16 \<times> utf16) list \<Rightarrow> int" where
  "serializedHeaderBytes headers = int (byteLength (concat (map (\<lambda>(k, v). k @ js '': '' @ v @ [13, 10]) headers)))"

datatype http_scope = HttpRead | HttpWrite

definition requiredScope :: "(schema \<Rightarrow> json \<Rightarrow> json option) \<Rightarrow> json \<Rightarrow> js_error + http_scope" where
  "requiredScope parse params = (case parse HttpRequestSchema params of
     None \<Rightarrow> Inl (Caisson PARAMS_INVALID ''invalid HTTP request parameters'')
   | Some data \<Rightarrow> (let verb = upper_text (text_field data ''method'') in
       if verb \<in> set READ_METHODS then Inr HttpRead
       else if verb \<in> set WRITE_METHODS then Inr HttpWrite
       else Inl (Caisson SCOPE_DENIED ''HTTP method is not permitted'')))"

definition http_sideEffecting :: "(schema \<Rightarrow> json \<Rightarrow> json option) \<Rightarrow> json \<Rightarrow> js_error + bool" where
  "http_sideEffecting parse params = map_sum id (\<lambda>s. s = HttpWrite) (requiredScope parse params)"

definition pathMatches :: "utf16 \<Rightarrow> utf16 \<Rightarrow> bool" where
  "pathMatches pathname pre = (if pre = js ''/'' then True
     else let normalized = (if ends_with (js ''/'') pre then butlast pre else pre) in
       pathname = normalized \<or> starts_with (normalized @ js ''/'') pathname)"

definition port_of :: "url \<Rightarrow> int" where
  "port_of u = (if url_port u = [] then 443 else numeral_value 10 (url_port u))"

definition assertAllowlistedUrl :: "(utf16 \<Rightarrow> url option) \<Rightarrow> utf16 \<Rightarrow> http_config \<Rightarrow> js_error + url" where
  "assertAllowlistedUrl parse_url v config = (case parse_url v of
     None \<Rightarrow> Inl ForeignError
   | Some u \<Rightarrow>
       if url_protocol u \<noteq> js ''https:'' \<or> url_username u \<noteq> [] \<or> url_password u \<noteq> [] \<or> isIP (url_hostname u) \<noteq> 0
       then Inl (Caisson SCOPE_DENIED ''HTTP destination is not permitted'')
       else if List.find (\<lambda>candidate. lower_text (he_host candidate) = lower_text (url_hostname u)
             \<and> pathMatches (url_pathname u) (he_pathPrefix candidate)) (hc_allowlist config) = None \<or> port_of u \<notin> set (hc_allowedPorts config)
       then Inl (Caisson SCOPE_DENIED ''HTTP destination is not allowlisted'')
       else Inr u)"

definition reserved_header :: "utf16 \<Rightarrow> bool" where
  "reserved_header key \<longleftrightarrow> lower_text key = js ''host'' \<or> lower_text key = js ''authorization''"

definition sanitizeHeaders :: "(utf16 \<times> utf16) list option \<Rightarrow> js_error + (utf16 \<times> utf16) list" where
  "sanitizeHeaders headers = (case headers of
     None \<Rightarrow> Inr []
   | Some kvs \<Rightarrow> if list_ex (\<lambda>kv. reserved_header (fst kv)) kvs
       then Inl (Caisson PARAMS_INVALID ''guest-supplied Host and Authorization headers are forbidden'') else Inr kvs)"

section \<open>The request (HttpAdapter.execute)\<close>

fun text_of :: "json \<Rightarrow> utf16" where "text_of (JStr s) = s" | "text_of _ = []"

definition headers_of :: "json \<Rightarrow> (utf16 \<times> utf16) list option" where
  "headers_of data = (case field data ''headers'' of JObj kvs \<Rightarrow> Some (map (\<lambda>(k, v). (k, text_of v)) kvs) | _ \<Rightarrow> None)"

definition body_of :: "json \<Rightarrow> binary_content option" where
  "body_of data = (case field data ''body'' of JObj kvs \<Rightarrow> Some (content_of (JObj kvs)) | _ \<Rightarrow> None)"

definition decoded_body :: "json \<Rightarrow> int \<Rightarrow> js_error + byte list option" where
  "decoded_body data maximum = (case body_of data of None \<Rightarrow> Inr None | Some c \<Rightarrow> map_sum id Some (decodeContent c maximum))"

definition as_service_error :: "string \<Rightarrow> js_error \<Rightarrow> js_error" where
  "as_service_error message e = (if is_caisson e then e else Caisson SERVICE_ERROR message)"

definition send :: "(http_input \<Rightarrow> js_error + http_reply) \<Rightarrow> http_input \<Rightarrow> (http_input list, http_reply) proc" where
  "send transport input made = (transport input, made @ [input])"

definition http_execute :: "(schema \<Rightarrow> json \<Rightarrow> json option) \<Rightarrow> (utf16 \<Rightarrow> url option) \<Rightarrow> (utf16 \<Rightarrow> js_error + utf16 list)
    \<Rightarrow> (http_input \<Rightarrow> js_error + http_reply) \<Rightarrow> http_config \<Rightarrow> json \<Rightarrow> int \<Rightarrow> (http_input list, http_response) proc" where
  "http_execute parse parse_url resolve transport config params timeoutMs =
     (case parse HttpRequestSchema params of
        None \<Rightarrow> throw (Caisson PARAMS_INVALID ''invalid HTTP request parameters'')
      | Some data \<Rightarrow>
        bnd (of_result (requiredScope parse data)) (\<lambda>_.
        if \<not> positive_safe timeoutMs then throw (Caisson SERVICE_TIMEOUT ''HTTP timeout must be positive'')
        else bnd (of_result (assertAllowlistedUrl parse_url (text_field data ''url'') config)) (\<lambda>url.
        bnd (of_result (sanitizeHeaders (headers_of data))) (\<lambda>headers.
        bnd (of_result (decoded_body data (hc_requestSizeBytes config))) (\<lambda>body.
        bnd (try_catch (of_result (resolve (url_hostname url))) (\<lambda>e. throw (as_service_error ''HTTP name resolution failed'' e))) (\<lambda>addresses.
        if addresses = [] \<or> list_ex isForbiddenAddress addresses
        then throw (Caisson SCOPE_DENIED ''HTTP destination address is not permitted'')
        else bnd (try_catch (send transport \<lparr>hi_address = hd addresses, hi_host = url_hostname url, hi_port = port_of url,
              hi_method = upper_text (text_field data ''method''), hi_path = url_pathname url @ url_search url, hi_headers = headers,
              hi_body = body, hi_timeoutMs = min timeoutMs (hc_timeoutMs config), hi_responseSizeBytes = hc_responseSizeBytes config\<rparr>)
            (\<lambda>e. throw (as_service_error ''HTTP request failed'' e))) (\<lambda>response.
        if hc_responseSizeBytes config < int (length (hp_body response))
        then throw (Caisson SERVICE_ERROR ''HTTP response exceeds configured size limit'')
        else if hc_responseHeaderBytes config < serializedHeaderBytes (hp_headers response)
        then throw (Caisson SERVICE_ERROR ''HTTP response headers exceed configured size limit'')
        else if 300 \<le> hp_status response \<and> hp_status response < 400
        then throw (Caisson SERVICE_ERROR ''HTTP redirects are not permitted'')
        else ret \<lparr>hr_status = hp_status response, hr_headers = hp_headers response,
          hr_body = encodeContent (hp_body response) (map_of (hp_headers response) (js ''content-type''))\<rparr>)))))))"

definition new_http_adapter :: "http_config option \<Rightarrow> js_error + http_config" where
  "new_http_adapter config = map_sum id (\<lambda>_. the config) (assertConfig config)"

section \<open>The transport (NodePinnedHttpTransport)\<close>

datatype header_value = Missing | One utf16 | Many "utf16 list"

record response_head =
  rh_statusCode :: "int option"
  rh_headers :: "(utf16 \<times> header_value) list"

text \<open>Destroying a stream with an error delivers that error, and nothing of the stream after it.\<close>

datatype transport_event = RequestError js_error | RequestTimeout | ResponseData "byte list" | ResponseError js_error | ResponseEnd

record transport_state =
  ts_chunks :: "byte list list"
  ts_size :: int
  ts_settled :: "(js_error + http_reply) option"

record node_options =
  no_host :: utf16
  no_port :: int
  no_servername :: utf16
  no_method :: utf16
  no_path :: utf16
  no_headers :: "(utf16 \<times> utf16) list"
  no_timeout :: int

definition node_request :: "http_input \<Rightarrow> node_options" where
  "node_request input = \<lparr>no_host = hi_address input, no_port = hi_port input, no_servername = hi_host input, no_method = hi_method input,
     no_path = hi_path input, no_headers = filter (\<lambda>kv. fst kv \<noteq> js ''host'') (hi_headers input) @ [(js ''host'', hi_host input)],
     no_timeout = hi_timeoutMs input\<rparr>"

fun join_text :: "utf16 \<Rightarrow> utf16 list \<Rightarrow> utf16" where
  "join_text sep [] = []" | "join_text sep [t] = t" | "join_text sep (t # ts) = t @ sep @ join_text sep ts"

fun header_entry :: "utf16 \<times> header_value \<Rightarrow> (utf16 \<times> utf16) list" where
  "header_entry (k, Missing) = []" | "header_entry (k, One v) = [(k, v)]" | "header_entry (k, Many vs) = [(k, join_text (js '', '') vs)]"

definition transport_init :: transport_state where
  "transport_init = \<lparr>ts_chunks = [], ts_size = 0, ts_settled = None\<rparr>"

definition transport_step :: "int \<Rightarrow> response_head \<Rightarrow> transport_state \<Rightarrow> transport_event \<Rightarrow> transport_state" where
  "transport_step limit head t ev = (if ts_settled t \<noteq> None then t else case ev of
     ResponseData chunk \<Rightarrow>
       (let total = ts_size t + int (length chunk) in
        if limit < total then t\<lparr>ts_size := total, ts_settled := Some (Inl (Caisson SERVICE_ERROR ''HTTP response exceeds configured size limit''))\<rparr>
        else t\<lparr>ts_size := total, ts_chunks := ts_chunks t @ [chunk]\<rparr>)
   | ResponseError e \<Rightarrow> t\<lparr>ts_settled := Some (Inl e)\<rparr>
   | ResponseEnd \<Rightarrow> t\<lparr>ts_settled := Some (Inr \<lparr>hp_status = (case rh_statusCode head of None \<Rightarrow> 0 | Some n \<Rightarrow> n),
       hp_headers = concat (map header_entry (rh_headers head)), hp_body = concat (ts_chunks t)\<rparr>)\<rparr>
   | RequestError e \<Rightarrow> t\<lparr>ts_settled := Some (Inl (as_service_error ''HTTP request failed'' e))\<rparr>
   | RequestTimeout \<Rightarrow> t\<lparr>ts_settled := Some (Inl (Caisson SERVICE_TIMEOUT ''HTTP request timed out''))\<rparr>)"

definition transport_run :: "int \<Rightarrow> response_head \<Rightarrow> transport_event list \<Rightarrow> (js_error + http_reply) option" where
  "transport_run limit head evs = ts_settled (foldl (transport_step limit head) transport_init evs)"

section \<open>The contract of the parameters\<close>

context schema_library
begin

lemma headers_idem: "parse (ZRecord (ZString []) (ZString [])) x = Some y \<Longrightarrow> y = x"
proof -
  assume a: "parse (ZRecord (ZString []) (ZString [])) x = Some y"
  have all: "all_some (map (\<lambda>kv. parse (ZString []) (snd kv)) kvs) = Some vs \<Longrightarrow> zip (map fst kvs) vs = kvs" for kvs :: "(utf16 \<times> json) list" and vs
    by (induction kvs arbitrary: vs) (auto simp: parse_string split: json.splits option.splits)
  from a show ?thesis by (auto simp: parse_record all split: json.splits if_splits)
qed

lemma content_idem: "parse BinaryContentSchema x = Some y \<Longrightarrow> parse BinaryContentSchema y = Some y"
proof -
  assume "parse BinaryContentSchema x = Some y"
  then obtain e d where "y = JObj [(js ''encoding'', JStr e), (js ''data'', JStr d)]" "e \<in> set (map js [''utf8'', ''base64''])"
    unfolding BinaryContentSchema_def
    by (cases rule: parse_strict) (auto simp: parse_string parse_enum split: option.splits json.splits if_splits)
  then show ?thesis by (auto simp: BinaryContentSchema_def parse_object parse_string parse_enum known_keys_def)
qed

lemma http_request_idem: "parse HttpRequestSchema v = Some u \<Longrightarrow> parse HttpRequestSchema u = Some u"
proof -
  assume "parse HttpRequestSchema v = Some u"
  then obtain kvs ps where u: "u = JObj ps" "parse_fields parse [req ''url'' (ZString [SFormat FUrl]), req ''method'' (ZString [SMin 1, SMax 16]),
     opt ''headers'' (ZRecord (ZString []) (ZString [])), opt ''body'' BinaryContentSchema] kvs = Some ps"
    unfolding HttpRequestSchema_def by (cases rule: parse_strict) auto
  define hs where "hs = (case map_of kvs (js ''headers'') of None \<Rightarrow> [] | Some x \<Rightarrow> [(js ''headers'', the (parse (ZRecord (ZString []) (ZString [])) x))])"
  define bs where "bs = (case map_of kvs (js ''body'') of None \<Rightarrow> [] | Some x \<Rightarrow> [(js ''body'', the (parse BinaryContentSchema x))])"
  from u(2) obtain a b where ps: "ps = [(js ''url'', JStr a), (js ''method'', JStr b)] @ hs @ bs" and a: "fmt FUrl a" "b \<noteq> []" "length b \<le> 16"
    by (auto simp: hs_def bs_def parse_string split: option.splits json.splits if_splits)
  from u(2) have hs: "hs = [] \<or> (\<exists>h. hs = [(js ''headers'', h)] \<and> parse (ZRecord (ZString []) (ZString [])) h = Some h)"
    using headers_idem by (fastforce simp: hs_def split: option.splits)
  from u(2) have bs: "bs = [] \<or> (\<exists>c. bs = [(js ''body'', c)] \<and> parse BinaryContentSchema c = Some c)"
    using content_idem by (fastforce simp: bs_def split: option.splits)
  from a hs bs show ?thesis unfolding u(1) ps HttpRequestSchema_def
    by (auto simp: parse_object parse_string known_keys_def)
qed

end

section \<open>Which requests are made\<close>

text \<open>
  What the operator allows of one request, given the scope the policy decided about, the parsed URL and the addresses its
  host resolved to.
\<close>

definition permitted_request :: "http_config \<Rightarrow> http_scope \<Rightarrow> url \<Rightarrow> utf16 list \<Rightarrow> http_input \<Rightarrow> bool" where
  "permitted_request config scope u addresses input \<longleftrightarrow>
     hi_method input \<in> set (case scope of HttpRead \<Rightarrow> READ_METHODS | HttpWrite \<Rightarrow> WRITE_METHODS)
   \<and> url_protocol u = js ''https:'' \<and> url_username u = [] \<and> url_password u = [] \<and> isIP (url_hostname u) = 0
   \<and> (\<exists>e \<in> set (hc_allowlist config). lower_text (he_host e) = lower_text (url_hostname u) \<and> pathMatches (url_pathname u) (he_pathPrefix e))
   \<and> hi_host input = url_hostname u \<and> hi_path input = url_pathname u @ url_search u
   \<and> hi_port input = port_of u \<and> hi_port input \<in> set (hc_allowedPorts config)
   \<and> hi_address input \<in> set addresses \<and> (\<forall>a \<in> set addresses. \<not> isForbiddenAddress a)
   \<and> (\<forall>kv \<in> set (hi_headers input). \<not> reserved_header (fst kv))
   \<and> (case hi_body input of None \<Rightarrow> True | Some b \<Rightarrow> int (length b) \<le> hc_requestSizeBytes config)
   \<and> hi_timeoutMs input \<le> hc_timeoutMs config \<and> hi_responseSizeBytes input = hc_responseSizeBytes config"

definition bounded_response :: "http_config \<Rightarrow> http_reply \<Rightarrow> http_response \<Rightarrow> bool" where
  "bounded_response config reply response \<longleftrightarrow>
     int (length (hp_body reply)) \<le> hc_responseSizeBytes config \<and> serializedHeaderBytes (hp_headers reply) \<le> hc_responseHeaderBytes config
   \<and> \<not> (300 \<le> hp_status reply \<and> hp_status reply < 400)
   \<and> response = \<lparr>hr_status = hp_status reply, hr_headers = hp_headers reply,
       hr_body = encodeContent (hp_body reply) (map_of (hp_headers reply) (js ''content-type''))\<rparr>"

lemma allowlisted_url:
  assumes "assertAllowlistedUrl parse_url t config = Inr u"
  shows "parse_url t = Some u" "url_protocol u = js ''https:''" "url_username u = []" "url_password u = []" "isIP (url_hostname u) = 0"
    "\<exists>e \<in> set (hc_allowlist config). lower_text (he_host e) = lower_text (url_hostname u) \<and> pathMatches (url_pathname u) (he_pathPrefix e)"
    "port_of u \<in> set (hc_allowedPorts config)"
  using assms by (auto simp: assertAllowlistedUrl_def find_None_iff2 find_None_iff split: option.splits if_splits)

lemma scope_method:
  assumes "schema_library fmt parse" "parse HttpRequestSchema params = Some data" "requiredScope parse data = Inr scope"
  shows "requiredScope parse params = Inr scope"
    "upper_text (text_field data ''method'') \<in> set (case scope of HttpRead \<Rightarrow> READ_METHODS | HttpWrite \<Rightarrow> WRITE_METHODS)"
proof -
  from schema_library.http_request_idem [OF assms(1,2)] assms(2) have "requiredScope parse params = requiredScope parse data"
    by (simp add: requiredScope_def)
  with assms(3) show "requiredScope parse params = Inr scope" by simp
  with assms(2) show "upper_text (text_field data ''method'') \<in> set (case scope of HttpRead \<Rightarrow> READ_METHODS | HttpWrite \<Rightarrow> WRITE_METHODS)"
    by (auto simp: requiredScope_def Let_def split: if_splits)
qed

lemma sent_body: "decoded_body data n = Inr b \<Longrightarrow> case b of None \<Rightarrow> True | Some bytes \<Rightarrow> int (length bytes) \<le> n"
  by (auto simp: decoded_body_def decodeContent_def Let_def split: option.splits sum.splits if_splits encoding.splits)

lemma sent_headers: "sanitizeHeaders hs = Inr kvs \<Longrightarrow> kv \<in> set kvs \<Longrightarrow> \<not> reserved_header (fst kv)"
  by (auto simp: sanitizeHeaders_def list_ex_iff split: option.splits if_splits)

text \<open>(C28) A guest's HTTP call makes at most one request, and none that the operator did not allow: the method belongs to the scope the
  policy decided about; the URL is an HTTPS URL without credentials whose host and path are on the allowlist and whose port is
  allowed; the connection is pinned to an address its name resolved to, none of which is forbidden; no Host or Authorization
  header comes from the guest; body and timeout are within the limits. What is returned is the answer to that request, within the
  size limits and never a redirect.\<close>

theorem http_requests_confined:
  assumes lib: "schema_library fmt parse"
    and run: "http_execute parse parse_url resolve transport config params timeoutMs [] = (result, made)"
  shows "made = [] \<and> (\<exists>e. result = Inl e)
    \<or> (\<exists>data scope u addresses input. made = [input] \<and> parse HttpRequestSchema params = Some data \<and> requiredScope parse params = Inr scope
        \<and> parse_url (text_field data ''url'') = Some u \<and> resolve (url_hostname u) = Inr addresses
        \<and> permitted_request config scope u addresses input
        \<and> (case result of Inl _ \<Rightarrow> True | Inr response \<Rightarrow> (\<exists>reply. transport input = Inr reply \<and> bounded_response config reply response)))"
proof (cases "made = []")
  case True
  with run show ?thesis
    by (auto simp: http_execute_def proc_defs send_def split: option.splits sum.splits if_splits prod.splits)
next
  case False
  with run obtain data scope u headers body addresses where
    c: "parse HttpRequestSchema params = Some data" "requiredScope parse data = Inr scope"
      "assertAllowlistedUrl parse_url (text_field data ''url'') config = Inr u" "sanitizeHeaders (headers_of data) = Inr headers"
      "decoded_body data (hc_requestSizeBytes config) = Inr body" "resolve (url_hostname u) = Inr addresses"
      "addresses \<noteq> []" "\<not> list_ex isForbiddenAddress addresses"
    and m: "made = [\<lparr>hi_address = hd addresses, hi_host = url_hostname u, hi_port = port_of u,
              hi_method = upper_text (text_field data ''method''), hi_path = url_pathname u @ url_search u, hi_headers = headers,
              hi_body = body, hi_timeoutMs = min timeoutMs (hc_timeoutMs config), hi_responseSizeBytes = hc_responseSizeBytes config\<rparr>]"
    and r: "case result of Inl _ \<Rightarrow> True | Inr response \<Rightarrow> (\<exists>reply. transport (hd made) = Inr reply \<and> bounded_response config reply response)"
    by (auto simp: http_execute_def proc_defs send_def bounded_response_def split: option.splits sum.splits if_splits prod.splits)
  from m obtain input where input: "made = [input]" by blast
  have "permitted_request config scope u addresses input"
    using m input allowlisted_url [OF c(3)] scope_method(2) [OF lib c(1,2)] sent_body [OF c(5)] sent_headers [OF c(4)] c(7,8)
    by (simp add: permitted_request_def list_ex_iff)
  moreover from r input have "case result of Inl _ \<Rightarrow> True | Inr response \<Rightarrow> (\<exists>reply. transport input = Inr reply \<and> bounded_response config reply response)"
    by (cases result) simp_all
  ultimately show ?thesis using c(1,6) input allowlisted_url(1) [OF c(3)] scope_method(1) [OF lib c(1,2)] by blast
qed

section \<open>The pinned transport\<close>

lemma transport_settled: "ts_settled t \<noteq> None \<Longrightarrow> foldl (transport_step limit head) t evs = t"
  by (induction evs) (simp_all add: transport_step_def)

lemma transport_from:
  assumes "ts_settled t = None" "ts_size t = int (length (concat (ts_chunks t)))" "ts_size t \<le> limit"
  shows "ts_settled (foldl (transport_step limit head) t evs) = Some (Inr reply) \<longleftrightarrow>
    (\<exists>chunks rest. evs = map ResponseData chunks @ ResponseEnd # rest \<and> int (length (concat (ts_chunks t @ chunks))) \<le> limit
      \<and> reply = \<lparr>hp_status = (case rh_statusCode head of None \<Rightarrow> 0 | Some n \<Rightarrow> n), hp_headers = concat (map header_entry (rh_headers head)),
          hp_body = concat (ts_chunks t @ chunks)\<rparr>)"
  using assms
proof (induction evs arbitrary: t)
  case (Cons ev evs)
  show ?case
  proof (cases ev)
    case (ResponseData chunk)
    have shape: "(\<exists>chunks rest. ev # evs = map ResponseData chunks @ ResponseEnd # rest \<and> P chunks)
        \<longleftrightarrow> (\<exists>chunks rest. evs = map ResponseData chunks @ ResponseEnd # rest \<and> P (chunk # chunks))" for P
      unfolding ResponseData by (auto simp: Cons_eq_append_conv Cons_eq_map_conv)
    show ?thesis
    proof (cases "limit < ts_size t + int (length chunk)")
      case True
      have "ts_settled (transport_step limit head t ev) = Some (Inl (Caisson SERVICE_ERROR ''HTTP response exceeds configured size limit''))"
        using True Cons.prems(1) by (simp add: transport_step_def ResponseData)
      with transport_settled [of "transport_step limit head t ev" limit head evs] True Cons.prems(2) show ?thesis unfolding shape by simp
    next
      case False
      define t' where "t' = t\<lparr>ts_size := ts_size t + int (length chunk), ts_chunks := ts_chunks t @ [chunk]\<rparr>"
      have "transport_step limit head t ev = t'" using False Cons.prems(1) by (simp add: transport_step_def ResponseData t'_def)
      moreover have "ts_settled t' = None" "ts_size t' = int (length (concat (ts_chunks t')))" "ts_size t' \<le> limit"
        using Cons.prems False by (simp_all add: t'_def)
      ultimately show ?thesis using Cons.IH [of t'] unfolding shape by (simp add: t'_def)
    qed
  next
    case ResponseEnd
    have "ts_settled (transport_step limit head t ev) = Some (Inr \<lparr>hp_status = (case rh_statusCode head of None \<Rightarrow> 0 | Some n \<Rightarrow> n),
        hp_headers = concat (map header_entry (rh_headers head)), hp_body = concat (ts_chunks t)\<rparr>)"
      using Cons.prems(1) by (simp add: transport_step_def ResponseEnd)
    with transport_settled [of "transport_step limit head t ev" limit head evs] Cons.prems show ?thesis
      by (auto simp: ResponseEnd Cons_eq_append_conv Cons_eq_map_conv)
  qed (use Cons.prems transport_settled [of "transport_step limit head t ev" limit head evs] transport_step_def [of limit head t ev] in
      \<open>auto simp: Cons_eq_append_conv Cons_eq_map_conv\<close>)
qed simp

text \<open>
  The transport resolves exactly when the response ends after chunks within the limit and before any error or timeout, and then
  with these chunks; so it never hands over more than the limit.
\<close>

lemma transport_resolves:
  "0 \<le> limit \<Longrightarrow> transport_run limit head evs = Some (Inr reply) \<longleftrightarrow>
    (\<exists>chunks rest. evs = map ResponseData chunks @ ResponseEnd # rest \<and> int (length (concat chunks)) \<le> limit
      \<and> reply = \<lparr>hp_status = (case rh_statusCode head of None \<Rightarrow> 0 | Some n \<Rightarrow> n), hp_headers = concat (map header_entry (rh_headers head)),
          hp_body = concat chunks\<rparr>)"
  using transport_from [of transport_init limit head evs reply] by (simp add: transport_run_def transport_init_def)

section \<open>An example\<close>

definition demo_http_config :: http_config where
  "demo_http_config = \<lparr>hc_allowlist = [\<lparr>he_host = js ''api.x'', he_pathPrefix = js ''/v1/''\<rparr>], hc_allowedPorts = [443], hc_timeoutMs = 9,
     hc_requestSizeBytes = 8, hc_responseSizeBytes = 8, hc_responseHeaderBytes = 64\<rparr>"

definition demo_url :: url where
  "demo_url = \<lparr>url_protocol = js ''https:'', url_username = [], url_password = [], url_hostname = js ''api.x'', url_port = [],
     url_pathname = js ''/v1/a'', url_search = []\<rparr>"

definition demo_http_params :: json where
  "demo_http_params = JObj [(js ''url'', JStr (js ''https://api.x/v1/a'')), (js ''method'', JStr (js ''get''))]"

definition demo_http_input :: http_input where
  "demo_http_input = \<lparr>hi_address = js ''1.2.3.4'', hi_host = js ''api.x'', hi_port = 443, hi_method = js ''GET'', hi_path = js ''/v1/a'',
     hi_headers = [], hi_body = None, hi_timeoutMs = 5, hi_responseSizeBytes = 8\<rparr>"

definition demo_http_reply :: http_reply where
  "demo_http_reply = \<lparr>hp_status = 200, hp_headers = [(js ''content-type'', js ''text/plain'')], hp_body = [104, 105]\<rparr>"

lemma demo_http_run:
  "http_execute (zod (\<lambda>_ _. True)) (\<lambda>_. Some demo_url) (\<lambda>_. Inr [js ''1.2.3.4'']) (\<lambda>_. Inr demo_http_reply) demo_http_config demo_http_params 5 []
   = (Inr \<lparr>hr_status = 200, hr_headers = [(js ''content-type'', js ''text/plain'')], hr_body = \<lparr>bc_encoding = Utf8, bc_data = js ''hi''\<rparr>\<rparr>,
      [demo_http_input])"
  by code_simp

text \<open>A lower-case method, a host that resolves to a public address, and a text answer.\<close>

theorem http_requests_confined_witness:
  "\<exists>scope u addresses. requiredScope (zod (\<lambda>_ _. True)) demo_http_params = Inr scope
     \<and> permitted_request demo_http_config scope u addresses demo_http_input"
  using http_requests_confined [OF zod.schema_library_axioms demo_http_run] by auto

end
