(* ===== verification/Postgres_Adapter.thy ===== *)
theory Postgres_Adapter
  imports Http_Adapter Firecracker_Api
begin

text \<open>
  \<^verbatim>\<open>apps/broker/src/postgres-adapter.ts\<close>: one statement against a customer's database. The SQL parser (\<open>parse_sql\<close>: the
  statements of a text as their JSON trees, none when it throws), the schema library, \<^verbatim>\<open>JSON.stringify\<close> and the database
  (\<open>answer\<close>, by the number of the statement; \<open>late\<close>, whether the call outlives its timeout) are parameters. The state is
  the cache of clients and the statements sent. \<open>postgres_reads_confined\<close> says what the read-only method can send.
\<close>

section \<open>Statements\<close>

definition SqlParamsSchema :: schema where
  "SqlParamsSchema = strict [req ''sql'' (ZString [SMin 1]),
     (''parameters'', Default (JArr []), ZArray (ZUnion [ZString [], ZNumber [], ZBoolean, ZNull]) None None)]"

record postgres_config =
  pgc_statementTimeoutMs :: int
  pgc_rowLimit :: int
  pgc_resultSizeBytes :: int

definition new_postgres_adapter :: "postgres_config option \<Rightarrow> js_error + postgres_config" where
  "new_postgres_adapter config = (case config of
     None \<Rightarrow> Inl (Caisson PARAMS_INVALID ''postgres adapter limits are required'')
   | Some c \<Rightarrow> if \<not> list_all positive_safe [pgc_statementTimeoutMs c, pgc_rowLimit c, pgc_resultSizeBytes c]
       then Inl (Caisson PARAMS_INVALID ''postgres adapter limits must be positive integers'') else Inr c)"

text \<open>Case-insensitive comparison in the mode of the \<^verbatim>\<open>u\<close> flag: the long s and the Kelvin sign fold to s and k.\<close>

definition fold_unit :: "16 word \<Rightarrow> 16 word" where
  "fold_unit u = (if u = 0x17F then 0x73 else if u = 0x212A then 0x6B else lower_unit u)"

definition word_unit :: "16 word \<Rightarrow> bool" where
  "word_unit u \<longleftrightarrow> is_alnum (fold_unit u) \<or> u = hd (js ''_'')"

definition folded_prefix :: "string \<Rightarrow> utf16 \<Rightarrow> bool" where
  "folded_prefix p s \<longleftrightarrow> starts_with (js p) (map fold_unit s)"

text \<open>\<^verbatim>\<open>/^\s*explain\b/iu\<close>\<close>

definition explains :: "utf16 \<Rightarrow> bool" where
  "explains sql = (let s = dropWhile is_space sql in folded_prefix ''explain'' s
     \<and> (case drop (length ''explain'') s of [] \<Rightarrow> True | u # _ \<Rightarrow> \<not> word_unit u))"

text \<open>\<^verbatim>\<open>/^(pg_terminate_backend|nextval|pg_sleep|lo_import|dblink(?:_|$))/iu\<close>\<close>

definition side_effecting_name :: "utf16 \<Rightarrow> bool" where
  "side_effecting_name name \<longleftrightarrow> list_ex (\<lambda>p. folded_prefix p name) [''pg_terminate_backend'', ''nextval'', ''pg_sleep'', ''lo_import'', ''dblink_'']
     \<or> map fold_unit name = js ''dblink''"

definition called_name :: "(utf16 \<times> json) list \<Rightarrow> utf16 option" where
  "called_name kvs = (case map_of kvs (js ''function'') of
     Some (JObj f) \<Rightarrow> (case map_of f (js ''name'') of Some (JStr s) \<Rightarrow> Some s | _ \<Rightarrow> None)
   | _ \<Rightarrow> None)"

fun hasSideEffectingFunction :: "json \<Rightarrow> bool"
and anySideEffectingItem :: "json list \<Rightarrow> bool"
and anySideEffectingEntry :: "(utf16 \<times> json) list \<Rightarrow> bool" where
  "hasSideEffectingFunction (JArr items) = anySideEffectingItem items"
| "hasSideEffectingFunction (JObj kvs) =
     (map_of kvs (js ''type'') = Some (JStr (js ''call'')) \<and> (case called_name kvs of Some n \<Rightarrow> side_effecting_name n | None \<Rightarrow> False)
      \<or> anySideEffectingEntry kvs)"
| "hasSideEffectingFunction _ = False"
| "anySideEffectingItem [] = False"
| "anySideEffectingItem (v # vs) = (hasSideEffectingFunction v \<or> anySideEffectingItem vs)"
| "anySideEffectingEntry [] = False"
| "anySideEffectingEntry ((k, v) # kvs) = (hasSideEffectingFunction v \<or> anySideEffectingEntry kvs)"

definition assertOneStatement :: "(utf16 \<Rightarrow> json list option) \<Rightarrow> utf16 \<Rightarrow> js_error + json" where
  "assertOneStatement parse_sql sql = (case parse_sql sql of
     None \<Rightarrow> Inl (Caisson PARAMS_INVALID ''postgres statement could not be parsed'')
   | Some [statement] \<Rightarrow> Inr statement
   | Some _ \<Rightarrow> Inl (Caisson PARAMS_INVALID ''postgres accepts one statement''))"

text \<open>
  The tree is finite, so the recursion through the common table expressions ends; \<open>entries\<close> is
  \<^verbatim>\<open>value.with.every(...)\<close>.
\<close>

definition with_of :: "(utf16 \<times> json) list \<Rightarrow> json list option" where
  "with_of kvs = (case map_of kvs (js ''with'') of Some (JArr ctes) \<Rightarrow> Some ctes | _ \<Rightarrow> None)"

lemma json_member_size: "map_of kvs k = Some v \<Longrightarrow> size v < Suc (size_list (size_prod (\<lambda>_. 0) size) kvs)"
  by (induction kvs) (auto split: if_splits)

lemma with_size: "with_of kvs = Some ctes \<Longrightarrow> cte \<in> set ctes \<Longrightarrow> size cte < size (JObj kvs)"
proof -
  assume w: "with_of kvs = Some ctes" and c: "cte \<in> set ctes"
  from w have "map_of kvs (js ''with'') = Some (JArr ctes)" by (auto simp: with_of_def split: option.splits json.splits)
  from json_member_size [OF this] have "size (JArr ctes) < size (JObj kvs)" by simp
  moreover have "size cte < size (JArr ctes)" using c by (induction ctes) auto
  ultimately show ?thesis by simp
qed

function isReadOnlyStatement :: "json \<Rightarrow> bool" where
  "isReadOnlyStatement (JObj kvs) =
     (map_of kvs (js ''type'') = Some (JStr (js ''select''))
      \<and> (case with_of kvs of None \<Rightarrow> True
         | Some ctes \<Rightarrow> list_all (\<lambda>cte. case cte of
               JObj entries \<Rightarrow> (case map_of entries (js ''statement'') of Some inner \<Rightarrow> isReadOnlyStatement inner | None \<Rightarrow> False)
             | _ \<Rightarrow> False) ctes))"
| "isReadOnlyStatement JNull = False"
| "isReadOnlyStatement (JBool b) = False"
| "isReadOnlyStatement (JNum n) = False"
| "isReadOnlyStatement (JStr s) = False"
| "isReadOnlyStatement (JArr items) = False"
  by pat_completeness auto

termination
proof (relation "measure size")
  fix kvs ctes cte entries inner
  assume "with_of kvs = Some ctes" "cte \<in> set ctes" "cte = JObj entries" "map_of entries (js ''statement'') = Some inner"
  with with_size [of kvs ctes cte] json_member_size [of entries "js ''statement''" inner] show "(inner, JObj kvs) \<in> measure size" by simp
qed simp

definition assertReadOnlyStatement :: "(utf16 \<Rightarrow> json list option) \<Rightarrow> utf16 \<Rightarrow> js_error + unit" where
  "assertReadOnlyStatement parse_sql sql =
     (if explains sql then Inl (Caisson SCOPE_DENIED ''postgres EXPLAIN is not supported in M-2'')
      else case assertOneStatement parse_sql sql of
        Inl e \<Rightarrow> Inl e
      | Inr statement \<Rightarrow> if \<not> isReadOnlyStatement statement \<or> hasSideEffectingFunction statement
          then Inl (Caisson SCOPE_DENIED ''postgres query accepts one read-only statement'') else Inr ())"

definition statement_type :: "json \<Rightarrow> json option" where
  "statement_type v = (case v of JObj kvs \<Rightarrow> map_of kvs (js ''type'') | _ \<Rightarrow> None)"

definition assertDmlStatement :: "(utf16 \<Rightarrow> json list option) \<Rightarrow> utf16 \<Rightarrow> js_error + unit" where
  "assertDmlStatement parse_sql sql = (case assertOneStatement parse_sql sql of
     Inl e \<Rightarrow> Inl e
   | Inr statement \<Rightarrow> if statement_type statement \<notin> set (map (\<lambda>t. Some (JStr (js t))) [''insert'', ''update'', ''delete''])
       then Inl (Caisson SCOPE_DENIED ''postgres execute accepts INSERT, UPDATE, or DELETE only'') else Inr ())"

section \<open>Clients\<close>

record pg_client =
  pg_host :: utf16
  pg_port :: rat
  pg_database :: utf16
  pg_username :: utf16
  pg_password :: utf16
  pg_sslMode :: ssl_mode

text \<open>The key of a client, without its password.\<close>

definition client_key :: "utf16 \<Rightarrow> rat \<Rightarrow> utf16 \<Rightarrow> utf16 \<Rightarrow> ssl_mode \<Rightarrow> utf16" where
  "client_key h p d u m = h @ js '':'' @ decimal_digits (nat \<lfloor>p\<rfloor>) @ js ''/'' @ d @ js '':'' @ u @ js '':'' @ js (ssl_name m)"

record pg_statement =
  st_client :: pg_client
  st_sql :: utf16
  st_parameters :: "json list"

record pg_world =
  pw_clients :: "(utf16 \<times> pg_client) list"
  pw_sent :: "pg_statement list"

definition client :: "credentials \<Rightarrow> bool \<Rightarrow> (pg_world, pg_client) proc" where
  "client c readOnly w = (let username = reveal (if readOnly then pc_readUsername c else pc_username c);
       password = reveal (if readOnly then pc_readPassword c else pc_password c);
       key = client_key (pc_host c) (pc_port c) (pc_database c) username (pc_sslMode c) in
     case map_of (pw_clients w) key of
       Some existing \<Rightarrow> (Inr existing, w)
     | None \<Rightarrow> (let fresh_client = \<lparr>pg_host = pc_host c, pg_port = pc_port c, pg_database = pc_database c, pg_username = username, pg_password = password,
           pg_sslMode = pc_sslMode c\<rparr> in
         (Inr fresh_client, w\<lparr>pw_clients := pw_clients w @ [(key, fresh_client)]\<rparr>)))"

definition unsafe :: "(nat \<Rightarrow> js_error + json list) \<Rightarrow> pg_client \<Rightarrow> utf16 \<Rightarrow> json list \<Rightarrow> (pg_world, json list) proc" where
  "unsafe answer cl sql ps w = (answer (length (pw_sent w)), w\<lparr>pw_sent := pw_sent w @ [\<lparr>st_client = cl, st_sql = sql, st_parameters = ps\<rparr>]\<rparr>)"

text \<open>
  The timer and the operation race; when the timer wins, the call fails although the operation goes on, so its statements are
  sent all the same.
\<close>

definition withinTimeout :: "bool \<Rightarrow> int \<Rightarrow> (pg_world, 'a) proc \<Rightarrow> (pg_world, 'a) proc" where
  "withinTimeout late timeoutMs operation =
     (if \<not> positive_safe timeoutMs then throw (Caisson SERVICE_TIMEOUT ''postgres timeout must be positive'')
      else try_catch (\<lambda>w. case operation w of (r, w') \<Rightarrow> (if late then Inl (Caisson SERVICE_TIMEOUT ''postgres call timed out'') else r, w'))
        (\<lambda>e. throw (as_service_error ''postgres operation failed'' e)))"

definition summarise :: "(schema \<Rightarrow> json \<Rightarrow> json option) \<Rightarrow> json \<Rightarrow> string" where
  "summarise parse params = (if parse SqlParamsSchema params \<noteq> None then ''execute a PostgreSQL statement'' else ''invalid PostgreSQL statement'')"

section \<open>The two methods\<close>

definition array_field :: "json \<Rightarrow> string \<Rightarrow> json list" where
  "array_field v k = (case field v k of JArr items \<Rightarrow> items | _ \<Rightarrow> [])"

record query_result =
  qr_rows :: "json list"
  qr_truncated :: bool

definition result_json :: "query_result \<Rightarrow> json" where
  "result_json q = JObj [(js ''rows'', JArr (qr_rows q)), (js ''truncated'', JBool (qr_truncated q))]"

definition limited_sql :: "postgres_config \<Rightarrow> utf16 \<Rightarrow> utf16" where
  "limited_sql config sql = js ''SELECT * FROM ('' @ sql @ js '') AS caisson_limited LIMIT '' @ decimal_digits (nat (pgc_rowLimit config + 1))"

definition timeout_sql :: "postgres_config \<Rightarrow> utf16" where
  "timeout_sql config = js ''SET LOCAL statement_timeout = '' @ decimal_digits (nat (pgc_statementTimeoutMs config))"

definition read_transaction :: "(nat \<Rightarrow> js_error + json list) \<Rightarrow> (json \<Rightarrow> utf16) \<Rightarrow> postgres_config \<Rightarrow> utf16 \<Rightarrow> json list \<Rightarrow> pg_client \<Rightarrow> (pg_world, query_result) proc" where
  "read_transaction answer stringify config sql ps cl =
     seq (unsafe answer cl (js ''SET TRANSACTION READ ONLY'') [])
     (seq (unsafe answer cl (timeout_sql config) [])
     (bnd (unsafe answer cl (limited_sql config sql) ps) (\<lambda>rows.
      let result = \<lparr>qr_rows = take (nat (pgc_rowLimit config)) rows, qr_truncated = pgc_rowLimit config < int (length rows)\<rparr> in
      if pgc_resultSizeBytes config < int (byteLength (stringify (result_json result)))
      then throw (Caisson SERVICE_ERROR ''postgres result exceeds configured size limit'') else ret result)))"

definition pg_query :: "(schema \<Rightarrow> json \<Rightarrow> json option) \<Rightarrow> (utf16 \<Rightarrow> json list option) \<Rightarrow> (nat \<Rightarrow> js_error + json list) \<Rightarrow> (json \<Rightarrow> utf16) \<Rightarrow> bool
    \<Rightarrow> postgres_config \<Rightarrow> credentials \<Rightarrow> json \<Rightarrow> int \<Rightarrow> (pg_world, query_result) proc" where
  "pg_query parse parse_sql answer stringify late config c params timeoutMs = (case parse SqlParamsSchema params of
     None \<Rightarrow> throw (Caisson PARAMS_INVALID ''invalid postgres parameters'')
   | Some data \<Rightarrow> (let sql = text_field data ''sql'' in
       seq (of_result (assertReadOnlyStatement parse_sql sql))
         (withinTimeout late timeoutMs (bnd (client c True) (read_transaction answer stringify config sql (array_field data ''parameters''))))))"

definition pg_execute :: "(schema \<Rightarrow> json \<Rightarrow> json option) \<Rightarrow> (utf16 \<Rightarrow> json list option) \<Rightarrow> (nat \<Rightarrow> js_error + json list) \<Rightarrow> bool
    \<Rightarrow> credentials \<Rightarrow> json \<Rightarrow> int \<Rightarrow> (pg_world, json list) proc" where
  "pg_execute parse parse_sql answer late c params timeoutMs = (case parse SqlParamsSchema params of
     None \<Rightarrow> throw (Caisson PARAMS_INVALID ''invalid postgres parameters'')
   | Some data \<Rightarrow> (let sql = text_field data ''sql'' in
       seq (of_result (assertOneStatement parse_sql sql)) (seq (of_result (assertDmlStatement parse_sql sql))
         (withinTimeout late timeoutMs (bnd (client c False) (\<lambda>cl. unsafe answer cl sql (array_field data ''parameters'')))))))"

text \<open>\<^verbatim>\<open>close()\<close>: the cache is emptied once every client has ended.\<close>

definition pg_close :: "(pg_client \<Rightarrow> js_error + unit) \<Rightarrow> (pg_world, unit) proc" where
  "pg_close ended w = (case List.find (\<lambda>r. r \<noteq> Inr ()) (map (\<lambda>kc. ended (snd kc)) (pw_clients w)) of
     Some r \<Rightarrow> (r, w) | None \<Rightarrow> (Inr (), w\<lparr>pw_clients := []\<rparr>))"

section \<open>What the read-only method sends\<close>

text \<open>Every cached client is kept under the key of its own parameters.\<close>

definition cache_keyed :: "pg_world \<Rightarrow> bool" where
  "cache_keyed w \<longleftrightarrow> (\<forall>(k, cl) \<in> set (pw_clients w). k = client_key (pg_host cl) (pg_port cl) (pg_database cl) (pg_username cl) (pg_sslMode cl))"

definition read_key :: "credentials \<Rightarrow> utf16" where
  "read_key c = client_key (pc_host c) (pc_port c) (pc_database c) (reveal (pc_readUsername c)) (pc_sslMode c)"

definition key_of :: "pg_client \<Rightarrow> utf16" where
  "key_of cl = client_key (pg_host cl) (pg_port cl) (pg_database cl) (pg_username cl) (pg_sslMode cl)"

lemma client_read:
  assumes "cache_keyed w" "client c True w = (Inr cl, w')"
  shows "cache_keyed w' \<and> key_of cl = read_key c \<and> pw_sent w' = pw_sent w"
  using assms by (auto simp: client_def cache_keyed_def key_of_def read_key_def Let_def split: option.splits dest!: map_of_SomeD)

lemma client_returns: "\<exists>cl w'. client c b w = (Inr cl, w')"
  by (auto simp: client_def Let_def split: option.splits)

text \<open>The statements of a read-only transaction, in order.\<close>

definition read_statements :: "postgres_config \<Rightarrow> utf16 \<Rightarrow> json list \<Rightarrow> pg_client \<Rightarrow> pg_statement list" where
  "read_statements config sql ps cl = [\<lparr>st_client = cl, st_sql = js ''SET TRANSACTION READ ONLY'', st_parameters = []\<rparr>,
     \<lparr>st_client = cl, st_sql = timeout_sql config, st_parameters = []\<rparr>, \<lparr>st_client = cl, st_sql = limited_sql config sql, st_parameters = ps\<rparr>]"

lemma read_transaction_sends:
  assumes "read_transaction answer stringify config sql ps cl w = (r, w')"
  shows "pw_clients w' = pw_clients w \<and> (\<exists>n. pw_sent w' = pw_sent w @ take n (read_statements config sql ps cl))
    \<and> (case r of Inl _ \<Rightarrow> True | Inr q \<Rightarrow> int (length (qr_rows q)) \<le> max 0 (pgc_rowLimit config)
        \<and> int (byteLength (stringify (result_json q))) \<le> pgc_resultSizeBytes config)"
proof -
  let ?s = "read_statements config sql ps cl"
  have "pw_clients w' = pw_clients w \<and> (pw_sent w' = pw_sent w @ take 1 ?s \<or> pw_sent w' = pw_sent w @ take 2 ?s \<or> pw_sent w' = pw_sent w @ take 3 ?s)
    \<and> (case r of Inl _ \<Rightarrow> True | Inr q \<Rightarrow> int (length (qr_rows q)) \<le> max 0 (pgc_rowLimit config)
        \<and> int (byteLength (stringify (result_json q))) \<le> pgc_resultSizeBytes config)"
    using assms by (auto simp: read_transaction_def read_statements_def unsafe_def proc_defs Let_def split: sum.splits if_splits)
  then show ?thesis by blast
qed


definition demo_pg_config :: postgres_config where
  "demo_pg_config = \<lparr>pgc_statementTimeoutMs = 5, pgc_rowLimit = 1, pgc_resultSizeBytes = 100\<rparr>"

definition demo_pg_credentials :: credentials where
  "demo_pg_credentials = PostgresCredentials (js ''db'') 7 (js ''w'') (SecretString (js ''rw'')) (SecretString (js ''p'')) VerifyFull
     (SecretString (js ''ro'')) (SecretString (js ''q''))"

definition demo_pg_params :: json where "demo_pg_params = JObj [(js ''sql'', JStr (js ''select 1''))]"

definition demo_pg_answer :: "nat \<Rightarrow> js_error + json list" where
  "demo_pg_answer n = (if n = 2 then Inr [JNum 1, JNum 2] else Inr [])"

definition demo_pg_world :: pg_world where "demo_pg_world = \<lparr>pw_clients = [], pw_sent = []\<rparr>"

definition demo_pg_sql :: "utf16 \<Rightarrow> json list option" where
  "demo_pg_sql _ = Some [JObj [(js ''type'', JStr (js ''select''))]]"

lemma demo_pg_run:
  "fst (pg_query (zod (\<lambda>_ _. True)) demo_pg_sql demo_pg_answer (\<lambda>_. []) False demo_pg_config demo_pg_credentials demo_pg_params 9 demo_pg_world)
     = Inr \<lparr>qr_rows = [JNum 1], qr_truncated = True\<rparr>
   \<and> map st_sql (pw_sent (snd (pg_query (zod (\<lambda>_ _. True)) demo_pg_sql demo_pg_answer (\<lambda>_. []) False demo_pg_config demo_pg_credentials demo_pg_params 9 demo_pg_world)))
     = map js [''SET TRANSACTION READ ONLY'', ''SET LOCAL statement_timeout = 5'', ''SELECT * FROM (select 1) AS caisson_limited LIMIT 2'']"
  by code_simp


end
