(* ===== verification/S3_Adapter.thy ===== *)
theory S3_Adapter
  imports Http_Adapter
begin

text \<open>
  \<^verbatim>\<open>apps/broker/src/s3-adapter.ts\<close>: reading, writing, deleting and listing objects for a guest. The AWS client is the parameter
  \<open>answer\<close>, by the number of the command; the state is the cache of clients and the commands sent. \<open>s3_commands_confined\<close> says
  which commands the adapter can send at all.
\<close>

section \<open>Parameters and configuration\<close>

definition BucketKeySchema :: schema where
  "BucketKeySchema = strict [req ''bucket'' (ZString [SMin 1]), req ''key'' (ZString [SMin 1])]"

definition PutObjectSchema :: schema where
  "PutObjectSchema = strict [req ''bucket'' (ZString [SMin 1]), req ''key'' (ZString [SMin 1]), req ''body'' BinaryContentSchema,
     opt ''contentType'' (ZString [SMin 1, SMax 512])]"

definition ListObjectsSchema :: schema where
  "ListObjectsSchema = strict [req ''bucket'' (ZString [SMin 1]), req ''prefix'' (ZString [])]"

record s3_entry =
  s3_bucket :: utf16
  s3_prefix :: utf16

record s3_config =
  s3_endpoint :: utf16
  s3_region :: utf16
  s3_forcePathStyle :: bool
  s3_allowlist :: "s3_entry list"
  s3_timeoutMs :: int
  s3_objectSizeBytes :: int
  s3_listLimit :: int

section \<open>decodeURIComponent\<close>

definition hex_pair :: "utf16 \<Rightarrow> (int \<times> utf16) option" where
  "hex_pair us = (case us of a # b # rest \<Rightarrow> if is_hex_unit a \<and> is_hex_unit b then Some (unit_value a * 16 + unit_value b, rest) else None | _ \<Rightarrow> None)"

definition percent :: "16 word" where "percent = hd (js ''%'')"

text \<open>\<open>continuations n\<close>: \<open>n\<close> escaped continuation bytes, folded into the code point.\<close>

fun continuations :: "nat \<Rightarrow> int \<Rightarrow> utf16 \<Rightarrow> (int \<times> utf16) option" where
  "continuations 0 cp us = Some (cp, us)"
| "continuations (Suc n) cp [] = None"
| "continuations (Suc n) cp (u # us) = (if u \<noteq> percent then None else case hex_pair us of
     None \<Rightarrow> None
   | Some (b, rest) \<Rightarrow> if b div 64 \<noteq> 2 then None else continuations n (cp * 64 + b mod 64) rest)"

definition escaped_char :: "int \<Rightarrow> utf16 \<Rightarrow> (utf16 \<times> utf16) option" where
  "escaped_char b rest =
     (if b < 0x80 then Some ([word_of_int b], rest)
      else let (n, cp, least) = (if 0xC0 \<le> b \<and> b < 0xE0 then (1, b - 0xC0, 0x80) else if 0xE0 \<le> b \<and> b < 0xF0 then (2, b - 0xE0, 0x800)
          else if 0xF0 \<le> b \<and> b < 0xF8 then (3, b - 0xF0, 0x10000) else (0, 0, 1)) in
        if n = 0 then None
        else case continuations n cp rest of
          None \<Rightarrow> None
        | Some (c, rest') \<Rightarrow> if c < least \<or> 0x10FFFF < c \<or> 0xD800 \<le> c \<and> c < 0xE000 then None else Some (utf16_of c, rest'))"

lemma hex_pair_shorter: "hex_pair us = Some (b, rest) \<Longrightarrow> length rest < length us"
  by (auto simp: hex_pair_def split: list.splits if_splits)

lemma continuations_shorter: "continuations n cp us = Some (c, rest) \<Longrightarrow> length rest \<le> length us"
proof (induction n cp us rule: continuations.induct)
  case (3 n cp u us)
  then show ?case by (fastforce split: if_splits option.splits prod.splits dest: hex_pair_shorter)
qed auto

lemma escaped_shorter: "escaped_char b us = Some (c, rest) \<Longrightarrow> length rest \<le> length us"
  by (auto simp: escaped_char_def Let_def split: if_splits option.splits prod.splits dest: continuations_shorter)

function decodeURIComponent :: "utf16 \<Rightarrow> utf16 option" where
  "decodeURIComponent [] = Some []"
| "decodeURIComponent (u # us) =
     (if u \<noteq> percent then map_option (\<lambda>d. u # d) (decodeURIComponent us)
      else case hex_pair us of
        None \<Rightarrow> None
      | Some (b, rest) \<Rightarrow> (case escaped_char b rest of
          None \<Rightarrow> None
        | Some (c, rest') \<Rightarrow> map_option (\<lambda>d. c @ d) (decodeURIComponent rest')))"
  by pat_completeness auto

termination
  by (relation "measure length") (auto dest!: hex_pair_shorter escaped_shorter)

section \<open>Checks\<close>

definition slash :: "16 word" where "slash = hd (js ''/'')"
definition backslash :: "16 word" where "backslash = 0x5C"

definition assertKey :: "utf16 \<Rightarrow> string \<Rightarrow> js_error + unit" where
  "assertKey v message = (case decodeURIComponent v of
     None \<Rightarrow> Inl (Caisson PARAMS_INVALID message)
   | Some decoded \<Rightarrow>
       if starts_with [slash] v \<or> starts_with [slash] decoded \<or> backslash \<in> set v \<or> backslash \<in> set decoded
         \<or> list_ex (\<lambda>part. part = js ''.'' \<or> part = js ''..'') (split_on slash decoded)
       then Inl (Caisson PARAMS_INVALID message) else Inr ())"

definition allowlisted :: "utf16 \<Rightarrow> utf16 \<Rightarrow> s3_entry list \<Rightarrow> bool" where
  "allowlisted bucket key allowlist \<longleftrightarrow> list_ex (\<lambda>e. s3_bucket e = bucket \<and> starts_with (s3_prefix e) key) allowlist"

definition assertKeyAllowed :: "utf16 \<Rightarrow> utf16 \<Rightarrow> s3_entry list \<Rightarrow> js_error + unit" where
  "assertKeyAllowed bucket key allowlist = (case assertKey key ''S3 key is invalid'' of
     Inl e \<Rightarrow> Inl e
   | Inr _ \<Rightarrow> if \<not> allowlisted bucket key allowlist then Inl (Caisson SCOPE_DENIED ''S3 bucket or key is not allowlisted'') else Inr ())"

definition assertPrefixAllowed :: "utf16 \<Rightarrow> utf16 \<Rightarrow> s3_entry list \<Rightarrow> js_error + unit" where
  "assertPrefixAllowed bucket pre allowlist = (case assertKey pre ''S3 prefix is invalid'' of
     Inl e \<Rightarrow> Inl e
   | Inr _ \<Rightarrow> if \<not> allowlisted bucket pre allowlist then Inl (Caisson SCOPE_DENIED ''S3 bucket or prefix is not allowlisted'') else Inr ())"

text \<open>The constructor; \<open>protocol\<close> is that of the parsed endpoint, none when it is no URL.\<close>

definition s3_assertConfig :: "(utf16 \<Rightarrow> url option) \<Rightarrow> s3_config option \<Rightarrow> js_error + unit" where
  "s3_assertConfig parse_url config = (case config of
     None \<Rightarrow> Inl (Caisson PARAMS_INVALID ''S3 adapter configuration is required'')
   | Some c \<Rightarrow>
       if (case parse_url (s3_endpoint c) of None \<Rightarrow> True | Some u \<Rightarrow> url_protocol u \<noteq> js ''http:'' \<and> url_protocol u \<noteq> js ''https:'')
       then Inl (Caisson PARAMS_INVALID ''S3 endpoint is invalid'')
       else if s3_region c = [] \<or> s3_allowlist c = [] then Inl (Caisson PARAMS_INVALID ''S3 adapter configuration is invalid'')
       else if \<not> list_all positive_safe [s3_timeoutMs c, s3_objectSizeBytes c, s3_listLimit c]
       then Inl (Caisson PARAMS_INVALID ''S3 adapter limits must be positive integers'')
       else if \<not> list_all (\<lambda>e. assertKey (s3_prefix e) ''S3 allowlist prefix is invalid'' = Inr ()) (s3_allowlist c)
       then Inl (Caisson PARAMS_INVALID ''S3 allowlist prefix is invalid'') else Inr ())"

definition assertS3Credentials :: "credentials \<Rightarrow> js_error + unit" where
  "assertS3Credentials c = (case c of S3Credentials _ _ \<Rightarrow> Inr () | _ \<Rightarrow> Inl (Caisson SECRET_UNAVAILABLE ''S3 credentials unavailable''))"

definition parseParams :: "(schema \<Rightarrow> json \<Rightarrow> json option) \<Rightarrow> schema \<Rightarrow> json \<Rightarrow> js_error + json" where
  "parseParams parse s params = (case parse s params of None \<Rightarrow> Inl (Caisson PARAMS_INVALID ''invalid S3 request parameters'') | Some data \<Rightarrow> Inr data)"

section \<open>Commands\<close>

datatype s3_command = GetObject utf16 utf16 | PutObject utf16 utf16 "byte list" "utf16 option" | DeleteObject utf16 utf16 | ListObjects utf16 utf16 int

record s3_client =
  sl_endpoint :: utf16
  sl_region :: utf16
  sl_forcePathStyle :: bool
  sl_accessKeyId :: utf16
  sl_secretAccessKey :: utf16

text \<open>A failure of the client: an error of this program, an \<^verbatim>\<open>AbortError\<close> or \<^verbatim>\<open>TimeoutError\<close>, or any other.\<close>

datatype s3_failure = S3Thrown js_error | S3Aborted | S3Other

datatype s3_body = NoBody | BodyChunks "byte list list" "s3_failure option"

record s3_response =
  sr3_body :: s3_body
  sr3_contentType :: "utf16 option"
  sr3_isTruncated :: bool
  sr3_contents :: "utf16 option list"

record s3_world =
  s3w_clients :: "(utf16 \<times> s3_client) list"
  s3w_sent :: "(s3_client \<times> s3_command \<times> int) list"

definition serviceError :: "s3_failure \<Rightarrow> js_error" where
  "serviceError f = (case f of
     S3Thrown e \<Rightarrow> if is_caisson e then e else Caisson SERVICE_ERROR ''S3 request failed''
   | S3Aborted \<Rightarrow> Caisson SERVICE_TIMEOUT ''S3 request timed out''
   | S3Other \<Rightarrow> Caisson SERVICE_ERROR ''S3 request failed'')"

definition s3_client_for :: "s3_config \<Rightarrow> credentials \<Rightarrow> s3_world \<Rightarrow> s3_client \<times> s3_world" where
  "s3_client_for config c w = (let key = reveal (sc_accessKeyId c) @ js ''@'' @ s3_endpoint config in
     case map_of (s3w_clients w) key of
       Some existing \<Rightarrow> (existing, w)
     | None \<Rightarrow> (let cl = \<lparr>sl_endpoint = s3_endpoint config, sl_region = s3_region config, sl_forcePathStyle = s3_forcePathStyle config,
           sl_accessKeyId = reveal (sc_accessKeyId c), sl_secretAccessKey = reveal (sc_secretAccessKey c)\<rparr> in
         (cl, w\<lparr>s3w_clients := s3w_clients w @ [(key, cl)]\<rparr>)))"

definition timeoutSignal :: "int \<Rightarrow> int \<Rightarrow> js_error + int" where
  "timeoutSignal requestTimeoutMs adapterTimeoutMs =
     (if \<not> positive_safe requestTimeoutMs then Inl (Caisson SERVICE_TIMEOUT ''S3 timeout must be positive'') else Inr (min requestTimeoutMs adapterTimeoutMs))"

text \<open>\<^verbatim>\<open>this.#client(credentials).send(command, { abortSignal })\<close>\<close>

definition s3_send :: "(nat \<Rightarrow> s3_failure + s3_response) \<Rightarrow> s3_config \<Rightarrow> credentials \<Rightarrow> int \<Rightarrow> s3_command \<Rightarrow> (s3_world, s3_response) proc" where
  "s3_send answer config c timeoutMs command w = (case s3_client_for config c w of (cl, w1) \<Rightarrow>
     (case timeoutSignal timeoutMs (s3_timeoutMs config) of
        Inl e \<Rightarrow> (Inl (serviceError (S3Thrown e)), w1)
      | Inr t \<Rightarrow> (map_sum serviceError id (answer (length (s3w_sent w1))), w1\<lparr>s3w_sent := s3w_sent w1 @ [(cl, command, t)]\<rparr>)))"

text \<open>\<open>read_chunks\<close>: the loop of \<^verbatim>\<open>readBody\<close>, with what was read so far.\<close>

fun read_chunks :: "int \<Rightarrow> byte list \<Rightarrow> byte list list \<Rightarrow> s3_failure option \<Rightarrow> s3_failure + byte list" where
  "read_chunks maximum got [] failure = (case failure of None \<Rightarrow> Inr got | Some f \<Rightarrow> Inl f)"
| "read_chunks maximum got (chunk # chunks) failure =
     (if maximum < int (length (got @ chunk)) then Inl (S3Thrown (Caisson SERVICE_ERROR ''S3 object exceeds configured size limit''))
      else read_chunks maximum (got @ chunk) chunks failure)"

definition readBody :: "s3_body \<Rightarrow> int \<Rightarrow> s3_failure + byte list" where
  "readBody body maximum = (case body of
     NoBody \<Rightarrow> Inl (S3Thrown (Caisson SERVICE_ERROR ''S3 response body is unavailable''))
   | BodyChunks chunks failure \<Rightarrow> read_chunks maximum [] chunks failure)"

record s3_object =
  so_content :: binary_content
  so_contentType :: "utf16 option"
  so_size :: int

section \<open>The four methods\<close>

definition s3_checked :: "(schema \<Rightarrow> json \<Rightarrow> json option) \<Rightarrow> schema \<Rightarrow> credentials \<Rightarrow> json \<Rightarrow> (s3_world, json) proc" where
  "s3_checked parse s c params = bnd (of_result (parseParams parse s params)) (\<lambda>data. seq (of_result (assertS3Credentials c)) (ret data))"

definition getObject :: "(schema \<Rightarrow> json \<Rightarrow> json option) \<Rightarrow> (nat \<Rightarrow> s3_failure + s3_response) \<Rightarrow> s3_config \<Rightarrow> credentials \<Rightarrow> json \<Rightarrow> int
    \<Rightarrow> (s3_world, s3_object) proc" where
  "getObject parse answer config c params timeoutMs = bnd (s3_checked parse BucketKeySchema c params) (\<lambda>data.
     seq (of_result (assertKeyAllowed (text_field data ''bucket'') (text_field data ''key'') (s3_allowlist config)))
     (bnd (s3_send answer config c timeoutMs (GetObject (text_field data ''bucket'') (text_field data ''key''))) (\<lambda>response.
      bnd (of_result (map_sum serviceError id (readBody (sr3_body response) (s3_objectSizeBytes config)))) (\<lambda>bytes.
      ret \<lparr>so_content = encodeContent bytes (sr3_contentType response), so_contentType = sr3_contentType response, so_size = int (length bytes)\<rparr>))))"

definition content_type_of :: "json \<Rightarrow> utf16 option" where
  "content_type_of data = (case field data ''contentType'' of JStr s \<Rightarrow> Some s | _ \<Rightarrow> None)"

definition putObject :: "(schema \<Rightarrow> json \<Rightarrow> json option) \<Rightarrow> (nat \<Rightarrow> s3_failure + s3_response) \<Rightarrow> s3_config \<Rightarrow> credentials \<Rightarrow> json \<Rightarrow> int
    \<Rightarrow> (s3_world, unit) proc" where
  "putObject parse answer config c params timeoutMs = bnd (s3_checked parse PutObjectSchema c params) (\<lambda>data.
     seq (of_result (assertKeyAllowed (text_field data ''bucket'') (text_field data ''key'') (s3_allowlist config)))
     (bnd (of_result (decodeContent (content_of (field data ''body'')) (s3_objectSizeBytes config))) (\<lambda>body.
      seq (s3_send answer config c timeoutMs (PutObject (text_field data ''bucket'') (text_field data ''key'') body (content_type_of data))) (ret ()))))"

definition deleteObject :: "(schema \<Rightarrow> json \<Rightarrow> json option) \<Rightarrow> (nat \<Rightarrow> s3_failure + s3_response) \<Rightarrow> s3_config \<Rightarrow> credentials \<Rightarrow> json \<Rightarrow> int
    \<Rightarrow> (s3_world, unit) proc" where
  "deleteObject parse answer config c params timeoutMs = bnd (s3_checked parse BucketKeySchema c params) (\<lambda>data.
     seq (of_result (assertKeyAllowed (text_field data ''bucket'') (text_field data ''key'') (s3_allowlist config)))
     (seq (s3_send answer config c timeoutMs (DeleteObject (text_field data ''bucket'') (text_field data ''key''))) (ret ())))"

definition listed_keys :: "s3_response \<Rightarrow> utf16 list" where
  "listed_keys response = concat (map (\<lambda>k. case k of None \<Rightarrow> [] | Some s \<Rightarrow> [s]) (sr3_contents response))"

definition keys_json :: "utf16 list \<Rightarrow> json" where
  "keys_json ks = JObj [(js ''keys'', JArr (map JStr ks))]"

definition listObjects :: "(schema \<Rightarrow> json \<Rightarrow> json option) \<Rightarrow> (nat \<Rightarrow> s3_failure + s3_response) \<Rightarrow> (json \<Rightarrow> utf16) \<Rightarrow> s3_config \<Rightarrow> credentials \<Rightarrow> json \<Rightarrow> int
    \<Rightarrow> (s3_world, utf16 list) proc" where
  "listObjects parse answer stringify config c params timeoutMs = bnd (s3_checked parse ListObjectsSchema c params) (\<lambda>data.
     seq (of_result (assertPrefixAllowed (text_field data ''bucket'') (text_field data ''prefix'') (s3_allowlist config)))
     (bnd (s3_send answer config c timeoutMs (ListObjects (text_field data ''bucket'') (text_field data ''prefix'') (s3_listLimit config))) (\<lambda>response.
      if sr3_isTruncated response then throw (Caisson SERVICE_ERROR ''S3 list exceeds configured limit'')
      else if s3_objectSizeBytes config < int (byteLength (stringify (keys_json (listed_keys response))))
      then throw (Caisson SERVICE_ERROR ''S3 list response exceeds configured size limit'')
      else ret (listed_keys response))))"

text \<open>\<^verbatim>\<open>destroy()\<close>\<close>

definition s3_destroy :: "(s3_world, unit) proc" where
  "s3_destroy = modify (\<lambda>w. w\<lparr>s3w_clients := []\<rparr>)"

section \<open>Which commands are sent\<close>

text \<open>A key that neither as it is nor decoded is absolute, has a backslash or has a segment that names a directory above.\<close>

definition safe_key :: "utf16 \<Rightarrow> bool" where
  "safe_key v \<longleftrightarrow> (case decodeURIComponent v of None \<Rightarrow> False | Some d \<Rightarrow>
     \<not> starts_with [slash] v \<and> \<not> starts_with [slash] d \<and> backslash \<notin> set v \<union> set d \<and> js ''.'' \<notin> set (split_on slash d) \<and> js ''..'' \<notin> set (split_on slash d))"

datatype s3_op = S3Get | S3Put | S3Delete | S3List

fun permitted_command :: "s3_config \<Rightarrow> s3_op \<Rightarrow> s3_command \<Rightarrow> bool" where
  "permitted_command config op (GetObject b k) \<longleftrightarrow> op = S3Get \<and> safe_key k \<and> allowlisted b k (s3_allowlist config)"
| "permitted_command config op (PutObject b k body ct) \<longleftrightarrow> op = S3Put \<and> safe_key k \<and> allowlisted b k (s3_allowlist config)
     \<and> int (length body) \<le> s3_objectSizeBytes config"
| "permitted_command config op (DeleteObject b k) \<longleftrightarrow> op = S3Delete \<and> safe_key k \<and> allowlisted b k (s3_allowlist config)"
| "permitted_command config op (ListObjects b p n) \<longleftrightarrow> op = S3List \<and> safe_key p \<and> allowlisted b p (s3_allowlist config) \<and> n = s3_listLimit config"

fun run_s3 :: "(schema \<Rightarrow> json \<Rightarrow> json option) \<Rightarrow> (nat \<Rightarrow> s3_failure + s3_response) \<Rightarrow> (json \<Rightarrow> utf16) \<Rightarrow> s3_config \<Rightarrow> credentials \<Rightarrow> json \<Rightarrow> int
    \<Rightarrow> s3_op \<Rightarrow> s3_world \<Rightarrow> s3_world" where
  "run_s3 parse answer stringify config c params timeoutMs S3Get w = snd (getObject parse answer config c params timeoutMs w)"
| "run_s3 parse answer stringify config c params timeoutMs S3Put w = snd (putObject parse answer config c params timeoutMs w)"
| "run_s3 parse answer stringify config c params timeoutMs S3Delete w = snd (deleteObject parse answer config c params timeoutMs w)"
| "run_s3 parse answer stringify config c params timeoutMs S3List w = snd (listObjects parse answer stringify config c params timeoutMs w)"

lemma assertKey_safe: "assertKey v message = Inr () \<Longrightarrow> safe_key v"
  by (auto simp: assertKey_def safe_key_def list_ex_iff split: option.splits if_splits)

lemma key_allowed: "assertKeyAllowed b k allowlist = Inr x \<Longrightarrow> safe_key k \<and> allowlisted b k allowlist"
  by (auto simp: assertKeyAllowed_def split: sum.splits if_splits intro: assertKey_safe)

lemma prefix_allowed: "assertPrefixAllowed b k allowlist = Inr x \<Longrightarrow> safe_key k \<and> allowlisted b k allowlist"
  by (auto simp: assertPrefixAllowed_def split: sum.splits if_splits intro: assertKey_safe)

text \<open>At most one command was sent, and it is \<open>p\<close>.\<close>

definition sent_at_most :: "s3_config \<Rightarrow> (s3_command \<Rightarrow> bool) \<Rightarrow> s3_world \<Rightarrow> s3_world \<Rightarrow> bool" where
  "sent_at_most config p w w' \<longleftrightarrow> s3w_sent w' = s3w_sent w
     \<or> (\<exists>cl command t. s3w_sent w' = s3w_sent w @ [(cl, command, t)] \<and> p command \<and> t \<le> s3_timeoutMs config)"

lemma client_for_sent: "s3_client_for config c w = (cl, w') \<Longrightarrow> s3w_sent w' = s3w_sent w"
  by (auto simp: s3_client_for_def Let_def split: option.splits)

lemma send_sends: "p command \<Longrightarrow> sent_at_most config p w (snd (s3_send answer config c timeoutMs command w))"
  by (auto simp: s3_send_def sent_at_most_def timeoutSignal_def split: prod.splits sum.splits if_splits dest: client_for_sent)

lemma checked_still: "snd (s3_checked parse s c params w) = w"
  by (simp add: s3_checked_def proc_defs split: sum.splits)

text \<open>What follows the one send does not send.\<close>

lemma sent_bnd:
  assumes "sent_at_most config p w (snd (m w))" "\<And>x w1. snd (f x w1) = w1"
  shows "sent_at_most config p w (snd (bnd m f w))"
  using assms by (auto simp: bnd_def split: prod.splits sum.splits)

lemma sent_after:
  assumes "\<And>w1. snd (m w1) = w1" "\<And>x. fst (m w) = Inr x \<Longrightarrow> sent_at_most config p w (snd (f x w))"
  shows "sent_at_most config p w (snd (bnd m f w))"
proof -
  obtain r where m: "m w = (r, w)" using assms(1) [of w] by (metis prod.collapse)
  then show ?thesis using assms(2) by (cases r) (auto simp: bnd_def sent_at_most_def)
qed

lemma still: "snd (of_result r w) = w" "snd (ret x w) = w" "snd (throw e w) = w" "snd (bnd (of_result r) (\<lambda>x. ret (g x)) w) = w"
  by (simp_all add: proc_defs split: sum.splits)

text \<open>(C33) The adapter sends at most one command per call and none the operator did not allow: of the kind of the method called, for a bucket
  and key (or prefix) that an allowlist entry covers, with no way around the prefix (absolute, backslash or parent segments, escaped or
  not), with a body or number of keys within the limits and a bounded timeout, whatever the parameters are and however the
  call ends.\<close>

theorem s3_commands_confined:
  "sent_at_most config (permitted_command config op) w (run_s3 parse answer stringify config c params timeoutMs op w)"
proof (cases op)
  case S3Get
  show ?thesis unfolding S3Get run_s3.simps getObject_def
    by (intro sent_after checked_still still sent_bnd send_sends) (auto simp: of_result_def dest: key_allowed)
next
  case S3Put
  show ?thesis unfolding S3Put run_s3.simps putObject_def
    by (intro sent_after checked_still still sent_bnd send_sends)
      (auto simp: of_result_def decodeContent_def dest: key_allowed split: sum.splits if_splits)
next
  case S3Delete
  show ?thesis unfolding S3Delete run_s3.simps deleteObject_def
    by (intro sent_after checked_still still sent_bnd send_sends) (auto simp: of_result_def dest: key_allowed)
next
  case S3List
  show ?thesis unfolding S3List run_s3.simps listObjects_def
    by (intro sent_after checked_still still sent_bnd send_sends) (auto simp: of_result_def throw_def ret_def dest: prefix_allowed)
qed

lemma read_chunks_bounded: "int (length got) \<le> maximum \<Longrightarrow> read_chunks maximum got chunks failure = Inr bytes
    \<Longrightarrow> bytes = got @ concat chunks \<and> int (length bytes) \<le> maximum \<and> failure = None"
proof (induction chunks arbitrary: got)
  case (Cons chunk chunks)
  from Cons.prems(2) have "int (length (got @ chunk)) \<le> maximum" "read_chunks maximum (got @ chunk) chunks failure = Inr bytes"
    by (simp_all split: if_splits)
  from Cons.IH [OF this] show ?case by auto
qed (simp split: option.splits)

text \<open>An object is returned whole and within the limit, or not at all.\<close>

lemma object_bounded:
  assumes "getObject parse answer config c params timeoutMs w = (Inr obj, w')" "0 \<le> s3_objectSizeBytes config"
  shows "\<exists>chunks ct. so_content obj = encodeContent (concat chunks) ct \<and> so_size obj = int (length (concat chunks)) \<and> so_size obj \<le> s3_objectSizeBytes config"
proof -
  have inr: "map_sum serviceError id v = Inr b \<Longrightarrow> v = Inr b" for v :: "s3_failure + byte list" and b by (cases v) simp_all
  from assms(1) obtain response :: s3_response and bytes where body: "readBody (sr3_body response) (s3_objectSizeBytes config) = Inr bytes"
    and obj: "obj = \<lparr>so_content = encodeContent bytes (sr3_contentType response), so_contentType = sr3_contentType response, so_size = int (length bytes)\<rparr>"
    unfolding getObject_def
    by (elim bndE) (auto simp: of_result_def ret_def dest!: inr)
  from body obtain chunks failure where "read_chunks (s3_objectSizeBytes config) [] chunks failure = Inr bytes"
    by (auto simp: readBody_def split: s3_body.splits)
  with read_chunks_bounded [of "[]" "s3_objectSizeBytes config"] assms(2) have "bytes = concat chunks \<and> int (length bytes) \<le> s3_objectSizeBytes config" by auto
  with obj show ?thesis by auto
qed

end
