(* ===== verification/Node_Files.thy ===== *)
theory Node_Files
  imports Session_Snapshots Firecracker_Driver "HOL-Library.Sublist"
begin

text \<open>
  What the two snapshot stores of the control plane use of Node: \<^verbatim>\<open>node:path\<close> on absolute POSIX paths and \<^verbatim>\<open>node:fs/promises\<close>. A
  path is resolved to its segments; the file system is the list of its nodes. A call may fail without effect, or take effect and
  still fail, as the world's oracle says; a recursive removal that fails has removed some part of the tree. Other operations run
  at every \<^verbatim>\<open>await\<close>. The object store is a parameter that answers each request from the requests before it.
\<close>

section \<open>Paths\<close>

definition path_step :: "string list \<Rightarrow> string \<Rightarrow> string list" where
  "path_step acc s = (if s = '''' \<or> s = ''.'' then acc else if s = ''..'' then butlast acc else acc @ [s])"

definition resolve_path :: "string \<Rightarrow> string list" where
  "resolve_path p = foldl path_step [] (split_on (CHR ''/'') p)"

fun slashed :: "string list \<Rightarrow> string" where
  "slashed [] = ''''"
| "slashed [s] = s"
| "slashed (s # ss) = s @ ''/'' @ slashed ss"

definition path_join :: "string list \<Rightarrow> string" where
  "path_join ps = ''/'' @ slashed (resolve_path (slashed ps))"

text \<open>\<^verbatim>\<open>dirname\<close>, of a path with a slash in it.\<close>

definition dirname :: "string \<Rightarrow> string" where
  "dirname p = before_last (CHR ''/'') p"

fun relative :: "string list \<Rightarrow> string list \<Rightarrow> string list" where
  "relative (a # as) (b # bs) = (if a = b then relative as bs else replicate (length (a # as)) ''..'' @ b # bs)"
| "relative as bs = replicate (length as) ''..'' @ bs"

definition isPathInside :: "string \<Rightarrow> string \<Rightarrow> bool" where
  "isPathInside path parent \<longleftrightarrow> (let child = slashed (relative (resolve_path parent) (resolve_path path)) in
     child \<noteq> '''' \<and> take 2 child \<noteq> ''..'' \<and> \<not> contains_text ''../'' child)"

definition plain_segment :: "string \<Rightarrow> bool" where
  "plain_segment s \<longleftrightarrow> s \<noteq> '''' \<and> s \<noteq> ''.'' \<and> s \<noteq> ''..'' \<and> CHR ''/'' \<notin> set s"

text \<open>An equation that evaluates each rest once.\<close>

lemma split_on_code [code]:
  "split_on c [] = [[]]"
  "split_on c (x # xs) = (case split_on c xs of [] \<Rightarrow> [] | y # ys \<Rightarrow> if x = c then [] # y # ys else (x # y) # ys)"
  using split_on_nonempty [of c xs] by (auto split: list.splits)

lemma split_plain: "CHR ''/'' \<notin> set s \<Longrightarrow> split_on (CHR ''/'') s = [s]"
  by (induction s) auto

lemma split_slash: "split_on c (a @ c # b) = split_on c a @ split_on c b"
  by (induction a) (auto simp: split_on_nonempty)

lemma resolve_append: "resolve_path (a @ ''/'' @ b) = foldl path_step (resolve_path a) (split_on (CHR ''/'') b)"
  by (simp add: resolve_path_def split_slash)

lemma step_plain: "plain_segment s \<Longrightarrow> path_step acc s = acc @ [s]"
  by (simp add: path_step_def plain_segment_def)

lemma resolve_segment: "plain_segment s \<Longrightarrow> resolve_path (a @ ''/'' @ s) = resolve_path a @ [s]"
  by (subst resolve_append) (simp add: split_plain step_plain plain_segment_def)

lemma slashed_snoc: "ss \<noteq> [] \<Longrightarrow> slashed (ss @ [s]) = slashed ss @ ''/'' @ s"
  by (induction ss rule: slashed.induct) auto

lemma resolve_slashed: "list_all plain_segment ss \<Longrightarrow> resolve_path (''/'' @ slashed ss) = ss"
proof (induction ss rule: rev_induct)
  case Nil
  show ?case by (simp add: resolve_path_def path_step_def)
next
  case (snoc s ss)
  show ?case
  proof (cases "ss = []")
    case True
    with snoc.prems resolve_segment [of s "''''"] show ?thesis by (simp add: resolve_path_def path_step_def)
  next
    case False
    with snoc resolve_segment [of s "''/'' @ slashed ss"] show ?thesis by (simp add: slashed_snoc)
  qed
qed

lemma split_no_sep: "s \<in> set (split_on c p) \<Longrightarrow> c \<notin> set s"
proof (induction p arbitrary: s)
  case (Cons x p)
  have "split_on c p = hd (split_on c p) # tl (split_on c p)" by (simp add: split_on_nonempty)
  then have "hd (split_on c p) \<in> set (split_on c p)" "set (tl (split_on c p)) \<subseteq> set (split_on c p)"
    by (metis list.set_intros(1), metis list.set_intros(2) subsetI)
  with Cons show ?case by (auto split: if_splits)
qed simp

lemma resolve_plain: "list_all plain_segment (resolve_path p)"
proof -
  have "list_all plain_segment (foldl path_step acc ss)"
    if "list_all plain_segment acc" "\<forall>s \<in> set ss. CHR ''/'' \<notin> set s" for acc ss
    using that
  proof (induction ss arbitrary: acc)
    case (Cons s ss)
    have "list_all plain_segment (path_step acc s)"
      using Cons.prems by (auto simp: path_step_def plain_segment_def list_all_iff dest: in_set_butlastD)
    with Cons show ?case by simp
  qed simp
  from this [of "[]" "split_on (CHR ''/'') p"] show ?thesis unfolding resolve_path_def using split_no_sep [of _ "CHR ''/''" p] by simp
qed

lemma resolve_join: "resolve_path (path_join ps) = resolve_path (slashed ps)"
  unfolding path_join_def by (rule resolve_slashed [OF resolve_plain])

lemma resolve_join2: "plain_segment a \<Longrightarrow> plain_segment b \<Longrightarrow> resolve_path (path_join [d, a, b]) = resolve_path d @ [a, b]"
  using resolve_segment [of b "d @ ''/'' @ a"] resolve_segment [of a d] by (simp add: resolve_join)

lemma resolve_join1: "plain_segment a \<Longrightarrow> resolve_path (path_join [d, a]) = resolve_path d @ [a]"
  using resolve_segment [of a d] by (simp add: resolve_join)

text \<open>A text with a path in it: the last segment gets longer.\<close>

lemma resolve_longer:
  assumes "plain_segment s" "plain_segment (s @ t)" "CHR ''/'' \<notin> set t"
  shows "resolve_path (path_join [d, a, s] @ t) = resolve_path (d @ ''/'' @ a) @ [s @ t]"
proof -
  let ?d = "resolve_path (d @ ''/'' @ a)"
  have r: "resolve_path (slashed [d, a, s]) = ?d @ [s]" using resolve_segment [OF assms(1), of "d @ ''/'' @ a"] by simp
  have "path_join [d, a, s] @ t = (''/'' @ slashed ?d) @ (if ?d = [] then [] else ''/'') @ (s @ t)"
    unfolding path_join_def r by (cases "?d = []") (auto simp: slashed_snoc)
  moreover have "resolve_path (\<dots>) = ?d @ [s @ t]"
  proof (cases "?d = []")
    case True
    then show ?thesis using resolve_segment [OF assms(2), of "''''"] by (simp add: resolve_path_def path_step_def)
  next
    case False
    then show ?thesis using resolve_segment [OF assms(2), of "''/'' @ slashed ?d"] resolve_slashed [OF resolve_plain] by simp
  qed
  ultimately show ?thesis by simp
qed

lemma relative_prefix: "relative a b = (if prefix a b then drop (length a) b else relative a b)"
  by (induction a b rule: relative.induct) auto

lemma relative_outside: "\<not> prefix a b \<Longrightarrow> \<exists>rest. relative a b = ''..'' # rest"
proof (induction a arbitrary: b)
  case (Cons x a)
  then show ?case by (cases b) auto
qed simp

lemma slashed_first: "take (length s) (slashed (s # ss)) = s"
  by (cases ss) auto

text \<open>A path that passes the test is below the parent.\<close>

lemma inside_below:
  assumes "isPathInside path parent"
  shows "strict_prefix (resolve_path parent) (resolve_path path)"
proof -
  let ?a = "resolve_path parent" and ?b = "resolve_path path"
  have child: "slashed (relative ?a ?b) \<noteq> ''''" "take 2 (slashed (relative ?a ?b)) \<noteq> ''..''"
    using assms by (auto simp: isPathInside_def Let_def)
  have p: "prefix ?a ?b"
  proof (rule ccontr)
    assume "\<not> prefix ?a ?b"
    then obtain rest where "relative ?a ?b = ''..'' # rest" using relative_outside by blast
    with slashed_first [of "''..''" rest] child(2) show False by (simp add: numeral_2_eq_2)
  qed
  with child(1) relative_prefix [of ?a ?b] have "?a \<noteq> ?b" by auto
  with p show ?thesis by (simp add: strict_prefix_def)
qed

text \<open>A suffix without slash keeps a path below a directory it was strictly below.\<close>

lemma below_longer:
  assumes "strict_prefix q (resolve_path p)" "CHR ''/'' \<notin> set t" "\<And>s. plain_segment (s @ t) \<or> CHR ''/'' \<in> set s"
  shows "prefix q (resolve_path (p @ t))"
proof -
  let ?a = "before_last (CHR ''/'') p" and ?c = "after_last (CHR ''/'') p"
  show ?thesis
  proof (cases "CHR ''/'' \<in> set p")
    case False
    then have "length (resolve_path p) \<le> 1" by (simp add: resolve_path_def split_plain path_step_def)
    moreover have "length q < length (resolve_path p)" using assms(1) by (rule prefix_length_less)
    ultimately have "q = []" by (cases q) auto
    then show ?thesis by simp
  next
    case True
    then obtain a c where ac: "p = a @ ''/'' @ c" "CHR ''/'' \<notin> set c" by (metis append_Cons append_Nil split_list_last)
    have pl: "plain_segment (c @ t)" using assms(3) ac(2) by blast
    have "resolve_path (p @ t) = resolve_path a @ [c @ t]" using resolve_segment [OF pl, of a] ac(1) by simp
    moreover have "prefix q (resolve_path a)"
    proof -
      have "resolve_path p = path_step (resolve_path a) c" unfolding ac(1) resolve_append by (simp add: split_plain [OF ac(2)])
      moreover have "prefix (butlast l) l" for l :: "string list" by (rule prefixeq_butlast)
      ultimately show ?thesis using assms(1)
        by (auto simp: path_step_def strict_prefix_def split: if_splits dest: prefix_order.trans)
    qed
    ultimately show ?thesis by (simp add: prefix_snocD)
  qed
qed

section \<open>State and environment of a store\<close>

datatype fs_node = Dir | File "byte list"

type_synonym fs_path = "string list"

datatype store_request =
    CreateBucket string
  | PutRequest string string "byte list"
  | HeadRequest string string
  | GetRequest string string "string option"
  | DeleteRequest string string

text \<open>The answer to a request: refused with an error of some name, or what the request is for.\<close>

datatype store_answer = Refused string | Done | PutDone "string option" | HeadDone "string option" | GetDone "byte list option"

record store_world = world +
  st_nodes :: "(fs_path \<times> fs_node) list"
  st_requests :: "store_request list"
  st_pinned :: "string list"
  st_inUse :: "string list"
  st_rootfs :: "(string \<times> string) list"

record manifest_key =
  mk_keyId :: string
  mk_bytes :: "byte list"

record store_env =
  ve_bucket :: string
  ve_cacheDirectory :: string
  ve_cacheMaxBytes :: int
  ve_active :: "nat \<Rightarrow> js_error + manifest_key"
  ve_resolveKey :: "string \<Rightarrow> nat \<Rightarrow> js_error + manifest_key"
  ve_crypto :: crypto_env
  ve_s3 :: "store_request list \<Rightarrow> store_request \<Rightarrow> store_answer"
  ve_parse :: "schema \<Rightarrow> json \<Rightarrow> json option"
  ve_stringify :: "json \<Rightarrow> utf16"
  ve_jparse :: "utf16 \<Rightarrow> json option"
  ve_sha256 :: "byte list \<Rightarrow> string"
  ve_hmac :: "byte list \<Rightarrow> byte list \<Rightarrow> string"
  ve_gzip :: "byte list \<Rightarrow> byte list"
  ve_gunzip :: "byte list \<Rightarrow> js_error + byte list"
  ve_iso :: "int \<Rightarrow> string"
  ve_uuid :: "nat \<Rightarrow> string"
  ve_mtime :: "string \<Rightarrow> nat \<Rightarrow> int"
  ve_removed :: "nat \<Rightarrow> fs_path \<Rightarrow> bool"
  ve_others :: "nat \<Rightarrow> store_world \<Rightarrow> store_world"

section \<open>Calls\<close>

text \<open>A call of the file system.\<close>

definition fs_call :: "store_env \<Rightarrow> ((fs_path \<times> fs_node) list \<Rightarrow> js_error + 'a \<times> (fs_path \<times> fs_node) list) \<Rightarrow> (store_world, 'a) proc" where
  "fs_call env f = pause (ve_others env) (\<lambda>w. case next_outcome w of (oc, w1) \<Rightarrow>
     if oc = Lost then (Inl ForeignError, w1)
     else case f (st_nodes w1) of
       Inl e \<Rightarrow> (Inl e, w1)
     | Inr (x, ns) \<Rightarrow> (if oc = Ok then Inr x else Inl ForeignError, w1\<lparr>st_nodes := ns\<rparr>))"

definition s3_call :: "store_env \<Rightarrow> store_request \<Rightarrow> (store_world, store_answer) proc" where
  "s3_call env rq = pause (ve_others env) (\<lambda>w. (Inr (ve_s3 env (st_requests w) rq), w\<lparr>st_requests := st_requests w @ [rq], calls := Suc (calls w)\<rparr>))"

definition key_call :: "store_env \<Rightarrow> (nat \<Rightarrow> js_error + manifest_key) \<Rightarrow> (store_world, manifest_key) proc" where
  "key_call env f = pause (ve_others env) (outside f)"

definition fresh_uuid :: "store_env \<Rightarrow> (store_world, string) proc" where
  "fresh_uuid env = gets (\<lambda>w. ve_uuid env (calls w))"

definition readFile :: "store_env \<Rightarrow> string \<Rightarrow> (store_world, byte list) proc" where
  "readFile env path = fs_call env (\<lambda>ns. case map_of ns (resolve_path path) of Some (File b) \<Rightarrow> Inr (b, ns) | _ \<Rightarrow> Inl ForeignError)"

definition fs_stat :: "store_env \<Rightarrow> string \<Rightarrow> (store_world, unit) proc" where
  "fs_stat env path = fs_call env (\<lambda>ns. case map_of ns (resolve_path path) of None \<Rightarrow> Inl ForeignError | Some _ \<Rightarrow> Inr ((), ns))"

text \<open>\<^verbatim>\<open>utimes\<close>: times of files are answered by an oracle, so that only the failure shows.\<close>

definition utimes :: "store_env \<Rightarrow> string \<Rightarrow> (store_world, unit) proc" where
  "utimes env path = fs_stat env path"

text \<open>\<^verbatim>\<open>mkdir(path, { recursive: true })\<close>\<close>

definition mkdir :: "store_env \<Rightarrow> string \<Rightarrow> (store_world, unit) proc" where
  "mkdir env path = fs_call env (\<lambda>ns. let all = map (\<lambda>k. take k (resolve_path path)) [0..<Suc (length (resolve_path path))] in
     if list_ex (\<lambda>q. case map_of ns q of Some (File _) \<Rightarrow> True | _ \<Rightarrow> False) all then Inl ForeignError
     else Inr ((), ns @ map (\<lambda>q. (q, Dir)) (filter (\<lambda>q. map_of ns q = None) all)))"

text \<open>\<^verbatim>\<open>writeFile\<close> with the flag \<^verbatim>\<open>wx\<close>: the file must not exist, its directory must.\<close>

definition writeFile :: "store_env \<Rightarrow> string \<Rightarrow> byte list \<Rightarrow> (store_world, unit) proc" where
  "writeFile env path bytes = fs_call env (\<lambda>ns. let p = resolve_path path in
     if map_of ns p \<noteq> None \<or> map_of ns (butlast p) \<noteq> Some Dir then Inl ForeignError else Inr ((), ns @ [(p, File bytes)]))"

definition copyFile :: "store_env \<Rightarrow> string \<Rightarrow> string \<Rightarrow> (store_world, unit) proc" where
  "copyFile env from to = fs_call env (\<lambda>ns. let p = resolve_path to in
     case map_of ns (resolve_path from) of
       Some (File b) \<Rightarrow> if map_of ns p = Some Dir \<or> map_of ns (butlast p) \<noteq> Some Dir then Inl ForeignError
         else Inr ((), filter (\<lambda>n. fst n \<noteq> p) ns @ [(p, File b)])
     | _ \<Rightarrow> Inl ForeignError)"

text \<open>\<^verbatim>\<open>rename\<close>: a directory replaces at most an empty directory, a file at most a file.\<close>

definition moved :: "fs_path \<Rightarrow> fs_path \<Rightarrow> fs_path \<times> fs_node \<Rightarrow> fs_path \<times> fs_node" where
  "moved a b n = (if prefix a (fst n) then (b @ drop (length a) (fst n), snd n) else n)"

definition fs_rename :: "store_env \<Rightarrow> string \<Rightarrow> string \<Rightarrow> (store_world, unit) proc" where
  "fs_rename env from to = fs_call env (\<lambda>ns. let a = resolve_path from; b = resolve_path to in
     case map_of ns a of
       None \<Rightarrow> Inl ForeignError
     | Some v \<Rightarrow>
         if map_of ns (butlast b) \<noteq> Some Dir \<or> v = Dir \<and> list_ex (\<lambda>n. prefix b (fst n) \<and> n \<noteq> (b, Dir)) ns \<or> v \<noteq> Dir \<and> map_of ns b = Some Dir
         then Inl ForeignError
         else Inr ((), map (moved a b) (filter (\<lambda>n. fst n \<noteq> b) ns)))"

text \<open>\<^verbatim>\<open>rm(path, { force: true, recursive: true })\<close>\<close>

definition rm :: "store_env \<Rightarrow> string \<Rightarrow> (store_world, unit) proc" where
  "rm env path = pause (ve_others env) (\<lambda>w. case next_outcome w of (oc, w1) \<Rightarrow>
     (if oc = Ok then Inr () else Inl ForeignError,
      w1\<lparr>st_nodes := filter (\<lambda>n. \<not> (prefix (resolve_path path) (fst n) \<and> (oc = Ok \<or> ve_removed env (calls w) (fst n)))) (st_nodes w1)\<rparr>))"

text \<open>\<^verbatim>\<open>readdir(path, { withFileTypes: true })\<close>\<close>

definition entries_of :: "(fs_path \<times> fs_node) list \<Rightarrow> fs_path \<Rightarrow> (fs_path \<times> fs_node) list" where
  "entries_of ns p = filter (\<lambda>n. fst n \<noteq> [] \<and> butlast (fst n) = p) ns"

definition readdir :: "store_env \<Rightarrow> string \<Rightarrow> (store_world, (string \<times> fs_node) list) proc" where
  "readdir env path = fs_call env (\<lambda>ns. if map_of ns (resolve_path path) \<noteq> Some Dir then Inl ForeignError
     else Inr (map (\<lambda>n. (last (fst n), snd n)) (entries_of ns (resolve_path path)), ns))"

text \<open>\<^verbatim>\<open>directoryBytes\<close>, read in one go.\<close>

definition depth :: "(fs_path \<times> fs_node) list \<Rightarrow> nat" where
  "depth ns = Max (set (map (\<lambda>n. length (fst n)) ns) \<union> {0})"

lemma depth_bound: "n \<in> set ns \<Longrightarrow> length (fst n) \<le> depth ns"
  unfolding depth_def by (rule Max_ge) auto

function tree_bytes :: "(fs_path \<times> fs_node) list \<Rightarrow> fs_path \<Rightarrow> int" where
  "tree_bytes ns p = sum_list (map (\<lambda>n. case snd n of File b \<Rightarrow> int (length b) | Dir \<Rightarrow> tree_bytes ns (fst n)) (entries_of ns p))"
  by pat_completeness auto

termination
proof (relation "measure (\<lambda>(ns, p). Suc (depth ns) - length p)")
  fix ns p and n :: "fs_path \<times> fs_node" assume "n \<in> set (entries_of ns p)"
  then have "n \<in> set ns" "length (fst n) = Suc (length p)" by (auto simp: entries_of_def)
  with depth_bound [of n ns] show "((ns, fst n), ns, p) \<in> measure (\<lambda>(ns, p). Suc (depth ns) - length p)" by auto
qed simp

declare tree_bytes.simps [simp del]

definition directoryBytes :: "store_env \<Rightarrow> string \<Rightarrow> (store_world, int) proc" where
  "directoryBytes env path = fs_call env (\<lambda>ns. if map_of ns (resolve_path path) \<noteq> Some Dir then Inl ForeignError
     else Inr (tree_bytes ns (resolve_path path), ns))"

section \<open>What calls do to the files\<close>

definition files :: "store_world \<Rightarrow> (fs_path \<times> byte list) set" where
  "files w = {(q, b). (q, File b) \<in> set (st_nodes w)}"

text \<open>An assertion that survives removals and the other operations.\<close>

definition calm :: "store_env \<Rightarrow> (store_world \<Rightarrow> bool) \<Rightarrow> bool" where
  "calm env I \<longleftrightarrow> (\<forall>w w'. I w \<longrightarrow> files w' \<subseteq> files w \<longrightarrow> I w') \<and> (\<forall>n w. I w \<longrightarrow> I (ve_others env n w))"

lemma calm_shrink: "calm env I \<Longrightarrow> I w \<Longrightarrow> files w' \<subseteq> files w \<Longrightarrow> I w'"
  unfolding calm_def by blast

lemma calm_conj: "calm env I \<Longrightarrow> calm env J \<Longrightarrow> calm env (\<lambda>w. I w \<and> J w)"
  unfolding calm_def by blast

lemma calm_step:
  assumes "calm env I" and "\<And>w. I w \<Longrightarrow> I (snd (m w))"
  shows "pres I (pause (ve_others env) m)"
  using assms unfolding pres_def pause_def calm_def by (auto split: prod.splits) (metis snd_conv)

lemma fs_call_pres:
  assumes "calm env I" and "\<And>w x ns. I w \<Longrightarrow> f (st_nodes w) = Inr (x, ns) \<Longrightarrow> I (w\<lparr>st_nodes := ns\<rparr>)"
  shows "pres I (fs_call env f)"
  unfolding fs_call_def
proof (rule calm_step [OF assms(1)])
  fix w assume w: "I w"
  let ?w1 = "w\<lparr>calls := Suc (calls w)\<rparr>"
  have w1: "I ?w1" using calm_shrink [OF assms(1) w, of ?w1] by (simp add: files_def)
  then show "I (snd (case next_outcome w of (oc, w1) \<Rightarrow> if oc = Lost then (Inl ForeignError, w1)
      else case f (st_nodes w1) of Inl e \<Rightarrow> (Inl e, w1) | Inr (x, ns) \<Rightarrow> (if oc = Ok then Inr x else Inl ForeignError, w1\<lparr>st_nodes := ns\<rparr>)))"
    using assms(2) [OF w1] by (auto simp: next_outcome_def split: sum.splits)
qed

lemma fs_read_pres:
  assumes "calm env I" and "\<And>ns x ns'. f ns = Inr (x, ns') \<Longrightarrow> {(q, b). (q, File b) \<in> set ns'} \<subseteq> {(q, b). (q, File b) \<in> set ns}"
  shows "pres I (fs_call env f)"
proof (rule fs_call_pres [OF assms(1)])
  fix w x ns assume "I w" "f (st_nodes w) = Inr (x, ns)"
  then show "I (w\<lparr>st_nodes := ns\<rparr>)" using calm_shrink [OF assms(1)] assms(2) by (fastforce simp: files_def)
qed

lemma calm_reads [pres_rules]:
  assumes "calm env I"
  shows "pres I (readFile env p)" "pres I (fs_stat env p)" "pres I (utimes env p)" "pres I (mkdir env p)" "pres I (readdir env p)"
    "pres I (directoryBytes env p)" "pres I (rm env p)" "pres I (s3_call env rq)" "pres I (key_call env f)" "pres I (fresh_uuid env)"
proof -
  show "pres I (readFile env p)" "pres I (fs_stat env p)" "pres I (utimes env p)" "pres I (mkdir env p)" "pres I (readdir env p)"
    "pres I (directoryBytes env p)"
    unfolding readFile_def fs_stat_def utimes_def mkdir_def readdir_def directoryBytes_def
    by (rule fs_read_pres [OF assms]; auto simp: Let_def split: option.splits fs_node.splits if_splits)+
  show "pres I (rm env p)" unfolding rm_def
    by (rule calm_step [OF assms], erule calm_shrink [OF assms]) (auto simp: files_def next_outcome_def)
  show "pres I (s3_call env rq)" unfolding s3_call_def
    by (rule calm_step [OF assms], erule calm_shrink [OF assms]) (auto simp: files_def)
  show "pres I (key_call env f)" unfolding key_call_def
    by (rule calm_step [OF assms], erule calm_shrink [OF assms]) (auto simp: files_def outside_def)
  show "pres I (fresh_uuid env)" by (simp add: fresh_uuid_def pres_gets)
qed

text \<open>The calls that add files.\<close>

lemma write_pres:
  assumes "calm env I" and "\<And>w. I w \<Longrightarrow> I (w\<lparr>st_nodes := st_nodes w @ [(resolve_path p, File b)]\<rparr>)"
  shows "pres I (writeFile env p b)"
  unfolding writeFile_def by (rule fs_call_pres [OF assms(1)]) (use assms(2) in \<open>auto simp: Let_def split: if_splits\<close>)

lemma copy_pres:
  assumes "calm env I" and "\<And>w b. I w \<Longrightarrow> I (w\<lparr>st_nodes := filter (\<lambda>n. fst n \<noteq> resolve_path to) (st_nodes w) @ [(resolve_path to, File b)]\<rparr>)"
  shows "pres I (copyFile env from to)"
  unfolding copyFile_def
  by (rule fs_call_pres [OF assms(1)]) (use assms(2) in \<open>auto simp: Let_def split: option.splits fs_node.splits if_splits\<close>)

lemma rename_pres:
  assumes "calm env I" and "\<And>w. I w \<Longrightarrow> I (w\<lparr>st_nodes := map (moved (resolve_path from) (resolve_path to)) (filter (\<lambda>n. fst n \<noteq> resolve_path to) (st_nodes w))\<rparr>)"
  shows "pres I (fs_rename env from to)"
  unfolding fs_rename_def
  by (rule fs_call_pres [OF assms(1)]) (use assms(2) in \<open>auto simp: Let_def split: option.splits if_splits\<close>)

section \<open>Undisturbed runs\<close>

text \<open>No other operation runs and no call of the file system fails.\<close>

definition undisturbed :: "store_env \<Rightarrow> store_world \<Rightarrow> bool" where
  "undisturbed env w \<longleftrightarrow> ve_others env = (\<lambda>_ w. w) \<and> fault w = (\<lambda>_. Ok)"

lemma undisturbed_update [simp]:
  "undisturbed env (w\<lparr>calls := n\<rparr>) = undisturbed env w" "undisturbed env (w\<lparr>st_nodes := ns\<rparr>) = undisturbed env w"
  "undisturbed env (w\<lparr>st_requests := rs\<rparr>) = undisturbed env w" "undisturbed env (w\<lparr>draws := n\<rparr>) = undisturbed env w"
  "undisturbed env (w\<lparr>st_pinned := ps\<rparr>) = undisturbed env w" "undisturbed env (w\<lparr>st_inUse := ps\<rparr>) = undisturbed env w"
  "undisturbed env (w\<lparr>st_rootfs := rfs\<rparr>) = undisturbed env w"
  by (simp_all add: undisturbed_def)

lemma fs_run: "undisturbed env w \<Longrightarrow> fs_call env f w = (case f (st_nodes w) of
     Inl e \<Rightarrow> (Inl e, w\<lparr>calls := Suc (calls w)\<rparr>) | Inr (x, ns) \<Rightarrow> (Inr x, w\<lparr>calls := Suc (calls w), st_nodes := ns\<rparr>))"
  by (simp add: undisturbed_def fs_call_def pause_def next_outcome_def split: sum.splits)

lemma s3_run: "undisturbed env w \<Longrightarrow> s3_call env rq w = (Inr (ve_s3 env (st_requests w) rq), w\<lparr>st_requests := st_requests w @ [rq], calls := Suc (calls w)\<rparr>)"
  by (simp add: undisturbed_def s3_call_def pause_def)

lemma key_run: "undisturbed env w \<Longrightarrow> key_call env f w = (f (calls w), w\<lparr>calls := Suc (calls w)\<rparr>)"
  by (simp add: undisturbed_def key_call_def pause_def outside_def)

lemma rm_run: "undisturbed env w \<Longrightarrow> rm env p w = (Inr (), w\<lparr>calls := Suc (calls w), st_nodes := filter (\<lambda>n. \<not> prefix (resolve_path p) (fst n)) (st_nodes w)\<rparr>)"
  by (simp add: undisturbed_def rm_def pause_def next_outcome_def)

end
