(* ===== verification/Base_Snapshots.thy ===== *)
theory Base_Snapshots
  imports Node_Files
begin

text \<open>
  \<^verbatim>\<open>apps/control-plane/src/snapshot-storage.ts\<close>: the store of clean base snapshots in S3, with signed manifests and a local cache
  of verified artifacts that is evicted to a size. \<open>base_restore_verified\<close> shows that nothing but artifacts of an authenticated
  manifest, with the hashes and sizes it names, ever appears in a cache entry, whatever fails and whatever other operations do meanwhile.
\<close>

section \<open>Manifest keys\<close>

definition MINIMUM_HMAC_BYTES :: nat where "MINIMUM_HMAC_BYTES = 32"

text \<open>Text of a manifest or of the environment as text of the host, whose identifiers, digests and paths are ASCII.\<close>

definition ascii :: "utf16 \<Rightarrow> string" where
  "ascii s = map (\<lambda>u. char_of (uint u)) s"

text \<open>\<open>fromBase\<close> is \<^verbatim>\<open>Buffer.from(text, "base64")\<close>.\<close>

definition new_manifest_keys :: "(utf16 \<Rightarrow> byte list) \<Rightarrow> string \<Rightarrow> utf16 \<Rightarrow> js_error + manifest_key" where
  "new_manifest_keys fromBase keyId encodedKey =
     (if keyId = '''' \<or> length (fromBase encodedKey) < MINIMUM_HMAC_BYTES
      then Inl (Caisson SANDBOX_FAILED ''snapshot manifest key configuration is invalid'')
      else Inr \<lparr>mk_keyId = keyId, mk_bytes = fromBase encodedKey\<rparr>)"

definition manifest_keys_from_environment :: "(utf16 \<Rightarrow> byte list) \<Rightarrow> (string \<rightharpoonup> utf16) \<Rightarrow> js_error + manifest_key" where
  "manifest_keys_from_environment fromBase environment =
     (case (environment ''CAISSON_SNAPSHOT_MANIFEST_KEY_ID'', environment ''CAISSON_SNAPSHOT_MANIFEST_HMAC_KEY'') of
        (Some keyId, Some encodedKey) \<Rightarrow> new_manifest_keys fromBase (ascii keyId) encodedKey
      | _ \<Rightarrow> Inl (Caisson SANDBOX_FAILED ''snapshot manifest key configuration is missing''))"

definition env_active :: "manifest_key \<Rightarrow> nat \<Rightarrow> js_error + manifest_key" where
  "env_active key n = Inr key"

definition env_resolve :: "manifest_key \<Rightarrow> string \<Rightarrow> nat \<Rightarrow> js_error + manifest_key" where
  "env_resolve key keyId n =
     (if keyId \<noteq> mk_keyId key then Inl (Caisson SANDBOX_FAILED ''snapshot manifest key is unavailable'') else Inr key)"

text \<open>\<^verbatim>\<open>ManifestKeyProvider\<close>: a key is found under its own identifier, the active one always.\<close>

locale manifest_keys =
  fixes active :: "nat \<Rightarrow> js_error + manifest_key" and resolve_key :: "string \<Rightarrow> nat \<Rightarrow> js_error + manifest_key"
  assumes own_id: "resolve_key keyId n = Inr key \<Longrightarrow> mk_keyId key = keyId"
    and active_known: "active n = Inr key \<Longrightarrow> resolve_key (mk_keyId key) m = Inr key"

interpretation env_keys: manifest_keys "env_active key" "env_resolve key" for key
  by unfold_locales (auto simp: env_active_def env_resolve_def split: if_splits)

section \<open>Manifests\<close>

definition hex64 :: "json \<Rightarrow> bool" where
  "hex64 v = (case v of JStr s \<Rightarrow> length s = 64 \<and> list_all (\<lambda>u. is_digit u \<or> in_range (CHR ''a'') (CHR ''f'') u) s | _ \<Rightarrow> False)"

abbreviation zhex64 :: schema where "zhex64 \<equiv> ZRefine (ZString []) hex64"
abbreviation zsize :: schema where "zsize \<equiv> ZNumber [NInt, NPositive]"

definition snapshotObjectRefSchema :: schema where
  "snapshotObjectRefSchema = ZObject Strip [req ''bucket'' (ZString [SMin 1]), req ''key'' (ZString [SMin 1]), opt ''versionId'' (ZString [SMin 1]),
     req ''sha256'' zhex64, req ''sizeBytes'' zsize]"

definition unique_names :: "json \<Rightarrow> bool" where
  "unique_names v = (case v of JArr artifacts \<Rightarrow> distinct (map (\<lambda>a. field a ''name'') artifacts) | _ \<Rightarrow> False)"

definition snapshotManifestSchema :: schema where
  "snapshotManifestSchema = ZObject Strip [req ''version'' (ZLiteral (JNum 1)), req ''snapshotId'' (ZString [SMin 1]), req ''kind'' (lit ''base''),
     req ''createdAt'' (ZString [SFormat FDatetime]), req ''keyId'' (ZString [SMin 1]),
     req ''artifacts'' (ZRefine (ZArray (ZObject Strip [req ''name'' (ZEnum [''state'', ''memory'', ''rootfs'', ''kernel'']), req ''object'' snapshotObjectRefSchema,
       req ''uncompressedSha256'' zhex64, req ''uncompressedSizeBytes'' zsize, req ''compression'' (lit ''gzip'')]) (Some 4) (Some 4)) unique_names),
     req ''rootfsRestorePath'' (ZString [SMin 1]), req ''signature'' zhex64]"

record manifest_artifact =
  ar_name :: string
  ar_object :: object_ref
  ar_sha256 :: string
  ar_size :: int

definition toSnapshotObjectRef :: "json \<Rightarrow> object_ref" where
  "toSnapshotObjectRef v = \<lparr>ob_bucket = ascii (text_field v ''bucket''), ob_key = ascii (text_field v ''key''),
     ob_versionId = (case field v ''versionId'' of JStr s \<Rightarrow> Some (ascii s) | _ \<Rightarrow> None),
     ob_sha256 = ascii (text_field v ''sha256''), ob_sizeBytes = \<lfloor>number_field v ''sizeBytes''\<rfloor>\<rparr>"

definition items :: "json \<Rightarrow> json list" where
  "items v = (case v of JArr vs \<Rightarrow> vs | _ \<Rightarrow> [])"

definition artifacts_of :: "json \<Rightarrow> manifest_artifact list" where
  "artifacts_of data = map (\<lambda>a. \<lparr>ar_name = ascii (text_field a ''name''), ar_object = toSnapshotObjectRef (field a ''object''),
     ar_sha256 = ascii (text_field a ''uncompressedSha256''), ar_size = \<lfloor>number_field a ''uncompressedSizeBytes''\<rfloor>\<rparr>) (items (field data ''artifacts''))"

definition rootfsRestorePath :: "json \<Rightarrow> string" where
  "rootfsRestorePath data = ascii (text_field data ''rootfsRestorePath'')"

definition object_json :: "object_ref \<Rightarrow> json" where
  "object_json ob = JObj ([(js ''bucket'', text_json (ob_bucket ob)), (js ''key'', text_json (ob_key ob))]
     @ (case ob_versionId ob of None \<Rightarrow> [] | Some v \<Rightarrow> [(js ''versionId'', text_json v)])
     @ [(js ''sha256'', text_json (ob_sha256 ob)), (js ''sizeBytes'', JNum (of_int (ob_sizeBytes ob)))])"

definition artifact_json :: "manifest_artifact \<Rightarrow> json" where
  "artifact_json a = JObj [(js ''name'', text_json (ar_name a)), (js ''object'', object_json (ar_object a)),
     (js ''uncompressedSha256'', text_json (ar_sha256 a)), (js ''uncompressedSizeBytes'', JNum (of_int (ar_size a))), (js ''compression'', text_json ''gzip'')]"

definition sign :: "store_env \<Rightarrow> json \<Rightarrow> byte list \<Rightarrow> string" where
  "sign env v key = ve_hmac env key (utf8_encode (ve_stringify env v))"

text \<open>\<^verbatim>\<open>const { signature, ...unsigned } = manifest\<close>\<close>

definition unsigned_of :: "json \<Rightarrow> json" where
  "unsigned_of v = (case v of JObj kvs \<Rightarrow> JObj (filter (\<lambda>kv. fst kv \<noteq> js ''signature'') kvs) | _ \<Rightarrow> v)"

definition with_signature :: "json \<Rightarrow> string \<Rightarrow> json" where
  "with_signature v s = (case v of JObj kvs \<Rightarrow> JObj (kvs @ [(js ''signature'', text_json s)]) | _ \<Rightarrow> v)"

section \<open>Objects\<close>

definition put :: "store_env \<Rightarrow> string \<Rightarrow> byte list \<Rightarrow> (store_world, object_ref) proc" where
  "put env key body = bnd (s3_call env (PutRequest (ve_bucket env) key body)) (\<lambda>answer. case answer of
     PutDone version \<Rightarrow> bnd (s3_call env (HeadRequest (ve_bucket env) key)) (\<lambda>answer. case answer of
       HeadDone encryption \<Rightarrow>
         if encryption \<noteq> Some ''AES256'' then throw (Caisson SANDBOX_FAILED ''snapshot object server-side encryption was not confirmed'')
         else ret \<lparr>ob_bucket = ve_bucket env, ob_key = key, ob_versionId = version, ob_sha256 = ve_sha256 env body, ob_sizeBytes = int (length body)\<rparr>
     | _ \<Rightarrow> throw ForeignError)
   | _ \<Rightarrow> throw ForeignError)"

definition download :: "store_env \<Rightarrow> object_ref \<Rightarrow> (store_world, byte list) proc" where
  "download env object = bnd (s3_call env (GetRequest (ob_bucket object) (ob_key object) (ob_versionId object))) (\<lambda>answer. case answer of
     GetDone None \<Rightarrow> throw (Caisson SANDBOX_FAILED ''snapshot object is empty'')
   | GetDone (Some bytes) \<Rightarrow>
       if int (length bytes) \<noteq> ob_sizeBytes object \<or> ve_sha256 env bytes \<noteq> ob_sha256 object
       then throw (Caisson SANDBOX_FAILED ''snapshot object integrity verification failed'') else ret bytes
   | _ \<Rightarrow> throw ForeignError)"

text \<open>The bucket may exist already: the base store looks for the names of those errors in the name of the error.\<close>

definition ensure_bucket :: "store_env \<Rightarrow> (string \<Rightarrow> bool) \<Rightarrow> (store_world, unit) proc" where
  "ensure_bucket env tolerated = bnd (s3_call env (CreateBucket (ve_bucket env))) (\<lambda>answer. case answer of
     Refused name \<Rightarrow> if tolerated name then ret () else throw ForeignError
   | _ \<Rightarrow> ret ())"

definition ensureBucket :: "store_env \<Rightarrow> (store_world, unit) proc" where
  "ensureBucket env = ensure_bucket env (\<lambda>name. contains_text ''BucketAlreadyOwnedByYou'' name \<or> contains_text ''BucketAlreadyExists'' name)"

text \<open>Reading a manifest of the given schema, with the name it has in the messages. The digests compared are lower-case hexadecimal, so that
  the texts are equal exactly when the bytes are.\<close>

definition read_signed :: "store_env \<Rightarrow> schema \<Rightarrow> string \<Rightarrow> object_ref \<Rightarrow> (store_world, json) proc" where
  "read_signed env s what manifest = bnd (download env manifest) (\<lambda>bytes.
     case Option.bind (ve_jparse env (utf8_decode bytes)) (ve_parse env s) of
       None \<Rightarrow> throw (Caisson SANDBOX_FAILED (what @ '' is invalid''))
     | Some data \<Rightarrow> bnd (key_call env (ve_resolveKey env (ascii (text_field data ''keyId'')))) (\<lambda>key.
         if js (sign env (unsigned_of data) (mk_bytes key)) \<noteq> text_field data ''signature''
         then throw (Caisson SANDBOX_FAILED (what @ '' authentication failed'')) else ret data))"

definition readManifest :: "store_env \<Rightarrow> snapshot_ref \<Rightarrow> (store_world, json) proc" where
  "readManifest env ref = read_signed env snapshotManifestSchema ''snapshot manifest'' (rf_manifest ref)"

section \<open>Storing\<close>

text \<open>\<^verbatim>\<open>Promise.all\<close>: all run, the first error is thrown.\<close>

fun promise_values :: "('s, 'a) proc list \<Rightarrow> ('s, 'a list) proc" where
  "promise_values [] = ret []"
| "promise_values (m # ms) = (\<lambda>s. case m s of (r, s1) \<Rightarrow> (case promise_values ms s1 of (rs, s2) \<Rightarrow>
     (case r of Inl e \<Rightarrow> Inl e | Inr x \<Rightarrow> map_sum id (\<lambda>xs. x # xs) rs, s2)))"

definition uploadArtifact :: "store_env \<Rightarrow> string \<Rightarrow> string \<Rightarrow> string \<Rightarrow> (store_world, manifest_artifact) proc" where
  "uploadArtifact env pre name path = bnd (readFile env path) (\<lambda>source.
     bnd (put env (pre @ ''/'' @ name @ ''.gz'') (ve_gzip env source)) (\<lambda>object.
     ret \<lparr>ar_name = name, ar_object = object, ar_sha256 = ve_sha256 env source, ar_size = int (length source)\<rparr>))"

definition base_unsigned :: "store_env \<Rightarrow> local_snapshot \<Rightarrow> string \<Rightarrow> string \<Rightarrow> manifest_artifact list \<Rightarrow> json" where
  "base_unsigned env loc rootfs keyId artifacts = JObj [(js ''version'', JNum 1), (js ''snapshotId'', text_json (lo_id loc)), (js ''kind'', text_json ''base''),
     (js ''createdAt'', text_json (ve_iso env (lo_createdAt loc))), (js ''keyId'', text_json keyId),
     (js ''artifacts'', JArr (map artifact_json artifacts)), (js ''rootfsRestorePath'', text_json rootfs)]"

definition storeBase :: "store_env \<Rightarrow> local_snapshot \<Rightarrow> (store_world, snapshot_ref) proc" where
  "storeBase env loc = (case (lo_kind loc, lo_rootfsPath loc, lo_kernelPath loc) of
     (Base, Some rootfs, Some kernelPath) \<Rightarrow>
       if isIneligibleBaseRootfs rootfs
       then throw (Caisson SANDBOX_FAILED ''development probe and diagnostic rootfs artifacts are ineligible for base snapshot storage'')
       else seq (ensureBucket env) (bnd (key_call env (ve_active env)) (\<lambda>key.
         let pre = ''snapshots/base/'' @ lo_id loc in
         bnd (promise_values [uploadArtifact env pre ''state'' (lo_statePath loc), uploadArtifact env pre ''memory'' (lo_memoryPath loc),
           uploadArtifact env pre ''rootfs'' rootfs, uploadArtifact env pre ''kernel'' kernelPath]) (\<lambda>artifacts.
         let unsigned = base_unsigned env loc rootfs (mk_keyId key) artifacts in
         bnd (put env (pre @ ''/manifest.json'') (utf8_encode (ve_stringify env (with_signature unsigned (sign env unsigned (mk_bytes key)))))) (\<lambda>manifest.
         ret \<lparr>rf_id = lo_id loc, rf_kind = Base, rf_manifest = manifest, rf_manifestKeyId = mk_keyId key, rf_createdAt = lo_createdAt loc,
           rf_sessionId = None, rf_baseSnapshotId = None\<rparr>))))
   | _ \<Rightarrow> throw (Caisson SANDBOX_FAILED ''base snapshot requires state, memory, rootfs, and kernel artifacts''))"

section \<open>The cache\<close>

definition expand :: "store_env \<Rightarrow> string \<Rightarrow> manifest_artifact \<Rightarrow> (store_world, byte list) proc" where
  "expand env message a = bnd (download env (ar_object a)) (\<lambda>compressed. bnd (of_result (ve_gunzip env compressed)) (\<lambda>body.
     if int (length body) \<noteq> ar_size a \<or> ve_sha256 env body \<noteq> ar_sha256 a then throw (Caisson SANDBOX_FAILED message) else ret body))"

definition write_artifact :: "store_env \<Rightarrow> string \<Rightarrow> manifest_artifact \<Rightarrow> (store_world, unit) proc" where
  "write_artifact env temporary a = (if ar_name a = ''rootfs'' then ret ()
     else bnd (expand env ''snapshot artifact integrity verification failed'' a) (writeFile env (path_join [temporary, ar_name a])))"

definition verified_marker :: "byte list" where
  "verified_marker = utf8_encode (js ''verified'' @ [10])"

text \<open>\<^verbatim>\<open>try { m; return } catch {}\<close>: whether \<open>m\<close> went through.\<close>

definition succeeds :: "('s, unit) proc \<Rightarrow> ('s, bool) proc" where
  "succeeds m = try_catch (seq m (ret True)) (\<lambda>_. ret False)"

definition materialize :: "store_env \<Rightarrow> string \<Rightarrow> manifest_artifact list \<Rightarrow> (store_world, unit) proc" where
  "materialize env destination artifacts =
     bnd (succeeds (seq (fs_stat env (path_join [destination, ''.complete''])) (utimes env destination))) (\<lambda>cached. if cached then ret ()
     else bnd (fresh_uuid env) (\<lambda>u. let temporary = destination @ ''.tmp-'' @ u in
       seq (rm env temporary) (seq (mkdir env temporary)
         (try_catch
           (seq (for_each artifacts (write_artifact env temporary))
           (seq (writeFile env (path_join [temporary, ''.complete'']) verified_marker)
           (seq (mkdir env (dirname destination))
           (bnd (succeeds (seq (fs_stat env destination) (rm env temporary))) (\<lambda>present.
            if present then ret () else fs_rename env temporary destination)))))
           (\<lambda>e. seq (rm env temporary) (throw e))))))"

definition materializeRootfs :: "store_env \<Rightarrow> json \<Rightarrow> (store_world, unit) proc" where
  "materializeRootfs env manifest = (let restore = rootfsRestorePath manifest in
     case List.find (\<lambda>a. ar_name a = ''rootfs'') (artifacts_of manifest) of
       None \<Rightarrow> throw (Caisson SANDBOX_FAILED ''snapshot rootfs restore path is invalid'')
     | Some rootfs \<Rightarrow>
         if \<not> isPathInside restore (path_join [ve_cacheDirectory env, ''rootfs''])
         then throw (Caisson SANDBOX_FAILED ''snapshot rootfs restore path is invalid'')
         else bnd (try_catch (bnd (readFile env restore) (\<lambda>existing.
             if int (length existing) = ar_size rootfs \<and> ve_sha256 env existing = ar_sha256 rootfs
             then seq (utimes env restore) (ret True) else ret False)) (\<lambda>_. ret False)) (\<lambda>valid. if valid then ret ()
         else bnd (fresh_uuid env) (\<lambda>u. let temporary = restore @ ''.tmp-'' @ u in
           seq (mkdir env (dirname temporary))
             (try_catch
               (bnd (expand env ''snapshot rootfs integrity verification failed'' rootfs) (\<lambda>body.
                seq (writeFile env temporary body)
                  (try_catch (seq (fs_stat env restore) (rm env temporary)) (\<lambda>_. fs_rename env temporary restore))))
               (\<lambda>e. seq (rm env temporary) (throw e))))))"

section \<open>Eviction\<close>

datatype entry_kind = SnapshotEntry | RootfsEntry

record cache_entry =
  ce_id :: string
  ce_kind :: entry_kind
  ce_path :: string
  ce_mtime :: int

definition entry :: "store_env \<Rightarrow> entry_kind \<Rightarrow> string \<Rightarrow> string \<Rightarrow> (store_world, cache_entry) proc" where
  "entry env kind directory name = (let path = path_join [directory, name] in
     bnd (gets (\<lambda>w. ve_mtime env path (calls w))) (\<lambda>t.
     seq (fs_stat env path) (ret \<lparr>ce_id = name, ce_kind = kind, ce_path = path, ce_mtime = t\<rparr>)))"

definition directories :: "(string \<times> fs_node) list \<Rightarrow> string list" where
  "directories ds = map fst (filter (\<lambda>n. snd n = Dir) ds)"

definition entry_in_use :: "cache_entry \<Rightarrow> store_world \<Rightarrow> bool" where
  "entry_in_use e w \<longleftrightarrow> (case ce_kind e of
     SnapshotEntry \<Rightarrow> ce_id e \<in> set (st_pinned w) \<or> ce_id e \<in> set (st_inUse w)
   | RootfsEntry \<Rightarrow> list_ex (\<lambda>p. prefix (ce_path e @ ''/'') (snd p)) (st_rootfs w))"

fun evict_loop :: "store_env \<Rightarrow> cache_entry list \<Rightarrow> int \<Rightarrow> (store_world, unit) proc" where
  "evict_loop env [] used = ret ()"
| "evict_loop env (e # es) used = (if used \<le> ve_cacheMaxBytes env then ret ()
     else bnd (gets (entry_in_use e)) (\<lambda>kept. if kept then evict_loop env es used
     else bnd (directoryBytes env (ce_path e)) (\<lambda>bytes. seq (rm env (ce_path e)) (evict_loop env es (used - bytes)))))"

definition evict :: "store_env \<Rightarrow> (store_world, unit) proc" where
  "evict env = (let snapshotDirectory = path_join [ve_cacheDirectory env, ''snapshots'']; rootfsDirectory = path_join [ve_cacheDirectory env, ''rootfs''] in
     bnd (try_catch (readdir env snapshotDirectory) (\<lambda>_. ret [])) (\<lambda>snapshotItems.
     bnd (try_catch (readdir env rootfsDirectory) (\<lambda>_. ret [])) (\<lambda>rootfsItems.
     bnd (promise_values (map (entry env SnapshotEntry snapshotDirectory) (directories snapshotItems)
       @ map (entry env RootfsEntry rootfsDirectory) (directories rootfsItems))) (\<lambda>entries.
     bnd (promise_values (map (\<lambda>e. directoryBytes env (ce_path e)) entries)) (\<lambda>sizes.
     evict_loop env (sort_key ce_mtime entries) (sum_list sizes))))))"

section \<open>The operations\<close>

definition add_to :: "string \<Rightarrow> string list \<Rightarrow> string list" where
  "add_to i s = (if i \<in> set s then s else s @ [i])"

definition set_rootfs :: "string \<Rightarrow> string \<Rightarrow> (string \<times> string) list \<Rightarrow> (string \<times> string) list" where
  "set_rootfs i p m = filter (\<lambda>kv. fst kv \<noteq> i) m @ [(i, p)]"

definition base_resolve :: "store_env \<Rightarrow> snapshot_ref \<Rightarrow> (store_world, resolved_snapshot) proc" where
  "base_resolve env ref =
     (if rf_kind ref \<noteq> Base then throw (Caisson SANDBOX_FAILED ''session snapshot restore is not implemented'')
      else bnd (readManifest env ref) (\<lambda>manifest. let destination = path_join [ve_cacheDirectory env, ''snapshots'', rf_id ref] in
        seq (modify (\<lambda>w. w\<lparr>st_inUse := add_to (rf_id ref) (st_inUse w)\<rparr>))
        (try_finally
          (try_catch
            (seq (materialize env destination (artifacts_of manifest))
            (seq (materializeRootfs env manifest)
            (seq (modify (\<lambda>w. w\<lparr>st_pinned := add_to (rf_id ref) (st_pinned w), st_rootfs := set_rootfs (rf_id ref) (rootfsRestorePath manifest) (st_rootfs w)\<rparr>))
            (seq (evict env)
            (ret \<lparr>rs_ref = ref, rs_statePath = path_join [destination, ''state''], rs_memoryPath = path_join [destination, ''memory''],
              rs_rootfsPath = Some (rootfsRestorePath manifest), rs_kernelPath = Some (path_join [destination, ''kernel''])\<rparr>)))))
            (\<lambda>e. seq (rm env destination) (throw e)))
          (modify (\<lambda>w. w\<lparr>st_inUse := filter (\<lambda>i. i \<noteq> rf_id ref) (st_inUse w)\<rparr>)))))"

definition base_release :: "store_env \<Rightarrow> snapshot_ref \<Rightarrow> (store_world, unit) proc" where
  "base_release env ref = seq (modify (\<lambda>w. w\<lparr>st_pinned := filter (\<lambda>i. i \<noteq> rf_id ref) (st_pinned w),
     st_rootfs := filter (\<lambda>kv. fst kv \<noteq> rf_id ref) (st_rootfs w)\<rparr>)) (evict env)"

definition stageBaseRootfs :: "store_env \<Rightarrow> string \<Rightarrow> (store_world, string) proc" where
  "stageBaseRootfs env sourcePath = bnd (readFile env sourcePath) (\<lambda>source.
     let destination = path_join [ve_cacheDirectory env, ''rootfs'', ve_sha256 env source, ''rootfs''] in
     bnd (succeeds (seq (fs_stat env destination) (utimes env destination))) (\<lambda>present. if present then ret destination
     else bnd (fresh_uuid env) (\<lambda>u. let temporary = destination @ ''.tmp-'' @ u in
       seq (mkdir env (dirname temporary))
         (try_catch
           (seq (copyFile env sourcePath temporary)
           (bnd (readFile env temporary) (\<lambda>copied.
            if ve_sha256 env copied \<noteq> ve_sha256 env source \<or> length copied \<noteq> length source
            then throw (Caisson SANDBOX_FAILED ''staged rootfs integrity verification failed'')
            else seq (fs_rename env temporary destination) (ret destination))))
           (\<lambda>e. seq (rm env temporary) (throw e))))))"

text \<open>The constructor's check and the setting from the environment.\<close>

definition check_cache_size :: "int \<Rightarrow> js_error + unit" where
  "check_cache_size cacheMaxBytes = (if \<not> positive_safe cacheMaxBytes then Inl (Caisson SANDBOX_FAILED ''snapshot cache size configuration is invalid'') else Inr ())"

definition cacheMaxBytesFromEnvironment :: "(string \<rightharpoonup> utf16) \<Rightarrow> js_error + int" where
  "cacheMaxBytesFromEnvironment environment = (case positive_setting environment ''CAISSON_SNAPSHOT_CACHE_MAX_BYTES'' of
     Some n \<Rightarrow> Inr n
   | None \<Rightarrow> Inl (Caisson SANDBOX_FAILED ''snapshot cache size configuration is missing or invalid''))"

section \<open>What the cache holds\<close>

text \<open>A manifest that passed the schema and is signed with a key of the provider.\<close>

definition authentic :: "store_env \<Rightarrow> schema \<Rightarrow> json \<Rightarrow> bool" where
  "authentic env s data \<longleftrightarrow> (\<exists>raw. ve_parse env s raw = Some data)
     \<and> (\<exists>n key. ve_resolveKey env (ascii (text_field data ''keyId'')) n = Inr key \<and> js (sign env (unsigned_of data) (mk_bytes key)) = text_field data ''signature'')"

definition snapshot_dir :: "store_env \<Rightarrow> string \<Rightarrow> fs_path" where
  "snapshot_dir env i = resolve_path (ve_cacheDirectory env) @ [''snapshots'', i]"

definition snapshot_id_ok :: "string \<Rightarrow> bool" where
  "snapshot_id_ok i \<longleftrightarrow> plain_segment i \<and> \<not> contains_text ''.tmp-'' i"

definition fits :: "store_env \<Rightarrow> manifest_artifact list \<Rightarrow> string \<Rightarrow> byte list \<Rightarrow> bool" where
  "fits env artifacts name b \<longleftrightarrow> name = ''.complete''
     \<or> (\<exists>a \<in> set artifacts. ar_name a = name \<and> name \<noteq> ''rootfs'' \<and> int (length b) = ar_size a \<and> ve_sha256 env b = ar_sha256 a)"

definition holds_only :: "store_env \<Rightarrow> manifest_artifact list \<Rightarrow> fs_path \<Rightarrow> store_world \<Rightarrow> bool" where
  "holds_only env artifacts d w \<longleftrightarrow> (\<forall>q b. (q, b) \<in> files w \<longrightarrow> prefix d q \<longrightarrow> (\<exists>name. q = d @ [name] \<and> fits env artifacts name b))"

definition cache_inv :: "store_env \<Rightarrow> store_world \<Rightarrow> bool" where
  "cache_inv env w \<longleftrightarrow> (\<forall>i. snapshot_id_ok i \<longrightarrow> (\<forall>q b. (q, b) \<in> files w \<longrightarrow> \<not> prefix (snapshot_dir env i) q)
     \<or> (\<exists>data. authentic env snapshotManifestSchema data \<and> holds_only env (artifacts_of data) (snapshot_dir env i) w))"

text \<open>The temporary directory of a snapshot for a random identifier of this operation.\<close>

definition temporary_dir :: "store_env \<Rightarrow> string \<Rightarrow> nat \<Rightarrow> fs_path" where
  "temporary_dir env i k = snapshot_dir env (i @ ''.tmp-'' @ ve_uuid env k)"

text \<open>Other operations keep the cache as this one does, and put nothing into its temporary directories.\<close>

definition courteous :: "store_env \<Rightarrow> bool" where
  "courteous env \<longleftrightarrow> (\<forall>n w. (cache_inv env w \<longrightarrow> cache_inv env (ve_others env n w))
     \<and> (\<forall>k i q b. (q, b) \<in> files (ve_others env n w) \<longrightarrow> prefix (temporary_dir env i k) q \<longrightarrow> (q, b) \<in> files w))"

text \<open>Random identifiers and digests are plain text.\<close>

definition plain_digests :: "store_env \<Rightarrow> bool" where
  "plain_digests env \<longleftrightarrow> (\<forall>k. CHR ''/'' \<notin> set (ve_uuid env k)) \<and> (\<forall>b. plain_segment (ve_sha256 env b))"

lemma tmp_contained: "contains_text ''.tmp-'' (i @ ''.tmp-'' @ u)"
  unfolding contains_text_def list_ex_iff by (rule bexI [of _ "length i"]) auto

lemma dir_prefix: "prefix (snapshot_dir env i) (snapshot_dir env j @ r) \<longleftrightarrow> i = j"
  by (simp add: snapshot_dir_def)

lemma tmp_not_entry: "snapshot_id_ok i \<Longrightarrow> \<not> prefix (snapshot_dir env i) (temporary_dir env j k @ r)"
  unfolding temporary_dir_def dir_prefix using tmp_contained by (auto simp: snapshot_id_ok_def)

lemma holds_only_mono: "holds_only env as d w \<Longrightarrow> files w' \<subseteq> files w \<Longrightarrow> holds_only env as d w'"
  unfolding holds_only_def by blast

lemma cache_inv_mono:
  assumes "cache_inv env w"
    and "\<And>i q b. snapshot_id_ok i \<Longrightarrow> (q, b) \<in> files w' \<Longrightarrow> prefix (snapshot_dir env i) q \<Longrightarrow> (q, b) \<in> files w"
  shows "cache_inv env w'"
  unfolding cache_inv_def holds_only_def
proof (intro allI impI)
  fix i assume i: "snapshot_id_ok i"
  with assms(1) consider "\<And>q b. (q, b) \<in> files w \<Longrightarrow> \<not> prefix (snapshot_dir env i) q"
    | data where "authentic env snapshotManifestSchema data" "holds_only env (artifacts_of data) (snapshot_dir env i) w"
    unfolding cache_inv_def by blast
  then show "(\<forall>q b. (q, b) \<in> files w' \<longrightarrow> \<not> prefix (snapshot_dir env i) q)
     \<or> (\<exists>data. authentic env snapshotManifestSchema data
        \<and> (\<forall>q b. (q, b) \<in> files w' \<longrightarrow> prefix (snapshot_dir env i) q \<longrightarrow> (\<exists>name. q = snapshot_dir env i @ [name] \<and> fits env (artifacts_of data) name b)))"
    by cases (use assms(2) [OF i] in \<open>unfold holds_only_def, blast+\<close>)
qed

lemma calm_cache: "courteous env \<Longrightarrow> calm env (cache_inv env)"
  unfolding calm_def courteous_def using cache_inv_mono by blast

lemma calm_temporary: "courteous env \<Longrightarrow> calm env (holds_only env as (temporary_dir env i k))"
  unfolding calm_def courteous_def holds_only_def by blast

lemma files_add: "files (w\<lparr>st_nodes := st_nodes w @ [(p, File b)]\<rparr>) = insert (p, b) (files w)"
  by (auto simp: files_def)

lemma files_moved:
  assumes "(q, x) \<in> files (w\<lparr>st_nodes := map (moved a b) (filter (\<lambda>n. fst n \<noteq> b) (st_nodes w))\<rparr>)"
  obtains "(q, x) \<in> files w" "\<not> prefix a q" | r where "q = b @ r" "(a @ r, x) \<in> files w"
  using assms by (auto simp: files_def moved_def prefix_def split: if_splits)

section \<open>Every operation keeps it\<close>

lemma rootfs_not_entry: "prefix (resolve_path (ve_cacheDirectory env) @ [''rootfs'']) q \<Longrightarrow> \<not> prefix (snapshot_dir env i) q"
  unfolding snapshot_dir_def by (auto simp: prefix_def)

lemma rootfs_pres:
  assumes "courteous env" and "prefix (resolve_path (ve_cacheDirectory env) @ [''rootfs'']) (resolve_path p)"
  shows "pres (cache_inv env) (writeFile env p b)" "pres (cache_inv env) (copyFile env from p)" "pres (cache_inv env) (fs_rename env from p)"
proof -
  have out: "\<not> prefix (snapshot_dir env i) (resolve_path p @ r)" for i r
    using assms(2) by (intro rootfs_not_entry) (simp add: prefix_prefix)
  note calm = calm_cache [OF assms(1)]
  show "pres (cache_inv env) (writeFile env p b)"
    by (rule write_pres [OF calm], erule cache_inv_mono) (use out [of _ "[]"] in \<open>auto simp: files_add\<close>)
  show "pres (cache_inv env) (copyFile env from p)"
    by (rule copy_pres [OF calm], erule cache_inv_mono) (use out [of _ "[]"] in \<open>auto simp: files_def\<close>)
  show "pres (cache_inv env) (fs_rename env from p)"
    by (rule rename_pres [OF calm], erule cache_inv_mono) (use out in \<open>auto elim: files_moved\<close>)
qed

lemma triple_keeps: "pres I m \<Longrightarrow> (\<And>w. P w \<Longrightarrow> I w) \<Longrightarrow> (\<And>w. I w \<Longrightarrow> E w) \<Longrightarrow> triple P m (\<lambda>_. I) (\<lambda>_. E)"
  by (rule triple_conseq [OF triple_pres [of I]]) auto

lemma triple_state: "(\<And>w. J w \<Longrightarrow> I (snd (m w))) \<Longrightarrow> triple J m (\<lambda>_. I) (\<lambda>_. I)"
  by (rule tripleI) (metis snd_conv)+

text \<open>A call of the file system that moves from one assertion to another.\<close>

lemma fs_call_triple:
  assumes "calm env I" and "\<And>w. J w \<Longrightarrow> I w" and "\<And>w. J w \<Longrightarrow> J (w\<lparr>calls := Suc (calls w)\<rparr>)"
    and "\<And>w x ns. J w \<Longrightarrow> f (st_nodes w) = Inr (x, ns) \<Longrightarrow> I (w\<lparr>st_nodes := ns\<rparr>)"
  shows "triple J (fs_call env f) (\<lambda>_. I) (\<lambda>_. I)"
proof -
  show ?thesis
  proof (rule triple_state)
    fix w assume w: "J w"
    have "I (w\<lparr>calls := Suc (calls w)\<rparr>)" using assms(2,3) w by blast
    moreover have "I (w\<lparr>calls := Suc (calls w), st_nodes := ns\<rparr>)" if "f (st_nodes w) = Inr (x, ns)" for x ns
      using assms(4) [OF assms(3) [OF w]] that by simp
    moreover have "I v \<Longrightarrow> I (ve_others env n v)" for n v using assms(1) by (simp add: calm_def)
    ultimately show "I (snd (fs_call env f w))" by (auto simp: fs_call_def pause_def next_outcome_def split: sum.splits prod.splits)
  qed
qed

lemma rm_empties:
  assumes "courteous env" and "resolve_path p = temporary_dir env i k"
  shows "triple (cache_inv env) (rm env p) (\<lambda>_ w. cache_inv env w \<and> holds_only env as (temporary_dir env i k) w) (\<lambda>_. cache_inv env)"
proof -
  have keep: "pres (cache_inv env) (rm env p)" by (rule calm_reads(7) [OF calm_cache [OF assms(1)]])
  have "holds_only env as (temporary_dir env i k) w'" if "rm env p w = (Inr x, w')" for w x w'
  proof -
    have "fault w (calls w) = Ok" using that by (auto simp: rm_def pause_def next_outcome_def split: if_splits)
    then have w': "w' = ve_others env (Suc (calls w)) (w\<lparr>calls := Suc (calls w),
        st_nodes := filter (\<lambda>n. \<not> prefix (temporary_dir env i k) (fst n)) (st_nodes w)\<rparr>)"
      using that by (auto simp: rm_def pause_def next_outcome_def assms(2))
    have "(q, b) \<notin> files w'" if "prefix (temporary_dir env i k) q" for q b
    proof
      assume "(q, b) \<in> files w'"
      then have "(q, b) \<in> files (w\<lparr>calls := Suc (calls w), st_nodes := filter (\<lambda>n. \<not> prefix (temporary_dir env i k) (fst n)) (st_nodes w)\<rparr>)"
        using assms(1) that unfolding courteous_def w' by blast
      with that show False by (simp add: files_def)
    qed
    then show ?thesis unfolding holds_only_def by blast
  qed
  then show ?thesis using presD [OF keep] by (intro tripleI) auto
qed

lemma rename_entry:
  assumes "courteous env" "authentic env snapshotManifestSchema data" "snapshot_id_ok i"
    and a: "resolve_path from = temporary_dir env i k" and b: "resolve_path to = snapshot_dir env i"
  shows "triple (\<lambda>w. cache_inv env w \<and> holds_only env (artifacts_of data) (temporary_dir env i k) w) (fs_rename env from to)
     (\<lambda>_. cache_inv env) (\<lambda>_. cache_inv env)"
  unfolding fs_rename_def
proof (rule fs_call_triple [OF calm_cache [OF assms(1)]])
  let ?t = "temporary_dir env i k" and ?d = "snapshot_dir env i"
  fix w :: store_world and x ns
  assume J: "cache_inv env w \<and> holds_only env (artifacts_of data) ?t w"
    and step: "(let a = resolve_path from; b = resolve_path to in case map_of (st_nodes w) a of None \<Rightarrow> Inl ForeignError
      | Some v \<Rightarrow> if map_of (st_nodes w) (butlast b) \<noteq> Some Dir \<or> v = Dir \<and> list_ex (\<lambda>n. prefix b (fst n) \<and> n \<noteq> (b, Dir)) (st_nodes w)
          \<or> v \<noteq> Dir \<and> map_of (st_nodes w) b = Some Dir then Inl ForeignError
        else Inr ((), map (moved a b) (filter (\<lambda>n. fst n \<noteq> b) (st_nodes w)))) = Inr (x, ns)"
  let ?w' = "w\<lparr>st_nodes := map (moved ?t ?d) (filter (\<lambda>n. fst n \<noteq> ?d) (st_nodes w))\<rparr>"
  obtain v where v: "map_of (st_nodes w) ?t = Some v" and ns: "w\<lparr>st_nodes := ns\<rparr> = ?w'"
    and guard: "v = Dir \<longrightarrow> (\<forall>n \<in> set (st_nodes w). prefix ?d (fst n) \<longrightarrow> n = (?d, Dir))"
    using step by (auto simp: Let_def a b list_ex_iff split: option.splits if_splits)
  have "v = Dir"
  proof (rule ccontr)
    assume "v \<noteq> Dir"
    then obtain bytes where "(?t, bytes) \<in> files w" using v by (cases v) (auto simp: files_def dest: map_of_SomeD)
    with J show False unfolding holds_only_def by force
  qed
  with guard have empty: "(q, y) \<in> files w \<Longrightarrow> \<not> prefix ?d q" for q y by (force simp: files_def)
  have "cache_inv env ?w'"
    unfolding cache_inv_def
  proof (intro allI impI)
    fix j assume j: "snapshot_id_ok j"
    show "(\<forall>q b. (q, b) \<in> files ?w' \<longrightarrow> \<not> prefix (snapshot_dir env j) q)
       \<or> (\<exists>data. authentic env snapshotManifestSchema data \<and> holds_only env (artifacts_of data) (snapshot_dir env j) ?w')"
    proof (cases "j = i")
      case True
      have "\<exists>name. q = ?d @ [name] \<and> fits env (artifacts_of data) name y" if "(q, y) \<in> files ?w'" "prefix ?d q" for q y
        using that(1)
      proof (rule files_moved)
        assume "(q, y) \<in> files w" "\<not> prefix ?t q"
        with empty that(2) show ?thesis by blast
      next
        fix r assume r: "q = ?d @ r" "(?t @ r, y) \<in> files w"
        with J obtain name where "?t @ r = ?t @ [name]" "fits env (artifacts_of data) name y" unfolding holds_only_def by (meson prefixI)
        with r show ?thesis by simp
      qed
      with assms(2) True show ?thesis unfolding holds_only_def by blast
    next
      case False
      have "(q, y) \<in> files w" if "(q, y) \<in> files ?w'" "prefix (snapshot_dir env j) q" for q y
        using that(1) by (rule files_moved) (use that(2) False dir_prefix in auto)
      with J j show ?thesis unfolding cache_inv_def holds_only_def by meson
    qed
  qed
  then show "cache_inv env (w\<lparr>st_nodes := ns\<rparr>)" using ns by simp
qed (auto simp: cache_inv_def holds_only_def files_def)

lemma triple_value:
  assumes "pres I m" and "\<And>w x w'. m w = (Inr x, w') \<Longrightarrow> \<phi> x"
  shows "triple I m (\<lambda>x w. I w \<and> \<phi> x) (\<lambda>_. I)"
  by (rule tripleI) (use presD [OF assms(1)] assms(2) in blast)+

lemma pres_triple: "triple I m (\<lambda>_. I) (\<lambda>_. I) \<Longrightarrow> pres I m"
  unfolding pres_def by (intro allI impI) (rule triple_snd)

lemma triple_if: "(b \<Longrightarrow> triple P m Q E) \<Longrightarrow> (\<not> b \<Longrightarrow> triple P n Q E) \<Longrightarrow> triple P (if b then m else n) Q E"
  by simp

lemma expand_value: "expand env message a w = (Inr body, w') \<Longrightarrow> int (length body) = ar_size a \<and> ve_sha256 env body = ar_sha256 a"
  unfolding expand_def by (elim bndE) (auto simp: proc_defs split: if_splits)

lemma pres_answer: "(\<And>n. pres I (f (Refused n))) \<Longrightarrow> pres I (f Done) \<Longrightarrow> (\<And>v. pres I (f (PutDone v))) \<Longrightarrow> (\<And>v. pres I (f (HeadDone v)))
    \<Longrightarrow> (\<And>v. pres I (f (GetDone v))) \<Longrightarrow> pres I (f answer)"
  by (cases answer) auto

lemma download_pres:
  assumes "calm env I"
  shows "pres I (download env ob)"
  unfolding download_def
proof (intro pres_bnd calm_reads(8) [OF assms])
  show "pres I (case answer of GetDone None \<Rightarrow> throw (Caisson SANDBOX_FAILED ''snapshot object is empty'')
      | GetDone (Some bytes) \<Rightarrow> if int (length bytes) \<noteq> ob_sizeBytes ob \<or> ve_sha256 env bytes \<noteq> ob_sha256 ob
          then throw (Caisson SANDBOX_FAILED ''snapshot object integrity verification failed'') else ret bytes
      | _ \<Rightarrow> throw ForeignError)" for answer
    by (auto split: store_answer.splits option.splits intro!: pres_rules)
qed

lemma expand_pres: "calm env I \<Longrightarrow> pres I (expand env message a)"
  unfolding expand_def by (intro pres_bnd download_pres pres_of_result pres_if pres_throw pres_ret)

lemma succeeds_pres: "pres I m \<Longrightarrow> pres I (succeeds m)"
  unfolding succeeds_def by (intro pres_try_catch pres_bnd pres_ret)

lemma pres_values: "(\<And>m. m \<in> set ms \<Longrightarrow> pres I m) \<Longrightarrow> pres I (promise_values ms)"
proof (induction ms)
  case (Cons m ms)
  then have "pres I m" "pres I (promise_values ms)" by auto
  then show ?case unfolding pres_def by (auto split: prod.splits)
qed (simp add: pres_ret)

lemma evict_loop_pres: "calm env I \<Longrightarrow> pres I (evict_loop env es used)"
  by (induction es arbitrary: used) (auto intro!: pres_rules)

lemma entry_pres: "calm env I \<Longrightarrow> pres I (entry env kind directory name)"
  unfolding entry_def Let_def by (intro pres_bnd pres_gets calm_reads(2) pres_ret)

lemma evict_pres: "calm env I \<Longrightarrow> pres I (evict env)"
  unfolding evict_def Let_def
  by (intro pres_bnd pres_try_catch calm_reads(5) pres_ret pres_values evict_loop_pres)
    (auto intro: entry_pres calm_reads(6))

lemma temporary_path:
  assumes "plain_digests env" "snapshot_id_ok i"
  shows "resolve_path (path_join [ve_cacheDirectory env, ''snapshots'', i] @ ''.tmp-'' @ ve_uuid env k) = temporary_dir env i k"
    and "resolve_path (path_join [ve_cacheDirectory env, ''snapshots'', i]) = snapshot_dir env i"
proof -
  have u: "CHR ''/'' \<notin> set (''.tmp-'' @ ve_uuid env k)" and i: "plain_segment i" "plain_segment (i @ ''.tmp-'' @ ve_uuid env k)"
    using assms by (auto simp: plain_digests_def snapshot_id_ok_def plain_segment_def append_eq_Cons_conv)
  have s: "plain_segment ''snapshots''" by (simp add: plain_segment_def)
  show "resolve_path (path_join [ve_cacheDirectory env, ''snapshots'', i] @ ''.tmp-'' @ ve_uuid env k) = temporary_dir env i k"
    using resolve_longer [OF i u, of "ve_cacheDirectory env" "''snapshots''"] resolve_segment [OF s, of "ve_cacheDirectory env"]
    by (simp add: temporary_dir_def snapshot_dir_def)
  show "resolve_path (path_join [ve_cacheDirectory env, ''snapshots'', i]) = snapshot_dir env i"
    using resolve_join2 [OF s i(1)] by (simp add: snapshot_dir_def)
qed

lemma write_temporary:
  assumes "courteous env" "resolve_path p = temporary_dir env i k" "plain_segment name" "fits env as name b"
  shows "pres (\<lambda>w. cache_inv env w \<and> holds_only env as (temporary_dir env i k) w) (writeFile env (path_join [p, name]) b)"
proof (rule write_pres [OF calm_conj [OF calm_cache [OF assms(1)] calm_temporary [OF assms(1)]]])
  fix w :: store_world assume w: "cache_inv env w \<and> holds_only env as (temporary_dir env i k) w"
  let ?w' = "w\<lparr>st_nodes := st_nodes w @ [(resolve_path (path_join [p, name]), File b)]\<rparr>"
  have f: "files ?w' = insert (temporary_dir env i k @ [name], b) (files w)"
    by (simp only: files_add resolve_join1 [OF assms(3)] assms(2))
  have "cache_inv env ?w'" by (rule cache_inv_mono [of env w]) (use w f tmp_not_entry [of _ env i k "[name]"] in auto)
  moreover have "holds_only env as (temporary_dir env i k) ?w'" using w assms(4) unfolding holds_only_def f by blast
  ultimately show "cache_inv env ?w' \<and> holds_only env as (temporary_dir env i k) ?w'" ..
qed

lemma artifact_triple:
  assumes "courteous env" "resolve_path p = temporary_dir env i k" "plain_segment (ar_name a)" "a \<in> set as"
  shows "pres (\<lambda>w. cache_inv env w \<and> holds_only env as (temporary_dir env i k) w) (write_artifact env p a)"
proof (cases "ar_name a = ''rootfs''")
  case False
  let ?J = "\<lambda>w. cache_inv env w \<and> holds_only env as (temporary_dir env i k) w"
  have calm: "calm env ?J" by (rule calm_conj [OF calm_cache [OF assms(1)] calm_temporary [OF assms(1)]])
  have "triple ?J (write_artifact env p a) (\<lambda>_. ?J) (\<lambda>_. ?J)"
    unfolding write_artifact_def if_not_P [OF False]
  proof (rule triple_bnd [OF triple_value [OF expand_pres [OF calm] expand_value]], assumption, rule triple_fact)
    fix body assume "int (length body) = ar_size a \<and> ve_sha256 env body = ar_sha256 a"
    then have "fits env as (ar_name a) body" using assms(4) False by (auto simp: fits_def)
    then show "triple ?J (writeFile env (path_join [p, ar_name a]) body) (\<lambda>_. ?J) (\<lambda>_. ?J)"
      by (intro triple_pres write_temporary [OF assms(1-3)])
  qed
  then show ?thesis by (rule pres_triple)
qed (simp add: write_artifact_def pres_ret)

lemma materialize_pres:
  assumes c: "courteous env" and d: "plain_digests env" and i: "snapshot_id_ok i"
    and m: "authentic env snapshotManifestSchema data" "\<And>a. a \<in> set (artifacts_of data) \<Longrightarrow> plain_segment (ar_name a)"
  shows "pres (cache_inv env) (materialize env (path_join [ve_cacheDirectory env, ''snapshots'', i]) (artifacts_of data))"
proof -
  let ?dest = "path_join [ve_cacheDirectory env, ''snapshots'', i]" and ?as = "artifacts_of data" and ?I = "cache_inv env"
  define J where "J k w \<longleftrightarrow> cache_inv env w \<and> holds_only env ?as (temporary_dir env i k) w" for k w
  note calm = calm_cache [OF c] and path = temporary_path [OF d i]
  have calmJ: "calm env (J k)" for k unfolding J_def by (rule calm_conj [OF calm calm_temporary [OF c]])
  have dot: "plain_segment ''.complete''" "fits env ?as ''.complete'' verified_marker" by (simp_all add: plain_segment_def fits_def)
  have JI: "J k w \<Longrightarrow> ?I w" for k w by (simp add: J_def)
  have keep: "triple (J k) m' (\<lambda>_. J k) (\<lambda>_. ?I)" if "pres (J k) m'" for k and m' :: "(store_world, 'x) proc"
    by (rule triple_keeps [OF that]) (auto simp: J_def)
  have body: "triple (J k)
      (seq (for_each ?as (write_artifact env (?dest @ ''.tmp-'' @ ve_uuid env k)))
      (seq (writeFile env (path_join [?dest @ ''.tmp-'' @ ve_uuid env k, ''.complete'']) verified_marker)
      (seq (mkdir env (dirname ?dest))
      (bnd (succeeds (seq (fs_stat env ?dest) (rm env (?dest @ ''.tmp-'' @ ve_uuid env k)))) (\<lambda>present.
       if present then ret () else fs_rename env (?dest @ ''.tmp-'' @ ve_uuid env k) ?dest))))) (\<lambda>_. ?I) (\<lambda>_. ?I)" for k
  proof (intro triple_bnd [OF keep] triple_if)
    show "pres (J k) (for_each ?as (write_artifact env (?dest @ ''.tmp-'' @ ve_uuid env k)))"
    proof -
      have "pres (J k) (for_each xs (write_artifact env (?dest @ ''.tmp-'' @ ve_uuid env k)))" if "set xs \<subseteq> set ?as" for xs
        using that
      proof (induction xs)
        case (Cons a xs)
        then show ?case unfolding for_each.simps
          by (intro pres_bnd) (use artifact_triple [OF c path(1)] m(2) in \<open>auto simp: J_def\<close>)
      qed (simp add: pres_ret)
      then show ?thesis by blast
    qed
    show "pres (J k) (writeFile env (path_join [?dest @ ''.tmp-'' @ ve_uuid env k, ''.complete'']) verified_marker)"
      unfolding J_def by (rule write_temporary [OF c path(1) dot])
    show "pres (J k) (mkdir env (dirname ?dest))" by (rule calm_reads(4) [OF calmJ])
    show "pres (J k) (succeeds (seq (fs_stat env ?dest) (rm env (?dest @ ''.tmp-'' @ ve_uuid env k))))"
      by (intro succeeds_pres pres_bnd calm_reads [OF calmJ])
    show "triple (J k) (ret ()) (\<lambda>_. ?I) (\<lambda>_. ?I)" by (rule triple_ret) (rule JI)
    show "triple (J k) (fs_rename env (?dest @ ''.tmp-'' @ ve_uuid env k) ?dest) (\<lambda>_. ?I) (\<lambda>_. ?I)"
      unfolding J_def by (rule rename_entry [OF c m(1) i path])
  qed
  have fresh: "triple ?I (fresh_uuid env) (\<lambda>u w. ?I w \<and> (\<exists>k. u = ve_uuid env k)) (\<lambda>_. ?I)"
    by (rule triple_value) (auto simp: fresh_uuid_def gets_def pres_def)
  have cleanup: "triple ?I (seq (rm env t) (throw e)) (\<lambda>_. ?I) (\<lambda>_. ?I)" for t and e :: js_error
    by (intro triple_pres pres_bnd calm_reads(7) [OF calm] pres_throw)
  have work: "triple ?I (seq (rm env t) (seq (mkdir env t) (try_catch b (\<lambda>e. seq (rm env t) (throw e))))) (\<lambda>_. ?I) (\<lambda>_. ?I)"
    if "t = ?dest @ ''.tmp-'' @ ve_uuid env k" "triple (J k) b (\<lambda>_. ?I) (\<lambda>_. ?I)" for t k b
  proof (rule triple_bnd)
    show "triple ?I (rm env t) (\<lambda>_. J k) (\<lambda>_. ?I)" unfolding that(1) J_def by (rule rm_empties [OF c path(1)])
    show "triple (J k) (seq (mkdir env t) (try_catch b (\<lambda>e. seq (rm env t) (throw e)))) (\<lambda>_. ?I) (\<lambda>_. ?I)"
      by (rule triple_bnd [OF keep [OF calm_reads(4) [OF calmJ]] triple_try_catch [OF that(2) cleanup]])
  qed
  have inner: "pres ?I (bnd (fresh_uuid env) (\<lambda>u. let temporary = ?dest @ ''.tmp-'' @ u in
       seq (rm env temporary) (seq (mkdir env temporary) (try_catch (seq (for_each ?as (write_artifact env temporary))
         (seq (writeFile env (path_join [temporary, ''.complete'']) verified_marker) (seq (mkdir env (dirname ?dest))
         (bnd (succeeds (seq (fs_stat env ?dest) (rm env temporary))) (\<lambda>present. if present then ret () else fs_rename env temporary ?dest)))))
         (\<lambda>e. seq (rm env temporary) (throw e))))))"
    by (rule pres_triple [OF triple_bnd [OF fresh]], unfold Let_def, rule triple_fact, erule exE, hypsubst, rule work [OF refl body])
  show ?thesis unfolding materialize_def
    by (intro pres_bnd [OF succeeds_pres] pres_if pres_ret inner pres_bnd [OF calm_reads(2) [OF calm]] calm_reads(3) [OF calm])
qed

text \<open>A temporary name beside a path below a directory is below it too.\<close>

lemma suffix_below:
  assumes "plain_digests env" "strict_prefix q (resolve_path p)"
  shows "prefix q (resolve_path (p @ ''.tmp-'' @ ve_uuid env k))"
proof (rule below_longer [OF assms(2)])
  show slash: "CHR ''/'' \<notin> set (''.tmp-'' @ ve_uuid env k)" using assms(1) by (simp add: plain_digests_def)
  show "plain_segment (s @ ''.tmp-'' @ ve_uuid env k) \<or> CHR ''/'' \<in> set s" for s
    using slash by (auto simp: plain_segment_def append_eq_Cons_conv)
qed

lemma fresh_triple: "triple I (fresh_uuid env) (\<lambda>u w. I w \<and> (\<exists>k. u = ve_uuid env k)) (\<lambda>_. I)"
  by (rule triple_value) (auto simp: fresh_uuid_def gets_def pres_def)

lemma fresh_pres: "(\<And>k. pres I (f (ve_uuid env k))) \<Longrightarrow> pres I (bnd (fresh_uuid env) f)"
  unfolding pres_def by (simp add: fresh_uuid_def bnd_def gets_def)

lemma materializeRootfs_pres:
  assumes "courteous env" "plain_digests env"
  shows "pres (cache_inv env) (materializeRootfs env data)"
proof -
  let ?r = "rootfsRestorePath data" and ?R = "resolve_path (ve_cacheDirectory env) @ [''rootfs'']"
  note calm = calm_cache [OF assms(1)]
  have R: "resolve_path (path_join [ve_cacheDirectory env, ''rootfs'']) = ?R" by (rule resolve_join1) (simp add: plain_segment_def)
  show ?thesis
  proof (cases "isPathInside ?r (path_join [ve_cacheDirectory env, ''rootfs''])")
    case False
    then show ?thesis by (simp add: materializeRootfs_def Let_def pres_throw split: option.splits)
  next
    case True
    then have below: "strict_prefix ?R (resolve_path ?r)" using inside_below R by metis
    have "prefix ?R (resolve_path ?r)" using below by (simp add: strict_prefix_def)
    note writes = rootfs_pres [OF assms(1) this] rootfs_pres [OF assms(1) suffix_below [OF assms(2) below]]
    show ?thesis unfolding materializeRootfs_def Let_def
      by (intro pres_case_option fresh_pres pres_bnd pres_try_catch pres_if pres_ret pres_throw calm_reads [OF calm] expand_pres [OF calm] writes)
  qed
qed

lemma materializeRootfs_inside:
  "materializeRootfs env data w = (Inr x, w') \<Longrightarrow> isPathInside (rootfsRestorePath data) (path_join [ve_cacheDirectory env, ''rootfs''])"
  by (auto simp: materializeRootfs_def Let_def throw_def split: option.splits if_splits)

lemma stage_pres:
  assumes "courteous env" "plain_digests env"
  shows "pres (cache_inv env) (stageBaseRootfs env source)"
proof -
  note calm = calm_cache [OF assms(1)]
  let ?dest = "\<lambda>b. path_join [ve_cacheDirectory env, ''rootfs'', ve_sha256 env b, ''rootfs'']"
  have "resolve_path (?dest b) = resolve_path (ve_cacheDirectory env) @ [''rootfs'', ve_sha256 env b, ''rootfs'']" for b
  proof -
    have p: "plain_segment ''rootfs''" "plain_segment (ve_sha256 env b)" using assms(2) by (auto simp: plain_digests_def plain_segment_def)
    show ?thesis using resolve_segment [OF p(1), of "ve_cacheDirectory env @ ''/rootfs/'' @ ve_sha256 env b"]
        resolve_segment [OF p(2), of "ve_cacheDirectory env @ ''/rootfs''"] resolve_segment [OF p(1), of "ve_cacheDirectory env"]
      by (simp add: resolve_join)
  qed
  then have below: "strict_prefix (resolve_path (ve_cacheDirectory env) @ [''rootfs'']) (resolve_path (?dest b))" for b
    by (simp add: strict_prefix_def prefix_def)
  then have "prefix (resolve_path (ve_cacheDirectory env) @ [''rootfs'']) (resolve_path (?dest b))" for b by (simp add: strict_prefix_def)
  note writes = rootfs_pres [OF assms(1) this] rootfs_pres [OF assms(1) suffix_below [OF assms(2) below]]
  show ?thesis unfolding stageBaseRootfs_def Let_def
    by (intro fresh_pres pres_bnd pres_try_catch pres_if pres_ret pres_throw succeeds_pres calm_reads [OF calm] writes)
qed

section \<open>Names in a manifest\<close>

lemma ascii_js [simp]: "ascii (js s) = s"
proof -
  have "char_of (uint (word_of_int (of_char c) :: 16 word)) = c" for c
  proof -
    have "(of_char c :: int) < 256" "0 \<le> (of_char c :: int)"
      using of_char_mod_256 [of c, where 'a = int] pos_mod_bound [of 256 "of_char c"] pos_mod_sign [of 256 "of_char c :: int"] by simp_all
    then have "uint (word_of_int (of_char c) :: 16 word) = of_char c" by (simp add: uint_word_of_int)
    then show ?thesis by simp
  qed
  then show ?thesis by (induction s) (simp_all add: ascii_def js_def)
qed

lemma all_some_eq: "all_some xs = Some ys \<Longrightarrow> xs = map Some ys"
  by (induction xs arbitrary: ys rule: all_some.induct) (auto split: option.splits)

lemma parsed_keys: "parse_fields parse fs kvs = Some ps \<Longrightarrow> js k \<notin> js ` fst ` set fs \<Longrightarrow> map_of ps (js k) = None"
proof (induction fs arbitrary: ps)
  case (Cons f fs)
  obtain n pr s where f: "f = (n, pr, s)" by (cases f)
  from Cons show ?case unfolding f by (auto split: option.splits presence.splits)
qed simp

lemma parsed_required:
  "parse_fields parse fs kvs = Some ps \<Longrightarrow> distinct (map fst fs) \<Longrightarrow> (k, Required, s) \<in> set fs
     \<Longrightarrow> \<exists>x y. map_of kvs (js k) = Some x \<and> parse s x = Some y \<and> map_of ps (js k) = Some y"
proof (induction fs arbitrary: ps)
  case (Cons f fs)
  obtain n pr t where f: "f = (n, pr, t)" by (cases f)
  show ?case
  proof (cases "n = k")
    case True
    with Cons.prems f have "pr = Required" "t = s" by (auto simp: image_iff)
    with Cons.prems(1) f True show ?thesis by (auto split: option.splits)
  next
    case False
    with Cons.prems f have "(k, Required, s) \<in> set fs" "distinct (map fst fs)" by auto
    moreover obtain qs where "parse_fields parse fs kvs = Some qs" "ps = qs \<or> (\<exists>y. ps = (js n, y) # qs)"
      using Cons.prems(1) f by (auto split: option.splits presence.splits)
    ultimately show ?thesis using Cons.IH False by fastforce
  qed
qed simp

context schema_library
begin

lemma object_field:
  assumes "parse (ZObject mode fs) v = Some u" "distinct (map fst fs)" "(k, Required, s) \<in> set fs"
  shows "\<exists>x. parse s x = Some (field u k)"
proof -
  obtain kvs where v: "v = JObj kvs" using assms(1) by (auto simp: parse_object split: json.splits)
  obtain ps where "u = JObj (ps @ (if mode = Passthrough then filter (\<lambda>kv. fst kv \<notin> known_keys fs) kvs else []))" "parse_fields parse fs kvs = Some ps"
    using assms(1) unfolding v parse_object by (auto split: if_splits)
  with parsed_required [OF this(2) assms(2,3)] show ?thesis by (fastforce simp: field_def map_add_def split: option.splits)
qed

lemma array_items: "parse (ZArray s lo hi) v = Some u \<Longrightarrow> in_bounds lo hi (length (items u)) \<and> (\<forall>y \<in> set (items u). \<exists>x. parse s x = Some y)"
  by (auto simp: parse_array items_def dest!: all_some_eq split: json.splits if_splits)
    (metis length_map, metis (no_types, lifting) imageE image_eqI list.set_map)

lemma enum_value: "parse (ZEnum names) v = Some u \<Longrightarrow> \<exists>n \<in> set names. u = JStr (js n)"
  by (auto simp: parse_enum split: json.splits if_splits)

lemma manifest_names:
  assumes "parse snapshotManifestSchema raw = Some data"
  shows "distinct (map ar_name (artifacts_of data)) \<and> set (map ar_name (artifacts_of data)) = {''state'', ''memory'', ''rootfs'', ''kernel''}"
proof -
  let ?names = "[''state'', ''memory'', ''rootfs'', ''kernel'']" and ?us = "items (field data ''artifacts'')"
  define fs where "fs = [req ''name'' (ZEnum ?names), req ''object'' snapshotObjectRefSchema,
       req ''uncompressedSha256'' zhex64, req ''uncompressedSizeBytes'' zsize, req ''compression'' (lit ''gzip'')]"
  let ?entry = "ZObject Strip fs"
  have "distinct (map fst fs)" "(''name'', Required, ZEnum ?names) \<in> set fs" by (simp_all add: fs_def)
  note name_field = object_field [OF _ this]
  define ms where "ms = [req ''version'' (ZLiteral (JNum 1)), req ''snapshotId'' (ZString [SMin 1]), req ''kind'' (lit ''base''),
     req ''createdAt'' (ZString [SFormat FDatetime]), req ''keyId'' (ZString [SMin 1]),
     req ''artifacts'' (ZRefine (ZArray ?entry (Some 4) (Some 4)) unique_names), req ''rootfsRestorePath'' (ZString [SMin 1]), req ''signature'' zhex64]"
  have "parse (ZObject Strip ms) raw = Some data" using assms unfolding snapshotManifestSchema_def ms_def fs_def .
  moreover have "distinct (map fst ms)" "(''artifacts'', Required, ZRefine (ZArray ?entry (Some 4) (Some 4)) unique_names) \<in> set ms" by (simp_all add: ms_def)
  ultimately obtain x where "parse (ZRefine (ZArray ?entry (Some 4) (Some 4)) unique_names) x = Some (field data ''artifacts'')"
    using object_field by blast
  then have array: "parse (ZArray ?entry (Some 4) (Some 4)) x = Some (field data ''artifacts'')" and unique: "unique_names (field data ''artifacts'')"
    by (auto simp: parse_refine split: option.splits if_splits)
  have four: "length ?us = 4" and each: "\<And>u. u \<in> set ?us \<Longrightarrow> \<exists>v. parse ?entry v = Some u"
    using array_items [OF array] by (auto simp: in_bounds_def)
  have name: "ascii (text_field u ''name'') \<in> set ?names" "field u ''name'' = JStr (js (ascii (text_field u ''name'')))" if "u \<in> set ?us" for u
  proof -
    obtain v where "parse ?entry v = Some u" using each \<open>u \<in> set ?us\<close> by blast
    from name_field [OF this] obtain y where "parse (ZEnum ?names) y = Some (field u ''name'')" by blast
    then obtain n where "n \<in> set ?names" "field u ''name'' = JStr (js n)" using enum_value by blast
    then show "ascii (text_field u ''name'') \<in> set ?names" "field u ''name'' = JStr (js (ascii (text_field u ''name'')))"
      by (simp_all only: text_field_def json.case ascii_js)
  qed
  have names: "map ar_name (artifacts_of data) = map (\<lambda>u. ascii (text_field u ''name'')) ?us" by (simp add: artifacts_of_def)
  have "distinct (map (\<lambda>u. field u ''name'') ?us)" using unique by (auto simp: unique_names_def items_def split: json.splits)
  then have "distinct (map (\<lambda>u. JStr (js (ascii (text_field u ''name'')))) ?us)" using name(2) by (simp cong: map_cong)
  then have d: "distinct (map (\<lambda>u. ascii (text_field u ''name'')) ?us)" by (simp add: distinct_map inj_on_def)
  then have "card (set (map (\<lambda>u. ascii (text_field u ''name'')) ?us)) = 4" using four distinct_card by fastforce
  moreover have "set (map (\<lambda>u. ascii (text_field u ''name'')) ?us) \<subseteq> set ?names" using name(1) by auto
  moreover have "card (set ?names) = 4" by simp
  ultimately have "set (map (\<lambda>u. ascii (text_field u ''name'')) ?us) = set ?names" by (metis card_subset_eq List.finite_set)
  with d show ?thesis unfolding names by simp
qed

end

lemma authentic_names:
  assumes "schema_library fmt (ve_parse env)" "authentic env snapshotManifestSchema data"
  shows "set (map ar_name (artifacts_of data)) = {''state'', ''memory'', ''rootfs'', ''kernel''}"
    and "a \<in> set (artifacts_of data) \<Longrightarrow> plain_segment (ar_name a)"
proof -
  show names: "set (map ar_name (artifacts_of data)) = {''state'', ''memory'', ''rootfs'', ''kernel''}"
    using schema_library.manifest_names [OF assms(1)] assms(2) unfolding authentic_def by blast
  show "plain_segment (ar_name a)" if "a \<in> set (artifacts_of data)"
  proof -
    have "ar_name a \<in> {''state'', ''memory'', ''rootfs'', ''kernel''}" using that names by auto
    then show ?thesis by (auto simp: plain_segment_def)
  qed
qed

section \<open>Verified restore\<close>

lemma read_signed_value: "read_signed env s what ob w = (Inr data, w') \<Longrightarrow> authentic env s data"
proof -
  assume "read_signed env s what ob w = (Inr data, w')"
  then obtain bytes w1 where "(case Option.bind (ve_jparse env (utf8_decode bytes)) (ve_parse env s) of
       None \<Rightarrow> throw (Caisson SANDBOX_FAILED (what @ '' is invalid''))
     | Some data \<Rightarrow> bnd (key_call env (ve_resolveKey env (ascii (text_field data ''keyId'')))) (\<lambda>key.
         if js (sign env (unsigned_of data) (mk_bytes key)) \<noteq> text_field data ''signature''
         then throw (Caisson SANDBOX_FAILED (what @ '' authentication failed'')) else ret data)) w1 = (Inr data, w')"
    unfolding read_signed_def by (elim bndE) auto
  then obtain d where d: "Option.bind (ve_jparse env (utf8_decode bytes)) (ve_parse env s) = Some d"
    and rest: "bnd (key_call env (ve_resolveKey env (ascii (text_field d ''keyId'')))) (\<lambda>key.
         if js (sign env (unsigned_of d) (mk_bytes key)) \<noteq> text_field d ''signature''
         then throw (Caisson SANDBOX_FAILED (what @ '' authentication failed'')) else ret d) w1 = (Inr data, w')"
    by (cases "Option.bind (ve_jparse env (utf8_decode bytes)) (ve_parse env s)") (auto simp: throw_def)
  from rest obtain key w2 where "key_call env (ve_resolveKey env (ascii (text_field d ''keyId''))) w1 = (Inr key, w2)"
    and "js (sign env (unsigned_of d) (mk_bytes key)) = text_field d ''signature''" "data = d"
    by (elim bndE) (auto simp: proc_defs split: if_splits)
  moreover have "\<exists>n. ve_resolveKey env (ascii (text_field d ''keyId'')) n = Inr key"
    using calculation(1) by (auto simp: key_call_def pause_def outside_def)
  ultimately show ?thesis using d unfolding authentic_def by (metis bind_eq_Some_conv)
qed

lemma read_signed_pres: "calm env I \<Longrightarrow> pres I (read_signed env s what ob)"
  unfolding read_signed_def by (intro pres_bnd download_pres pres_case_option pres_throw pres_if pres_ret calm_reads(9))

lemma calm_modify: "calm env I \<Longrightarrow> (\<And>w. st_nodes (f w) = st_nodes w) \<Longrightarrow> pres I (modify f)"
  by (rule pres_modify) (erule (1) calm_shrink, simp add: files_def)

definition restored :: "store_env \<Rightarrow> snapshot_ref \<Rightarrow> json \<Rightarrow> resolved_snapshot" where
  "restored env ref data = (let destination = path_join [ve_cacheDirectory env, ''snapshots'', rf_id ref] in
     \<lparr>rs_ref = ref, rs_statePath = path_join [destination, ''state''], rs_memoryPath = path_join [destination, ''memory''],
      rs_rootfsPath = Some (rootfsRestorePath data), rs_kernelPath = Some (path_join [destination, ''kernel''])\<rparr>)"

lemma resolve_triple:
  assumes c: "courteous env" and d: "plain_digests env" and l: "schema_library fmt (ve_parse env)" and i: "snapshot_id_ok (rf_id ref)"
  shows "triple (cache_inv env) (base_resolve env ref) (\<lambda>r w. cache_inv env w \<and> (\<exists>data. authentic env snapshotManifestSchema data
     \<and> isPathInside (rootfsRestorePath data) (path_join [ve_cacheDirectory env, ''rootfs'']) \<and> r = restored env ref data)) (\<lambda>_. cache_inv env)"
proof -
  note calm = calm_cache [OF c]
  let ?I = "cache_inv env"
  let ?Q = "\<lambda>data r w. ?I w \<and> (\<exists>data. authentic env snapshotManifestSchema data
     \<and> isPathInside (rootfsRestorePath data) (path_join [ve_cacheDirectory env, ''rootfs'']) \<and> r = restored env ref data)"
  have fin: "triple P (modify f) (\<lambda>_. P) (\<lambda>_ _. False)" if "\<And>w. P w \<Longrightarrow> P (f w)" for P and f :: "store_world \<Rightarrow> store_world"
    using that by (simp add: triple_def modify_def)
  have still: "?I w \<Longrightarrow> st_nodes w' = st_nodes w \<Longrightarrow> ?I w'" for w w' by (erule calm_shrink [OF calm]) (simp add: files_def)
  have body: "triple ?I (seq (materialize env (path_join [ve_cacheDirectory env, ''snapshots'', rf_id ref]) (artifacts_of data))
            (seq (materializeRootfs env data) (seq (modify f) (seq (evict env) (ret (restored env ref data)))))) (?Q data) (\<lambda>_. ?I)"
    if a: "authentic env snapshotManifestSchema data" and f: "\<And>w. st_nodes (f w) = st_nodes w" for data f
  proof (rule triple_bnd [OF triple_pres [OF materialize_pres [OF c d i a authentic_names(2) [OF l a]]]], assumption,
      rule triple_bnd [OF triple_value [OF materializeRootfs_pres [OF c d] materializeRootfs_inside]], assumption, rule triple_fact)
    assume "isPathInside (rootfsRestorePath data) (path_join [ve_cacheDirectory env, ''rootfs''])"
    with a show "triple ?I (seq (modify f) (seq (evict env) (ret (restored env ref data)))) (?Q data) (\<lambda>_. ?I)"
      by (intro triple_bnd [OF triple_pres [OF calm_modify [OF calm f]]] triple_bnd [OF triple_pres [OF evict_pres [OF calm]]] triple_ret) auto
  qed
  have whole: "triple ?I (seq (modify f1) (try_finally (try_catch
         (seq (materialize env (path_join [ve_cacheDirectory env, ''snapshots'', rf_id ref]) (artifacts_of data))
            (seq (materializeRootfs env data) (seq (modify f2) (seq (evict env) (ret (restored env ref data))))))
         (\<lambda>e. seq (rm env t) (throw e))) (modify f3))) (?Q data) (\<lambda>_. ?I)"
    if a: "authentic env snapshotManifestSchema data" and f: "\<And>w. st_nodes (f1 w) = st_nodes w" "\<And>w. st_nodes (f2 w) = st_nodes w" "\<And>w. st_nodes (f3 w) = st_nodes w"
    for data f1 f2 f3 t
  proof (rule triple_bnd [OF triple_pres [OF calm_modify [OF calm f(1)]] triple_try_finally [OF triple_try_catch [OF body [OF a f(2)]]]])
    show "triple ?I (seq (rm env t) (throw e)) (?Q data) (\<lambda>_. ?I)" for e
      by (intro triple_bnd [OF triple_pres [OF calm_reads(7) [OF calm]]] triple_throw)
    show "triple (?Q data x) (modify f3) (\<lambda>_. ?Q data x) (\<lambda>_ _. False)" for x by (rule fin) (use still f(3) in blast)
    show "triple ?I (modify f3) (\<lambda>_. ?I) (\<lambda>_ _. False)" by (rule fin) (use still f(3) in blast)
  qed
  show ?thesis unfolding base_resolve_def readManifest_def restored_def Let_def
    apply (rule triple_if)
     apply (rule triple_throw, assumption)
    apply (rule triple_bnd [OF triple_value [OF read_signed_pres [OF calm] read_signed_value]], assumption)
    apply (rule triple_fact)
    apply (rule whole [unfolded restored_def Let_def]; simp)
    done
qed

lemma put_pres: "calm env I \<Longrightarrow> pres I (put env key body)"
  unfolding put_def by (intro pres_bnd calm_reads(8)) (auto split: store_answer.splits intro!: pres_bnd calm_reads(8) pres_throw pres_ret)

lemma ensure_pres: "calm env I \<Longrightarrow> pres I (ensure_bucket env tolerated)"
  unfolding ensure_bucket_def by (intro pres_bnd calm_reads(8)) (auto split: store_answer.splits intro!: pres_throw pres_ret)

lemma upload_pres: "calm env I \<Longrightarrow> pres I (uploadArtifact env pre name path)"
  unfolding uploadArtifact_def by (intro pres_bnd calm_reads(1) put_pres pres_ret)

lemma store_pres:
  assumes "calm env I"
  shows "pres I (storeBase env loc)"
proof -
  have four: "m \<in> set [a, b, c, d] \<Longrightarrow> pres I a \<Longrightarrow> pres I b \<Longrightarrow> pres I c \<Longrightarrow> pres I d \<Longrightarrow> pres I m"
    for m a b c d :: "(store_world, manifest_artifact) proc" by auto
  show ?thesis unfolding storeBase_def ensureBucket_def Let_def
    by (cases "lo_kind loc"; cases "lo_rootfsPath loc"; cases "lo_kernelPath loc"; simp only: prod.case snapshot_kind.case option.case;
        intro pres_throw pres_ret pres_bnd pres_if ensure_pres [OF assms] calm_reads(9) [OF assms] pres_values put_pres [OF assms];
        erule four; rule upload_pres [OF assms])
qed

datatype base_op = StoreOp local_snapshot | ResolveOp snapshot_ref | ReleaseOp snapshot_ref | StageOp string

fun run_base_op :: "store_env \<Rightarrow> base_op \<Rightarrow> store_world \<Rightarrow> store_world" where
  "run_base_op env (StoreOp loc) w = snd (storeBase env loc w)"
| "run_base_op env (ResolveOp ref) w = snd (base_resolve env ref w)"
| "run_base_op env (ReleaseOp ref) w = snd (base_release env ref w)"
| "run_base_op env (StageOp source) w = snd (stageBaseRootfs env source w)"

fun names_id :: "base_op \<Rightarrow> bool" where
  "names_id (ResolveOp ref) = snapshot_id_ok (rf_id ref)"
| "names_id _ = True"

text \<open>The bytes have the size and digest that an authenticated manifest names for an artifact.\<close>

definition verified_bytes :: "store_env \<Rightarrow> string \<Rightarrow> byte list \<Rightarrow> bool" where
  "verified_bytes env name b \<longleftrightarrow> (\<exists>data a. authentic env snapshotManifestSchema data \<and> a \<in> set (artifacts_of data) \<and> ar_name a = name
     \<and> int (length b) = ar_size a \<and> ve_sha256 env b = ar_sha256 a)"

lemma entry_verified:
  assumes "cache_inv env w" "snapshot_id_ok i" "(snapshot_dir env i @ [name], b) \<in> files w" "name \<noteq> ''.complete''"
  shows "verified_bytes env name b"
proof -
  have "\<exists>data. authentic env snapshotManifestSchema data \<and> holds_only env (artifacts_of data) (snapshot_dir env i) w"
    using assms unfolding cache_inv_def by (meson prefixI)
  with assms(3,4) show ?thesis unfolding holds_only_def fits_def verified_bytes_def by fastforce
qed

lemma artifact_path:
  assumes "snapshot_id_ok i" "plain_segment name"
  shows "resolve_path (path_join [path_join [ve_cacheDirectory env, ''snapshots'', i], name]) = snapshot_dir env i @ [name]"
proof -
  have "plain_segment ''snapshots''" "plain_segment i" using assms(1) by (simp_all add: plain_segment_def snapshot_id_ok_def)
  with resolve_join1 [OF assms(2)] resolve_join2 show ?thesis by (simp add: snapshot_dir_def)
qed

text \<open>(C34) Restoring from the cache is safe. Whatever calls fail, and whatever other operations do to the cache at the same time as long
  as they keep it the same way and leave this operation's temporary directories alone, every operation of the store
  keeps the invariant that a cache entry holds nothing but artifacts of one authenticated manifest, with the sizes and digests it names. When a restore
  returns, its manifest was authenticated, its root file system path is below the cache's directory for them, and whatever is
  found under the state, memory and kernel paths is verified.\<close>

theorem base_restore_verified:
  assumes "courteous env" "plain_digests env" "schema_library fmt (ve_parse env)" "cache_inv env w" "names_id op"
  shows "cache_inv env (run_base_op env op w) \<and> (\<forall>ref r w'. op = ResolveOp ref \<and> base_resolve env ref w = (Inr r, w') \<longrightarrow>
     (\<exists>data. authentic env snapshotManifestSchema data \<and> rs_rootfsPath r = Some (rootfsRestorePath data)
        \<and> strict_prefix (resolve_path (ve_cacheDirectory env) @ [''rootfs'']) (resolve_path (rootfsRestorePath data)))
     \<and> (\<forall>b. (resolve_path (rs_statePath r), b) \<in> files w' \<longrightarrow> verified_bytes env ''state'' b)
     \<and> (\<forall>b. (resolve_path (rs_memoryPath r), b) \<in> files w' \<longrightarrow> verified_bytes env ''memory'' b)
     \<and> (\<forall>b. (resolve_path (the (rs_kernelPath r)), b) \<in> files w' \<longrightarrow> verified_bytes env ''kernel'' b))"
proof (intro conjI allI impI)
  note calm = calm_cache [OF assms(1)]
  show "cache_inv env (run_base_op env op w)"
  proof (cases op)
    case (ResolveOp ref)
    with assms(5) have i: "snapshot_id_ok (rf_id ref)" by simp
    have "triple (cache_inv env) (base_resolve env ref) (\<lambda>_. cache_inv env) (\<lambda>_. cache_inv env)"
      by (rule triple_conseq [OF resolve_triple [OF assms(1-3) i]]) auto
    with assms(4) ResolveOp show ?thesis by (simp add: triple_snd)
  next
    case (ReleaseOp ref)
    have "pres (cache_inv env) (base_release env ref)"
      unfolding base_release_def by (intro pres_bnd calm_modify [OF calm] evict_pres [OF calm]) simp
    with assms(4) ReleaseOp show ?thesis by (simp add: pres_def)
  qed (use assms(4) store_pres [OF calm] stage_pres [OF assms(1,2)] in \<open>auto simp: pres_def\<close>)
next
  fix ref r w' assume run: "op = ResolveOp ref \<and> base_resolve env ref w = (Inr r, w')"
  with assms(5) have i: "snapshot_id_ok (rf_id ref)" by simp
  from triple_Inr [OF resolve_triple [OF assms(1-3) i] assms(4)] run obtain data where w': "cache_inv env w'"
    and data: "authentic env snapshotManifestSchema data" "isPathInside (rootfsRestorePath data) (path_join [ve_cacheDirectory env, ''rootfs''])"
    and r: "r = restored env ref data" by blast
  have "resolve_path (path_join [ve_cacheDirectory env, ''rootfs'']) = resolve_path (ve_cacheDirectory env) @ [''rootfs'']"
    by (rule resolve_join1) (simp add: plain_segment_def)
  with data inside_below [OF data(2)] show "\<exists>data. authentic env snapshotManifestSchema data \<and> rs_rootfsPath r = Some (rootfsRestorePath data)
        \<and> strict_prefix (resolve_path (ve_cacheDirectory env) @ [''rootfs'']) (resolve_path (rootfsRestorePath data))"
    unfolding r restored_def by (auto simp: Let_def)
  have at: "(resolve_path (path_join [path_join [ve_cacheDirectory env, ''snapshots'', rf_id ref], name]), b) \<in> files w' \<Longrightarrow> verified_bytes env name b"
    if "plain_segment name" "name \<noteq> ''.complete''" for name b
    using entry_verified [OF w' i _ that(2)] artifact_path [OF i that(1)] by metis
  fix b
  show "verified_bytes env ''state'' b" if "(resolve_path (rs_statePath r), b) \<in> files w'"
    using at [of "''state''" b] that by (simp add: r restored_def Let_def plain_segment_def)
  show "verified_bytes env ''memory'' b" if "(resolve_path (rs_memoryPath r), b) \<in> files w'"
    using at [of "''memory''" b] that by (simp add: r restored_def Let_def plain_segment_def)
  show "verified_bytes env ''kernel'' b" if "(resolve_path (the (rs_kernelPath r)), b) \<in> files w'"
    using at [of "''kernel''" b] that by (simp add: r restored_def Let_def plain_segment_def)
qed

section \<open>A restore\<close>

definition demo_digest :: string where "demo_digest = replicate 64 (CHR ''a'')"

definition demo_key :: manifest_key where "demo_key = \<lparr>mk_keyId = ''mk'', mk_bytes = [1]\<rparr>"

definition demo_artifact :: "string \<Rightarrow> manifest_artifact" where
  "demo_artifact name = \<lparr>ar_name = name, ar_object = \<lparr>ob_bucket = ''b'', ob_key = ''k'', ob_versionId = None, ob_sha256 = demo_digest, ob_sizeBytes = 1\<rparr>,
     ar_sha256 = demo_digest, ar_size = 1\<rparr>"

definition demo_manifest :: json where
  "demo_manifest = with_signature (JObj [(js ''version'', JNum 1), (js ''snapshotId'', text_json ''s''), (js ''kind'', text_json ''base''),
     (js ''createdAt'', text_json ''t''), (js ''keyId'', text_json ''mk''),
     (js ''artifacts'', JArr (map (\<lambda>n. artifact_json (demo_artifact n)) [''state'', ''memory'', ''rootfs'', ''kernel''])), (js ''rootfsRestorePath'', text_json ''/c/rootfs/x/rootfs'')]) demo_digest"

definition demo_store_env :: store_env where
  "demo_store_env = \<lparr>ve_bucket = ''b'', ve_cacheDirectory = ''/c'', ve_cacheMaxBytes = 100, ve_active = env_active demo_key, ve_resolveKey = env_resolve demo_key,
     ve_crypto = demo_crypto, ve_s3 = (\<lambda>_ _. GetDone (Some [7])), ve_parse = zod (\<lambda>_ _. True), ve_stringify = (\<lambda>_. []), ve_jparse = (\<lambda>_. Some demo_manifest),
     ve_sha256 = (\<lambda>_. demo_digest), ve_hmac = (\<lambda>_ _. demo_digest), ve_gzip = id, ve_gunzip = Inr, ve_iso = (\<lambda>_. ''t''), ve_uuid = (\<lambda>_. ''u''),
     ve_mtime = (\<lambda>_ _. 0), ve_removed = (\<lambda>_ _. False), ve_others = (\<lambda>_ w. w)\<rparr>"

definition demo_store_world :: store_world where
  "demo_store_world = \<lparr>db = empty_db, sink = [], now = 1000, entropy = (\<lambda>_. []), draws = 0, fault = (\<lambda>_. Ok), calls = 0, activeEventIds = [],
     st_nodes = [], st_requests = [], st_pinned = [], st_inUse = [], st_rootfs = []\<rparr>"

definition demo_base_ref :: snapshot_ref where
  "demo_base_ref = \<lparr>rf_id = ''s'', rf_kind = Base, rf_manifest = \<lparr>ob_bucket = ''b'', ob_key = ''m'', ob_versionId = None, ob_sha256 = demo_digest, ob_sizeBytes = 1\<rparr>,
     rf_manifestKeyId = ''mk'', rf_createdAt = 0, rf_sessionId = None, rf_baseSnapshotId = None\<rparr>"

lemma demo_parsed_manifest: "zod (\<lambda>_ _. True) snapshotManifestSchema demo_manifest = Some demo_manifest" by code_simp

lemma demo_fields: "text_field demo_manifest ''keyId'' = js ''mk''" "text_field demo_manifest ''signature'' = js demo_digest" by code_simp+

lemma demo_env_fields:
  "ve_s3 demo_store_env = (\<lambda>_ _. GetDone (Some [7]))" "ve_parse demo_store_env = zod (\<lambda>_ _. True)" "ve_jparse demo_store_env = (\<lambda>_. Some demo_manifest)"
  "ve_sha256 demo_store_env = (\<lambda>_. demo_digest)" "ve_hmac demo_store_env = (\<lambda>_ _. demo_digest)" "ve_others demo_store_env = (\<lambda>_ w. w)"
  "ve_resolveKey demo_store_env = env_resolve demo_key" "ve_uuid demo_store_env = (\<lambda>_. ''u'')" "ve_cacheDirectory demo_store_env = ''/c''"
  by (simp_all add: demo_store_env_def)

lemma demo_reads: "readManifest demo_store_env demo_base_ref w = (Inr demo_manifest, w\<lparr>calls := Suc (Suc (calls w)), st_requests := st_requests w @ [GetRequest ''b'' ''m'' None]\<rparr>)"
  by (simp add: readManifest_def read_signed_def download_def s3_call_def key_call_def pause_def outside_def bnd_def ret_def demo_env_fields demo_base_ref_def
      demo_parsed_manifest demo_fields env_resolve_def demo_key_def sign_def)

lemma base_resolve_run: "readManifest env ref w = (Inr data, w1) \<Longrightarrow> rf_kind ref = Base \<Longrightarrow> 
   base_resolve env ref w = (let destination = path_join [ve_cacheDirectory env, ''snapshots'', rf_id ref] in
        seq (modify (\<lambda>w. w\<lparr>st_inUse := add_to (rf_id ref) (st_inUse w)\<rparr>))
        (try_finally
          (try_catch
            (seq (materialize env destination (artifacts_of data))
            (seq (materializeRootfs env data)
            (seq (modify (\<lambda>w. w\<lparr>st_pinned := add_to (rf_id ref) (st_pinned w), st_rootfs := set_rootfs (rf_id ref) (rootfsRestorePath data) (st_rootfs w)\<rparr>))
            (seq (evict env)
            (ret (restored env ref data))))))
            (\<lambda>e. seq (rm env destination) (throw e)))
          (modify (\<lambda>w. w\<lparr>st_inUse := filter (\<lambda>i. i \<noteq> rf_id ref) (st_inUse w)\<rparr>)))) w1"
  by (simp add: base_resolve_def bnd_def Let_def restored_def)

lemma demo_restores:
  "case base_resolve demo_store_env demo_base_ref demo_store_world of (r, w') \<Rightarrow>
     (case r of Inr x \<Rightarrow> rs_statePath x = ''/c/snapshots/s/state'' | _ \<Rightarrow> False) \<and> ([''c'', ''snapshots'', ''s'', ''state''], File [7]) \<in> set (st_nodes w')"
  unfolding base_resolve_run [OF demo_reads, of demo_store_world, simplified demo_base_ref_def snapshot_ref.simps, OF refl]
  by code_simp

lemma demo_store_laws: "courteous demo_store_env" "plain_digests demo_store_env" "schema_library (\<lambda>_ _. True) (ve_parse demo_store_env)"
    "cache_inv demo_store_env demo_store_world" "names_id (ResolveOp demo_base_ref)"
proof -
  show "schema_library (\<lambda>_ _. True) (ve_parse demo_store_env)" unfolding demo_store_env_def store_env.simps by (rule zod.schema_library_axioms)
qed (simp_all add: courteous_def plain_digests_def cache_inv_def files_def snapshot_id_ok_def plain_segment_def contains_text_def
      demo_store_env_def demo_store_world_def demo_base_ref_def demo_digest_def replicate_eqI numeral_eq_Suc)

theorem base_restore_verified_witness:
  "cache_inv demo_store_env (snd (base_resolve demo_store_env demo_base_ref demo_store_world))
   \<and> ([''c'', ''snapshots'', ''s'', ''state''], [7]) \<in> files (snd (base_resolve demo_store_env demo_base_ref demo_store_world))
   \<and> verified_bytes demo_store_env ''state'' [7]"
proof -
  obtain r w' where run: "base_resolve demo_store_env demo_base_ref demo_store_world = (Inr r, w')"
    and r: "rs_statePath r = ''/c/snapshots/s/state''" and present: "([''c'', ''snapshots'', ''s'', ''state''], [7]) \<in> files w'"
    using demo_restores by (auto simp: files_def split: prod.splits sum.splits)
  have "resolve_path ''/c/snapshots/s/state'' = [''c'', ''snapshots'', ''s'', ''state'']" by code_simp
  with base_restore_verified [OF demo_store_laws] run r present show ?thesis by auto
qed

text \<open>A root file system that is already at its place with other contents stays there, and the restore goes on with it.\<close>

lemma corrupt_rootfs_kept:
  "case materializeRootfs demo_store_env demo_manifest (demo_store_world\<lparr>st_nodes := [([''c'', ''rootfs'', ''x'', ''rootfs''], File [7, 7])]\<rparr>) of
     (r, w') \<Rightarrow> r = Inr () \<and> map_of (st_nodes w') [''c'', ''rootfs'', ''x'', ''rootfs''] = Some (File [7, 7])"
  by code_simp

end
