(* ===== verification/Session_Store.thy ===== *)
theory Session_Store
  imports Base_Snapshots
begin

text \<open>
  \<^verbatim>\<open>apps/control-plane/src/session-snapshot-storage.ts\<close>: the store of session snapshots, compressed, encrypted under the snapshot's key and
  listed in a signed manifest. \<open>deletion_ordered\<close> shows that the manifest is deleted last; that what was stored can be restored is the
  subject of \<^verbatim>\<open>Session_Roundtrip\<close>.
\<close>

section \<open>Manifests\<close>

definition objectSchema :: schema where
  "objectSchema = ZObject Strip [req ''bucket'' (ZString [SMin 1]), req ''key'' (ZString [SMin 1]), opt ''versionId'' (ZString [SMin 1]),
     req ''sha256'' zhex64, req ''sizeBytes'' zsize]"

definition url64_text :: "json \<Rightarrow> bool" where
  "url64_text v = (case v of JStr s \<Rightarrow> s \<noteq> [] \<and> list_all is_url_char s | _ \<Rightarrow> False)"

abbreviation zurl64 :: schema where "zurl64 \<equiv> ZRefine (ZString []) url64_text"

definition session_artifact_schema :: schema where
  "session_artifact_schema = ZObject Strip [req ''name'' (ZEnum [''state'', ''memory'']), req ''object'' objectSchema,
     req ''compressedSha256'' zhex64, req ''compressedSizeBytes'' zsize, req ''plainSha256'' zhex64, req ''plainSizeBytes'' zsize,
     req ''nonce'' zurl64, req ''tag'' zurl64]"

definition manifestSchema :: schema where
  "manifestSchema = ZObject Strip [req ''version'' (ZLiteral (JNum 1)), req ''snapshotId'' (ZString [SFormat FUuid]), req ''kind'' (lit ''session''),
     req ''sessionId'' (ZString [SFormat FUuid]), req ''baseSnapshotId'' (ZString [SFormat FUuid]), req ''createdAt'' (ZString [SFormat FDatetime]),
     req ''keyId'' (ZString [SMin 1]), req ''artifacts'' (ZArray session_artifact_schema (Some 2) (Some 2)), req ''signature'' zhex64]"

record session_artifact =
  sa_name :: string
  sa_object :: object_ref
  sa_compressedSha256 :: string
  sa_compressedSize :: int
  sa_plainSha256 :: string
  sa_plainSize :: int
  sa_nonce :: utf16
  sa_tag :: utf16

definition toUrl64 :: "byte list \<Rightarrow> utf16" where
  "toUrl64 v = base64url v"

text \<open>\<^verbatim>\<open>Buffer.from(value, "base64url")\<close>: padding is optional, a single last digit is dropped.\<close>

definition fromUrl64 :: "utf16 \<Rightarrow> byte list" where
  "fromUrl64 v = (let s = map (\<lambda>u. if u = hd (js ''-'') then hd (js ''+'') else if u = hd (js ''_'') then hd (js ''/'') else u) v;
     t = (if length s mod 4 = 1 then butlast s else s) in
     fromBase64 (t @ replicate ((4 - length t mod 4) mod 4) pad))"

definition session_artifact_json :: "session_artifact \<Rightarrow> json" where
  "session_artifact_json a = JObj [(js ''name'', text_json (sa_name a)), (js ''object'', object_json (sa_object a)),
     (js ''compressedSha256'', text_json (sa_compressedSha256 a)), (js ''compressedSizeBytes'', JNum (of_int (sa_compressedSize a))),
     (js ''plainSha256'', text_json (sa_plainSha256 a)), (js ''plainSizeBytes'', JNum (of_int (sa_plainSize a))),
     (js ''nonce'', JStr (sa_nonce a)), (js ''tag'', JStr (sa_tag a))]"

definition session_artifact_of :: "json \<Rightarrow> session_artifact" where
  "session_artifact_of a = \<lparr>sa_name = ascii (text_field a ''name''), sa_object = toSnapshotObjectRef (field a ''object''),
     sa_compressedSha256 = ascii (text_field a ''compressedSha256''), sa_compressedSize = \<lfloor>number_field a ''compressedSizeBytes''\<rfloor>,
     sa_plainSha256 = ascii (text_field a ''plainSha256''), sa_plainSize = \<lfloor>number_field a ''plainSizeBytes''\<rfloor>,
     sa_nonce = text_field a ''nonce'', sa_tag = text_field a ''tag''\<rparr>"

definition session_artifacts_of :: "json \<Rightarrow> session_artifact list" where
  "session_artifacts_of data = map session_artifact_of (items (field data ''artifacts''))"

definition aadFor :: "string \<Rightarrow> string \<Rightarrow> string \<Rightarrow> byte list" where
  "aadFor sessionId snapshotId name = utf8_encode (js (''caisson/session-snapshot/'' @ sessionId @ ''/'' @ snapshotId @ ''/'' @ name))"

section \<open>Storing\<close>

definition session_ensureBucket :: "store_env \<Rightarrow> (store_world, unit) proc" where
  "session_ensureBucket env = ensure_bucket env (\<lambda>name. name = ''BucketAlreadyOwnedByYou'' \<or> name = ''BucketAlreadyExists'')"

definition upload :: "store_env \<Rightarrow> string \<Rightarrow> string \<Rightarrow> string \<Rightarrow> string \<Rightarrow> store_input \<Rightarrow> (store_world, session_artifact) proc" where
  "upload env pre name path snapshotId input = bnd (readFile env path) (\<lambda>plain. let compressed = ve_gzip env plain in
     bnd (pause (ve_others env) (encrypt (ve_crypto env) compressed (si_sessionKek input) (si_snapshotDek input) (aadFor (si_sessionId input) snapshotId name))) (\<lambda>encrypted.
     bnd (put env (pre @ ''/'' @ name @ ''.bin'') (en_ciphertext encrypted)) (\<lambda>object.
     ret \<lparr>sa_name = name, sa_object = object, sa_compressedSha256 = ve_sha256 env compressed, sa_compressedSize = int (length compressed),
       sa_plainSha256 = ve_sha256 env plain, sa_plainSize = int (length plain), sa_nonce = toUrl64 (en_nonce encrypted), sa_tag = toUrl64 (en_tag encrypted)\<rparr>)))"

definition session_unsigned :: "store_env \<Rightarrow> local_snapshot \<Rightarrow> store_input \<Rightarrow> string \<Rightarrow> session_artifact list \<Rightarrow> json" where
  "session_unsigned env loc input keyId artifacts = JObj [(js ''version'', JNum 1), (js ''snapshotId'', text_json (lo_id loc)), (js ''kind'', text_json ''session''),
     (js ''sessionId'', text_json (si_sessionId input)), (js ''baseSnapshotId'', text_json (si_baseSnapshotId input)),
     (js ''createdAt'', text_json (ve_iso env (lo_createdAt loc))), (js ''keyId'', text_json keyId),
     (js ''artifacts'', JArr (map session_artifact_json artifacts))]"

definition session_prefix :: "store_input \<Rightarrow> string \<Rightarrow> string" where
  "session_prefix input snapshotId = ''snapshots/session/'' @ si_sessionId input @ ''/'' @ snapshotId"

definition session_store :: "store_env \<Rightarrow> local_snapshot \<Rightarrow> store_input \<Rightarrow> (store_world, snapshot_ref) proc" where
  "session_store env loc input =
     (if lo_kind loc \<noteq> Session then throw (Caisson SANDBOX_FAILED ''session snapshot store requires a session snapshot'')
      else seq (session_ensureBucket env) (bnd (key_call env (ve_active env)) (\<lambda>key.
        let pre = session_prefix input (lo_id loc) in
        bnd (promise_values [upload env pre ''state'' (lo_statePath loc) (lo_id loc) input, upload env pre ''memory'' (lo_memoryPath loc) (lo_id loc) input]) (\<lambda>artifacts.
        let unsigned = session_unsigned env loc input (mk_keyId key) artifacts in
        bnd (put env (pre @ ''/manifest.json'') (utf8_encode (ve_stringify env (with_signature unsigned (sign env unsigned (mk_bytes key)))))) (\<lambda>manifest.
        ret \<lparr>rf_id = lo_id loc, rf_kind = Session, rf_manifest = manifest, rf_manifestKeyId = mk_keyId key, rf_createdAt = lo_createdAt loc,
          rf_sessionId = Some (si_sessionId input), rf_baseSnapshotId = Some (si_baseSnapshotId input)\<rparr>)))))"

section \<open>Restoring and deleting\<close>

definition session_readManifest :: "store_env \<Rightarrow> snapshot_ref \<Rightarrow> (store_world, json) proc" where
  "session_readManifest env ref = read_signed env manifestSchema ''session snapshot manifest'' (rf_manifest ref)"

text \<open>One artifact: download, decrypt, check, expand, check, write.\<close>

definition restore_artifact :: "store_env \<Rightarrow> json \<Rightarrow> store_input \<Rightarrow> string \<Rightarrow> session_artifact \<Rightarrow> (store_world, unit) proc" where
  "restore_artifact env manifest input temporary a = bnd (download env (sa_object a)) (\<lambda>encrypted.
     bnd (pause (ve_others env) (decrypt (ve_crypto env) \<lparr>en_nonce = fromUrl64 (sa_nonce a), en_ciphertext = encrypted, en_tag = fromUrl64 (sa_tag a)\<rparr>
       (si_sessionKek input) (si_snapshotDek input)
       (aadFor (ascii (text_field manifest ''sessionId'')) (ascii (text_field manifest ''snapshotId'')) (sa_name a)))) (\<lambda>compressed.
     if int (length compressed) \<noteq> sa_compressedSize a \<or> ve_sha256 env compressed \<noteq> sa_compressedSha256 a
     then throw (Caisson SANDBOX_FAILED ''session snapshot compressed artifact integrity verification failed'')
     else bnd (of_result (ve_gunzip env compressed)) (\<lambda>plain.
       if int (length plain) \<noteq> sa_plainSize a \<or> ve_sha256 env plain \<noteq> sa_plainSha256 a
       then throw (Caisson SANDBOX_FAILED ''session snapshot artifact integrity verification failed'')
       else writeFile env (path_join [temporary, sa_name a]) plain)))"

definition session_resolve :: "store_env \<Rightarrow> snapshot_ref \<Rightarrow> store_input \<Rightarrow> resolved_snapshot \<Rightarrow> (store_world, resolved_snapshot) proc" where
  "session_resolve env ref input base =
     (if rf_kind ref \<noteq> Session \<or> rf_sessionId ref \<noteq> Some (si_sessionId input) \<or> rf_baseSnapshotId ref \<noteq> Some (rf_id (rs_ref base))
      then throw (Caisson SANDBOX_FAILED ''session snapshot restore lineage is invalid'')
      else bnd (session_readManifest env ref) (\<lambda>manifest.
        if text_field manifest ''snapshotId'' \<noteq> js (rf_id ref) \<or> text_field manifest ''sessionId'' \<noteq> js (si_sessionId input)
           \<or> text_field manifest ''baseSnapshotId'' \<noteq> js (rf_id (rs_ref base))
        then throw (Caisson SANDBOX_FAILED ''session snapshot manifest lineage is invalid'')
        else bnd (fresh_uuid env) (\<lambda>u. let destination = path_join [ve_cacheDirectory env, ''session-snapshots'', rf_id ref]; temporary = destination @ ''.tmp-'' @ u in
          seq (rm env temporary) (seq (mkdir env temporary)
          (try_catch
            (seq (for_each (session_artifacts_of manifest) (restore_artifact env manifest input temporary))
            (seq (writeFile env (path_join [temporary, ''.complete'']) verified_marker)
            (seq (mkdir env (dirname destination))
            (seq (try_catch (seq (fs_stat env destination) (rm env temporary)) (\<lambda>_. fs_rename env temporary destination))
            (ret \<lparr>rs_ref = ref, rs_statePath = path_join [destination, ''state''], rs_memoryPath = path_join [destination, ''memory''],
              rs_rootfsPath = rs_rootfsPath base, rs_kernelPath = rs_kernelPath base\<rparr>)))))
            (\<lambda>e. seq (rm env temporary) (throw e)))))))"

definition delete_object :: "store_env \<Rightarrow> object_ref \<Rightarrow> (store_world, unit) proc" where
  "delete_object env object = bnd (s3_call env (DeleteRequest (ob_bucket object) (ob_key object))) (\<lambda>answer. case answer of
     Refused _ \<Rightarrow> throw ForeignError | _ \<Rightarrow> ret ())"

definition deleteObjects :: "store_env \<Rightarrow> snapshot_ref \<Rightarrow> (store_world, unit) proc" where
  "deleteObjects env ref =
     (if rf_kind ref \<noteq> Session then throw (Caisson SANDBOX_FAILED ''only session snapshots may be deleted'')
      else bnd (session_readManifest env ref) (\<lambda>manifest.
        seq (for_each (session_artifacts_of manifest) (\<lambda>a. delete_object env (sa_object a))) (delete_object env (rf_manifest ref))))"

section \<open>Order of deletion\<close>

abbreviation delete_request :: "object_ref \<Rightarrow> store_request" where
  "delete_request object \<equiv> DeleteRequest (ob_bucket object) (ob_key object)"

text \<open>After the history \<open>h0\<close>, the request was sent among \<open>h\<close> and was not refused.\<close>

definition acknowledged :: "store_env \<Rightarrow> store_request list \<Rightarrow> store_request list \<Rightarrow> store_request \<Rightarrow> bool" where
  "acknowledged env h0 h rq \<longleftrightarrow> (\<exists>h1 h2. h = h1 @ rq # h2 \<and> (\<forall>name. ve_s3 env (h0 @ h1) rq \<noteq> Refused name))"

text \<open>Requests are never taken back, and other operations do not send this one.\<close>

definition leaves_to_us :: "store_env \<Rightarrow> store_request \<Rightarrow> bool" where
  "leaves_to_us env rq \<longleftrightarrow> (\<forall>n w. \<exists>h. st_requests (ve_others env n w) = st_requests w @ h \<and> rq \<notin> set h)"

definition unsent :: "store_request list \<Rightarrow> store_request \<Rightarrow> store_world \<Rightarrow> bool" where
  "unsent h0 rq w \<longleftrightarrow> (\<exists>h. st_requests w = h0 @ h \<and> rq \<notin> set h)"

lemma unsent_pause:
  assumes "leaves_to_us env rq" and "\<And>w. unsent h0 rq w \<Longrightarrow> unsent h0 rq (snd (m w))"
  shows "pres (unsent h0 rq) (pause (ve_others env) m)"
proof -
  have "unsent h0 rq (ve_others env n v)" if "unsent h0 rq v" for n v
    using assms(1) that unfolding leaves_to_us_def unsent_def by (metis Un_iff append.assoc set_append)
  then show ?thesis using assms(2) unfolding pres_def pause_def by (auto split: prod.splits) (metis snd_conv)
qed

lemma unsent_s3: "leaves_to_us env rq \<Longrightarrow> rq' \<noteq> rq \<Longrightarrow> pres (unsent h0 rq) (s3_call env rq')"
  unfolding s3_call_def by (rule unsent_pause) (auto simp: unsent_def)

lemma unsent_key: "leaves_to_us env rq \<Longrightarrow> pres (unsent h0 rq) (key_call env f)"
  unfolding key_call_def by (rule unsent_pause) (auto simp: unsent_def outside_def)

lemma unsent_download:
  assumes "leaves_to_us env (DeleteRequest b k)"
  shows "pres (unsent h0 (DeleteRequest b k)) (download env ob)"
  unfolding download_def
proof (intro pres_bnd unsent_s3 [OF assms])
  let ?I = "unsent h0 (DeleteRequest b k)"
  show "pres ?I (case answer of GetDone None \<Rightarrow> throw (Caisson SANDBOX_FAILED ''snapshot object is empty'')
      | GetDone (Some bytes) \<Rightarrow> if int (length bytes) \<noteq> ob_sizeBytes ob \<or> ve_sha256 env bytes \<noteq> ob_sha256 ob
          then throw (Caisson SANDBOX_FAILED ''snapshot object integrity verification failed'') else ret bytes
      | _ \<Rightarrow> throw ForeignError)" for answer
    by (cases answer) (auto split: option.splits simp: pres_ret pres_throw)
qed simp

lemma unsent_read:
  assumes "leaves_to_us env (DeleteRequest b k)"
  shows "pres (unsent h0 (DeleteRequest b k)) (session_readManifest env ref)"
  unfolding session_readManifest_def read_signed_def
  by (rule pres_bnd [OF unsent_download [OF assms]]) (simp add: pres_throw pres_ret pres_bnd [OF unsent_key [OF assms]] split: option.split)

lemma delete_run:
  assumes "delete_object env object w = (r, w')" "leaves_to_us env rq"
  shows "\<exists>h. st_requests w' = st_requests w @ delete_request object # h \<and> rq \<notin> set h
     \<and> (r = Inr () \<longleftrightarrow> (\<forall>name. ve_s3 env (st_requests w) (delete_request object) \<noteq> Refused name))"
proof -
  let ?w1 = "w\<lparr>st_requests := st_requests w @ [delete_request object], calls := Suc (calls w)\<rparr>"
  obtain h where "st_requests (ve_others env (calls ?w1) ?w1) = st_requests ?w1 @ h" "rq \<notin> set h"
    using assms(2) unfolding leaves_to_us_def by blast
  then show ?thesis using assms(1)
    by (auto simp: delete_object_def s3_call_def pause_def bnd_def ret_def throw_def split: store_answer.splits)
qed

lemma deletes_run:
  assumes "for_each as (\<lambda>a. delete_object env (sa_object a)) w = (r, w')" "leaves_to_us env rq"
    and "\<forall>a \<in> set as. delete_request (sa_object a) \<noteq> rq"
  shows "\<exists>h. st_requests w' = st_requests w @ h \<and> rq \<notin> set h \<and> (r = Inr () \<longrightarrow> (\<forall>a \<in> set as. acknowledged env (st_requests w) h (delete_request (sa_object a))))"
  using assms
proof (induction as arbitrary: w)
  case (Cons a as)
  from Cons.prems(1) consider (err) e where "delete_object env (sa_object a) w = (Inl e, w')" "r = Inl e"
    | (ok) w1 where "delete_object env (sa_object a) w = (Inr (), w1)" "for_each as (\<lambda>a. delete_object env (sa_object a)) w1 = (r, w')"
    by (auto elim!: bndE)
  then show ?case
  proof cases
    case err
    then show ?thesis using delete_run [OF err(1) Cons.prems(2)] Cons.prems(3) by auto
  next
    case ok
    obtain h1 where h1: "st_requests w1 = st_requests w @ delete_request (sa_object a) # h1" "rq \<notin> set h1"
      "\<forall>name. ve_s3 env (st_requests w) (delete_request (sa_object a)) \<noteq> Refused name" using delete_run [OF ok(1) Cons.prems(2)] by auto
    obtain h2 where h2: "st_requests w' = st_requests w1 @ h2" "rq \<notin> set h2"
      "r = Inr () \<longrightarrow> (\<forall>a \<in> set as. acknowledged env (st_requests w1) h2 (delete_request (sa_object a)))" using Cons.IH [OF ok(2) Cons.prems(2)] Cons.prems(3) by auto
    let ?h = "(delete_request (sa_object a) # h1) @ h2"
    have "acknowledged env (st_requests w) ?h (delete_request (sa_object a))" using h1(3) unfolding acknowledged_def by (intro exI [of _ "[]"] exI [of _ "h1 @ h2"]) simp
    moreover have "acknowledged env (st_requests w) ?h q" if "acknowledged env (st_requests w1) h2 q" for q
      using that unfolding acknowledged_def h1(1) by (metis append.assoc append_Cons)
    ultimately show ?thesis using h1 h2 Cons.prems(3) by (intro exI [of _ ?h]) auto
  qed
qed (auto simp: ret_def)

text \<open>
  (C36) The authenticated manifest is the plan for a retry, so it goes last: whatever other operations do and whichever request is refused, when
  \<^verbatim>\<open>deleteObjects\<close> sends the deletion of the manifest, the deletion of every artifact of an authenticated manifest has been sent before it
  and was not refused; and when it returns, the manifest's deletion has been sent and was not refused either. Other operations may send any requests but
  this one, and no authenticated manifest lists the manifest object itself as an artifact.
\<close>

theorem deletion_ordered:
  assumes "leaves_to_us env (delete_request (rf_manifest ref))"
    and "\<forall>data. authentic env manifestSchema data \<longrightarrow> (\<forall>a \<in> set (session_artifacts_of data). delete_request (sa_object a) \<noteq> delete_request (rf_manifest ref))"
    and run: "deleteObjects env ref w = (r, w')"
  shows "\<exists>h. st_requests w' = st_requests w @ h
     \<and> (\<forall>h1 h2. h = h1 @ delete_request (rf_manifest ref) # h2 \<longrightarrow> (\<exists>data. authentic env manifestSchema data
          \<and> (\<forall>a \<in> set (session_artifacts_of data). acknowledged env (st_requests w) h1 (delete_request (sa_object a)))))
     \<and> (r = Inr () \<longrightarrow> acknowledged env (st_requests w) h (delete_request (rf_manifest ref)))"
proof -
  let ?m = "delete_request (rf_manifest ref)"
  have early: ?thesis if "unsent (st_requests w) ?m w'" "r \<noteq> Inr ()" using that unfolding unsent_def by fastforce
  have "unsent (st_requests w) ?m w" by (simp add: unsent_def)
  then have unread: "unsent (st_requests w) ?m (snd (session_readManifest env ref w))" using unsent_read [OF assms(1)] unfolding pres_def by blast
  show ?thesis
  proof (cases "rf_kind ref = Session")
    case False
    then have "w' = w" "r \<noteq> Inr ()" using run by (auto simp: deleteObjects_def throw_def)
    then show ?thesis using early by (simp add: unsent_def)
  next
    case True
    then have "bnd (session_readManifest env ref) (\<lambda>manifest. seq (for_each (session_artifacts_of manifest) (\<lambda>a. delete_object env (sa_object a)))
        (delete_object env (rf_manifest ref))) w = (r, w')" using run by (simp add: deleteObjects_def)
    then show ?thesis
    proof (cases rule: bndE)
      case (err e)
      then show ?thesis using early unread by simp
    next
      case (ok data w1)
      have auth: "authentic env manifestSchema data" using ok(1) read_signed_value unfolding session_readManifest_def by blast
      obtain h0 where h0: "st_requests w1 = st_requests w @ h0" "?m \<notin> set h0" using unread ok(1) unfolding unsent_def by auto
      have others: "\<forall>a \<in> set (session_artifacts_of data). delete_request (sa_object a) \<noteq> ?m" using assms(2) auth by blast
      from ok(2) show ?thesis
      proof (cases rule: bndE)
        case (err e)
        then show ?thesis using early h0 deletes_run [OF err(1) assms(1) others] by (auto simp: unsent_def)
      next
        case fin: (ok x w2)
        obtain h where h: "st_requests w2 = st_requests w1 @ h" "?m \<notin> set h" "\<forall>a \<in> set (session_artifacts_of data). acknowledged env (st_requests w1) h (delete_request (sa_object a))"
          using deletes_run [OF fin(1) assms(1) others] by auto
        obtain h' where h': "st_requests w' = st_requests w2 @ ?m # h'" "?m \<notin> set h'" "r = Inr () \<longrightarrow> (\<forall>name. ve_s3 env (st_requests w2) ?m \<noteq> Refused name)"
          using delete_run [OF fin(2) assms(1)] by blast
        have acked: "\<forall>a \<in> set (session_artifacts_of data). acknowledged env (st_requests w) (h0 @ h) (delete_request (sa_object a))"
          using h(3) unfolding acknowledged_def h0(1) by (metis append.assoc)
        have "h1 = h0 @ h" if "(h0 @ h) @ ?m # h' = h1 @ ?m # h2" for h1 h2
          using that h0(2) h(2) h'(2) append_Cons_eq_iff [of ?m "h0 @ h" h' h1 h2] by auto
        moreover have "acknowledged env (st_requests w) ((h0 @ h) @ ?m # h') ?m" if "r = Inr ()"
          using h'(3) that h0(1) h(1) unfolding acknowledged_def by (metis append.assoc)
        moreover have "st_requests w' = st_requests w @ (h0 @ h) @ ?m # h'" using h'(1) h(1) h0(1) by simp
        ultimately show ?thesis using auth acked by blast
      qed
    qed
  qed
qed

text \<open>A store with one signed manifest.\<close>

definition demo_session_artifact :: "string \<Rightarrow> session_artifact" where
  "demo_session_artifact name = \<lparr>sa_name = name, sa_object = \<lparr>ob_bucket = ''b'', ob_key = name, ob_versionId = None, ob_sha256 = demo_digest, ob_sizeBytes = 1\<rparr>,
     sa_compressedSha256 = demo_digest, sa_compressedSize = 1, sa_plainSha256 = demo_digest, sa_plainSize = 1, sa_nonce = js ''AA'', sa_tag = js ''AA''\<rparr>"

definition demo_unsigned :: json where
  "demo_unsigned = JObj [(js ''version'', JNum 1), (js ''snapshotId'', text_json ''s''), (js ''kind'', text_json ''session''),
     (js ''sessionId'', text_json ''e''), (js ''baseSnapshotId'', text_json ''c''), (js ''createdAt'', text_json ''t''), (js ''keyId'', text_json ''mk''),
     (js ''artifacts'', JArr (map (\<lambda>n. session_artifact_json (demo_session_artifact n)) [''state'', ''memory'']))]"

definition demo_session_env :: store_env where
  "demo_session_env = demo_store_env\<lparr>ve_stringify := (\<lambda>v. if v = demo_unsigned then [1] else []),
     ve_hmac := (\<lambda>_ b. if b = [1] then demo_digest else ''x''), ve_jparse := (\<lambda>_. Some (with_signature demo_unsigned demo_digest)),
     ve_s3 := (\<lambda>_ rq. case rq of GetRequest _ _ _ \<Rightarrow> GetDone (Some [7]) | _ \<Rightarrow> Done)\<rparr>"

definition demo_session_ref :: snapshot_ref where
  "demo_session_ref = demo_base_ref\<lparr>rf_kind := Session, rf_sessionId := Some ''e'', rf_baseSnapshotId := Some ''c''\<rparr>"

lemma demo_session_manifest:
  "zod (\<lambda>_ _. True) manifestSchema (with_signature demo_unsigned demo_digest) = Some (with_signature demo_unsigned demo_digest)"
  "text_field (with_signature demo_unsigned demo_digest) ''keyId'' = js ''mk''" "text_field (with_signature demo_unsigned demo_digest) ''signature'' = js demo_digest"
  "unsigned_of (with_signature demo_unsigned demo_digest) = demo_unsigned" "utf8_encode [1] = [1]" "utf8_encode [] = []"
  by code_simp+

lemma demo_session_artifacts: "field v ''artifacts'' = field demo_unsigned ''artifacts'' \<Longrightarrow> map sa_object (session_artifacts_of v) =
    [\<lparr>ob_bucket = ''b'', ob_key = ''state'', ob_versionId = None, ob_sha256 = demo_digest, ob_sizeBytes = 1\<rparr>,
     \<lparr>ob_bucket = ''b'', ob_key = ''memory'', ob_versionId = None, ob_sha256 = demo_digest, ob_sizeBytes = 1\<rparr>]"
proof -
  have "map (\<lambda>a. sa_object (session_artifact_of a)) (items (field demo_unsigned ''artifacts'')) =
    [\<lparr>ob_bucket = ''b'', ob_key = ''state'', ob_versionId = None, ob_sha256 = demo_digest, ob_sizeBytes = 1\<rparr>,
     \<lparr>ob_bucket = ''b'', ob_key = ''memory'', ob_versionId = None, ob_sha256 = demo_digest, ob_sizeBytes = 1\<rparr>]" by code_simp
  then show "field v ''artifacts'' = field demo_unsigned ''artifacts'' \<Longrightarrow> ?thesis" by (simp add: session_artifacts_of_def o_def)
qed

lemma unsigned_field: "k \<noteq> ''signature'' \<Longrightarrow> field (unsigned_of v) k = field v k"
proof -
  assume k: "k \<noteq> ''signature''"
  have "map_of (filter (\<lambda>kv. fst kv \<noteq> js ''signature'') kvs) (js k) = map_of kvs (js k)" for kvs :: "(utf16 \<times> json) list"
    by (induction kvs) (use k in auto)
  then show ?thesis by (cases v) (simp_all add: unsigned_of_def field_def)
qed

text \<open>Only this manifest is authentic there.\<close>

lemma demo_session_authentic:
  assumes "authentic demo_session_env manifestSchema data"
  shows "map sa_object (session_artifacts_of data) =
    [\<lparr>ob_bucket = ''b'', ob_key = ''state'', ob_versionId = None, ob_sha256 = demo_digest, ob_sizeBytes = 1\<rparr>,
     \<lparr>ob_bucket = ''b'', ob_key = ''memory'', ob_versionId = None, ob_sha256 = demo_digest, ob_sizeBytes = 1\<rparr>]"
proof (rule demo_session_artifacts)
  have parse: "ve_parse demo_session_env = zod (\<lambda>_ _. True)" by (simp add: demo_session_env_def demo_store_env_def)
  obtain raw and key :: manifest_key where raw: "zod (\<lambda>_ _. True) manifestSchema raw = Some data" and sig: "js (sign demo_session_env (unsigned_of data) (mk_bytes key)) = text_field data ''signature''"
    using assms unfolding authentic_def parse by blast
  define fs where "fs = [req ''version'' (ZLiteral (JNum 1)), req ''snapshotId'' (ZString [SFormat FUuid]), req ''kind'' (lit ''session''),
     req ''sessionId'' (ZString [SFormat FUuid]), req ''baseSnapshotId'' (ZString [SFormat FUuid]), req ''createdAt'' (ZString [SFormat FDatetime]),
     req ''keyId'' (ZString [SMin 1]), req ''artifacts'' (ZArray session_artifact_schema (Some 2) (Some 2)), req ''signature'' zhex64]"
  have "zod (\<lambda>_ _. True) (ZObject Strip fs) raw = Some data" using raw unfolding manifestSchema_def fs_def .
  then obtain x where "zod (\<lambda>_ _. True) zhex64 x = Some (field data ''signature'')"
    using zod.object_field [of "\<lambda>_ _. True" Strip fs raw data "''signature''" zhex64] by (auto simp: fs_def)
  then have "hex64 (field data ''signature'')" by (auto simp: zod.parse_refine split: option.splits if_splits)
  then have len: "length (text_field data ''signature'') = 64" by (auto simp: hex64_def text_field_def split: json.splits)
  have "unsigned_of data = demo_unsigned"
  proof (rule ccontr)
    assume "unsigned_of data \<noteq> demo_unsigned"
    then have "sign demo_session_env (unsigned_of data) (mk_bytes key) = ''x''" by (simp add: sign_def demo_session_env_def demo_session_manifest)
    then show False using len unfolding sig [symmetric] by (simp add: js_def)
  qed
  with unsigned_field [of "''artifacts''" data] show "field data ''artifacts'' = field demo_unsigned ''artifacts''" by simp
qed

lemma demo_session_reads: "\<exists>w'. session_readManifest demo_session_env demo_session_ref demo_store_world = (Inr (with_signature demo_unsigned demo_digest), w')"
  by (simp add: session_readManifest_def read_signed_def download_def s3_call_def key_call_def pause_def outside_def bnd_def ret_def demo_session_env_def demo_store_env_def
      demo_session_ref_def demo_base_ref_def demo_session_manifest env_resolve_def demo_key_def sign_def)

theorem deletion_ordered_witness:
  "\<exists>h1 h2. st_requests (snd (deleteObjects demo_session_env demo_session_ref demo_store_world)) = h1 @ DeleteRequest ''b'' ''m'' # h2
     \<and> acknowledged demo_session_env [] h1 (DeleteRequest ''b'' ''state'') \<and> acknowledged demo_session_env [] h1 (DeleteRequest ''b'' ''memory'')"
proof -
  let ?e = demo_session_env and ?ref = demo_session_ref and ?w = demo_store_world and ?m = "DeleteRequest ''b'' ''m''"
  have ref: "rf_kind ?ref = Session" "delete_request (rf_manifest ?ref) = ?m" by (simp_all add: demo_session_ref_def demo_base_ref_def)
  have alone: "leaves_to_us ?e ?m" by (simp add: leaves_to_us_def demo_session_env_def demo_store_env_def)
  have objects: "set (map delete_request (map sa_object (session_artifacts_of data))) = {DeleteRequest ''b'' ''state'', DeleteRequest ''b'' ''memory''}"
    if "authentic ?e manifestSchema data" for data unfolding demo_session_authentic [OF that] by simp
  have other: "\<forall>data. authentic ?e manifestSchema data \<longrightarrow> (\<forall>a \<in> set (session_artifacts_of data). delete_request (sa_object a) \<noteq> ?m)"
  proof (intro allI impI ballI)
    fix data a assume "authentic ?e manifestSchema data" "a \<in> set (session_artifacts_of data)"
    then have "delete_request (sa_object a) \<in> {DeleteRequest ''b'' ''state'', DeleteRequest ''b'' ''memory''}" unfolding objects [OF \<open>authentic ?e manifestSchema data\<close>, symmetric] by simp
    then show "delete_request (sa_object a) \<noteq> ?m" by auto
  qed
  obtain w1 where rd: "session_readManifest ?e ?ref ?w = (Inr (with_signature demo_unsigned demo_digest), w1)" using demo_session_reads by blast
  have del: "\<exists>w'. delete_object ?e object v = (Inr (), w')" for object v
    by (simp add: delete_object_def s3_call_def pause_def bnd_def ret_def demo_session_env_def)
  have dels: "\<exists>w'. for_each as (\<lambda>a. delete_object ?e (sa_object a)) v = (Inr (), w')" for as v
  proof (induction as arbitrary: v)
    case (Cons a as)
    with del [of "sa_object a" v] show ?case by (auto simp: bnd_def)
  qed (simp add: ret_def)
  obtain w2 where w2: "for_each (session_artifacts_of (with_signature demo_unsigned demo_digest)) (\<lambda>a. delete_object ?e (sa_object a)) w1 = (Inr (), w2)" using dels by blast
  obtain w3 where w3: "delete_object ?e (rf_manifest ?ref) w2 = (Inr (), w3)" using del by blast
  have run: "deleteObjects ?e ?ref ?w = (Inr (), w3)" by (simp add: deleteObjects_def ref(1) bnd_def rd w2 w3)
  obtain h where h: "st_requests w3 = h" "\<And>h1 h2. h = h1 @ ?m # h2 \<Longrightarrow> \<exists>data. authentic ?e manifestSchema data
      \<and> (\<forall>a \<in> set (session_artifacts_of data). acknowledged ?e [] h1 (delete_request (sa_object a)))" "acknowledged ?e [] h ?m"
    using deletion_ordered [of ?e ?ref, unfolded ref(2), OF alone other run] by (auto simp: demo_store_world_def)
  from h(3) obtain h1 h2 where split: "h = h1 @ ?m # h2" unfolding acknowledged_def by blast
  obtain data where data: "authentic ?e manifestSchema data" "\<forall>a \<in> set (session_artifacts_of data). acknowledged ?e [] h1 (delete_request (sa_object a))"
    using h(2) [OF split] by blast
  have "acknowledged ?e [] h1 q" if "q \<in> {DeleteRequest ''b'' ''state'', DeleteRequest ''b'' ''memory''}" for q
    using that data(2) unfolding objects [OF data(1), symmetric] by auto
  with run h(1) split show ?thesis by auto
qed

end
