(* ===== verification/Session_Roundtrip.thy ===== *)
theory Session_Roundtrip
  imports Session_Store
begin

text \<open>
  What the store of session snapshots keeps can be restored: \<open>session_store_roundtrip\<close> follows the bytes of a snapshot through compression, encryption, base64url,
  the manifest with its schema and signature, the object store and the staged cache directory, and back.
\<close>

section \<open>base64url\<close>

lemma toBase64_shape:
  "\<exists>ds. toBase64 bs = ds @ replicate ((4 - length ds mod 4) mod 4) pad \<and> list_all (\<lambda>u. base64_digit u \<and> u \<noteq> pad) ds \<and> length ds mod 4 \<noteq> 1"
proof (induction bs rule: toBase64.induct)
  case (2 a)
  let ?ds = "[base64_unit (uint a div 4), base64_unit (uint a mod 4 * 16)]"
  have "list_all (\<lambda>u. base64_digit u \<and> u \<noteq> pad) ?ds" using base64_unit_digit sextets by simp
  then show ?case by (intro exI [of _ ?ds]) (simp add: numeral_2_eq_2)
next
  case (3 a b)
  let ?ds = "[base64_unit (uint a div 4), base64_unit (uint a mod 4 * 16 + uint b div 16), base64_unit (uint b mod 16 * 4)]"
  have "list_all (\<lambda>u. base64_digit u \<and> u \<noteq> pad) ?ds" using base64_unit_digit sextets by simp
  then show ?case by (intro exI [of _ ?ds]) simp
next
  case (4 a b c bs)
  then obtain ds where ds: "toBase64 bs = ds @ replicate ((4 - length ds mod 4) mod 4) pad" "list_all (\<lambda>u. base64_digit u \<and> u \<noteq> pad) ds" "length ds mod 4 \<noteq> 1"
    by blast
  let ?four = "[base64_unit (uint a div 4), base64_unit (uint a mod 4 * 16 + uint b div 16),
     base64_unit (uint b mod 16 * 4 + uint c div 64), base64_unit (uint c mod 64)]"
  have "list_all (\<lambda>u. base64_digit u \<and> u \<noteq> pad) ?four" using base64_unit_digit sextets by simp
  moreover have "length (?four @ ds) mod 4 = length ds mod 4" by simp
  ultimately show ?case using ds by (intro exI [of _ "?four @ ds"]) simp
qed simp

lemma digit_url:
  assumes "base64_digit u"
  shows "is_url_char (if u = hd (js ''+'') then hd (js ''-'') else if u = hd (js ''/'') then hd (js ''_'') else u)"
    and "(let v = (if u = hd (js ''+'') then hd (js ''-'') else if u = hd (js ''/'') then hd (js ''_'') else u) in
       if v = hd (js ''-'') then hd (js ''+'') else if v = hd (js ''_'') then hd (js ''/'') else v) = u"
proof -
  let ?f = "\<lambda>u. if u = hd (js ''+'') then hd (js ''-'') else if u = hd (js ''/'') then hd (js ''_'') else u"
  let ?g = "\<lambda>v. if v = hd (js ''-'') then hd (js ''+'') else if v = hd (js ''_'') then hd (js ''/'') else v"
  have "list_all (\<lambda>u. is_url_char (?f u) \<and> ?g (?f u) = u) (js base64_alphabet)" by code_simp
  then have "is_url_char (?f u) \<and> ?g (?f u) = u" using assms unfolding list_all_iff base64_digit_def by blast
  then show "is_url_char (?f u)" "(let v = ?f u in ?g v) = u" unfolding Let_def by blast+
qed

lemma url64_shape:
  assumes "toBase64 bs = ds @ replicate k pad" "list_all (\<lambda>u. base64_digit u \<and> u \<noteq> pad) ds"
  shows "toUrl64 bs = map (\<lambda>u. if u = hd (js ''+'') then hd (js ''-'') else if u = hd (js ''/'') then hd (js ''_'') else u) ds"
proof -
  have "filter (\<lambda>u. u \<noteq> pad) (toBase64 bs) = ds" using assms by (simp add: filter_id_conv list_all_iff)
  then show ?thesis by (simp add: toUrl64_def base64url_def)
qed

lemma fromUrl64_toUrl64: "fromUrl64 (toUrl64 bs) = bs"
proof -
  obtain ds where ds: "toBase64 bs = ds @ replicate ((4 - length ds mod 4) mod 4) pad" "list_all (\<lambda>u. base64_digit u \<and> u \<noteq> pad) ds" "length ds mod 4 \<noteq> 1"
    using toBase64_shape by blast
  have "map (\<lambda>u. if u = hd (js ''-'') then hd (js ''+'') else if u = hd (js ''_'') then hd (js ''/'') else u) (toUrl64 bs) = ds"
    unfolding url64_shape [OF ds(1,2)] map_map o_def by (rule map_idI) (use ds(2) digit_url(2) in \<open>simp add: list_all_iff Let_def\<close>)
  with ds fromBase64_toBase64 [of bs] show ?thesis by (simp add: fromUrl64_def Let_def)
qed

lemma url64_accepted: "bs \<noteq> [] \<Longrightarrow> url64_text (JStr (toUrl64 bs))"
proof -
  assume "bs \<noteq> []"
  obtain ds where ds: "toBase64 bs = ds @ replicate ((4 - length ds mod 4) mod 4) pad" "list_all (\<lambda>u. base64_digit u \<and> u \<noteq> pad) ds"
    using toBase64_shape by blast
  have "ds \<noteq> []"
  proof
    assume "ds = []"
    then have "toBase64 bs = []" using ds(1) by simp
    with fromBase64_toBase64 [of bs] \<open>bs \<noteq> []\<close> show False by simp
  qed
  moreover have "list_all is_url_char (toUrl64 bs)" unfolding url64_shape [OF ds] list_all_iff set_map ball_simps
    using ds(2) digit_url(1) unfolding list_all_iff by blast
  ultimately show ?thesis using url64_shape [OF ds] by (simp add: url64_text_def)
qed

section \<open>A manifest that is stored is accepted\<close>

lemma object_roundtrip: "toSnapshotObjectRef (object_json ob) = ob"
  by (cases ob) (simp add: toSnapshotObjectRef_def object_json_def field_def text_field_def number_field_def text_json_def split: option.splits)

lemma artifact_roundtrip: "session_artifact_of (session_artifact_json a) = a"
  by (cases a) (simp add: session_artifact_of_def session_artifact_json_def field_def text_field_def number_field_def text_json_def object_roundtrip)

text \<open>Fields in the order of the schema are kept as they are.\<close>

lemma fields_accepted:
  assumes "list_all2 (\<lambda>f kv. fst kv = js (fst f) \<and> fst (snd f) = Required \<and> parse (snd (snd f)) (snd kv) = Some (snd kv)) fs kvs"
    and "\<And>kv. kv \<in> set kvs \<Longrightarrow> map_of all (fst kv) = Some (snd kv)"
  shows "parse_fields parse fs all = Some kvs"
  using assms
proof (induction fs kvs rule: list_all2_induct)
  case (Cons f fs kv kvs)
  obtain k pr s where f: "f = (k, pr, s)" by (cases f)
  obtain k' v where kv: "kv = (k', v)" by (cases kv)
  have "map_of all (js k) = Some v" using Cons.prems [of kv] Cons.hyps f kv by simp
  with Cons f kv show ?case by simp
qed simp

context schema_library
begin

lemma object_accepted:
  assumes "list_all2 (\<lambda>f kv. fst kv = js (fst f) \<and> fst (snd f) = Required \<and> parse (snd (snd f)) (snd kv) = Some (snd kv)) fs kvs" "distinct (map fst kvs)"
  shows "parse (ZObject Strip fs) (JObj kvs) = Some (JObj kvs)"
proof -
  have "parse_fields parse fs kvs = Some kvs" by (rule fields_accepted [OF assms(1)]) (use assms(2) in simp)
  then show ?thesis by (simp add: parse_object)
qed

lemma size_accepted: "0 < n \<Longrightarrow> n \<le> 9007199254740991 \<Longrightarrow> parse zsize (JNum (of_int n)) = Some (JNum (of_int n))"
  by (simp add: parse_number)

lemma hex_accepted: "hex64 (JStr s) \<Longrightarrow> parse zhex64 (JStr s) = Some (JStr s)"
  by (simp add: parse_refine parse_string)

lemma object_ref_accepted:
  assumes "ob_bucket ob \<noteq> ''''" "ob_key ob \<noteq> ''''" "ob_versionId ob \<noteq> Some ''''" "hex64 (JStr (js (ob_sha256 ob)))"
    "0 < ob_sizeBytes ob" "ob_sizeBytes ob \<le> 9007199254740991"
  shows "parse objectSchema (object_json ob) = Some (object_json ob)"
proof -
  have str: "parse (ZString [SMin 1]) (JStr (js s)) = Some (JStr (js s))" if "s \<noteq> ''''" for s
    using that by (cases s) (simp_all add: parse_string js_def)
  show ?thesis
    using assms str hex_accepted [OF assms(4)] size_accepted [OF assms(5,6)]
    by (cases "ob_versionId ob") (simp_all add: objectSchema_def parse_object object_json_def text_json_def)
qed

lemma session_artifact_accepted:
  assumes "sa_name a \<in> {''state'', ''memory''}" "parse objectSchema (object_json (sa_object a)) = Some (object_json (sa_object a))"
    "hex64 (JStr (js (sa_compressedSha256 a)))" "hex64 (JStr (js (sa_plainSha256 a)))" "url64_text (JStr (sa_nonce a))" "url64_text (JStr (sa_tag a))"
    "0 < sa_compressedSize a" "sa_compressedSize a \<le> 9007199254740991" "0 < sa_plainSize a" "sa_plainSize a \<le> 9007199254740991"
  shows "parse session_artifact_schema (session_artifact_json a) = Some (session_artifact_json a)"
proof -
  have url: "parse zurl64 (JStr u) = Some (JStr u)" if "url64_text (JStr u)" for u using that by (simp add: parse_refine parse_string)
  have name: "parse (ZEnum [''state'', ''memory'']) (JStr (js (sa_name a))) = Some (JStr (js (sa_name a)))" using assms(1) by (auto simp: parse_enum)
  show ?thesis unfolding session_artifact_schema_def session_artifact_json_def text_json_def
    by (rule object_accepted) (simp_all add: assms name url hex_accepted size_accepted)
qed

lemma manifest_accepted:
  assumes "list_all (\<lambda>a. parse session_artifact_schema (session_artifact_json a) = Some (session_artifact_json a)) artifacts" "length artifacts = 2"
    and "fmt FUuid (js (lo_id loc))" "fmt FUuid (js (si_sessionId input))" "fmt FUuid (js (si_baseSnapshotId input))" "fmt FDatetime (js (ve_iso env (lo_createdAt loc)))"
    and "keyId \<noteq> []" "hex64 (JStr (js s))"
  shows "parse manifestSchema (with_signature (session_unsigned env loc input keyId artifacts) s) = Some (with_signature (session_unsigned env loc input keyId artifacts) s)"
proof -
  have some: "all_some (map f xs) = Some ys" if "map f xs = map Some ys" for f :: "json \<Rightarrow> json option" and xs ys
    unfolding that by (induction ys) simp_all
  have "all_some (map (parse session_artifact_schema) (map session_artifact_json artifacts)) = Some (map session_artifact_json artifacts)"
    by (rule some) (use assms(1) in \<open>simp add: list_all_iff\<close>)
  then have "parse (ZArray session_artifact_schema (Some 2) (Some 2)) (JArr (map session_artifact_json artifacts)) = Some (JArr (map session_artifact_json artifacts))"
    using assms(2) by (simp add: parse_array in_bounds_def)
  moreover have "js keyId \<noteq> []" using assms(7) by (simp add: js_def)
  ultimately show ?thesis unfolding with_signature_def session_unsigned_def json.case manifestSchema_def text_json_def append.simps
    by (intro object_accepted) (simp_all add: parse_literal parse_string assms hex_accepted Suc_le_eq)
qed

end

text \<open>What is read back from the signed manifest.\<close>

lemma manifest_fields:
  "unsigned_of (with_signature (session_unsigned env loc input keyId artifacts) s) = session_unsigned env loc input keyId artifacts"
  "text_field (with_signature (session_unsigned env loc input keyId artifacts) s) ''keyId'' = js keyId"
  "text_field (with_signature (session_unsigned env loc input keyId artifacts) s) ''signature'' = js s"
  "text_field (with_signature (session_unsigned env loc input keyId artifacts) s) ''snapshotId'' = js (lo_id loc)"
  "text_field (with_signature (session_unsigned env loc input keyId artifacts) s) ''sessionId'' = js (si_sessionId input)"
  "text_field (with_signature (session_unsigned env loc input keyId artifacts) s) ''baseSnapshotId'' = js (si_baseSnapshotId input)"
  "session_artifacts_of (with_signature (session_unsigned env loc input keyId artifacts) s) = artifacts"
  by (simp_all add: unsigned_of_def with_signature_def session_unsigned_def text_field_def field_def text_json_def session_artifacts_of_def items_def
      artifact_roundtrip o_def)

section \<open>An object store that keeps what it is given\<close>

definition untouched :: "string \<Rightarrow> string \<Rightarrow> store_request list \<Rightarrow> bool" where
  "untouched b k h \<longleftrightarrow> (\<forall>rq \<in> set h. case rq of PutRequest b' k' _ \<Rightarrow> (b', k') \<noteq> (b, k) | DeleteRequest b' k' \<Rightarrow> (b', k') \<noteq> (b, k) | _ \<Rightarrow> True)"

definition durable :: "store_env \<Rightarrow> bool" where
  "durable env \<longleftrightarrow> (\<forall>h b name. ve_s3 env h (CreateBucket b) \<noteq> Refused name)
     \<and> (\<forall>h b k body. \<exists>v. ve_s3 env h (PutRequest b k body) = PutDone v \<and> v \<noteq> Some []
        \<and> (\<forall>h'. untouched b k h' \<longrightarrow> ve_s3 env (h @ [PutRequest b k body] @ h') (GetRequest b k v) = GetDone (Some body)
           \<and> ve_s3 env (h @ [PutRequest b k body] @ h') (HeadRequest b k) = HeadDone (Some ''AES256'')))"

text \<open>The object is there after the history \<open>h\<close>, and stays until its key is written or deleted.\<close>

definition stored :: "store_env \<Rightarrow> store_request list \<Rightarrow> object_ref \<Rightarrow> byte list \<Rightarrow> bool" where
  "stored env h ob body \<longleftrightarrow> (\<forall>h'. untouched (ob_bucket ob) (ob_key ob) h' \<longrightarrow>
     ve_s3 env (h @ h') (GetRequest (ob_bucket ob) (ob_key ob) (ob_versionId ob)) = GetDone (Some body))
     \<and> ob_sizeBytes ob = int (length body) \<and> ob_sha256 ob = ve_sha256 env body"

lemma untouched_append: "untouched b k (h @ h') \<longleftrightarrow> untouched b k h \<and> untouched b k h'"
  unfolding untouched_def by auto

lemma stored_later: "stored env h ob body \<Longrightarrow> untouched (ob_bucket ob) (ob_key ob) h' \<Longrightarrow> stored env (h @ h') ob body"
  unfolding stored_def by (simp add: untouched_append)

text \<open>A call that leaves the files alone and sends \<open>rqs\<close>.\<close>

definition sends :: "store_request list \<Rightarrow> store_world \<Rightarrow> store_world \<Rightarrow> bool" where
  "sends rqs w w' \<longleftrightarrow> st_nodes w' = st_nodes w \<and> st_requests w' = st_requests w @ rqs \<and> fault w' = fault w"

lemma sendsD:
  assumes "sends rqs w w'"
  shows "st_nodes w' = st_nodes w" "st_requests w' = st_requests w @ rqs" "undisturbed env w' = undisturbed env w"
  using assms by (auto simp: sends_def undisturbed_def)

lemma sends_refl: "sends [] w (w\<lparr>calls := n\<rparr>)" "sends [] w w"
  by (simp_all add: sends_def)

lemma sends_trans: "sends rs w w' \<Longrightarrow> sends rs' w' w'' \<Longrightarrow> sends (rs @ rs') w w''"
  unfolding sends_def by simp

lemma put_run:
  assumes "undisturbed env w" "durable env"
  shows "\<exists>ob w'. put env key body w = (Inr ob, w') \<and> sends [PutRequest (ve_bucket env) key body, HeadRequest (ve_bucket env) key] w w'
     \<and> stored env (st_requests w') ob body \<and> ob_bucket ob = ve_bucket env \<and> ob_key ob = key \<and> ob_versionId ob \<noteq> Some []"
proof -
  let ?b = "ve_bucket env"
  obtain v where v: "ve_s3 env (st_requests w) (PutRequest ?b key body) = PutDone v" "v \<noteq> Some []"
    and kept: "\<And>h'. untouched ?b key h' \<Longrightarrow> ve_s3 env (st_requests w @ [PutRequest ?b key body] @ h') (GetRequest ?b key v) = GetDone (Some body)
       \<and> ve_s3 env (st_requests w @ [PutRequest ?b key body] @ h') (HeadRequest ?b key) = HeadDone (Some ''AES256'')"
    using assms(2) unfolding durable_def by blast
  have head: "ve_s3 env (st_requests w @ [PutRequest ?b key body]) (HeadRequest ?b key) = HeadDone (Some ''AES256'')"
    using kept [of "[]"] by (simp add: untouched_def)
  have stays: "ve_s3 env (st_requests w @ PutRequest ?b key body # HeadRequest ?b key # h') (GetRequest ?b key v) = GetDone (Some body)"
    if "untouched ?b key h'" for h' using kept [of "HeadRequest ?b key # h'"] that by (simp add: untouched_def)
  show ?thesis
    using stays v(2) by (auto simp: put_def bnd_def ret_def s3_run assms(1) v(1) head stored_def sends_def intro!: exI)
qed

lemma download_run:
  assumes "undisturbed env w" "stored env h ob body" "st_requests w = h @ h'" "untouched (ob_bucket ob) (ob_key ob) h'"
  shows "\<exists>w'. download env ob w = (Inr body, w') \<and> sends [GetRequest (ob_bucket ob) (ob_key ob) (ob_versionId ob)] w w'"
proof -
  have "ve_s3 env (st_requests w) (GetRequest (ob_bucket ob) (ob_key ob) (ob_versionId ob)) = GetDone (Some body)"
    using assms(2-4) by (simp add: stored_def)
  with assms(1,2) show ?thesis by (auto simp: download_def bnd_def ret_def s3_run stored_def sends_def)
qed

section \<open>Encryption beside the files\<close>

lemma rootKek_frame: "rootKek cr x w = (r, w') \<Longrightarrow> sends [] w w'"
  unfolding rootKek_def by (erule bndE) (auto simp: outside_def sends_def Let_def proc_defs split: credentials.splits if_splits)

lemma unwrap_frame: "unwrapSnapshotDek cr kek dek w = (r, w') \<Longrightarrow> sends [] w w'"
  unfolding unwrapSnapshotDek_def unwrapSessionKek_def
  by (elim bndE) (auto simp: of_result_def split: prod.splits dest: rootKek_frame)

text \<open>The wrappers of session and snapshot key lead to the key \<open>k\<close>.\<close>

definition unlocks :: "crypto_env \<Rightarrow> session_kek \<Rightarrow> wrapped_key \<Rightarrow> byte list \<Rightarrow> bool" where
  "unlocks cr kek dek k \<longleftrightarrow> (\<forall>v :: store_world. fst (unwrapSnapshotDek cr kek dek v) = Inr k)"

lemma encrypt_run:
  assumes "unlocks cr kek dek k" "undisturbed env w"
  shows "\<exists>e w'. pause (ve_others env) (encrypt cr c kek dek aad) w = (Inr e, w') \<and> sends [] w w' \<and> en_nonce e \<noteq> [] \<and> en_tag e \<noteq> []
     \<and> length (en_ciphertext e) = length c
     \<and> (\<forall>v. undisturbed env v \<longrightarrow> (\<exists>v'. pause (ve_others env) (decrypt cr e kek dek aad) v = (Inr c, v') \<and> sends [] v v'))"
proof -
  have un: "\<exists>v'. unwrapSnapshotDek cr kek dek v = (Inr k, v') \<and> sends [] v v'" for v :: store_world
    using assms(1) unwrap_frame unfolding unlocks_def by (metis prod.collapse)
  obtain w1 where w1: "unwrapSnapshotDek cr kek dek w = (Inr k, w1)" "sends [] w w1" using un by blast
  obtain nonce w2 where d: "draw GCM_NONCE_BYTES w1 = (Inr nonce, w2)" "length nonce = 12"
    using draw_run [of GCM_NONCE_BYTES w1] by (auto simp: crypto_sizes)
  have s2: "sends [] w w2" using d(1) w1(2) by (auto simp: draw_def randomBytes_def sends_def)
  obtain ct tag where g: "gcm_encrypt k nonce aad c = (ct, tag)" by fastforce
  let ?e = "\<lparr>en_nonce = nonce, en_ciphertext = ct, en_tag = tag\<rparr>"
  have others: "pause (ve_others env) m v = m v" if "undisturbed env v" for m :: "(store_world, 'x) proc" and v
    using that by (simp add: pause_def undisturbed_def split: prod.splits)
  have "encrypt cr c kek dek aad w = (Inr ?e, w2)" by (simp add: encrypt_def bnd_def w1 d g ret_def)
  moreover have "\<exists>v'. decrypt cr ?e kek dek aad v = (Inr c, v') \<and> sends [] v v'" for v :: store_world
    using un [of v] gcm.enc_size [OF g] gcm.dec_enc [OF g] d(2) by (auto simp: decrypt_def bnd_def of_result_def crypto_sizes)
  ultimately show ?thesis using s2 d(2) gcm.enc_size [OF g] assms(2) by (auto simp: others crypto_sizes)
qed

section \<open>Storing, undisturbed\<close>

text \<open>What the round trip relies on: digests are hexadecimal, JSON text and compression are read back, sizes are safe integers.\<close>

fun plain_json :: "json \<Rightarrow> bool" where
  "plain_json (JNum r) \<longleftrightarrow> r = of_int \<lfloor>r\<rfloor> \<and> \<bar>r\<bar> \<le> 9007199254740991"
| "plain_json (JArr vs) \<longleftrightarrow> list_all plain_json vs"
| "plain_json (JObj kvs) \<longleftrightarrow> distinct (map fst kvs) \<and> list_all (\<lambda>kv. plain_json (snd kv)) kvs"
| "plain_json _ \<longleftrightarrow> True"

definition codecs :: "store_env \<Rightarrow> bool" where
  "codecs env \<longleftrightarrow> (\<forall>v. plain_json v \<longrightarrow> ve_jparse env (utf8_decode (utf8_encode (ve_stringify env v))) = Some v)
     \<and> (\<forall>b. ve_gunzip env (ve_gzip env b) = Inr b) \<and> (\<forall>b. hex64 (JStr (js (ve_sha256 env b)))) \<and> (\<forall>k b. hex64 (JStr (js (ve_hmac env k b))))"

definition safe_size :: "'a list \<Rightarrow> bool" where
  "safe_size b \<longleftrightarrow> b \<noteq> [] \<and> int (length b) \<le> 9007199254740991"

text \<open>An artifact of the manifest, with the plain contents it stands for: its object is stored after the history \<open>h\<close> and decrypts to
  the compressed contents.\<close>

definition kept_artifact :: "store_env \<Rightarrow> store_input \<Rightarrow> string \<Rightarrow> store_request list \<Rightarrow> session_artifact \<Rightarrow> byte list \<Rightarrow> bool" where
  "kept_artifact env input snapshotId h a plain \<longleftrightarrow> (\<exists>e. stored env h (sa_object a) (en_ciphertext e) \<and> sa_nonce a = toUrl64 (en_nonce e) \<and> sa_tag a = toUrl64 (en_tag e)
     \<and> (\<forall>v. undisturbed env v \<longrightarrow> (\<exists>v'. pause (ve_others env) (decrypt (ve_crypto env) e (si_sessionKek input) (si_snapshotDek input)
          (aadFor (si_sessionId input) snapshotId (sa_name a))) v = (Inr (ve_gzip env plain), v') \<and> sends [] v v')))
     \<and> sa_compressedSize a = int (length (ve_gzip env plain)) \<and> sa_compressedSha256 a = ve_sha256 env (ve_gzip env plain)
     \<and> sa_plainSize a = int (length plain) \<and> sa_plainSha256 a = ve_sha256 env plain"

text \<open>An artifact as \<open>upload\<close> returns it: its object is the one of its name, and the schema accepts it.\<close>

definition uploaded :: "store_env \<Rightarrow> store_input \<Rightarrow> string \<Rightarrow> string \<Rightarrow> store_request list \<Rightarrow> session_artifact \<Rightarrow> byte list \<Rightarrow> bool" where
  "uploaded env input snapshotId name h a plain \<longleftrightarrow> kept_artifact env input snapshotId h a plain \<and> sa_name a = name \<and> ob_bucket (sa_object a) = ve_bucket env
     \<and> ob_key (sa_object a) = session_prefix input snapshotId @ ''/'' @ name @ ''.bin'' \<and> ob_versionId (sa_object a) \<noteq> Some []
     \<and> ob_sizeBytes (sa_object a) = int (length (ve_gzip env plain)) \<and> (\<exists>b. ob_sha256 (sa_object a) = ve_sha256 env b)
     \<and> url64_text (JStr (sa_nonce a)) \<and> url64_text (JStr (sa_tag a))"

lemma upload_run:
  assumes "undisturbed env w" "durable env" "unlocks (ve_crypto env) (si_sessionKek input) (si_snapshotDek input) k"
    and "map_of (st_nodes w) (resolve_path path) = Some (File plain)"
    and pre_def: "pre = session_prefix input snapshotId"
  shows "\<exists>a w' body. upload env pre name path snapshotId input w = (Inr a, w')
     \<and> sends [PutRequest (ve_bucket env) (pre @ ''/'' @ name @ ''.bin'') body, HeadRequest (ve_bucket env) (pre @ ''/'' @ name @ ''.bin'')] w w'
     \<and> uploaded env input snapshotId name (st_requests w') a plain"
proof -
  let ?c = "ve_gzip env plain" and ?key = "pre @ ''/'' @ name @ ''.bin''"
  define w1 where "w1 = w\<lparr>calls := Suc (calls w)\<rparr>"
  have r: "readFile env path w = (Inr plain, w1)" by (simp add: readFile_def fs_run assms(1,4) w1_def)
  have u1: "undisturbed env w1" and s1: "sends [] w w1" using assms(1) by (simp_all add: w1_def sends_refl)
  obtain e w2 where e: "pause (ve_others env) (encrypt (ve_crypto env) ?c (si_sessionKek input) (si_snapshotDek input) (aadFor (si_sessionId input) snapshotId name)) w1 = (Inr e, w2)"
    and s2: "sends [] w1 w2" and ne: "en_nonce e \<noteq> []" "en_tag e \<noteq> []" "length (en_ciphertext e) = length ?c"
    and dec: "\<And>v. undisturbed env v \<Longrightarrow> \<exists>v'. pause (ve_others env) (decrypt (ve_crypto env) e (si_sessionKek input) (si_snapshotDek input)
        (aadFor (si_sessionId input) snapshotId name)) v = (Inr ?c, v') \<and> sends [] v v'"
    using encrypt_run [OF assms(3) u1] by blast
  obtain ob w3 where p: "put env ?key (en_ciphertext e) w2 = (Inr ob, w3)" and s3: "sends [PutRequest (ve_bucket env) ?key (en_ciphertext e), HeadRequest (ve_bucket env) ?key] w2 w3"
    and st: "stored env (st_requests w3) ob (en_ciphertext e)" and ob: "ob_bucket ob = ve_bucket env" "ob_key ob = ?key" "ob_versionId ob \<noteq> Some []"
    using put_run [OF _ assms(2), of w2 ?key "en_ciphertext e"] sendsD(3) [OF s2] u1 by blast
  have size: "ob_sizeBytes ob = int (length ?c)" "ob_sha256 ob = ve_sha256 env (en_ciphertext e)" using st ne(3) by (simp_all add: stored_def)
  let ?a = "\<lparr>sa_name = name, sa_object = ob, sa_compressedSha256 = ve_sha256 env ?c, sa_compressedSize = int (length ?c),
       sa_plainSha256 = ve_sha256 env plain, sa_plainSize = int (length plain), sa_nonce = toUrl64 (en_nonce e), sa_tag = toUrl64 (en_tag e)\<rparr>"
  have "upload env pre name path snapshotId input w = (Inr ?a, w3)"
    by (simp only: upload_def bnd_def r e p Let_def ret_def prod.case sum.case)
  moreover have "sends [PutRequest (ve_bucket env) ?key (en_ciphertext e), HeadRequest (ve_bucket env) ?key] w w3"
    using sends_trans [OF sends_trans [OF s1 s2] s3] by simp
  moreover have "kept_artifact env input snapshotId (st_requests w3) ?a plain"
    unfolding kept_artifact_def session_artifact.simps using st dec by blast
  ultimately show ?thesis using ob size url64_accepted [OF ne(1)] url64_accepted [OF ne(2)]
    by (intro exI [of _ ?a] exI [of _ w3] exI [of _ "en_ciphertext e"]) (auto simp: uploaded_def pre_def)
qed

text \<open>A stored snapshot: both artifacts and the signed manifest that lists them.\<close>

definition session_manifest :: "store_env \<Rightarrow> local_snapshot \<Rightarrow> store_input \<Rightarrow> manifest_key \<Rightarrow> session_artifact list \<Rightarrow> json" where
  "session_manifest env loc input key artifacts = (let unsigned = session_unsigned env loc input (mk_keyId key) artifacts in
     with_signature unsigned (sign env unsigned (mk_bytes key)))"

definition session_objects :: "store_env \<Rightarrow> store_input \<Rightarrow> string \<Rightarrow> store_request list \<Rightarrow> bool" where
  "session_objects env input snapshotId h \<longleftrightarrow> (\<forall>name \<in> {''/state.bin'', ''/memory.bin'', ''/manifest.json''}.
     untouched (ve_bucket env) (session_prefix input snapshotId @ name) h)"

definition snapshot_kept :: "store_env \<Rightarrow> local_snapshot \<Rightarrow> store_input \<Rightarrow> manifest_key \<Rightarrow> snapshot_ref \<Rightarrow> byte list \<Rightarrow> byte list \<Rightarrow> store_request list \<Rightarrow> bool" where
  "snapshot_kept env loc input key ref state memory h \<longleftrightarrow> (\<exists>a b. uploaded env input (lo_id loc) ''state'' h a state \<and> uploaded env input (lo_id loc) ''memory'' h b memory
     \<and> stored env h (rf_manifest ref) (utf8_encode (ve_stringify env (session_manifest env loc input key [a, b]))))
     \<and> ob_bucket (rf_manifest ref) = ve_bucket env \<and> ob_key (rf_manifest ref) = session_prefix input (lo_id loc) @ ''/manifest.json''
     \<and> rf_id ref = lo_id loc \<and> rf_kind ref = Session \<and> rf_sessionId ref = Some (si_sessionId input) \<and> rf_baseSnapshotId ref = Some (si_baseSnapshotId input)"

lemma uploaded_later:
  assumes "uploaded env input snapshotId name h a plain" "untouched (ve_bucket env) (session_prefix input snapshotId @ ''/'' @ name @ ''.bin'') h'"
  shows "uploaded env input snapshotId name (h @ h') a plain"
  using assms stored_later [of env h "sa_object a" _ h'] unfolding uploaded_def kept_artifact_def by metis

lemma store_run:
  assumes "undisturbed env w" "durable env" "unlocks (ve_crypto env) (si_sessionKek input) (si_snapshotDek input) k" "\<And>n. ve_active env n = Inr key"
    and "lo_kind loc = Session" "map_of (st_nodes w) (resolve_path (lo_statePath loc)) = Some (File state)"
    and "map_of (st_nodes w) (resolve_path (lo_memoryPath loc)) = Some (File memory)"
  shows "\<exists>ref w'. session_store env loc input w = (Inr ref, w') \<and> snapshot_kept env loc input key ref state memory (st_requests w')
     \<and> st_nodes w' = st_nodes w \<and> undisturbed env w'"
proof -
  let ?pre = "session_prefix input (lo_id loc)" and ?b = "ve_bucket env"
  define w1 where "w1 = w\<lparr>st_requests := st_requests w @ [CreateBucket ?b], calls := Suc (Suc (calls w))\<rparr>"
  have "ve_s3 env (st_requests w) (CreateBucket ?b) \<noteq> Refused n" for n using assms(2) by (simp add: durable_def)
  then have ens: "session_ensureBucket env w = (Inr (), w\<lparr>st_requests := st_requests w @ [CreateBucket ?b], calls := Suc (calls w)\<rparr>)"
    by (auto simp: session_ensureBucket_def ensure_bucket_def bnd_def ret_def s3_run assms(1) split: store_answer.splits)
  have act: "key_call env (ve_active env) (w\<lparr>st_requests := st_requests w @ [CreateBucket ?b], calls := Suc (calls w)\<rparr>) = (Inr key, w1)"
    by (simp add: key_run assms(1,4) w1_def)
  have w1: "undisturbed env w1" "st_nodes w1 = st_nodes w" using assms(1) by (simp_all add: w1_def)
  obtain a w2 body where a: "upload env ?pre ''state'' (lo_statePath loc) (lo_id loc) input w1 = (Inr a, w2)"
    and s2: "sends [PutRequest ?b (?pre @ ''/'' @ ''state'' @ ''.bin'') body, HeadRequest ?b (?pre @ ''/'' @ ''state'' @ ''.bin'')] w1 w2"
    and ua: "uploaded env input (lo_id loc) ''state'' (st_requests w2) a state"
    using upload_run [OF w1(1) assms(2,3) _ refl, of "lo_statePath loc" state "lo_id loc" "''state''"] assms(6) w1(2) by auto
  obtain b w3 body' where b: "upload env ?pre ''memory'' (lo_memoryPath loc) (lo_id loc) input w2 = (Inr b, w3)"
    and s3: "sends [PutRequest ?b (?pre @ ''/'' @ ''memory'' @ ''.bin'') body', HeadRequest ?b (?pre @ ''/'' @ ''memory'' @ ''.bin'')] w2 w3"
    and ub: "uploaded env input (lo_id loc) ''memory'' (st_requests w3) b memory"
    using upload_run [OF _ assms(2,3) _ refl, of w2 "lo_memoryPath loc" memory "lo_id loc" "''memory''"] assms(7) w1 sendsD [OF s2] by auto
  let ?m = "utf8_encode (ve_stringify env (session_manifest env loc input key [a, b]))"
  obtain ob w4 where p: "put env (?pre @ ''/manifest.json'') ?m w3 = (Inr ob, w4)"
    and s4: "sends [PutRequest ?b (?pre @ ''/manifest.json'') ?m, HeadRequest ?b (?pre @ ''/manifest.json'')] w3 w4"
    and st: "stored env (st_requests w4) ob ?m" "ob_bucket ob = ?b" "ob_key ob = ?pre @ ''/manifest.json''"
    using put_run [OF _ assms(2), of w3 "?pre @ ''/manifest.json''" ?m] w1 sendsD [OF s2] sendsD [OF s3] by auto
  let ?ref = "\<lparr>rf_id = lo_id loc, rf_kind = Session, rf_manifest = ob, rf_manifestKeyId = mk_keyId key, rf_createdAt = lo_createdAt loc,
          rf_sessionId = Some (si_sessionId input), rf_baseSnapshotId = Some (si_baseSnapshotId input)\<rparr>"
  have "session_store env loc input w = (Inr ?ref, w4)"
    using p unfolding session_store_def session_manifest_def Let_def
    by (simp add: assms(5) bnd_def ens act a b ret_def)
  moreover have "uploaded env input (lo_id loc) ''state'' (st_requests w4) a state" "uploaded env input (lo_id loc) ''memory'' (st_requests w4) b memory"
    unfolding sendsD(2) [OF s4] unfolding sendsD(2) [OF s3] append_assoc
    using uploaded_later [OF ua] uploaded_later [OF ub] sendsD(2) [OF s3] by (auto simp: untouched_def)
  ultimately show ?thesis using st sendsD [OF s2] sendsD [OF s3] sendsD [OF s4] w1
    by (intro exI [of _ ?ref] exI [of _ w4]) (auto simp: snapshot_kept_def)
qed

section \<open>Staging a directory\<close>

text \<open>The directory \<open>t\<close> is there with just the files \<open>cs\<close> below it, and nothing at the destination \<open>d\<close> beside it.\<close>

definition staging :: "fs_path \<Rightarrow> fs_path \<Rightarrow> (fs_path \<times> fs_node) list \<Rightarrow> (fs_path \<times> fs_node) list \<Rightarrow> bool" where
  "staging t d ns cs \<longleftrightarrow> (\<forall>q. prefix q t \<longrightarrow> map_of ns q = Some Dir) \<and> filter (\<lambda>n. strict_prefix t (fst n)) ns = cs
     \<and> (\<forall>n \<in> set ns. \<not> prefix d (fst n))"

text \<open>Nothing is at \<open>d\<close> yet, and no file is in the way of the directories above it.\<close>

definition vacant :: "fs_path \<Rightarrow> (fs_path \<times> fs_node) list \<Rightarrow> bool" where
  "vacant d ns \<longleftrightarrow> (\<forall>n \<in> set ns. \<not> prefix d (fst n)) \<and> (\<forall>q b. prefix q d \<longrightarrow> map_of ns q \<noteq> Some (File b))"

lemma map_of_filter_path: "Q q \<Longrightarrow> map_of (filter (\<lambda>n. Q (fst n)) ns) q = map_of ns q"
  by (induction ns) auto

lemma map_of_dirs: "map_of (map (\<lambda>q. (q, Dir)) qs) q = (if q \<in> set qs then Some Dir else None)"
  by (induction qs) auto

lemma in_takes: "q \<in> set (map (\<lambda>k. take k p) [0..<Suc (length p)]) \<longleftrightarrow> prefix q p"
proof
  assume "prefix q p"
  then have "q = take (length q) p" "length q < Suc (length p)" by (auto simp: prefix_def)
  then show "q \<in> set (map (\<lambda>k. take k p) [0..<Suc (length p)])" by (metis atLeast0LessThan image_eqI lessThan_iff set_map set_upt)
qed (auto simp: take_is_prefix)


lemma stage_mkdir:
  assumes "undisturbed env w" "vacant (p @ [x]) (st_nodes w)" "x \<noteq> y" "resolve_path t = p @ [y]"
  shows "\<exists>w' w''. rm env t w = (Inr (), w') \<and> mkdir env t w' = (Inr (), w'') \<and> undisturbed env w'' \<and> st_requests w'' = st_requests w
     \<and> staging (p @ [y]) (p @ [x]) (st_nodes w'') []"
proof -
  let ?t = "p @ [y]"
  let ?ns = "filter (\<lambda>n. \<not> prefix ?t (fst n)) (st_nodes w)"
  let ?all = "map (\<lambda>k. take k ?t) [0..<Suc (length ?t)]"
  let ?ms = "?ns @ map (\<lambda>q. (q, Dir)) (filter (\<lambda>q. map_of ?ns q = None) ?all)"
  let ?w1 = "w\<lparr>calls := Suc (calls w), st_nodes := ?ns\<rparr>"
  have kept: "map_of ?ns q = (if prefix ?t q then None else map_of (st_nodes w) q)" for q
    using map_of_filter_path [of "\<lambda>q. \<not> prefix ?t q" q "st_nodes w"] by (auto simp: map_of_eq_None_iff)
  have nofile: "map_of ?ns q \<noteq> Some (File b)" if "prefix q ?t" for q b
  proof (cases "q = ?t")
    case False
    then have "prefix q p" using that by simp
    then show ?thesis using assms(2) by (auto simp: kept vacant_def)
  qed (simp add: kept)
  have ex: "\<not> list_ex (\<lambda>q. case map_of ?ns q of Some (File _) \<Rightarrow> True | _ \<Rightarrow> False) ?all"
    unfolding list_ex_iff in_takes Bex_def using nofile by (auto split: option.splits fs_node.splits)
  have run: "rm env t w = (Inr (), ?w1)" "mkdir env t ?w1 = (Inr (), ?w1\<lparr>calls := Suc (calls ?w1), st_nodes := ?ms\<rparr>)"
    using assms(1,4) ex by (simp_all add: rm_run mkdir_def fs_run Let_def del: map_map upt_Suc)
  have "map_of ?ms q = Some Dir" if "prefix q ?t" for q
  proof (cases "map_of ?ns q")
    case None
    then show ?thesis using that in_takes [of q ?t] by (simp add: map_add_def map_of_dirs del: upt_Suc)
  next
    case (Some v)
    then show ?thesis using nofile [OF that] by (cases v) (simp_all add: map_add_def map_of_dirs del: upt_Suc)
  qed
  moreover have "filter (\<lambda>n. strict_prefix ?t (fst n)) ?ms = []"
    using in_takes [of _ ?t] by (auto simp: filter_empty_conv strict_prefix_def simp del: upt_Suc dest: prefix_order.antisym)
  moreover have "\<forall>n \<in> set ?ms. \<not> prefix (p @ [x]) (fst n)"
    using assms(2,3) in_takes [of _ ?t] by (auto simp: vacant_def simp del: upt_Suc dest: prefix_order.trans)
  ultimately show ?thesis using run assms(1) by (auto simp: staging_def)
qed

lemma stage_write:
  assumes "undisturbed env w" "staging (p @ [y]) (p @ [x]) (st_nodes w) cs" "x \<noteq> y" "resolve_path f = p @ [y, z]" "z \<notin> (\<lambda>n. last (fst n)) ` set cs"
  shows "\<exists>w'. writeFile env f b w = (Inr (), w') \<and> undisturbed env w' \<and> st_requests w' = st_requests w
     \<and> staging (p @ [y]) (p @ [x]) (st_nodes w') (cs @ [(p @ [y, z], File b)])"
proof -
  let ?t = "p @ [y]" and ?f = "p @ [y, z]"
  have f: "strict_prefix ?t ?f" by (simp add: strict_prefix_def prefix_def)
  have "map_of cs ?f = None" using assms(5) by (force simp: map_of_eq_None_iff)
  then have new: "map_of (st_nodes w) ?f = None"
    using map_of_filter_path [of "strict_prefix ?t" ?f "st_nodes w"] f assms(2) by (simp add: staging_def)
  have dir: "map_of (st_nodes w) ?t = Some Dir" using assms(2) by (simp add: staging_def)
  have bl: "butlast ?f = ?t" by (simp add: butlast_append)
  have run: "writeFile env f b w = (Inr (), w\<lparr>calls := Suc (calls w), st_nodes := st_nodes w @ [(?f, File b)]\<rparr>)"
    using new dir bl by (simp add: writeFile_def fs_run assms(1,4) Let_def)
  have "map_of (st_nodes w @ [(?f, File b)]) q = Some Dir" if "prefix q ?t" for q
    using assms(2) that unfolding staging_def by (simp only: map_of_append map_add_def option.case)
  with run f assms(1-3) show ?thesis by (auto simp: staging_def)
qed

lemma map_of_moved:
  assumes "\<forall>n \<in> set ns. \<not> prefix d (fst n)" "r \<noteq> []"
  shows "map_of (map (moved t d) ns) (d @ r) = map_of (filter (\<lambda>n. strict_prefix t (fst n)) ns) (t @ r)"
  using assms
  by (induction ns) (auto simp: moved_def strict_prefix_def prefix_def)

text \<open>The destination is absent, so that the staged directory becomes it.\<close>

lemma stage_rename:
  assumes "undisturbed env w" "staging (p @ [y]) (p @ [x]) (st_nodes w) cs" "resolve_path t = p @ [y]" "resolve_path d = p @ [x]" "resolve_path u = p"
  shows "\<exists>w'. seq (mkdir env u) (try_catch (seq (fs_stat env d) (rm env t)) (\<lambda>_. fs_rename env t d)) w = (Inr (), w')
     \<and> undisturbed env w' \<and> st_requests w' = st_requests w \<and> (\<forall>r. r \<noteq> [] \<longrightarrow> map_of (st_nodes w') (p @ [x] @ r) = map_of cs (p @ [y] @ r))"
proof -
  let ?ns = "st_nodes w" and ?t = "p @ [y]" and ?d = "p @ [x]"
  have dirs: "map_of ?ns q = Some Dir" if "prefix q ?t" for q using assms(2) that unfolding staging_def by blast
  have free: "\<forall>n \<in> set ?ns. \<not> prefix ?d (fst n)" using assms(2) by (simp add: staging_def)
  have none: "map_of ?ns ?d = None" using free by (auto simp: map_of_eq_None_iff)
  have same: "filter (\<lambda>n. fst n \<noteq> ?d) ?ns = ?ns" using free by (auto simp: filter_id_conv)
  have all: "map_of ?ns q = Some Dir" if "q \<in> set (map (\<lambda>k. take k p) [0..<Suc (length p)])" for q
    using that dirs unfolding in_takes by simp
  let ?w1 = "w\<lparr>calls := Suc (calls w)\<rparr>" let ?w2 = "w\<lparr>calls := Suc (Suc (calls w))\<rparr>"
  have 1: "mkdir env u w = (Inr (), ?w1)"
  proof -
    have "\<not> list_ex (\<lambda>q. case map_of ?ns q of Some (File _) \<Rightarrow> True | _ \<Rightarrow> False) (map (\<lambda>k. take k p) [0..<Suc (length p)])"
      unfolding list_ex_iff using all by fastforce
    moreover have "filter (\<lambda>q. map_of ?ns q = None) (map (\<lambda>k. take k p) [0..<Suc (length p)]) = []"
      unfolding filter_empty_conv using all by fastforce
    ultimately show ?thesis by (simp add: mkdir_def fs_run assms(1,5) Let_def del: upt_Suc map_map)
  qed
  have 2: "fs_stat env d ?w1 = (Inl ForeignError, ?w2)" by (simp add: fs_stat_def fs_run assms(1,4) none)
  have "\<not> list_ex (\<lambda>n. prefix ?d (fst n) \<and> n \<noteq> (?d, Dir)) ?ns" using free by (auto simp: list_ex_iff)
  then have 3: "fs_rename env t d ?w2 = (Inr (), ?w2\<lparr>calls := Suc (calls ?w2), st_nodes := map (moved ?t ?d) ?ns\<rparr>)"
    by (simp add: fs_rename_def fs_run assms(1,3,4) dirs Let_def same)
  have "map_of (map (moved ?t ?d) ?ns) (?d @ r) = map_of cs (?t @ r)" if "r \<noteq> []" for r
    using map_of_moved [OF free that, of ?t] assms(2) by (simp add: staging_def)
  then show ?thesis using 1 2 3 assms(1) by (auto simp: bnd_def try_catch_def)
qed

lemma dirname_join:
  assumes "plain_segment a" "plain_segment b"
  shows "resolve_path (dirname (path_join [d, a, b])) = resolve_path d @ [a]"
proof -
  have r: "resolve_path (slashed [d, a, b]) = (resolve_path d @ [a]) @ [b]"
    using resolve_segment [OF assms(2), of "d @ ''/'' @ a"] resolve_segment [OF assms(1), of d] by simp
  have "path_join [d, a, b] = (''/'' @ slashed (resolve_path d @ [a])) @ ''/'' @ b"
    unfolding path_join_def r using slashed_snoc [of "resolve_path d @ [a]" b] by simp
  moreover have "dirname (s @ ''/'' @ b) = s" for s
  proof -
    have "dropWhile (\<lambda>x. x \<noteq> CHR ''/'') (rev b @ rev (s @ ''/'')) = rev (s @ ''/'')"
      by (subst dropWhile_append2) (use assms(2) in \<open>auto simp: plain_segment_def\<close>)
    then show ?thesis by (simp add: dirname_def before_last_def)
  qed
  ultimately have "dirname (path_join [d, a, b]) = ''/'' @ slashed (resolve_path d @ [a])" by metis
  then show ?thesis using resolve_slashed [of "resolve_path d @ [a]"] resolve_plain [of d] assms(1) by simp
qed

section \<open>Restoring, undisturbed\<close>

lemma plain_object: "\<bar>ob_sizeBytes ob\<bar> \<le> 9007199254740991 \<Longrightarrow> plain_json (object_json ob)"
  by (cases "ob_versionId ob") (simp_all add: object_json_def text_json_def)

lemma plain_artifact:
  assumes "uploaded env input snapshotId name h a plain" "safe_size plain" "safe_size (ve_gzip env plain)"
  shows "plain_json (session_artifact_json a)"
  using assms plain_object [of "sa_object a"]
  by (simp add: session_artifact_json_def text_json_def uploaded_def kept_artifact_def safe_size_def)

lemma plain_manifest:
  "list_all plain_json (map session_artifact_json artifacts) \<Longrightarrow> plain_json (session_manifest env loc input key artifacts)"
  by (simp add: session_manifest_def session_unsigned_def with_signature_def text_json_def list_all_iff)

context schema_library
begin

lemma uploaded_accepted:
  assumes "uploaded env input snapshotId name h a plain" "safe_size plain" "safe_size (ve_gzip env plain)" "codecs env" "ve_bucket env \<noteq> []"
    and "name \<in> {''state'', ''memory''}"
  shows "parse session_artifact_schema (session_artifact_json a) = Some (session_artifact_json a)"
proof (rule session_artifact_accepted)
  have hex: "hex64 (JStr (js (ve_sha256 env b)))" for b using assms(4) by (simp add: codecs_def)
  show "hex64 (JStr (js (sa_compressedSha256 a)))" "hex64 (JStr (js (sa_plainSha256 a)))"
    using assms(1) hex by (simp_all add: uploaded_def kept_artifact_def)
  have sizes: "0 < length plain" "0 < length (ve_gzip env plain)" "int (length plain) \<le> 9007199254740991" "int (length (ve_gzip env plain)) \<le> 9007199254740991"
    using assms(2,3) by (simp_all add: safe_size_def)
  show "parse objectSchema (object_json (sa_object a)) = Some (object_json (sa_object a))"
    by (rule object_ref_accepted) (use assms(1,5) hex sizes in \<open>auto simp: uploaded_def session_prefix_def\<close>)
  show "0 < sa_compressedSize a" "sa_compressedSize a \<le> 9007199254740991" "0 < sa_plainSize a" "sa_plainSize a \<le> 9007199254740991"
    using assms(1) sizes by (simp_all add: uploaded_def kept_artifact_def)
qed (use assms(1,6) in \<open>auto simp: uploaded_def\<close>)

lemma read_session_manifest:
  assumes "undisturbed env w" "codecs env" "ve_parse env = parse" "ve_resolveKey env (mk_keyId key) = (\<lambda>_. Inr key)" "ve_bucket env \<noteq> []" "mk_keyId key \<noteq> []"
    and "fmt FUuid (js (lo_id loc))" "fmt FUuid (js (si_sessionId input))" "fmt FUuid (js (si_baseSnapshotId input))" "fmt FDatetime (js (ve_iso env (lo_createdAt loc)))"
    and a: "uploaded env input (lo_id loc) ''state'' h a state" "safe_size state" "safe_size (ve_gzip env state)"
    and b: "uploaded env input (lo_id loc) ''memory'' h b memory" "safe_size memory" "safe_size (ve_gzip env memory)"
    and ob: "stored env h (rf_manifest ref) (utf8_encode (ve_stringify env (session_manifest env loc input key [a, b])))"
    and "st_requests w = h @ h'" "untouched (ob_bucket (rf_manifest ref)) (ob_key (rf_manifest ref)) h'"
  shows "\<exists>w' rq. session_readManifest env ref w = (Inr (session_manifest env loc input key [a, b]), w') \<and> sends [GetRequest (ob_bucket (rf_manifest ref)) (ob_key (rf_manifest ref)) rq] w w'"
proof -
  let ?m = "session_manifest env loc input key [a, b]"
  obtain w1 where d: "download env (rf_manifest ref) w = (Inr (utf8_encode (ve_stringify env ?m)), w1)"
    and s1: "sends [GetRequest (ob_bucket (rf_manifest ref)) (ob_key (rf_manifest ref)) (ob_versionId (rf_manifest ref))] w w1"
    using download_run [OF assms(1) ob assms(18,19)] by blast
  have "plain_json ?m" by (rule plain_manifest) (use plain_artifact [OF a] plain_artifact [OF b] in simp)
  then have json: "ve_jparse env (utf8_decode (utf8_encode (ve_stringify env ?m))) = Some ?m" using assms(2) unfolding codecs_def by blast
  have "hex64 (JStr (js (sign env u k)))" for u k using assms(2) by (simp add: codecs_def sign_def)
  then have schema: "parse manifestSchema ?m = Some ?m"
    unfolding session_manifest_def Let_def
    by (intro manifest_accepted) (use uploaded_accepted [OF a assms(2,5)] uploaded_accepted [OF b assms(2,5)] assms(6-10) in simp_all)
  have fields: "text_field ?m ''keyId'' = js (mk_keyId key)"
    "text_field ?m ''signature'' = js (sign env (unsigned_of ?m) (mk_bytes key))"
    unfolding session_manifest_def Let_def manifest_fields by simp_all
  have key: "key_call env (ve_resolveKey env (mk_keyId key)) w1 = (Inr key, w1\<lparr>calls := Suc (calls w1)\<rparr>)"
    using sendsD(3) [OF s1] assms(1) by (simp add: key_run assms(4))
  have "session_readManifest env ref w = (Inr ?m, w1\<lparr>calls := Suc (calls w1)\<rparr>)"
    unfolding session_readManifest_def read_signed_def
    by (simp add: bnd_def d json assms(3) schema fields key ret_def)
  then show ?thesis using sends_trans [OF s1 sends_refl(1)] by auto
qed

end

lemma restore_artifact_run:
  assumes "undisturbed env w" "uploaded env input snapshotId name h a plain" "codecs env"
    and "st_requests w = h @ h'" "untouched (ve_bucket env) (session_prefix input snapshotId @ ''/'' @ name @ ''.bin'') h'"
    and "text_field manifest ''sessionId'' = js (si_sessionId input)" "text_field manifest ''snapshotId'' = js snapshotId"
    and "staging (p @ [y]) (p @ [x]) (st_nodes w) cs" "x \<noteq> y" "resolve_path temporary = p @ [y]" "plain_segment name" "name \<notin> (\<lambda>n. last (fst n)) ` set cs"
  shows "\<exists>w' v. restore_artifact env manifest input temporary a w = (Inr (), w') \<and> undisturbed env w'
     \<and> st_requests w' = st_requests w @ [GetRequest (ve_bucket env) (session_prefix input snapshotId @ ''/'' @ name @ ''.bin'') v]
     \<and> staging (p @ [y]) (p @ [x]) (st_nodes w') (cs @ [(p @ [y, name], File plain)])"
proof -
  let ?k = "session_prefix input snapshotId @ ''/'' @ name @ ''.bin''"
  have a: "ob_bucket (sa_object a) = ve_bucket env" "ob_key (sa_object a) = ?k" "sa_name a = name" and kept: "kept_artifact env input snapshotId h a plain"
    using assms(2) by (simp_all add: uploaded_def)
  obtain e where st: "stored env h (sa_object a) (en_ciphertext e)" and e: "sa_nonce a = toUrl64 (en_nonce e)" "sa_tag a = toUrl64 (en_tag e)"
    and dec: "\<And>v. undisturbed env v \<Longrightarrow> \<exists>v'. pause (ve_others env) (decrypt (ve_crypto env) e (si_sessionKek input) (si_snapshotDek input)
          (aadFor (si_sessionId input) snapshotId (sa_name a))) v = (Inr (ve_gzip env plain), v') \<and> sends [] v v'"
    using kept unfolding kept_artifact_def by blast
  obtain w1 where d: "download env (sa_object a) w = (Inr (en_ciphertext e), w1)" and s1: "sends [GetRequest (ve_bucket env) ?k (ob_versionId (sa_object a))] w w1"
    using download_run [OF assms(1) st assms(4)] assms(5) a by auto
  obtain w2 where r: "pause (ve_others env) (decrypt (ve_crypto env) e (si_sessionKek input) (si_snapshotDek input) (aadFor (si_sessionId input) snapshotId (sa_name a))) w1
      = (Inr (ve_gzip env plain), w2)" and s2: "sends [] w1 w2" using dec [of w1] sendsD(3) [OF s1] assms(1) by blast
  have w2: "undisturbed env w2" "st_nodes w2 = st_nodes w" "st_requests w2 = st_requests w @ [GetRequest (ve_bucket env) ?k (ob_versionId (sa_object a))]"
    using sendsD [OF s1] sendsD [OF s2] assms(1) by auto
  have path: "resolve_path (path_join [temporary, name]) = p @ [y, name]" using resolve_join1 [OF assms(11), of temporary] assms(10) by simp
  obtain w3 where wr: "writeFile env (path_join [temporary, name]) plain w2 = (Inr (), w3)" and w3: "undisturbed env w3" "st_requests w3 = st_requests w2"
    "staging (p @ [y]) (p @ [x]) (st_nodes w3) (cs @ [(p @ [y, name], File plain)])"
    using stage_write [OF w2(1) _ assms(9) path assms(12)] assms(8) w2(2) by auto
  have e': "\<lparr>en_nonce = fromUrl64 (sa_nonce a), en_ciphertext = en_ciphertext e, en_tag = fromUrl64 (sa_tag a)\<rparr> = e"
    unfolding e fromUrl64_toUrl64 by simp
  have unzip: "ve_gunzip env (ve_gzip env plain) = Inr plain" using assms(3) by (simp add: codecs_def)
  have "restore_artifact env manifest input temporary a w = (Inr (), w3)"
    using kept a unfolding restore_artifact_def
    by (simp add: bnd_def d e' assms(6,7) r [unfolded a(3)] kept_artifact_def of_result_def unzip wr)
  then show ?thesis using w3 w2(3) by auto
qed

lemma bnd_step: "m w = (Inr x, w') \<Longrightarrow> bnd m f w = f x w'"
  by (simp add: bnd_def)

text \<open>The part of \<^verbatim>\<open>resolve\<close> that stages the artifacts and moves them to their place.\<close>

lemma stage_run:
  assumes und: "undisturbed env w" and cod: "codecs env"
    and a: "uploaded env input i ''state'' h a state" and b: "uploaded env input i ''memory'' h b memory"
    and rqs: "st_requests w = h @ h'" and un: "untouched (ve_bucket env) (session_prefix input i @ ''/'' @ ''state'' @ ''.bin'') h'"
      "untouched (ve_bucket env) (session_prefix input i @ ''/'' @ ''memory'' @ ''.bin'') h'"
    and fields: "text_field m ''sessionId'' = js (si_sessionId input)" "text_field m ''snapshotId'' = js i"
    and vac: "vacant (p @ [x]) (st_nodes w)" and xy: "x \<noteq> y" and rt: "resolve_path t = p @ [y]" and rd: "resolve_path d = p @ [x]" and ru: "resolve_path (dirname d) = p"
  shows "\<exists>w'. seq (rm env t) (seq (mkdir env t) (try_catch (seq (for_each [a, b] (restore_artifact env m input t))
       (seq (writeFile env (path_join [t, ''.complete'']) verified_marker) (seq (mkdir env (dirname d))
       (seq (try_catch (seq (fs_stat env d) (rm env t)) (\<lambda>_. fs_rename env t d)) (ret r))))) (\<lambda>e. seq (rm env t) (throw e)))) w = (Inr r, w')
     \<and> undisturbed env w' \<and> map_of (st_nodes w') (p @ [x, ''state'']) = Some (File state) \<and> map_of (st_nodes w') (p @ [x, ''memory'']) = Some (File memory)"
proof -
  let ?b = "ve_bucket env" and ?X = "try_catch (seq (fs_stat env d) (rm env t)) (\<lambda>_. fs_rename env t d)"
  let ?body = "seq (for_each [a, b] (restore_artifact env m input t)) (seq (writeFile env (path_join [t, ''.complete'']) verified_marker) (seq (mkdir env (dirname d)) (seq ?X (ret r))))"
  have names: "plain_segment ''state''" "plain_segment ''memory''" "plain_segment ''.complete''" by (simp_all add: plain_segment_def)
  obtain w2 w3 where p: "rm env t w = (Inr (), w2)" "mkdir env t w2 = (Inr (), w3)" and w3: "undisturbed env w3" "st_requests w3 = st_requests w" "staging (p @ [y]) (p @ [x]) (st_nodes w3) []"
    using stage_mkdir [OF und vac xy rt] by blast
  obtain w4 v where r1: "restore_artifact env m input t a w3 = (Inr (), w4)" and w4: "undisturbed env w4" "st_requests w4 = st_requests w3 @ [GetRequest ?b (session_prefix input i @ ''/'' @ ''state'' @ ''.bin'') v]"
     "staging (p @ [y]) (p @ [x]) (st_nodes w4) ([] @ [(p @ [y, ''state''], File state)])"
    using restore_artifact_run [OF w3(1) a cod _ un(1) fields w3(3) xy rt names(1)] w3(2) rqs by auto
  have "untouched ?b (session_prefix input i @ ''/'' @ ''memory'' @ ''.bin'') (h' @ [GetRequest ?b (session_prefix input i @ ''/'' @ ''state'' @ ''.bin'') v])"
    using un(2) by (simp add: untouched_append, simp add: untouched_def)
  then obtain w5 where r2: "restore_artifact env m input t b w4 = (Inr (), w5)" and w5: "undisturbed env w5"
     "staging (p @ [y]) (p @ [x]) (st_nodes w5) ([(p @ [y, ''state''], File state)] @ [(p @ [y, ''memory''], File memory)])"
    using restore_artifact_run [OF w4(1) b cod _ _ fields w4(3) xy rt names(2)] w4(2) w3(2) rqs by auto
  let ?cs = "[(p @ [y, ''state''], File state), (p @ [y, ''memory''], File memory), (p @ [y, ''.complete''], File verified_marker)]"
  obtain w6 where c: "writeFile env (path_join [t, ''.complete'']) verified_marker w5 = (Inr (), w6)" and w6: "undisturbed env w6" "staging (p @ [y]) (p @ [x]) (st_nodes w6) ?cs"
    using stage_write [OF w5 xy, of "path_join [t, ''.complete'']" "''.complete''" verified_marker] resolve_join1 [OF names(3), of t] rt by auto
  obtain w7 where ren: "seq (mkdir env (dirname d)) ?X w6 = (Inr (), w7)" and w7: "undisturbed env w7" "\<And>q. q \<noteq> [] \<Longrightarrow> map_of (st_nodes w7) (p @ [x] @ q) = map_of ?cs (p @ [y] @ q)"
    using stage_rename [OF w6 rt rd ru] by blast
  have "seq (mkdir env (dirname d)) (seq ?X (ret r)) w6 = (Inr r, w7)" using ren by (auto simp: bnd_def ret_def split: prod.splits sum.splits)
  moreover have "for_each [a, b] (restore_artifact env m input t) w3 = (Inr (), w5)" by (simp add: bnd_def r1 r2 ret_def)
  ultimately have "?body w3 = (Inr r, w7)" by (simp add: bnd_step c)
  then have "try_catch ?body (\<lambda>e. seq (rm env t) (throw e)) w3 = (Inr r, w7)" by (simp add: try_catch_def del: for_each.simps)
  then have "seq (rm env t) (seq (mkdir env t) (try_catch ?body (\<lambda>e. seq (rm env t) (throw e)))) w = (Inr r, w7)"
    unfolding bnd_step [of "rm env t" w, OF p(1)] bnd_step [of "mkdir env t" w2, OF p(2)] .
  then show ?thesis using w7(1) w7(2) [of "[''state'']"] w7(2) [of "[''memory'']"] by (intro exI [of _ w7]) simp
qed

lemma resolve_run:
  assumes lib: "schema_library fmt (ve_parse env)" and cod: "codecs env" and keys: "manifest_keys (ve_active env) (ve_resolveKey env)"
    and act: "\<forall>n. ve_active env n = Inr key" and kid: "mk_keyId key \<noteq> []" and buck: "ve_bucket env \<noteq> []" and uu: "\<forall>n. CHR ''/'' \<notin> set (ve_uuid env n)"
    and seg: "plain_segment (lo_id loc)"
    and ids: "fmt FUuid (js (lo_id loc))" "fmt FUuid (js (si_sessionId input))" "fmt FUuid (js (si_baseSnapshotId input))" "fmt FDatetime (js (ve_iso env (lo_createdAt loc)))"
    and sizes: "safe_size state" "safe_size (ve_gzip env state)" "safe_size memory" "safe_size (ve_gzip env memory)"
    and kept: "snapshot_kept env loc input key ref state memory h"
    and und: "undisturbed env w" and rqs: "st_requests w = h @ h'" and untouched: "session_objects env input (lo_id loc) h'"
    and vac: "vacant (resolve_path (ve_cacheDirectory env) @ [''session-snapshots'', lo_id loc]) (st_nodes w)" and bas: "rf_id (rs_ref base) = si_baseSnapshotId input"
  shows "\<exists>r w'. session_resolve env ref input base w = (Inr r, w') \<and> rs_ref r = ref
     \<and> fst (readFile env (rs_statePath r) w') = Inr state \<and> fst (readFile env (rs_memoryPath r) w') = Inr memory"
proof -
  let ?k = "session_prefix input (lo_id loc)" and ?b = "ve_bucket env" and ?i = "lo_id loc"
  let ?p = "resolve_path (ve_cacheDirectory env) @ [''session-snapshots'']" and ?d = "path_join [ve_cacheDirectory env, ''session-snapshots'', lo_id loc]"
  obtain a b where a: "uploaded env input ?i ''state'' h a state" and b: "uploaded env input ?i ''memory'' h b memory"
    and st: "stored env h (rf_manifest ref) (utf8_encode (ve_stringify env (session_manifest env loc input key [a, b])))"
    using kept unfolding snapshot_kept_def by blast
  have ref: "ob_bucket (rf_manifest ref) = ?b" "ob_key (rf_manifest ref) = ?k @ ''/manifest.json''" "rf_id ref = ?i" "rf_kind ref = Session"
    "rf_sessionId ref = Some (si_sessionId input)" "rf_baseSnapshotId ref = Some (si_baseSnapshotId input)" using kept by (simp_all add: snapshot_kept_def)
  let ?m = "session_manifest env loc input key [a, b]"
  have known: "ve_resolveKey env (mk_keyId key) = (\<lambda>_. Inr key)" using manifest_keys.active_known [OF keys] act by blast
  obtain w1 v where m: "session_readManifest env ref w = (Inr ?m, w1)" and s1: "sends [GetRequest ?b (?k @ ''/manifest.json'') v] w w1"
    using schema_library.read_session_manifest [OF lib und cod refl known buck kid ids a sizes(1,2) b sizes(3,4) st rqs] untouched ref by (auto simp: session_objects_def)
  have fields: "text_field ?m ''snapshotId'' = js ?i" "text_field ?m ''sessionId'' = js (si_sessionId input)" "text_field ?m ''baseSnapshotId'' = js (si_baseSnapshotId input)"
    "session_artifacts_of ?m = [a, b]" unfolding session_manifest_def Let_def manifest_fields by simp_all
  define t where "t = ?d @ ''.tmp-'' @ ve_uuid env (calls w1)"
  define y where "y = ?i @ ''.tmp-'' @ ve_uuid env (calls w1)"
  have y: "?i \<noteq> y" "plain_segment y" "CHR ''/'' \<notin> set (''.tmp-'' @ ve_uuid env (calls w1))" using seg uu by (auto simp: y_def plain_segment_def)
  have ss: "plain_segment ''session-snapshots''" by (simp add: plain_segment_def)
  have rt: "resolve_path t = ?p @ [y]" using resolve_longer [OF seg y(2) [unfolded y_def] y(3), of "ve_cacheDirectory env" "''session-snapshots''"] resolve_segment [OF ss]
    by (simp add: t_def y_def)
  have rd: "resolve_path ?d = ?p @ [?i]" using resolve_join2 [OF ss seg] by simp
  have u1: "undisturbed env w1" "vacant (?p @ [?i]) (st_nodes w1)" "st_requests w1 = h @ h' @ [GetRequest ?b (?k @ ''/manifest.json'') v]"
    using sendsD [OF s1] und vac rqs by simp_all
  have un: "untouched ?b (?k @ ''/'' @ ''state'' @ ''.bin'') (h' @ [GetRequest ?b (?k @ ''/manifest.json'') v])"
    "untouched ?b (?k @ ''/'' @ ''memory'' @ ''.bin'') (h' @ [GetRequest ?b (?k @ ''/manifest.json'') v])"
    using untouched by (simp_all add: session_objects_def untouched_append, simp_all add: untouched_def)
  let ?r = "\<lparr>rs_ref = ref, rs_statePath = path_join [?d, ''state''], rs_memoryPath = path_join [?d, ''memory''],
              rs_rootfsPath = rs_rootfsPath base, rs_kernelPath = rs_kernelPath base\<rparr>"
  obtain w' where run: "seq (rm env t) (seq (mkdir env t) (try_catch (seq (for_each [a, b] (restore_artifact env ?m input t))
       (seq (writeFile env (path_join [t, ''.complete'']) verified_marker) (seq (mkdir env (dirname ?d))
       (seq (try_catch (seq (fs_stat env ?d) (rm env t)) (\<lambda>_. fs_rename env t ?d)) (ret ?r))))) (\<lambda>e. seq (rm env t) (throw e)))) w1 = (Inr ?r, w')"
    and w': "undisturbed env w'" "map_of (st_nodes w') (?p @ [?i, ''state'']) = Some (File state)" "map_of (st_nodes w') (?p @ [?i, ''memory'']) = Some (File memory)"
    using stage_run [OF u1(1) cod a b u1(3) un fields(2,1) u1(2) y(1) rt rd dirname_join [OF ss seg], where r = ?r] by (elim exE conjE) (rule that)
  have gets_step: "bnd (gets g) f w1 = f (g w1) w1" for g :: "store_world \<Rightarrow> string" and f :: "string \<Rightarrow> (store_world, resolved_snapshot) proc"
    by (simp add: bnd_def gets_def)
  have "session_resolve env ref input base w = (Inr ?r, w')"
    using run unfolding session_resolve_def t_def
    by (simp add: ref bas bnd_step [of "session_readManifest env ref" w, OF m] fields fresh_uuid_def gets_step Let_def del: for_each.simps)
  moreover have "resolve_path (path_join [?d, z]) = ?p @ [?i, z]" if "plain_segment z" for z using resolve_join1 [OF that, of ?d] rd by simp
  then have "fst (readFile env (rs_statePath ?r) w') = Inr state" "fst (readFile env (rs_memoryPath ?r) w') = Inr memory"
    using w'(2,3) by (simp_all add: readFile_def fs_run w'(1) plain_segment_def)
  ultimately show ?thesis by (intro exI [of _ ?r] exI [of _ w']) simp
qed


section \<open>A codec and an object store\<close>

text \<open>A textual form of JSON trees that is easy to read back: numbers in unary, lengths and tags before contents.\<close>

definition write_nat :: "nat \<Rightarrow> utf16" where
  "write_nat n = replicate n 1 @ [0]"

fun read_nat :: "utf16 \<Rightarrow> nat \<times> utf16" where
  "read_nat [] = (0, [])"
| "read_nat (u # us) = (if u = 0 then (0, us) else apfst Suc (read_nat us))"

definition write_list :: "('a \<Rightarrow> utf16) \<Rightarrow> 'a list \<Rightarrow> utf16" where
  "write_list f xs = write_nat (length xs) @ concat (map f xs)"

lemma write_list_cong [fundef_cong]: "xs = ys \<Longrightarrow> (\<And>x. x \<in> set ys \<Longrightarrow> f x = g x) \<Longrightarrow> write_list f xs = write_list g ys"
  unfolding write_list_def by (simp cong: map_cong)

fun read_many :: "nat \<Rightarrow> (utf16 \<Rightarrow> 'a \<times> utf16) \<Rightarrow> utf16 \<Rightarrow> 'a list \<times> utf16" where
  "read_many 0 rd us = ([], us)"
| "read_many (Suc n) rd us = (case rd us of (x, us') \<Rightarrow> apfst (\<lambda>xs. x # xs) (read_many n rd us'))"

definition read_list :: "(utf16 \<Rightarrow> 'a \<times> utf16) \<Rightarrow> utf16 \<Rightarrow> 'a list \<times> utf16" where
  "read_list rd us = (case read_nat us of (n, us') \<Rightarrow> read_many n rd us')"

abbreviation write_text :: "utf16 \<Rightarrow> utf16" where "write_text \<equiv> write_list (\<lambda>u. write_nat (unat u))"

definition read_text :: "utf16 \<Rightarrow> utf16 \<times> utf16" where
  "read_text = read_list (\<lambda>us. apfst of_nat (read_nat us))"

fun write_value :: "json \<Rightarrow> utf16" where
  "write_value JNull = write_nat 0"
| "write_value (JBool b) = write_nat (if b then 1 else 2)"
| "write_value (JNum r) = write_nat (if r < 0 then 4 else 3) @ write_nat (nat \<bar>\<lfloor>r\<rfloor>\<bar>)"
| "write_value (JStr s) = write_nat 5 @ write_text s"
| "write_value (JArr vs) = write_nat 6 @ write_list write_value vs"
| "write_value (JObj kvs) = write_nat 7 @ write_list (\<lambda>kv. write_text (fst kv) @ write_value (snd kv)) kvs"

primrec read_value :: "nat \<Rightarrow> utf16 \<Rightarrow> json \<times> utf16" where
  "read_value 0 = (\<lambda>us. (JNull, us))"
| "read_value (Suc k) = (\<lambda>us. case read_nat us of (t, us') \<Rightarrow>
     if t = 0 then (JNull, us') else if t = 1 then (JBool True, us') else if t = 2 then (JBool False, us')
     else if t = 3 then apfst (\<lambda>n. JNum (of_nat n)) (read_nat us') else if t = 4 then apfst (\<lambda>n. JNum (- of_nat n)) (read_nat us')
     else if t = 5 then apfst JStr (read_text us') else if t = 6 then apfst JArr (read_list (read_value k) us')
     else apfst JObj (read_list (\<lambda>us. case read_text us of (key, us1) \<Rightarrow> apfst (Pair key) (read_value k us1)) us'))"

definition read_json :: "utf16 \<Rightarrow> json option" where
  "read_json s = Some (fst (read_value (length s) s))"

lemma read_nat_write: "read_nat (write_nat n @ r) = (n, r)"
  by (induction n) (simp_all add: write_nat_def)

lemma read_list_write:
  assumes "\<And>x r. x \<in> set xs \<Longrightarrow> rd (f x @ r) = (x, r)"
  shows "read_list rd (write_list f xs @ r) = (xs, r)"
proof -
  have "read_many (length xs) rd (concat (map f xs) @ r) = (xs, r)"
    using assms by (induction xs) simp_all
  then show ?thesis by (simp add: read_list_def write_list_def read_nat_write)
qed

lemma read_text_write: "read_text (write_text s @ r) = (s, r)"
  unfolding read_text_def by (rule read_list_write) (simp add: read_nat_write)

lemma write_list_longer: "x \<in> set xs \<Longrightarrow> length (f x) \<le> length (write_list f xs)"
proof (induction xs)
  case (Cons y ys)
  then show ?case by (cases "x = y") (auto simp: write_list_def write_nat_def)
qed simp

lemma read_value_write: "plain_json v \<Longrightarrow> length (write_value v) \<le> k \<Longrightarrow> read_value k (write_value v @ r) = (v, r)"
proof (induction v arbitrary: k r rule: plain_json.induct)
  case (1 n)
  then obtain j where k: "k = Suc j" by (cases k) (auto simp: write_nat_def)
  define m where "m = nat \<bar>\<lfloor>n\<rfloor>\<bar>"
  have "n = of_int \<lfloor>n\<rfloor>" using 1(1) unfolding plain_json.simps by (rule conjunct1)
  then have "of_nat m = \<bar>n\<bar>" unfolding m_def by (metis abs_ge_zero of_int_abs of_int_of_nat_eq of_nat_nat)
  then have "(if n < 0 then - of_nat m else of_nat m) = n" by simp
  moreover have "write_value (JNum n) = write_nat (if n < 0 then 4 else 3) @ write_nat m" by (simp add: m_def)
  ultimately show ?case by (auto simp: k read_nat_write simp del: write_value.simps)
next
  case (2 vs)
  then obtain j where k: "k = Suc j" by (cases k) (auto simp: write_nat_def)
  have "read_value j (write_value v @ r') = (v, r')" if "v \<in> set vs" for v r'
    using 2 that write_list_longer [OF that, of write_value] by (auto simp: k list_all_iff write_nat_def)
  then show ?case by (simp add: k read_nat_write read_list_write)
next
  case (3 kvs)
  let ?f = "\<lambda>kv. write_text (fst kv) @ write_value (snd kv)"
  obtain j where k: "k = Suc j" using 3 by (cases k) (auto simp: write_nat_def)
  have "(case read_text (?f kv @ r') of (key, us1) \<Rightarrow> apfst (Pair key) (read_value j us1)) = (kv, r')" if "kv \<in> set kvs" for kv r'
  proof -
    have "length (write_value (snd kv)) \<le> j" using "3.prems"(2) write_list_longer [OF that, of ?f] by (simp add: k write_nat_def [of 7])
    then have "read_value j (write_value (snd kv) @ r') = (snd kv, r')" using 3 that by (simp add: list_all_iff)
    then show ?thesis by (simp add: read_text_write)
  qed
  then have "read_list (\<lambda>us. case read_text us of (key, us1) \<Rightarrow> apfst (Pair key) (read_value j us1)) (write_list ?f kvs @ r) = (kvs, r)"
    by (rule read_list_write)
  then show ?case by (simp add: k read_nat_write)
next
  case "4_1"
  then show ?case by (cases k) (auto simp: write_nat_def)
next
  case "4_2"
  then obtain j where "k = Suc j" by (cases k) (auto simp: write_nat_def)
  then show ?case by (auto simp: read_nat_write)
next
  case "4_3"
  then obtain j where "k = Suc j" by (cases k) (auto simp: write_nat_def)
  then show ?case by (auto simp: read_nat_write read_text_write)
qed

lemma small_units: "(\<And>u. u \<in> set s \<Longrightarrow> uint u < 0xD800) \<Longrightarrow> well_formed s"
proof (induction s rule: chars.induct)
  case (2 u)
  from 2 [of u] show ?case by (simp add: well_formed_def char_wf_def high_surrogate_def low_surrogate_def)
next
  case (3 u v us)
  from "3.prems" [of u] have u: "\<not> high_surrogate u" "char_wf [u]" by (auto simp: char_wf_def high_surrogate_def low_surrogate_def)
  with 3 show ?case by (simp add: well_formed_def)
qed (simp add: well_formed_def)

lemma write_units: "set (write_value v) \<subseteq> {0, 1}"
proof -
  have nat: "set (write_nat n) \<subseteq> {0, 1}" for n by (auto simp: write_nat_def)
  have lst: "(\<And>x. x \<in> set xs \<Longrightarrow> set (f x) \<subseteq> {0, 1}) \<Longrightarrow> set (write_list f xs) \<subseteq> {0, 1}" for f :: "'a \<Rightarrow> utf16" and xs
    using nat [of "length xs"] by (auto simp: write_list_def)
  have str: "set (write_text s) \<subseteq> {0, 1}" for s by (rule lst) (rule nat)
  show ?thesis
  proof (induction v rule: write_value.induct)
    case (5 vs)
    then have "set (write_list write_value vs) \<subseteq> {0, 1}" by (rule lst)
    then show ?case using nat [of 6] by simp
  next
    case (6 kvs)
    have "set (write_list (\<lambda>kv. write_text (fst kv) @ write_value (snd kv)) kvs) \<subseteq> {0, 1}"
      by (rule lst) (use 6 str in auto)
    then show ?case using nat [of 7] by simp
  qed (use nat str in auto)
qed

lemma read_json_write: "plain_json v \<Longrightarrow> read_json (utf8_decode (utf8_encode (write_value v))) = Some v"
proof -
  assume "plain_json v"
  have "well_formed (write_value v)" by (rule small_units) (use write_units [of v] in auto)
  then show ?thesis using read_value_write [OF \<open>plain_json v\<close> order_refl, of "[]"] by (simp add: utf8_roundtrip read_json_def)
qed

text \<open>An object store that answers from the requests before.\<close>

definition object_at :: "string \<Rightarrow> string \<Rightarrow> store_request list \<Rightarrow> byte list option" where
  "object_at b k h = foldl (\<lambda>ob rq. case rq of PutRequest b' k' body \<Rightarrow> if (b', k') = (b, k) then Some body else ob
     | DeleteRequest b' k' \<Rightarrow> if (b', k') = (b, k) then None else ob | _ \<Rightarrow> ob) None h"

definition replay :: "store_request list \<Rightarrow> store_request \<Rightarrow> store_answer" where
  "replay h rq = (case rq of PutRequest _ _ _ \<Rightarrow> PutDone None | HeadRequest b k \<Rightarrow> HeadDone (map_option (\<lambda>_. ''AES256'') (object_at b k h))
     | GetRequest b k _ \<Rightarrow> GetDone (object_at b k h) | _ \<Rightarrow> Done)"

lemma object_at_kept: "untouched b k h' \<Longrightarrow> object_at b k (h @ PutRequest b k body # h') = Some body"
proof (induction h' rule: rev_induct)
  case (snoc rq h')
  then have "object_at b k (h @ PutRequest b k body # h') = Some body" by (simp add: untouched_append)
  then show ?case using snoc.prems by (auto simp: object_at_def untouched_def split: store_request.splits)
qed (simp add: object_at_def)

definition demo_keeping_env :: store_env where
  "demo_keeping_env = demo_store_env\<lparr>ve_s3 := replay, ve_stringify := write_value, ve_jparse := read_json\<rparr>"

definition demo_kek :: session_kek where "demo_kek = projr (fst (createWrappedSessionKek demo_crypto demo_store_world))"
definition demo_dek :: wrapped_key where "demo_dek = projr (fst (createWrappedSnapshotDek demo_crypto demo_kek demo_store_world))"

definition demo_store_input :: store_input where
  "demo_store_input = \<lparr>si_sessionId = ''e'', si_baseSnapshotId = ''c'', si_sessionKek = demo_kek, si_snapshotDek = demo_dek\<rparr>"

definition demo_session_snapshot :: local_snapshot where
  "demo_session_snapshot = \<lparr>lo_id = ''s'', lo_kind = Session, lo_statePath = ''/d/state'', lo_memoryPath = ''/d/memory'', lo_rootfsPath = None, lo_kernelPath = None,
     lo_createdAt = 0\<rparr>"

definition demo_restored_base :: resolved_snapshot where
  "demo_restored_base = \<lparr>rs_ref = demo_base_ref\<lparr>rf_id := ''c''\<rparr>, rs_statePath = ''/c/state'', rs_memoryPath = ''/c/memory'', rs_rootfsPath = None, rs_kernelPath = None\<rparr>"

definition demo_files :: store_world where
  "demo_files = demo_store_world\<lparr>st_nodes := [([''d'', ''state''], File [1, 2]), ([''d'', ''memory''], File [3])]\<rparr>"

lemma demo_unlocks: "\<exists>k. unlocks demo_crypto demo_kek demo_dek k"
proof -
  obtain kek w' kp where k: "createWrappedSessionKek demo_crypto demo_store_world = (Inr kek, w')" "length kp = 32"
    "\<And>v :: store_world. \<exists>v'. unwrapSessionKek demo_crypto kek v = (Inr kp, v')" using session_kek_run [OF demo_root, of demo_store_world] by blast
  obtain x w1' dek where x: "createWrappedSnapshotDek demo_crypto kek demo_store_world = (Inr x, w1')"
    "\<And>v :: store_world. \<exists>v'. unwrapSnapshotDek demo_crypto kek x v = (Inr dek, v')" using snapshot_dek_run [OF k(2,3), of demo_store_world] by blast
  have "demo_kek = kek" "demo_dek = x" using k(1) x(1) by (simp_all add: demo_kek_def demo_dek_def)
  then show ?thesis using x(2) unfolding unlocks_def by (metis fst_conv)
qed

lemma demo_keeping_laws:
  "durable demo_keeping_env" "codecs demo_keeping_env" "schema_library (\<lambda>_ _. True) (ve_parse demo_keeping_env)"
  "manifest_keys (ve_active demo_keeping_env) (ve_resolveKey demo_keeping_env)"
proof -
  have env: "ve_s3 demo_keeping_env = replay" "ve_stringify demo_keeping_env = write_value" "ve_jparse demo_keeping_env = read_json" "ve_sha256 demo_keeping_env = (\<lambda>_. demo_digest)"
    "ve_hmac demo_keeping_env = (\<lambda>_ _. demo_digest)" "ve_gzip demo_keeping_env = id" "ve_gunzip demo_keeping_env = Inr" "ve_parse demo_keeping_env = zod (\<lambda>_ _. True)"
    "ve_active demo_keeping_env = env_active demo_key" "ve_resolveKey demo_keeping_env = env_resolve demo_key"
    by (simp_all add: demo_keeping_env_def demo_store_env_def)
  show "durable demo_keeping_env" unfolding durable_def env by (auto simp: replay_def object_at_kept)
  have "hex64 (JStr (js demo_digest))" by code_simp
  then show "codecs demo_keeping_env" unfolding codecs_def env using read_json_write by simp
  show "schema_library (\<lambda>_ _. True) (ve_parse demo_keeping_env)" unfolding env by (rule zod.schema_library_axioms)
  show "manifest_keys (ve_active demo_keeping_env) (ve_resolveKey demo_keeping_env)" unfolding env by (rule env_keys.manifest_keys_axioms)
qed


end
