(* ===== verification/Scheduling.thy ===== *)
theory Scheduling
  imports Lifecycle_Handlers Base_Snapshots
begin

text \<open>
  What the control plane does on a clock (\<^verbatim>\<open>apps/control-plane/src\<close>): \<^verbatim>\<open>snapshot-catalog.ts\<close> promotes a base snapshot and reads the active one,
  \<^verbatim>\<open>snapshot-scheduler.ts\<close> builds and promotes one when it is due, \<^verbatim>\<open>session-reaper.ts\<close> ends expired and suspends idle sessions, and
  \<^verbatim>\<open>periodic-reconciler.ts\<close> runs a target at an interval. \<open>promotion_atomic\<close> shows that a promotion happens as a whole and is what is read back,
  \<open>reaper_complete\<close> that a pass ends every expired session whatever fails, and \<open>reconciler_single_flight\<close> that runs never overlap and that none
  begins after a stop.
\<close>

section \<open>The catalog of base snapshots\<close>

definition base_row :: "snapshot_ref \<Rightarrow> int \<Rightarrow> snapshot_row" where
  "base_row s t = \<lparr>sn_id = rf_id s, sn_kind = Base, sn_session_id = None, sn_bucket = ob_bucket (rf_manifest s), sn_manifest_key = ob_key (rf_manifest s),
     sn_manifest_version = ob_versionId (rf_manifest s), sn_manifest_sha256 = ob_sha256 (rf_manifest s), sn_manifest_size_bytes = ob_sizeBytes (rf_manifest s),
     sn_manifest_key_id = rf_manifestKeyId s, sn_built_at = rf_createdAt s, sn_promoted_at = Some t, sn_expires_at = None, sn_base_snapshot_id = None,
     sn_lineage_session_id = None, sn_resume_audit_seq = None, sn_resume_action_id = None, sn_deletion_state = Retained\<rparr>"

text \<open>\<^verbatim>\<open>INSERT .. ON CONFLICT (id) DO NOTHING\<close>, with the check on the size.\<close>

definition insert_base :: "snapshot_row \<Rightarrow> unit statement" where
  "insert_base n d = (if sn_manifest_size_bytes n \<le> 0 then Inl ForeignError
     else Inr ((), if sn_id n \<in> sn_id ` set (snapshots d) then d else d\<lparr>snapshots := snapshots d @ [n]\<rparr>))"

text \<open>\<^verbatim>\<open>INSERT .. ON CONFLICT (key) DO UPDATE\<close>\<close>

definition set_setting :: "string \<Rightarrow> json \<Rightarrow> db \<Rightarrow> db" where
  "set_setting k v d = (if k \<in> st_key ` set (settings d)
     then d\<lparr>settings := update_where (\<lambda>s. st_key s = k) (\<lambda>s. s\<lparr>st_value := v\<rparr>) (settings d)\<rparr>
     else d\<lparr>settings := settings d @ [\<lparr>st_key = k, st_value = v\<rparr>]\<rparr>)"

definition promoteBaseSnapshotAtomically :: "snapshot_ref \<Rightarrow> ('z world_scheme, unit) proc" where
  "promoteBaseSnapshotAtomically s =
     (if rf_kind s \<noteq> Base then throw (Caisson SANDBOX_FAILED ''only a clean base snapshot may be promoted'')
      else transaction (bnd (gets now) (\<lambda>t.
        seq (query (insert_base (base_row s t)))
            (query (update (set_setting ''active_base_snapshot'' (JObj [(js ''snapshotId'', text_json (rf_id s))])))))))"

text \<open>The join of the setting with the table; an identifier that is not one makes the cast fail.\<close>

definition active_base :: "db \<Rightarrow> js_error + snapshot_row list" where
  "active_base d = (case setting_string ''active_base_snapshot'' ''snapshotId'' d of
     None \<Rightarrow> Inr []
   | Some v \<Rightarrow> (case id_of v of Inl e \<Rightarrow> Inl e | Inr i \<Rightarrow> Inr (filter (\<lambda>n. sn_id n = i \<and> sn_kind n = Base) (snapshots d))))"

definition active_ref :: "snapshot_row \<Rightarrow> snapshot_ref" where
  "active_ref row = \<lparr>rf_id = sn_id row, rf_kind = Base,
     rf_manifest = \<lparr>ob_bucket = sn_bucket row, ob_key = sn_manifest_key row, ob_versionId = sn_manifest_version row,
       ob_sha256 = sn_manifest_sha256 row, ob_sizeBytes = sn_manifest_size_bytes row\<rparr>,
     rf_manifestKeyId = sn_manifest_key_id row, rf_createdAt = sn_built_at row, rf_sessionId = None, rf_baseSnapshotId = None\<rparr>"

definition activeBaseSnapshot :: "('z world_scheme, snapshot_ref option) proc" where
  "activeBaseSnapshot = bnd (query (\<lambda>d. map_sum id (\<lambda>rows. (rows, d)) (active_base d))) (\<lambda>rows. case rows of
     [] \<Rightarrow> ret None | row # _ \<Rightarrow> ret (Some (active_ref row)))"

lemma setting_set: "filter (\<lambda>s. st_key s = k) (settings d) = [] \<or> (\<exists>s. filter (\<lambda>s. st_key s = k) (settings d) = [s])
   \<Longrightarrow> filter (\<lambda>s. st_key s = k) (settings (set_setting k v d)) = [\<lparr>st_key = k, st_value = v\<rparr>]"
proof -
  assume one: "filter (\<lambda>s. st_key s = k) (settings d) = [] \<or> (\<exists>s. filter (\<lambda>s. st_key s = k) (settings d) = [s])"
  have up: "filter (\<lambda>s. st_key s = k) (update_where (\<lambda>s. st_key s = k) f rs) = map f (filter (\<lambda>s. st_key s = k) rs)"
    if "\<And>s. st_key (f s) = st_key s" for f :: "setting_row \<Rightarrow> setting_row" and rs using that by (induction rs) (auto simp: update_where_def)
  show ?thesis
  proof (cases "k \<in> st_key ` set (settings d)")
    case True
    then obtain s where s: "filter (\<lambda>s. st_key s = k) (settings d) = [s]" using one by (auto simp: filter_empty_conv)
    then have "st_key s = k" by (metis (mono_tags, lifting) filter_eq_ConsD)
    then show ?thesis using True s by (simp add: set_setting_def up)
  next
    case False
    then have "filter (\<lambda>s. st_key s = k) (settings d) = []" by (auto simp: filter_empty_conv)
    then show ?thesis using False by (simp add: set_setting_def)
  qed
qed

definition setting_unique :: "db \<Rightarrow> bool" where
  "setting_unique d \<longleftrightarrow> distinct (map st_key (settings d))"

lemma unique_setting: "setting_unique d \<Longrightarrow> filter (\<lambda>s. st_key s = k) (settings d) = [] \<or> (\<exists>s. filter (\<lambda>s. st_key s = k) (settings d) = [s])"
proof -
  have "distinct (map st_key rs) \<Longrightarrow> filter (\<lambda>s. st_key s = k) rs = [] \<or> (\<exists>s. filter (\<lambda>s. st_key s = k) rs = [s])" for rs
  proof (induction rs)
    case (Cons a rs)
    have "filter (\<lambda>s. st_key s = k) rs = []" if "st_key a = k" unfolding filter_empty_conv
    proof
      fix s assume "s \<in> set rs"
      then have "st_key s \<in> st_key ` set rs" by (rule imageI)
      then show "st_key s \<noteq> k" using Cons.prems that by auto
    qed
    with Cons show ?case by auto
  qed simp
  then show "setting_unique d \<Longrightarrow> ?thesis" unfolding setting_unique_def .
qed

lemma id_of_js: "id_of (js i) = Inr i"
proof -
  have "uint (word_of_int (of_char c) :: 16 word) = of_char c \<and> of_char c < (256 :: int)" for c :: char
    using of_char_mod_256 [of c, where 'a = int] pos_mod_bound [of 256 "of_char c :: int"] pos_mod_sign [of 256 "of_char c :: int"] by (simp add: uint_word_of_int)
  then show ?thesis by (simp add: id_of_def js_def list_all_iff map_idI)
qed

lemma promoted_read:
  assumes "setting_unique d" "rf_id s \<notin> sn_id ` set (snapshots d)" "rf_kind s = Base" "rf_sessionId s = None" "rf_baseSnapshotId s = None"
    and "insert_base (base_row s t) d = Inr (x, d1)"
  shows "active_base (set_setting ''active_base_snapshot'' (JObj [(js ''snapshotId'', text_json (rf_id s))]) d1) = Inr [base_row s t]"
    and "active_ref (base_row s t) = s"
proof -
  have d1: "d1 = d\<lparr>snapshots := snapshots d @ [base_row s t]\<rparr>" using assms(2,6) by (auto simp: insert_base_def base_row_def split: if_splits)
  have "filter (\<lambda>r. st_key r = ''active_base_snapshot'') (settings (set_setting ''active_base_snapshot'' v d1)) = [\<lparr>st_key = ''active_base_snapshot'', st_value = v\<rparr>]" for v
    by (rule setting_set) (use unique_setting [OF assms(1)] d1 in simp)
  moreover have "snapshots (set_setting k v d1) = snapshots d @ [base_row s t]" for k v by (simp add: set_setting_def d1)
  moreover have "filter (\<lambda>n. sn_id n = rf_id s \<and> sn_kind n = Base) (snapshots d) = []" using assms(2) by (force simp: filter_empty_conv)
  ultimately show "active_base (set_setting ''active_base_snapshot'' (JObj [(js ''snapshotId'', text_json (rf_id s))]) d1) = Inr [base_row s t]"
    by (simp add: active_base_def setting_string_def text_json_def id_of_js base_row_def)
  show "active_ref (base_row s t) = s" using assms(3-5) by (cases s) (simp add: active_ref_def base_row_def)
qed

text \<open>
  A promotion happens as a whole: with a snapshot that is not in the catalog yet, after \<^verbatim>\<open>promoteBaseSnapshotAtomically\<close> either nothing has changed
  and the call has failed, or the active base snapshot that \<^verbatim>\<open>activeBaseSnapshot\<close> reads is exactly the reference promoted, field for field,
  and no row of the catalog is lost; also when the call fails because the answer to its commit was lost.
\<close>

theorem promotion_atomic:
  assumes "setting_unique (db w)" "rf_id s \<notin> sn_id ` set (snapshots (db w))" "rf_kind s = Base" "rf_sessionId s = None" "rf_baseSnapshotId s = None"
    and run: "promoteBaseSnapshotAtomically s w = (r, w')"
  shows "r \<noteq> Inr () \<and> db w' = db w
     \<or> set (snapshots (db w)) \<subseteq> set (snapshots (db w')) \<and> (\<forall>v w''. activeBaseSnapshot w' = (Inr v, w'') \<longrightarrow> v = Some s)"
proof -
  let ?v = "JObj [(js ''snapshotId'', text_json (rf_id s))]"
  let ?body = "bnd (gets now) (\<lambda>t. seq (query (insert_base (base_row s t))) (query (update (set_setting ''active_base_snapshot'' ?v))))"
  have "transaction ?body w = (r, w')" using run assms(3) by (simp add: promoteBaseSnapshotAtomically_def)
  then show ?thesis
  proof (cases rule: transaction_cases)
    case (committed x w2)
    from committed(1) obtain t w1 y where ins: "query (insert_base (base_row s t)) (w\<lparr>calls := Suc (calls w)\<rparr>) = (Inr y, w1)"
      and set: "query (update (set_setting ''active_base_snapshot'' ?v)) w1 = (Inr x, w2)" by (auto simp: gets_def elim!: bndE)
    have d1: "insert_base (base_row s t) (db w) = Inr (y, db w1)" using ins by (auto simp: query_def next_outcome_def split: if_splits sum.splits prod.splits)
    have "db w2 = set_setting ''active_base_snapshot'' ?v (db w1)" using set by (auto simp: query_def next_outcome_def update_def split: if_splits sum.splits prod.splits)
    with committed(3) have d: "db w' = set_setting ''active_base_snapshot'' ?v (db w1)" by simp
    have "db w1 = db w \<or> db w1 = db w\<lparr>snapshots := snapshots (db w) @ [base_row s t]\<rparr>" using d1 unfolding insert_base_def by (simp split: if_splits)
    then have "set (snapshots (db w)) \<subseteq> set (snapshots (db w1))" by auto
    then have "set (snapshots (db w)) \<subseteq> set (snapshots (db w'))" by (simp add: d set_setting_def)
    moreover have "v = Some s" if "activeBaseSnapshot w' = (Inr v, w'')" for v w''
      using that promoted_read [OF assms(1-5) d1]
      by (auto simp: activeBaseSnapshot_def query_def next_outcome_def d bnd_def ret_def split: if_splits sum.splits prod.splits)
    ultimately show ?thesis by blast
  qed auto
qed

definition demo_promoted :: snapshot_ref where
  "demo_promoted = demo_base_ref\<lparr>rf_id := ''s2''\<rparr>"

theorem promotion_atomic_witness:
  "(\<forall>v w''. activeBaseSnapshot (snd (promoteBaseSnapshotAtomically demo_promoted demo_world)) = (Inr v, w'') \<longrightarrow> v = Some demo_promoted)
   \<and> fst (promoteBaseSnapshotAtomically demo_promoted demo_world) = Inr ()
   \<and> fst (activeBaseSnapshot (snd (promoteBaseSnapshotAtomically demo_promoted demo_world))) = Inr (Some demo_promoted)"
proof -
  have run: "fst (promoteBaseSnapshotAtomically demo_promoted demo_world) = Inr ()" by code_simp
  have laws: "setting_unique (db demo_world)" "rf_id demo_promoted \<notin> sn_id ` set (snapshots (db demo_world))" "rf_kind demo_promoted = Base"
    "rf_sessionId demo_promoted = None" "rf_baseSnapshotId demo_promoted = None" by code_simp+
  have "case fst (activeBaseSnapshot (snd (promoteBaseSnapshotAtomically demo_promoted demo_world))) of Inr v \<Rightarrow> True | _ \<Rightarrow> False" by code_simp
  then show ?thesis using promotion_atomic [OF laws prod.collapse [symmetric]] run by (auto split: sum.splits) (metis prod.collapse)+
qed

section \<open>The scheduler of base snapshots\<close>

record sched_world = world +
  sc_lastBaseBuildAt :: "int option"

definition isDue :: "int option \<Rightarrow> int \<Rightarrow> int \<Rightarrow> bool" where
  "isDue previous intervalMs t \<longleftrightarrow> (case previous of None \<Rightarrow> True | Some p \<Rightarrow> p + intervalMs \<le> t)"

text \<open>\<open>build\<close> and \<open>promote\<close> are the store's operations.\<close>

definition scheduler_runOnce :: "(sched_world, snapshot_ref) proc \<Rightarrow> (snapshot_ref \<Rightarrow> (sched_world, unit) proc) \<Rightarrow> (sched_world, unit) proc" where
  "scheduler_runOnce build promote = bnd (gets (\<lambda>w. (now w, sc_lastBaseBuildAt w))) (\<lambda>(t, previous).
     if isDue previous (30 * 60 * 1000) t
     then bnd build (\<lambda>s. seq (promote s) (modify (\<lambda>w. w\<lparr>sc_lastBaseBuildAt := Some t\<rparr>))) else ret ())"

text \<open>A run that fails leaves the snapshot due; one that returns was not due, or has built, promoted and noted the time it began.\<close>

lemma scheduler_run:
  assumes "scheduler_runOnce build promote w = (r, w')"
    and "\<And>w. sc_lastBaseBuildAt (snd (build w)) = sc_lastBaseBuildAt w" "\<And>s w. sc_lastBaseBuildAt (snd (promote s w)) = sc_lastBaseBuildAt w"
  shows "sc_lastBaseBuildAt w' = (if r = Inr () \<and> isDue (sc_lastBaseBuildAt w) 1800000 (now w) then Some (now w) else sc_lastBaseBuildAt w)"
proof (cases "isDue (sc_lastBaseBuildAt w) 1800000 (now w)")
  case True
  then have "bnd build (\<lambda>s. seq (promote s) (modify (\<lambda>v. v\<lparr>sc_lastBaseBuildAt := Some (now w)\<rparr>))) w = (r, w')"
    using assms(1) by (simp add: scheduler_runOnce_def bnd_def gets_def)
  then show ?thesis
  proof (cases rule: bndE)
    case (err e)
    then show ?thesis using assms(2) [of w] by simp
  next
    case (ok s w1)
    from ok(2) show ?thesis
      by (cases rule: bndE) (use True ok(1) assms(2) [of w] assms(3) [of s w1] in \<open>auto simp: modify_def\<close>)
  qed
qed (use assms(1) in \<open>simp add: scheduler_runOnce_def bnd_def gets_def ret_def\<close>)

section \<open>The reaper\<close>

record reapable =
  re_id :: string
  re_status :: session_status
  re_expiresAt :: int
  re_lastActivityAt :: int
  re_idleTimeoutSeconds :: int

datatype reap_call = Suspend string | Terminate string

text \<open>The calls on the reaper's store, with what they answer.\<close>

record reap_world = world +
  rp_log :: "reap_call list"

record reap_env =
  re_list :: "nat \<Rightarrow> js_error + reapable list"
  re_answer :: "reap_call \<Rightarrow> nat \<Rightarrow> js_error + unit"
  re_others :: "nat \<Rightarrow> reap_world \<Rightarrow> reap_world"

definition reap_call_out :: "reap_env \<Rightarrow> reap_call \<Rightarrow> (reap_world, unit) proc" where
  "reap_call_out env c = pause (re_others env) (\<lambda>w. (re_answer env c (calls w), w\<lparr>calls := Suc (calls w), rp_log := rp_log w @ [c]\<rparr>))"

definition reap_session :: "reap_env \<Rightarrow> int \<Rightarrow> reapable \<Rightarrow> (reap_world, unit) proc" where
  "reap_session env t s = (if re_expiresAt s \<le> t then reap_call_out env (Terminate (re_id s))
     else if re_status s = Active \<and> re_lastActivityAt s + re_idleTimeoutSeconds s * 1000 \<le> t then reap_call_out env (Suspend (re_id s))
     else ret ())"

definition reaper_runOnce :: "reap_env \<Rightarrow> (reap_world, unit) proc" where
  "reaper_runOnce env = bnd (gets now) (\<lambda>t. bnd (pause (re_others env) (outside (re_list env))) (\<lambda>ss.
     seq (promise_values (map (reap_session env t) ss)) (ret ())))"

text \<open>What a session is due for.\<close>

definition due :: "int \<Rightarrow> reapable \<Rightarrow> reap_call option" where
  "due t s = (if re_expiresAt s \<le> t then Some (Terminate (re_id s))
     else if re_status s = Active \<and> re_lastActivityAt s + re_idleTimeoutSeconds s * 1000 \<le> t then Some (Suspend (re_id s)) else None)"

lemma reap_session_log:
  assumes "\<And>n w. rp_log (re_others env n w) = rp_log w"
  shows "rp_log (snd (reap_session env t s w)) = rp_log w @ (case due t s of None \<Rightarrow> [] | Some c \<Rightarrow> [c])"
  by (simp add: reap_session_def due_def reap_call_out_def pause_def assms ret_def)

lemma reap_all_log:
  assumes "\<And>n w. rp_log (re_others env n w) = rp_log w"
  shows "rp_log (snd (promise_values (map (reap_session env t) ss) w)) = rp_log w @ List.map_filter (due t) ss"
proof (induction ss arbitrary: w)
  case (Cons s ss)
  obtain r w1 where r: "reap_session env t s w = (r, w1)" by fastforce
  then have "snd (promise_values (map (reap_session env t) (s # ss)) w) = snd (promise_values (map (reap_session env t) ss) w1)" by (simp split: prod.splits)
  moreover have "rp_log w1 = rp_log w @ (case due t s of None \<Rightarrow> [] | Some c \<Rightarrow> [c])" using reap_session_log [OF assms, of t s w] r by simp
  ultimately show ?case using Cons.IH [of w1] by (simp add: map_filter_simps split: option.splits)
qed (simp add: ret_def map_filter_simps)

text \<open>
  A pass of the reaper asks for exactly what is due: when the listing returns, every session listed whose time to live has run out at the beginning of the pass
  is terminated, every other active one that has been idle for its timeout is suspended, nothing else is asked for, each once and in the order of
  the list, also when some of these calls fail. When the listing fails nothing is asked for.
\<close>

theorem reaper_complete:
  assumes "\<forall>n w. rp_log (re_others env n w) = rp_log w" and "reaper_runOnce env w = (r, w')"
  shows "rp_log w' = rp_log w @ (case re_list env (calls w) of Inl _ \<Rightarrow> [] | Inr ss \<Rightarrow> List.map_filter (due (now w)) ss)"
proof -
  let ?w1 = "w\<lparr>calls := Suc (calls w)\<rparr>"
  define w1 where "w1 = re_others env (calls ?w1) ?w1"
  have log: "rp_log w1 = rp_log w" using assms(1) by (simp add: w1_def)
  have l: "pause (re_others env) (outside (re_list env)) w = (re_list env (calls w), w1)" by (simp add: pause_def outside_def w1_def)
  have run: "bnd (pause (re_others env) (outside (re_list env))) (\<lambda>ss. seq (promise_values (map (reap_session env (now w)) ss)) (ret ())) w = (r, w')"
    using assms(2) by (simp add: reaper_runOnce_def bnd_def gets_def)
  show ?thesis
  proof (cases "re_list env (calls w)")
    case (Inl e)
    then show ?thesis using run l log by (simp add: bnd_def)
  next
    case (Inr ss)
    then have "seq (promise_values (map (reap_session env (now w)) ss)) (ret ()) w1 = (r, w')" using run l by (simp add: bnd_def)
    then have "w' = snd (promise_values (map (reap_session env (now w)) ss) w1)" by (auto simp: bnd_def ret_def split: prod.splits sum.splits)
    then show ?thesis using reap_all_log [of env "now w" ss w1] assms(1) log Inr by simp
  qed
qed

definition demo_reapable :: "string \<Rightarrow> session_status \<Rightarrow> int \<Rightarrow> reapable" where
  "demo_reapable i st e = \<lparr>re_id = i, re_status = st, re_expiresAt = e, re_lastActivityAt = 0, re_idleTimeoutSeconds = 1\<rparr>"

definition demo_reap_env :: reap_env where
  "demo_reap_env = \<lparr>re_list = (\<lambda>_. Inr [demo_reapable ''a'' Active 10, demo_reapable ''b'' Active 9000, demo_reapable ''c'' Suspended 9000]),
     re_answer = (\<lambda>_ _. Inl ForeignError), re_others = (\<lambda>_ w. w)\<rparr>"

definition demo_reap_world :: reap_world where
  "demo_reap_world = \<lparr>db = empty_db, sink = [], now = 1000, entropy = (\<lambda>_. []), draws = 0, fault = (\<lambda>_. Ok), calls = 0, activeEventIds = [], rp_log = []\<rparr>"

theorem reaper_complete_witness: "rp_log (snd (reaper_runOnce demo_reap_env demo_reap_world)) = [Terminate ''a'', Suspend ''b'']"
proof -
  have "rp_log (snd (reaper_runOnce demo_reap_env demo_reap_world)) = rp_log demo_reap_world
      @ (case re_list demo_reap_env (calls demo_reap_world) of Inl _ \<Rightarrow> [] | Inr ss \<Rightarrow> List.map_filter (due (now demo_reap_world)) ss)"
    by (rule reaper_complete) (auto simp: demo_reap_env_def intro: prod.collapse [symmetric])
  also have "\<dots> = [Terminate ''a'', Suspend ''b'']"
    by (simp add: demo_reap_env_def demo_reap_world_def due_def demo_reapable_def map_filter_simps)
  finally show ?thesis .
qed

section \<open>The periodic reconciler\<close>

text \<open>
  The fields of \<^verbatim>\<open>PeriodicReconciler\<close>, and beside them what the runtime holds for it: the timers that are set, the calls of the target that have not
  settled, how the others settled, and the calls of \<^verbatim>\<open>start\<close> that wait for a run. Promises and timers are numbers. \<open>rn_startCalls\<close> and
  \<open>rn_runs\<close> count calls of \<^verbatim>\<open>start\<close> and of the target.
\<close>

record reconciler =
  rn_timer :: "nat option"
  rn_running :: "nat option"
  rn_stopped :: bool
  rn_live :: "nat list"
  rn_inflight :: "nat list"
  rn_settled :: "(nat \<times> bool) list"
  rn_starts :: "nat list"
  rn_next :: nat
  rn_startCalls :: nat
  rn_runs :: nat

definition new_reconciler :: reconciler where
  "new_reconciler = \<lparr>rn_timer = None, rn_running = None, rn_stopped = False, rn_live = [], rn_inflight = [], rn_settled = [], rn_starts = [], rn_next = 0,
     rn_startCalls = 0, rn_runs = 0\<rparr>"

text \<open>\<^verbatim>\<open>#run\<close> up to its \<^verbatim>\<open>await\<close>: the promise it waits for.\<close>

definition reconciler_run :: "reconciler \<Rightarrow> nat \<times> reconciler" where
  "reconciler_run s = (case rn_running s of
     Some p \<Rightarrow> (p, s)
   | None \<Rightarrow> (rn_next s, s\<lparr>rn_running := Some (rn_next s), rn_inflight := rn_inflight s @ [rn_next s], rn_next := Suc (rn_next s), rn_runs := Suc (rn_runs s)\<rparr>))"

definition reconciler_start :: "reconciler \<Rightarrow> reconciler" where
  "reconciler_start s = (let s1 = s\<lparr>rn_startCalls := Suc (rn_startCalls s)\<rparr> in
     if rn_timer s \<noteq> None \<or> rn_stopped s then s1
     else case reconciler_run s1 of (p, s2) \<Rightarrow> s2\<lparr>rn_starts := p # rn_starts s2\<rparr>)"

text \<open>\<^verbatim>\<open>start\<close> after its \<^verbatim>\<open>await\<close>: a run that was rejected is thrown on.\<close>

definition start_resumed :: "nat \<Rightarrow> bool \<Rightarrow> reconciler \<Rightarrow> reconciler" where
  "start_resumed p ok s = (let s1 = s\<lparr>rn_starts := remove1 p (rn_starts s)\<rparr> in
     if \<not> ok \<or> rn_stopped s then s1
     else s1\<lparr>rn_timer := Some (rn_next s), rn_live := rn_next s # rn_live s, rn_next := Suc (rn_next s)\<rparr>)"

definition reconciler_stop :: "reconciler \<Rightarrow> reconciler" where
  "reconciler_stop s = (case rn_timer s of
     None \<Rightarrow> s\<lparr>rn_stopped := True\<rparr>
   | Some t \<Rightarrow> s\<lparr>rn_stopped := True, rn_live := remove1 t (rn_live s), rn_timer := None\<rparr>)"

inductive reconciler_step :: "reconciler \<Rightarrow> reconciler \<Rightarrow> bool" where
  start: "reconciler_step s (reconciler_start s)"
| fire: "t \<in> set (rn_live s) \<Longrightarrow> reconciler_step s (snd (reconciler_run s))"
| stop: "reconciler_step s (reconciler_stop s)"
| settle: "p \<in> set (rn_inflight s) \<Longrightarrow> reconciler_step s (s\<lparr>rn_inflight := remove1 p (rn_inflight s), rn_settled := (p, ok) # rn_settled s\<rparr>)"
| clear: "rn_running s = Some p \<Longrightarrow> (p, ok) \<in> set (rn_settled s) \<Longrightarrow> reconciler_step s (s\<lparr>rn_running := None\<rparr>)"
| resume: "p \<in> set (rn_starts s) \<Longrightarrow> (p, ok) \<in> set (rn_settled s) \<Longrightarrow> rn_running s \<noteq> Some p \<Longrightarrow> reconciler_step s (start_resumed p ok s)"

inductive reconciler_reachable :: "reconciler \<Rightarrow> bool" where
  init: "reconciler_reachable new_reconciler"
| step: "reconciler_reachable s \<Longrightarrow> reconciler_step s s' \<Longrightarrow> reconciler_reachable s'"

inductive_cases reconciler_stepE: "reconciler_step s s'"

lemmas reconciler_defs = reconciler_start_def reconciler_run_def start_resumed_def reconciler_stop_def Let_def

text \<open>One run at a time; and with one call of \<^verbatim>\<open>start\<close>, one timer, which the object knows.\<close>

definition reconciler_inv :: "reconciler \<Rightarrow> bool" where
  "reconciler_inv s \<longleftrightarrow> (rn_inflight s = [] \<or> (\<exists>p. rn_inflight s = [p] \<and> rn_running s = Some p))
     \<and> (\<forall>p ok. (p, ok) \<in> set (rn_settled s) \<longrightarrow> p < rn_next s \<and> p \<notin> set (rn_inflight s)) \<and> (\<forall>p \<in> set (rn_inflight s). p < rn_next s)
     \<and> (rn_startCalls s \<le> 1 \<longrightarrow> rn_live s = (case rn_timer s of None \<Rightarrow> [] | Some t \<Rightarrow> [t])
          \<and> length (rn_starts s) + length (rn_live s) \<le> rn_startCalls s \<and> (rn_stopped s \<longrightarrow> rn_live s = []))"

lemma reconciler_inv_step: "reconciler_step s s' \<Longrightarrow> reconciler_inv s \<Longrightarrow> reconciler_inv s'"
proof (induction rule: reconciler_step.induct)
  case (start s)
  then show ?case by (auto simp: reconciler_inv_def reconciler_defs split: option.splits)
next
  case (fire t s)
  then show ?case by (auto simp: reconciler_inv_def reconciler_defs split: option.splits)
next
  case (stop s)
  then show ?case by (auto simp: reconciler_inv_def reconciler_defs split: option.splits)
next
  case (settle p s ok)
  then show ?case by (auto simp: reconciler_inv_def)
next
  case (clear s p ok)
  then show ?case by (auto simp: reconciler_inv_def)
next
  case (resume p s ok)
  then obtain n where "length (rn_starts s) = Suc n" by (cases "rn_starts s") auto
  with resume show ?case by (auto simp: reconciler_inv_def reconciler_defs length_remove1 split: option.splits)
qed

lemma reconciler_inv_reachable: "reconciler_reachable s \<Longrightarrow> reconciler_inv s"
proof (induction rule: reconciler_reachable.induct)
  case init
  show ?case by (simp add: reconciler_inv_def new_reconciler_def)
qed (rule reconciler_inv_step)

text \<open>
  (C37) Runs of the reconciler never overlap, however calls of \<^verbatim>\<open>start\<close> and \<^verbatim>\<open>stop\<close>, timers and settling promises interleave: at most one call of the
  target is under way. And when \<^verbatim>\<open>start\<close> was called at most once, as the server does, then after \<^verbatim>\<open>stop\<close> no timer is left and no step
  whatsoever begins another run; also when the stop comes while the start still waits for its first run.
\<close>

theorem reconciler_single_flight:
  assumes "reconciler_reachable s"
  shows "length (rn_inflight s) \<le> 1
     \<and> (rn_startCalls s \<le> 1 \<longrightarrow> rn_stopped s \<longrightarrow> rn_live s = [] \<and> (\<forall>s'. reconciler_step s s' \<longrightarrow> rn_runs s' = rn_runs s \<and> rn_stopped s'))"
proof -
  have inv: "reconciler_inv s" using assms by (rule reconciler_inv_reachable)
  have "rn_runs s' = rn_runs s \<and> rn_stopped s'" if "rn_live s = []" "rn_stopped s" "reconciler_step s s'" for s'
    using that(3,1,2) by cases (auto simp: reconciler_defs split: option.splits)
  with inv show ?thesis by (auto simp: reconciler_inv_def)
qed

text \<open>Started, stopped while the first run is under way, the run settled and the start resumed.\<close>

definition demo_stopped :: reconciler where
  "demo_stopped = start_resumed 0 True ((reconciler_stop (reconciler_start new_reconciler))\<lparr>rn_inflight := [], rn_settled := [(0, True)], rn_running := None\<rparr>)"

lemma demo_stopped_reachable: "reconciler_reachable demo_stopped"
proof -
  let ?s1 = "reconciler_start new_reconciler" and ?s2 = "reconciler_stop (reconciler_start new_reconciler)"
  let ?s3 = "?s2\<lparr>rn_inflight := remove1 0 (rn_inflight ?s2), rn_settled := (0, True) # rn_settled ?s2\<rparr>"
  have "reconciler_reachable ?s2" by (rule reconciler_reachable.step [OF reconciler_reachable.step [OF reconciler_reachable.init reconciler_step.start] reconciler_step.stop])
  then have "reconciler_reachable ?s3" by (rule reconciler_reachable.step [OF _ reconciler_step.settle]) (simp add: reconciler_defs new_reconciler_def)
  then have "reconciler_reachable (?s3\<lparr>rn_running := None\<rparr>)"
    by (rule reconciler_reachable.step [OF _ reconciler_step.clear [where p = 0 and ok = True]]) (simp_all add: reconciler_defs new_reconciler_def)
  then have "reconciler_reachable (start_resumed 0 True (?s3\<lparr>rn_running := None\<rparr>))"
    by (rule reconciler_reachable.step [OF _ reconciler_step.resume]) (simp_all add: reconciler_defs new_reconciler_def)
  then show ?thesis by (simp add: demo_stopped_def reconciler_defs new_reconciler_def)
qed

theorem reconciler_single_flight_witness: "rn_stopped demo_stopped \<and> rn_runs demo_stopped = 1 \<and> length (rn_inflight demo_stopped) \<le> 1 \<and> rn_live demo_stopped = []
   \<and> rn_runs (reconciler_start demo_stopped) = 1 \<and> rn_stopped (reconciler_start demo_stopped)"
proof -
  have "rn_stopped demo_stopped" "rn_runs demo_stopped = 1" "rn_startCalls demo_stopped \<le> 1" by code_simp+
  with reconciler_single_flight [OF demo_stopped_reachable] reconciler_step.start [of demo_stopped] show ?thesis by auto
qed

text \<open>With two calls of \<^verbatim>\<open>start\<close> that wait for the same run, two timers are set and \<^verbatim>\<open>stop\<close> clears one of them: the other goes on.\<close>

lemma second_start_leaks_timer: "\<exists>s. reconciler_reachable s \<and> rn_stopped s \<and> rn_live s \<noteq> []"
proof -
  let ?s0 = "reconciler_start (reconciler_start new_reconciler)"
  let ?s1 = "?s0\<lparr>rn_inflight := remove1 0 (rn_inflight ?s0), rn_settled := (0, True) # rn_settled ?s0\<rparr>"
  let ?s2 = "?s1\<lparr>rn_running := None\<rparr>" let ?s3 = "start_resumed 0 True ?s2" let ?s4 = "start_resumed 0 True ?s3" let ?s5 = "reconciler_stop ?s4"
  have "reconciler_reachable ?s0" by (rule reconciler_reachable.step [OF reconciler_reachable.step [OF reconciler_reachable.init reconciler_step.start] reconciler_step.start])
  then have "reconciler_reachable ?s1" by (rule reconciler_reachable.step [OF _ reconciler_step.settle]) (simp add: reconciler_defs new_reconciler_def)
  then have "reconciler_reachable ?s2"
    by (rule reconciler_reachable.step [OF _ reconciler_step.clear [where p = 0 and ok = True]]) (simp_all add: reconciler_defs new_reconciler_def)
  then have "reconciler_reachable ?s3" by (rule reconciler_reachable.step [OF _ reconciler_step.resume]) (simp_all add: reconciler_defs new_reconciler_def)
  then have "reconciler_reachable ?s4" by (rule reconciler_reachable.step [OF _ reconciler_step.resume]) (simp_all add: reconciler_defs new_reconciler_def)
  then have "reconciler_reachable ?s5" by (rule reconciler_reachable.step [OF _ reconciler_step.stop])
  moreover have "rn_stopped ?s5 \<and> rn_live ?s5 \<noteq> []" by (simp add: reconciler_defs new_reconciler_def)
  ultimately show ?thesis by blast
qed

end
