(* ===== verification/Session_Lock.thy ===== *)
theory Session_Lock
  imports Session_Snapshots
begin

text \<open>
  \<^verbatim>\<open>#withSessionLock\<close> of \<^verbatim>\<open>apps/control-plane/src/session-lifecycle.ts\<close>, the promise chain that puts the operations on one session in a row, and
  \<^verbatim>\<open>boot-sandbox.ts\<close>. \<open>session_lock_fair\<close> shows mutual exclusion, order and progress of the lock, \<open>boot_cleanup\<close> that a transport is
  released only after its sandbox was destroyed.
\<close>

section \<open>The lock\<close>

text \<open>
  A call is its number. Its \<^verbatim>\<open>gate\<close> is open when it is \<open>Departed\<close>; its \<^verbatim>\<open>tail\<close> is settled when the tail before it is and its gate is open.
  \<open>lk_locks\<close> is the map \<^verbatim>\<open>#locks\<close>, which names the call whose tail it holds.
\<close>

datatype lock_phase = Queued | Working | Departed

record lock_call =
  lc_session :: string
  lc_previous :: "nat option"
  lc_phase :: lock_phase

record lock_state =
  lk_locks :: "string \<Rightarrow> nat option"
  lk_calls :: "lock_call list"

definition no_locks :: lock_state where
  "no_locks = \<lparr>lk_locks = (\<lambda>_. None), lk_calls = []\<rparr>"

definition lock_phase_of :: "lock_state \<Rightarrow> nat \<Rightarrow> lock_phase" where
  "lock_phase_of s i = lc_phase (lk_calls s ! i)"

text \<open>Whether the tail of call \<open>i\<close> is settled; calls refer to earlier ones.\<close>

function tail_settled :: "lock_state \<Rightarrow> nat \<Rightarrow> bool" where
  "tail_settled s i \<longleftrightarrow> lock_phase_of s i = Departed \<and> (case lc_previous (lk_calls s ! i) of None \<Rightarrow> True | Some j \<Rightarrow> if j < i then tail_settled s j else False)"
  by pat_completeness auto

termination by (relation "measure snd") auto

declare tail_settled.simps [simp del]

definition previous_settled :: "lock_state \<Rightarrow> nat \<Rightarrow> bool" where
  "previous_settled s i \<longleftrightarrow> (case lc_previous (lk_calls s ! i) of None \<Rightarrow> True | Some j \<Rightarrow> tail_settled s j)"

definition lock_enter :: "string \<Rightarrow> lock_state \<Rightarrow> lock_state" where
  "lock_enter sid s = \<lparr>lk_locks = (lk_locks s)(sid := Some (length (lk_calls s))),
     lk_calls = lk_calls s @ [\<lparr>lc_session = sid, lc_previous = lk_locks s sid, lc_phase = Queued\<rparr>]\<rparr>"

definition set_phase :: "nat \<Rightarrow> lock_phase \<Rightarrow> lock_state \<Rightarrow> lock_state" where
  "set_phase i p s = s\<lparr>lk_calls := (lk_calls s)[i := (lk_calls s ! i)\<lparr>lc_phase := p\<rparr>]\<rparr>"

text \<open>The \<^verbatim>\<open>finally\<close> block, after the work returned or threw.\<close>

definition lock_leave :: "nat \<Rightarrow> lock_state \<Rightarrow> lock_state" where
  "lock_leave i s = (let sid = lc_session (lk_calls s ! i); s1 = set_phase i Departed s in
     if lk_locks s sid = Some i then s1\<lparr>lk_locks := (lk_locks s1)(sid := None)\<rparr> else s1)"

inductive lock_step :: "lock_state \<Rightarrow> lock_state \<Rightarrow> bool" where
  enter: "lock_step s (lock_enter sid s)"
| work: "i < length (lk_calls s) \<Longrightarrow> lock_phase_of s i = Queued \<Longrightarrow> previous_settled s i \<Longrightarrow> lock_step s (set_phase i Working s)"
| leave: "i < length (lk_calls s) \<Longrightarrow> lock_phase_of s i = Working \<Longrightarrow> lock_step s (lock_leave i s)"

inductive lock_reachable :: "lock_state \<Rightarrow> bool" where
  init: "lock_reachable no_locks"
| step: "lock_reachable s \<Longrightarrow> lock_step s s' \<Longrightarrow> lock_reachable s'"

abbreviation session_of :: "lock_state \<Rightarrow> nat \<Rightarrow> string" where "session_of s i \<equiv> lc_session (lk_calls s ! i)"
abbreviation previous_of :: "lock_state \<Rightarrow> nat \<Rightarrow> nat option" where "previous_of s i \<equiv> lc_previous (lk_calls s ! i)"

text \<open>Calls of one session are linked in their order, from one that left when the map was empty.\<close>

definition lock_linked :: "lock_state \<Rightarrow> bool" where
  "lock_linked s \<longleftrightarrow> (\<forall>j < length (lk_calls s). case previous_of s j of
       None \<Rightarrow> (\<forall>i < j. session_of s i = session_of s j \<longrightarrow> lock_phase_of s i = Departed)
     | Some i \<Rightarrow> i < j \<and> session_of s i = session_of s j \<and> (\<forall>k. i < k \<longrightarrow> k < j \<longrightarrow> session_of s k \<noteq> session_of s j))"

definition lock_ordered :: "lock_state \<Rightarrow> bool" where
  "lock_ordered s \<longleftrightarrow> (\<forall>j < length (lk_calls s). lock_phase_of s j \<noteq> Queued \<longrightarrow> (\<forall>i < j. session_of s i = session_of s j \<longrightarrow> lock_phase_of s i = Departed))"

definition lock_known :: "lock_state \<Rightarrow> bool" where
  "lock_known s \<longleftrightarrow> (\<forall>sid. case lk_locks s sid of
       None \<Rightarrow> (\<forall>i < length (lk_calls s). session_of s i = sid \<longrightarrow> lock_phase_of s i = Departed)
     | Some i \<Rightarrow> i < length (lk_calls s) \<and> session_of s i = sid \<and> lock_phase_of s i \<noteq> Departed \<and> (\<forall>k < length (lk_calls s). session_of s k = sid \<longrightarrow> k \<le> i))"

lemma tail_settled_left: "tail_settled s i \<Longrightarrow> lock_phase_of s i = Departed"
  by (simp add: tail_settled.simps [of s i])

lemma left_settled:
  assumes "lock_linked s" "lock_ordered s" "i < length (lk_calls s)" "lock_phase_of s i = Departed"
  shows "tail_settled s i"
  using assms(3,4)
proof (induction i rule: less_induct)
  case (less i)
  show ?case
  proof (cases "previous_of s i")
    case (Some j)
    then have j: "j < i" "session_of s j = session_of s i" using assms(1) less.prems unfolding lock_linked_def by fastforce+
    then have "lock_phase_of s j = Departed" using assms(2) less.prems unfolding lock_ordered_def by auto
    then have "tail_settled s j" using less.IH [of j] j less.prems by simp
    then show ?thesis using Some j less.prems by (simp add: tail_settled.simps [of s i])
  qed (simp add: less.prems tail_settled.simps [of s i])
qed

text \<open>When the tail before a call is settled, all earlier calls of its session have left.\<close>

lemma settled_clear:
  assumes "lock_linked s" "lock_ordered s" "j < length (lk_calls s)" "previous_settled s j" "i < j" "session_of s i = session_of s j"
  shows "lock_phase_of s i = Departed"
proof (cases "previous_of s j")
  case None
  then show ?thesis using assms unfolding lock_linked_def by fastforce
next
  case (Some p)
  have p: "p < j" "session_of s p = session_of s j" "\<And>k. p < k \<Longrightarrow> k < j \<Longrightarrow> session_of s k \<noteq> session_of s j"
    using assms(1,3) Some unfolding lock_linked_def by fastforce+
  have left: "lock_phase_of s p = Departed" using assms(4) Some tail_settled_left by (simp add: previous_settled_def)
  have "i \<le> p" using p(3) [of i] assms(5,6) by (meson not_le)
  then show ?thesis
  proof (cases "i = p")
    case False
    then have "i < p" "p < length (lk_calls s)" "session_of s i = session_of s p" using \<open>i \<le> p\<close> p assms(3,6) by simp_all
    then show ?thesis using assms(2) left unfolding lock_ordered_def by (metis lock_phase.distinct(3))
  qed (use left in simp)
qed

lemma phase_update:
  assumes "i < length (lk_calls s)"
  shows "length (lk_calls (set_phase i p s)) = length (lk_calls s)" "session_of (set_phase i p s) k = session_of s k" "previous_of (set_phase i p s) k = previous_of s k"
    "lock_phase_of (set_phase i p s) k = (if k = i then p else lock_phase_of s k)" "lk_locks (set_phase i p s) = lk_locks s"
  using assms by (simp_all add: set_phase_def lock_phase_of_def nth_list_update)

lemma leave_update:
  assumes "i < length (lk_calls s)"
  shows "length (lk_calls (lock_leave i s)) = length (lk_calls s)" "session_of (lock_leave i s) k = session_of s k" "previous_of (lock_leave i s) k = previous_of s k"
    "lock_phase_of (lock_leave i s) k = (if k = i then Departed else lock_phase_of s k)"
    "lk_locks (lock_leave i s) = (if lk_locks s (session_of s i) = Some i then (lk_locks s)(session_of s i := None) else lk_locks s)"
  using phase_update [OF assms, of Departed] by (auto simp: lock_leave_def Let_def lock_phase_of_def)

lemma enter_update:
  "length (lk_calls (lock_enter sid s)) = Suc (length (lk_calls s))"
  "session_of (lock_enter sid s) (length (lk_calls s)) = sid" "previous_of (lock_enter sid s) (length (lk_calls s)) = lk_locks s sid"
  "lock_phase_of (lock_enter sid s) (length (lk_calls s)) = Queued" "lk_locks (lock_enter sid s) = (lk_locks s)(sid := Some (length (lk_calls s)))"
  "k < length (lk_calls s) \<Longrightarrow> session_of (lock_enter sid s) k = session_of s k" "k < length (lk_calls s) \<Longrightarrow> previous_of (lock_enter sid s) k = previous_of s k"
  "k < length (lk_calls s) \<Longrightarrow> lock_phase_of (lock_enter sid s) k = lock_phase_of s k"
  by (simp_all add: lock_enter_def lock_phase_of_def nth_append)

lemma lock_inv_enter:
  assumes "lock_linked s" "lock_ordered s" "lock_known s"
  shows "lock_linked (lock_enter sid s)" "lock_ordered (lock_enter sid s)" "lock_known (lock_enter sid s)"
proof -
  let ?n = "length (lk_calls s)"
  show "lock_linked (lock_enter sid s)" unfolding lock_linked_def enter_update(1)
  proof (intro allI impI)
    fix j assume "j < Suc ?n"
    show "case previous_of (lock_enter sid s) j of None \<Rightarrow> \<forall>i < j. session_of (lock_enter sid s) i = session_of (lock_enter sid s) j \<longrightarrow> lock_phase_of (lock_enter sid s) i = Departed
      | Some i \<Rightarrow> i < j \<and> session_of (lock_enter sid s) i = session_of (lock_enter sid s) j
          \<and> (\<forall>k. i < k \<longrightarrow> k < j \<longrightarrow> session_of (lock_enter sid s) k \<noteq> session_of (lock_enter sid s) j)"
    proof (cases "j = ?n")
      case True
      show ?thesis
      proof (cases "lk_locks s sid")
        case None
        then show ?thesis using assms(3) True unfolding lock_known_def by (auto simp: enter_update split: option.splits dest: spec [of _ sid])
      next
        case (Some i)
        then have "i < ?n" "session_of s i = sid" "\<And>k. k < ?n \<Longrightarrow> i < k \<Longrightarrow> session_of s k \<noteq> sid"
          using assms(3) [unfolded lock_known_def, THEN spec, of sid] by (auto simp: not_less [symmetric])
        then show ?thesis using True Some by (auto simp: enter_update)
      qed
    next
      case False
      with \<open>j < Suc ?n\<close> have j: "j < ?n" by simp
      then show ?thesis using assms(1) unfolding lock_linked_def by (fastforce simp: enter_update split: option.splits)
    qed
  qed
  show "lock_ordered (lock_enter sid s)" using assms(2) unfolding lock_ordered_def enter_update(1)
    by (auto simp: less_Suc_eq enter_update)
  show "lock_known (lock_enter sid s)" unfolding lock_known_def
  proof
    fix i show "case lk_locks (lock_enter sid s) i of None \<Rightarrow> \<forall>k < length (lk_calls (lock_enter sid s)). session_of (lock_enter sid s) k = i \<longrightarrow> lock_phase_of (lock_enter sid s) k = Departed
      | Some j \<Rightarrow> j < length (lk_calls (lock_enter sid s)) \<and> session_of (lock_enter sid s) j = i \<and> lock_phase_of (lock_enter sid s) j \<noteq> Departed
          \<and> (\<forall>k < length (lk_calls (lock_enter sid s)). session_of (lock_enter sid s) k = i \<longrightarrow> k \<le> j)"
    proof (cases "i = sid")
      case False
      then show ?thesis using assms(3) [unfolded lock_known_def, THEN spec, of i] by (auto simp: enter_update less_Suc_eq split: option.splits)
    qed (auto simp: enter_update less_Suc_eq)
  qed
qed

lemma lock_inv_work:
  assumes "lock_linked s" "lock_ordered s" "lock_known s" "i < length (lk_calls s)" "lock_phase_of s i = Queued" "previous_settled s i"
  shows "lock_linked (set_phase i Working s)" "lock_ordered (set_phase i Working s)" "lock_known (set_phase i Working s)"
proof -
  note up = phase_update [OF assms(4), of Working]
  show "lock_linked (set_phase i Working s)" unfolding lock_linked_def up
  proof (intro allI impI)
    fix j assume "j < length (lk_calls s)"
    then show "case previous_of s j of None \<Rightarrow> \<forall>k < j. session_of s k = session_of s j \<longrightarrow> (if k = i then Working else lock_phase_of s k) = Departed
      | Some k \<Rightarrow> k < j \<and> session_of s k = session_of s j \<and> (\<forall>m. k < m \<longrightarrow> m < j \<longrightarrow> session_of s m \<noteq> session_of s j)"
      using assms(1) [unfolded lock_linked_def, THEN spec, of j] assms(5) by (cases "previous_of s j") auto
  qed
  show "lock_ordered (set_phase i Working s)" unfolding lock_ordered_def up
  proof (intro allI impI)
    fix j k assume j: "j < length (lk_calls s)" "(if j = i then Working else lock_phase_of s j) \<noteq> Queued" "k < j" "session_of s k = session_of s j"
    have left: "lock_phase_of s k = Departed"
    proof (cases "j = i")
      case True
      then show ?thesis using settled_clear [OF assms(1,2,4,6)] j(3,4) by blast
    next
      case False
      then show ?thesis using assms(2) j unfolding lock_ordered_def by simp
    qed
    then have "k \<noteq> i" using assms(5) by auto
    with left show "(if k = i then Working else lock_phase_of s k) = Departed" by simp
  qed
  show "lock_known (set_phase i Working s)" unfolding lock_known_def up
  proof
    fix sid
    show "case lk_locks s sid of None \<Rightarrow> \<forall>k < length (lk_calls s). session_of s k = sid \<longrightarrow> (if k = i then Working else lock_phase_of s k) = Departed
      | Some j \<Rightarrow> j < length (lk_calls s) \<and> session_of s j = sid \<and> (if j = i then Working else lock_phase_of s j) \<noteq> Departed
          \<and> (\<forall>k < length (lk_calls s). session_of s k = sid \<longrightarrow> k \<le> j)"
      using assms(3) [unfolded lock_known_def, THEN spec, of sid] assms(4,5) by (cases "lk_locks s sid") auto
  qed
qed

lemma lock_inv_leave:
  assumes "lock_linked s" "lock_ordered s" "lock_known s" "i < length (lk_calls s)" "lock_phase_of s i = Working"
  shows "lock_linked (lock_leave i s)" "lock_ordered (lock_leave i s)" "lock_known (lock_leave i s)"
proof -
  note up = leave_update [OF assms(4)]
  show "lock_linked (lock_leave i s)" using assms(1) unfolding lock_linked_def up by (fastforce split: option.splits)
  show "lock_ordered (lock_leave i s)" using assms(2,5) unfolding lock_ordered_def up by (auto split: if_splits)
  show "lock_known (lock_leave i s)" unfolding lock_known_def up
  proof
    fix sid
    have old: "case lk_locks s sid of None \<Rightarrow> (\<forall>i < length (lk_calls s). session_of s i = sid \<longrightarrow> lock_phase_of s i = Departed)
       | Some i \<Rightarrow> i < length (lk_calls s) \<and> session_of s i = sid \<and> lock_phase_of s i \<noteq> Departed \<and> (\<forall>k < length (lk_calls s). session_of s k = sid \<longrightarrow> k \<le> i)"
      using assms(3) unfolding lock_known_def by blast
    have before: "lock_phase_of s k = Departed" if "k < i" "session_of s k = session_of s i" for k
      using assms(2,4,5) that unfolding lock_ordered_def by simp
    show "case (if lk_locks s (session_of s i) = Some i then (lk_locks s)(session_of s i := None) else lk_locks s) sid of
        None \<Rightarrow> \<forall>k < length (lk_calls s). session_of s k = sid \<longrightarrow> (if k = i then Departed else lock_phase_of s k) = Departed
      | Some j \<Rightarrow> j < length (lk_calls s) \<and> session_of s j = sid \<and> (if j = i then Departed else lock_phase_of s j) \<noteq> Departed
          \<and> (\<forall>k < length (lk_calls s). session_of s k = sid \<longrightarrow> k \<le> j)"
    proof (cases "sid = session_of s i")
      case True
      then obtain j where j: "lk_locks s sid = Some j" using old assms(4,5) by (cases "lk_locks s sid") auto
      show ?thesis
      proof (cases "j = i")
        case eq: True
        have "(if k = i then Departed else lock_phase_of s k) = Departed" if "k < length (lk_calls s)" "session_of s k = sid" for k
          using that old j eq True before [of k] by (cases "k = i") auto
        then show ?thesis using eq j True by simp
      next
        case False
        then show ?thesis using True j old by simp
      qed
    next
      case False
      then have "(if lk_locks s (session_of s i) = Some i then (lk_locks s)(session_of s i := None) else lk_locks s) sid = lk_locks s sid" by simp
      then show ?thesis using False old by (cases "lk_locks s sid") auto
    qed
  qed
qed

lemma lock_inv: "lock_reachable s \<Longrightarrow> lock_linked s \<and> lock_ordered s \<and> lock_known s"
proof (induction rule: lock_reachable.induct)
  case init
  show ?case by (simp add: lock_linked_def lock_ordered_def lock_known_def no_locks_def)
next
  case (step s s')
  from step(2,3) show ?case by (cases rule: lock_step.cases) (simp_all add: lock_inv_enter lock_inv_work lock_inv_leave)
qed

text \<open>
  (C38) The lock of a session: in every state that calls can reach, at most one call per session is at work, calls of one session work in the order in which they came,
  the map holds an entry exactly for the sessions with a call that has not departed, so that it does not grow, and whenever calls of a session are queued and
  none is at work, the first of them can go to work: a failing operation does not block its session.
\<close>

theorem session_lock_fair:
  assumes "lock_reachable s"
  shows "(\<forall>i j. i < j \<longrightarrow> j < length (lk_calls s) \<longrightarrow> session_of s i = session_of s j \<longrightarrow> lock_phase_of s j \<noteq> Queued \<longrightarrow> lock_phase_of s i = Departed)
     \<and> (\<forall>sid. lk_locks s sid = None \<longleftrightarrow> (\<forall>i < length (lk_calls s). session_of s i = sid \<longrightarrow> lock_phase_of s i = Departed))
     \<and> (\<forall>i < length (lk_calls s). lock_phase_of s i = Queued \<longrightarrow> (\<forall>k < i. session_of s k = session_of s i \<longrightarrow> lock_phase_of s k = Departed)
          \<longrightarrow> lock_step s (set_phase i Working s))"
proof -
  have inv: "lock_linked s" "lock_ordered s" "lock_known s" using lock_inv [OF assms] by auto
  have "lock_phase_of s i = Departed" if "i < j" "j < length (lk_calls s)" "session_of s i = session_of s j" "lock_phase_of s j \<noteq> Queued" for i j
    using inv(2) that unfolding lock_ordered_def by blast
  moreover have "lk_locks s sid = None \<longleftrightarrow> (\<forall>i < length (lk_calls s). session_of s i = sid \<longrightarrow> lock_phase_of s i = Departed)" for sid
    using inv(3) [unfolded lock_known_def, THEN spec, of sid] by (auto split: option.splits)
  moreover have "lock_step s (set_phase i Working s)"
    if i: "i < length (lk_calls s)" "lock_phase_of s i = Queued" "\<forall>k < i. session_of s k = session_of s i \<longrightarrow> lock_phase_of s k = Departed" for i
  proof (rule lock_step.work [OF i(1,2)])
    show "previous_settled s i"
    proof (cases "previous_of s i")
      case (Some j)
      then have j: "j < i" "session_of s j = session_of s i" using inv(1) i(1) unfolding lock_linked_def by fastforce+
      then show ?thesis using Some left_settled [OF inv(1,2), of j] i by (simp add: previous_settled_def)
    qed (simp add: previous_settled_def)
  qed
  ultimately show ?thesis by blast
qed

text \<open>Two calls for one session, the first departed.\<close>

definition demo_locked :: lock_state where
  "demo_locked = lock_leave 0 (lock_enter ''a'' (set_phase 0 Working (lock_enter ''a'' no_locks)))"

lemma demo_locked_reachable: "lock_reachable demo_locked"
proof -
  let ?s1 = "lock_enter ''a'' no_locks" let ?s2 = "set_phase 0 Working ?s1" let ?s3 = "lock_enter ''a'' ?s2"
  have 1: "lock_reachable ?s1" by (rule lock_reachable.step [OF lock_reachable.init lock_step.enter])
  have 2: "lock_reachable ?s2" by (rule lock_reachable.step [OF 1 lock_step.work]) (simp_all add: lock_enter_def no_locks_def lock_phase_of_def previous_settled_def)
  have 3: "lock_reachable ?s3" by (rule lock_reachable.step [OF 2 lock_step.enter])
  show ?thesis unfolding demo_locked_def
    by (rule lock_reachable.step [OF 3 lock_step.leave]) (simp_all add: lock_enter_def no_locks_def lock_phase_of_def set_phase_def)
qed

theorem session_lock_fair_witness: "lk_locks demo_locked ''a'' \<noteq> None \<and> lk_locks demo_locked ''b'' = None \<and> lock_step demo_locked (set_phase 1 Working demo_locked)"
proof -
  have s: "length (lk_calls demo_locked) = 2" "lock_phase_of demo_locked 1 = Queued" "lock_phase_of demo_locked 0 = Departed" "session_of demo_locked 0 = ''a''"
    "session_of demo_locked 1 = ''a''" by code_simp+
  note fair = session_lock_fair [OF demo_locked_reachable]
  have "lk_locks demo_locked ''a'' \<noteq> None" using fair s by (metis lock_phase.distinct(3) one_less_numeral_iff semiring_norm(76))
  moreover have "lk_locks demo_locked ''b'' = None" using fair s by (auto simp: less_2_cases_iff)
  moreover have "lock_step demo_locked (set_phase 1 Working demo_locked)" using fair s by (auto simp: less_2_cases_iff)
  ultimately show ?thesis by blast
qed

section \<open>Booting a sandbox\<close>

text \<open>
  The operations of driver and transport host, and the persisting of the transport, are arguments. The span around the boot only records attributes.
\<close>

definition destroyPreparedSandbox :: "(sandbox_handle \<Rightarrow> ('s, unit) proc) \<Rightarrow> (peer \<Rightarrow> ('s, unit) proc) \<Rightarrow> prepared_sandbox \<Rightarrow> ('s, unit) proc" where
  "destroyPreparedSandbox destroy releaseTransport p = seq (destroy (pp_handle p)) (releaseTransport (pp_transport p))"

definition bootSandbox :: "('s, prepared_sandbox) proc \<Rightarrow> (peer \<Rightarrow> ('s, unit) proc) \<Rightarrow> (sandbox_handle \<Rightarrow> ('s, unit) proc)
    \<Rightarrow> (sandbox_handle \<Rightarrow> ('s, unit) proc) \<Rightarrow> (peer \<Rightarrow> ('s, unit) proc) \<Rightarrow> ('s, sandbox_handle) proc" where
  "bootSandbox prepare persistTransport start destroy releaseTransport = bnd prepare (\<lambda>p.
     try_catch (seq (persistTransport (pp_transport p)) (seq (start (pp_handle p)) (ret (pp_handle p))))
       (\<lambda>e. seq (destroyPreparedSandbox destroy releaseTransport p) (throw e)))"

text \<open>When persisting or starting fails, the sandbox is destroyed first, and the transport is released only when that worked; the error of a failing
  clean-up hides the one of the boot.\<close>

lemma boot_cleanup:
  assumes "prepare s = (Inr p, s1)"
    and "seq (persistTransport (pp_transport p)) (seq (start (pp_handle p)) (ret (pp_handle p))) s1 = (Inl e, s2)"
  shows "bootSandbox prepare persistTransport start destroy releaseTransport s = (case destroy (pp_handle p) s2 of
     (Inl e', s3) \<Rightarrow> (Inl e', s3)
   | (Inr _, s3) \<Rightarrow> (case releaseTransport (pp_transport p) s3 of (Inl e', s4) \<Rightarrow> (Inl e', s4) | (Inr _, s4) \<Rightarrow> (Inl e, s4)))"
proof -
  have "bootSandbox prepare persistTransport start destroy releaseTransport s = seq (destroyPreparedSandbox destroy releaseTransport p) (throw e) s2"
    using assms(2) by (simp add: bootSandbox_def bnd_def [of prepare] assms(1) try_catch_def)
  then show ?thesis by (auto simp: destroyPreparedSandbox_def bnd_def throw_def split: prod.splits sum.splits)
qed

end
