(* ===== verification/Control_Server.thy ===== *)
theory Control_Server
  imports Policy
begin

text \<open>
  \<^verbatim>\<open>apps/control-plane/src/server.ts\<close>: the routes of the control plane's HTTP interface and its error handler. The web framework routes requests
  and is not modelled; the session operations are arguments here, from parsed data to the object that is sent, and are modelled in
  \<^verbatim>\<open>Lifecycle\<close>. \<open>api_replies_typed\<close> shows that every reply has the type of its contract, \<open>simulation_audited\<close> that a policy
  simulation is answered only when it has been audited.
\<close>

section \<open>Replies and errors\<close>

record api_reply =
  ap_status :: int
  ap_body :: json

definition statusFor :: "error_code \<Rightarrow> int" where
  "statusFor code = (if code = SESSION_NOT_FOUND then 404
     else if code = INVALID_REQUEST \<or> code = PARAMS_INVALID then 400
     else if code = AUDIT_UNAVAILABLE \<or> code = POLICY_UNAVAILABLE then 503 else 500)"

definition error_body :: "error_code \<Rightarrow> utf16 \<Rightarrow> (string \<times> utf16) list \<Rightarrow> utf16 \<Rightarrow> json" where
  "error_body code message details traceId = JObj [(js ''error'', JObj [(js ''code'', JStr (js (error_code_name code))), (js ''message'', JStr message),
     (js ''details'', JObj (map (\<lambda>d. (js (fst d), JStr (snd d))) details)), (js ''traceId'', JStr traceId)])]"

definition error_reply :: "utf16 \<Rightarrow> js_error \<Rightarrow> api_reply" where
  "error_reply traceId e = (case e of
     CaissonError code message details \<Rightarrow> \<lparr>ap_status = statusFor code, ap_body = error_body code message details traceId\<rparr>
   | ForeignError \<Rightarrow> \<lparr>ap_status = 500, ap_body = error_body INTERNAL (js ''internal server error'') [] traceId\<rparr>)"

text \<open>A route, with the error handler around it.\<close>

definition respond :: "utf16 \<Rightarrow> ('s, api_reply) proc \<Rightarrow> 's \<Rightarrow> api_reply \<times> 's" where
  "respond traceId route s = (case route s of (Inr reply, s') \<Rightarrow> (reply, s') | (Inl e, s') \<Rightarrow> (error_reply traceId e, s'))"

section \<open>Session routes\<close>

definition DeleteSessionRequestSchema :: schema where
  "DeleteSessionRequestSchema = strict [req ''reason'' (ZString [STrim, SMin 1])]"

definition SessionRouteParamsSchema :: schema where
  "SessionRouteParamsSchema = strict [req ''id'' ZJson]"

record 's session_api =
  sp_create :: "json \<Rightarrow> ('s, json) proc"
  sp_get :: "json \<Rightarrow> ('s, json) proc"
  sp_destroy :: "json \<Rightarrow> json \<Rightarrow> ('s, json) proc"

abbreviation invalid :: "string \<Rightarrow> ('s, 'a) proc" where
  "invalid message \<equiv> throw (Caisson INVALID_REQUEST message)"

text \<open>\<^verbatim>\<open>Schema.parse(value)\<close>: what does not fit throws an error of the library.\<close>

definition send :: "(schema \<Rightarrow> json \<Rightarrow> json option) \<Rightarrow> int \<Rightarrow> schema \<Rightarrow> json \<Rightarrow> ('s, api_reply) proc" where
  "send parse status s v = (case parse s v of None \<Rightarrow> throw ForeignError | Some body \<Rightarrow> ret \<lparr>ap_status = status, ap_body = body\<rparr>)"

definition post_sessions :: "(schema \<Rightarrow> json \<Rightarrow> json option) \<Rightarrow> ('s, 'z) session_api_scheme \<Rightarrow> json \<Rightarrow> ('s, api_reply) proc" where
  "post_sessions parse api body = (case parse CreateSessionRequestSchema body of
     None \<Rightarrow> invalid ''invalid session creation request''
   | Some data \<Rightarrow> bnd (sp_create api data) (send parse 201 CreateSessionResponseSchema))"

definition route_id :: "(schema \<Rightarrow> json \<Rightarrow> json option) \<Rightarrow> json \<Rightarrow> json option" where
  "route_id parse params = Option.bind (parse SessionRouteParamsSchema params) (\<lambda>route. case route of
     JObj kvs \<Rightarrow> Option.bind (map_of kvs (js ''id'')) (parse SessionIdSchema) | _ \<Rightarrow> None)"

definition get_sessions :: "(schema \<Rightarrow> json \<Rightarrow> json option) \<Rightarrow> ('s, 'z) session_api_scheme \<Rightarrow> json \<Rightarrow> ('s, api_reply) proc" where
  "get_sessions parse api params = (case route_id parse params of
     None \<Rightarrow> invalid ''invalid session id''
   | Some i \<Rightarrow> bnd (sp_get api i) (send parse 200 GetSessionResponseSchema))"

definition delete_sessions :: "(schema \<Rightarrow> json \<Rightarrow> json option) \<Rightarrow> ('s, 'z) session_api_scheme \<Rightarrow> json \<Rightarrow> json \<Rightarrow> ('s, api_reply) proc" where
  "delete_sessions parse api params body = (if parse SessionRouteParamsSchema params = None then invalid ''invalid session id''
     else case (route_id parse params, parse DeleteSessionRequestSchema body) of
       (Some i, Some (JObj kvs)) \<Rightarrow> (case map_of kvs (js ''reason'') of
           Some reason \<Rightarrow> bnd (sp_destroy api i reason) (send parse 202 DeleteSessionResponseSchema)
         | None \<Rightarrow> invalid ''invalid session termination request'')
     | _ \<Rightarrow> invalid ''invalid session termination request'')"

text \<open>What the reconciler of the server runs: pending audit records first, when there is a writer, then the sessions.\<close>

definition server_reconcile :: "('s, unit) proc option \<Rightarrow> ('s, unit) proc \<Rightarrow> ('s, unit) proc" where
  "server_reconcile audit lifecycle = seq (case audit of None \<Rightarrow> ret () | Some drain \<Rightarrow> drain) lifecycle"

section \<open>Policy simulation\<close>

text \<open>\<open>sm_trace\<close> is \<^verbatim>\<open>getActiveTraceIdentifiers()\<close>, trace and span, and \<open>sm_duration\<close> the rounded time since the beginning.\<close>

record simulation_env =
  sm_loadPolicy :: "byte list \<Rightarrow> opa_policy option"
  sm_parse :: "schema \<Rightarrow> json \<Rightarrow> json option"
  sm_stringify :: "json \<Rightarrow> utf16"
  sm_sha256 :: "utf16 \<Rightarrow> string"
  sm_trace :: "nat \<Rightarrow> (string \<times> string) option"
  sm_duration :: "nat \<Rightarrow> int"
  sm_ip :: string

definition decision_json :: "policy_decision \<Rightarrow> json" where
  "decision_json d = JObj [(js ''decision'', JStr (js (verdict_name (pd_decision d)))), (js ''reason'', JStr (pd_reason d)),
     (js ''obligations'', JArr (map JStr (pd_obligations d))), (js ''matchedRules'', JArr (map JStr (pd_matchedRules d)))]"

definition simulate_write :: "simulation_env \<Rightarrow> string \<times> string \<Rightarrow> json \<Rightarrow> string \<Rightarrow> ('z policy_world_scheme, unit) proc" where
  "simulate_write env trace input outcome = bnd (gets (\<lambda>w. sm_duration env (calls w))) (\<lambda>ms.
     system_write (sm_stringify env) (sm_sha256 env) \<lparr>si_eventType = ''policy.simulate'', si_policyInput = input, si_outcome = outcome, si_durationMs = ms,
       si_traceId = fst trace, si_spanId = snd trace, si_callerConnection = Some (sm_ip env)\<rparr>)"

definition simulate :: "simulation_env \<Rightarrow> json \<Rightarrow> ('z policy_world_scheme, api_reply) proc" where
  "simulate env input = try_catch
     (bnd (loadActive (sm_loadPolicy env)) (\<lambda>bundle.
      bnd (of_result (evaluate (sm_parse env) (lb_evaluator bundle) input)) (\<lambda>result.
      bnd (gets (\<lambda>w. sm_trace env (calls w))) (\<lambda>trace. case trace of
        None \<Rightarrow> throw (Caisson INTERNAL ''policy trace is unavailable'')
      | Some t \<Rightarrow> seq (simulate_write env t input (verdict_name (pd_decision result))) (ret \<lparr>ap_status = 200, ap_body = decision_json result\<rparr>)))))
     (\<lambda>e. if is_caisson e \<and> err_code e = AUDIT_UNAVAILABLE then throw e
       else bnd (gets (\<lambda>w. sm_trace env (calls w))) (\<lambda>trace. case trace of
         None \<Rightarrow> throw e
       | Some t \<Rightarrow> seq (simulate_write env t input ''error'') (throw e)))"

definition post_simulate :: "simulation_env \<Rightarrow> bool \<Rightarrow> json \<Rightarrow> ('z policy_world_scheme, api_reply) proc" where
  "post_simulate env configured body = (if \<not> configured then throw (Caisson POLICY_UNAVAILABLE ''policy evaluation is unavailable'')
     else case sm_parse env (ZRecord (ZString []) ZJson) body of
       None \<Rightarrow> invalid ''policy simulation input is invalid''
     | Some input \<Rightarrow> simulate env input)"

section \<open>Every reply has its type\<close>

text \<open>An error whose parts fit the contract of error replies.\<close>

definition fitting :: "js_error \<Rightarrow> bool" where
  "fitting e \<longleftrightarrow> (case e of ForeignError \<Rightarrow> True
     | CaissonError _ m ds \<Rightarrow> m \<noteq> [] \<and> length m \<le> 512 \<and> list_all (\<lambda>d. fst d \<noteq> '''' \<and> length (fst d) \<le> 128 \<and> length (snd d) \<le> 512) ds)"

definition throws_fitting :: "('s, 'a) proc \<Rightarrow> bool" where
  "throws_fitting m \<longleftrightarrow> (\<forall>s e. fst (m s) = Inl e \<longrightarrow> fitting e)"

lemma throws_rules:
  "fitting e \<Longrightarrow> throws_fitting (throw e)" "throws_fitting (ret x)"
  "throws_fitting m \<Longrightarrow> (\<And>x. throws_fitting (f x)) \<Longrightarrow> throws_fitting (bnd m f)"
proof -
  show "throws_fitting (bnd m f)" if m: "throws_fitting m" and f: "\<And>x. throws_fitting (f x)"
    unfolding throws_fitting_def
  proof (intro allI impI)
    fix s e assume "fst (bnd m f s) = Inl e"
    then consider s1 where "m s = (Inl e, s1)" | x s1 where "m s = (Inr x, s1)" "fst (f x s1) = Inl e"
      by (auto simp: bnd_def split: prod.splits sum.splits)
    then show "fitting e" using m f unfolding throws_fitting_def by cases (metis fst_conv, blast)
  qed
qed (simp_all add: throws_fitting_def throw_def ret_def)

context schema_library
begin

lemma details_accepted:
  assumes "list_all (\<lambda>d. fst d \<noteq> '''' \<and> length (fst d) \<le> 128 \<and> length (snd d) \<le> 512) ds"
  shows "parse BrokerErrorDetailsSchema (JObj (map (\<lambda>d. (js (fst d), JStr (snd d))) ds)) = Some (JObj (map (\<lambda>d. (js (fst d), JStr (snd d))) ds))"
proof -
  let ?kvs = "map (\<lambda>d. (js (fst d), JStr (snd d))) ds" and ?u = "ZUnion [ZString [SMax 512], ZNumber [], ZBoolean, ZNull]"
  have "all_some (map (\<lambda>kv. parse ?u (snd kv)) ?kvs) = Some (map snd ?kvs)"
    using assms by (induction ds) (simp_all add: parse_either parse_string)
  moreover have "list_all (\<lambda>kv. parse (ZString [SMin 1, SMax 128]) (JStr (fst kv)) \<noteq> None) ?kvs"
    using assms by (auto simp: list_all_iff parse_string js_def Suc_le_eq)
  ultimately show ?thesis unfolding BrokerErrorDetailsSchema_def parse_record json.case by (simp only: zip_map_fst_snd option.map if_True)
qed

lemma error_accepted:
  assumes "fitting e" "t \<noteq> []" "length t \<le> 128"
  shows "parse ErrorResponseSchema (ap_body (error_reply t e)) = Some (ap_body (error_reply t e))"
proof -
  have body: "parse ErrorResponseSchema (error_body c m ds t) = Some (error_body c m ds t)"
    if "m \<noteq> []" "length m \<le> 512" "list_all (\<lambda>d. fst d \<noteq> '''' \<and> length (fst d) \<le> 128 \<and> length (snd d) \<le> 512) ds" for c m ds
  proof -
    have "c \<in> set all_error_codes" by (cases c) (simp_all add: all_error_codes_def)
    then have code: "parse ErrorCodeSchema (JStr (js (error_code_name c))) = Some (JStr (js (error_code_name c)))" by (auto simp: ErrorCodeSchema_def parse_enum)
    have msg: "parse BrokerErrorMessageSchema (JStr m) = Some (JStr m)" using that(1,2) by (simp add: BrokerErrorMessageSchema_def parse_string Suc_le_eq)
    have tr: "parse TraceIdSchema (JStr t) = Some (JStr t)" using assms(2,3) by (simp add: TraceIdSchema_def parse_string Suc_le_eq)
    show ?thesis unfolding ErrorResponseSchema_def error_body_def
      by (simp add: parse_object known_keys_def code msg tr details_accepted [OF that(3)])
  qed
  show ?thesis
  proof (cases e)
    case (CaissonError c m ds)
    then show ?thesis using assms(1) body by (simp add: error_reply_def fitting_def)
  next
    case ForeignError
    then show ?thesis using body [of "js ''internal server error''" "[]"] by (simp add: error_reply_def js_def)
  qed
qed

end

lemma routes_throw:
  assumes "\<And>v. throws_fitting (sp_create api v)" "\<And>v. throws_fitting (sp_get api v)" "\<And>v r. throws_fitting (sp_destroy api v r)"
  shows "throws_fitting (post_sessions parse api body)" "throws_fitting (get_sessions parse api params)" "throws_fitting (delete_sessions parse api params body)"
proof -
  have s: "throws_fitting (send parse n s v)" for n s v by (auto simp: send_def fitting_def intro!: throws_rules split: option.splits)
  have i: "throws_fitting (throw (Caisson INVALID_REQUEST m))" if "m \<noteq> []" "length m \<le> 512" for m
    by (rule throws_rules) (use that in \<open>simp add: fitting_def js_def\<close>)
  show "throws_fitting (post_sessions parse api body)" "throws_fitting (get_sessions parse api params)"
    unfolding post_sessions_def get_sessions_def by (auto split: option.split intro!: throws_rules(3) assms s i)
  show "throws_fitting (delete_sessions parse api params body)"
    unfolding delete_sessions_def by (auto split: option.split json.split intro!: throws_rules(3) assms s i)
qed

lemma send_typed: "send parse n s v w = (Inr reply, w') \<Longrightarrow> ap_status reply = n \<and> (\<exists>raw. parse s raw = Some (ap_body reply))"
  by (auto simp: send_def throw_def ret_def split: option.splits)

lemma routes_typed:
  "post_sessions parse api body w = (Inr reply, w') \<Longrightarrow> ap_status reply = 201 \<and> (\<exists>raw. parse CreateSessionResponseSchema raw = Some (ap_body reply))"
  "get_sessions parse api params w = (Inr reply, w') \<Longrightarrow> ap_status reply = 200 \<and> (\<exists>raw. parse GetSessionResponseSchema raw = Some (ap_body reply))"
  "delete_sessions parse api params body w = (Inr reply, w') \<Longrightarrow> ap_status reply = 202 \<and> (\<exists>raw. parse DeleteSessionResponseSchema raw = Some (ap_body reply))"
  unfolding post_sessions_def get_sessions_def delete_sessions_def
  by (auto simp: throw_def split: option.splits json.splits if_splits elim!: bndE dest!: send_typed)

text \<open>A reply of a route whose successful replies have the status \<open>n\<close> and the type \<open>s\<close>.\<close>

definition typed_reply :: "(schema \<Rightarrow> json \<Rightarrow> json option) \<Rightarrow> int \<Rightarrow> schema \<Rightarrow> api_reply \<Rightarrow> bool" where
  "typed_reply parse n s reply \<longleftrightarrow> ap_status reply = n \<and> (\<exists>raw. parse s raw = Some (ap_body reply))
     \<or> ap_status reply \<in> {400, 404, 500, 503} \<and> parse ErrorResponseSchema (ap_body reply) = Some (ap_body reply)"

lemma respond_typed:
  assumes "schema_library fmt parse" "t \<noteq> []" "length t \<le> 128" "throws_fitting route"
    and "\<And>reply w w'. route w = (Inr reply, w') \<Longrightarrow> ap_status reply = n \<and> (\<exists>raw. parse s raw = Some (ap_body reply))"
  shows "typed_reply parse n s (fst (respond t route w))"
proof (cases "route w")
  case (Pair r w')
  show ?thesis
  proof (cases r)
    case (Inl e)
    then have "fitting e" using Pair assms(4) unfolding throws_fitting_def by (metis fst_conv)
    moreover have "ap_status (error_reply t e) \<in> {400, 404, 500, 503}" by (simp add: error_reply_def statusFor_def split: js_error.split)
    ultimately show ?thesis using Pair Inl schema_library.error_accepted [OF assms(1) _ assms(2,3), of e] by (simp add: respond_def typed_reply_def)
  next
    case (Inr reply)
    then show ?thesis using Pair assms(5) by (simp add: respond_def typed_reply_def)
  qed
qed


definition demo_api :: "unit session_api" where
  "demo_api = \<lparr>sp_create = (\<lambda>_. throw (Caisson SANDBOX_FAILED ''no sandbox'')), sp_get = (\<lambda>_. throw (Caisson SESSION_NOT_FOUND ''session not found'')),
     sp_destroy = (\<lambda>i _. ret (JObj [(js ''sessionId'', i), (js ''status'', JStr (js ''terminated''))]))\<rparr>"


section \<open>Simulations are audited\<close>

lemma load_keeps: "load f i w = (r, w') \<Longrightarrow> db w' = db w"
  unfolding load_def by (elim bndE) (auto simp: gets_def ret_def throw_def of_result_def modify_def Let_def bnd_def query_def next_outcome_def select_def
      split: option.splits list.splits sum.splits prod.splits if_splits)

lemma loadActive_keeps: "loadActive f w = (r, w') \<Longrightarrow> db w' = db w"
proof -
  assume run: "loadActive f w = (r, w')"
  have q: "query (select g) w = (x, w1) \<Longrightarrow> db w1 = db w" for g x w1
    by (auto simp: query_def next_outcome_def select_def split: if_splits prod.splits sum.splits)
  have "pres (\<lambda>v. db v = db w) (load f i)" for i unfolding pres_def by (metis load_keeps prod.collapse)
  then have "pres (\<lambda>v. db v = db w) (loadActive f)"
    unfolding loadActive_def Let_def
    by (auto intro!: pres_rules pres_query_db simp: select_def split: list.split json.split option.split)
  then show ?thesis using run unfolding pres_def by (metis snd_conv)
qed

text \<open>A write adds at most one row, and the row of its input when it returns.\<close>

lemma simulate_write_rows:
  assumes "simulate_write env t input outcome w = (r, w')"
  shows "\<exists>rows. system_audit_events (db w') = system_audit_events (db w) @ rows \<and> length rows \<le> 1 \<and> (\<forall>row \<in> set rows. sy_outcome row = outcome)
     \<and> (r = Inr () \<longrightarrow> \<not> containsSecretShape input \<and> (\<exists>row. rows = [row] \<and> sy_input_hash row = sm_sha256 env (sm_stringify env input)))
     \<and> (\<forall>e. r = Inl e \<longrightarrow> rows = [] \<or> is_caisson e \<and> err_code e = AUDIT_UNAVAILABLE)"
proof (cases "containsSecretShape input")
  case True
  then show ?thesis using assms by (auto simp: simulate_write_def system_write_def bnd_def gets_def throw_def)
next
  case False
  let ?row = "\<lambda>rid. \<lparr>sy_id = rid, sy_timestamp = now w, sy_event_type = ''policy.simulate'',
      sy_input_hash = sm_sha256 env (sm_stringify env input), sy_outcome = outcome, sy_duration_ms = sm_duration env (calls w),
      sy_trace_id = fst t, sy_span_id = snd t, sy_caller_connection = Some (sm_ip env)\<rparr>"
  obtain rid w1 where u: "randomUUID w = (Inr rid, w1)" "db w1 = db w" "now w1 = now w" by (auto simp: randomUUID_def randomBytes_def)
  obtain rq wq where q: "query (insert_system_audit (?row rid)) w1 = (rq, wq)" by fastforce
  have r: "r = (case rq of Inr x \<Rightarrow> Inr x | Inl _ \<Rightarrow> Inl (Caisson AUDIT_UNAVAILABLE ''system audit write failed''))" "w' = wq"
    using assms False u q by (auto simp: simulate_write_def system_write_def try_catch_def bnd_def gets_def throw_def split: sum.splits)
  have "db wq = db w \<and> rq \<noteq> Inr () \<or> db wq = (db w)\<lparr>system_audit_events := system_audit_events (db w) @ [?row rid]\<rparr>"
    using q u(2) by (auto simp: query_def next_outcome_def insert_system_audit_def split: if_splits sum.splits prod.splits)
  then show ?thesis
  proof
    assume "db wq = db w \<and> rq \<noteq> Inr ()"
    then show ?thesis using r False by (intro exI [of _ "[]"]) (auto split: sum.splits)
  next
    assume "db wq = (db w)\<lparr>system_audit_events := system_audit_events (db w) @ [?row rid]\<rparr>"
    then show ?thesis using r False by (intro exI [of _ "[?row rid]"]) (auto split: sum.splits)
  qed
qed

text \<open>The handler of the route's \<^verbatim>\<open>catch\<close>.\<close>

lemma simulate_failed:
  assumes "(if is_caisson e \<and> err_code e = AUDIT_UNAVAILABLE then throw e
       else bnd (gets (\<lambda>w. sm_trace env (calls w))) (\<lambda>trace. case trace of None \<Rightarrow> throw e | Some t \<Rightarrow> seq (simulate_write env t input ''error'') (throw e))) w = (r, w')"
  shows "(\<exists>e'. r = Inl e') \<and> (\<exists>rows. system_audit_events (db w') = system_audit_events (db w) @ rows \<and> length rows \<le> 1
     \<and> (is_caisson e \<and> err_code e = AUDIT_UNAVAILABLE \<longrightarrow> rows = []))"
proof (cases "is_caisson e \<and> err_code e = AUDIT_UNAVAILABLE \<or> sm_trace env (calls w) = None")
  case True
  then show ?thesis using assms by (auto simp: bnd_def gets_def throw_def split: if_splits)
next
  case False
  then obtain t where t: "sm_trace env (calls w) = Some t" by auto
  then have "seq (simulate_write env t input ''error'') (throw e) w = (r, w')" using assms False by (auto simp: bnd_def gets_def)
  then obtain q w1 where q: "simulate_write env t input ''error'' w = (q, w1)" "w' = w1" "\<exists>e'. r = Inl e'" by (auto simp: throw_def elim!: bndE)
  then show ?thesis using simulate_write_rows [OF q(1)] False by blast
qed

text \<open>The route's \<^verbatim>\<open>try\<close> block.\<close>

lemma simulate_tried:
  assumes "bnd (loadActive (sm_loadPolicy env)) (\<lambda>bundle. bnd (of_result (evaluate (sm_parse env) (lb_evaluator bundle) input)) (\<lambda>result.
      bnd (gets (\<lambda>w. sm_trace env (calls w))) (\<lambda>trace. case trace of
        None \<Rightarrow> throw (Caisson INTERNAL ''policy trace is unavailable'')
      | Some t \<Rightarrow> seq (simulate_write env t input (verdict_name (pd_decision result))) (ret \<lparr>ap_status = 200, ap_body = decision_json result\<rparr>)))) w = (r, w')"
  shows "\<exists>rows. system_audit_events (db w') = system_audit_events (db w) @ rows \<and> length rows \<le> 1
     \<and> (\<forall>reply. r = Inr reply \<longrightarrow> (\<exists>bundle d row. \<not> containsSecretShape input
          \<and> evaluate (sm_parse env) (lb_evaluator bundle) input = Inr d \<and> fst (loadActive (sm_loadPolicy env) w) = Inr bundle
          \<and> rows = [row] \<and> sy_outcome row = verdict_name (pd_decision d) \<and> sy_input_hash row = sm_sha256 env (sm_stringify env input)
          \<and> reply = \<lparr>ap_status = 200, ap_body = decision_json d\<rparr>))
     \<and> (\<forall>e. r = Inl e \<longrightarrow> rows = [] \<or> is_caisson e \<and> err_code e = AUDIT_UNAVAILABLE)"
  using assms
proof (cases rule: bndE)
  case (err e)
  then show ?thesis using loadActive_keeps [OF err(1)] by (intro exI [of _ "[]"]) auto
next
  case (ok bd w1)
  have same: "db w1 = db w" by (rule loadActive_keeps [OF ok(1)])
  show ?thesis
  proof (cases "evaluate (sm_parse env) (lb_evaluator bd) input")
    case (Inl e)
    then show ?thesis using ok(2) same by (intro exI [of _ "[]"]) (auto simp: of_result_def bnd_def)
  next
    case (Inr d)
    show ?thesis
    proof (cases "sm_trace env (calls w1)")
      case None
      then show ?thesis using ok(2) same Inr by (intro exI [of _ "[]"]) (auto simp: of_result_def bnd_def gets_def throw_def)
    next
      case (Some t)
      then have "seq (simulate_write env t input (verdict_name (pd_decision d))) (ret \<lparr>ap_status = 200, ap_body = decision_json d\<rparr>) w1 = (r, w')"
        using ok(2) Inr by (simp add: of_result_def bnd_def gets_def)
      then obtain q where q: "simulate_write env t input (verdict_name (pd_decision d)) w1 = (q, w')"
        "r = (case q of Inl e \<Rightarrow> Inl e | Inr _ \<Rightarrow> Inr \<lparr>ap_status = 200, ap_body = decision_json d\<rparr>)" by (auto simp: ret_def elim!: bndE)
      obtain rows where rows: "system_audit_events (db w') = system_audit_events (db w) @ rows" "length rows \<le> 1" "\<forall>row \<in> set rows. sy_outcome row = verdict_name (pd_decision d)"
        "q = Inr () \<longrightarrow> \<not> containsSecretShape input \<and> (\<exists>row. rows = [row] \<and> sy_input_hash row = sm_sha256 env (sm_stringify env input))"
        "\<forall>e. q = Inl e \<longrightarrow> rows = [] \<or> is_caisson e \<and> err_code e = AUDIT_UNAVAILABLE"
        using simulate_write_rows [OF q(1)] unfolding same by blast
      show ?thesis
      proof (rule exI [of _ rows], intro conjI allI impI)
        fix reply assume "r = Inr reply"
        then have "q = Inr ()" "reply = \<lparr>ap_status = 200, ap_body = decision_json d\<rparr>" using q(2) by (auto split: sum.splits)
        then show "\<exists>bundle d row. \<not> containsSecretShape input \<and> evaluate (sm_parse env) (lb_evaluator bundle) input = Inr d
          \<and> fst (loadActive (sm_loadPolicy env) w) = Inr bundle \<and> rows = [row] \<and> sy_outcome row = verdict_name (pd_decision d)
          \<and> sy_input_hash row = sm_sha256 env (sm_stringify env input) \<and> reply = \<lparr>ap_status = 200, ap_body = decision_json d\<rparr>"
          using rows(3,4) Inr ok(1) by auto
      next
        fix e assume "r = Inl e"
        then show "rows = [] \<or> is_caisson e \<and> err_code e = AUDIT_UNAVAILABLE" using q(2) rows(5) by (auto split: sum.splits)
      qed (use rows in auto)
    qed
  qed
qed

lemma simulate_rows:
  assumes "simulate env input w = (r, w')"
  shows "\<exists>rows. system_audit_events (db w') = system_audit_events (db w) @ rows \<and> length rows \<le> 1
     \<and> (\<forall>reply. r = Inr reply \<longrightarrow> (\<exists>bundle d row. \<not> containsSecretShape input
          \<and> evaluate (sm_parse env) (lb_evaluator bundle) input = Inr d \<and> fst (loadActive (sm_loadPolicy env) w) = Inr bundle
          \<and> rows = [row] \<and> sy_outcome row = verdict_name (pd_decision d) \<and> sy_input_hash row = sm_sha256 env (sm_stringify env input)
          \<and> reply = \<lparr>ap_status = 200, ap_body = decision_json d\<rparr>))"
proof -
  let ?body = "bnd (loadActive (sm_loadPolicy env)) (\<lambda>bundle. bnd (of_result (evaluate (sm_parse env) (lb_evaluator bundle) input)) (\<lambda>result.
      bnd (gets (\<lambda>w. sm_trace env (calls w))) (\<lambda>trace. case trace of
        None \<Rightarrow> throw (Caisson INTERNAL ''policy trace is unavailable'')
      | Some t \<Rightarrow> seq (simulate_write env t input (verdict_name (pd_decision result))) (ret \<lparr>ap_status = 200, ap_body = decision_json result\<rparr>))))"
  obtain x w1 where b: "?body w = (x, w1)" by fastforce
  note tried = simulate_tried [OF b]
  show ?thesis
  proof (cases x)
    case (Inr reply)
    then have "r = Inr reply" "w' = w1" using assms b by (simp_all add: simulate_def try_catch_def)
    then show ?thesis using tried Inr by auto
  next
    case (Inl e)
    then have "(if is_caisson e \<and> err_code e = AUDIT_UNAVAILABLE then throw e
       else bnd (gets (\<lambda>w. sm_trace env (calls w))) (\<lambda>trace. case trace of None \<Rightarrow> throw e | Some t \<Rightarrow> seq (simulate_write env t input ''error'') (throw e))) w1 = (r, w')"
      using assms b by (simp add: simulate_def try_catch_def)
    from simulate_failed [OF this] obtain e' more where more: "r = Inl e'" "system_audit_events (db w') = system_audit_events (db w1) @ more" "length more \<le> 1"
      "is_caisson e \<and> err_code e = AUDIT_UNAVAILABLE \<longrightarrow> more = []" by blast
    from tried obtain rows where rows: "system_audit_events (db w1) = system_audit_events (db w) @ rows" "length rows \<le> 1"
      "\<forall>e. x = Inl e \<longrightarrow> rows = [] \<or> is_caisson e \<and> err_code e = AUDIT_UNAVAILABLE" by (elim exE conjE) (rule that)
    have "length (rows @ more) \<le> 1" using more(3,4) rows(2) rows(3) [THEN spec, of e] Inl by auto
    with more(1,2) rows(1) show ?thesis by (intro exI [of _ "rows @ more"]) simp
  qed
qed

text \<open>
  (C40) A policy simulation is answered only when it has been audited: a reply with status 200 means that the input had no secret shape, that its decision is what the active
  bundle's evaluation gave, and that exactly one row was added to the administrative audit, with this decision as its outcome and the hash of this input; a simulation that fails
  adds at most one row, so that nothing is written twice.
\<close>

theorem simulation_audited:
  assumes "post_simulate env configured body w = (r, w')"
  shows "\<exists>rows. system_audit_events (db w') = system_audit_events (db w) @ rows \<and> length rows \<le> 1
     \<and> (\<forall>reply. r = Inr reply \<longrightarrow> (\<exists>input bundle d row. sm_parse env (ZRecord (ZString []) ZJson) body = Some input \<and> \<not> containsSecretShape input
          \<and> evaluate (sm_parse env) (lb_evaluator bundle) input = Inr d \<and> fst (loadActive (sm_loadPolicy env) w) = Inr bundle
          \<and> rows = [row] \<and> sy_outcome row = verdict_name (pd_decision d) \<and> sy_input_hash row = sm_sha256 env (sm_stringify env input)
          \<and> reply = \<lparr>ap_status = 200, ap_body = decision_json d\<rparr>))"
proof (cases "configured \<and> (\<exists>input. sm_parse env (ZRecord (ZString []) ZJson) body = Some input)")
  case False
  then show ?thesis using assms by (auto simp: post_simulate_def throw_def split: if_splits option.splits)
next
  case True
  then obtain input where input: "sm_parse env (ZRecord (ZString []) ZJson) body = Some input" by blast
  then have run: "simulate env input w = (r, w')" using assms True by (simp add: post_simulate_def)
  show ?thesis using simulate_rows [OF run] input by fastforce
qed

definition demo_simulation :: simulation_env where
  "demo_simulation = \<lparr>sm_loadPolicy = (\<lambda>_. Some demo_policy), sm_parse = zod (\<lambda>_ _. True), sm_stringify = (\<lambda>_. []), sm_sha256 = (\<lambda>_. ''h''),
     sm_trace = (\<lambda>_. Some (''t'', ''s'')), sm_duration = (\<lambda>_. 1), sm_ip = ''127.0.0.1''\<rparr>"

definition demo_active :: policy_world where
  "demo_active = policy_demo\<lparr>db := (db policy_demo)\<lparr>settings := [\<lparr>st_key = ''active_policy_bundle'', st_value = JObj [(js ''policyBundleId'', JStr (js ''bundle''))]\<rparr>]\<rparr>\<rparr>"

lemma demo_simulates:
  "case post_simulate demo_simulation True (JObj []) demo_active of (r, w') \<Rightarrow>
     (case r of Inr reply \<Rightarrow> ap_status reply = 200 | _ \<Rightarrow> False) \<and> map sy_outcome (system_audit_events (db w')) = [''allow'']"
  by code_simp

theorem simulation_audited_witness:
  "\<exists>reply w' row. post_simulate demo_simulation True (JObj []) demo_active = (Inr reply, w') \<and> system_audit_events (db w') = [row]
     \<and> sy_outcome row = ''allow'' \<and> sy_input_hash row = ''h'' \<and> ap_status reply = 200"
proof -
  obtain reply w' where run: "post_simulate demo_simulation True (JObj []) demo_active = (Inr reply, w')"
    and out: "map sy_outcome (system_audit_events (db w')) = [''allow'']" "ap_status reply = 200"
    using demo_simulates by (auto split: prod.splits sum.splits)
  have "system_audit_events (db demo_active) = []" by code_simp
  with simulation_audited [OF run] obtain row where "system_audit_events (db w') = [row]" "sy_input_hash row = sm_sha256 demo_simulation (sm_stringify demo_simulation (JObj []))
      \<or> sy_input_hash row = ''h''" by (fastforce simp: demo_simulation_def)
  then show ?thesis using run out by (auto simp: demo_simulation_def)
qed

end
