(* ===== verification/Transport_Host.thy ===== *)
theory Transport_Host
  imports Node_Files
begin

text \<open>
  \<^verbatim>\<open>apps/broker/src/firecracker-vsock-transport-host.ts\<close>: the host side of the guests' vsock connections, one broker listener and at most one listener
  for local tools per guest. The connections themselves are the subject of \<^verbatim>\<open>Framing\<close> and \<^verbatim>\<open>Local_Tools\<close>. Operations on the host run one after
  the other here. \<open>listeners_accounted\<close> shows that no listener is lost as long as permissions can be set; \<open>chmod_failure_leaks\<close> what happens otherwise.
\<close>

section \<open>State\<close>

text \<open>The two ports, as they appear in the names of sockets.\<close>

definition CAISSON_BROKER_VSOCK_PORT :: string where "CAISSON_BROKER_VSOCK_PORT = ''1024''"
definition CAISSON_LOCAL_TOOL_VSOCK_PORT :: string where "CAISSON_LOCAL_TOOL_VSOCK_PORT = ''1027''"

text \<open>\<open>ho_listening\<close> are the sockets that accept connections; \<open>ho_servers\<close> and \<open>ho_localToolServers\<close> are the maps of the object, from peers to the socket of their
  server.\<close>

record transport_world = world +
  ho_listening :: "string list"
  ho_servers :: "string \<rightharpoonup> string"
  ho_localToolServers :: "string \<rightharpoonup> string"

text \<open>\<open>he_chmod\<close> answers the calls that set permissions; the outcome of every other call is the world's.\<close>

record transport_env =
  he_runtimeDirectory :: string
  he_localTools :: bool
  he_chmod :: "nat \<Rightarrow> js_error + unit"

section \<open>Calls\<close>

text \<open>\<^verbatim>\<open>mkdir\<close> and \<^verbatim>\<open>rm\<close>, whose effect on the files plays no part here.\<close>

definition file_call :: "(transport_world, unit) proc" where
  "file_call w = (case next_outcome w of (oc, w1) \<Rightarrow> (if oc = Ok then Inr () else Inl ForeignError, w1))"

definition chmod :: "transport_env \<Rightarrow> (transport_world, unit) proc" where
  "chmod env = outside (he_chmod env)"

definition listen :: "string \<Rightarrow> (transport_world, unit) proc" where
  "listen path w = (case next_outcome w of (oc, w1) \<Rightarrow>
     if oc \<noteq> Ok \<or> path \<in> set (ho_listening w) then (Inl ForeignError, w1) else (Inr (), w1\<lparr>ho_listening := ho_listening w1 @ [path]\<rparr>))"

definition close_server :: "string \<Rightarrow> (transport_world, unit) proc" where
  "close_server path w = (if path \<in> set (ho_listening w) then (Inr (), w\<lparr>calls := Suc (calls w), ho_listening := filter (\<lambda>p. p \<noteq> path) (ho_listening w)\<rparr>)
     else (Inl ForeignError, w\<lparr>calls := Suc (calls w)\<rparr>))"

section \<open>Operations\<close>

definition vsock_endpoint :: "transport_env \<Rightarrow> string \<Rightarrow> string" where
  "vsock_endpoint env peer = path_join [he_runtimeDirectory env, peer @ ''.vsock'']"

definition broker_listener :: "transport_env \<Rightarrow> string \<Rightarrow> string" where
  "broker_listener env peer = vsock_endpoint env peer @ ''_'' @ CAISSON_BROKER_VSOCK_PORT"

definition local_listener :: "transport_env \<Rightarrow> string \<Rightarrow> string" where
  "local_listener env peer = vsock_endpoint env peer @ ''_'' @ CAISSON_LOCAL_TOOL_VSOCK_PORT"

definition transport_reserve :: "transport_env \<Rightarrow> peer \<Rightarrow> (transport_world, string) proc" where
  "transport_reserve env d = (let p = pr_peerIdentifier d in
     if pr_transportKind d \<noteq> Vsock then throw ForeignError
     else seq file_call (seq (chmod env)
       (seq (listen (broker_listener env p)) (seq (chmod env)
       (seq (modify (\<lambda>w. w\<lparr>ho_servers := (ho_servers w)(p \<mapsto> broker_listener env p)\<rparr>))
       (seq (if he_localTools env
             then try_catch
               (seq (listen (local_listener env p)) (seq (chmod env)
                 (modify (\<lambda>w. w\<lparr>ho_localToolServers := (ho_localToolServers w)(p \<mapsto> local_listener env p)\<rparr>))))
               (\<lambda>e. seq (close_server (broker_listener env p))
                   (seq (modify (\<lambda>w. w\<lparr>ho_servers := (ho_servers w)(p := None)\<rparr>)) (seq file_call (throw e))))
             else ret ())
       (ret (vsock_endpoint env p))))))))"

definition transport_release :: "transport_env \<Rightarrow> peer \<Rightarrow> (transport_world, unit) proc" where
  "transport_release env d = (let p = pr_peerIdentifier d in
     bnd (gets (\<lambda>w. ho_servers w p)) (\<lambda>server. seq (case server of None \<Rightarrow> ret () | Some path \<Rightarrow> close_server path)
     (bnd (gets (\<lambda>w. ho_localToolServers w p)) (\<lambda>localTool. seq (case localTool of None \<Rightarrow> ret () | Some path \<Rightarrow> close_server path)
     (seq (modify (\<lambda>w. w\<lparr>ho_servers := (ho_servers w)(p := None), ho_localToolServers := (ho_localToolServers w)(p := None)\<rparr>))
     (\<lambda>w. let (a, w1) = file_call w; (b, w2) = file_call w1; (c, w3) = file_call w2 in
       (if a = Inr () \<and> b = Inr () \<and> c = Inr () then Inr () else Inl ForeignError, w3)))))))"

definition endpointFor :: "transport_env \<Rightarrow> peer \<Rightarrow> transport_world \<Rightarrow> js_error + string" where
  "endpointFor env d w = (if ho_servers w (pr_peerIdentifier d) = None then Inl ForeignError else Inr (vsock_endpoint env (pr_peerIdentifier d)))"

section \<open>No listener is lost\<close>

text \<open>Every socket that listens, but for those in \<open>new\<close>, is in one of the maps, and the entries of the maps are the listeners of their peers.\<close>

definition accounted :: "transport_env \<Rightarrow> string set \<Rightarrow> transport_world \<Rightarrow> bool" where
  "accounted env new w \<longleftrightarrow> (\<forall>path \<in> set (ho_listening w). path \<in> new \<or> (\<exists>p. ho_servers w p = Some path \<or> ho_localToolServers w p = Some path))
     \<and> (\<forall>p path. ho_servers w p = Some path \<longrightarrow> path = broker_listener env p) \<and> (\<forall>p path. ho_localToolServers w p = Some path \<longrightarrow> path = local_listener env p)"

lemma accounted_calls:
  "triple (accounted env X) file_call (\<lambda>_. accounted env X) (\<lambda>_. accounted env X)"
  "triple (accounted env {}) (listen path) (\<lambda>_. accounted env {path}) (\<lambda>_. accounted env {})"
  "triple (accounted env {}) (close_server path) (\<lambda>_ w. accounted env {} w \<and> path \<notin> set (ho_listening w)) (\<lambda>_. accounted env {})"
  by (auto simp: triple_def file_call_def listen_def close_server_def next_outcome_def accounted_def)

lemma accounted_chmod: "\<forall>n. he_chmod env n = Inr () \<Longrightarrow> triple (accounted env X) (chmod env) (\<lambda>_. accounted env X) (\<lambda>_ _. False)"
  by (auto simp: triple_def chmod_def outside_def accounted_def)

lemma accounted_maps:
  "triple (accounted env {broker_listener env p}) (modify (\<lambda>w. w\<lparr>ho_servers := (ho_servers w)(p \<mapsto> broker_listener env p)\<rparr>)) (\<lambda>_. accounted env {}) E"
  "triple (accounted env {local_listener env p}) (modify (\<lambda>w. w\<lparr>ho_localToolServers := (ho_localToolServers w)(p \<mapsto> local_listener env p)\<rparr>)) (\<lambda>_. accounted env {}) E"
  "triple (\<lambda>w. accounted env {} w \<and> broker_listener env p \<notin> set (ho_listening w)) (modify (\<lambda>w. w\<lparr>ho_servers := (ho_servers w)(p := None)\<rparr>)) (\<lambda>_. accounted env {}) E"
  by (simp_all add: triple_def modify_def accounted_def) (metis, metis, metis)

lemma reserve_accounted:
  assumes "\<forall>n. he_chmod env n = Inr ()"
  shows "triple (accounted env {}) (transport_reserve env d) (\<lambda>_. accounted env {}) (\<lambda>_. accounted env {})"
proof -
  let ?I = "accounted env {}" let ?p = "pr_peerIdentifier d"
  note chmod = triple_conseq [OF accounted_chmod [OF assms], where E' = "\<lambda>_. ?I"]
  have body: "triple ?I (seq (listen (local_listener env ?p)) (seq (chmod env)
      (modify (\<lambda>w. w\<lparr>ho_localToolServers := (ho_localToolServers w)(?p \<mapsto> local_listener env ?p)\<rparr>)))) (\<lambda>_. ?I) (\<lambda>_. ?I)"
    by (rule triple_bnd [OF accounted_calls(2)], rule triple_bnd [OF chmod], assumption+, simp, rule accounted_maps(2))
  have handler: "triple ?I (seq (close_server (broker_listener env ?p)) (seq (modify (\<lambda>w. w\<lparr>ho_servers := (ho_servers w)(?p := None)\<rparr>)) (seq file_call (throw e)))) (\<lambda>_. ?I) (\<lambda>_. ?I)" for e
    by (rule triple_bnd [OF accounted_calls(3)], rule triple_bnd [OF accounted_maps(3)], rule triple_bnd [OF accounted_calls(1)], rule triple_throw)
  have tools: "triple ?I (if he_localTools env
             then try_catch
               (seq (listen (local_listener env ?p)) (seq (chmod env)
                 (modify (\<lambda>w. w\<lparr>ho_localToolServers := (ho_localToolServers w)(?p \<mapsto> local_listener env ?p)\<rparr>))))
               (\<lambda>e. seq (close_server (broker_listener env ?p))
                   (seq (modify (\<lambda>w. w\<lparr>ho_servers := (ho_servers w)(?p := None)\<rparr>)) (seq file_call (throw e))))
             else ret ()) (\<lambda>_. ?I) (\<lambda>_. ?I)"
    using triple_try_catch [OF body handler] by (auto intro: triple_ret)
  show ?thesis
  proof (cases "pr_transportKind d = Vsock")
    case True
    then have k: "\<not> pr_transportKind d \<noteq> Vsock" by simp
    show ?thesis
      unfolding transport_reserve_def Let_def if_not_P [OF k]
      by (rule triple_bnd [OF accounted_calls(1)], rule triple_bnd [OF chmod], assumption+, simp, rule triple_bnd [OF accounted_calls(2)], rule triple_bnd [OF chmod],
        assumption+, simp, rule triple_bnd [OF accounted_maps(1)], rule triple_bnd [OF tools], rule triple_ret)
  qed (simp add: transport_reserve_def Let_def triple_throw)
qed

lemma closed_entry:
  assumes "(case entry of None \<Rightarrow> ret () | Some path \<Rightarrow> close_server path) w = (r, w')"
  shows "ho_servers w' = ho_servers w" "ho_localToolServers w' = ho_localToolServers w" "set (ho_listening w') \<subseteq> set (ho_listening w)"
    "r = Inr () \<Longrightarrow> entry = Some path \<Longrightarrow> path \<notin> set (ho_listening w')"
  using assms by (auto simp: close_server_def ret_def split: option.splits if_splits)

lemma accountedD:
  assumes "accounted env {} w"
  shows "path \<in> set (ho_listening w) \<Longrightarrow> \<exists>p. ho_servers w p = Some path \<or> ho_localToolServers w p = Some path"
    and "ho_servers w p = Some path \<Longrightarrow> path = broker_listener env p" "ho_localToolServers w p = Some path \<Longrightarrow> path = local_listener env p"
  using assms unfolding accounted_def by blast+

lemma accounted_mono:
  assumes "accounted env {} w" "ho_servers w' = ho_servers w" "ho_localToolServers w' = ho_localToolServers w" "set (ho_listening w') \<subseteq> set (ho_listening w)"
  shows "accounted env {} w'"
  using assms(1,4) unfolding accounted_def assms(2,3) by blast

lemma release_accounted:
  assumes I: "accounted env {} w" and run: "transport_release env d w = (r, w')"
  shows "accounted env {} w' \<and> (r = Inr () \<longrightarrow> ho_servers w' (pr_peerIdentifier d) = None \<and> ho_localToolServers w' (pr_peerIdentifier d) = None)"
proof -
  let ?p = "pr_peerIdentifier d"
  obtain r1 w1 where 1: "(case ho_servers w ?p of None \<Rightarrow> ret () | Some path \<Rightarrow> close_server path) w = (r1, w1)" by fastforce
  note c1 = closed_entry [OF 1]
  have I1: "accounted env {} w1" by (rule accounted_mono [OF I c1(1-3)])
  show ?thesis
  proof (cases r1)
    case (Inl e)
    then have "w' = w1" "r = Inl e" using run 1 by (simp_all add: transport_release_def Let_def bnd_def gets_def)
    then show ?thesis using I1 by simp
  next
    case r1: (Inr u)
    obtain r2 w2 where 2: "(case ho_localToolServers w1 ?p of None \<Rightarrow> ret () | Some path \<Rightarrow> close_server path) w1 = (r2, w2)" by fastforce
    note c2 = closed_entry [OF 2]
    have I2: "accounted env {} w2" by (rule accounted_mono [OF I1 c2(1-3)])
    show ?thesis
    proof (cases r2)
      case (Inl e)
      then have "w' = w2" "r = Inl e" using run 1 2 r1 by (simp_all add: transport_release_def Let_def bnd_def gets_def)
      then show ?thesis using I2 by simp
    next
      case r2: (Inr v)
      let ?w3 = "w2\<lparr>ho_servers := (ho_servers w2)(?p := None), ho_localToolServers := (ho_localToolServers w2)(?p := None)\<rparr>"
      have w': "w' = ?w3\<lparr>calls := calls w'\<rparr>"
        using run 1 2 r1 r2 by (auto simp: transport_release_def Let_def bnd_def gets_def modify_def file_call_def next_outcome_def)
      have "accounted env {} ?w3"
        unfolding accounted_def
      proof (intro conjI ballI)
        fix path assume path: "path \<in> set (ho_listening ?w3)"
        then obtain p where p: "ho_servers w2 p = Some path \<or> ho_localToolServers w2 p = Some path" using accountedD(1) [OF I2, of path] by auto
        have "p \<noteq> ?p" using p path c2(3) c1(4) [of path] c2(4) [of path] r1 r2 unfolding c1(1,2) c2(1,2) by auto
        then show "path \<in> {} \<or> (\<exists>p. ho_servers ?w3 p = Some path \<or> ho_localToolServers ?w3 p = Some path)" using p by auto
      qed (use I2 in \<open>auto simp: accounted_def\<close>)
      then have "accounted env {} w'" by (subst w') (simp add: accounted_def)
      moreover have "ho_servers w' ?p = None \<and> ho_localToolServers w' ?p = None" by (subst w', subst (2) w') simp
      ultimately show ?thesis by blast
    qed
  qed
qed

datatype transport_op = Reserve peer | Release peer

fun run_transport :: "transport_env \<Rightarrow> transport_op \<Rightarrow> transport_world \<Rightarrow> transport_world" where
  "run_transport env (Reserve d) w = snd (transport_reserve env d w)"
| "run_transport env (Release d) w = snd (transport_release env d w)"

text \<open>
  No listener is lost: after any sequence of reservations and releases, of which any may fail, every socket that accepts connections of a guest is in one of the
  maps under its peer, so that a release closes it, as long as permissions can be set; and a release that returns leaves nothing listening for its peer.
\<close>

theorem listeners_accounted:
  assumes "\<forall>n. he_chmod env n = Inr ()" and "ho_listening w = []" "ho_servers w = Map.empty" "ho_localToolServers w = Map.empty"
  shows "accounted env {} (fold (run_transport env) ops w)
     \<and> (\<forall>d w'. transport_release env d (fold (run_transport env) ops w) = (Inr (), w') \<longrightarrow>
          (\<forall>path \<in> set (ho_listening w'). \<exists>p. p \<noteq> pr_peerIdentifier d \<and> path \<in> {broker_listener env p, local_listener env p}))"
proof -
  have step: "accounted env {} (run_transport env op v)" if "accounted env {} v" for op v
  proof (cases op)
    case (Reserve d)
    then show ?thesis using triple_run [OF reserve_accounted [OF assms(1)] that, of d] by (cases "transport_reserve env d v") (auto split: sum.splits)
  next
    case (Release d)
    then show ?thesis using release_accounted [OF that, of d] by (cases "transport_release env d v") auto
  qed
  have "accounted env {} v \<Longrightarrow> accounted env {} (fold (run_transport env) ops v)" for v
    by (induction ops arbitrary: v) (auto intro: step)
  moreover have "accounted env {} w" using assms(2-4) by (simp add: accounted_def)
  ultimately have all: "accounted env {} (fold (run_transport env) ops w)" by blast
  moreover have "\<exists>p. p \<noteq> pr_peerIdentifier d \<and> path \<in> {broker_listener env p, local_listener env p}"
    if run: "transport_release env d (fold (run_transport env) ops w) = (Inr (), w')" and mem: "path \<in> set (ho_listening w')" for d w' path
  proof -
    have "accounted env {} w'" "ho_servers w' (pr_peerIdentifier d) = None" "ho_localToolServers w' (pr_peerIdentifier d) = None"
      using release_accounted [OF all run] by simp_all
    moreover obtain p where p: "ho_servers w' p = Some path \<or> ho_localToolServers w' p = Some path" using accountedD(1) [OF calculation(1) mem] by blast
    ultimately have "p \<noteq> pr_peerIdentifier d" by auto
    moreover have "path = broker_listener env p \<or> path = local_listener env p" using p accountedD(2,3) [OF \<open>accounted env {} w'\<close>] by blast
    ultimately show ?thesis by blast
  qed
  ultimately show ?thesis by blast
qed

text \<open>When the permissions of a fresh socket cannot be set, the reservation fails, and its listener stays: in no map, and not closed by a release.\<close>

definition demo_transport_env :: transport_env where
  "demo_transport_env = \<lparr>he_runtimeDirectory = ''/run'', he_localTools = True, he_chmod = (\<lambda>n. if n = 3 then Inl ForeignError else Inr ())\<rparr>"

definition demo_transport_world :: transport_world where
  "demo_transport_world = \<lparr>db = empty_db, sink = [], now = 1000, entropy = (\<lambda>_. []), draws = 0, fault = (\<lambda>_. Ok), calls = 0, activeEventIds = [],
     ho_listening = [], ho_servers = Map.empty, ho_localToolServers = Map.empty\<rparr>"

lemma chmod_failure_leaks:
  "let d = \<lparr>pr_hostId = ''h'', pr_transportKind = Vsock, pr_peerIdentifier = ''7''\<rparr>;
       (r, w1) = transport_reserve demo_transport_env d demo_transport_world; (r2, w2) = transport_release demo_transport_env d w1 in
     (case r of Inl _ \<Rightarrow> True | _ \<Rightarrow> False) \<and> r2 = Inr () \<and> ho_listening w2 = [''/run/7.vsock_1024'']"
  by code_simp

end
