(* ===== verification/Host_Probes.thy ===== *)
theory Host_Probes
  imports Firecracker_Driver Secrets
begin

text \<open>
  \<^verbatim>\<open>packages/isolation/src/vsock-infrastructure-probe.ts\<close>, which runs a command in a guest of the development image, and
  \<^verbatim>\<open>runtime-diagnostic-client.ts\<close>. As in \<^verbatim>\<open>Guest_Handshake\<close>, an exchange is a machine over the events of the socket. \<open>probe_result\<close> shows that
  the outcome of an exchange depends only on the text the guest sends and not on how it is cut into chunks, \<open>probe_ends\<close> that the retries end.
\<close>

section \<open>Responses\<close>

definition probe_invalid :: js_error where
  "probe_invalid = Caisson SANDBOX_FAILED ''development probe returned an invalid response''"

definition parseResponse :: "json \<Rightarrow> js_error + exec_result" where
  "parseResponse v = (case v of
     JObj kvs \<Rightarrow> (case (map_of kvs (js ''exitCode''), map_of kvs (js ''stdout''), map_of kvs (js ''stderr'')) of
         (Some (JNum n), Some (JStr out), Some (JStr err)) \<Rightarrow>
           if n = of_int \<lfloor>n\<rfloor> then Inr \<lparr>xs_exitCode = \<lfloor>n\<rfloor>, xs_stdout = out, xs_stderr = err, xs_durationMs = 0\<rparr> else Inl probe_invalid
       | _ \<Rightarrow> Inl probe_invalid)
   | _ \<Rightarrow> Inl probe_invalid)"

section \<open>One exchange\<close>

text \<open>\<^verbatim>\<open>ProbeConnectionError\<close>; the cause is not kept.\<close>

record probe_error =
  pe_connected :: bool
  pe_retryable :: bool

record probe =
  px_received :: utf16
  px_connected :: bool
  px_handshakeComplete :: bool
  px_settled :: "(probe_error + utf16) option"
  px_writes :: "utf16 list"

definition probe_init :: probe where
  "probe_init = \<lparr>px_received = [], px_connected = False, px_handshakeComplete = False, px_settled = None, px_writes = []\<rparr>"

definition probe_fail :: "bool \<Rightarrow> probe \<Rightarrow> probe" where
  "probe_fail retryAfterHandshake x = x\<lparr>px_settled := Some (Inl \<lparr>pe_connected = px_connected x, pe_retryable = \<not> px_handshakeComplete x \<or> retryAfterHandshake\<rparr>)\<rparr>"

text \<open>The second half of the handler of data: the response ends at the first newline.\<close>

definition probe_answer :: "probe \<Rightarrow> probe" where
  "probe_answer x = (if newline \<in> set (px_received x) then x\<lparr>px_settled := Some (Inr (reply_line (px_received x)))\<rparr> else x)"

definition probe_data :: "utf16 \<Rightarrow> utf16 \<Rightarrow> probe \<Rightarrow> probe" where
  "probe_data payload chunk x = (let y = x\<lparr>px_received := px_received x @ chunk\<rparr> in
     if px_handshakeComplete y then probe_answer y
     else if newline \<notin> set (px_received y) then y
     else let handshake = reply_line (px_received y); z = y\<lparr>px_received := reply_rest (px_received y)\<rparr> in
       if \<not> connect_accepted handshake then z\<lparr>px_settled := Some (Inl \<lparr>pe_connected = True, pe_retryable = False\<rparr>)\<rparr>
       else probe_answer (z\<lparr>px_handshakeComplete := True, px_writes := px_writes z @ [payload]\<rparr>))"

definition probe_step :: "utf16 \<Rightarrow> utf16 \<Rightarrow> bool \<Rightarrow> probe \<Rightarrow> guest_event \<Rightarrow> probe" where
  "probe_step port payload retryAfterHandshake x ev = (if px_settled x \<noteq> None then x else case ev of
     GuestConnect \<Rightarrow> x\<lparr>px_connected := True, px_writes := px_writes x @ [js ''CONNECT '' @ port @ [newline]]\<rparr>
   | GuestData chunk \<Rightarrow> probe_data payload chunk x
   | _ \<Rightarrow> probe_fail retryAfterHandshake x)"

definition exchangeOnce :: "utf16 \<Rightarrow> utf16 \<Rightarrow> bool \<Rightarrow> guest_event list \<Rightarrow> probe" where
  "exchangeOnce port payload retryAfterHandshake evs = foldl (probe_step port payload retryAfterHandshake) probe_init evs"

section \<open>Until the deadline\<close>

text \<open>The clock is read as in \<^verbatim>\<open>Guest_Handshake\<close>.\<close>

partial_function (option) probe_loop :: "(nat \<Rightarrow> rat) \<Rightarrow> (nat \<Rightarrow> int \<Rightarrow> probe_error + utf16) \<Rightarrow> rat \<Rightarrow> nat \<Rightarrow> ((js_error + utf16) \<times> nat) option" where
  "probe_loop clock attempt deadline n =
     (if clock (2 * n) < deadline
      then (case attempt n (min (max 1 (js_round (deadline - clock (2 * n + 1)))) 1000) of
          Inr response \<Rightarrow> Some (Inr response, Suc n)
        | Inl e \<Rightarrow> if \<not> pe_retryable e then Some (Inl (Caisson SANDBOX_FAILED ''development probe connection failed''), Suc n)
            else probe_loop clock attempt deadline (Suc n))
      else Some (Inl (Caisson SANDBOX_FAILED ''development probe did not become ready''), n))"

definition probe_exchange :: "rat \<Rightarrow> int \<Rightarrow> (nat \<Rightarrow> rat) \<Rightarrow> (nat \<Rightarrow> int \<Rightarrow> probe_error + utf16) \<Rightarrow> (js_error + utf16) option" where
  "probe_exchange begun timeoutMs clock attempt = map_option fst (probe_loop clock attempt (begun + of_int timeoutMs) 0)"

section \<open>The two operations\<close>

text \<open>\<open>exchange\<close> is the exchange of a payload, with a timeout and whether to try again after the handshake; \<open>stringify\<close> and \<open>jparse\<close> are those
  of \<^verbatim>\<open>JSON\<close>, and \<open>duration\<close> the rounded time the call took.\<close>

definition argv_payload :: "(json \<Rightarrow> utf16) \<Rightarrow> string list \<Rightarrow> utf16" where
  "argv_payload stringify argv = stringify (JObj [(js ''argv'', JArr (map (\<lambda>a. JStr (js a)) argv))]) @ [newline]"

definition waitForReady :: "(json \<Rightarrow> utf16) \<Rightarrow> (utf16 \<Rightarrow> json option) \<Rightarrow> (utf16 \<Rightarrow> int \<Rightarrow> bool \<Rightarrow> js_error + utf16) \<Rightarrow> int \<Rightarrow> js_error + unit" where
  "waitForReady stringify jparse exchange timeoutMs = (case exchange (argv_payload stringify [''/bin/echo'']) timeoutMs True of
     Inl e \<Rightarrow> Inl e
   | Inr response \<Rightarrow> (case jparse response of
       None \<Rightarrow> Inl (Caisson SANDBOX_FAILED ''guest readiness probe returned invalid JSON'')
     | Some v \<Rightarrow> (case parseResponse v of
         Inl e \<Rightarrow> Inl e
       | Inr result \<Rightarrow> if xs_exitCode result \<noteq> 0 then Inl (Caisson SANDBOX_FAILED ''guest readiness command failed'') else Inr ())))"

definition probe_execute :: "(json \<Rightarrow> utf16) \<Rightarrow> (utf16 \<Rightarrow> json option) \<Rightarrow> (utf16 \<Rightarrow> int \<Rightarrow> bool \<Rightarrow> js_error + utf16) \<Rightarrow> int \<Rightarrow> exec_request \<Rightarrow> js_error + exec_result" where
  "probe_execute stringify jparse exchange duration request =
     (case exchange (argv_payload stringify (xr_argv request)) (case xr_timeoutMs request of Some ms \<Rightarrow> ms | None \<Rightarrow> 30000) False of
     Inl e \<Rightarrow> Inl e
   | Inr response \<Rightarrow> (case jparse response of
       None \<Rightarrow> Inl (Caisson SANDBOX_FAILED ''development probe returned invalid JSON'')
     | Some v \<Rightarrow> (case parseResponse v of Inl e \<Rightarrow> Inl e | Inr result \<Rightarrow> Inr (result\<lparr>xs_durationMs := duration\<rparr>))))"

section \<open>Runtime diagnostics\<close>

record diagnostic =
  dg_received :: utf16
  dg_sent :: bool
  dg_settled :: "(js_error + json) option"
  dg_writes :: "utf16 list"

definition diagnostic_init :: diagnostic where
  "diagnostic_init = \<lparr>dg_received = [], dg_sent = False, dg_settled = None, dg_writes = []\<rparr>"

definition diagnostic_failed :: js_error where
  "diagnostic_failed = Caisson SANDBOX_FAILED ''runtime diagnostic failed''"

text \<open>The answer is the object itself, when its field \<^verbatim>\<open>ok\<close> is true; there is no handler of the socket's end.\<close>

definition diagnostic_step :: "(utf16 \<Rightarrow> json option) \<Rightarrow> utf16 \<Rightarrow> diagnostic \<Rightarrow> guest_event \<Rightarrow> diagnostic" where
  "diagnostic_step jparse payload x ev = (if dg_settled x \<noteq> None then x else case ev of
     GuestConnect \<Rightarrow> x\<lparr>dg_writes := dg_writes x @ [js ''CONNECT 1026'' @ [newline]]\<rparr>
   | GuestTimeout \<Rightarrow> x\<lparr>dg_settled := Some (Inl (Caisson SANDBOX_FAILED ''runtime diagnostic timed out''))\<rparr>
   | GuestSocketError \<Rightarrow> x\<lparr>dg_settled := Some (Inl diagnostic_failed)\<rparr>
   | GuestClosed \<Rightarrow> x
   | GuestData chunk \<Rightarrow> (let y = x\<lparr>dg_received := dg_received x @ chunk\<rparr>; line = reply_line (dg_received y) in
       if newline \<notin> set (dg_received y) then y
       else if \<not> dg_sent y then
         (if \<not> connect_accepted line then y\<lparr>dg_settled := Some (Inl diagnostic_failed)\<rparr>
          else y\<lparr>dg_sent := True, dg_received := reply_rest (dg_received y), dg_writes := dg_writes y @ [payload @ [newline]]\<rparr>)
       else (case jparse line of
           Some (JObj kvs) \<Rightarrow> if map_of kvs (js ''ok'') = Some (JBool True) then y\<lparr>dg_settled := Some (Inr (JObj kvs))\<rparr>
             else y\<lparr>dg_settled := Some (Inl diagnostic_failed)\<rparr>
         | _ \<Rightarrow> y\<lparr>dg_settled := Some (Inl diagnostic_failed)\<rparr>)))"

definition callRuntimeDiagnostic :: "(utf16 \<Rightarrow> json option) \<Rightarrow> utf16 \<Rightarrow> guest_event list \<Rightarrow> diagnostic" where
  "callRuntimeDiagnostic jparse payload evs = foldl (diagnostic_step jparse payload) diagnostic_init evs"

section \<open>What an exchange gives\<close>

text \<open>The outcome for a text: the first line must be the acknowledgement, the second is the response.\<close>

definition probe_reference :: "utf16 \<Rightarrow> (probe_error + utf16) option" where
  "probe_reference s = (if newline \<notin> set s then None
     else if \<not> connect_accepted (reply_line s) then Some (Inl \<lparr>pe_connected = True, pe_retryable = False\<rparr>)
     else if newline \<notin> set (reply_rest s) then None else Some (Inr (reply_line (reply_rest s))))"

lemma reply_append: "newline \<in> set s \<Longrightarrow> reply_line (s @ t) = reply_line s" "newline \<in> set s \<Longrightarrow> reply_rest (s @ t) = reply_rest s @ t"
  by (auto simp: reply_line_def reply_rest_def takeWhile_append1 dropWhile_append1 tl_append2 dropWhile_eq_Nil_conv)

text \<open>What the machine has when it has read the text \<open>s\<close> after its connection.\<close>

definition probe_read :: "utf16 \<Rightarrow> utf16 \<Rightarrow> utf16 \<Rightarrow> probe" where
  "probe_read port payload s = (let x = \<lparr>px_received = s, px_connected = True, px_handshakeComplete = False, px_settled = None,
       px_writes = [js ''CONNECT '' @ port @ [newline]]\<rparr> in
     if newline \<notin> set s then x
     else let z = x\<lparr>px_received := reply_rest s\<rparr> in
       if \<not> connect_accepted (reply_line s) then z\<lparr>px_settled := Some (Inl \<lparr>pe_connected = True, pe_retryable = False\<rparr>)\<rparr>
       else probe_answer (z\<lparr>px_handshakeComplete := True, px_writes := px_writes z @ [payload]\<rparr>))"


lemma probe_read_settled: "px_settled (probe_read port payload s) = probe_reference s"
  by (simp add: probe_read_def probe_reference_def probe_answer_def Let_def)

lemma probe_reference_append: "probe_reference s \<noteq> None \<Longrightarrow> probe_reference (s @ t) = probe_reference s"
  by (auto simp: probe_reference_def reply_append split: if_splits)

lemma probe_settled_stays: "px_settled x \<noteq> None \<Longrightarrow> foldl (probe_step port payload again) x evs = x"
  by (induction evs) (auto simp: probe_step_def)

lemma probe_reads:
  assumes open_ended: "probe_reference s = None"
  shows "probe_step port payload again (probe_read port payload s) (GuestData chunk) = probe_read port payload (s @ chunk)"
proof -
  have step: "probe_step port payload again (probe_read port payload s) (GuestData chunk) = probe_data payload chunk (probe_read port payload s)"
    using open_ended by (simp add: probe_step_def probe_read_settled)
  show ?thesis
  proof (cases "newline \<in> set s")
    case False
    then show ?thesis unfolding step by (simp add: probe_read_def probe_data_def Let_def)
  next
    case True
    with open_ended have "connect_accepted (reply_line s)" "newline \<notin> set (reply_rest s)" by (simp_all add: probe_reference_def split: if_splits)
    with True show ?thesis unfolding step by (simp add: probe_read_def probe_data_def probe_answer_def Let_def reply_append)
  qed
qed

lemma probe_reads_all:
  "px_settled (foldl (probe_step port payload again) (probe_read port payload s) (map GuestData chunks)) = probe_reference (s @ concat chunks)"
proof (induction chunks arbitrary: s)
  case Nil
  show ?case by (simp add: probe_read_settled)
next
  case (Cons chunk chunks)
  show ?case
  proof (cases "probe_reference s")
    case None
    then show ?thesis using Cons [of "s @ chunk"] by (simp add: probe_reads)
  next
    case (Some r)
    then show ?thesis using probe_settled_stays [of "probe_read port payload s" port payload again "map GuestData (chunk # chunks)"]
      by (simp only: probe_read_settled probe_reference_append option.distinct simp_thms not_False_eq_True concat.simps)
  qed
qed

theorem probe_result:
  "px_settled (exchangeOnce port payload again (GuestConnect # map GuestData chunks)) = probe_reference (concat chunks)"
proof -
  have "probe_step port payload again probe_init GuestConnect = probe_read port payload []"
    by (simp add: probe_step_def probe_init_def probe_read_def)
  then show ?thesis using probe_reads_all [of port payload again "[]" chunks] by (simp add: exchangeOnce_def)
qed

lemma probe_loop_ends: "deadline \<le> clock (2 * (n + k)) \<Longrightarrow> \<exists>r. probe_loop clock attempt deadline n = Some r"
proof (induction k arbitrary: n)
  case 0
  then show ?case by (subst probe_loop.simps) auto
next
  case (Suc k)
  then show ?case by (subst probe_loop.simps) (auto split: sum.splits)
qed

theorem probe_ends:
  assumes "advances tick clock" and "begun \<le> clock 0" and "of_int timeoutMs \<le> of_nat k * tick"
  shows "\<exists>r. probe_exchange begun timeoutMs clock attempt = Some r"
proof -
  have "begun + of_int timeoutMs \<le> clock (2 * (0 + k))" using advances_total [OF assms(1), of k] assms(2,3) by simp
  from probe_loop_ends [where clock = clock and n = 0 and k = k, OF this] show ?thesis by (auto simp: probe_exchange_def)
qed

end
