(* ===== verification/Service_Bootstrap.thy ===== *)
theory Service_Bootstrap
  imports Base_Snapshots Broker_Pipeline
begin

text \<open>
  \<^verbatim>\<open>scripts/bootstrap-services.mjs\<close>: the declared services and their credential references are brought into the database in one
  transaction. \<open>services_bootstrapped\<close> shows that afterwards the resolver of the broker finds exactly what was declared and that nothing
  secret-shaped was stored, \<open>bootstrap_idempotent\<close> that another run changes nothing.
\<close>

section \<open>Declarations\<close>

definition ReferenceSchema :: schema where
  "ReferenceSchema = strict [req ''role'' (ZString [SMin 1, SMax 128]), req ''backend'' (ZEnum [''env'', ''vault'']), req ''backendPath'' (ZString [SMin 1, SMax 1024])]"

definition DeclarationSchema :: schema where
  "DeclarationSchema = strict [req ''services'' (ZArray (strict [req ''name'' (ZString [SMin 1, SMax 128]), req ''adapter'' (ZString [SMin 1, SMax 128]),
     req ''config'' (ZRecord (ZString [SMax 128]) ZJson), req ''credentialRefs'' (ZArray ReferenceSchema None None)]) (Some 1) None)]"

record reference_decl =
  rd_role :: utf16
  rd_backend :: utf16
  rd_backendPath :: utf16

record service_decl =
  sd_name :: utf16
  sd_adapter :: utf16
  sd_config :: json
  sd_credentialRefs :: "reference_decl list"

definition services_of :: "json \<Rightarrow> service_decl list" where
  "services_of v = map (\<lambda>s. \<lparr>sd_name = text_field s ''name'', sd_adapter = text_field s ''adapter'', sd_config = field s ''config'',
     sd_credentialRefs = map (\<lambda>r. \<lparr>rd_role = text_field r ''role'', rd_backend = text_field r ''backend'', rd_backendPath = text_field r ''backendPath''\<rparr>)
       (items (field s ''credentialRefs''))\<rparr>) (items (field v ''services''))"

definition safe_declaration :: "service_decl \<Rightarrow> bool" where
  "safe_declaration s \<longleftrightarrow> \<not> containsSecretShape (sd_config s) \<and> list_all (\<lambda>r. \<not> secret_string (rd_backendPath r)) (sd_credentialRefs s)"

definition assertSafeDeclaration :: "service_decl list \<Rightarrow> js_error + unit" where
  "assertSafeDeclaration ss = (if list_all safe_declaration ss then Inr () else Inl ForeignError)"

section \<open>Statements\<close>

text \<open>The constraints on configurations and paths are \<open>check\<close>: the function of the migration that implements them lowers keys by the locale of the
  database. A primary key that is taken is an error.\<close>

definition upsert_service :: "(json \<Rightarrow> bool) \<Rightarrow> string \<Rightarrow> service_decl \<Rightarrow> string statement" where
  "upsert_service check i s d = (if check (sd_config s) then Inl ForeignError
     else case filter (\<lambda>x. sv_name x = ascii (sd_name s)) (services d) of
       x # _ \<Rightarrow> Inr (sv_id x, d\<lparr>services := update_where (\<lambda>x. sv_name x = ascii (sd_name s)) (\<lambda>x. x\<lparr>sv_adapter := ascii (sd_adapter s), sv_config := sd_config s\<rparr>) (services d)\<rparr>)
     | [] \<Rightarrow> if i \<in> sv_id ` set (services d) then Inl ForeignError
         else Inr (i, d\<lparr>services := services d @ [\<lparr>sv_id = i, sv_name = ascii (sd_name s), sv_adapter = ascii (sd_adapter s), sv_config = sd_config s, sv_enabled = True\<rparr>]\<rparr>))"

definition upsert_reference :: "(json \<Rightarrow> bool) \<Rightarrow> string \<Rightarrow> string \<Rightarrow> reference_decl \<Rightarrow> unit statement" where
  "upsert_reference check i serviceId r d = (let mine = (\<lambda>c. cr_service_id c = serviceId \<and> cr_role c = ascii (rd_role r)) in
     if check (JStr (rd_backendPath r)) then Inl ForeignError
     else if list_ex mine (credential_refs d)
     then Inr ((), d\<lparr>credential_refs := update_where mine (\<lambda>c. c\<lparr>cr_backend := ascii (rd_backend r), cr_backend_path := ascii (rd_backendPath r)\<rparr>) (credential_refs d)\<rparr>)
     else if i \<in> cr_id ` set (credential_refs d) \<or> serviceId \<notin> sv_id ` set (services d) then Inl ForeignError
     else Inr ((), d\<lparr>credential_refs := credential_refs d @ [\<lparr>cr_id = i, cr_service_id = serviceId, cr_role = ascii (rd_role r),
       cr_backend = ascii (rd_backend r), cr_backend_path = ascii (rd_backendPath r)\<rparr>]\<rparr>))"

section \<open>The script\<close>

definition bootstrap_service :: "(json \<Rightarrow> bool) \<Rightarrow> service_decl \<Rightarrow> ('z world_scheme, unit) proc" where
  "bootstrap_service check s = bnd uuidV7 (\<lambda>i. bnd (query (upsert_service check i s)) (\<lambda>serviceId.
     for_each (sd_credentialRefs s) (\<lambda>r. bnd uuidV7 (\<lambda>j. query (upsert_reference check j serviceId r)))))"

definition bootstrap_services :: "(schema \<Rightarrow> json \<Rightarrow> json option) \<Rightarrow> (json \<Rightarrow> bool) \<Rightarrow> json \<Rightarrow> ('z world_scheme, unit) proc" where
  "bootstrap_services parse check raw = (case parse DeclarationSchema raw of
     None \<Rightarrow> throw ForeignError
   | Some v \<Rightarrow> seq (of_result (assertSafeDeclaration (services_of v))) (transaction (for_each (services_of v) (bootstrap_service check))))"

section \<open>What is declared is found\<close>

text \<open>The keys of the two tables.\<close>

definition keyed :: "db \<Rightarrow> bool" where
  "keyed d \<longleftrightarrow> distinct (map sv_name (services d)) \<and> distinct (map sv_id (services d))
     \<and> distinct (map (\<lambda>c. (cr_service_id c, cr_role c)) (credential_refs d))"

text \<open>A database has what a declaration says.\<close>

definition has_reference :: "db \<Rightarrow> string \<Rightarrow> reference_decl \<Rightarrow> bool" where
  "has_reference d serviceId r \<longleftrightarrow> (\<exists>c \<in> set (credential_refs d). cr_service_id c = serviceId \<and> cr_role c = ascii (rd_role r)
     \<and> cr_backend c = ascii (rd_backend r) \<and> cr_backend_path c = ascii (rd_backendPath r))"

definition has_service :: "db \<Rightarrow> service_decl \<Rightarrow> string \<Rightarrow> bool" where
  "has_service d s i \<longleftrightarrow> (\<exists>x \<in> set (services d). sv_id x = i \<and> sv_name x = ascii (sd_name s) \<and> sv_adapter x = ascii (sd_adapter s) \<and> sv_config x = sd_config s)"

definition has_declared :: "db \<Rightarrow> service_decl \<Rightarrow> bool" where
  "has_declared d s \<longleftrightarrow> (\<exists>i. has_service d s i \<and> list_all (has_reference d i) (sd_credentialRefs s))"

lemma service_ids: "keyed d \<Longrightarrow> has_service d s i \<Longrightarrow> has_service d t j \<Longrightarrow> i = j \<longleftrightarrow> ascii (sd_name s) = ascii (sd_name t)"
  unfolding keyed_def has_service_def distinct_map inj_on_def by metis

lemma update_keeps: "map f (update_where p g rs) = map f rs" if "\<And>x. f (g x) = f x"
  using that by (induction rs) (auto simp: update_where_def)

lemma upsert_serviceE:
  assumes up: "upsert_service check i s d = Inr (k, d')" and keyed: "keyed d"
  shows "keyed d' \<and> has_service d' s k \<and> credential_refs d' = credential_refs d
    \<and> (\<forall>x \<in> set (services d). sv_name x \<noteq> ascii (sd_name s) \<longrightarrow> x \<in> set (services d'))"
proof (cases "filter (\<lambda>x. sv_name x = ascii (sd_name s)) (services d)")
  case Nil
  then have none: "\<forall>x \<in> set (services d). sv_name x \<noteq> ascii (sd_name s)" by (simp add: filter_empty_conv)
  from up Nil have d': "k = i" "i \<notin> sv_id ` set (services d)"
    "d' = d\<lparr>services := services d @ [\<lparr>sv_id = i, sv_name = ascii (sd_name s), sv_adapter = ascii (sd_adapter s), sv_config = sd_config s, sv_enabled = True\<rparr>]\<rparr>"
    by (auto simp: upsert_service_def split: if_splits)
  then show ?thesis using none keyed by (auto simp: keyed_def has_service_def)
next
  case (Cons x xs)
  then have "x \<in> set (filter (\<lambda>x. sv_name x = ascii (sd_name s)) (services d))" by simp
  then have x: "x \<in> set (services d)" "sv_name x = ascii (sd_name s)" by simp_all
  from up Cons have d': "k = sv_id x" "d' = d\<lparr>services := update_where (\<lambda>x. sv_name x = ascii (sd_name s)) (\<lambda>x. x\<lparr>sv_adapter := ascii (sd_adapter s), sv_config := sd_config s\<rparr>) (services d)\<rparr>"
    by (auto simp: upsert_service_def split: if_splits)
  have "x\<lparr>sv_adapter := ascii (sd_adapter s), sv_config := sd_config s\<rparr> \<in> set (services d')" using x by (force simp: d' update_where_def)
  then have "has_service d' s k" unfolding has_service_def by (rule bexI [rotated]) (use x d'(1) in simp)
  moreover have "keyed d'" using keyed by (simp add: keyed_def d' update_keeps)
  ultimately show ?thesis by (auto simp: d' update_where_def)
qed

lemma upsert_referenceE:
  assumes up: "upsert_reference check i k r d = Inr (u, d')" and keyed: "keyed d"
  shows "keyed d' \<and> has_reference d' k r \<and> services d' = services d
    \<and> (\<forall>c \<in> set (credential_refs d). (cr_service_id c, cr_role c) \<noteq> (k, ascii (rd_role r)) \<longrightarrow> c \<in> set (credential_refs d'))"
proof (cases "list_ex (\<lambda>c. cr_service_id c = k \<and> cr_role c = ascii (rd_role r)) (credential_refs d)")
  case True
  then obtain c where c: "c \<in> set (credential_refs d)" "cr_service_id c = k" "cr_role c = ascii (rd_role r)" by (auto simp: list_ex_iff)
  from up True have d': "d' = d\<lparr>credential_refs := update_where (\<lambda>c. cr_service_id c = k \<and> cr_role c = ascii (rd_role r))
     (\<lambda>c. c\<lparr>cr_backend := ascii (rd_backend r), cr_backend_path := ascii (rd_backendPath r)\<rparr>) (credential_refs d)\<rparr>"
    by (auto simp: upsert_reference_def Let_def split: if_splits)
  have "c\<lparr>cr_backend := ascii (rd_backend r), cr_backend_path := ascii (rd_backendPath r)\<rparr> \<in> set (credential_refs d')" using c by (force simp: d' update_where_def)
  then have "has_reference d' k r" unfolding has_reference_def by (rule bexI [rotated]) (use c in simp)
  moreover have "keyed d'" using keyed by (simp add: keyed_def d' update_keeps)
  ultimately show ?thesis by (auto simp: d' update_where_def)
next
  case False
  with up have d': "d' = d\<lparr>credential_refs := credential_refs d @ [\<lparr>cr_id = i, cr_service_id = k, cr_role = ascii (rd_role r),
       cr_backend = ascii (rd_backend r), cr_backend_path = ascii (rd_backendPath r)\<rparr>]\<rparr>"
    by (auto simp: upsert_reference_def Let_def split: if_splits)
  then show ?thesis using False keyed by (auto simp: keyed_def has_reference_def list_ex_iff)
qed

lemma has_reference_kept:
  assumes "upsert_reference check i k r d = Inr (u, d')" "keyed d" "has_reference d j q" "j \<noteq> k \<or> ascii (rd_role q) \<noteq> ascii (rd_role r)"
  shows "has_reference d' j q"
proof -
  from assms(3) obtain c where c: "c \<in> set (credential_refs d)" "cr_service_id c = j" "cr_role c = ascii (rd_role q)"
    "cr_backend c = ascii (rd_backend q)" "cr_backend_path c = ascii (rd_backendPath q)" unfolding has_reference_def by blast
  with upsert_referenceE [OF assms(1,2)] assms(4) have "c \<in> set (credential_refs d')" by auto
  then show ?thesis unfolding has_reference_def by (rule bexI [rotated]) (use c in simp)
qed

lemma has_service_cong: "services d' = services d \<Longrightarrow> has_service d' s i = has_service d s i"
  by (simp add: has_service_def)

lemma has_declared_reference:
  assumes "upsert_reference check i k r d = Inr (u, d')" "keyed d" "has_service d s k" "has_declared d t" "ascii (sd_name t) \<noteq> ascii (sd_name s)"
  shows "has_declared d' t"
proof -
  from assms(4) obtain j where j: "has_service d t j" "list_all (has_reference d j) (sd_credentialRefs t)" by (auto simp: has_declared_def)
  then have "j \<noteq> k" using service_ids [OF assms(2) j(1) assms(3)] assms(5) by auto
  then show ?thesis using j has_reference_kept [OF assms(1,2)] upsert_referenceE [OF assms(1,2)]
    unfolding has_declared_def list_all_iff by (metis has_service_cong)
qed

lemma has_declared_service:
  assumes "upsert_service check i s d = Inr (k, d')" "keyed d" "has_declared d t" "ascii (sd_name t) \<noteq> ascii (sd_name s)"
  shows "has_declared d' t"
proof -
  from assms(3) obtain j x where j: "x \<in> set (services d)" "sv_id x = j" "sv_name x = ascii (sd_name t)" "sv_adapter x = ascii (sd_adapter t)" "sv_config x = sd_config t"
    "list_all (has_reference d j) (sd_credentialRefs t)" by (auto simp: has_declared_def has_service_def)
  with upsert_serviceE [OF assms(1,2)] assms(4) have "x \<in> set (services d')" "credential_refs d' = credential_refs d" by auto
  moreover have "has_reference d' = has_reference d" using calculation(2) by (simp add: has_reference_def fun_eq_iff)
  ultimately have "has_service d' t j \<and> list_all (has_reference d' j) (sd_credentialRefs t)" using j unfolding has_service_def by auto
  then show ?thesis unfolding has_declared_def by blast
qed

lemma triple_uuid: "(\<And>w n. P w \<Longrightarrow> P (w\<lparr>draws := n\<rparr>)) \<Longrightarrow> triple P uuidV7 (\<lambda>_. P) (\<lambda>_ _. True)"
  by (rule tripleI) (auto simp: uuidV7_def randomBytes_def)

lemma bootstrap_service_declares:
  assumes "\<forall>t \<in> T. ascii (sd_name t) \<noteq> ascii (sd_name s)" "distinct (map (\<lambda>r. ascii (rd_role r)) (sd_credentialRefs s))"
  shows "triple (\<lambda>w. keyed (db w) \<and> (\<forall>t \<in> T. has_declared (db w) t)) (bootstrap_service check s)
    (\<lambda>_ w. keyed (db w) \<and> (\<forall>t \<in> insert s T. has_declared (db w) t)) (\<lambda>_ _. True)"
proof -
  let ?I = "\<lambda>k d. keyed d \<and> has_service d s k \<and> (\<forall>t \<in> T. has_declared d t)"
  have loop: "triple (\<lambda>w. ?I k (db w)) (for_each (sd_credentialRefs s) (\<lambda>r. bnd uuidV7 (\<lambda>j. query (upsert_reference check j k r))))
     (\<lambda>_ w. ?I k (db w) \<and> (\<forall>r \<in> set (sd_credentialRefs s). has_reference (db w) k r)) (\<lambda>_ _. True)" for k
  proof -
    let ?J = "\<lambda>rs w. ?I k (db w) \<and> (\<forall>r \<in> set rs. has_reference (db w) k r)"
    have "triple (?J ys) (bnd uuidV7 (\<lambda>j. query (upsert_reference check j k x))) (\<lambda>_. ?J (ys @ [x])) (\<lambda>_ _. True)"
      if split: "sd_credentialRefs s = ys @ x # zs" for ys x zs
    proof (rule triple_bnd [OF triple_uuid])
      fix j
      show "triple (?J ys) (query (upsert_reference check j k x)) (\<lambda>_. ?J (ys @ [x])) (\<lambda>_ _. True)"
      proof (rule triple_query)
      fix w and u :: unit and d assume J: "?J ys w" and up: "upsert_reference check j k x (db w) = Inr (u, d)"
      have roles: "ascii (rd_role q) \<noteq> ascii (rd_role x)" if "q \<in> set ys" for q
        using assms(2) imageI [OF that, of "\<lambda>r. ascii (rd_role r)"] unfolding split by (simp only: map_append list.map distinct_append list.set set_map) blast
      note E = upsert_referenceE [OF up]
      have keyed: "keyed (db w)" and have_s: "has_service (db w) s k" and have_T: "\<And>t. t \<in> T \<Longrightarrow> has_declared (db w) t"
        and have_ys: "\<And>q. q \<in> set ys \<Longrightarrow> has_reference (db w) k q" using J by auto
      have "has_declared d t" if "t \<in> T" for t by (rule has_declared_reference [OF up keyed have_s have_T [OF that]]) (use assms(1) that in blast)
      moreover have "has_reference d k q" if "q \<in> set ys" for q using has_reference_kept [OF up keyed have_ys [OF that]] roles [OF that] by blast
      ultimately show "?J (ys @ [x]) (w\<lparr>calls := Suc (calls w), db := d\<rparr>)" using E [OF keyed] have_s has_service_cong [of d "db w" s k] by simp
      qed
    qed simp
    from triple_for_each [where J = ?J, OF this] show ?thesis by simp
  qed
  show ?thesis unfolding bootstrap_service_def
  proof (rule triple_bnd [OF triple_uuid])
    fix i
    show "triple (\<lambda>w. keyed (db w) \<and> (\<forall>t \<in> T. has_declared (db w) t)) (bnd (query (upsert_service check i s)) (\<lambda>k.
       for_each (sd_credentialRefs s) (\<lambda>r. bnd uuidV7 (\<lambda>j. query (upsert_reference check j k r)))))
       (\<lambda>_ w. keyed (db w) \<and> (\<forall>t \<in> insert s T. has_declared (db w) t)) (\<lambda>_ _. True)"
    proof (rule triple_bnd)
    show "triple (\<lambda>w. keyed (db w) \<and> (\<forall>t \<in> T. has_declared (db w) t)) (query (upsert_service check i s)) (\<lambda>k w. ?I k (db w)) (\<lambda>_ _. True)"
      by (rule triple_query) (use upsert_serviceE has_declared_service assms(1) in auto)
  next
    fix k
    show "triple (\<lambda>w. ?I k (db w)) (for_each (sd_credentialRefs s) (\<lambda>r. bnd uuidV7 (\<lambda>j. query (upsert_reference check j k r))))
       (\<lambda>_ w. keyed (db w) \<and> (\<forall>t \<in> insert s T. has_declared (db w) t)) (\<lambda>_ _. True)"
      by (rule triple_conseq [OF loop]) (auto simp: has_declared_def list_all_iff)
    qed
  qed simp
qed

text \<open>The texts of declarations and the keys they give: names of services and roles of a service are different.\<close>

definition latin :: "utf16 \<Rightarrow> bool" where
  "latin s \<longleftrightarrow> list_all (\<lambda>u. uint u < 256) s"

definition well_declared :: "service_decl list \<Rightarrow> bool" where
  "well_declared ss \<longleftrightarrow> distinct (map sd_name ss) \<and> list_all (\<lambda>s. latin (sd_name s) \<and> distinct (map rd_role (sd_credentialRefs s))
     \<and> list_all (\<lambda>r. latin (rd_role r)) (sd_credentialRefs s)) ss"

lemma js_ascii: "latin s \<Longrightarrow> js (ascii s) = s"
proof (induction s)
  case (Cons u s)
  then have "of_char (char_of (uint u) :: char) = uint u" by (simp add: latin_def of_char_of take_bit_int_eq_self)
  with Cons show ?case by (simp add: js_def ascii_def latin_def)
qed (simp add: js_def ascii_def)

lemma ascii_inj: "latin s \<Longrightarrow> latin t \<Longrightarrow> ascii s = ascii t \<longleftrightarrow> s = t"
  using js_ascii by metis

lemma ascii_distinct: "distinct xs \<Longrightarrow> list_all latin xs \<Longrightarrow> distinct (map ascii xs)"
  by (auto simp: distinct_map inj_on_def list_all_iff ascii_inj)

lemma bootstrap_all_declares:
  assumes "well_declared ss"
  shows "triple (\<lambda>w. keyed (db w)) (for_each ss (bootstrap_service check)) (\<lambda>_ w. keyed (db w) \<and> (\<forall>s \<in> set ss. has_declared (db w) s)) (\<lambda>_ _. True)"
proof -
  let ?J = "\<lambda>ys w. keyed (db w) \<and> (\<forall>s \<in> set ys. has_declared (db w) s)"
  have names: "distinct (map (\<lambda>s. ascii (sd_name s)) ss)"
    using ascii_distinct [of "map sd_name ss"] assms by (simp add: well_declared_def list_all_iff comp_def)
  have "triple (?J ys) (bootstrap_service check s) (\<lambda>_. ?J (ys @ [s])) (\<lambda>_ _. True)" if split: "ss = ys @ s # zs" for ys s zs
  proof (rule triple_conseq [OF bootstrap_service_declares [of "set ys" s check]])
    show "\<forall>t \<in> set ys. ascii (sd_name t) \<noteq> ascii (sd_name s)"
    proof
      fix t assume "t \<in> set ys"
      from imageI [OF this, of "\<lambda>s. ascii (sd_name s)"] show "ascii (sd_name t) \<noteq> ascii (sd_name s)" using names unfolding split by auto
    qed
    show "distinct (map (\<lambda>r. ascii (rd_role r)) (sd_credentialRefs s))"
      using ascii_distinct [of "map rd_role (sd_credentialRefs s)"] assms unfolding split by (simp add: well_declared_def list_all_iff comp_def)
  qed auto
  from triple_for_each [where J = ?J, OF this] show ?thesis by simp
qed

text \<open>What the resolver finds for a declared reference.\<close>

lemma declared_credential:
  assumes "keyed d" "has_declared d s" "latin (sd_name s)" "latin (rd_role q)" "q \<in> set (sd_credentialRefs s)" "c \<in> set (credential_rows (sd_name s) (rd_role q) d)"
  shows "cr_backend c = ascii (rd_backend q) \<and> cr_backend_path c = ascii (rd_backendPath q)"
proof -
  from assms(2,5) obtain x c' where x: "x \<in> set (services d)" "sv_name x = ascii (sd_name s)"
    and c': "c' \<in> set (credential_refs d)" "cr_service_id c' = sv_id x" "cr_role c' = ascii (rd_role q)" "cr_backend c' = ascii (rd_backend q)" "cr_backend_path c' = ascii (rd_backendPath q)"
    unfolding has_declared_def has_service_def has_reference_def list_all_iff by blast
  from assms(6) obtain y where y: "c \<in> set (credential_refs d)" "y \<in> set (services d)" "sv_id y = cr_service_id c" "js (sv_name y) = sd_name s" "js (cr_role c) = rd_role q"
    by (auto simp: credential_rows_def)
  have "sv_name y = sv_name x" "cr_role c = cr_role c'" using y(4,5) x(2) c'(3) js_ascii [OF assms(3)] js_ascii [OF assms(4)] by (metis js_eq)+
  then have "y = x" using assms(1) x(1) y(2) unfolding keyed_def distinct_map inj_on_def by blast
  then have "c = c'" using assms(1) y(1,3) c'(1,2) \<open>cr_role c = cr_role c'\<close> unfolding keyed_def distinct_map inj_on_def by (metis prod.inject)
  then show ?thesis using c' by simp
qed

text \<open>
  The bootstrap is all or nothing, and its result is what was declared. Whichever call fails, either the call has failed and the database is as before, or every declared service is in
  the table with its adapter and configuration, none of them secret-shaped, and a credential reference that the broker's resolver gives for a declared role is the declared one. The keys of
  the tables hold before and after, and the names of the declaration are different.
\<close>

theorem services_bootstrapped:
  assumes "keyed (db w)" "parse DeclarationSchema raw = Some v" "well_declared (services_of v)" and run: "bootstrap_services parse check raw w = (r, w')"
  shows "r \<noteq> Inr () \<and> db w' = db w
     \<or> keyed (db w') \<and> (\<forall>s \<in> set (services_of v). safe_declaration s \<and> has_declared (db w') s
        \<and> (\<forall>q \<in> set (sd_credentialRefs s). \<forall>c w''. resolveCredentialRef (sd_name s) (rd_role q) w' = (Inr (Some c), w'')
             \<longrightarrow> cf_backend c = ascii (rd_backend q) \<and> cf_backendPath c = ascii (rd_backendPath q)))"
proof (cases "list_all safe_declaration (services_of v)")
  case False
  then show ?thesis using run assms(2) by (auto simp: bootstrap_services_def assertSafeDeclaration_def bnd_def of_result_def)
next
  case True
  then have "transaction (for_each (services_of v) (bootstrap_service check)) w = (r, w')"
    using run assms(2) by (auto simp: bootstrap_services_def assertSafeDeclaration_def bnd_def of_result_def)
  then show ?thesis
  proof (cases rule: transaction_cases)
    case (committed x w2)
    have "keyed (db w2) \<and> (\<forall>s \<in> set (services_of v). has_declared (db w2) s)"
      by (rule triple_Inr [OF bootstrap_all_declares [OF assms(3)] _ committed(1)]) (use assms(1) in simp)
    then have all_done: "keyed (db w')" "\<And>s. s \<in> set (services_of v) \<Longrightarrow> has_declared (db w') s" using committed(3) by auto
    have "cf_backend c = ascii (rd_backend q) \<and> cf_backendPath c = ascii (rd_backendPath q)"
      if s: "s \<in> set (services_of v)" "q \<in> set (sd_credentialRefs s)" and res: "resolveCredentialRef (sd_name s) (rd_role q) w' = (Inr (Some c), w'')" for s q c w''
    proof -
      have l: "latin (sd_name s)" "latin (rd_role q)" using assms(3) s by (auto simp: well_declared_def list_all_iff)
      from res obtain row rows where rows: "credential_rows (sd_name s) (rd_role q) (db w') = row # rows" "cf_backend c = cr_backend row" "cf_backendPath c = cr_backend_path row"
        by (auto simp: resolveCredentialRef_def bnd_def query_def next_outcome_def select_def ret_def throw_def split: list.splits if_splits prod.splits sum.splits)
      then show ?thesis using declared_credential [OF all_done(1) all_done(2) [OF s(1)] l s(2), of row] by simp
    qed
    with all_done True show ?thesis by (auto simp: list_all_iff)
  qed auto
qed

text \<open>A service with one reference in the environment, on an empty table.\<close>

definition demo_declaration :: json where
  "demo_declaration = JObj [(js ''services'', JArr [JObj [(js ''name'', text_json ''pg''), (js ''adapter'', text_json ''postgres''), (js ''config'', JObj [(js ''timeoutMs'', JNum 5)]),
     (js ''credentialRefs'', JArr [JObj [(js ''role'', text_json ''default''), (js ''backend'', text_json ''env''), (js ''backendPath'', text_json ''PG'')]])]])]"

lemma demo_bootstraps:
  "zod (\<lambda>_ _. True) DeclarationSchema demo_declaration = Some demo_declaration" "well_declared (services_of demo_declaration)"
  "fst (bootstrap_services (zod (\<lambda>_ _. True)) containsSecretShape demo_declaration (demo_world\<lparr>db := empty_db\<rparr>)) = Inr ()"
  by code_simp+

theorem services_bootstrapped_witness:
  "fst (bootstrap_services (zod (\<lambda>_ _. True)) containsSecretShape demo_declaration (demo_world\<lparr>db := empty_db\<rparr>)) = Inr ()
   \<and> has_declared (db (snd (bootstrap_services (zod (\<lambda>_ _. True)) containsSecretShape demo_declaration (demo_world\<lparr>db := empty_db\<rparr>)))) (hd (services_of demo_declaration))"
proof -
  have "keyed (db (demo_world\<lparr>db := empty_db\<rparr>))" by (simp add: keyed_def empty_db_def)
  from services_bootstrapped [where parse = "zod (\<lambda>_ _. True)" and raw = demo_declaration and check = containsSecretShape
      and r = "fst (bootstrap_services (zod (\<lambda>_ _. True)) containsSecretShape demo_declaration (demo_world\<lparr>db := empty_db\<rparr>))"
      and w' = "snd (bootstrap_services (zod (\<lambda>_ _. True)) containsSecretShape demo_declaration (demo_world\<lparr>db := empty_db\<rparr>))", OF this demo_bootstraps(1,2) prod.collapse [symmetric]]
  have "\<forall>s \<in> set (services_of demo_declaration). has_declared (db (snd (bootstrap_services (zod (\<lambda>_ _. True)) containsSecretShape demo_declaration (demo_world\<lparr>db := empty_db\<rparr>)))) s"
    using demo_bootstraps(3) by simp
  moreover have "services_of demo_declaration \<noteq> []" by code_simp
  ultimately show ?thesis using demo_bootstraps(3) by simp
qed

section \<open>Another run\<close>

lemma update_same: "(\<And>x. x \<in> set rs \<Longrightarrow> p x \<Longrightarrow> g x = x) \<Longrightarrow> update_where p g rs = rs"
  by (induction rs) (auto simp: update_where_def)

lemma upsert_service_same:
  assumes "keyed d" "has_service d s i" "upsert_service check k s d = Inr (j, d')"
  shows "j = i \<and> d' = d"
proof -
  from assms(2) obtain x where x: "x \<in> set (services d)" "sv_id x = i" "sv_name x = ascii (sd_name s)" "sv_adapter x = ascii (sd_adapter s)" "sv_config x = sd_config s"
    unfolding has_service_def by blast
  have only: "y = x" if "y \<in> set (services d)" "sv_name y = ascii (sd_name s)" for y
    using assms(1) that x(1,3) unfolding keyed_def distinct_map inj_on_def by metis
  have upd: "update_where (\<lambda>x. sv_name x = ascii (sd_name s)) (\<lambda>x. x\<lparr>sv_adapter := ascii (sd_adapter s), sv_config := sd_config s\<rparr>) (services d) = services d"
    by (rule update_same) (use only x(4,5) in fastforce)
  obtain y ys where y: "filter (\<lambda>x. sv_name x = ascii (sd_name s)) (services d) = y # ys" using x(1,3) by (cases "filter (\<lambda>x. sv_name x = ascii (sd_name s)) (services d)") (auto simp: filter_empty_conv)
  then have "y \<in> set (filter (\<lambda>x. sv_name x = ascii (sd_name s)) (services d))" by simp
  then have "y = x" using only by simp
  then show ?thesis using assms(3) x(2) y upd by (auto simp: upsert_service_def split: if_splits)
qed

lemma upsert_reference_same:
  assumes "keyed d" "has_reference d k r" "upsert_reference check i k r d = Inr (u, d')"
  shows "d' = d"
proof -
  from assms(2) obtain c where c: "c \<in> set (credential_refs d)" "cr_service_id c = k" "cr_role c = ascii (rd_role r)"
    "cr_backend c = ascii (rd_backend r)" "cr_backend_path c = ascii (rd_backendPath r)" unfolding has_reference_def by blast
  have only: "y = c" if "y \<in> set (credential_refs d)" "cr_service_id y = k" "cr_role y = ascii (rd_role r)" for y
    using assms(1) that c(1-3) unfolding keyed_def distinct_map inj_on_def by (metis prod.inject)
  have "update_where (\<lambda>c. cr_service_id c = k \<and> cr_role c = ascii (rd_role r)) (\<lambda>c. c\<lparr>cr_backend := ascii (rd_backend r), cr_backend_path := ascii (rd_backendPath r)\<rparr>) (credential_refs d) = credential_refs d"
    by (rule update_same) (use only c(4,5) in fastforce)
  moreover have "list_ex (\<lambda>c. cr_service_id c = k \<and> cr_role c = ascii (rd_role r)) (credential_refs d)" using c by (auto simp: list_ex_iff)
  ultimately show ?thesis using assms(3) by (auto simp: upsert_reference_def Let_def split: if_splits)
qed

lemma bootstrap_service_same:
  assumes "keyed d" "has_declared d s"
  shows "triple (\<lambda>w. db w = d) (bootstrap_service check s) (\<lambda>_ w. db w = d) (\<lambda>_ _. True)"
proof -
  from assms(2) obtain i where i: "has_service d s i" "list_all (has_reference d i) (sd_credentialRefs s)" unfolding has_declared_def by blast
  have "triple (\<lambda>w. db w = d) (bnd uuidV7 (\<lambda>j. query (upsert_reference check j i r))) (\<lambda>_ w. db w = d) (\<lambda>_ _. True)" if "r \<in> set (sd_credentialRefs s)" for r
    by (rule triple_bnd [OF triple_uuid], simp, rule triple_query) (use upsert_reference_same [OF assms(1), of i r] i(2) that in \<open>auto simp: list_all_iff\<close>)
  then have loop: "triple (\<lambda>w. db w = d) (for_each (sd_credentialRefs s) (\<lambda>r. bnd uuidV7 (\<lambda>j. query (upsert_reference check j i r)))) (\<lambda>_ w. db w = d) (\<lambda>_ _. True)"
    by (intro triple_for_each) auto
  show ?thesis unfolding bootstrap_service_def
  proof (rule triple_bnd [OF triple_uuid])
    fix k
    have first: "triple (\<lambda>w. db w = d) (query (upsert_service check k s)) (\<lambda>j w. db w = d \<and> j = i) (\<lambda>_ _. True)"
      by (rule triple_query) (use upsert_service_same [OF assms(1) i(1)] in auto)
    show "triple (\<lambda>w. db w = d) (bnd (query (upsert_service check k s)) (\<lambda>serviceId.
       for_each (sd_credentialRefs s) (\<lambda>r. bnd uuidV7 (\<lambda>j. query (upsert_reference check j serviceId r))))) (\<lambda>_ w. db w = d) (\<lambda>_ _. True)"
      by (rule triple_bnd [OF first], rule triple_fact) (use loop in simp)
  qed simp
qed

text \<open>Where everything declared is in place, another run leaves the database exactly as it is, whether it returns or fails.\<close>

theorem bootstrap_idempotent:
  assumes "keyed (db w)" "parse DeclarationSchema raw = Some v" "\<forall>s \<in> set (services_of v). has_declared (db w) s" and run: "bootstrap_services parse check raw w = (r, w')"
  shows "db w' = db w"
proof (cases "list_all safe_declaration (services_of v)")
  case False
  then show ?thesis using run assms(2) by (auto simp: bootstrap_services_def assertSafeDeclaration_def bnd_def of_result_def)
next
  case True
  then have "transaction (for_each (services_of v) (bootstrap_service check)) w = (r, w')"
    using run assms(2) by (auto simp: bootstrap_services_def assertSafeDeclaration_def bnd_def of_result_def)
  then show ?thesis
  proof (cases rule: transaction_cases)
    case (committed x w2)
    have "triple (\<lambda>w'. db w' = db w) (for_each (services_of v) (bootstrap_service check)) (\<lambda>_ w'. db w' = db w) (\<lambda>_ _. True)"
      by (rule triple_for_each) (use bootstrap_service_same [OF assms(1)] assms(3) in auto)
    from triple_Inr [OF this _ committed(1)] show ?thesis using committed(3) by simp
  qed auto
qed

end
