(* ===== verification/Spec2Isabelle.thy ===== *)
theory Spec2Isabelle
  imports Local_Tools Lifecycle_Handlers Container_Driver Postgres_Adapter S3_Adapter Session_Roundtrip Scheduling Session_Lock Control_Server Transport_Host Host_Probes Service_Bootstrap
begin

text \<open>
  Caisson runs an untrusted agent in a sandbox and lets it act only through the host. This development models the host side, the
  TypeScript under \<^verbatim>\<open>apps\<close> and \<^verbatim>\<open>packages\<close>, and proves what makes it trustworthy: no action without identity, policy and a durable
  audit record; no secret in a record; no sandbox or snapshot outliving its session's keys; no request past the configured bounds.

  \<^bold>\<open>The program.\<close> The \<^emph>\<open>control plane\<close> (\<^verbatim>\<open>apps/control-plane\<close>) owns sessions: it boots a sandbox through an isolation driver, binds
  its transport to a session token, captures and restores snapshots, reconciles what a crash left behind, and serves the HTTP interface. The
  \<^emph>\<open>broker\<close> (\<^verbatim>\<open>apps/broker\<close>) accepts the guest's connections: a broker call goes from the peer's identity over the admission gate, the policy and
  the audit outbox to a secret and an adapter (HTTP, Postgres, S3); a local tool call is authorised here and run in the guest. The
  \<^emph>\<open>packages\<close> are shared: wire contracts and framing, audit, policy, secrets, isolation drivers, database schema. Both applications share
  one Postgres database and one admission gate; audit records go on to ClickHouse, snapshots to an object store.

  \<^bold>\<open>How code is read.\<close> An \<^verbatim>\<open>async\<close> function is a state transformer \<open>('s, 'a) proc\<close> that ends in a thrown error or a value (\<^verbatim>\<open>Prelude\<close>). The
  state is a record: \<open>world\<close> has the database (a table is the list of its rows), the ClickHouse rows, clock, entropy and the number of calls
  that have left the process, and components extend it. Whether a call succeeds, is lost, or takes effect although the caller sees an error
  is answered by an oracle indexed by the number of the call, so a theorem about every oracle covers every pattern of failure. At an \<^verbatim>\<open>await\<close> other
  handlers run: they are functions too (\<open>be_others\<close>, \<open>se_others\<close>, \<open>fe_others\<close>, \<open>ve_others\<close>, applied by \<open>pause\<close> and
  \<open>await\<close>), about which the theorems assume only the protocol that the same handlers are proved to keep (\<open>rely\<close>, \<open>keep\<close>, \<open>polite\<close>,
  \<open>calm\<close>, \<open>courteous\<close>). Sockets are machines over their events, timers and promises included. Strings are lists of UTF-16 code units
  (\<open>utf16\<close>) where text is measured or cut, JSON a datatype, bytes \<open>8 word\<close>; the 32-bit operators of JavaScript are words, its integers
  \<open>int\<close> and \<open>rat\<close>. Database work is serial: statements and transactions of one handler run between those of others.

  \<^bold>\<open>Theories, sources and results.\<close>
  \<^item> \<^verbatim>\<open>Prelude\<close> (\<^verbatim>\<open>errors.ts\<close>, procedures, Hoare rules), \<^verbatim>\<open>Js_Text\<close> (text, UTF-8; \<^verbatim>\<open>truncateUtf8\<close>), \<^verbatim>\<open>Json\<close> (the two secret scans; \<open>containsSecretShape_iff\<close>
    says exactly what is found), \<^verbatim>\<open>World\<close> (\<^verbatim>\<open>schema.ts\<close>, faults, \<^verbatim>\<open>uuidV7\<close>).
  \<^item> \<^verbatim>\<open>Framing\<close>: \<^verbatim>\<open>framing.ts\<close>, \<^verbatim>\<open>framed-broker-server.ts\<close>, \<^verbatim>\<open>local-tool-client.ts\<close>. Frames round-trip; a connection dispatches at most one exact payload, however the bytes
    arrive.
  \<^item> \<^verbatim>\<open>Action_Gate\<close>: \<^verbatim>\<open>session-action-gate.ts\<close>. Capture excludes actions, leases are counted exactly, a capture that waits can go on (locale \<open>admission_gate\<close>).
  \<^item> \<^verbatim>\<open>Audit_Outbox\<close>, \<^verbatim>\<open>Audit_Trail\<close>: \<^verbatim>\<open>outbox.ts\<close>. Sequence numbers without gap, no loss, at most one copy in ClickHouse, durability before execution,
    recovery (locales \<open>audit_sink\<close>, \<open>live_audit_sink\<close>, interpreted on the ClickHouse client).
  \<^item> \<^verbatim>\<open>Schemas\<close>: \<^verbatim>\<open>schemas.ts\<close>, each schema a value; the schema library is the locale \<open>schema_library\<close>, with \<open>zod\<close> as an instance. \<^verbatim>\<open>Policy\<close>: \<^verbatim>\<open>policy-evaluator.ts\<close>
    and \<^verbatim>\<open>system-audit.ts\<close>, fail-closed. \<^verbatim>\<open>Secrets\<close>: \<^verbatim>\<open>packages/secrets\<close>, opaque errors and confined Vault requests.
  \<^item> \<^verbatim>\<open>Session_Identity\<close>: \<^verbatim>\<open>session-state-machine.ts\<close>, \<^verbatim>\<open>session-identity.ts\<close>. A peer resolves only to the session bound to it.
  \<^item> \<^verbatim>\<open>Broker_Pipeline\<close>: \<^verbatim>\<open>broker-pipeline.ts\<close>, \<^verbatim>\<open>database-service-resolver.ts\<close>. Every effect is authorised and audited first, the lease is always given
    back. \<^verbatim>\<open>Local_Tools\<close>: \<^verbatim>\<open>local-tool-pipeline.ts\<close>, \<^verbatim>\<open>local-tool-server.ts\<close>, the same for tools in the guest, and every connection ends.
  \<^item> \<^verbatim>\<open>Aes_Gcm\<close>, \<^verbatim>\<open>Snapshot_Crypto\<close>, \<^verbatim>\<open>Session_Snapshots\<close>, \<^verbatim>\<open>Snapshot_Protocol\<close>: \<^verbatim>\<open>session-snapshot-crypto.ts\<close>, \<^verbatim>\<open>session-snapshot-service.ts\<close> with the cipher defined
    from its standard (locale \<open>aead\<close>). Keys round-trip; an erased snapshot stays erased and queued for deletion; retention bounds hold. \<^verbatim>\<open>Rely_Guarantee\<close> has the rules
    for handlers that share the database (locale \<open>protocol\<close>, extended by \<open>snapshot_protocol\<close>).
  \<^item> \<^verbatim>\<open>Lifecycle\<close>, \<^verbatim>\<open>Lifecycle_Safety\<close>, \<^verbatim>\<open>Lifecycle_Handlers\<close>: \<^verbatim>\<open>session-lifecycle.ts\<close>. The audit trail of a session refines the session state machine, a terminated session
    has no peer, token or key, a created one is usable. \<^verbatim>\<open>Session_Lock\<close>: \<^verbatim>\<open>#withSessionLock\<close> and \<^verbatim>\<open>boot-sandbox.ts\<close>; the lock excludes, is fair, and forgets.
  \<^item> \<^verbatim>\<open>Http_Adapter\<close>, \<^verbatim>\<open>Ip_Address\<close>, \<^verbatim>\<open>Binary_Content\<close>, \<^verbatim>\<open>Postgres_Adapter\<close>, \<^verbatim>\<open>S3_Adapter\<close>: the adapters of the broker. Which requests, statements and commands can be sent at all; the address
    check agrees with a reference over octets and groups.
  \<^item> \<^verbatim>\<open>Firecracker_Driver\<close>, \<^verbatim>\<open>Firecracker_Api\<close>, \<^verbatim>\<open>Guest_Handshake\<close>, \<^verbatim>\<open>Container_Driver\<close>, \<^verbatim>\<open>Host_Probes\<close>: \<^verbatim>\<open>packages/isolation\<close>. Guest context identifiers are exclusive, retries end,
    verdicts do not depend on how a socket cuts its bytes. \<^verbatim>\<open>Transport_Host\<close>: \<^verbatim>\<open>firecracker-vsock-transport-host.ts\<close>; no listener is lost unless setting permissions fails.
  \<^item> \<^verbatim>\<open>Node_Files\<close>, \<^verbatim>\<open>Base_Snapshots\<close>, \<^verbatim>\<open>Session_Store\<close>, \<^verbatim>\<open>Session_Roundtrip\<close>: \<^verbatim>\<open>snapshot-storage.ts\<close>, \<^verbatim>\<open>session-snapshot-storage.ts\<close> over a model of paths, files and an object store. A cache entry
    holds only artifacts of an authenticated manifest; what is stored is restored byte for byte; the manifest is deleted last. The provider of manifest keys is the locale \<open>manifest_keys\<close>.
  \<^item> \<^verbatim>\<open>Scheduling\<close>: \<^verbatim>\<open>snapshot-catalog.ts\<close>, \<^verbatim>\<open>snapshot-scheduler.ts\<close>, \<^verbatim>\<open>session-reaper.ts\<close>, \<^verbatim>\<open>periodic-reconciler.ts\<close>. Promotion is atomic, a pass of the reaper complete, runs never overlap.
    \<^verbatim>\<open>Control_Server\<close>: \<^verbatim>\<open>server.ts\<close>. Every reply has a type of the protocol; a policy simulation is answered only when audited.
  \<^item> \<^verbatim>\<open>Service_Bootstrap\<close>: \<^verbatim>\<open>scripts/bootstrap-services.mjs\<close>. The declared services appear as a whole, as the broker's resolver reads them, and another run changes nothing.

  \<^bold>\<open>Bounds.\<close> Loops over data are structural recursions. Loops that wait for a clock (entropy refresh, resume, development probe) are \<open>partial_function\<close> into
  \<open>option\<close>, and are shown to return when the clock advances between attempts; waiting for a Firecracker socket is the source's own bound of 100 looks. No
  other definition has fuel, but for the size-bounded reader of \<open>Session_Roundtrip\<close>, which serves a witness only.

  \<^bold>\<open>Parameters.\<close> What is not in the repository is an argument: the schema library, OPA, argon2, the SQL parser, the URL parser and resolver, the clients of ClickHouse,
  S3, Vault and Postgres servers, the digests and compression of Node, \<^verbatim>\<open>JSON.parse\<close> and \<^verbatim>\<open>JSON.stringify\<close>, and the answers of Firecracker, docker and the guest. Named hypotheses
  state what the code relies on, and each property that has one has a witness with a concrete instance.

  \<^bold>\<open>Not modelled.\<close> \<^verbatim>\<open>packages/telemetry\<close> (spans record attributes and never change a result; identifiers of the active trace are a parameter), the \<^verbatim>\<open>index.ts\<close> re-exports, the
  guest's programs under \<^verbatim>\<open>guest\<close> (not TypeScript), the other \<^verbatim>\<open>scripts\<close> and the \<^verbatim>\<open>benchmarks\<close> (command line tools around docker, debugfs and a live Firecracker), the migrations' SQL apart from
  the constraints the statements can violate, and tests. Within modelled files: constructors that only store their options, type declarations without behaviour, log output, and overwriting key
  buffers.
\<close>

end
